(* ===== verification/Prelude.thy ===== *)
theory Prelude
  imports "HOL-Library.Word" "HOL-Library.Monad_Syntax"
begin

text \<open>
  Shared vocabulary of the development: the machine types of the C and C++ sources, the
  outcome types of operations that can go wrong, byte memories, and the generic lemmas on
  lists, options and words that several components use. Nothing here models a particular
  source file.

  Conventions used by every component theory:
  \<^item> an \<open>int\<close> or \<open>unsigned int\<close> is a 32-bit word and a \<open>size_t\<close> or \<open>uint64_t\<close> a
    64-bit word wherever wrap-around or sign matters;
  \<^item> a pointer is \<open>nat option\<close>, with \<open>None\<close> for the null pointer, and a heap is a finite
    map from addresses to records;
  \<^item> an operation that dereferences pointers lives in the option monad: \<open>None\<close> is
    undefined behaviour (a wild or null dereference, an access outside an object) or a
    loop that does not end, so a theorem \<open>f x = Some y\<close> states that the operation is
    memory safe, returns, and returns \<open>y\<close>.
\<close>

unbundle bit_operations_syntax

section \<open>Machine types\<close>

type_synonym u8 = "8 word"
type_synonym u16 = "16 word"
type_synonym u32 = "32 word"
type_synonym u64 = "64 word"

type_synonym bytes = "u8 list"
type_synonym mem = "nat \<Rightarrow> u8"
type_synonym ptr = "nat option"

section \<open>Collections of facts\<close>

named_theorems wrap_simps "reading machine words as natural numbers"
named_theorems inv_intros "introduction rules for representation invariants"

section \<open>Words\<close>

lemma unat_of_nat32 [wrap_simps]: "unat (of_nat n :: u32) = n mod 2 ^ 32"
  by (simp add: unat_of_nat)

lemma unat_of_nat64 [wrap_simps]: "unat (of_nat n :: u64) = n mod 2 ^ 64"
  by (simp add: unat_of_nat)

lemma bit_ucast_u8: "bit (ucast (x :: u8) :: u32) n \<longleftrightarrow> n < 8 \<and> bit x n"
  by (auto simp: bit_simps dest: bit_imp_le_length)

text \<open>Signed comparisons of 32-bit words, read through the unsigned values.\<close>

lemma sint_u32: "sint (w :: u32) = (if uint w < 2 ^ 31 then uint w else uint w - 2 ^ 32)"
proof -
  have s: "sint w = (uint w + 2 ^ 31) mod 2 ^ 32 - 2 ^ 31"
    by (simp add: sint_uint signed_take_bit_eq_take_bit_shift take_bit_eq_mod)
  have b: "uint w < 2 ^ 32" "0 \<le> uint w" using uint_lt2p [of w] by auto
  show ?thesis
  proof (cases "uint w < 2 ^ 31")
    case True
    with b have "(uint w + 2 ^ 31) mod 2 ^ 32 = uint w + 2 ^ 31" by (intro mod_pos_pos_trivial) auto
    with True s show ?thesis by simp
  next
    case False
    have "(uint w + 2 ^ 31) mod 2 ^ 32 = (uint w - 2 ^ 31 + 2 ^ 32) mod 2 ^ 32" by (simp add: add.commute)
    also have "\<dots> = (uint w - 2 ^ 31) mod 2 ^ 32" by (rule mod_add_self2)
    also have "\<dots> = uint w - 2 ^ 31" using False b by (intro mod_pos_pos_trivial) auto
    finally show ?thesis using False s by simp
  qed
qed

lemma sint_unat32: "sint (w :: u32) = (if unat w < 2 ^ 31 then int (unat w) else int (unat w) - 2 ^ 32)"
proof -
  have "unat w < 2 ^ 31 \<longleftrightarrow> int (unat w) < int (2 ^ 31)" by (rule of_nat_less_iff[symmetric])
  then show ?thesis unfolding sint_u32 by simp
qed

lemma unat_lt32: "unat (w :: u32) < 2 ^ 32"
  using unsigned_less [of w] by simp

lemma unat_minus_one32 [simp]: "unat (-1 :: u32) = 4294967295"
  by (simp add: unsigned_minus_1_eq_mask mask_eq_exp_minus_1)

lemma sless_small32:
  "unat (v :: u32) < 2 ^ 31 \<Longrightarrow> unat w < 2 ^ 31 \<Longrightarrow> v <s w \<longleftrightarrow> unat v < unat w"
  unfolding word_sless_alt sint_unat32 by (simp only: if_True of_nat_less_iff)

lemma pos_u32: "0 <s (w :: u32) \<longleftrightarrow> 0 < unat w \<and> unat w < 2 ^ 31"
proof (cases "unat w < 2 ^ 31")
  case True then show ?thesis using sless_small32[of 0 w] by simp
next
  case False
  have "int (unat w) < int (2 ^ 32)" using unat_lt32 [of w] by (simp only: of_nat_less_iff)
  with False show ?thesis unfolding word_sless_alt sint_unat32 by simp
qed

section \<open>Heaps of records\<close>

text \<open>Writing a field through a pointer: undefined when nothing lives at the address.\<close>

definition heap_upd :: "(nat \<rightharpoonup> 'a) \<Rightarrow> nat \<Rightarrow> ('a \<Rightarrow> 'a) \<Rightarrow> (nat \<rightharpoonup> 'a) option" where
  "heap_upd h p f = (case h p of None \<Rightarrow> None | Some x \<Rightarrow> Some (h(p \<mapsto> f x)))"

lemma heap_upd_Some [simp]: "h p = Some x \<Longrightarrow> heap_upd h p f = Some (h(p \<mapsto> f x))"
  by (simp add: heap_upd_def)

lemma heap_upd_eq_Some_iff:
  "heap_upd h p f = Some h' \<longleftrightarrow> (\<exists>x. h p = Some x \<and> h' = h(p \<mapsto> f x))"
  by (auto simp: heap_upd_def split: option.splits)

section \<open>Byte buffers\<close>

text \<open>
  \<open>memcpy\<close> out of and into an object of known size; an access outside the object is
  undefined.
\<close>

definition read_bytes :: "bytes \<Rightarrow> nat \<Rightarrow> nat \<Rightarrow> bytes option" where
  "read_bytes buf off n = (if off + n \<le> length buf then Some (take n (drop off buf)) else None)"

definition write_bytes :: "bytes \<Rightarrow> nat \<Rightarrow> bytes \<Rightarrow> bytes option" where
  "write_bytes buf off xs =
     (if off + length xs \<le> length buf
      then Some (take off buf @ xs @ drop (off + length xs) buf) else None)"

lemma read_bytes_Some: "off + n \<le> length buf \<Longrightarrow> read_bytes buf off n = Some (take n (drop off buf))"
  by (simp add: read_bytes_def)

lemma write_bytes_Some:
  "off + length xs \<le> length buf \<Longrightarrow>
   write_bytes buf off xs = Some (take off buf @ xs @ drop (off + length xs) buf)"
  by (simp add: write_bytes_def)

lemma length_write_bytes: "write_bytes buf off xs = Some buf' \<Longrightarrow> length buf' = length buf"
  by (auto simp: write_bytes_def split: if_splits)

text \<open>A block of a buffer, and what a write leaves of the blocks it covers and does not cover.\<close>

definition block :: "bytes \<Rightarrow> nat \<Rightarrow> nat \<Rightarrow> bytes" where
  "block buf off n = take n (drop off buf)"

lemma length_block [simp]: "off + n \<le> length buf \<Longrightarrow> length (block buf off n) = n"
  by (simp add: block_def)

lemma block_write_other:
  assumes "write_bytes buf off xs = Some buf'" and "a + n \<le> off \<or> off + length xs \<le> a"
  shows "block buf' a n = block buf a n"
proof -
  have buf': "buf' = take off buf @ xs @ drop (off + length xs) buf" and "off + length xs \<le> length buf"
    using assms(1) by (auto simp: write_bytes_def split: if_splits)
  show ?thesis
  proof (cases "a + n \<le> off")
    case True
    then show ?thesis using \<open>off + length xs \<le> length buf\<close>
      by (simp add: block_def buf' take_drop min_absorb1)
  next
    case False
    with assms(2) have "off + length xs \<le> a" by simp
    then show ?thesis using \<open>off + length xs \<le> length buf\<close>
      by (simp add: block_def buf' min_absorb2)
  qed
qed

lemma block_write_same:
  assumes "write_bytes buf off xs = Some buf'" and "length xs \<le> n" and "off + n \<le> length buf"
  shows "block buf' off n = xs @ drop (length xs) (block buf off n)"
proof -
  have buf': "buf' = take off buf @ xs @ drop (off + length xs) buf"
    using assms(1) by (auto simp: write_bytes_def split: if_splits)
  have "take n (xs @ drop (off + length xs) buf) = xs @ take (n - length xs) (drop (off + length xs) buf)"
    using assms(2) by simp
  also have "take (n - length xs) (drop (off + length xs) buf) = drop (length xs) (take n (drop off buf))"
    by (simp add: drop_take add.commute)
  finally show ?thesis using assms(3)
    by (simp add: block_def buf')
qed

section \<open>Lists\<close>

lemma nth_append_Cons: "n = length xs \<Longrightarrow> (xs @ y # ys) ! n = y"
  by simp

lemma Cons_eq_drop:
  assumes "y # ys = drop n xs"
  shows "n < length xs" "y = xs ! n" "ys = drop (Suc n) xs"
proof -
  show n: "n < length xs"
  proof (rule ccontr)
    assume "\<not> n < length xs"
    with assms show False by simp
  qed
  have "y # ys = xs ! n # drop (Suc n) xs" using assms Cons_nth_drop_Suc [OF n] by simp
  then show "y = xs ! n" "ys = drop (Suc n) xs" by simp_all
qed

end
