(* ===== verification/Hash.thy ===== *)
theory Hash
  imports Prelude
begin

text \<open>
  The key hash of \<open>hashtable/hash.c\<close> (Bob Jenkins' lookup3). The source holds two
  variants selected by the preprocessor, one for little-endian and one for big-endian
  machines, and within each variant the code path depends on the alignment of the key
  pointer: whole 32-bit words, 16-bit halves (little-endian only) or single bytes.

  The key is a pointer into a byte memory (\<open>mem\<close>, address to byte) and a length. The word
  reads of the aligned paths are the little- or big-endian loads of that memory, and the
  32-bit path reads whole words even past the end of the key, as the source does.

  Main results: \<open>mix\<close> and \<open>final\<close> are reversible; all paths of one variant compute the same
  value; and the value depends on nothing but the bytes of the key and the initial value.
\<close>

section \<open>Mixing\<close>

definition rot :: "u32 \<Rightarrow> nat \<Rightarrow> u32" where
  "rot x k = push_bit k x XOR drop_bit (32 - k) x"

type_synonym abc = "u32 \<times> u32 \<times> u32"

text \<open>
  Every line of the \<open>mix\<close> macro is the arrangement \<open>a -= c; a ^= rot(c,k); c += b\<close> with the
  roles of \<open>a\<close>, \<open>b\<close>, \<open>c\<close> rotated, and every line of \<open>final\<close> is \<open>c ^= b; c -= rot(b,k)\<close>.
\<close>

definition mix_line :: "nat \<Rightarrow> abc \<Rightarrow> abc" where
  "mix_line k s = (let (a, b, c) = s; a = a - c; a = a XOR rot c k; c = c + b in (a, b, c))"

definition mix :: "abc \<Rightarrow> abc" where
  "mix s = (let (a, b, c) = s;
     (a, b, c) = mix_line 4 (a, b, c);
     (b, c, a) = mix_line 6 (b, c, a);
     (c, a, b) = mix_line 8 (c, a, b);
     (a, b, c) = mix_line 16 (a, b, c);
     (b, c, a) = mix_line 19 (b, c, a);
     (c, a, b) = mix_line 4 (c, a, b)
   in (a, b, c))"

definition final_line :: "nat \<Rightarrow> u32 \<Rightarrow> u32 \<Rightarrow> u32" where
  "final_line k x y = (let x = x XOR y in x - rot y k)"

definition final :: "abc \<Rightarrow> abc" where
  "final s = (let (a, b, c) = s;
     c = final_line 14 c b;
     a = final_line 11 a c;
     b = final_line 25 b a;
     c = final_line 16 c b;
     a = final_line 4 a c;
     b = final_line 14 b a;
     c = final_line 24 c b
   in (a, b, c))"

text \<open>The inverse passes, read off the statements from last to first.\<close>

definition unmix_line :: "nat \<Rightarrow> abc \<Rightarrow> abc" where
  "unmix_line k s = (let (a, b, c) = s; c = c - b; a = a XOR rot c k; a = a + c in (a, b, c))"

definition unmix :: "abc \<Rightarrow> abc" where
  "unmix s = (let (a, b, c) = s;
     (c, a, b) = unmix_line 4 (c, a, b);
     (b, c, a) = unmix_line 19 (b, c, a);
     (a, b, c) = unmix_line 16 (a, b, c);
     (c, a, b) = unmix_line 8 (c, a, b);
     (b, c, a) = unmix_line 6 (b, c, a);
     (a, b, c) = unmix_line 4 (a, b, c)
   in (a, b, c))"

definition unfinal_line :: "nat \<Rightarrow> u32 \<Rightarrow> u32 \<Rightarrow> u32" where
  "unfinal_line k x y = (let x = x + rot y k in x XOR y)"

definition unfinal :: "abc \<Rightarrow> abc" where
  "unfinal s = (let (a, b, c) = s;
     c = unfinal_line 24 c b;
     b = unfinal_line 14 b a;
     a = unfinal_line 4 a c;
     c = unfinal_line 16 c b;
     b = unfinal_line 25 b a;
     a = unfinal_line 11 a c;
     c = unfinal_line 14 c b
   in (a, b, c))"

lemma xor_cancel [simp]: "(x XOR y) XOR y = (x :: u32)"
  by (simp add: xor.assoc)

lemma unmix_line_inverse [simp]: "unmix_line k (mix_line k s) = s"
  by (cases s) (simp add: mix_line_def unmix_line_def Let_def)

lemma mix_line_inverse [simp]: "mix_line k (unmix_line k s) = s"
  by (cases s) (simp add: mix_line_def unmix_line_def Let_def)

lemma final_line_inverse [simp]:
  "unfinal_line k (final_line k x y) y = x" "final_line k (unfinal_line k x y) y = x"
  by (simp_all add: final_line_def unfinal_line_def Let_def)

lemma mix_line_eqD: "mix_line k s = t \<Longrightarrow> unmix_line k t = s"
  by (metis unmix_line_inverse)

lemma unmix_line_eqD: "unmix_line k s = t \<Longrightarrow> mix_line k t = s"
  by (metis mix_line_inverse)

lemma unmix_mix [simp]: "unmix (mix (a, b, c)) = (a, b, c)"
proof -
  obtain a1 b1 c1 where 1: "mix_line 4 (a, b, c) = (a1, b1, c1)" by (cases "mix_line 4 (a, b, c)")
  obtain a2 b2 c2 where 2: "mix_line 6 (b1, c1, a1) = (b2, c2, a2)" by (cases "mix_line 6 (b1, c1, a1)")
  obtain a3 b3 c3 where 3: "mix_line 8 (c2, a2, b2) = (c3, a3, b3)" by (cases "mix_line 8 (c2, a2, b2)")
  obtain a4 b4 c4 where 4: "mix_line 16 (a3, b3, c3) = (a4, b4, c4)" by (cases "mix_line 16 (a3, b3, c3)")
  obtain a5 b5 c5 where 5: "mix_line 19 (b4, c4, a4) = (b5, c5, a5)" by (cases "mix_line 19 (b4, c4, a4)")
  obtain a6 b6 c6 where 6: "mix_line 4 (c5, a5, b5) = (c6, a6, b6)" by (cases "mix_line 4 (c5, a5, b5)")
  show ?thesis
    by (simp add: mix_def unmix_def 1 2 3 4 5 6 [THEN mix_line_eqD] 1 [THEN mix_line_eqD]
        2 [THEN mix_line_eqD] 3 [THEN mix_line_eqD] 4 [THEN mix_line_eqD] 5 [THEN mix_line_eqD] 6)
qed

lemma mix_unmix [simp]: "mix (unmix (a, b, c)) = (a, b, c)"
proof -
  obtain a1 b1 c1 where 1: "unmix_line 4 (c, a, b) = (c1, a1, b1)" by (cases "unmix_line 4 (c, a, b)")
  obtain a2 b2 c2 where 2: "unmix_line 19 (b1, c1, a1) = (b2, c2, a2)" by (cases "unmix_line 19 (b1, c1, a1)")
  obtain a3 b3 c3 where 3: "unmix_line 16 (a2, b2, c2) = (a3, b3, c3)" by (cases "unmix_line 16 (a2, b2, c2)")
  obtain a4 b4 c4 where 4: "unmix_line 8 (c3, a3, b3) = (c4, a4, b4)" by (cases "unmix_line 8 (c3, a3, b3)")
  obtain a5 b5 c5 where 5: "unmix_line 6 (b4, c4, a4) = (b5, c5, a5)" by (cases "unmix_line 6 (b4, c4, a4)")
  obtain a6 b6 c6 where 6: "unmix_line 4 (a5, b5, c5) = (a6, b6, c6)" by (cases "unmix_line 4 (a5, b5, c5)")
  show ?thesis
    by (simp add: mix_def unmix_def 1 2 3 4 5 6 1 [THEN unmix_line_eqD] 2 [THEN unmix_line_eqD]
        3 [THEN unmix_line_eqD] 4 [THEN unmix_line_eqD] 5 [THEN unmix_line_eqD] 6 [THEN unmix_line_eqD])
qed

lemma unfinal_final [simp]: "unfinal (final s) = s"
  by (cases s) (simp add: final_def unfinal_def Let_def)

lemma final_unfinal [simp]: "final (unfinal s) = s"
  by (cases s) (simp add: final_def unfinal_def Let_def)

text \<open>The rotation macro is a rotation for the shift counts the code uses.\<close>

lemma rot_is_rotation: "0 < k \<Longrightarrow> k < 32 \<Longrightarrow> rot x k = word_rotl k x"
proof (rule bit_word_eqI)
  fix n assume k: "0 < k" "k < 32" and n: "n < LENGTH(32)"
  show "bit (rot x k) n \<longleftrightarrow> bit (word_rotl k x) n"
  proof (cases "k \<le> n")
    case True
    then have "\<not> bit x (n + 32 - k)" using n k by (auto dest: bit_imp_le_length)
    moreover have "(n + 32 - k) mod 32 = n - k" using True n k by (simp add: mod_if)
    ultimately show ?thesis using True n k
      by (auto simp: rot_def bit_simps bit_word_rotl_iff dest: bit_imp_le_length)
  next
    case False
    then have "(n + 32 - k) mod 32 = n + 32 - k" using n k by simp
    then show ?thesis using False n k
      by (auto simp: rot_def bit_simps bit_word_rotl_iff add.commute [of 32])
  qed
qed

section \<open>Little-endian variant\<close>

text \<open>Aligned 16- and 32-bit reads on a little-endian machine.\<close>

definition ld16 :: "mem \<Rightarrow> nat \<Rightarrow> u32" where
  "ld16 m p = ucast (m p) OR push_bit 8 (ucast (m (p + 1)))"

definition ld32 :: "mem \<Rightarrow> nat \<Rightarrow> u32" where
  "ld32 m p = ucast (m p) OR push_bit 8 (ucast (m (p + 1)))
     OR push_bit 16 (ucast (m (p + 2))) OR push_bit 24 (ucast (m (p + 3)))"

definition ld8 :: "mem \<Rightarrow> nat \<Rightarrow> u32" where
  "ld8 m p = ucast (m p)"

subsection \<open>Reading 32-bit chunks\<close>

fun loop32 :: "mem \<Rightarrow> nat \<Rightarrow> nat \<Rightarrow> abc \<Rightarrow> nat \<times> nat \<times> abc" where
  "loop32 m k len (a, b, c) =
     (if 12 < len
      then loop32 m (k + 12) (len - 12) (mix (a + ld32 m k, b + ld32 m (k + 4), c + ld32 m (k + 8)))
      else (k, len, (a, b, c)))"

declare loop32.simps [simp del]

definition tail32 :: "mem \<Rightarrow> nat \<Rightarrow> nat \<Rightarrow> abc \<Rightarrow> abc" where
  "tail32 m k len s = (let (a, b, c) = s;
     k0 = ld32 m k; k1 = ld32 m (k + 4); k2 = ld32 m (k + 8)
   in if len = 12 then (a + k0, b + k1, c + k2)
      else if len = 11 then (a + k0, b + k1, c + (k2 AND 0xffffff))
      else if len = 10 then (a + k0, b + k1, c + (k2 AND 0xffff))
      else if len = 9 then (a + k0, b + k1, c + (k2 AND 0xff))
      else if len = 8 then (a + k0, b + k1, c)
      else if len = 7 then (a + k0, b + (k1 AND 0xffffff), c)
      else if len = 6 then (a + k0, b + (k1 AND 0xffff), c)
      else if len = 5 then (a + k0, b + (k1 AND 0xff), c)
      else if len = 4 then (a + k0, b, c)
      else if len = 3 then (a + (k0 AND 0xffffff), b, c)
      else if len = 2 then (a + (k0 AND 0xffff), b, c)
      else if len = 1 then (a + (k0 AND 0xff), b, c)
      else (a, b, c))"

subsection \<open>Reading 16-bit chunks\<close>

fun loop16 :: "mem \<Rightarrow> nat \<Rightarrow> nat \<Rightarrow> abc \<Rightarrow> nat \<times> nat \<times> abc" where
  "loop16 m k len (a, b, c) =
     (if 12 < len
      then loop16 m (k + 12) (len - 12)
             (mix (a + (ld16 m k + push_bit 16 (ld16 m (k + 2))),
                   b + (ld16 m (k + 4) + push_bit 16 (ld16 m (k + 6))),
                   c + (ld16 m (k + 8) + push_bit 16 (ld16 m (k + 10)))))
      else (k, len, (a, b, c)))"

declare loop16.simps [simp del]

definition tail16 :: "mem \<Rightarrow> nat \<Rightarrow> nat \<Rightarrow> abc \<Rightarrow> abc" where
  "tail16 m k len s = (let (a, b, c) = s;
     k01 = ld16 m k + push_bit 16 (ld16 m (k + 2));
     k23 = ld16 m (k + 4) + push_bit 16 (ld16 m (k + 6));
     k45 = ld16 m (k + 8) + push_bit 16 (ld16 m (k + 10))
   in if len = 12 then (a + k01, b + k23, c + k45)
      else if len = 11 then (a + k01, b + k23, c + push_bit 16 (ld8 m (k + 10)) + ld16 m (k + 8))
      else if len = 10 then (a + k01, b + k23, c + ld16 m (k + 8))
      else if len = 9 then (a + k01, b + k23, c + ld8 m (k + 8))
      else if len = 8 then (a + k01, b + k23, c)
      else if len = 7 then (a + k01, b + push_bit 16 (ld8 m (k + 6)) + ld16 m (k + 4), c)
      else if len = 6 then (a + k01, b + ld16 m (k + 4), c)
      else if len = 5 then (a + k01, b + ld8 m (k + 4), c)
      else if len = 4 then (a + k01, b, c)
      else if len = 3 then (a + push_bit 16 (ld8 m (k + 2)) + ld16 m k, b, c)
      else if len = 2 then (a + ld16 m k, b, c)
      else if len = 1 then (a + ld8 m k, b, c)
      else (a, b, c))"

subsection \<open>Reading single bytes\<close>

fun loop8 :: "mem \<Rightarrow> nat \<Rightarrow> nat \<Rightarrow> abc \<Rightarrow> nat \<times> nat \<times> abc" where
  "loop8 m k len (a, b, c) =
     (if 12 < len
      then loop8 m (k + 12) (len - 12)
        (mix (a + ld8 m k + push_bit 8 (ld8 m (k + 1)) + push_bit 16 (ld8 m (k + 2))
                + push_bit 24 (ld8 m (k + 3)),
              b + ld8 m (k + 4) + push_bit 8 (ld8 m (k + 5)) + push_bit 16 (ld8 m (k + 6))
                + push_bit 24 (ld8 m (k + 7)),
              c + ld8 m (k + 8) + push_bit 8 (ld8 m (k + 9)) + push_bit 16 (ld8 m (k + 10))
                + push_bit 24 (ld8 m (k + 11))))
      else (k, len, (a, b, c)))"

declare loop8.simps [simp del]

text \<open>
  The last block is a \<open>switch\<close> whose cases fall through: \<open>case n + 1\<close> adds byte \<open>n\<close> at its
  place in \<open>a\<close>, \<open>b\<close> or \<open>c\<close> and goes on with \<open>case n\<close>.
\<close>

definition case8 :: "mem \<Rightarrow> nat \<Rightarrow> nat \<Rightarrow> abc \<Rightarrow> abc" where
  "case8 m k n s = (let (a, b, c) = s in
     if n < 4 then (a + push_bit (8 * n) (ld8 m (k + n)), b, c)
     else if n < 8 then (a, b + push_bit (8 * (n - 4)) (ld8 m (k + n)), c)
     else (a, b, c + push_bit (8 * (n - 8)) (ld8 m (k + n))))"

fun tail8 :: "mem \<Rightarrow> nat \<Rightarrow> nat \<Rightarrow> abc \<Rightarrow> abc" where
  "tail8 m k 0 s = s"
| "tail8 m k (Suc n) s = tail8 m k n (case8 m k n s)"

subsection \<open>The function\<close>

definition hash_init :: "nat \<Rightarrow> u32 \<Rightarrow> abc" where
  "hash_init len initval = (let v = 0xdeadbeef + of_nat len + initval in (v, v, v))"

text \<open>A length of zero returns \<open>c\<close> without the final mixing.\<close>

definition hash_finish :: "nat \<Rightarrow> abc \<Rightarrow> u32" where
  "hash_finish len s = (let (a, b, c) = (if len = 0 then s else final s) in c)"

definition hash32 :: "mem \<Rightarrow> nat \<Rightarrow> nat \<Rightarrow> u32 \<Rightarrow> u32" where
  "hash32 m key len initval =
     (let (k, l, s) = loop32 m key len (hash_init len initval) in hash_finish l (tail32 m k l s))"

definition hash16 :: "mem \<Rightarrow> nat \<Rightarrow> nat \<Rightarrow> u32 \<Rightarrow> u32" where
  "hash16 m key len initval =
     (let (k, l, s) = loop16 m key len (hash_init len initval) in hash_finish l (tail16 m k l s))"

definition hash8 :: "mem \<Rightarrow> nat \<Rightarrow> nat \<Rightarrow> u32 \<Rightarrow> u32" where
  "hash8 m key len initval =
     (let (k, l, s) = loop8 m key len (hash_init len initval) in hash_finish l (tail8 m k l s))"

definition hash :: "mem \<Rightarrow> nat \<Rightarrow> nat \<Rightarrow> u32 \<Rightarrow> u32" where
  "hash m key len initval =
     (if key AND 0x3 = 0 then hash32 m key len initval
      else if key AND 0x1 = 0 then hash16 m key len initval
      else hash8 m key len initval)"

section \<open>All paths agree\<close>

text \<open>Word reads as sums of byte reads, and the masks as dropping the high bytes of the sum.\<close>

lemma ld16_bytes: "ld16 m p = ld8 m p + push_bit 8 (ld8 m (p + 1))"
  unfolding ld16_def ld8_def
  by (subst disjunctive_add_eq_or, (rule bit_word_eqI, auto simp: bit_simps dest: bit_imp_le_length)[1])+
    (rule refl)

lemma ld32_bytes:
  "ld32 m p = ld8 m p + push_bit 8 (ld8 m (p + 1)) + push_bit 16 (ld8 m (p + 2))
     + push_bit 24 (ld8 m (p + 3))"
  unfolding ld32_def ld8_def
  by (subst disjunctive_add_eq_or, (rule bit_word_eqI, auto simp: bit_simps dest: bit_imp_le_length)[1])+
    (simp add: or.assoc)

lemma ld32_mask3:
  "ld32 m p AND 0xffffff = ld8 m p + push_bit 8 (ld8 m (p + 1)) + push_bit 16 (ld8 m (p + 2))"
proof -
  have mask: "(0xffffff :: u32) = mask 24" by (simp add: mask_eq_exp_minus_1)
  show ?thesis unfolding ld32_def ld8_def mask
    by (subst disjunctive_add_eq_or, (rule bit_word_eqI, auto simp: bit_simps dest: bit_imp_le_length)[1])+
      (rule bit_word_eqI, auto simp: bit_simps dest: bit_imp_le_length)
qed

lemma ld32_mask2: "ld32 m p AND 0xffff = ld8 m p + push_bit 8 (ld8 m (p + 1))"
proof -
  have mask: "(0xffff :: u32) = mask 16" by (simp add: mask_eq_exp_minus_1)
  show ?thesis unfolding ld32_def ld8_def mask
    by (subst disjunctive_add_eq_or, (rule bit_word_eqI, auto simp: bit_simps dest: bit_imp_le_length)[1])+
      (rule bit_word_eqI, auto simp: bit_simps dest: bit_imp_le_length)
qed

lemma ld32_mask1: "ld32 m p AND 0xff = ld8 m p"
proof -
  have mask: "(0xff :: u32) = mask 8" by (simp add: mask_eq_exp_minus_1)
  show ?thesis unfolding ld32_def ld8_def mask
    by (rule bit_word_eqI) (auto simp: bit_simps dest: bit_imp_le_length)
qed

text \<open>
  The byte addresses are separate variables, tied to the first one by premises the simplifier
  discharges, so that the equations apply at any offset.
\<close>

lemma ld16_pair:
  "q = p + 2 \<Longrightarrow> ld16 m p + push_bit 16 (ld16 m q) = ld32 m p"
  by (simp add: ld16_bytes ld32_bytes push_bit_add add.assoc numeral_3_eq_3)

lemma add_ld32:
  "p1 = p + 1 \<Longrightarrow> p2 = p + 2 \<Longrightarrow> p3 = p + 3 \<Longrightarrow>
   a + ld8 m p + push_bit 8 (ld8 m p1) + push_bit 16 (ld8 m p2) + push_bit 24 (ld8 m p3) = a + ld32 m p"
  by (simp add: ld32_bytes add.assoc)

lemma loop8_by_words:
  "loop8 m k len (a, b, c) =
     (if 12 < len
      then loop8 m (k + 12) (len - 12) (mix (a + ld32 m k, b + ld32 m (k + 4), c + ld32 m (k + 8)))
      else (k, len, (a, b, c)))"
  by (simp add: loop8.simps [of m k] add_ld32)

lemma loop16_by_words:
  "loop16 m k len (a, b, c) =
     (if 12 < len
      then loop16 m (k + 12) (len - 12) (mix (a + ld32 m k, b + ld32 m (k + 4), c + ld32 m (k + 8)))
      else (k, len, (a, b, c)))"
  by (simp add: loop16.simps [of m k] ld16_pair)

lemma loop32_eq: "loop32 m k len s = loop8 m k len s"
proof (induction m k len s rule: loop32.induct)
  case (1 m k len a b c)
  then show ?case by (simp add: loop8_by_words [of m k] loop32.simps [of m k])
qed

lemma loop16_eq: "loop16 m k len s = loop32 m k len s"
proof (induction m k len s rule: loop32.induct)
  case (1 m k len a b c)
  then show ?case by (simp add: loop16_by_words [of m k] loop32.simps [of m k])
qed

lemma loop8_tail_short: "loop8 m k len s = (k', len', s') \<Longrightarrow> len' \<le> 12"
proof (induction m k len s rule: loop32.induct)
  case (1 m k len a b c)
  then show ?case by (cases "12 < len") (auto simp: loop8_by_words [of m k len a b c])
qed

lemma le12_cases:
  "n \<le> (12 :: nat) \<Longrightarrow> n \<in> {0, 1, 2, 3, 4, 5, 6, 7, 8, 9, 10, 11, 12}"
  by (simp add: eval_nat_numeral le_Suc_eq)

lemma tail8_unfold:
  "0 < n \<Longrightarrow> tail8 m k n s = tail8 m k (n - 1) (case8 m k (n - 1) s)"
  by (cases n) simp_all

lemma Suc3_eq_add: "Suc (Suc (Suc k)) = k + 3"
  by simp

lemmas tail_reads = Let_def case8_def tail8_unfold Suc3_eq_add push_bit_add ld16_bytes ld32_bytes
  add.assoc add.commute add.left_commute

lemma tail32_eq: "len \<le> 12 \<Longrightarrow> tail32 m k len (a, b, c) = tail8 m k len (a, b, c)"
  unfolding tail32_def Let_def prod.case ld32_mask1 ld32_mask2 ld32_mask3
  by (drule le12_cases) (elim insertE emptyE; simp add: tail_reads)

lemma tail16_eq: "len \<le> 12 \<Longrightarrow> tail16 m k len (a, b, c) = tail8 m k len (a, b, c)"
  by (drule le12_cases) (elim insertE emptyE; simp add: tail16_def tail_reads)

lemma hash32_eq_hash8: "hash32 m key len initval = hash8 m key len initval"
  by (auto simp: hash32_def hash8_def loop32_eq tail32_eq dest: loop8_tail_short split: prod.splits)

lemma hash16_eq_hash8: "hash16 m key len initval = hash8 m key len initval"
  by (auto simp: hash16_def hash8_def loop16_eq loop32_eq tail16_eq dest: loop8_tail_short split: prod.splits)

lemma hash_eq_hash8: "hash m key len initval = hash8 m key len initval"
  by (simp add: hash_def hash32_eq_hash8 hash16_eq_hash8)

subsection \<open>The value depends on the key bytes only\<close>

definition same_bytes :: "nat \<Rightarrow> mem \<Rightarrow> nat \<Rightarrow> mem \<Rightarrow> nat \<Rightarrow> bool" where
  "same_bytes len m key m' key' \<longleftrightarrow> (\<forall>i < len. m (key + i) = m' (key' + i))"

lemma same_bytesD: "same_bytes len m k m' k' \<Longrightarrow> i < len \<Longrightarrow> ld8 m (k + i) = ld8 m' (k' + i)"
  by (simp add: same_bytes_def ld8_def)

lemma same_bytes_shift:
  "same_bytes len m k m' k' \<Longrightarrow> d \<le> len \<Longrightarrow> same_bytes (len - d) m (k + d) m' (k' + d)"
  by (simp add: same_bytes_def add.assoc)

lemma same_bytes_ld32:
  assumes "same_bytes len m k m' k'" "d + 4 \<le> len"
  shows "ld32 m (k + d) = ld32 m' (k' + d)"
  using same_bytesD [OF assms(1), of d] same_bytesD [OF assms(1), of "d + 1"]
    same_bytesD [OF assms(1), of "d + 2"] same_bytesD [OF assms(1), of "d + 3"] assms(2)
  by (simp add: ld32_bytes add.assoc)

lemma loop8_cong:
  assumes "same_bytes len m k m' k'"
  shows "\<exists>d. d \<le> len \<and> fst (loop8 m k len s) = k + d \<and> fst (loop8 m' k' len s) = k' + d
    \<and> fst (snd (loop8 m k len s)) = len - d \<and> snd (loop8 m k len s) = snd (loop8 m' k' len s)"
  using assms
proof (induction m k len s arbitrary: k' rule: loop32.induct)
  case (1 m k len a b c)
  show ?case
  proof (cases "12 < len")
    case True
    have words: "ld32 m (k + i) = ld32 m' (k' + i)" if "i \<in> {0, 4, 8}" for i
      using same_bytes_ld32 [OF "1.prems", of i] True that by auto
    from "1.prems" have "same_bytes (len - 12) m (k + 12) m' (k' + 12)"
      by (rule same_bytes_shift) (use True in simp)
    from "1.IH" [OF True this] obtain d where "d \<le> len - 12" and d:
      "fst (loop8 m k len (a, b, c)) = k + (12 + d)" "fst (loop8 m' k' len (a, b, c)) = k' + (12 + d)"
      "fst (snd (loop8 m k len (a, b, c))) = len - (12 + d)"
      "snd (loop8 m k len (a, b, c)) = snd (loop8 m' k' len (a, b, c))"
      using True words [of 0] words [of 4] words [of 8]
      by (auto simp: loop8_by_words [of m k] loop8_by_words [of m' k'])
    with True show ?thesis by (intro exI [of _ "12 + d"]) simp
  next
    case False
    then show ?thesis by (intro exI [of _ 0]) (simp add: loop8_by_words [of _ _ len])
  qed
qed

lemma tail8_cong:
  "same_bytes len m k m' k' \<Longrightarrow> n \<le> len \<Longrightarrow> tail8 m k n s = tail8 m' k' n s"
proof (induction n arbitrary: s)
  case (Suc n)
  then show ?case by (cases s) (simp add: case8_def same_bytesD [OF Suc.prems(1), of n])
qed simp

lemma hash8_cong:
  assumes "same_bytes len m k m' k'"
  shows "hash8 m k len iv = hash8 m' k' len iv"
proof -
  obtain d where d: "d \<le> len" "fst (loop8 m k len (hash_init len iv)) = k + d"
    "fst (loop8 m' k' len (hash_init len iv)) = k' + d"
    "fst (snd (loop8 m k len (hash_init len iv))) = len - d"
    "snd (loop8 m k len (hash_init len iv)) = snd (loop8 m' k' len (hash_init len iv))"
    using loop8_cong [OF assms] by blast
  have "same_bytes (len - d) m (k + d) m' (k' + d)"
    by (rule same_bytes_shift [OF assms d(1)])
  then have "tail8 m (k + d) (len - d) s = tail8 m' (k' + d) (len - d) s" for s
    by (rule tail8_cong) simp
  with d(2-) show ?thesis
    by (auto simp: hash8_def split: prod.splits)
qed

text \<open>
  C28. The hash of a key depends on nothing but its bytes, its length and the initial value:
  where the key lies in memory (and so which of the three aligned read loops runs), and what
  follows it in memory (which the 32-bit loop reads and masks off), do not matter.
\<close>
theorem hash_depends_on_key_bytes:
  assumes "\<forall>i < len. m (key + i) = m' (key' + i)"
  shows "hash m key len initval = hash m' key' len initval"
  using assms by (simp add: hash_eq_hash8 hash8_cong same_bytes_def)

definition example_mem :: "nat \<Rightarrow> bytes \<Rightarrow> u8 \<Rightarrow> mem" where
  "example_mem a key junk = (\<lambda>i. if a \<le> i \<and> i < a + length key then key ! (i - a) else junk)"

theorem hash_depends_on_key_bytes_witness:
  "hash (example_mem 8 [1, 2, 3, 4, 5] 7) 8 5 0 = hash (example_mem 3 [1, 2, 3, 4, 5] 9) 3 5 0"
  by (rule hash_depends_on_key_bytes) (simp add: example_mem_def)

text \<open>
  The mixing steps lose nothing, as the source's comment on \<open>mix\<close> claims: both passes are
  bijections on the three state words, with the inverse that undoes the statements from the
  last to the first.
\<close>
theorem mix_final_reversible:
  "unmix (mix s) = s \<and> mix (unmix s) = s \<and> unfinal (final s) = s \<and> final (unfinal s) = s"
  by (cases s) simp

section \<open>Big-endian variant\<close>

definition ldb32 :: "mem \<Rightarrow> nat \<Rightarrow> u32" where
  "ldb32 m p = push_bit 24 (ucast (m p)) OR push_bit 16 (ucast (m (p + 1)))
     OR push_bit 8 (ucast (m (p + 2))) OR ucast (m (p + 3))"

fun loopb32 :: "mem \<Rightarrow> nat \<Rightarrow> nat \<Rightarrow> abc \<Rightarrow> nat \<times> nat \<times> abc" where
  "loopb32 m k len (a, b, c) =
     (if 12 < len
      then loopb32 m (k + 12) (len - 12) (mix (a + ldb32 m k, b + ldb32 m (k + 4), c + ldb32 m (k + 8)))
      else (k, len, (a, b, c)))"

declare loopb32.simps [simp del]

definition tailb32 :: "mem \<Rightarrow> nat \<Rightarrow> nat \<Rightarrow> abc \<Rightarrow> abc" where
  "tailb32 m k len s = (let (a, b, c) = s;
     k0 = ldb32 m k; k1 = ldb32 m (k + 4); k2 = ldb32 m (k + 8)
   in if len = 12 then (a + k0, b + k1, c + k2)
      else if len = 11 then (a + k0, b + k1, c + (k2 AND 0xffffff00))
      else if len = 10 then (a + k0, b + k1, c + (k2 AND 0xffff0000))
      else if len = 9 then (a + k0, b + k1, c + (k2 AND 0xff000000))
      else if len = 8 then (a + k0, b + k1, c)
      else if len = 7 then (a + k0, b + (k1 AND 0xffffff00), c)
      else if len = 6 then (a + k0, b + (k1 AND 0xffff0000), c)
      else if len = 5 then (a + k0, b + (k1 AND 0xff000000), c)
      else if len = 4 then (a + k0, b, c)
      else if len = 3 then (a + (k0 AND 0xffffff00), b, c)
      else if len = 2 then (a + (k0 AND 0xffff0000), b, c)
      else if len = 1 then (a + (k0 AND 0xff000000), b, c)
      else (a, b, c))"

fun loopb8 :: "mem \<Rightarrow> nat \<Rightarrow> nat \<Rightarrow> abc \<Rightarrow> nat \<times> nat \<times> abc" where
  "loopb8 m k len (a, b, c) =
     (if 12 < len
      then loopb8 m (k + 12) (len - 12)
        (mix (a + push_bit 24 (ld8 m k) + push_bit 16 (ld8 m (k + 1)) + push_bit 8 (ld8 m (k + 2))
                + ld8 m (k + 3),
              b + push_bit 24 (ld8 m (k + 4)) + push_bit 16 (ld8 m (k + 5)) + push_bit 8 (ld8 m (k + 6))
                + ld8 m (k + 7),
              c + push_bit 24 (ld8 m (k + 8)) + push_bit 16 (ld8 m (k + 9)) + push_bit 8 (ld8 m (k + 10))
                + ld8 m (k + 11)))
      else (k, len, (a, b, c)))"

declare loopb8.simps [simp del]

definition caseb8 :: "mem \<Rightarrow> nat \<Rightarrow> nat \<Rightarrow> abc \<Rightarrow> abc" where
  "caseb8 m k n s = (let (a, b, c) = s in
     if n < 4 then (a + push_bit (8 * (3 - n)) (ld8 m (k + n)), b, c)
     else if n < 8 then (a, b + push_bit (8 * (7 - n)) (ld8 m (k + n)), c)
     else (a, b, c + push_bit (8 * (11 - n)) (ld8 m (k + n))))"

fun tailb8 :: "mem \<Rightarrow> nat \<Rightarrow> nat \<Rightarrow> abc \<Rightarrow> abc" where
  "tailb8 m k 0 s = s"
| "tailb8 m k (Suc n) s = tailb8 m k n (caseb8 m k n s)"

definition hashbig :: "mem \<Rightarrow> nat \<Rightarrow> nat \<Rightarrow> u32 \<Rightarrow> u32" where
  "hashbig m key len initval =
     (if key AND 0x3 = 0
      then let (k, l, s) = loopb32 m key len (hash_init len initval) in hash_finish l (tailb32 m k l s)
      else let (k, l, s) = loopb8 m key len (hash_init len initval) in hash_finish l (tailb8 m k l s))"

lemma ldb32_bytes:
  "ldb32 m p = push_bit 24 (ld8 m p) + push_bit 16 (ld8 m (p + 1)) + push_bit 8 (ld8 m (p + 2))
     + ld8 m (p + 3)"
  unfolding ldb32_def ld8_def
  by (subst disjunctive_add_eq_or, (rule bit_word_eqI, auto simp: bit_simps dest: bit_imp_le_length)[1])+
    (simp add: or.assoc)

lemma ldb32_mask3:
  "ldb32 m p AND 0xffffff00 = push_bit 24 (ld8 m p) + push_bit 16 (ld8 m (p + 1)) + push_bit 8 (ld8 m (p + 2))"
proof -
  have mask: "(0xffffff00 :: u32) = NOT (mask 8)" by (simp add: mask_eq_exp_minus_1)
  show ?thesis unfolding ldb32_def ld8_def mask
    by (subst disjunctive_add_eq_or, (rule bit_word_eqI, auto simp: bit_simps dest: bit_imp_le_length)[1])+
      (rule bit_word_eqI, auto simp: bit_simps dest: bit_imp_le_length)
qed

lemma ldb32_mask2: "ldb32 m p AND 0xffff0000 = push_bit 24 (ld8 m p) + push_bit 16 (ld8 m (p + 1))"
proof -
  have mask: "(0xffff0000 :: u32) = NOT (mask 16)" by (simp add: mask_eq_exp_minus_1)
  show ?thesis unfolding ldb32_def ld8_def mask
    by (subst disjunctive_add_eq_or, (rule bit_word_eqI, auto simp: bit_simps dest: bit_imp_le_length)[1])+
      (rule bit_word_eqI, auto simp: bit_simps dest: bit_imp_le_length)
qed

lemma ldb32_mask1: "ldb32 m p AND 0xff000000 = push_bit 24 (ld8 m p)"
proof -
  have mask: "(0xff000000 :: u32) = NOT (mask 24)" by (simp add: mask_eq_exp_minus_1)
  show ?thesis unfolding ldb32_def ld8_def mask
    by (rule bit_word_eqI) (auto simp: bit_simps dest: bit_imp_le_length)
qed

lemma add_ldb32:
  "p1 = p + 1 \<Longrightarrow> p2 = p + 2 \<Longrightarrow> p3 = p + 3 \<Longrightarrow>
   a + push_bit 24 (ld8 m p) + push_bit 16 (ld8 m p1) + push_bit 8 (ld8 m p2) + ld8 m p3 = a + ldb32 m p"
  by (simp add: ldb32_bytes add.assoc)

lemma loopb8_by_words:
  "loopb8 m k len (a, b, c) =
     (if 12 < len
      then loopb8 m (k + 12) (len - 12) (mix (a + ldb32 m k, b + ldb32 m (k + 4), c + ldb32 m (k + 8)))
      else (k, len, (a, b, c)))"
  by (simp add: loopb8.simps [of m k] add_ldb32)

lemma loopb32_eq: "loopb32 m k len s = loopb8 m k len s"
proof (induction m k len s rule: loopb32.induct)
  case (1 m k len a b c)
  then show ?case by (simp add: loopb8_by_words [of m k] loopb32.simps [of m k])
qed

lemma loopb8_tail_short: "loopb8 m k len s = (k', len', s') \<Longrightarrow> len' \<le> 12"
proof (induction m k len s rule: loopb32.induct)
  case (1 m k len a b c)
  then show ?case by (cases "12 < len") (auto simp: loopb8_by_words [of m k len a b c])
qed

lemma tailb8_unfold:
  "0 < n \<Longrightarrow> tailb8 m k n s = tailb8 m k (n - 1) (caseb8 m k (n - 1) s)"
  by (cases n) simp_all

lemma tailb32_eq: "len \<le> 12 \<Longrightarrow> tailb32 m k len (a, b, c) = tailb8 m k len (a, b, c)"
  unfolding tailb32_def Let_def prod.case ldb32_mask1 ldb32_mask2 ldb32_mask3
  by (drule le12_cases)
    (elim insertE emptyE; simp add: caseb8_def tailb8_unfold ldb32_bytes Suc3_eq_add
      add.assoc add.commute add.left_commute)

text \<open>
  The big-endian variant reads whole words where the key is aligned and single bytes where
  it is not, and both give the same value.
\<close>
theorem hashbig_paths_agree:
  "hashbig m key len initval =
     (let (k, l, s) = loopb8 m key len (hash_init len initval) in hash_finish l (tailb8 m k l s))"
  by (auto simp: hashbig_def loopb32_eq tailb32_eq dest: loopb8_tail_short split: prod.splits)

end
