(* ===== verification/Hashtable.thy ===== *)
theory Hashtable
  imports Hash
begin

text \<open>
  The chained hash table of \<open>hashtable/hashtable.c\<close> and \<open>hashtable.h\<close>: items of a heap that are
  linked twice, in the doubly linked list of all items from \<open>head\<close> to \<open>tail\<close> and in the
  singly linked chain of their bucket. One definition per function of the source; the
  functions that follow pointers return \<open>None\<close> where the C code is undefined or does not end.
\<close>

section \<open>Data\<close>

datatype HT_ERROR_CODE =
  HT_OK | HT_INVALID_PARAM | HT_INVALID_HASHTABLE | HT_EXISTS | HT_NOT_FOUND | HT_OUT_OF_MEMORY

text \<open>\<open>end_bytes\<close> is the flexible array at the end of the item, up to the end of its allocation.\<close>

record HashItem =
  inext :: ptr
  iprev :: ptr
  h_next :: ptr
  access :: u32
  key_length :: u32
  key_offset :: u32
  end_bytes :: bytes

type_synonym heap = "nat \<rightharpoonup> HashItem"

text \<open>
  The bucket array has \<open>2 ^ hashpower\<close> cells, and every index is masked to that range, so it is
  a function from indices. The allocation functions are function pointers of the caller.
\<close>

record HashTable =
  hash_items :: u32
  primary_hashtable :: "(nat \<Rightarrow> ptr) option"
  head :: ptr
  tail :: ptr
  alloc_func :: "(heap \<Rightarrow> nat \<Rightarrow> ptr) option"
  free_func :: "(heap \<Rightarrow> nat \<Rightarrow> heap) option"

definition hashpower :: nat where "hashpower = 16"

definition hashsize :: "nat \<Rightarrow> u64" where
  "hashsize n = push_bit n 1"

definition hashmask :: "nat \<Rightarrow> u64" where
  "hashmask n = hashsize n - 1"

section \<open>Keys\<close>

text \<open>\<open>HASHITEM_KEY\<close>: \<open>n\<close> bytes at the offset of the key in the flexible array.\<close>

definition HASHITEM_KEY :: "HashItem \<Rightarrow> nat \<Rightarrow> bytes option" where
  "HASHITEM_KEY x n =
     (if sint (key_offset x) < 0 then None else read_bytes (end_bytes x) (nat (sint (key_offset x))) n)"

text \<open>The bucket of a key: \<open>hash(key, nkey, 0) & hashmask(hashpower)\<close>.\<close>

definition mem_of :: "bytes \<Rightarrow> mem" where
  "mem_of bs = (\<lambda>i. if i < length bs then bs ! i else 0)"

definition bucket_of :: "bytes \<Rightarrow> nat" where
  "bucket_of key = unat (ucast (hash (mem_of key) 0 (length key) 0) AND hashmask hashpower)"

text \<open>\<open>(nkey != hi->key_length) || memcmp(key, HASHITEM_KEY(hi), nkey)\<close>\<close>

definition key_differs :: "bytes \<Rightarrow> u64 \<Rightarrow> HashItem \<Rightarrow> bool option" where
  "key_differs key nkey x =
     (if nkey \<noteq> scast (key_length x) then Some True
      else do {
        a \<leftarrow> read_bytes key 0 (unat nkey);
        b \<leftarrow> HASHITEM_KEY x (unat nkey);
        Some (a \<noteq> b)
      })"

section \<open>Items\<close>

definition sizeof_HashItem :: nat where "sizeof_HashItem = 40"

text \<open>
  An allocation of \<open>n\<close> bytes holds an item with \<open>n - 40\<close> bytes after its header; a smaller one
  holds none, and using it as an item is undefined.
\<close>

definition hashitem_alloc :: "heap \<Rightarrow> HashTable option \<Rightarrow> nat \<Rightarrow> ptr \<times> heap" where
  "hashitem_alloc h ht n =
     (case ht of None \<Rightarrow> (None, h)
      | Some t \<Rightarrow> (case alloc_func t of None \<Rightarrow> (None, h)
        | Some alloc \<Rightarrow>
            if n = 0 then (None, h)
            else (case alloc h n of None \<Rightarrow> (None, h)
              | Some p \<Rightarrow> (Some p,
                  if n < sizeof_HashItem then h(p := None)
                  else h(p \<mapsto> \<lparr>inext = None, iprev = None, h_next = None, access = 0, key_length = 0,
                           key_offset = 0, end_bytes = replicate (n - sizeof_HashItem) 0\<rparr>)))))"

definition hashitem_free :: "heap \<Rightarrow> HashTable option \<Rightarrow> ptr \<Rightarrow> heap" where
  "hashitem_free h ht p =
     (case ht of None \<Rightarrow> h
      | Some t \<Rightarrow> (case free_func t of None \<Rightarrow> h
        | Some free \<Rightarrow> (case p of None \<Rightarrow> h | Some a \<Rightarrow> free h a)))"

text \<open>
  \<open>sprintf\<close> with \<open>%s\<close> copies the bytes of \<open>key\<close> up to and including the terminating NUL.
\<close>

definition c_string :: "bytes \<Rightarrow> bytes option" where
  "c_string buf = (if 0 \<in> set buf then Some (takeWhile (\<lambda>b. b \<noteq> 0) buf) else None)"

definition hashitem_fill :: "heap \<Rightarrow> nat \<Rightarrow> u64 \<Rightarrow> bytes \<Rightarrow> u64 \<Rightarrow> heap option" where
  "hashitem_fill h p offset key nkey = do {
     h \<leftarrow> heap_upd h p (key_offset_update (\<lambda>_. ucast offset));
     x \<leftarrow> h p;
     str \<leftarrow> c_string key;
     e \<leftarrow> (if sint (key_offset x) < 0 then None
           else write_bytes (end_bytes x) (nat (sint (key_offset x))) (str @ [0]));
     heap_upd h p (\<lambda>x. x\<lparr>end_bytes := e, key_length := ucast nkey\<rparr>)
   }"

section \<open>The table\<close>

definition hashtable_init ::
  "bool \<Rightarrow> (heap \<Rightarrow> nat \<Rightarrow> ptr) \<Rightarrow> (heap \<Rightarrow> nat \<Rightarrow> heap) \<Rightarrow> HashTable option
     \<Rightarrow> (heap \<Rightarrow> nat \<Rightarrow> ptr) option \<Rightarrow> (heap \<Rightarrow> nat \<Rightarrow> heap) option
     \<Rightarrow> HT_ERROR_CODE \<times> HashTable option" where
  "hashtable_init calloc_ok malloc free ht alloc_arg free_arg =
     (case ht of None \<Rightarrow> (HT_INVALID_PARAM, None)
      | Some t \<Rightarrow>
          let t = t\<lparr>hash_items := 0, head := None, tail := None\<rparr>;
              t = t\<lparr>primary_hashtable := (if calloc_ok then Some (\<lambda>_. None) else None)\<rparr>
          in if primary_hashtable t = None then (HT_OUT_OF_MEMORY, Some t)
             else (HT_OK, Some (t\<lparr>alloc_func := Some (case alloc_arg of None \<Rightarrow> malloc | Some f \<Rightarrow> f),
                                 free_func := Some (case free_arg of None \<Rightarrow> free | Some f \<Rightarrow> f)\<rparr>)))"

text \<open>The writes through a pointer that may be null, guarded by its test.\<close>

definition set_next_of :: "ptr \<Rightarrow> ptr \<Rightarrow> heap \<Rightarrow> heap option" where
  "set_next_of p v h = (case p of None \<Rightarrow> Some h | Some a \<Rightarrow> heap_upd h a (inext_update (\<lambda>_. v)))"

definition set_prev_of :: "ptr \<Rightarrow> ptr \<Rightarrow> heap \<Rightarrow> heap option" where
  "set_prev_of p v h = (case p of None \<Rightarrow> Some h | Some a \<Rightarrow> heap_upd h a (iprev_update (\<lambda>_. v)))"

text \<open>
  The three statements that take an item out of its neighbours' links and null its own, shared
  by \<open>hashtable_clear\<close> and \<open>hashtable_remove\<close>.
\<close>

definition unlink_item :: "nat \<Rightarrow> heap \<Rightarrow> heap option" where
  "unlink_item a h = do {
     x \<leftarrow> h a;
     h \<leftarrow> set_next_of (iprev x) (inext x) h;
     x \<leftarrow> h a;
     h \<leftarrow> set_prev_of (inext x) (iprev x) h;
     heap_upd h a (\<lambda>x. x\<lparr>iprev := None, inext := None\<rparr>)
   }"

partial_function (option) clear_loop :: "heap \<Rightarrow> HashTable \<Rightarrow> ptr \<Rightarrow> (heap \<times> HashTable) option" where
  "clear_loop h ht hi =
     (case hi of None \<Rightarrow> Some (h, ht)
      | Some a \<Rightarrow> do {
          x \<leftarrow> h a;
          h' \<leftarrow> unlink_item a h;
          free \<leftarrow> free_func ht;
          clear_loop (free h' a) (ht\<lparr>hash_items := hash_items ht - 1\<rparr>) (inext x)
        })"

definition hashtable_clear :: "heap \<Rightarrow> HashTable option \<Rightarrow> (int \<times> heap \<times> HashTable option) option" where
  "hashtable_clear h ht =
     (case ht of None \<Rightarrow> Some (-1, h, ht)
      | Some t \<Rightarrow>
          if primary_hashtable t = None \<or> head t = None \<or> tail t = None then Some (-1, h, ht)
          else do {
            (h, t) \<leftarrow> clear_loop h t (head t);
            Some (0, h, Some (t\<lparr>head := None, tail := None, primary_hashtable := Some (\<lambda>_. None)\<rparr>))
          })"

definition hashtable_destroy :: "heap \<Rightarrow> HashTable option \<Rightarrow> (int \<times> heap \<times> HashTable option) option" where
  "hashtable_destroy h ht = do {
     (r, h, ht) \<leftarrow> hashtable_clear h ht;
     Some (if r = 0 then (0, h, map_option (primary_hashtable_update (\<lambda>_. None)) ht) else (-1, h, ht))
   }"

section \<open>Lookup\<close>

partial_function (option) find_loop :: "heap \<Rightarrow> bytes \<Rightarrow> u64 \<Rightarrow> ptr \<Rightarrow> ptr option" where
  "find_loop h key nkey hi =
     (case hi of None \<Rightarrow> Some None
      | Some a \<Rightarrow> do {
          x \<leftarrow> h a;
          d \<leftarrow> key_differs key nkey x;
          if d then find_loop h key nkey (h_next x) else Some hi
        })"

definition hashtable_find :: "heap \<Rightarrow> HashTable option \<Rightarrow> bytes option \<Rightarrow> u64 \<Rightarrow> ptr option" where
  "hashtable_find h ht key nkey =
     (case (ht, key) of
        (Some t, Some key) \<Rightarrow>
          if nkey = 0 then Some None
          else do {
            k \<leftarrow> read_bytes key 0 (unat nkey);
            tab \<leftarrow> primary_hashtable t;
            find_loop h key nkey (tab (bucket_of k))
          }
      | _ \<Rightarrow> Some None)"

text \<open>
  \<open>_hashitem_before\<close> returns the place that points to the item: a cell of the bucket array or
  the \<open>h_next\<close> field of an item.
\<close>

datatype place = Bucket nat | H_next nat

primrec get_place :: "heap \<Rightarrow> (nat \<Rightarrow> ptr) \<Rightarrow> place \<Rightarrow> ptr option" where
  "get_place h tab (Bucket b) = Some (tab b)"
| "get_place h tab (H_next a) = map_option h_next (h a)"

primrec set_place :: "heap \<Rightarrow> (nat \<Rightarrow> ptr) \<Rightarrow> place \<Rightarrow> ptr \<Rightarrow> (heap \<times> (nat \<Rightarrow> ptr)) option" where
  "set_place h tab (Bucket b) p = Some (h, tab(b := p))"
| "set_place h tab (H_next a) p = map_option (\<lambda>h. (h, tab)) (heap_upd h a (h_next_update (\<lambda>_. p)))"

partial_function (option) before_loop ::
  "heap \<Rightarrow> (nat \<Rightarrow> ptr) \<Rightarrow> bytes \<Rightarrow> u64 \<Rightarrow> place \<Rightarrow> place option" where
  "before_loop h tab key nkey pos = do {
     p \<leftarrow> get_place h tab pos;
     (case p of None \<Rightarrow> Some pos
      | Some a \<Rightarrow> do {
          x \<leftarrow> h a;
          d \<leftarrow> key_differs key nkey x;
          if d then before_loop h tab key nkey (H_next a) else Some pos
        })
   }"

definition hashitem_before :: "heap \<Rightarrow> HashTable \<Rightarrow> bytes \<Rightarrow> u64 \<Rightarrow> place option" where
  "hashitem_before h ht key nkey = do {
     k \<leftarrow> read_bytes key 0 (unat nkey);
     tab \<leftarrow> primary_hashtable ht;
     before_loop h tab key nkey (Bucket (bucket_of k))
   }"

section \<open>Insertion and removal\<close>

text \<open>
  The search of \<open>hashtable_insert\<close> for an item with the same key: where the source returns
  \<open>HT_EXISTS\<close> from the loop, the loop yields that item.
\<close>

partial_function (option) exists_loop :: "heap \<Rightarrow> bytes \<Rightarrow> u64 \<Rightarrow> ptr \<Rightarrow> ptr option" where
  "exists_loop h key nkey pos =
     (case pos of None \<Rightarrow> Some None
      | Some a \<Rightarrow> do {
          x \<leftarrow> h a;
          d \<leftarrow> key_differs key nkey x;
          if d then exists_loop h key nkey (h_next x) else Some pos
        })"

definition hashtable_insert ::
  "heap \<Rightarrow> HashTable option \<Rightarrow> ptr \<Rightarrow> (HT_ERROR_CODE \<times> heap \<times> HashTable option) option" where
  "hashtable_insert h ht hi =
     (case (ht, hi) of
        (Some t, Some a) \<Rightarrow> do {
          x \<leftarrow> h a;
          let nkey = (scast (key_length x) :: u64);
          key \<leftarrow> HASHITEM_KEY x (unat nkey);
          let bucket = bucket_of key;
          tab \<leftarrow> primary_hashtable t;
          found \<leftarrow> exists_loop h key nkey (tab bucket);
          if found \<noteq> None then Some (HT_EXISTS, h, ht)
          else do {
            h \<leftarrow> heap_upd h a (h_next_update (\<lambda>_. tab bucket));
            let t = t\<lparr>primary_hashtable := Some (tab(bucket := Some a))\<rparr>;
            h \<leftarrow> heap_upd h a (\<lambda>x. x\<lparr>inext := None, iprev := tail t\<rparr>);
            h \<leftarrow> set_next_of (tail t) (Some a) h;
            let t = t\<lparr>tail := Some a, head := (if head t = None then Some a else head t)\<rparr>;
            Some (HT_OK, h, Some (t\<lparr>hash_items := hash_items t + 1\<rparr>))
          }
        }
      | _ \<Rightarrow> Some (HT_INVALID_PARAM, h, ht))"

text \<open>
  \<open>item\<close> is the caller's result variable: \<open>None\<close> for a null pointer, else its value. The result
  holds its value after the call.
\<close>

definition hashtable_remove ::
  "heap \<Rightarrow> HashTable option \<Rightarrow> bytes option \<Rightarrow> u64 \<Rightarrow> ptr option
     \<Rightarrow> (HT_ERROR_CODE \<times> heap \<times> HashTable option \<times> ptr option) option" where
  "hashtable_remove h ht key nkey item =
     (case (ht, key) of
        (Some t, Some key) \<Rightarrow>
          if nkey = 0 \<or> item = None then Some (HT_INVALID_PARAM, h, ht, item)
          else do {
            before \<leftarrow> hashitem_before h t key nkey;
            tab \<leftarrow> primary_hashtable t;
            p \<leftarrow> get_place h tab before;
            (case p of None \<Rightarrow> Some (HT_NOT_FOUND, h, ht, item)
             | Some a \<Rightarrow> do {
                 x \<leftarrow> h a;
                 (h, tab) \<leftarrow> set_place h tab before (h_next x);
                 h \<leftarrow> heap_upd h a (h_next_update (\<lambda>_. None));
                 x \<leftarrow> h a;
                 let t = t\<lparr>primary_hashtable := Some tab\<rparr>;
                 let t = t\<lparr>head := (if Some a = head t then inext x else head t)\<rparr>;
                 let t = t\<lparr>tail := (if Some a = tail t then iprev x else tail t)\<rparr>;
                 h \<leftarrow> unlink_item a h;
                 Some (HT_OK, h, Some (t\<lparr>hash_items := hash_items t - 1\<rparr>), Some (Some a))
               })
          }
      | _ \<Rightarrow> Some (HT_INVALID_PARAM, h, ht, item))"

section \<open>Iteration\<close>

text \<open>The callback may change items and table; it returns an \<open>int\<close>.\<close>

type_synonym HT_APPLY_FUNC = "heap \<Rightarrow> HashTable \<Rightarrow> nat \<Rightarrow> (int \<times> heap \<times> HashTable) option"

partial_function (option) apply_loop ::
  "HT_APPLY_FUNC \<Rightarrow> ptr \<Rightarrow> heap \<Rightarrow> HashTable \<Rightarrow> (heap \<times> HashTable) option" where
  "apply_loop f hi h ht =
     (case hi of None \<Rightarrow> Some (h, ht)
      | Some a \<Rightarrow> do {
          x \<leftarrow> h a;
          (r, h, ht) \<leftarrow> f h ht a;
          apply_loop f (inext x) h ht
        })"

definition hashtable_apply ::
  "heap \<Rightarrow> HashTable option \<Rightarrow> HT_APPLY_FUNC option \<Rightarrow> (HT_ERROR_CODE \<times> heap \<times> HashTable option) option" where
  "hashtable_apply h ht f =
     (case (ht, f) of
        (Some t, Some f) \<Rightarrow> do {
          (h, t) \<leftarrow> apply_loop f (head t) h t;
          Some (HT_OK, h, Some t)
        }
      | _ \<Rightarrow> Some (HT_INVALID_PARAM, h, ht))"

partial_function (option) apply2_loop ::
  "HT_APPLY_FUNC \<Rightarrow> u32 \<Rightarrow> heap \<Rightarrow> HashTable \<Rightarrow> u32 \<Rightarrow> ptr \<Rightarrow> (heap \<times> HashTable \<times> ptr) option" where
  "apply2_loop f n h ht i hi =
     (case hi of None \<Rightarrow> Some (h, ht, None)
      | Some a \<Rightarrow>
          if n \<le>s i then Some (h, ht, hi)
          else do {
            x \<leftarrow> h a;
            (r, h, ht) \<leftarrow> f h ht a;
            apply2_loop f n h ht (if r \<noteq> 0 then i + 1 else i) (inext x)
          })"

text \<open>Close the list to a circle, and open it again before \<open>hi\<close>.\<close>

definition rotate_to :: "heap \<Rightarrow> HashTable \<Rightarrow> nat \<Rightarrow> (heap \<times> HashTable) option" where
  "rotate_to h t hi =
     (case (head t, tail t) of
        (Some hd', Some tl') \<Rightarrow> do {
          h \<leftarrow> heap_upd h tl' (inext_update (\<lambda>_. Some hd'));
          h \<leftarrow> heap_upd h hd' (iprev_update (\<lambda>_. Some tl'));
          x \<leftarrow> h hi;
          let t = t\<lparr>head := Some hi, tail := iprev x\<rparr>;
          h \<leftarrow> heap_upd h hi (iprev_update (\<lambda>_. None));
          tl' \<leftarrow> iprev x;
          h \<leftarrow> heap_upd h tl' (inext_update (\<lambda>_. None));
          Some (h, t)
        }
      | _ \<Rightarrow> Some (h, t))"

definition hashtable_apply2 ::
  "heap \<Rightarrow> HashTable option \<Rightarrow> u32 \<Rightarrow> HT_APPLY_FUNC option
     \<Rightarrow> (HT_ERROR_CODE \<times> heap \<times> HashTable option) option" where
  "hashtable_apply2 h ht n f =
     (case (ht, f) of
        (Some t, Some f) \<Rightarrow>
          if n \<le>s 0 then Some (HT_INVALID_PARAM, h, ht)
          else do {
            (h, t, hi) \<leftarrow> apply2_loop f n h t 0 (head t);
            (h, t) \<leftarrow> (case hi of None \<Rightarrow> Some (h, t) | Some a \<Rightarrow> rotate_to h t a);
            Some (HT_OK, h, Some t)
          }
      | _ \<Rightarrow> Some (HT_INVALID_PARAM, h, ht))"

end
