(* ===== verification/Hashtable_Inv.thy ===== *)
theory Hashtable_Inv
  imports Hashtable
begin

text \<open>
  The representation invariant of the hash table: three views of the heap (the links of the
  item list, the links of the bucket chains, the data of the items), the list and chain
  predicates over them, and what each loop and each pointer manipulation of the source does to
  them.
\<close>

section \<open>Views of the heap\<close>

definition links :: "heap \<Rightarrow> nat \<Rightarrow> (ptr \<times> ptr) option" where
  "links h a = map_option (\<lambda>x. (inext x, iprev x)) (h a)"

definition hlink :: "heap \<Rightarrow> nat \<Rightarrow> ptr option" where
  "hlink h a = map_option h_next (h a)"

definition idata :: "heap \<Rightarrow> nat \<Rightarrow> (u32 \<times> u32 \<times> u32 \<times> bytes) option" where
  "idata h a = map_option (\<lambda>x. (access x, key_length x, key_offset x, end_bytes x)) (h a)"

text \<open>The key of the item at an address.\<close>

definition data_key :: "u32 \<times> u32 \<times> u32 \<times> bytes \<Rightarrow> bytes option" where
  "data_key d = (case d of (_, len, off, e) \<Rightarrow>
     if sint off < 0 then None else read_bytes e (nat (sint off)) (unat (scast len :: u64)))"

definition item_key :: "heap \<Rightarrow> nat \<Rightarrow> bytes option" where
  "item_key h a = Option.bind (idata h a) data_key"

lemma links_upd [simp]: "links (h(a \<mapsto> x)) = (links h)(a \<mapsto> (inext x, iprev x))"
  by (auto simp: links_def)

lemma hlink_upd [simp]: "hlink (h(a \<mapsto> x)) = (hlink h)(a \<mapsto> h_next x)"
  by (auto simp: hlink_def)

lemma idata_upd [simp]: "idata (h(a \<mapsto> x)) = (idata h)(a \<mapsto> (access x, key_length x, key_offset x, end_bytes x))"
  by (auto simp: idata_def)

lemma links_same: "h a = Some x \<Longrightarrow> (links h)(a \<mapsto> (inext x, iprev x)) = links h"
  by (auto simp: links_def)

lemma hlink_same: "h a = Some x \<Longrightarrow> (hlink h)(a \<mapsto> h_next x) = hlink h"
  by (auto simp: hlink_def)

lemma idata_same: "h a = Some x \<Longrightarrow> (idata h)(a \<mapsto> (access x, key_length x, key_offset x, end_bytes x)) = idata h"
  by (auto simp: idata_def)

lemmas view_same = links_same hlink_same idata_same

lemma view_Some: "h a = Some x \<Longrightarrow> links h a = Some (inext x, iprev x)" "h a = Some x \<Longrightarrow> hlink h a = Some (h_next x)"
  by (simp_all add: links_def hlink_def)

lemma links_SomeE:
  assumes "links h a = Some l"
  obtains x where "h a = Some x" "l = (inext x, iprev x)"
  using assms by (auto simp: links_def)

lemma item_key_cong: "idata h' = idata h \<Longrightarrow> item_key h' = item_key h"
  by (simp add: item_key_def fun_eq_iff)

lemma item_key_HASHITEM_KEY: "h a = Some x \<Longrightarrow> item_key h a = HASHITEM_KEY x (unat (scast (key_length x) :: u64))"
  by (simp add: item_key_def idata_def data_key_def HASHITEM_KEY_def)

text \<open>The three views determine the heap.\<close>

lemma views_eq:
  assumes "links h' b = links h b" "hlink h' b = hlink h b" "idata h' b = idata h b"
  shows "h' b = h b"
  using assms by (cases "h' b"; cases "h b") (simp_all add: links_def hlink_def idata_def)

lemma item_key_SomeE:
  assumes "item_key h a = Some k"
  obtains x where "h a = Some x" "HASHITEM_KEY x (unat (scast (key_length x) :: u64)) = Some k"
proof (cases "h a")
  case None
  with assms show ?thesis by (simp add: item_key_def idata_def)
next
  case (Some x)
  with assms that show ?thesis by (simp add: item_key_HASHITEM_KEY)
qed

section \<open>Keys\<close>

lemma length_read_bytes: "read_bytes buf off n = Some bs \<Longrightarrow> length bs = n"
  by (auto simp: read_bytes_def split: if_splits)

lemma length_HASHITEM_KEY: "HASHITEM_KEY x n = Some k \<Longrightarrow> length k = n"
  by (auto simp: HASHITEM_KEY_def dest: length_read_bytes split: if_splits)

text \<open>The lazy comparison of lengths and bytes decides equality of the keys.\<close>

lemma key_differs_eq:
  assumes "read_bytes key 0 (unat nkey) = Some k" "h a = Some x" "item_key h a = Some k'"
  shows "key_differs key nkey x = Some (k \<noteq> k')"
proof -
  have k': "HASHITEM_KEY x (unat (scast (key_length x) :: u64)) = Some k'"
    using assms(2,3) by (simp add: item_key_HASHITEM_KEY)
  show ?thesis
  proof (cases "nkey = scast (key_length x)")
    case True
    then show ?thesis using assms(1) k' by (simp add: key_differs_def)
  next
    case False
    then have "unat nkey \<noteq> unat (scast (key_length x) :: u64)" by (simp add: word_unat_eq_iff)
    then have "k \<noteq> k'" using length_read_bytes [OF assms(1)] length_HASHITEM_KEY [OF k'] by auto
    with False show ?thesis by (simp add: key_differs_def)
  qed
qed

lemma hashmask16: "hashmask hashpower = mask 16"
  by (simp add: hashmask_def hashsize_def hashpower_def mask_eq_exp_minus_1)

lemma bucket_in_range: "bucket_of key < 2 ^ hashpower"
proof -
  have "bucket_of key = unat (take_bit 16 (ucast (hash (mem_of key) 0 (length key) 0) :: u64))"
    by (simp add: bucket_of_def hashmask16 take_bit_eq_mask)
  also have "\<dots> < 2 ^ 16" unfolding unsigned_take_bit_eq by (rule take_bit_nat_less_exp)
  finally show ?thesis by (simp add: hashpower_def)
qed

section \<open>Doubly linked lists and chains\<close>

definition ptr_hd :: "nat list \<Rightarrow> ptr \<Rightarrow> ptr" where
  "ptr_hd xs n = (case xs of [] \<Rightarrow> n | a # _ \<Rightarrow> Some a)"

definition ptr_last :: "ptr \<Rightarrow> nat list \<Rightarrow> ptr" where
  "ptr_last p xs = (if xs = [] then p else Some (last xs))"

lemma ptr_hd_simps [simp]: "ptr_hd [] n = n" "ptr_hd (a # xs) n = Some a"
  by (simp_all add: ptr_hd_def)

lemma ptr_hd_append [simp]: "ptr_hd (xs @ ys) n = ptr_hd xs (ptr_hd ys n)"
  by (cases xs) simp_all

lemma ptr_last_simps [simp]: "ptr_last p [] = p" "ptr_last p (a # xs) = ptr_last (Some a) xs"
  "ptr_last p (xs @ [a]) = Some a"
  by (simp_all add: ptr_last_def)

lemma ptr_last_append [simp]: "ptr_last p (xs @ ys) = ptr_last (ptr_last p xs) ys"
  by (simp add: ptr_last_def)

text \<open>
  \<open>dseg L p xs n\<close>: the items \<open>xs\<close> are linked in this order, the first one back to \<open>p\<close> and
  the last one on to \<open>n\<close>.
\<close>

fun dseg :: "(nat \<Rightarrow> (ptr \<times> ptr) option) \<Rightarrow> ptr \<Rightarrow> nat list \<Rightarrow> ptr \<Rightarrow> bool" where
  "dseg L p [] n = True"
| "dseg L p (a # xs) n = (L a = Some (ptr_hd xs n, p) \<and> dseg L (Some a) xs n)"

fun chain :: "(nat \<Rightarrow> ptr option) \<Rightarrow> ptr \<Rightarrow> nat list \<Rightarrow> bool" where
  "chain H p [] = (p = None)"
| "chain H p (a # xs) = (p = Some a \<and> (case H a of None \<Rightarrow> False | Some q \<Rightarrow> chain H q xs))"

lemma dseg_append [simp]:
  "dseg L p (xs @ ys) n \<longleftrightarrow> dseg L p xs (ptr_hd ys n) \<and> dseg L (ptr_last p xs) ys n"
  by (induction xs arbitrary: p) (auto simp: ptr_hd_def split: list.splits)

lemma dseg_upd_other [simp]: "a \<notin> set xs \<Longrightarrow> dseg (L(a := v)) p xs n \<longleftrightarrow> dseg L p xs n"
  by (induction xs arbitrary: p) auto

lemma chain_upd_other [simp]: "a \<notin> set xs \<Longrightarrow> chain (H(a := v)) p xs \<longleftrightarrow> chain H p xs"
  by (induction xs arbitrary: p) (auto split: option.splits)

lemma dseg_mem: "dseg L p xs n \<Longrightarrow> a \<in> set xs \<Longrightarrow> L a \<noteq> None"
  by (induction xs arbitrary: p) auto

lemma chain_Some: "chain H (Some a) xs \<Longrightarrow> \<exists>ys. xs = a # ys"
  by (cases xs) auto

lemma chain_unique: "chain H p xs \<Longrightarrow> chain H p ys \<Longrightarrow> xs = ys"
proof (induction xs arbitrary: p ys)
  case Nil then show ?case by (cases ys) auto
next
  case (Cons a xs) then show ?case by (cases ys) (auto split: option.splits)
qed

text \<open>A chain that ends has no repetition.\<close>

lemma chain_suffix: "chain H p (xs @ ys) \<Longrightarrow> \<exists>q. chain H q ys"
  by (induction xs arbitrary: p) (auto split: option.splits)

lemma chain_distinct: "chain H p xs \<Longrightarrow> distinct xs"
proof (induction xs arbitrary: p)
  case (Cons a xs)
  then obtain q where q: "H a = Some q" "chain H q xs" by (auto split: option.splits)
  have "a \<notin> set xs"
  proof
    assume "a \<in> set xs"
    then obtain u v where xs: "xs = u @ a # v" by (meson split_list)
    with chain_suffix [of H q u "a # v"] q have "chain H (Some a) (a # v)" "chain H (Some a) (a # xs)"
      by auto
    then have "a # v = a # xs" by (rule chain_unique)
    with xs show False by simp
  qed
  with Cons.IH [OF q(2)] show ?case by simp
qed simp

lemma chain_hd: "chain H p xs \<Longrightarrow> p = ptr_hd xs None"
  by (cases xs) auto

text \<open>Taking an element out of a chain by redirecting its predecessor.\<close>

lemma chain_bypass:
  assumes "chain H p (xs @ b # a # ys)" "H a = Some q"
  shows "chain (H(b \<mapsto> q)) p (xs @ b # ys)"
  using assms
proof (induction xs arbitrary: p)
  case Nil
  then have "chain H p (b # a # ys)" by simp
  then have "distinct (b # a # ys)" by (rule chain_distinct)
  with Nil show ?case by (simp del: fun_upd_apply add: fun_upd_same split: option.splits)
next
  case (Cons c xs)
  then have "chain H p (c # xs @ b # a # ys)" by simp
  then have "distinct (c # xs @ b # a # ys)" by (rule chain_distinct)
  with Cons show ?case by (auto split: option.splits)
qed

section \<open>Pointer manipulations\<close>

definition with_next :: "ptr \<Rightarrow> ptr \<times> ptr \<Rightarrow> ptr \<times> ptr" where "with_next v l = (v, snd l)"
definition with_prev :: "ptr \<Rightarrow> ptr \<times> ptr \<Rightarrow> ptr \<times> ptr" where "with_prev v l = (fst l, v)"

definition upd_next :: "ptr \<Rightarrow> ptr \<Rightarrow> (nat \<Rightarrow> (ptr \<times> ptr) option) \<Rightarrow> nat \<Rightarrow> (ptr \<times> ptr) option" where
  "upd_next p v L = (case p of None \<Rightarrow> L | Some b \<Rightarrow> L(b := map_option (with_next v) (L b)))"

definition upd_prev :: "ptr \<Rightarrow> ptr \<Rightarrow> (nat \<Rightarrow> (ptr \<times> ptr) option) \<Rightarrow> nat \<Rightarrow> (ptr \<times> ptr) option" where
  "upd_prev p v L = (case p of None \<Rightarrow> L | Some b \<Rightarrow> L(b := map_option (with_prev v) (L b)))"

lemma upd_next_other: "p \<noteq> Some b \<Longrightarrow> upd_next p v L b = L b"
  and upd_prev_other: "p \<noteq> Some b \<Longrightarrow> upd_prev p v L b = L b"
  by (auto simp: upd_next_def upd_prev_def split: option.splits)

lemma dseg_upd_next_other: "(\<forall>b. p = Some b \<longrightarrow> b \<notin> set xs) \<Longrightarrow> dseg (upd_next p v L) q xs n = dseg L q xs n"
  and dseg_upd_prev_other: "(\<forall>b. p = Some b \<longrightarrow> b \<notin> set xs) \<Longrightarrow> dseg (upd_prev p v L) q xs n = dseg L q xs n"
  by (auto simp: upd_next_def upd_prev_def split: option.splits)

text \<open>Redirecting the end and the beginning of a list segment.\<close>

lemma dseg_redirect_last:
  assumes "dseg L None xs n" "distinct xs"
  shows "dseg (upd_next (ptr_last None xs) v L) None xs v"
  using assms by (cases xs rule: rev_cases) (auto simp: upd_next_def with_next_def)

lemma dseg_redirect_hd:
  assumes "dseg L q xs None" "distinct xs"
  shows "dseg (upd_prev (ptr_hd xs None) v L) v xs None"
  using assms by (cases xs) (auto simp: upd_prev_def with_prev_def)

lemma dseg_join:
  assumes "dseg L None xs n" "dseg L q ys None" "distinct (xs @ ys)"
  shows "dseg (upd_prev (ptr_hd ys None) (ptr_last None xs) (upd_next (ptr_last None xs) (ptr_hd ys None) L))
     None (xs @ ys) None"
proof -
  let ?L1 = "upd_next (ptr_last None xs) (ptr_hd ys None) L"
  have last: "\<forall>b. ptr_last None xs = Some b \<longrightarrow> b \<in> set xs \<and> b \<notin> set ys"
    using assms(3) by (cases xs rule: rev_cases) auto
  have hd: "\<forall>b. ptr_hd ys None = Some b \<longrightarrow> b \<in> set ys \<and> b \<notin> set xs"
    using assms(3) by (auto simp: ptr_hd_def split: list.splits)
  have "dseg ?L1 None xs (ptr_hd ys None)" using assms by (simp add: dseg_redirect_last)
  moreover have "dseg ?L1 q ys None" using assms(2) last by (simp add: dseg_upd_next_other)
  ultimately show ?thesis
    using assms(3) hd by (simp add: dseg_upd_prev_other dseg_redirect_hd)
qed

lemma set_next_of_ok:
  assumes "\<forall>b. p = Some b \<longrightarrow> links h b \<noteq> None"
  obtains h' where "set_next_of p v h = Some h'"
    "links h' = upd_next p v (links h)"
    "hlink h' = hlink h" "idata h' = idata h" "dom h' = dom h"
proof (cases p)
  case None
  then show ?thesis using that [of h] by (simp add: set_next_of_def upd_next_def)
next
  case (Some b)
  then obtain x where x: "h b = Some x" using assms by (auto simp: links_def)
  then show ?thesis using that [of "h(b \<mapsto> x\<lparr>inext := v\<rparr>)"] Some
    by (auto simp: set_next_of_def upd_next_def view_same view_Some with_next_def)
qed

lemma set_prev_of_ok:
  assumes "\<forall>b. p = Some b \<longrightarrow> links h b \<noteq> None"
  obtains h' where "set_prev_of p v h = Some h'"
    "links h' = upd_prev p v (links h)"
    "hlink h' = hlink h" "idata h' = idata h" "dom h' = dom h"
proof (cases p)
  case None
  then show ?thesis using that [of h] by (simp add: set_prev_of_def upd_prev_def)
next
  case (Some b)
  then obtain x where x: "h b = Some x" using assms by (auto simp: links_def)
  then show ?thesis using that [of "h(b \<mapsto> x\<lparr>iprev := v\<rparr>)"] Some
    by (auto simp: set_prev_of_def upd_prev_def view_same view_Some with_prev_def)
qed

text \<open>Unlinking an item joins its neighbours.\<close>

lemma unlink_item_ok:
  assumes "dseg (links h) None (xs @ a # ys) None" "distinct (xs @ a # ys)"
  obtains h' where "unlink_item a h = Some h'"
    "dseg (links h') None (xs @ ys) None" "links h' a = Some (None, None)"
    "\<forall>b. b \<notin> set (xs @ a # ys) \<longrightarrow> links h' b = links h b"
    "hlink h' = hlink h" "idata h' = idata h" "dom h' = dom h"
proof -
  let ?p = "ptr_last None xs" and ?n = "ptr_hd ys None"
  have La: "links h a = Some (?n, ?p)" using assms by simp
  then obtain x where x: "h a = Some x" "inext x = ?n" "iprev x = ?p" by (auto simp: links_def)
  have pre: "\<forall>b. ?p = Some b \<longrightarrow> links h b \<noteq> None \<and> b \<in> set xs \<and> b \<noteq> a"
    using assms dseg_mem [of "links h" None xs "Some a" "last xs"]
    by (auto simp: ptr_last_def split: if_splits)
  obtain h1 where h1: "set_next_of ?p ?n h = Some h1" "links h1 = upd_next ?p ?n (links h)"
    "hlink h1 = hlink h" "idata h1 = idata h" "dom h1 = dom h"
    using set_next_of_ok [of ?p h ?n] pre by auto
  have "?p \<noteq> Some a" using pre by blast
  then have "links h1 a = Some (?n, ?p)" using La by (simp add: h1(2) upd_next_other)
  then obtain x1 where x1: "h1 a = Some x1" "inext x1 = ?n" "iprev x1 = ?p" by (auto simp: links_def)
  have post: "\<forall>b. ?n = Some b \<longrightarrow> b \<in> dom h1 \<and> b \<in> set ys \<and> b \<noteq> a"
  proof -
    have "\<forall>b. ?n = Some b \<longrightarrow> links h b \<noteq> None \<and> b \<in> set ys"
      using assms by (auto simp: ptr_hd_def split: list.splits)
    then show ?thesis using assms(2) by (auto simp: h1(5) links_def)
  qed
  obtain h2 where h2: "set_prev_of ?n ?p h1 = Some h2" "links h2 = upd_prev ?n ?p (links h1)"
    "hlink h2 = hlink h1" "idata h2 = idata h1" "dom h2 = dom h1"
    using set_prev_of_ok [of ?n h1 ?p] post by (auto simp: links_def)
  have "a \<in> dom h2" using x(1) h1(5) h2(5) by auto
  then obtain x2 where x2: "h2 a = Some x2" by auto
  let ?h' = "h2(a \<mapsto> x2\<lparr>iprev := None, inext := None\<rparr>)"
  have run: "unlink_item a h = Some ?h'"
    using x x1 x2 h1(1) h2(1) by (simp add: unlink_item_def)
  have seg: "dseg (links h2) None (xs @ ys) None"
    unfolding h2(2) h1(2) by (rule dseg_join) (use assms in auto)
  have other: "links h2 b = links h b" if "b \<notin> set (xs @ a # ys)" for b
  proof -
    have "?p \<noteq> Some b" "?n \<noteq> Some b" using that pre post by auto
    then show ?thesis by (simp add: h2(2) h1(2) upd_next_other upd_prev_other)
  qed
  show ?thesis
  proof (rule that [OF run])
    show "dseg (links ?h') None (xs @ ys) None" using seg assms(2) by simp
    show "links ?h' a = Some (None, None)" by simp
    show "\<forall>b. b \<notin> set (xs @ a # ys) \<longrightarrow> links ?h' b = links h b" using other by simp
    show "hlink ?h' = hlink h" using hlink_same [of h2 a x2] x2 h1(3) h2(3) by simp
    show "idata ?h' = idata h" using idata_same [of h2 a x2] x2 h1(4) h2(4) by simp
    show "dom ?h' = dom h" using x2 h1(5) h2(5) by auto
  qed
qed

section \<open>The search loops on a chain\<close>

text \<open>Each search stops at the first item of the chain with the key.\<close>

abbreviation has_key :: "heap \<Rightarrow> bytes \<Rightarrow> nat \<Rightarrow> bool" where
  "has_key h k a \<equiv> item_key h a = Some k"

lemma chain_Cons_iff: "chain H p (a # xs) \<longleftrightarrow> p = Some a \<and> (\<exists>q. H a = Some q \<and> chain H q xs)"
  by (auto split: option.splits)

declare chain.simps(2) [simp del]

lemma hlink_SomeE:
  assumes "hlink h a = Some q"
  obtains x where "h a = Some x" "h_next x = q"
  using assms by (auto simp: hlink_def)

lemma find_loop_chain:
  assumes "chain (hlink h) p xs" "\<forall>a \<in> set xs. item_key h a \<noteq> None"
    and "read_bytes key 0 (unat nkey) = Some k"
  shows "find_loop h key nkey p = Some (find (has_key h k) xs)"
  using assms
proof (induction xs arbitrary: p)
  case Nil
  then show ?case by (simp add: find_loop.simps)
next
  case (Cons a xs)
  from Cons.prems(1) obtain q where q: "p = Some a" "hlink h a = Some q" "chain (hlink h) q xs"
    by (auto simp: chain_Cons_iff)
  from q(2) obtain x where x: "h a = Some x" "h_next x = q" by (rule hlink_SomeE)
  obtain k' where k': "item_key h a = Some k'" using Cons.prems(2) by auto
  show ?case using Cons.IH [OF q(3)] Cons.prems q(1) x k' key_differs_eq [OF assms(3) x(1) k']
    by (subst find_loop.simps) auto
qed

lemma exists_loop_chain:
  assumes "chain (hlink h) p xs" "\<forall>a \<in> set xs. item_key h a \<noteq> None"
    and "read_bytes key 0 (unat nkey) = Some k"
  shows "exists_loop h key nkey p = Some (find (has_key h k) xs)"
  using assms
proof (induction xs arbitrary: p)
  case Nil
  then show ?case by (simp add: exists_loop.simps)
next
  case (Cons a xs)
  from Cons.prems(1) obtain q where q: "p = Some a" "hlink h a = Some q" "chain (hlink h) q xs"
    by (auto simp: chain_Cons_iff)
  from q(2) obtain x where x: "h a = Some x" "h_next x = q" by (rule hlink_SomeE)
  obtain k' where k': "item_key h a = Some k'" using Cons.prems(2) by auto
  show ?case using Cons.IH [OF q(3)] Cons.prems q(1) x k' key_differs_eq [OF assms(3) x(1) k']
    by (subst exists_loop.simps) auto
qed

text \<open>\<open>_hashitem_before\<close> ends at the place that points to the first item with the key, or at the end.\<close>

definition place_after :: "place \<Rightarrow> nat list \<Rightarrow> place" where
  "place_after pos xs = (if xs = [] then pos else H_next (last xs))"

lemma before_loop_chain:
  assumes "get_place h tab pos = Some p" "chain (hlink h) p xs" "\<forall>a \<in> set xs. item_key h a \<noteq> None"
    and "read_bytes key 0 (unat nkey) = Some k"
  shows "before_loop h tab key nkey pos = Some (place_after pos (takeWhile (\<lambda>a. \<not> has_key h k a) xs))"
  using assms
proof (induction xs arbitrary: p pos)
  case Nil
  then show ?case by (simp add: before_loop.simps place_after_def)
next
  case (Cons a xs)
  from Cons.prems(2) obtain q where q: "p = Some a" "hlink h a = Some q" "chain (hlink h) q xs"
    by (auto simp: chain_Cons_iff)
  from q(2) obtain x where x: "h a = Some x" "h_next x = q" by (rule hlink_SomeE)
  obtain k' where k': "item_key h a = Some k'" using Cons.prems(3) by auto
  have "get_place h tab (H_next a) = Some q" using x by simp
  from Cons.IH [OF this q(3)] show ?case
    using Cons.prems q(1) x k' key_differs_eq [OF assms(4) x(1) k']
    by (subst before_loop.simps) (auto simp: place_after_def)
qed

section \<open>The invariant\<close>

text \<open>
  \<open>ht_inv h t xs\<close>: the table holds the items \<open>xs\<close>, in this order from \<open>head\<close> to \<open>tail\<close>; every
  bucket chains exactly the items whose key hashes to it; keys are readable and distinct.
\<close>

definition buckets_ok :: "heap \<Rightarrow> (nat \<Rightarrow> ptr) \<Rightarrow> nat list \<Rightarrow> (nat \<Rightarrow> nat list) \<Rightarrow> bool" where
  "buckets_ok h tab xs cs \<longleftrightarrow>
     (\<forall>b. chain (hlink h) (tab b) (cs b)
        \<and> set (cs b) = {a \<in> set xs. map_option bucket_of (item_key h a) = Some b})"

definition ht_inv :: "heap \<Rightarrow> HashTable \<Rightarrow> nat list \<Rightarrow> bool" where
  "ht_inv h t xs \<longleftrightarrow>
     dseg (links h) None xs None \<and> distinct xs \<and> head t = ptr_hd xs None \<and> tail t = ptr_last None xs
     \<and> (\<forall>a \<in> set xs. item_key h a \<noteq> None) \<and> inj_on (item_key h) (set xs)
     \<and> hash_items t = of_nat (length xs)
     \<and> (\<exists>tab cs. primary_hashtable t = Some tab \<and> buckets_ok h tab xs cs)"

text \<open>The contents as an association list from keys to items, in insertion order.\<close>

definition ht_entries :: "heap \<Rightarrow> nat list \<Rightarrow> (bytes \<times> nat) list" where
  "ht_entries h xs = map (\<lambda>a. (the (item_key h a), a)) xs"

lemma ht_invE:
  assumes "ht_inv h t xs"
  obtains tab cs where "primary_hashtable t = Some tab" "\<And>b. chain (hlink h) (tab b) (cs b)"
    "\<And>b. set (cs b) = {a \<in> set xs. map_option bucket_of (item_key h a) = Some b}"
  using assms unfolding ht_inv_def buckets_ok_def by blast

lemma ht_invI [inv_intros]:
  "dseg (links h) None xs None \<Longrightarrow> distinct xs \<Longrightarrow> head t = ptr_hd xs None \<Longrightarrow> tail t = ptr_last None xs
   \<Longrightarrow> \<forall>a \<in> set xs. item_key h a \<noteq> None \<Longrightarrow> inj_on (item_key h) (set xs)
   \<Longrightarrow> hash_items t = of_nat (length xs) \<Longrightarrow> primary_hashtable t = Some tab \<Longrightarrow> buckets_ok h tab xs cs
   \<Longrightarrow> ht_inv h t xs"
  unfolding ht_inv_def by blast

lemma find_unique:
  assumes "\<And>a b. a \<in> set xs \<Longrightarrow> b \<in> set xs \<Longrightarrow> P a \<Longrightarrow> P b \<Longrightarrow> a = b"
  shows "find P xs = Some a \<longleftrightarrow> a \<in> set xs \<and> P a"
  using assms by (induction xs) (auto split: if_splits)

lemma find_same_set:
  assumes "\<And>a b. a \<in> set xs \<Longrightarrow> b \<in> set xs \<Longrightarrow> P a \<Longrightarrow> P b \<Longrightarrow> a = b"
    and "{a \<in> set ys. P a} = {a \<in> set xs. P a}"
  shows "find P ys = find P xs"
proof -
  have "find P ys = Some a \<longleftrightarrow> find P xs = Some a" for a
    using find_unique [of xs P a] find_unique [of ys P a] assms by blast
  then show ?thesis by (metis option.exhaust)
qed

text \<open>Searching the bucket of a key is searching all items.\<close>

lemma find_bucket:
  assumes "inj_on (item_key h) (set xs)"
    and "set ys = {a \<in> set xs. map_option bucket_of (item_key h a) = Some (bucket_of k)}"
  shows "find (has_key h k) ys = find (has_key h k) xs"
proof (rule find_same_set)
  show "a = b" if "a \<in> set xs" "b \<in> set xs" "has_key h k a" "has_key h k b" for a b
    using assms(1) that by (metis inj_on_eq_iff)
  show "{a \<in> set ys. has_key h k a} = {a \<in> set xs. has_key h k a}"
    using assms(2) by auto
qed

lemma find_entries:
  assumes "\<forall>a \<in> set xs. item_key h a \<noteq> None"
  shows "map_of (ht_entries h xs) k = find (has_key h k) xs"
  using assms by (induction xs) (auto simp: ht_entries_def)

end
