(* ===== verification/Hashtable_Ops.thy ===== *)
theory Hashtable_Ops
  imports Hashtable_Inv
begin

text \<open>
  The operations of the hash table against the association list of its contents: lookup,
  insertion, removal, clearing and the two iterations, each with its memory safety (the result
  is never \<open>None\<close>) and the preservation of the representation invariant.
\<close>

section \<open>Lookup\<close>

lemma ht_inv_find:
  assumes "ht_inv h t xs" "primary_hashtable t = Some tab" "read_bytes key 0 (unat nkey) = Some k"
  shows "find_loop h key nkey (tab (bucket_of k)) = Some (map_of (ht_entries h xs) k)"
    and "exists_loop h key nkey (tab (bucket_of k)) = Some (map_of (ht_entries h xs) k)"
proof -
  obtain cs where ch: "\<And>b. chain (hlink h) (tab b) (cs b)"
    and cs: "\<And>b. set (cs b) = {a \<in> set xs. map_option bucket_of (item_key h a) = Some b}"
    using ht_invE [OF assms(1)] assms(2) by (metis option.inject)
  have keys: "\<forall>a \<in> set xs. item_key h a \<noteq> None" and inj: "inj_on (item_key h) (set xs)"
    using assms(1) by (auto simp: ht_inv_def)
  then have keys': "\<forall>a \<in> set (cs (bucket_of k)). item_key h a \<noteq> None" using cs by auto
  show "find_loop h key nkey (tab (bucket_of k)) = Some (map_of (ht_entries h xs) k)"
    and "exists_loop h key nkey (tab (bucket_of k)) = Some (map_of (ht_entries h xs) k)"
    using find_loop_chain [OF ch keys' assms(3)] exists_loop_chain [OF ch keys' assms(3)]
      find_bucket [OF inj cs] find_entries [OF keys] by simp_all
qed

lemma ht_inv_table: "ht_inv h t xs \<Longrightarrow> \<exists>tab. primary_hashtable t = Some tab"
  by (auto simp: ht_inv_def)

lemma find_ok:
  assumes "ht_inv h t xs" "nkey \<noteq> 0" "read_bytes key 0 (unat nkey) = Some k"
  shows "hashtable_find h (Some t) (Some key) nkey = Some (map_of (ht_entries h xs) k)"
proof -
  obtain tab where "primary_hashtable t = Some tab" using ht_inv_table [OF assms(1)] by auto
  with ht_inv_find(1) [OF assms(1) this assms(3)] assms(2,3) show ?thesis
    by (simp add: hashtable_find_def)
qed

text \<open>
  Lookup: \<open>hashtable_find\<close> returns the item that the table associates with the key, and the
  null pointer when there is none; it never leaves the live items, and it terminates.
\<close>
theorem hashtable_find_lookup:
  assumes "ht_inv h t xs" "nkey \<noteq> 0" "read_bytes key 0 (unat nkey) = Some k"
  shows "hashtable_find h (Some t) (Some key) nkey = Some (map_of (ht_entries h xs) k)"
  by (rule find_ok [OF assms])

section \<open>Insertion\<close>

lemma read_bytes_all: "read_bytes k 0 (length k) = Some k"
  by (simp add: read_bytes_def)

lemma dseg_upd_None: "a \<notin> set xs \<Longrightarrow> dseg (L(a := v)) p xs n = dseg L p xs n"
  by simp

lemma chain_cong: "(\<And>a. a \<in> set xs \<Longrightarrow> H' a = H a) \<Longrightarrow> chain H' p xs = chain H p xs"
  by (induction xs arbitrary: p) (auto simp: chain_Cons_iff)

lemma insert_new:
  assumes inv: "ht_inv h t xs" and a: "a \<notin> set xs" "item_key h a = Some k"
    and new: "map_of (ht_entries h xs) k = None"
  obtains h' t' where "hashtable_insert h (Some t) (Some a) = Some (HT_OK, h', Some t')"
    "ht_inv h' t' (xs @ [a])" "idata h' = idata h" "dom h' = dom h"
    "alloc_func t' = alloc_func t" "free_func t' = free_func t"
proof -
  obtain tab cs where tab: "primary_hashtable t = Some tab" and ch: "\<And>b. chain (hlink h) (tab b) (cs b)"
    and cs: "\<And>b. set (cs b) = {a \<in> set xs. map_option bucket_of (item_key h a) = Some b}"
    using ht_invE [OF inv] by metis
  have seg: "dseg (links h) None xs None" and dist: "distinct xs" and tl: "tail t = ptr_last None xs"
    and hd: "head t = ptr_hd xs None" and keys: "\<forall>a \<in> set xs. item_key h a \<noteq> None"
    and inj: "inj_on (item_key h) (set xs)" and n: "hash_items t = of_nat (length xs)"
    using inv by (auto simp: ht_inv_def)
  obtain x where x: "h a = Some x" and key: "HASHITEM_KEY x (unat (scast (key_length x) :: u64)) = Some k"
    using a(2) by (rule item_key_SomeE)
  let ?nkey = "scast (key_length x) :: u64" and ?b = "bucket_of k"
  have len: "read_bytes k 0 (unat ?nkey) = Some k"
    using read_bytes_all [of k] length_HASHITEM_KEY [OF key] by simp
  let ?x = "x\<lparr>h_next := tab ?b, inext := None, iprev := tail t\<rparr>"
  let ?h2 = "h(a \<mapsto> ?x)"
  have last: "b \<in> set xs" if "tail t = Some b" for b
    using that tl by (auto simp: ptr_last_def split: if_splits)
  have "\<forall>b. tail t = Some b \<longrightarrow> links ?h2 b \<noteq> None"
    using last seg by (auto dest: dseg_mem)
  then obtain h3 where h3: "set_next_of (tail t) (Some a) ?h2 = Some h3"
    "links h3 = upd_next (tail t) (Some a) (links ?h2)" "hlink h3 = hlink ?h2" "idata h3 = idata ?h2"
    "dom h3 = dom ?h2"
    by (rule set_next_of_ok)
  let ?t' = "t\<lparr>primary_hashtable := Some (tab(?b := Some a)), tail := Some a,
      head := (if head t = None then Some a else head t), hash_items := hash_items t + 1\<rparr>"
  have run: "hashtable_insert h (Some t) (Some a) = Some (HT_OK, h3, Some ?t')"
    using x key tab ht_inv_find(2) [OF inv tab len] new h3(1)
    by (simp add: hashtable_insert_def Let_def)
  have data: "idata h3 = idata h" using x h3(4) by (simp add: idata_same)
  have keys3: "item_key h3 = item_key h" by (rule item_key_cong [OF data])
  have "dseg (links h3) None xs (Some a)"
    unfolding h3(2) tl using seg dist a(1) by (intro dseg_redirect_last [where n = None]) simp_all
  moreover have "links h3 a = Some (None, ptr_last None xs)"
  proof -
    have "tail t \<noteq> Some a" using last a(1) by auto
    then show ?thesis by (simp add: h3(2) upd_next_other tl)
  qed
  ultimately have seg3: "dseg (links h3) None (xs @ [a]) None" by simp
  have fresh: "a \<notin> set (cs b)" for b using a(1) cs by simp
  have buckets: "buckets_ok h3 (tab(?b := Some a)) (xs @ [a]) (cs(?b := a # cs ?b))"
    unfolding buckets_ok_def
  proof (intro allI conjI)
    fix b
    have ch3: "chain (hlink h3) (tab b) (cs b)" using ch [of b] fresh [of b] by (simp add: h3(3))
    then show "chain (hlink h3) ((tab(?b := Some a)) b) ((cs(?b := a # cs ?b)) b)"
      by (cases "b = ?b") (simp_all add: chain_Cons_iff h3(3))
    show "set ((cs(?b := a # cs ?b)) b) = {c \<in> set (xs @ [a]). map_option bucket_of (item_key h3 c) = Some b}"
      using cs a(2) by (auto simp: keys3)
  qed
  have "inj_on (item_key h) (insert a (set xs))"
  proof -
    have "find (has_key h k) xs = None" using new find_entries [OF keys] by simp
    then have "Some k \<notin> item_key h ` set xs" by (auto simp: find_None_iff)
    then show ?thesis using inj a by (simp add: inj_on_insert)
  qed
  then have "ht_inv h3 ?t' (xs @ [a])"
    using seg3 dist a hd keys n
    by (intro ht_invI [OF _ _ _ _ _ _ _ _ buckets]) (auto simp: keys3 ptr_hd_def split: list.splits)
  then show ?thesis using data h3(5) x by (intro that [OF run]) auto
qed

lemma insert_dup:
  assumes inv: "ht_inv h t xs" and a: "item_key h a = Some k" and dup: "map_of (ht_entries h xs) k \<noteq> None"
  shows "hashtable_insert h (Some t) (Some a) = Some (HT_EXISTS, h, Some t)"
proof -
  obtain tab where tab: "primary_hashtable t = Some tab" using ht_inv_table [OF inv] by auto
  obtain x where x: "h a = Some x" and key: "HASHITEM_KEY x (unat (scast (key_length x) :: u64)) = Some k"
    using a by (rule item_key_SomeE)
  have len: "read_bytes k 0 (unat (scast (key_length x) :: u64)) = Some k"
    using read_bytes_all [of k] length_HASHITEM_KEY [OF key] by simp
  from dup x key tab ht_inv_find(2) [OF inv tab len] show ?thesis
    by (auto simp: hashtable_insert_def)
qed

lemma entries_insert:
  "idata h' = idata h \<Longrightarrow> item_key h a = Some k \<Longrightarrow> ht_entries h' (xs @ [a]) = ht_entries h xs @ [(k, a)]"
  by (simp add: ht_entries_def item_key_cong [of h' h])

text \<open>
  Insertion: for a live item that is not in the table, \<open>hashtable_insert\<close> refuses a key that
  is already present and changes nothing; otherwise it appends the item at the tail of the
  insertion order, puts it into its bucket, keeps the invariant and every key and value.
\<close>
theorem hashtable_insert_appends:
  assumes "ht_inv h t xs" "a \<notin> set xs" "item_key h a = Some k"
  shows "if k \<in> fst ` set (ht_entries h xs)
    then hashtable_insert h (Some t) (Some a) = Some (HT_EXISTS, h, Some t)
    else \<exists>h' t'. hashtable_insert h (Some t) (Some a) = Some (HT_OK, h', Some t')
      \<and> ht_inv h' t' (xs @ [a]) \<and> ht_entries h' (xs @ [a]) = ht_entries h xs @ [(k, a)]
      \<and> idata h' = idata h"
proof (cases "map_of (ht_entries h xs) k")
  case None
  from insert_new [OF assms this] obtain h' t' where
    "hashtable_insert h (Some t) (Some a) = Some (HT_OK, h', Some t')" "ht_inv h' t' (xs @ [a])"
    "idata h' = idata h" .
  moreover have "k \<notin> fst ` set (ht_entries h xs)" using None by (simp add: map_of_eq_None_iff)
  ultimately show ?thesis using entries_insert [OF _ assms(3)] by auto
next
  case (Some b)
  then have "k \<in> fst ` set (ht_entries h xs)" by (force dest: map_of_SomeD)
  then show ?thesis using insert_dup [OF assms(1,3)] Some by simp
qed

section \<open>Removal\<close>

lemma set_place_bypass:
  assumes "chain (hlink h) (tab b) (us @ a # vs)" "h a = Some x"
  obtains h' tab' where "set_place h tab (place_after (Bucket b) us) (h_next x) = Some (h', tab')"
    "chain (hlink h') (tab' b) (us @ vs)" "\<forall>b'. b' \<noteq> b \<longrightarrow> tab' b' = tab b'"
    "\<forall>c. c \<notin> set us \<longrightarrow> hlink h' c = hlink h c" "links h' = links h" "idata h' = idata h" "dom h' = dom h"
proof (cases us rule: rev_cases)
  case Nil
  with assms show ?thesis
    by (intro that [of h "tab(b := h_next x)"]) (auto simp: place_after_def chain_Cons_iff hlink_def)
next
  case (snoc ws c)
  have q: "hlink h a = Some (h_next x)" using assms(2) by (rule view_Some)
  have ch: "chain (hlink h) (tab b) (ws @ c # a # vs)" using assms(1) snoc by simp
  then have "c \<in> dom (hlink h)" by (metis chain_Cons_iff chain_suffix domI)
  then obtain y where y: "h c = Some y" by (auto simp: hlink_def)
  let ?h' = "h(c \<mapsto> y\<lparr>h_next := h_next x\<rparr>)"
  have "set_place h tab (place_after (Bucket b) us) (h_next x) = Some (?h', tab)"
    using y snoc by (simp add: place_after_def)
  then show ?thesis
  proof (rule that)
    show "chain (hlink ?h') (tab b) (us @ vs)"
      using chain_bypass [OF ch q] snoc by simp
    show "links ?h' = links h" using links_same [of h c y] y by simp
    show "idata ?h' = idata h" using idata_same [of h c y] y by simp
    show "dom ?h' = dom h" using y by auto
  qed (use snoc in auto)
qed

lemma takeWhile_find_split:
  assumes "find P xs = Some a"
  obtains vs where "xs = takeWhile (\<lambda>x. \<not> P x) xs @ a # vs"
proof -
  have "dropWhile (\<lambda>x. \<not> P x) xs = a # tl (dropWhile (\<lambda>x. \<not> P x) xs)"
    using assms by (induction xs) (auto split: if_splits)
  then show ?thesis using that by (metis takeWhile_dropWhile_id)
qed

lemma hashitem_before_ok:
  assumes "ht_inv h t xs" "primary_hashtable t = Some tab" "chain (hlink h) (tab (bucket_of k)) ys"
    and "set ys \<subseteq> set xs" "read_bytes key 0 (unat nkey) = Some k"
  shows "hashitem_before h t key nkey
    = Some (place_after (Bucket (bucket_of k)) (takeWhile (\<lambda>a. \<not> has_key h k a) ys))"
proof -
  have "\<forall>a \<in> set ys. item_key h a \<noteq> None" using assms(1,4) by (auto simp: ht_inv_def)
  from before_loop_chain [OF _ assms(3) this assms(5), of tab "Bucket (bucket_of k)"] show ?thesis
    using assms(2,5) by (simp add: hashitem_before_def)
qed

lemma get_place_after:
  assumes "chain (hlink h) (tab b) (us @ vs)"
  shows "get_place h tab (place_after (Bucket b) us) = Some (ptr_hd vs None)"
proof (cases us rule: rev_cases)
  case Nil
  with assms show ?thesis using chain_hd [of "hlink h" "tab b" vs] by (simp add: place_after_def)
next
  case (snoc ws c)
  then obtain p where "chain (hlink h) p (c # vs)"
    using assms chain_suffix [of "hlink h" "tab b" ws "c # vs"] by auto
  then obtain q where "hlink h c = Some q" "chain (hlink h) q vs" by (auto simp: chain_Cons_iff)
  with snoc show ?thesis using chain_hd [of "hlink h" q vs] by (auto simp: place_after_def hlink_def)
qed

text \<open>The buckets after the item \<open>a\<close> has been bypassed in its chain.\<close>

lemma buckets_bypass:
  assumes ch: "\<And>b. chain (hlink h) (tab b) (cs b)"
    and cs: "\<And>b. set (cs b) = {a \<in> set xs. map_option bucket_of (item_key h a) = Some b}"
    and split: "cs B = us @ a # vs" and a: "map_option bucket_of (item_key h a) = Some B" and dist: "distinct xs"
    and ch1: "chain (hlink h1) (tab1 B) (us @ vs)" and tab1: "\<forall>b. b \<noteq> B \<longrightarrow> tab1 b = tab b"
    and hl1: "\<forall>c. c \<notin> set us \<longrightarrow> hlink h1 c = hlink h c" and hl3: "hlink h3 = (hlink h1)(a \<mapsto> None)"
    and keys3: "item_key h3 = item_key h"
  shows "buckets_ok h3 tab1 (remove1 a xs) (cs(B := us @ vs))"
proof -
  have distb: "distinct (us @ a # vs)" unfolding split [symmetric] by (rule chain_distinct [OF ch])
  show ?thesis
    unfolding buckets_ok_def
  proof (intro allI conjI)
    fix b
    have hl3': "hlink h3 c = hlink h1 c" if "c \<noteq> a" for c using that hl3 by simp
    show "chain (hlink h3) (tab1 b) ((cs(B := us @ vs)) b)"
    proof (cases "b = B")
      case True
      have "a \<notin> set (us @ vs)" using distb by auto
      then have "chain (hlink h3) (tab1 B) (us @ vs)"
        using chain_cong [of "us @ vs" "hlink h3" "hlink h1" "tab1 B"] ch1 hl3' by metis
      with True show ?thesis by simp
    next
      case False
      have "c \<noteq> a \<and> c \<notin> set us" if "c \<in> set (cs b)" for c
      proof -
        have "map_option bucket_of (item_key h c) = Some b" using that cs by simp
        moreover have "map_option bucket_of (item_key h d) = Some B" if "d \<in> set us \<union> {a}" for d
        proof -
          have "d \<in> set (cs B)" using that split by auto
          then show ?thesis using cs by simp
        qed
        ultimately show ?thesis using False by (metis Un_iff insertI1 option.inject)
      qed
      then have "chain (hlink h3) (tab b) (cs b)"
        using chain_cong [of "cs b" "hlink h3" "hlink h" "tab b"] ch [of b] hl3' hl1 by metis
      with False show ?thesis by (simp add: tab1)
    qed
    have "set (us @ vs) = set (cs B) - {a}"
      unfolding split using distb by auto
    then show "set ((cs(B := us @ vs)) b)
        = {c \<in> set (remove1 a xs). map_option bucket_of (item_key h3 c) = Some b}"
      using cs dist a by (auto simp: keys3 set_remove1_eq)
  qed
qed

text \<open>Taking an item out of its chain and out of the list.\<close>

lemma remove_present:
  assumes inv: "ht_inv h t xs" and nk: "nkey \<noteq> 0" and k: "read_bytes key 0 (unat nkey) = Some k"
    and a: "a \<in> set xs" "item_key h a = Some k"
  obtains h' t' where
    "hashtable_remove h (Some t) (Some key) nkey (Some old) = Some (HT_OK, h', Some t', Some (Some a))"
    "ht_inv h' t' (remove1 a xs)" "idata h' = idata h" "dom h' = dom h"
    "alloc_func t' = alloc_func t" "free_func t' = free_func t"
    "links h' a = Some (None, None)" "hlink h' a = Some None"
proof -
  obtain tab cs where tab: "primary_hashtable t = Some tab" and ch: "\<And>b. chain (hlink h) (tab b) (cs b)"
    and cs: "\<And>b. set (cs b) = {a \<in> set xs. map_option bucket_of (item_key h a) = Some b}"
    using ht_invE [OF inv] by metis
  have seg: "dseg (links h) None xs None" and dist: "distinct xs" and tl: "tail t = ptr_last None xs"
    and hd: "head t = ptr_hd xs None" and keys: "\<forall>a \<in> set xs. item_key h a \<noteq> None"
    and inj: "inj_on (item_key h) (set xs)" and n: "hash_items t = of_nat (length xs)"
    using inv by (auto simp: ht_inv_def)
  let ?b = "bucket_of k" and ?P = "\<lambda>a. \<not> has_key h k a"
  have "a \<in> set (cs ?b)" using a cs by simp
  moreover have "c = a" if "c \<in> set (cs ?b)" "has_key h k c" for c
  proof -
    have "c \<in> set xs" using that(1) cs by simp
    then show ?thesis using inj a that(2) by (metis inj_on_eq_iff)
  qed
  ultimately have "find (has_key h k) (cs ?b) = Some a"
    using a(2) find_unique [of "cs ?b" "has_key h k" a] by (metis (no_types, lifting))
  then obtain us vs where split: "cs ?b = us @ a # vs" and us: "takeWhile ?P (cs ?b) = us"
    by (metis takeWhile_find_split)
  have before: "hashitem_before h t key nkey = Some (place_after (Bucket ?b) us)"
    unfolding us [symmetric] by (rule hashitem_before_ok [OF inv tab ch _ k]) (simp add: cs)
  have chb: "chain (hlink h) (tab ?b) (us @ a # vs)" using ch [of ?b] split by simp
  have get: "get_place h tab (place_after (Bucket ?b) us) = Some (Some a)"
    using get_place_after [of h tab ?b us "a # vs"] chb by simp
  obtain x where x: "h a = Some x" using a(2) by (rule item_key_SomeE)
  from chb x obtain h1 tab1 where set: "set_place h tab (place_after (Bucket ?b) us) (h_next x) = Some (h1, tab1)"
    and ch1: "chain (hlink h1) (tab1 ?b) (us @ vs)" and tab1: "\<forall>b. b \<noteq> ?b \<longrightarrow> tab1 b = tab b"
    and hl1: "\<forall>c. c \<notin> set us \<longrightarrow> hlink h1 c = hlink h c" and views1: "links h1 = links h" "idata h1 = idata h"
      "dom h1 = dom h"
    by (rule set_place_bypass)
  obtain x1 where x1: "h1 a = Some x1" using x views1(3) by (metis domD domI)
  let ?h2 = "h1(a \<mapsto> x1\<lparr>h_next := None\<rparr>)"
  have "links ?h2 = links h" unfolding views1(1) [symmetric] using links_same [of h1 a x1] x1 by simp
  moreover have "idata ?h2 = idata h" unfolding views1(2) [symmetric] using idata_same [of h1 a x1] x1 by simp
  moreover have "dom ?h2 = dom h" unfolding views1(3) [symmetric] using x1 by auto
  moreover have "hlink ?h2 = (hlink h1)(a \<mapsto> None)" by simp
  ultimately have views2: "links ?h2 = links h" "idata ?h2 = idata h" "dom ?h2 = dom h"
    "hlink ?h2 = (hlink h1)(a \<mapsto> None)" by fast+
  obtain us' vs' where xs: "xs = us' @ a # vs'" using a(1) by (meson split_list)
  have rem: "remove1 a xs = us' @ vs'" using dist xs by (simp add: remove1_append)
  have La: "links h1 a = Some (ptr_hd vs' None, ptr_last None us')" using seg xs views1(1) by simp
  then have x1': "inext x1 = ptr_hd vs' None" "iprev x1 = ptr_last None us'"
    using x1 by (simp_all add: links_def)
  have seg2: "dseg (links ?h2) None (us' @ a # vs') None" "distinct (us' @ a # vs')"
    using seg dist xs views2(1) by simp_all
  obtain h3 where h3: "unlink_item a ?h2 = Some h3" "dseg (links h3) None (us' @ vs') None"
    "links h3 a = Some (None, None)" "hlink h3 = hlink ?h2" "idata h3 = idata ?h2" "dom h3 = dom ?h2"
    using unlink_item_ok [OF seg2] by metis
  let ?t' = "t\<lparr>primary_hashtable := Some tab1,
      head := (if Some a = head t then inext x1 else head t),
      tail := (if Some a = tail t then iprev x1 else tail t), hash_items := hash_items t - 1\<rparr>"
  have run: "hashtable_remove h (Some t) (Some key) nkey (Some old) = Some (HT_OK, h3, Some ?t', Some (Some a))"
    using nk before tab get x set x1 h3(1) by (simp add: hashtable_remove_def Let_def)
  have data: "idata h3 = idata h" using h3(5) views2(2) by simp
  have keys3: "item_key h3 = item_key h" by (rule item_key_cong [OF data])
  have a_notin: "a \<notin> set us'" "a \<notin> set vs'" using dist xs by auto
  have head': "head ?t' = ptr_hd (us' @ vs') None"
    using hd xs x1' a_notin by (cases us') auto
  have tail': "tail ?t' = ptr_last None (us' @ vs')"
    using tl xs x1' a_notin by (cases vs' rule: rev_cases) auto
  have buckets: "buckets_ok h3 tab1 (remove1 a xs) (cs(?b := us @ vs))"
    by (rule buckets_bypass [OF ch cs split _ dist ch1 tab1 hl1 _ keys3]) (use a(2) h3(4) views2(4) in simp_all)
  have len: "hash_items ?t' = of_nat (length (remove1 a xs))"
    unfolding rem using n xs by simp
  have "ht_inv h3 ?t' (us' @ vs')"
    by (rule ht_invI [OF h3(2) _ head' tail' _ _ len [unfolded rem] _ buckets [unfolded rem]])
      (use dist keys inj in \<open>auto simp: keys3 xs inj_on_def\<close>)
  then have "ht_inv h3 ?t' (remove1 a xs)" unfolding rem .
  moreover have "hlink h3 a = Some None" using h3(4) by simp
  ultimately show ?thesis using data h3(3,6) views2(3) by (intro that [OF run]) auto
qed

lemma remove_missing:
  assumes "ht_inv h t xs" "nkey \<noteq> 0" "read_bytes key 0 (unat nkey) = Some k"
    and None: "map_of (ht_entries h xs) k = None"
  shows "hashtable_remove h (Some t) (Some key) nkey (Some old) = Some (HT_NOT_FOUND, h, Some t, Some old)"
proof -
  obtain tab cs where tab: "primary_hashtable t = Some tab" and ch: "\<And>b. chain (hlink h) (tab b) (cs b)"
    and cs: "\<And>b. set (cs b) = {a \<in> set xs. map_option bucket_of (item_key h a) = Some b}"
    using ht_invE [OF assms(1)] by metis
  have keys: "\<forall>a \<in> set xs. item_key h a \<noteq> None" using assms(1) by (auto simp: ht_inv_def)
  have "find (has_key h k) xs = None" using None find_entries [OF keys] by simp
  then have "\<forall>a \<in> set (cs (bucket_of k)). \<not> has_key h k a" using cs by (auto simp: find_None_iff)
  then have all: "takeWhile (\<lambda>a. \<not> has_key h k a) (cs (bucket_of k)) = cs (bucket_of k)"
    by (simp add: takeWhile_eq_all_conv)
  have "hashitem_before h t key nkey = Some (place_after (Bucket (bucket_of k)) (cs (bucket_of k)))"
    using hashitem_before_ok [OF assms(1) tab ch _ assms(3)] all by (auto simp: cs)
  moreover have "get_place h tab (place_after (Bucket (bucket_of k)) (cs (bucket_of k))) = Some None"
    using get_place_after [of h tab "bucket_of k" "cs (bucket_of k)" "[]"] ch by simp
  ultimately show ?thesis using None assms(2) tab by (simp add: hashtable_remove_def)
qed

lemma find_in_entries:
  assumes "ht_inv h t xs" "map_of (ht_entries h xs) k = Some a"
  shows "a \<in> set xs" "item_key h a = Some k"
proof -
  have "\<forall>a \<in> set xs. item_key h a \<noteq> None" using assms(1) by (auto simp: ht_inv_def)
  then have "find (has_key h k) xs = Some a" using assms(2) find_entries by metis
  then show "a \<in> set xs" "item_key h a = Some k" by (auto simp: find_Some_iff)
qed

lemma entries_remove:
  assumes "ht_inv h t xs" "a \<in> set xs" "item_key h a = Some k" "idata h' = idata h"
  shows "ht_entries h' (remove1 a xs) = filter (\<lambda>e. fst e \<noteq> k) (ht_entries h xs)"
proof -
  have keys: "\<forall>a \<in> set xs. item_key h a \<noteq> None" and inj: "inj_on (item_key h) (set xs)"
    and "distinct xs" using assms(1) by (auto simp: ht_inv_def)
  note a = assms(2,3)
  have "remove1 a xs = filter (\<lambda>b. item_key h b \<noteq> Some k) xs"
  proof -
    have "b = a \<longleftrightarrow> item_key h b = Some k" if "b \<in> set xs" for b
      using a inj that by (metis inj_on_eq_iff)
    then show ?thesis using \<open>distinct xs\<close>
      by (auto simp: distinct_remove1_removeAll removeAll_filter_not_eq intro!: filter_cong)
  qed
  moreover have "filter (\<lambda>e. fst e \<noteq> k) (ht_entries h xs)
      = map (\<lambda>a. (the (item_key h a), a)) (filter (\<lambda>b. item_key h b \<noteq> Some k) xs)"
    using keys by (auto simp: ht_entries_def filter_map o_def
        intro!: arg_cong [where f = "map (\<lambda>a. (the (item_key h a), a))"] filter_cong)
  ultimately show ?thesis by (simp add: ht_entries_def item_key_cong [OF assms(4)])
qed

text \<open>
  Removal: \<open>hashtable_remove\<close> of a present key returns its item, detached from chain and
  list, and leaves the other items in their order; for an absent key it changes nothing and
  leaves the result variable alone.
\<close>
theorem hashtable_remove_detaches:
  assumes "ht_inv h t xs" "nkey \<noteq> 0" "read_bytes key 0 (unat nkey) = Some k"
  shows "case map_of (ht_entries h xs) k of
      None \<Rightarrow> hashtable_remove h (Some t) (Some key) nkey (Some old) = Some (HT_NOT_FOUND, h, Some t, Some old)
    | Some a \<Rightarrow> \<exists>h' t'.
        hashtable_remove h (Some t) (Some key) nkey (Some old) = Some (HT_OK, h', Some t', Some (Some a))
        \<and> ht_inv h' t' (remove1 a xs)
        \<and> ht_entries h' (remove1 a xs) = filter (\<lambda>e. fst e \<noteq> k) (ht_entries h xs)
        \<and> idata h' = idata h \<and> links h' a = Some (None, None) \<and> hlink h' a = Some None"
proof (cases "map_of (ht_entries h xs) k")
  case None
  with remove_missing [OF assms] show ?thesis by simp
next
  case (Some a)
  note a = find_in_entries [OF assms(1) Some]
  obtain h' t' where r:
    "hashtable_remove h (Some t) (Some key) nkey (Some old) = Some (HT_OK, h', Some t', Some (Some a))"
    "ht_inv h' t' (remove1 a xs)" "idata h' = idata h" "links h' a = Some (None, None)" "hlink h' a = Some None"
    using remove_present [OF assms a] by metis
  with Some entries_remove [OF assms(1) a r(3)] show ?thesis by auto
qed

section \<open>Clearing\<close>

text \<open>The library's \<open>free\<close>: the block is gone.\<close>

definition c_free :: "heap \<Rightarrow> nat \<Rightarrow> heap" where
  "c_free h a = h(a := None)"

lemma dseg_cong: "(\<And>a. a \<in> set xs \<Longrightarrow> L' a = L a) \<Longrightarrow> dseg L' p xs n = dseg L p xs n"
  by (induction xs arbitrary: p) auto

lemma clear_loop_ok:
  assumes "dseg (links h) None xs None" "distinct xs" "free_func t = Some c_free"
  shows "\<exists>h'. clear_loop h t (ptr_hd xs None) = Some (h', t\<lparr>hash_items := hash_items t - of_nat (length xs)\<rparr>)
    \<and> dom h' = dom h - set xs \<and> (\<forall>b. b \<notin> set xs \<longrightarrow> h' b = h b)"
  using assms
proof (induction xs arbitrary: h t)
  case Nil
  then show ?case by (simp add: clear_loop.simps)
next
  case (Cons a xs)
  obtain x where x: "h a = Some x" "inext x = ptr_hd xs None" using Cons.prems(1) by (auto simp: links_def)
  have seg: "dseg (links h) None ([] @ a # xs) None" "distinct ([] @ a # xs)" using Cons.prems by auto
  obtain h1 where h1: "unlink_item a h = Some h1" "dseg (links h1) None ([] @ xs) None"
    "\<forall>b. b \<notin> set ([] @ a # xs) \<longrightarrow> links h1 b = links h b" "hlink h1 = hlink h" "idata h1 = idata h" "dom h1 = dom h"
    using unlink_item_ok [OF seg] by metis
  let ?h2 = "c_free h1 a" and ?t2 = "t\<lparr>hash_items := hash_items t - 1\<rparr>"
  have "links ?h2 b = links h1 b" if "b \<in> set xs" for b
    using that Cons.prems(2) by (auto simp: c_free_def links_def)
  then have "dseg (links ?h2) None xs None"
    using h1(2) dseg_cong [of xs "links ?h2" "links h1"] by simp
  from Cons.IH [OF this, of ?t2] Cons.prems obtain h' where h':
    "clear_loop ?h2 ?t2 (ptr_hd xs None) = Some (h', ?t2\<lparr>hash_items := hash_items ?t2 - of_nat (length xs)\<rparr>)"
    "dom h' = dom ?h2 - set xs" "\<forall>b. b \<notin> set xs \<longrightarrow> h' b = ?h2 b" by auto
  have "h1 b = h b" if "b \<notin> set (a # xs)" for b
    using that h1(3,4,5) by (intro views_eq) auto
  moreover have "clear_loop h t (ptr_hd (a # xs) None) = clear_loop ?h2 ?t2 (ptr_hd xs None)"
    using x h1(1) Cons.prems(3) by (subst clear_loop.simps) simp
  moreover have "dom ?h2 = dom h - {a}" using h1(6) by (auto simp: c_free_def)
  moreover have "?h2 b = h1 b" if "b \<noteq> a" for b using that by (simp add: c_free_def)
  ultimately show ?case
    using h' by (intro exI [of _ h']) (auto simp: algebra_simps)
qed

text \<open>
  C38. Clearing: \<open>hashtable_clear\<close> on a non-empty table whose items are released with \<open>free\<close>
  returns 0, frees exactly the items of the table, each once, and leaves an empty table that
  satisfies the invariant; on an empty table it returns -1 and changes nothing. So
  \<open>hashtable_destroy\<close> releases the bucket array only when the table is not empty.
\<close>
theorem hashtable_clear_frees_all:
  assumes "ht_inv h t xs" "free_func t = Some c_free"
  shows "if xs = []
    then hashtable_clear h (Some t) = Some (-1, h, Some t)
      \<and> hashtable_destroy h (Some t) = Some (-1, h, Some t) \<and> primary_hashtable t \<noteq> None
    else \<exists>h' t'. hashtable_clear h (Some t) = Some (0, h', Some t') \<and> ht_inv h' t' []
      \<and> dom h' = dom h - set xs \<and> (\<forall>b. b \<notin> set xs \<longrightarrow> h' b = h b)
      \<and> hashtable_destroy h (Some t) = Some (0, h', Some (t'\<lparr>primary_hashtable := None\<rparr>))"
proof (cases "xs = []")
  case True
  with assms(1) show ?thesis by (auto simp: hashtable_clear_def hashtable_destroy_def ht_inv_def)
next
  case False
  have ht: "head t = ptr_hd xs None" "tail t = ptr_last None xs" "hash_items t = of_nat (length xs)"
    "primary_hashtable t \<noteq> None" using assms(1) by (auto simp: ht_inv_def)
  have nonnull: "head t \<noteq> None" "tail t \<noteq> None"
    using False ht by (auto simp: ptr_last_def ptr_hd_def split: list.splits)
  from assms(1) have "dseg (links h) None xs None" "distinct xs" by (auto simp: ht_inv_def)
  from clear_loop_ok [OF this assms(2)] ht obtain h' where h':
    "clear_loop h t (head t) = Some (h', t\<lparr>hash_items := 0\<rparr>)"
    "dom h' = dom h - set xs" "\<forall>b. b \<notin> set xs \<longrightarrow> h' b = h b" by auto
  let ?t' = "t\<lparr>hash_items := 0, head := None, tail := None, primary_hashtable := Some (\<lambda>_. None)\<rparr>"
  have "hashtable_clear h (Some t) = Some (0, h', Some ?t')"
    using h'(1) nonnull ht(4) by (auto simp: hashtable_clear_def)
  moreover have "ht_inv h' ?t' []"
    by (rule ht_invI [where cs = "\<lambda>_. []" and tab = "\<lambda>_. None"]) (simp_all add: buckets_ok_def)
  ultimately show ?thesis using h'(2,3) False by (auto simp: hashtable_destroy_def)
qed

text \<open>
  \<open>hashtable_init\<close> on any table, when the bucket array can be allocated, yields the empty
  table, with \<open>malloc\<close> and \<open>free\<close> as defaults; when it cannot, it reports so; a null table is
  rejected.
\<close>
theorem hashtable_init_empty:
  "hashtable_init calloc_ok malloc free None al fr = (HT_INVALID_PARAM, None)
   \<and> fst (hashtable_init False malloc free (Some t) al fr) = HT_OUT_OF_MEMORY
   \<and> (\<exists>t'. hashtable_init True malloc free (Some t) al fr = (HT_OK, Some t') \<and> ht_inv h t' []
        \<and> alloc_func t' = Some (if al = None then malloc else the al)
        \<and> free_func t' = Some (if fr = None then free else the fr))"
proof -
  let ?t' = "t\<lparr>hash_items := 0, head := None, tail := None, primary_hashtable := Some (\<lambda>_. None),
    alloc_func := Some (if al = None then malloc else the al),
    free_func := Some (if fr = None then free else the fr)\<rparr>"
  have "ht_inv h ?t' []"
    by (rule ht_invI [where cs = "\<lambda>_. []" and tab = "\<lambda>_. None"]) (simp_all add: buckets_ok_def)
  moreover have "hashtable_init True malloc free (Some t) al fr = (HT_OK, Some ?t')"
    by (auto simp: hashtable_init_def split: option.splits)
  moreover have "fst (hashtable_init False malloc free (Some t) al fr) = HT_OUT_OF_MEMORY"
    by (simp add: hashtable_init_def)
  moreover have "hashtable_init calloc_ok malloc free None al fr = (HT_INVALID_PARAM, None)"
    by (simp add: hashtable_init_def)
  ultimately show ?thesis by auto
qed

end
