(* ===== verification/Hashtable_Iter.thy ===== *)
theory Hashtable_Iter
  imports Hashtable_Ops
begin

text \<open>
  The iterations of the hash table: \<open>hashtable_apply\<close>, which tolerates callbacks that remove or
  free the item they are called on, and \<open>hashtable_apply2\<close>, which stops after \<open>n\<close> successful
  callbacks and rotates the item list, so that the next call starts where this one stopped.
\<close>

section \<open>Visiting every item\<close>

text \<open>The callbacks as a plain sequence of calls.\<close>

fun run_callbacks :: "HT_APPLY_FUNC \<Rightarrow> nat list \<Rightarrow> heap \<Rightarrow> HashTable \<Rightarrow> (heap \<times> HashTable) option" where
  "run_callbacks f [] h t = Some (h, t)"
| "run_callbacks f (a # xs) h t = do {
     (r, h, t) \<leftarrow> f h t a;
     run_callbacks f xs h t
   }"

text \<open>No callback touches the forward link of an item that is still to be visited.\<close>

definition next_of :: "heap \<Rightarrow> nat \<Rightarrow> ptr option" where
  "next_of h a = map_option inext (h a)"

fun keeps_later :: "HT_APPLY_FUNC \<Rightarrow> nat list \<Rightarrow> heap \<Rightarrow> HashTable \<Rightarrow> bool" where
  "keeps_later f [] h t = True"
| "keeps_later f (a # xs) h t =
     (case f h t a of None \<Rightarrow> True
      | Some (r, h', t') \<Rightarrow> (\<forall>b \<in> set xs. next_of h' b = next_of h b) \<and> keeps_later f xs h' t')"

fun forward :: "heap \<Rightarrow> nat list \<Rightarrow> bool" where
  "forward h [] = True"
| "forward h (a # xs) = (next_of h a = Some (ptr_hd xs None) \<and> forward h xs)"

lemma dseg_forward: "dseg (links h) p xs None \<Longrightarrow> forward h xs"
  by (induction xs arbitrary: p) (auto simp: links_def next_of_def)

lemma forward_cong: "\<forall>b \<in> set xs. next_of h' b = next_of h b \<Longrightarrow> forward h xs \<Longrightarrow> forward h' xs"
  by (induction xs) auto

lemma apply_loop_forward:
  "forward h xs \<Longrightarrow> keeps_later f xs h t \<Longrightarrow> apply_loop f (ptr_hd xs None) h t = run_callbacks f xs h t"
proof (induction xs arbitrary: h t)
  case Nil
  then show ?case by (simp add: apply_loop.simps)
next
  case (Cons a xs)
  then obtain x where x: "h a = Some x" "inext x = ptr_hd xs None" by (auto simp: next_of_def)
  show ?case
  proof (cases "f h t a")
    case None
    with x show ?thesis by (subst apply_loop.simps) simp
  next
    case (Some res)
    obtain r h1 t1 where res: "res = (r, h1, t1)" by (rule prod_cases3)
    with Some Cons.prems have "forward h1 xs" "keeps_later f xs h1 t1"
      by (auto intro: forward_cong)
    from Cons.IH [OF this] Some res x show ?thesis by (subst apply_loop.simps) simp
  qed
qed

text \<open>
  \<open>hashtable_apply\<close> calls the callback exactly once on every item that was in the table, in
  insertion order, also when callbacks unlink or free the item they are called on, as long as
  none of them touches the forward link of an item still to be visited.
\<close>
theorem hashtable_apply_visits_in_order:
  assumes "ht_inv h t xs" "keeps_later f xs h t"
  shows "hashtable_apply h (Some t) (Some f)
    = map_option (\<lambda>(h', t'). (HT_OK, h', Some t')) (run_callbacks f xs h t)"
proof -
  have "dseg (links h) None xs None" "head t = ptr_hd xs None" using assms(1) by (auto simp: ht_inv_def)
  with apply_loop_forward [OF dseg_forward assms(2)] show ?thesis
    by (auto simp: hashtable_apply_def split: bind_splits option.splits)
qed

section \<open>Round robin\<close>

text \<open>
  Call the callback until it has succeeded \<open>n\<close> times: the visited items, the rest, and the heap.
\<close>

fun run_until :: "HT_APPLY_FUNC \<Rightarrow> nat \<Rightarrow> nat list \<Rightarrow> heap \<Rightarrow> HashTable \<Rightarrow> (nat list \<times> nat list \<times> heap) option" where
  "run_until f n [] h t = Some ([], [], h)"
| "run_until f n (a # xs) h t =
     (if n = 0 then Some ([], a # xs, h)
      else do {
        (r, h, t) \<leftarrow> f h t a;
        (ys, zs, h) \<leftarrow> run_until f (if r \<noteq> 0 then n - 1 else n) xs h t;
        Some (a # ys, zs, h)
      })"

text \<open>Callbacks that work on the items' values and leave links, keys and table alone.\<close>

definition preserves_table :: "HT_APPLY_FUNC \<Rightarrow> bool" where
  "preserves_table f \<longleftrightarrow> (\<forall>h t a r h' t'. f h t a = Some (r, h', t') \<longrightarrow>
     links h' = links h \<and> hlink h' = hlink h \<and> item_key h' = item_key h \<and> t' = t)"

lemma run_until_split:
  "preserves_table f \<Longrightarrow> run_until f n xs h t = Some (ys, zs, h') \<Longrightarrow>
   xs = ys @ zs \<and> links h' = links h \<and> hlink h' = hlink h \<and> item_key h' = item_key h
     \<and> (0 < n \<and> zs \<noteq> [] \<longrightarrow> ys \<noteq> [])"
proof (induction f n xs h t arbitrary: ys zs h' rule: run_until.induct)
  case (2 f n a xs h t)
  then show ?case
    by (fastforce simp: preserves_table_def split: if_splits bind_splits)
qed simp

lemma apply2_loop_until:
  assumes "preserves_table f" "dseg (links h) p xs None" "unat i \<le> unat n" "unat n < 2 ^ 31"
  shows "apply2_loop f n h t i (ptr_hd xs None)
    = map_option (\<lambda>(ys, zs, h'). (h', t, ptr_hd zs None)) (run_until f (unat n - unat i) xs h t)"
  using assms
proof (induction xs arbitrary: h i p)
  case Nil
  then show ?case by (simp add: apply2_loop.simps)
next
  case (Cons a xs)
  have le: "n \<le>s i \<longleftrightarrow> unat n \<le> unat i"
    using Cons.prems sless_small32 [of i n] by (simp add: signed.not_less [symmetric] linorder_not_less)
  obtain x where x: "h a = Some x" "inext x = ptr_hd xs None" using Cons.prems(2) by (auto simp: links_def)
  show ?case
  proof (cases "unat n \<le> unat i")
    case True
    then show ?thesis using le by (subst apply2_loop.simps) simp
  next
    case False
    show ?thesis
    proof (cases "f h t a")
      case None
      with x le False show ?thesis by (subst apply2_loop.simps) simp
    next
      case (Some res)
      obtain r h1 t1 where res: "res = (r, h1, t1)" by (rule prod_cases3)
      then have pres: "links h1 = links h" "t1 = t" using Some Cons.prems(1) by (auto simp: preserves_table_def)
      let ?i = "if r \<noteq> 0 then i + 1 else i"
      have "unat (i + 1) = unat i + 1" using False Cons.prems(4) by (simp add: unat_word_ariths)
      then have i: "unat ?i \<le> unat n" "unat n - unat ?i = (if r \<noteq> 0 then unat n - unat i - 1 else unat n - unat i)"
        using False by auto
      have "dseg (links h1) (Some a) xs None" using Cons.prems(2) pres by simp
      from Cons.IH [OF Cons.prems(1) this i(1) Cons.prems(4)] i(2) show ?thesis
        using Some res x le False pres
        by (subst apply2_loop.simps) (auto split: bind_splits option.splits)
    qed
  qed
qed

lemma dseg_relink_last:
  assumes "dseg L p xs n" "distinct xs" "xs \<noteq> []"
  shows "dseg (upd_next (Some (last xs)) v L) p xs v"
  using assms by (cases xs rule: rev_cases) (auto simp: upd_next_def with_next_def)

lemma dseg_relink_hd:
  assumes "dseg L p xs n" "distinct xs" "xs \<noteq> []"
  shows "dseg (upd_prev (Some (hd xs)) v L) v xs n"
  using assms by (cases xs) (auto simp: upd_prev_def with_prev_def)

lemma set_next_ok:
  assumes "b \<in> dom h"
  obtains h' where "heap_upd h b (inext_update (\<lambda>_. v)) = Some h'" "links h' = upd_next (Some b) v (links h)"
    "hlink h' = hlink h" "idata h' = idata h" "dom h' = dom h"
  using assms set_next_of_ok [of "Some b" h v] by (auto simp: set_next_of_def links_def)

lemma set_prev_ok:
  assumes "b \<in> dom h"
  obtains h' where "heap_upd h b (iprev_update (\<lambda>_. v)) = Some h'" "links h' = upd_prev (Some b) v (links h)"
    "hlink h' = hlink h" "idata h' = idata h" "dom h' = dom h"
  using assms set_prev_of_ok [of "Some b" h v] by (auto simp: set_prev_of_def links_def)

lemma dseg_dom: "dseg (links h) p xs n \<Longrightarrow> set xs \<subseteq> dom h"
  using dseg_mem [of "links h" p xs n] by (auto simp: links_def)

text \<open>Closing the circle and opening it elsewhere is a rotation of the list.\<close>

lemma rotate_to_ok:
  assumes seg: "dseg (links h) None (ys @ zs) None" "distinct (ys @ zs)" and ne: "ys \<noteq> []" "zs \<noteq> []"
    and t: "head t = Some (hd ys)" "tail t = Some (last zs)"
  obtains h' where "rotate_to h t (hd zs) = Some (h', t\<lparr>head := Some (hd zs), tail := Some (last ys)\<rparr>)"
    "dseg (links h') None (zs @ ys) None" "hlink h' = hlink h" "idata h' = idata h"
proof -
  have dom: "set (ys @ zs) \<subseteq> dom h" by (rule dseg_dom [OF seg(1)])
  have mem: "hd ys \<in> set ys" "last ys \<in> set ys" "hd zs \<in> set zs" "last zs \<in> set zs" using ne by auto
  then have disj: "hd ys \<notin> set zs" "last ys \<notin> set zs" "hd zs \<notin> set ys" "last zs \<notin> set ys"
    using seg(2) by auto
  obtain h1 where h1: "heap_upd h (last zs) (inext_update (\<lambda>_. Some (hd ys))) = Some h1"
    "links h1 = upd_next (Some (last zs)) (Some (hd ys)) (links h)"
    "hlink h1 = hlink h" "idata h1 = idata h" "dom h1 = dom h"
    using dom mem by (metis set_next_ok Un_iff set_append subsetD)
  obtain h2 where h2: "heap_upd h1 (hd ys) (iprev_update (\<lambda>_. Some (last zs))) = Some h2"
    "links h2 = upd_prev (Some (hd ys)) (Some (last zs)) (links h1)"
    "hlink h2 = hlink h1" "idata h2 = idata h1" "dom h2 = dom h1"
    using dom mem h1(5) by (metis set_prev_ok Un_iff set_append subsetD)
  have y0: "dseg (links h) None ys (ptr_hd zs None)" and z0: "dseg (links h) (ptr_last None ys) zs None"
    using seg(1) by auto
  have z1: "dseg (links h1) (ptr_last None ys) zs (Some (hd ys))"
    unfolding h1(2) by (rule dseg_relink_last) (use z0 seg(2) ne in auto)
  have y1: "dseg (links h1) None ys (ptr_hd zs None)"
    using y0 disj by (simp add: h1(2) dseg_upd_next_other)
  have y2: "dseg (links h2) (Some (last zs)) ys (ptr_hd zs None)"
    unfolding h2(2) by (rule dseg_relink_hd) (use y1 seg(2) ne in auto)
  have z2: "dseg (links h2) (ptr_last None ys) zs (Some (hd ys))"
    using z1 disj by (simp add: h2(2) dseg_upd_prev_other)
  have "links h2 (hd zs) = Some (ptr_hd (tl zs) (Some (hd ys)), Some (last ys))"
    using z2 ne by (cases zs) (auto simp: ptr_last_def)
  then obtain x where x: "h2 (hd zs) = Some x" "iprev x = Some (last ys)" by (auto simp: links_def)
  obtain h3 where h3: "heap_upd h2 (hd zs) (iprev_update (\<lambda>_. None)) = Some h3"
    "links h3 = upd_prev (Some (hd zs)) None (links h2)"
    "hlink h3 = hlink h2" "idata h3 = idata h2" "dom h3 = dom h2"
    using x(1) by (metis set_prev_ok domI)
  have "last ys \<in> dom h3" using dom mem h1(5) h2(5) h3(5) by auto
  then obtain h4 where h4: "heap_upd h3 (last ys) (inext_update (\<lambda>_. None)) = Some h4"
    "links h4 = upd_next (Some (last ys)) None (links h3)"
    "hlink h4 = hlink h3" "idata h4 = idata h3" "dom h4 = dom h3"
    by (metis set_next_ok)
  have z3: "dseg (links h3) None zs (Some (hd ys))"
    unfolding h3(2) by (rule dseg_relink_hd) (use z2 seg(2) ne in auto)
  have y3: "dseg (links h3) (Some (last zs)) ys (ptr_hd zs None)"
    using y2 disj by (simp add: h3(2) dseg_upd_prev_other)
  have y4: "dseg (links h4) (Some (last zs)) ys None"
    unfolding h4(2) by (rule dseg_relink_last) (use y3 seg(2) ne in auto)
  have z4: "dseg (links h4) None zs (Some (hd ys))"
    using z3 disj by (simp add: h4(2) dseg_upd_next_other)
  have "ptr_hd ys None = Some (hd ys)" "ptr_last None zs = Some (last zs)"
    using ne by (auto simp: ptr_hd_def ptr_last_def split: list.splits)
  with y4 z4 have "dseg (links h4) None (zs @ ys) None" by simp
  moreover have "rotate_to h t (hd zs) = Some (h4, t\<lparr>head := Some (hd zs), tail := Some (last ys)\<rparr>)"
    using t h1(1) h2(1) x h3(1) h4(1) by (simp add: rotate_to_def Let_def)
  ultimately show ?thesis using that h1 h2 h3 h4 by simp
qed

lemma ht_inv_cong:
  assumes "ht_inv h t xs" "links h' = links h" "hlink h' = hlink h" "item_key h' = item_key h"
  shows "ht_inv h' t xs"
  using assms by (simp add: ht_inv_def buckets_ok_def)

text \<open>
  Round robin: \<open>hashtable_apply2\<close> calls the callback on the items from the head until it has
  succeeded \<open>n\<close> times, and then moves the visited items, in their order, behind the ones not
  visited; the table stays consistent and holds the same items.
\<close>
theorem hashtable_apply2_rotates:
  assumes "ht_inv h t xs" "preserves_table f" "0 <s n" "run_until f (unat n) xs h t = Some (ys, zs, h1)"
  shows "xs = ys @ zs \<and> (\<exists>h' t'. hashtable_apply2 h (Some t) n (Some f) = Some (HT_OK, h', Some t')
    \<and> ht_inv h' t' (zs @ ys) \<and> idata h' = idata h1)"
proof -
  have n: "0 < unat n" "unat n < 2 ^ 31" "\<not> n \<le>s 0"
    using assms(3) by (simp_all add: pos_u32 signed.not_le)
  have seg: "dseg (links h) None xs None" "head t = ptr_hd xs None" using assms(1) by (auto simp: ht_inv_def)
  have split: "xs = ys @ zs" and views: "links h1 = links h" "hlink h1 = hlink h" "item_key h1 = item_key h"
    and ys: "zs \<noteq> [] \<Longrightarrow> ys \<noteq> []"
    using run_until_split [OF assms(2,4)] n(1) by auto
  have inv1: "ht_inv h1 t xs" by (rule ht_inv_cong [OF assms(1) views])
  have loop: "apply2_loop f n h t 0 (head t) = Some (h1, t, ptr_hd zs None)"
    using apply2_loop_until [OF assms(2) seg(1), of 0 n] n(2) assms(4) seg(2) by simp
  show ?thesis
  proof (cases "zs = []")
    case True
    with loop n(3) have "hashtable_apply2 h (Some t) n (Some f) = Some (HT_OK, h1, Some t)"
      by (simp add: hashtable_apply2_def)
    with inv1 split True show ?thesis by auto
  next
    case False
    then have ne: "ys \<noteq> []" by (rule ys)
    have seg1: "dseg (links h1) None (ys @ zs) None" "distinct (ys @ zs)"
      and "head t = ptr_hd (ys @ zs) None" "tail t = ptr_last None (ys @ zs)"
      using inv1 unfolding ht_inv_def split by blast+
    then have ht: "head t = Some (hd ys)" "tail t = Some (last zs)"
      using False ne by (cases ys, simp, simp, simp add: ptr_last_def)
    obtain h2 where h2: "rotate_to h1 t (hd zs) = Some (h2, t\<lparr>head := Some (hd zs), tail := Some (last ys)\<rparr>)"
      "dseg (links h2) None (zs @ ys) None" "hlink h2 = hlink h1" "idata h2 = idata h1"
      using rotate_to_ok [OF seg1 ne False ht] by metis
    let ?t = "t\<lparr>head := Some (hd zs), tail := Some (last ys)\<rparr>"
    have "ptr_hd zs None = Some (hd zs)" using False by (cases zs) auto
    then have "hashtable_apply2 h (Some t) n (Some f) = Some (HT_OK, h2, Some ?t)"
      using loop n(3) h2(1) by (simp add: hashtable_apply2_def)
    moreover have "ht_inv h2 ?t (zs @ ys)"
    proof -
      obtain tab cs where "primary_hashtable t = Some tab" "buckets_ok h1 tab xs cs"
        using inv1 by (auto simp: ht_inv_def)
      moreover have "set xs = set (zs @ ys)" by (auto simp: split)
      ultimately have "buckets_ok h2 tab (zs @ ys) cs" "primary_hashtable ?t = Some tab"
        by (simp_all add: buckets_ok_def h2(3) item_key_cong [OF h2(4)])
      moreover have "head ?t = ptr_hd (zs @ ys) None" "tail ?t = ptr_last None (zs @ ys)"
        using False ne by (cases zs, simp, simp, simp add: ptr_last_def)
      moreover have "\<forall>a \<in> set (zs @ ys). item_key h2 a \<noteq> None" "inj_on (item_key h2) (set (zs @ ys))"
        "hash_items ?t = of_nat (length (zs @ ys))"
      proof -
        have "set (zs @ ys) = set xs" "length (zs @ ys) = length xs" by (auto simp: split)
        moreover have "\<forall>a \<in> set xs. item_key h1 a \<noteq> None" "inj_on (item_key h1) (set xs)"
          "hash_items t = of_nat (length xs)" using inv1 unfolding ht_inv_def by blast+
        ultimately show "\<forall>a \<in> set (zs @ ys). item_key h2 a \<noteq> None" "inj_on (item_key h2) (set (zs @ ys))"
          "hash_items ?t = of_nat (length (zs @ ys))" by (simp_all only: item_key_cong [OF h2(4)]) simp
      qed
      moreover have "distinct (zs @ ys)" using seg1(2) by auto
      ultimately show ?thesis using h2(2) by (intro ht_invI)
    qed
    ultimately show ?thesis using split h2(4) by auto
  qed
qed

end
