(* ===== verification/Dict.thy ===== *)
theory Dict
  imports Prelude
begin

text \<open>
  The contract of a dictionary of caller-owned items, as the interface between a table and its
  clients: lookup, insertion of an item that is not in the dictionary, and removal that gives
  the item back. The abstract state is the association list of the entries, in insertion
  order, and the set of items outside the dictionary with their keys.
\<close>

datatype ('k, 'v) dcall = Find 'k | Insert 'k 'v | Remove 'k

datatype 'v dres = Found "'v option" | Inserted bool | Removed "'v option"

type_synonym ('k, 'v) dabs = "('k \<times> 'v) list \<times> ('k \<times> 'v) set"

fun spec_step :: "('k, 'v) dcall \<Rightarrow> ('k, 'v) dabs \<Rightarrow> 'v dres \<times> ('k, 'v) dabs" where
  "spec_step (Find k) (es, P) = (Found (map_of es k), (es, P))"
| "spec_step (Insert k v) (es, P) =
     (if map_of es k \<noteq> None then (Inserted False, (es, P))
      else (Inserted True, (es @ [(k, v)], P - {(k, v)})))"
| "spec_step (Remove k) (es, P) =
     (case map_of es k of
        None \<Rightarrow> (Removed None, (es, P))
      | Some v \<Rightarrow> (Removed (Some v), (filter (\<lambda>e. fst e \<noteq> k) es, insert (k, v) P)))"

text \<open>Keys must be valid, and only an item outside the dictionary may be inserted.\<close>

fun call_allowed :: "('k \<Rightarrow> bool) \<Rightarrow> ('k, 'v) dcall \<Rightarrow> ('k, 'v) dabs \<Rightarrow> bool" where
  "call_allowed ok (Find k) s = ok k"
| "call_allowed ok (Insert k v) (es, P) = ((k, v) \<in> P)"
| "call_allowed ok (Remove k) s = ok k"

fun spec_run :: "('k, 'v) dcall list \<Rightarrow> ('k, 'v) dabs \<Rightarrow> 'v dres list \<times> ('k, 'v) dabs" where
  "spec_run [] s = ([], s)"
| "spec_run (c # cs) s = (let (r, s) = spec_step c s; (rs, s) = spec_run cs s in (r # rs, s))"

fun run_allowed :: "('k \<Rightarrow> bool) \<Rightarrow> ('k, 'v) dcall list \<Rightarrow> ('k, 'v) dabs \<Rightarrow> bool" where
  "run_allowed ok [] s = True"
| "run_allowed ok (c # cs) s = (call_allowed ok c s \<and> run_allowed ok cs (snd (spec_step c s)))"

text \<open>The same calls on an implementation, which may fail with \<open>None\<close>.\<close>

fun dict_step ::
  "('s \<Rightarrow> 'k \<Rightarrow> 'v option option) \<Rightarrow> ('s \<Rightarrow> 'v \<Rightarrow> (bool \<times> 's) option) \<Rightarrow> ('s \<Rightarrow> 'k \<Rightarrow> ('v option \<times> 's) option)
     \<Rightarrow> ('k, 'v) dcall \<Rightarrow> 's \<Rightarrow> ('v dres \<times> 's) option" where
  "dict_step fi ins rem (Find k) s = map_option (\<lambda>r. (Found r, s)) (fi s k)"
| "dict_step fi ins rem (Insert k v) s = map_option (\<lambda>(b, s). (Inserted b, s)) (ins s v)"
| "dict_step fi ins rem (Remove k) s = map_option (\<lambda>(r, s). (Removed r, s)) (rem s k)"

fun dict_run ::
  "('s \<Rightarrow> 'k \<Rightarrow> 'v option option) \<Rightarrow> ('s \<Rightarrow> 'v \<Rightarrow> (bool \<times> 's) option) \<Rightarrow> ('s \<Rightarrow> 'k \<Rightarrow> ('v option \<times> 's) option)
     \<Rightarrow> ('k, 'v) dcall list \<Rightarrow> 's \<Rightarrow> ('v dres list \<times> 's) option" where
  "dict_run fi ins rem [] s = Some ([], s)"
| "dict_run fi ins rem (c # cs) s = do {
     (r, s) \<leftarrow> dict_step fi ins rem c s;
     (rs, s) \<leftarrow> dict_run fi ins rem cs s;
     Some (r # rs, s)
   }"

locale dict =
  fixes find :: "'s \<Rightarrow> 'k \<Rightarrow> 'v option option"
    and insert :: "'s \<Rightarrow> 'v \<Rightarrow> (bool \<times> 's) option"
    and remove :: "'s \<Rightarrow> 'k \<Rightarrow> ('v option \<times> 's) option"
    and rep :: "'s \<Rightarrow> ('k, 'v) dabs \<Rightarrow> bool"
    and ok :: "'k \<Rightarrow> bool"
  assumes find_law: "rep s (es, P) \<Longrightarrow> ok k \<Longrightarrow> find s k = Some (map_of es k)"
    and insert_present: "rep s (es, P) \<Longrightarrow> (k, v) \<in> P \<Longrightarrow> map_of es k \<noteq> None \<Longrightarrow> insert s v = Some (False, s)"
    and insert_absent: "rep s (es, P) \<Longrightarrow> (k, v) \<in> P \<Longrightarrow> map_of es k = None \<Longrightarrow>
      \<exists>s'. insert s v = Some (True, s') \<and> rep s' (es @ [(k, v)], P - {(k, v)})"
    and remove_absent: "rep s (es, P) \<Longrightarrow> ok k \<Longrightarrow> map_of es k = None \<Longrightarrow> remove s k = Some (None, s)"
    and remove_present: "rep s (es, P) \<Longrightarrow> ok k \<Longrightarrow> map_of es k = Some v \<Longrightarrow>
      \<exists>s'. remove s k = Some (Some v, s')
        \<and> rep s' (filter (\<lambda>e. fst e \<noteq> k) es, Set.insert (k, v) P)"
begin

lemma step_refines:
  assumes "rep s a" "call_allowed ok c a"
  obtains s' where "dict_step find insert remove c s = Some (fst (spec_step c a), s')"
    "rep s' (snd (spec_step c a))"
proof -
  obtain es P where a: "a = (es, P)" by (cases a)
  show ?thesis
  proof (cases c)
    case (Find k)
    then show ?thesis using that [of s] assms find_law [of s es P k] a by simp
  next
    case (Insert k v)
    show ?thesis
    proof (cases "map_of es k")
      case None
      with insert_absent [of s es P k v] assms a Insert that show ?thesis by auto
    next
      case (Some w)
      with insert_present [of s es P k v] assms a Insert that [of s] show ?thesis by auto
    qed
  next
    case (Remove k)
    show ?thesis
    proof (cases "map_of es k")
      case None
      with remove_absent [of s es P k] assms a Remove that [of s] show ?thesis by auto
    next
      case (Some v)
      with remove_present [of s es P k v] assms a Remove that show ?thesis by auto
    qed
  qed
qed

lemma run_refines:
  "rep s a \<Longrightarrow> run_allowed ok cs a \<Longrightarrow>
   \<exists>s'. dict_run find insert remove cs s = Some (fst (spec_run cs a), s') \<and> rep s' (snd (spec_run cs a))"
proof (induction cs arbitrary: s a)
  case (Cons c cs)
  from Cons.prems obtain s1 where s1: "dict_step find insert remove c s = Some (fst (spec_step c a), s1)"
    "rep s1 (snd (spec_step c a))" using step_refines [of s a c] by auto
  with Cons.IH [OF s1(2)] Cons.prems(2) show ?case
    by (auto simp: split_beta Let_def)
qed simp

end

end
