(* ===== verification/Hashtable_Dict.thy ===== *)
theory Hashtable_Dict
  imports Hashtable_Iter Dict
begin

text \<open>
  The hash table as a dictionary of caller-owned items, and a concrete two-item table on which
  the properties of the operations are applied.
\<close>

section \<open>The table provides the dictionary contract\<close>

type_synonym table = "heap \<times> HashTable"

definition key_arg :: "bytes \<Rightarrow> bool" where
  "key_arg k \<longleftrightarrow> k \<noteq> [] \<and> length k < 2 ^ 64"

definition ht_find :: "table \<Rightarrow> bytes \<Rightarrow> nat option option" where
  "ht_find s k = hashtable_find (fst s) (Some (snd s)) (Some k) (of_nat (length k))"

definition ht_insert :: "table \<Rightarrow> nat \<Rightarrow> (bool \<times> table) option" where
  "ht_insert s a = map_option (\<lambda>(r, h, t). (r = HT_OK, (h, the t)))
     (hashtable_insert (fst s) (Some (snd s)) (Some a))"

definition ht_remove :: "table \<Rightarrow> bytes \<Rightarrow> (nat option \<times> table) option" where
  "ht_remove s k = map_option (\<lambda>(r, h, t, item). (the item, (h, the t)))
     (hashtable_remove (fst s) (Some (snd s)) (Some k) (of_nat (length k)) (Some None))"

definition ht_rep :: "table \<Rightarrow> (bytes, nat) dabs \<Rightarrow> bool" where
  "ht_rep s d \<longleftrightarrow> (\<exists>xs. ht_inv (fst s) (snd s) xs \<and> fst d = ht_entries (fst s) xs
     \<and> snd d = {(k, a). a \<notin> set xs \<and> item_key (fst s) a = Some k})"

lemma key_argD:
  assumes "key_arg k"
  shows "of_nat (length k) \<noteq> (0 :: u64)" "read_bytes k 0 (unat (of_nat (length k) :: u64)) = Some k"
proof -
  have "unat (of_nat (length k) :: u64) = length k" using assms by (simp add: key_arg_def unat_of_nat64)
  moreover have "length k \<noteq> 0" using assms by (simp add: key_arg_def)
  ultimately show "of_nat (length k) \<noteq> (0 :: u64)" "read_bytes k 0 (unat (of_nat (length k) :: u64)) = Some k"
    by (auto simp: read_bytes_def)
qed

lemma ht_repE:
  assumes "ht_rep (h, t) (es, P)"
  obtains xs where "ht_inv h t xs" "es = ht_entries h xs" "P = {(k, a). a \<notin> set xs \<and> item_key h a = Some k}"
  using assms by (auto simp: ht_rep_def)

interpretation ht: dict ht_find ht_insert ht_remove ht_rep key_arg
proof (unfold_locales, goal_cases)
  case (1 s es P k)
  then show ?case
    using find_ok [OF _ key_argD] by (cases s) (auto simp: ht_find_def elim!: ht_repE)
next
  case (2 s es P k a)
  obtain h t where s: "s = (h, t)" by (cases s)
  with 2(1) obtain xs where xs: "ht_inv h t xs" "es = ht_entries h xs"
    "P = {(k, a). a \<notin> set xs \<and> item_key h a = Some k}" by (auto elim: ht_repE)
  with 2(2,3) insert_dup [OF xs(1), of a k] s show ?case by (auto simp: ht_insert_def)
next
  case (3 s es P k a)
  obtain h t where s: "s = (h, t)" by (cases s)
  with 3(1) obtain xs where xs: "ht_inv h t xs" "es = ht_entries h xs"
    "P = {(k, a). a \<notin> set xs \<and> item_key h a = Some k}" by (auto elim: ht_repE)
  have a: "a \<notin> set xs" "item_key h a = Some k" using 3(2) xs(3) by auto
  obtain h' t' where r: "hashtable_insert h (Some t) (Some a) = Some (HT_OK, h', Some t')"
    "ht_inv h' t' (xs @ [a])" "idata h' = idata h"
    using insert_new [OF xs(1) a] 3(3) xs(2) by metis
  have "ht_rep (h', t') (es @ [(k, a)], P - {(k, a)})"
    unfolding ht_rep_def fst_conv snd_conv
    by (intro exI [of _ "xs @ [a]"] conjI)
      (use r xs a entries_insert [OF r(3) a(2)] in \<open>auto simp: item_key_cong [OF r(3)]\<close>)
  with r(1) s show ?case by (simp add: ht_insert_def)
next
  case (4 s es P k)
  obtain h t where s: "s = (h, t)" by (cases s)
  with 4(1) obtain xs where xs: "ht_inv h t xs" "es = ht_entries h xs" by (auto elim: ht_repE)
  with remove_missing [OF xs(1) key_argD [OF 4(2)], of None] 4(3) s show ?case
    by (simp add: ht_remove_def)
next
  case (5 s es P k a)
  obtain h t where s: "s = (h, t)" by (cases s)
  with 5(1) obtain xs where xs: "ht_inv h t xs" "es = ht_entries h xs"
    "P = {(k, a). a \<notin> set xs \<and> item_key h a = Some k}" by (auto elim: ht_repE)
  note a = find_in_entries [OF xs(1) 5(3) [unfolded xs(2)]]
  obtain h' t' where r:
    "hashtable_remove h (Some t) (Some k) (of_nat (length k)) (Some None) = Some (HT_OK, h', Some t', Some (Some a))"
    "ht_inv h' t' (remove1 a xs)" "idata h' = idata h"
    using remove_present [OF xs(1) key_argD [OF 5(2)] a, of None] by metis
  have "distinct xs" using xs(1) by (auto simp: ht_inv_def)
  with a have "ht_rep (h', t') (filter (\<lambda>e. fst e \<noteq> k) es, Set.insert (k, a) P)"
    unfolding ht_rep_def fst_conv snd_conv
    by (intro exI [of _ "remove1 a xs"] conjI)
      (use r xs entries_remove [OF xs(1) a r(3)] in \<open>auto simp: item_key_cong [OF r(3)] set_remove1_eq\<close>)
  with r(1) s show ?case by (simp add: ht_remove_def)
qed

text \<open>
  C1. Any sequence of lookups, insertions of items outside the table and removals runs to its
  end without touching memory outside the live items, and returns exactly what the insertion
  ordered association list returns; at the end the table represents the final list.
\<close>
theorem hashtable_run_refines_map:
  assumes "ht_rep s a" "run_allowed key_arg cs a"
  shows "\<exists>s'. dict_run ht_find ht_insert ht_remove cs s = Some (fst (spec_run cs a), s')
    \<and> ht_rep s' (snd (spec_run cs a))"
  by (rule ht.run_refines [OF assms])

section \<open>A concrete table\<close>

definition example_item :: "u8 \<Rightarrow> HashItem" where
  "example_item c = \<lparr>inext = None, iprev = None, h_next = None, access = 0, key_length = 1, key_offset = 0,
     end_bytes = [c, 0]\<rparr>"

definition example_heap :: heap where
  "example_heap = [1 \<mapsto> example_item 97, 2 \<mapsto> example_item 98]"

definition example_table :: HashTable where
  "example_table = \<lparr>hash_items = 0, primary_hashtable = Some (\<lambda>_. None), head = None, tail = None,
     alloc_func = None, free_func = Some c_free\<rparr>"

lemma example_empty: "ht_inv h example_table []"
  by (rule ht_invI [where cs = "\<lambda>_. []" and tab = "\<lambda>_. None"])
    (simp_all add: buckets_ok_def example_table_def)

lemma example_keys:
  "item_key example_heap a = (if a = 1 then Some [97] else if a = 2 then Some [98] else None)"
  by (auto simp: item_key_def idata_def example_heap_def example_item_def data_key_def read_bytes_def)

lemma example_two:
  obtains h t where "ht_inv h t [1, 2]" "item_key h = item_key example_heap" "free_func t = Some c_free"
    "ht_entries h [1, 2] = [([97], 1), ([98], 2)]"
proof -
  obtain h1 t1 where 1: "ht_inv h1 t1 ([] @ [1])" "idata h1 = idata example_heap"
    "free_func t1 = free_func example_table"
    by (rule insert_new [OF example_empty [of example_heap], of 1 "[97]"])
      (simp_all add: example_keys ht_entries_def)
  have k1: "item_key h1 = item_key example_heap" by (rule item_key_cong [OF 1(2)])
  obtain h2 t2 where 2: "ht_inv h2 t2 (([] @ [1]) @ [2])" "idata h2 = idata h1" "free_func t2 = free_func t1"
    by (rule insert_new [OF 1(1), of 2 "[98]"]) (simp_all add: k1 example_keys ht_entries_def)
  have k2: "item_key h2 = item_key example_heap" using item_key_cong [OF 2(2)] k1 by simp
  show ?thesis
    using 1 2 k2 by (intro that [of h2 t2]) (simp_all add: example_table_def ht_entries_def example_keys)
qed

lemma example_key_arg: "key_arg [c]"
  by (simp add: key_arg_def)

theorem hashtable_find_lookup_witness:
  "\<exists>h t. ht_inv h t [1, 2] \<and> hashtable_find h (Some t) (Some [98, 7]) 1 = Some (Some 2)
     \<and> hashtable_find h (Some t) (Some [99]) 1 = Some None"
proof -
  obtain h t where ht: "ht_inv h t [1, 2]" "ht_entries h [1, 2] = [([97], 1), ([98], 2)]"
    by (rule example_two)
  have "hashtable_find h (Some t) (Some [98, 7]) 1 = Some (Some 2)"
    using hashtable_find_lookup [OF ht(1), of 1 "[98, 7]" "[98]"] ht(2) by (simp add: read_bytes_def)
  moreover have "hashtable_find h (Some t) (Some [99]) 1 = Some None"
    using hashtable_find_lookup [OF ht(1), of 1 "[99]" "[99]"] ht(2) by (simp add: read_bytes_def)
  ultimately show ?thesis using ht(1) by blast
qed

theorem hashtable_insert_appends_witness:
  "\<exists>h' t'. hashtable_insert example_heap (Some example_table) (Some 2) = Some (HT_OK, h', Some t')
     \<and> ht_inv h' t' [2] \<and> ht_entries h' [2] = [([98], 2)]"
  using hashtable_insert_appends [OF example_empty [of example_heap], of 2 "[98]"]
  by (auto simp: example_keys ht_entries_def)

theorem hashtable_remove_detaches_witness:
  "\<exists>h t h' t'. ht_inv h t [1, 2]
     \<and> hashtable_remove h (Some t) (Some [97]) 1 (Some None) = Some (HT_OK, h', Some t', Some (Some 1))
     \<and> ht_inv h' t' [2]"
proof -
  obtain h t where ht: "ht_inv h t [1, 2]" "ht_entries h [1, 2] = [([97], 1), ([98], 2)]"
    by (rule example_two)
  show ?thesis
    using hashtable_remove_detaches [OF ht(1), of 1 "[97]" "[97]" None] ht
    by (auto simp: read_bytes_def)
qed

theorem hashtable_clear_frees_all_witness:
  "\<exists>h t h' t'. ht_inv h t [1, 2] \<and> hashtable_clear h (Some t) = Some (0, h', Some t')
     \<and> ht_inv h' t' [] \<and> 1 \<notin> dom h' \<and> 2 \<notin> dom h'"
proof -
  obtain h t where ht: "ht_inv h t [1, 2]" "free_func t = Some c_free" by (rule example_two)
  obtain h' t' where "hashtable_clear h (Some t) = Some (0, h', Some t')" "ht_inv h' t' []"
    "dom h' = dom h - set [1, 2]"
    using hashtable_clear_frees_all [OF ht] by auto
  moreover from this have "1 \<notin> dom h'" "2 \<notin> dom h'" by simp_all
  ultimately show ?thesis using ht(1) by blast
qed

text \<open>A callback that frees the item it is called on.\<close>

theorem hashtable_apply_visits_in_order_witness:
  "\<exists>h t h'. ht_inv h t [1, 2]
     \<and> hashtable_apply h (Some t) (Some (\<lambda>h t a. Some (0, c_free h a, t))) = Some (HT_OK, h', Some t)
     \<and> h' = c_free (c_free h 1) 2"
proof -
  obtain h t where ht: "ht_inv h t [1, 2]" by (rule example_two)
  have "keeps_later (\<lambda>h t a. Some (0, c_free h a, t)) [1, 2] h t"
    by (simp add: next_of_def c_free_def)
  from hashtable_apply_visits_in_order [OF ht this] ht show ?thesis by auto
qed

theorem hashtable_apply2_rotates_witness:
  "\<exists>h t h' t'. ht_inv h t [1, 2]
     \<and> hashtable_apply2 h (Some t) 1 (Some (\<lambda>h t a. Some (1, h, t))) = Some (HT_OK, h', Some t')
     \<and> ht_inv h' t' [2, 1]"
proof -
  obtain h t where ht: "ht_inv h t [1, 2]" by (rule example_two)
  have "preserves_table (\<lambda>h t a. Some (1, h, t))" by (simp add: preserves_table_def)
  moreover have "run_until (\<lambda>h t a. Some (1, h, t)) (unat (1 :: u32)) [1, 2] h t = Some ([1], [2], h)" by simp
  moreover have "0 <s (1 :: u32)" by (simp add: pos_u32)
  ultimately show ?thesis using hashtable_apply2_rotates [OF ht] ht by fastforce
qed

theorem hashtable_run_refines_map_witness:
  "\<exists>s'. dict_run ht_find ht_insert ht_remove [Insert [97] 1, Insert [98] 2, Find [98], Remove [97], Find [97]]
      (example_heap, example_table)
    = Some ([Inserted True, Inserted True, Found (Some 2), Removed (Some 1), Found None], s')
    \<and> (\<exists>P. ht_rep s' ([([98], 2)], P))"
proof -
  let ?cs = "[Insert [97] 1, Insert [98] 2, Find [98], Remove [97], Find [97]] :: (bytes, nat) dcall list"
  let ?a = "([], {(k, a). item_key example_heap a = Some k}) :: (bytes, nat) dabs"
  have "ht_rep (example_heap, example_table) ?a"
    unfolding ht_rep_def by (intro exI [of _ "[]"]) (simp add: example_empty ht_entries_def)
  moreover have "run_allowed key_arg ?cs ?a" by (simp add: example_keys example_key_arg)
  ultimately show ?thesis using hashtable_run_refines_map [of "(example_heap, example_table)" ?a ?cs] by auto
qed

end
