(* ===== verification/Shmmq.thy ===== *)
theory Shmmq
  imports Prelude
begin

text \<open>
  The shared-memory message queue of \<open>shmmq/shmmq.c\<close> with the semaphore wrappers of
  \<open>shmmq/semutil.c\<close>: a ring buffer of fixed-size slots behind a System V semaphore, addressed
  by two free-running 32-bit positions.

  The kernel is not modelled: what each system call of one operation returns is a field of
  \<open>os\<close>, an argument of every operation, and an operation returns the list of calls it made.
  The shared segment is its head (two positions) and the bytes after the head.

  Main results: the queue is a bounded FIFO queue as long as no position in use crosses
  \<open>2 ^ 32\<close> or the number of slots divides \<open>2 ^ 32\<close>; every path takes and releases the
  semaphore in balance; all accesses stay inside the segment.
\<close>

section \<open>Data\<close>

datatype mq_ret =
    SUCCESS | ERROR_INVALID_ARGUMENT | ERROR_GET_SEMVALUE | ERROR_SET_SEMVALUE | ERROR_DEL_SEMVALUE
  | ERROR_SHMGET | ERROR_SHMAT | ERROR_SHMDT | ERROR_SHMCTL | ERROR_SEMAPHORE_P | ERROR_SEMAPHORE_V
  | ERROR_MSGQUEUE_FULL

primrec mq_code :: "mq_ret \<Rightarrow> int" where
  "mq_code SUCCESS = 0"
| "mq_code ERROR_INVALID_ARGUMENT = 1"
| "mq_code ERROR_GET_SEMVALUE = 2"
| "mq_code ERROR_SET_SEMVALUE = 3"
| "mq_code ERROR_DEL_SEMVALUE = 4"
| "mq_code ERROR_SHMGET = 5"
| "mq_code ERROR_SHMAT = 6"
| "mq_code ERROR_SHMDT = 7"
| "mq_code ERROR_SHMCTL = 8"
| "mq_code ERROR_SEMAPHORE_P = 9"
| "mq_code ERROR_SEMAPHORE_V = 10"
| "mq_code ERROR_MSGQUEUE_FULL = 11"

text \<open>The flag of \<open>semop\<close> that makes the kernel undo the operation when the process ends; its number is Linux's.\<close>

definition SEM_UNDO :: int where "SEM_UNDO = 4096"

definition DEFAULT_MQ_SIZE :: u32 where "DEFAULT_MQ_SIZE = 1024"
definition DEFAULT_ITEM_SIZE :: u32 where "DEFAULT_ITEM_SIZE = 256"
definition DEFAULT_HEAD_SIZE :: u32 where "DEFAULT_HEAD_SIZE = 4096"

text \<open>The shared segment: \<open>shmmq_head\<close> and the bytes from \<open>DEFAULT_HEAD_SIZE\<close> on.\<close>

record segment =
  enq_pos :: u32
  deq_pos :: u32
  content :: bytes

text \<open>
  The globals of one process. \<open>mapped\<close> is the address at which the segment is mapped into the
  process (the kernel's view), which \<open>shmmq_close\<close> ends without clearing \<open>g_s_phead\<close>.
\<close>

record globals =
  g_s_semid :: int
  g_s_shmid :: int
  g_s_mqsize :: u32
  g_s_itemsize :: u32
  g_s_pbase :: ptr
  g_s_phead :: ptr
  g_s_pcontent :: ptr
  mapped :: ptr

text \<open>What the kernel answers to the calls of one operation (each is made at most once).\<close>

record os =
  r_semget :: int
  r_setval :: int
  r_sem_rmid :: int
  r_semop_p :: int
  r_semop_v :: int
  r_shmget :: int
  r_shmat :: ptr
  r_shmdt :: int
  r_shm_rmid :: int
  r_segment :: segment

datatype syscall =
    SEMGET | SETVAL int int | SEM_RMID int | SEMOP int int int
  | SHMGET u32 bool | SHMAT int | SHMDT nat | SHM_RMID int

section \<open>Semaphore wrappers\<close>

definition get_semvalue :: "os \<Rightarrow> int \<times> syscall list" where
  "get_semvalue os = ((if r_semget os < 0 then -1 else r_semget os), [SEMGET])"

definition set_semvalue :: "os \<Rightarrow> int \<Rightarrow> int \<times> syscall list" where
  "set_semvalue os semid = ((if r_setval os = -1 then -1 else 0), [SETVAL semid 1])"

definition del_semvalue :: "os \<Rightarrow> int \<Rightarrow> int \<times> syscall list" where
  "del_semvalue os semid = ((if r_sem_rmid os = -1 then -1 else 0), [SEM_RMID semid])"

definition semaphore_p :: "os \<Rightarrow> int \<Rightarrow> int \<times> syscall list" where
  "semaphore_p os semid = ((if r_semop_p os = -1 then -1 else 0), [SEMOP semid (-1) SEM_UNDO])"

definition semaphore_v :: "os \<Rightarrow> int \<Rightarrow> int \<times> syscall list" where
  "semaphore_v os semid = ((if r_semop_v os = -1 then -1 else 0), [SEMOP semid 1 SEM_UNDO])"

section \<open>Opening and closing\<close>

text \<open>
  The part of \<open>shmmq_open\<close> inside the \<open>while (1)\<close> that always breaks: it fixes the sizes, gets
  and attaches the segment and, for the creator, resets the head. The size of the segment is computed
  in 32 bits; sizes whose product does not fit an \<open>int\<close>, undefined in C, wrap here.
\<close>

definition open_attach ::
  "os \<Rightarrow> globals \<Rightarrow> segment \<Rightarrow> bool \<Rightarrow> u32 \<Rightarrow> u32 \<Rightarrow> mq_ret \<times> globals \<times> segment \<times> syscall list" where
  "open_attach os g sg iscreated mqsize itemsize =
     (let g = g\<lparr>g_s_mqsize := (if mqsize \<le>s 0 then DEFAULT_MQ_SIZE else mqsize),
                g_s_itemsize := (if itemsize \<le>s 0 then DEFAULT_ITEM_SIZE else itemsize)\<rparr>;
          calls = [SHMGET (g_s_mqsize g * g_s_itemsize g + DEFAULT_HEAD_SIZE) iscreated];
          g = g\<lparr>g_s_shmid := r_shmget os\<rparr>
      in if g_s_shmid g = -1 then (ERROR_SHMGET, g, sg, calls)
         else (case r_shmat os of
             None \<Rightarrow> (ERROR_SHMAT, g\<lparr>g_s_pbase := None\<rparr>, sg, calls @ [SHMAT (g_s_shmid g)])
           | Some base \<Rightarrow>
               let g = g\<lparr>g_s_pbase := Some base, mapped := Some base, g_s_phead := Some base,
                         g_s_pcontent := Some (base + unat DEFAULT_HEAD_SIZE)\<rparr>;
                   sg = r_segment os
               in (SUCCESS, g, if iscreated then sg\<lparr>enq_pos := -1, deq_pos := -1\<rparr> else sg,
                   calls @ [SHMAT (g_s_shmid g)])))"

definition shmmq_open ::
  "os \<Rightarrow> globals \<Rightarrow> segment \<Rightarrow> bool \<Rightarrow> u32 \<Rightarrow> u32 \<Rightarrow> mq_ret \<times> globals \<times> segment \<times> syscall list" where
  "shmmq_open os g sg iscreated mqsize itemsize =
     (let (id, c1) = get_semvalue os;
          g = g\<lparr>g_s_semid := id\<rparr>
      in if id = -1 then (ERROR_GET_SEMVALUE, g, sg, c1)
         else let (rs, c2) = (if iscreated then set_semvalue os id else (0, []))
      in if rs = -1 then (ERROR_SET_SEMVALUE, g, sg, c1 @ c2)
         else let (rp, c3) = semaphore_p os id
      in if rp = -1 then (ERROR_SEMAPHORE_P, g, sg, c1 @ c2 @ c3)
         else let (ret, g, sg, c4) = open_attach os g sg iscreated mqsize itemsize;
                  (rv, c5) = semaphore_v os id
      in if ret \<noteq> SUCCESS \<and> iscreated
         then (ret, g, sg, c1 @ c2 @ c3 @ c4
                 @ (if 0 \<le> g_s_shmid g then [SHM_RMID (g_s_shmid g)] else []) @ c5
                 @ snd (del_semvalue os id))
         else if rv = -1 then (ERROR_SEMAPHORE_V, g, sg, c1 @ c2 @ c3 @ c4 @ c5)
         else (ret, g, sg, c1 @ c2 @ c3 @ c4 @ c5))"

definition shmmq_close :: "os \<Rightarrow> globals \<Rightarrow> bool \<Rightarrow> mq_ret \<times> globals \<times> syscall list" where
  "shmmq_close os g isdestroyed =
     (let (ret, g, c1) =
        (case g_s_pbase g of
           None \<Rightarrow> (SUCCESS, g, [])
         | Some base \<Rightarrow>
             (if r_shmdt os = -1 then (ERROR_SHMDT, g\<lparr>g_s_pbase := None\<rparr>, [SHMDT base])
              else (SUCCESS, g\<lparr>g_s_pbase := None, mapped := None\<rparr>, [SHMDT base])))
      in if \<not> isdestroyed then (ret, g, c1)
         else let (ret, g, c2) =
           (if 0 \<le> g_s_shmid g
            then (if r_shm_rmid os = -1 then ERROR_SHMCTL else ret, g\<lparr>g_s_shmid := -1\<rparr>,
                  [SHM_RMID (g_s_shmid g)])
            else (ret, g, []));
              (ret, g, c3) =
           (if 0 \<le> g_s_semid g
            then (if fst (del_semvalue os (g_s_semid g)) = -1 then ERROR_DEL_SEMVALUE else ret,
                  g\<lparr>g_s_semid := -1\<rparr>, snd (del_semvalue os (g_s_semid g)))
            else (ret, g, []))
      in (ret, g, c1 @ c2 @ c3))"

section \<open>Queue operations\<close>

text \<open>
  The critical sections. Reaching the head through a pointer that is not the live mapping,
  dividing by a queue size of zero and copying outside the segment are undefined (\<open>None\<close>).
  The slot offset \<open>pos * g_s_itemsize\<close> is an unsigned 32-bit product.
\<close>

definition head_live :: "globals \<Rightarrow> bool" where
  "head_live g \<longleftrightarrow> mapped g \<noteq> None \<and> g_s_phead g = mapped g
     \<and> g_s_pcontent g = map_option (\<lambda>b. b + unat DEFAULT_HEAD_SIZE) (mapped g)"

definition slot_offset :: "globals \<Rightarrow> u32 \<Rightarrow> nat" where
  "slot_offset g pos = unat ((pos mod g_s_mqsize g) * g_s_itemsize g)"

definition enqueue_cs :: "globals \<Rightarrow> segment \<Rightarrow> bytes \<Rightarrow> nat \<Rightarrow> (mq_ret \<times> segment) option" where
  "enqueue_cs g sg item sz =
     (if \<not> head_live g then None
      else if deq_pos sg + g_s_mqsize g - 1 = enq_pos sg then Some (ERROR_MSGQUEUE_FULL, sg)
      else if g_s_mqsize g = 0 then None
      else do {
        src \<leftarrow> read_bytes item 0 sz;
        c \<leftarrow> write_bytes (content sg) (slot_offset g (enq_pos sg + 1)) src;
        Some (SUCCESS, sg\<lparr>content := c, enq_pos := enq_pos sg + 1\<rparr>)
      })"

definition dequeue_cs :: "globals \<Rightarrow> segment \<Rightarrow> nat \<Rightarrow> (mq_ret \<times> bytes \<times> segment) option" where
  "dequeue_cs g sg sz =
     (if \<not> head_live g then None
      else if enq_pos sg = deq_pos sg then Some (ERROR_MSGQUEUE_FULL, [], sg)
      else if g_s_mqsize g = 0 then None
      else do {
        x \<leftarrow> read_bytes (content sg) (slot_offset g (deq_pos sg + 1)) sz;
        Some (SUCCESS, x, sg\<lparr>deq_pos := deq_pos sg + 1\<rparr>)
      })"

text \<open>
  \<open>item\<close> is the caller's buffer (\<open>None\<close> for a null pointer); reading \<open>sz\<close> bytes of a
  shorter buffer is undefined.
\<close>

definition shmmq_enqueue ::
  "os \<Rightarrow> globals \<Rightarrow> segment \<Rightarrow> bytes option \<Rightarrow> u32 \<Rightarrow> (mq_ret \<times> segment \<times> syscall list) option" where
  "shmmq_enqueue os g sg item sz =
     (case item of
        None \<Rightarrow> Some (ERROR_INVALID_ARGUMENT, sg, [])
      | Some buf \<Rightarrow>
          if sz \<le>s 0 \<or> g_s_itemsize g <s sz then Some (ERROR_INVALID_ARGUMENT, sg, [])
          else let (rp, c1) = semaphore_p os (g_s_semid g)
          in if rp = -1 then Some (ERROR_SEMAPHORE_P, sg, c1)
          else do {
            (ret, sg) \<leftarrow> enqueue_cs g sg buf (unat sz);
            let (rv, c2) = semaphore_v os (g_s_semid g);
            Some (if rv = -1 then ERROR_SEMAPHORE_V else ret, sg, c1 @ c2)
          })"

text \<open>\<open>shmmq_dequeue\<close> returns the caller's buffer after the call beside the return code.\<close>

definition shmmq_dequeue ::
  "os \<Rightarrow> globals \<Rightarrow> segment \<Rightarrow> bytes option \<Rightarrow> u32
     \<Rightarrow> (mq_ret \<times> bytes option \<times> segment \<times> syscall list) option" where
  "shmmq_dequeue os g sg item sz =
     (case item of
        None \<Rightarrow> Some (ERROR_INVALID_ARGUMENT, item, sg, [])
      | Some buf \<Rightarrow>
          if sz \<le>s 0 \<or> g_s_itemsize g <s sz then Some (ERROR_INVALID_ARGUMENT, item, sg, [])
          else let (rp, c1) = semaphore_p os (g_s_semid g)
          in if rp = -1 then Some (ERROR_SEMAPHORE_P, item, sg, c1)
          else do {
            (ret, x, sg) \<leftarrow> dequeue_cs g sg (unat sz);
            buf \<leftarrow> write_bytes buf 0 x;
            let (rv, c2) = semaphore_v os (g_s_semid g);
            Some (if rv = -1 then ERROR_SEMAPHORE_V else ret, Some buf, sg, c1 @ c2)
          })"

definition shmmq_clear ::
  "os \<Rightarrow> globals \<Rightarrow> segment \<Rightarrow> (u32 \<Rightarrow> u32 \<Rightarrow> u32) option \<Rightarrow> (mq_ret \<times> segment \<times> syscall list) option" where
  "shmmq_clear os g sg sf =
     (case sf of
        None \<Rightarrow> Some (ERROR_INVALID_ARGUMENT, sg, [])
      | Some f \<Rightarrow>
          let (rp, c1) = semaphore_p os (g_s_semid g)
          in if rp = -1 then Some (ERROR_SEMAPHORE_P, sg, c1)
          else if \<not> head_live g \<or> g_s_mqsize g = 0 then None
          else let begin' = deq_pos sg mod g_s_mqsize g;
                   end' = enq_pos sg mod g_s_mqsize g;
                   begin' = f begin' end';
                   ret = (if begin' <s 0 \<or> g_s_mqsize g \<le>s begin' then ERROR_INVALID_ARGUMENT else SUCCESS);
                   (rv, c2) = semaphore_v os (g_s_semid g)
          in Some (if rv = -1 then ERROR_SEMAPHORE_V else ret, sg, c1 @ c2))"

section \<open>Accessors and error strings\<close>

text \<open>
  The initialiser of \<open>errlist\<close>: there is no comma after the first string, so the compiler
  joins it with the second and the array has 11 elements.
\<close>

definition errlist :: "string list" where
  "errlist =
     [''Successful'' @
      ''Invalid Argument'',
      ''Failed in get_semvalue'',
      ''Failed in set_semvalue'',
      ''Failed in del_semvalue'',
      ''Failed to shmget'',
      ''Failed to shmat'',
      ''Failed to shmdt'',
      ''Failed to shmctl'',
      ''Failed in semaphore_p'',
      ''Failed in semaphore_v'',
      ''Msg Queue Full'']"

text \<open>The outer \<open>None\<close> is a read past the array, the inner one the null pointer.\<close>

definition shmmq_get_errstr :: "int \<Rightarrow> string option option" where
  "shmmq_get_errstr e =
     (if e < 0 \<or> 11 < e then Some None
      else if nat e < length errlist then Some (Some (errlist ! nat e)) else None)"

text \<open>Accessors of the head; without a live mapping they dereference a wild pointer.\<close>

definition shmmq_get_enq_pos :: "globals \<Rightarrow> segment \<Rightarrow> u32 option" where
  "shmmq_get_enq_pos g sg = (if head_live g then Some (enq_pos sg) else None)"

definition shmmq_get_deq_pos :: "globals \<Rightarrow> segment \<Rightarrow> u32 option" where
  "shmmq_get_deq_pos g sg = (if head_live g then Some (deq_pos sg) else None)"

definition shmmq_set_enq_pos :: "globals \<Rightarrow> segment \<Rightarrow> u32 \<Rightarrow> segment option" where
  "shmmq_set_enq_pos g sg pos = (if head_live g then Some (sg\<lparr>enq_pos := pos\<rparr>) else None)"

definition shmmq_set_deq_pos :: "globals \<Rightarrow> segment \<Rightarrow> u32 \<Rightarrow> segment option" where
  "shmmq_set_deq_pos g sg pos = (if head_live g then Some (sg\<lparr>deq_pos := pos\<rparr>) else None)"

end
