(* ===== verification/Fifo.thy ===== *)
theory Fifo
  imports Prelude
begin

text \<open>
  The contract of a bounded FIFO queue, as the interface between a queue implementation and
  the processes that call it: an invariant, an abstraction to the list of waiting items, and
  what a full and an empty queue answer. Clients are sequences of calls.
\<close>

datatype 'a qcall = Enq 'a | Deq

text \<open>
  A run of calls: the items that were accepted, the items that were handed out, and the last
  state. A refused call changes nothing.
\<close>

fun fifo_run ::
  "('a \<Rightarrow> 's \<Rightarrow> 's option) \<Rightarrow> ('s \<Rightarrow> ('a \<times> 's) option) \<Rightarrow> 'a qcall list \<Rightarrow> 's \<Rightarrow> 'a list \<times> 'a list \<times> 's" where
  "fifo_run enq deq [] s = ([], [], s)"
| "fifo_run enq deq (Enq x # cs) s =
     (case enq x s of
        None \<Rightarrow> fifo_run enq deq cs s
      | Some s' \<Rightarrow> let (acc, out, t) = fifo_run enq deq cs s' in (x # acc, out, t))"
| "fifo_run enq deq (Deq # cs) s =
     (case deq s of
        None \<Rightarrow> fifo_run enq deq cs s
      | Some (x, s') \<Rightarrow> let (acc, out, t) = fifo_run enq deq cs s' in (acc, x # out, t))"

text \<open>The abstract queue: a list with a capacity.\<close>

definition list_enq :: "nat \<Rightarrow> 'a \<Rightarrow> 'a list \<Rightarrow> 'a list option" where
  "list_enq cap x xs = (if length xs < cap then Some (xs @ [x]) else None)"

definition list_deq :: "'a list \<Rightarrow> ('a \<times> 'a list) option" where
  "list_deq xs = (case xs of [] \<Rightarrow> None | x # xs' \<Rightarrow> Some (x, xs'))"

lemma list_deq_simps [simp]: "list_deq [] = None" "list_deq (x # xs) = Some (x, xs)"
  by (simp_all add: list_deq_def)

lemma list_run_fifo:
  "fifo_run (list_enq n) list_deq cs xs = (acc, out, xs') \<Longrightarrow> out @ xs' = xs @ acc"
proof (induction cs arbitrary: xs acc out)
  case (Cons c cs)
  then show ?case
    by (cases c; cases xs) (auto simp: list_enq_def split: if_splits prod.splits)
qed simp

fun call_ok :: "('a \<Rightarrow> bool) \<Rightarrow> 'a qcall \<Rightarrow> bool" where
  "call_ok ok (Enq x) = ok x"
| "call_ok ok Deq = True"

locale bounded_fifo =
  fixes enq :: "'a \<Rightarrow> 's \<Rightarrow> 's option"
    and deq :: "'s \<Rightarrow> ('a \<times> 's) option"
    and items :: "'s \<Rightarrow> 'a list"
    and inv :: "'s \<Rightarrow> bool"
    and ok :: "'a \<Rightarrow> bool"
    and cap :: nat
  assumes items_le_cap: "inv s \<Longrightarrow> length (items s) \<le> cap"
    and enq_full: "inv s \<Longrightarrow> ok x \<Longrightarrow> length (items s) = cap \<Longrightarrow> enq x s = None"
    and enq_room: "inv s \<Longrightarrow> ok x \<Longrightarrow> length (items s) < cap \<Longrightarrow>
      \<exists>s'. enq x s = Some s' \<and> inv s' \<and> items s' = items s @ [x]"
    and deq_empty: "inv s \<Longrightarrow> items s = [] \<Longrightarrow> deq s = None"
    and deq_first: "inv s \<Longrightarrow> items s = x # xs \<Longrightarrow>
      \<exists>s'. deq s = Some (x, s') \<and> inv s' \<and> items s' = xs"
begin

lemma enq_cases:
  assumes "inv s" "ok x"
  obtains "length (items s) = cap" "enq x s = None"
  | s' where "length (items s) < cap" "enq x s = Some s'" "inv s'" "items s' = items s @ [x]"
  using assms items_le_cap [of s] enq_full enq_room by (metis le_neq_implies_less)

lemma deq_cases:
  assumes "inv s"
  obtains "items s = []" "deq s = None"
  | x s' where "deq s = Some (x, s')" "inv s'" "items s = x # items s'"
proof (cases "items s")
  case Nil
  from that(1) [OF this deq_empty [OF assms this]] show ?thesis .
next
  case (Cons x xs)
  then show ?thesis using that(2) deq_first [OF assms Cons] by metis
qed

text \<open>The implementation makes the same decisions and hands out the same items as the list.\<close>

lemma run_refines:
  assumes "inv s" "\<forall>c \<in> set cs. call_ok ok c" "fifo_run enq deq cs s = (acc, out, s')"
  shows "inv s' \<and> fifo_run (list_enq cap) list_deq cs (items s) = (acc, out, items s')"
  using assms
proof (induction cs arbitrary: s acc out)
  case Nil
  then show ?case by simp
next
  case (Cons c cs)
  show ?case
  proof (cases c)
    case (Enq x)
    then have "ok x" using Cons.prems(2) by simp
    with Cons.prems(1) show ?thesis
    proof (cases rule: enq_cases)
      case 1
      then show ?thesis using Cons Enq by (simp add: list_enq_def)
    next
      case (2 t)
      then show ?thesis using Cons.IH [of t] Cons.prems Enq
        by (auto simp: list_enq_def split: prod.splits)
    qed
  next
    case Deq
    from Cons.prems(1) show ?thesis
    proof (cases rule: deq_cases)
      case 1
      then show ?thesis using Cons.IH [OF Cons.prems(1)] Cons.prems Deq by simp
    next
      case (2 x t)
      then show ?thesis using Cons.IH [of t] Cons.prems Deq
        by (auto split: prod.splits)
    qed
  qed
qed

text \<open>First in, first out: what was handed out and what is left is what was there and was accepted.\<close>

lemma run_fifo:
  assumes "inv s" "\<forall>c \<in> set cs. call_ok ok c" "fifo_run enq deq cs s = (acc, out, s')"
  shows "inv s' \<and> out @ items s' = items s @ acc"
  using run_refines [OF assms] list_run_fifo by blast

end

end
