(* ===== verification/Shmmq_Queue.thy ===== *)
theory Shmmq_Queue
  imports Shmmq Fifo
begin

text \<open>
  The queue of \<open>shmmq/shmmq.c\<close> as a bounded FIFO queue of slots: the abstraction of the shared
  segment to a list, the invariant, and the effect of the critical sections and of the public
  operations on the list.
\<close>

section \<open>Abstraction and invariant\<close>

definition slots :: "globals \<Rightarrow> nat" where
  "slots g = unat (g_s_mqsize g)"

definition slot_size :: "globals \<Rightarrow> nat" where
  "slot_size g = unat (g_s_itemsize g)"

definition mq_len :: "segment \<Rightarrow> nat" where
  "mq_len sg = unat (enq_pos sg - deq_pos sg)"

text \<open>The slot that the \<open>i\<close>-th next dequeue will read.\<close>

definition nth_slot :: "globals \<Rightarrow> segment \<Rightarrow> nat \<Rightarrow> bytes" where
  "nth_slot g sg i = block (content sg) (slot_offset g (deq_pos sg + 1 + of_nat i)) (slot_size g)"

definition mq_items :: "globals \<Rightarrow> segment \<Rightarrow> bytes list" where
  "mq_items g sg = map (nth_slot g sg) [0..<mq_len sg]"

text \<open>
  What \<open>shmmq_open\<close> establishes when the size computation \<open>mqsize * itemsize + 4096\<close> does not
  overflow: a live mapping, positive sizes and room for all slots.
\<close>

definition mq_config :: "globals \<Rightarrow> segment \<Rightarrow> bool" where
  "mq_config g sg \<longleftrightarrow> head_live g \<and> 0 <s g_s_mqsize g \<and> 0 <s g_s_itemsize g
     \<and> slots g * slot_size g \<le> length (content sg) \<and> slots g * slot_size g < 2 ^ 31"

text \<open>
  The positions are reduced modulo the number of slots, so consecutive positions fall into
  consecutive slots only while they do not cross \<open>2 ^ 32\<close>, or if the number of slots divides
  \<open>2 ^ 32\<close>. \<open>no_wrap g sg n\<close>: the next \<open>n\<close> positions after the read position are consecutive.
\<close>

definition no_wrap :: "globals \<Rightarrow> segment \<Rightarrow> nat \<Rightarrow> bool" where
  "no_wrap g sg n \<longleftrightarrow> slots g dvd 2 ^ 32 \<or> unat (deq_pos sg + 1) + n \<le> 2 ^ 32"

definition mq_inv :: "globals \<Rightarrow> segment \<Rightarrow> bool" where
  "mq_inv g sg \<longleftrightarrow> mq_config g sg \<and> mq_len sg < slots g \<and> no_wrap g sg (mq_len sg)"

lemma mq_configD:
  assumes "mq_config g sg"
  shows "head_live g" "0 < slots g" "0 < slot_size g" "slots g < 2 ^ 31" "slot_size g < 2 ^ 31"
    "slots g * slot_size g \<le> length (content sg)" "slots g * slot_size g < 2 ^ 31"
    "g_s_mqsize g \<noteq> 0"
  using assms by (auto simp: mq_config_def slots_def slot_size_def pos_u32)

lemma unat_add_of_nat32: "unat (p + of_nat i :: u32) = (unat p + i) mod 2 ^ 32"
  by (simp add: unat_word_ariths unat_of_nat mod_simps)

lemma slot_offset_eq:
  assumes "mq_config g sg" and "slots g dvd 2 ^ 32 \<or> unat p + i < 2 ^ 32"
  shows "slot_offset g (p + of_nat i) = ((unat p + i) mod slots g) * slot_size g"
proof -
  let ?k = "(unat p + i) mod slots g"
  have "unat (p + of_nat i) mod slots g = ?k"
    using assms(2) by (auto simp only: unat_add_of_nat32 mod_mod_cancel mod_less)
  then have k: "unat ((p + of_nat i) mod g_s_mqsize g) = ?k"
    by (simp only: unat_mod slots_def)
  moreover have "?k * slot_size g < 2 ^ 32"
  proof -
    have "?k * slot_size g \<le> slots g * slot_size g"
      using mq_configD(2) [OF assms(1)] by (intro mult_le_mono1 less_imp_le mod_less_divisor)
    from le_less_trans [OF this mq_configD(7) [OF assms(1)]] show ?thesis by simp
  qed
  ultimately have "(?k * slot_size g) mod 2 ^ 32 = ?k * slot_size g" by (intro mod_less)
  then show ?thesis
    unfolding slot_offset_def unat_word_ariths(2) k slot_size_def by simp
qed

lemma slot_inside:
  assumes "mq_config g sg"
  shows "(k mod slots g) * slot_size g + slot_size g \<le> length (content sg)"
proof -
  have "Suc (k mod slots g) * slot_size g \<le> slots g * slot_size g"
    using mq_configD(2) [OF assms] by (intro mult_le_mono1 Suc_leI mod_less_divisor)
  then show ?thesis using mq_configD(6) [OF assms] by simp
qed

text \<open>Slots of positions less than a round apart do not overlap.\<close>

lemma mod_neq_close: "i < j \<Longrightarrow> j < i + m \<Longrightarrow> (i :: nat) mod m \<noteq> j mod m"
proof
  assume *: "i < j" "j < i + m" "i mod m = j mod m"
  then have "m dvd j - i" by (metis less_imp_le mod_eq_dvd_iff_nat)
  with * show False by (auto dest: dvd_imp_le)
qed

lemma slots_disjoint:
  assumes "i mod m \<noteq> j mod (m :: nat)"
  shows "i mod m * s + s \<le> j mod m * s \<or> j mod m * s + s \<le> i mod m * s"
proof (cases "i mod m < j mod m")
  case True
  then have "Suc (i mod m) * s \<le> j mod m * s" by (intro mult_le_mono1) simp
  then show ?thesis by simp
next
  case False
  with assms have "Suc (j mod m) * s \<le> i mod m * s" by (intro mult_le_mono1) simp
  then show ?thesis by simp
qed

lemma nth_slot_eq:
  assumes "mq_config g sg" and "no_wrap g sg (Suc i)"
  shows "nth_slot g sg i =
    block (content sg) (((unat (deq_pos sg + 1) + i) mod slots g) * slot_size g) (slot_size g)"
  using assms slot_offset_eq [of g sg "deq_pos sg + 1" i] by (auto simp: nth_slot_def no_wrap_def)

lemma no_wrap_mono: "no_wrap g sg n \<Longrightarrow> k \<le> n \<Longrightarrow> no_wrap g sg k"
  by (auto simp: no_wrap_def)

lemma length_nth_slot [simp]:
  assumes "mq_config g sg" "no_wrap g sg (Suc i)"
  shows "length (nth_slot g sg i) = slot_size g"
  using slot_inside [OF assms(1)] by (simp add: nth_slot_eq [OF assms])

section \<open>Full, empty, length\<close>

lemma length_mq_items [simp]: "length (mq_items g sg) = mq_len sg"
  by (simp add: mq_items_def)

lemma enq_pos_eq: "enq_pos sg = deq_pos sg + of_nat (mq_len sg)"
  by (simp add: mq_len_def)

lemma empty_iff: "enq_pos sg = deq_pos sg \<longleftrightarrow> mq_len sg = 0"
  by (simp add: mq_len_def unat_eq_0)

lemma full_iff:
  assumes "mq_config g sg"
  shows "deq_pos sg + g_s_mqsize g - 1 = enq_pos sg \<longleftrightarrow> Suc (mq_len sg) = slots g"
proof -
  have "deq_pos sg + g_s_mqsize g - 1 = enq_pos sg \<longleftrightarrow> enq_pos sg - deq_pos sg = g_s_mqsize g - 1"
    by (auto simp: algebra_simps)
  also have "\<dots> \<longleftrightarrow> mq_len sg = unat (g_s_mqsize g - 1)"
    by (simp add: mq_len_def word_unat_eq_iff)
  also have "unat (g_s_mqsize g - 1) = slots g - 1"
    using mq_configD(8) [OF assms] by (simp add: slots_def unat_minus_one)
  finally show ?thesis using mq_configD(2) [OF assms] by auto
qed

lemma mq_len_enq:
  assumes "mq_len sg < 2 ^ 31"
  shows "mq_len (sg\<lparr>content := c, enq_pos := enq_pos sg + 1\<rparr>) = Suc (mq_len sg)"
proof -
  have "unat (enq_pos sg - deq_pos sg + 1) = unat (enq_pos sg - deq_pos sg) + 1"
    using assms unat_add_of_nat32 [of "enq_pos sg - deq_pos sg" 1] by (simp add: mq_len_def)
  then show ?thesis by (simp add: mq_len_def algebra_simps)
qed

lemma mq_len_deq:
  assumes "mq_len sg \<noteq> 0"
  shows "mq_len (sg\<lparr>deq_pos := deq_pos sg + 1\<rparr>) = mq_len sg - 1"
proof -
  have "enq_pos sg - deq_pos sg \<noteq> 0" using assms by (auto simp: mq_len_def)
  then have "unat (enq_pos sg - deq_pos sg - 1) = unat (enq_pos sg - deq_pos sg) - 1"
    by (rule unat_minus_one)
  then show ?thesis by (simp add: mq_len_def algebra_simps)
qed

section \<open>The critical sections on the abstract queue\<close>

lemma enqueue_cs_full:
  "mq_inv g sg \<Longrightarrow> Suc (mq_len sg) = slots g \<Longrightarrow> enqueue_cs g sg buf sz = Some (ERROR_MSGQUEUE_FULL, sg)"
  by (auto simp: enqueue_cs_def full_iff mq_inv_def dest: mq_configD)

lemma enqueue_cs_ok:
  assumes inv: "mq_inv g sg" and room: "Suc (mq_len sg) < slots g" "no_wrap g sg (Suc (mq_len sg))"
    and sz: "sz \<le> slot_size g" "sz \<le> length buf"
  obtains sg' where "enqueue_cs g sg buf sz = Some (SUCCESS, sg')" "mq_inv g sg'"
    "mq_items g sg' = mq_items g sg @ [take sz buf @ drop sz (nth_slot g sg (mq_len sg))]"
    "deq_pos sg' = deq_pos sg" "length (content sg') = length (content sg)"
proof -
  let ?a = "unat (deq_pos sg + 1)" and ?s = "slot_size g"
  let ?off = "\<lambda>i. ((?a + i) mod slots g) * ?s"
  have cfg: "mq_config g sg" and wrap: "no_wrap g sg (mq_len sg)" using inv by (auto simp: mq_inv_def)
  have off: "slot_offset g (enq_pos sg + 1) = ?off (mq_len sg)"
    using slot_offset_eq [OF cfg, of "deq_pos sg + 1" "mq_len sg"] room(2)
    by (auto simp: no_wrap_def enq_pos_eq algebra_simps)
  have fits: "?off (mq_len sg) + ?s \<le> length (content sg)" by (rule slot_inside [OF cfg])
  obtain c where c: "write_bytes (content sg) (?off (mq_len sg)) (take sz buf) = Some c"
    using fits sz by (simp add: write_bytes_def)
  let ?sg' = "sg\<lparr>content := c, enq_pos := enq_pos sg + 1\<rparr>"
  have len: "mq_len ?sg' = Suc (mq_len sg)"
    using room mq_configD(4) [OF cfg] by (intro mq_len_enq) simp
  have lenc: "length c = length (content sg)" using length_write_bytes [OF c] .
  have cfg': "mq_config g ?sg'" using cfg by (simp add: mq_config_def lenc)
  have run: "enqueue_cs g sg buf sz = Some (SUCCESS, ?sg')"
    using room(1) sz c mq_configD(1,8) [OF cfg]
    by (simp add: enqueue_cs_def full_iff [OF cfg] off read_bytes_def)
  have wrap': "no_wrap g ?sg' (Suc (mq_len sg))" using room(2) by (simp add: no_wrap_def)
  have old: "nth_slot g ?sg' i = nth_slot g sg i" if "i < mq_len sg" for i
  proof -
    have "(?a + i) mod slots g \<noteq> (?a + mq_len sg) mod slots g"
      by (rule mod_neq_close) (use that room in auto)
    then have "?off i + ?s \<le> ?off (mq_len sg) \<or> ?off (mq_len sg) + length (take sz buf) \<le> ?off i"
      using slots_disjoint [of "?a + i" "slots g" "?a + mq_len sg" ?s] sz by auto
    from block_write_other [OF c this] show ?thesis
      using that nth_slot_eq [OF cfg', of i] nth_slot_eq [OF cfg, of i]
        no_wrap_mono [OF wrap] no_wrap_mono [OF wrap'] by simp
  qed
  have new: "nth_slot g ?sg' (mq_len sg) = take sz buf @ drop sz (nth_slot g sg (mq_len sg))"
    using block_write_same [OF c _ fits] sz nth_slot_eq [OF cfg', of "mq_len sg"] wrap'
      nth_slot_eq [OF cfg room(2)] by simp
  have "mq_items g ?sg' = mq_items g sg @ [take sz buf @ drop sz (nth_slot g sg (mq_len sg))]"
    unfolding mq_items_def len by (simp add: old new)
  moreover have "mq_inv g ?sg'" using cfg' len room(1) wrap' by (simp add: mq_inv_def)
  ultimately show ?thesis using run lenc by (intro that [of ?sg']) auto
qed

lemma dequeue_cs_empty:
  "mq_inv g sg \<Longrightarrow> mq_items g sg = [] \<Longrightarrow> dequeue_cs g sg sz = Some (ERROR_MSGQUEUE_FULL, [], sg)"
  using length_mq_items [of g sg]
  by (auto simp: dequeue_cs_def empty_iff mq_inv_def dest: mq_configD)

lemma dequeue_cs_ok:
  assumes inv: "mq_inv g sg" and items: "mq_items g sg = x # xs" and sz: "sz \<le> slot_size g"
  obtains sg' where "dequeue_cs g sg sz = Some (SUCCESS, take sz x, sg')" "mq_inv g sg'"
    "mq_items g sg' = xs" "content sg' = content sg" "enq_pos sg' = enq_pos sg"
proof -
  let ?sg' = "sg\<lparr>deq_pos := deq_pos sg + 1\<rparr>"
  have cfg: "mq_config g sg" and wrap: "no_wrap g sg (mq_len sg)" using inv by (auto simp: mq_inv_def)
  have len: "mq_len sg = Suc (length xs)" using items length_mq_items [of g sg] by simp
  have x: "x = nth_slot g sg 0" and xs: "xs = map (nth_slot g sg) [1..<mq_len sg]"
    using items by (simp_all add: mq_items_def len upt_conv_Cons del: upt_Suc)
  have w1: "no_wrap g sg (Suc 0)" using wrap by (rule no_wrap_mono) (simp add: len)
  have off: "slot_offset g (deq_pos sg + 1) = (unat (deq_pos sg + 1) mod slots g) * slot_size g"
    using slot_offset_eq [OF cfg, of "deq_pos sg + 1" 0] w1 by (auto simp: no_wrap_def)
  have "read_bytes (content sg) (slot_offset g (deq_pos sg + 1)) sz = Some (take sz x)"
    using slot_inside [OF cfg, of "unat (deq_pos sg + 1)"] sz nth_slot_eq [OF cfg w1]
    by (simp add: read_bytes_def off x block_def min_absorb1)
  then have run: "dequeue_cs g sg sz = Some (SUCCESS, take sz x, ?sg')"
    using mq_configD(1,8) [OF cfg] len by (simp add: dequeue_cs_def empty_iff)
  have len': "mq_len ?sg' = length xs" using mq_len_deq [of sg] len by simp
  have shift: "nth_slot g ?sg' i = nth_slot g sg (Suc i)" for i
    by (simp add: nth_slot_def ac_simps)
  have "mq_items g ?sg' = map (\<lambda>i. nth_slot g sg (Suc i)) [0..<length xs]"
    unfolding mq_items_def len' by (rule map_cong) (simp_all add: shift)
  also have "\<dots> = map (nth_slot g sg) (map Suc [0..<length xs])" by simp
  also have "\<dots> = xs" using xs unfolding map_Suc_upt len One_nat_def by (rule sym)
  finally have "mq_items g ?sg' = xs" .
  have "no_wrap g ?sg' (length xs)"
  proof (cases "deq_pos sg + 1 + 1 = 0")
    case True
    then have "unat (deq_pos ?sg' + 1) = 0" by simp
    then show ?thesis using len inv mq_configD(4) [OF cfg] by (simp add: no_wrap_def mq_inv_def)
  next
    case False
    then have "unat (deq_pos sg + 1 + 1) = unat (deq_pos sg + 1) + 1"
      by (metis unat_minus_one add_diff_cancel_right' le_add_diff_inverse2 unat_gt_0 Suc_leI One_nat_def)
    then show ?thesis using wrap len by (auto simp: no_wrap_def)
  qed
  moreover have "mq_config g ?sg'" using cfg by (simp add: mq_config_def)
  ultimately have "mq_inv g ?sg'" using inv len len' by (simp add: mq_inv_def)
  with run \<open>mq_items g ?sg' = xs\<close> show ?thesis by (intro that [of ?sg']) auto
qed

section \<open>The public operations\<close>

definition sem_ok :: "os \<Rightarrow> bool" where
  "sem_ok os \<longleftrightarrow> r_semop_p os \<noteq> -1 \<and> r_semop_v os \<noteq> -1"

definition size_ok :: "globals \<Rightarrow> u32 \<Rightarrow> bool" where
  "size_ok g sz \<longleftrightarrow> 0 <s sz \<and> \<not> g_s_itemsize g <s sz"

lemma size_okD:
  assumes "mq_config g sg" "size_ok g sz"
  shows "\<not> sz \<le>s 0" "\<not> g_s_itemsize g <s sz" "unat sz \<le> slot_size g" "0 < unat sz"
proof -
  have sz: "0 < unat sz" "unat sz < 2 ^ 31" using assms(2) by (auto simp: size_ok_def pos_u32)
  show "\<not> g_s_itemsize g <s sz" using assms(2) by (simp add: size_ok_def)
  with sless_small32 [of "g_s_itemsize g" sz] mq_configD(5) [OF assms(1)] sz
  show "unat sz \<le> slot_size g" by (simp add: slot_size_def)
  show "\<not> sz \<le>s 0" using assms(2) by (simp add: size_ok_def signed.not_le)
  show "0 < unat sz" by (rule sz)
qed

abbreviation lock_calls :: "globals \<Rightarrow> syscall list" where
  "lock_calls g \<equiv> [SEMOP (g_s_semid g) (-1) SEM_UNDO, SEMOP (g_s_semid g) 1 SEM_UNDO]"

lemma shmmq_enqueue_cs:
  assumes "sem_ok os" "mq_config g sg" "size_ok g sz"
  shows "shmmq_enqueue os g sg (Some buf) sz =
    map_option (\<lambda>(ret, sg'). (ret, sg', lock_calls g)) (enqueue_cs g sg buf (unat sz))"
  using assms(1) size_okD [OF assms(2,3)]
  by (auto simp: shmmq_enqueue_def sem_ok_def semaphore_p_def semaphore_v_def
      split: option.splits bind_splits)

lemma shmmq_dequeue_cs:
  assumes "sem_ok os" "mq_config g sg" "size_ok g sz"
  shows "shmmq_dequeue os g sg (Some buf) sz =
    (case dequeue_cs g sg (unat sz) of
       None \<Rightarrow> None
     | Some (ret, x, sg') \<Rightarrow> map_option (\<lambda>b. (ret, Some b, sg', lock_calls g)) (write_bytes buf 0 x))"
  using assms(1) size_okD [OF assms(2,3)]
  by (auto simp: shmmq_dequeue_def sem_ok_def semaphore_p_def semaphore_v_def
      split: option.splits bind_splits)

text \<open>
  Enqueueing: on a queue with a free slot (one slot always stays free) whose next position
  is not past a wrap, \<open>shmmq_enqueue\<close> succeeds, stays inside the segment, appends exactly one
  item made of the caller's bytes (followed by what the slot held before, if the item is
  shorter than a slot), keeps the other items and the invariant, and holds the semaphore for
  the whole access; on a full queue it reports so and changes nothing.
\<close>
theorem shmmq_enqueue_appends:
  assumes "mq_inv g sg" "sem_ok os" "size_ok g sz" "unat sz \<le> length buf"
    and "no_wrap g sg (Suc (mq_len sg))"
  shows "if Suc (length (mq_items g sg)) = slots g
    then shmmq_enqueue os g sg (Some buf) sz = Some (ERROR_MSGQUEUE_FULL, sg, lock_calls g)
    else \<exists>sg'. shmmq_enqueue os g sg (Some buf) sz = Some (SUCCESS, sg', lock_calls g)
      \<and> mq_inv g sg'
      \<and> mq_items g sg' = mq_items g sg
          @ [take (unat sz) buf @ drop (unat sz) (nth_slot g sg (length (mq_items g sg)))]"
proof -
  have cfg: "mq_config g sg" using assms(1) by (simp add: mq_inv_def)
  note run = shmmq_enqueue_cs [OF assms(2) cfg assms(3), of buf]
  show ?thesis
  proof (cases "Suc (mq_len sg) = slots g")
    case True
    then show ?thesis by (simp add: run enqueue_cs_full [OF assms(1)])
  next
    case False
    then have "Suc (mq_len sg) < slots g" using assms(1) by (simp add: mq_inv_def)
    from enqueue_cs_ok [OF assms(1) this assms(5) size_okD(3) [OF cfg assms(3)] assms(4)]
    obtain sg' where "enqueue_cs g sg buf (unat sz) = Some (SUCCESS, sg')" "mq_inv g sg'"
      "mq_items g sg' = mq_items g sg
         @ [take (unat sz) buf @ drop (unat sz) (nth_slot g sg (mq_len sg))]" .
    with False show ?thesis by (simp add: run)
  qed
qed

text \<open>
  Dequeueing: on a non-empty queue \<open>shmmq_dequeue\<close> succeeds, copies the first bytes of the
  oldest item into the caller's buffer and removes that item; on an empty queue it returns
  \<open>ERROR_MSGQUEUE_FULL\<close> (the code's answer for an empty queue too) and changes nothing.
\<close>
theorem shmmq_dequeue_removes_oldest:
  assumes "mq_inv g sg" "sem_ok os" "size_ok g sz" "unat sz \<le> length buf"
  shows "case mq_items g sg of
      [] \<Rightarrow> shmmq_dequeue os g sg (Some buf) sz = Some (ERROR_MSGQUEUE_FULL, Some buf, sg, lock_calls g)
    | x # xs \<Rightarrow> \<exists>sg'. shmmq_dequeue os g sg (Some buf) sz
          = Some (SUCCESS, Some (take (unat sz) x @ drop (unat sz) buf), sg', lock_calls g)
        \<and> mq_inv g sg' \<and> mq_items g sg' = xs"
proof -
  have cfg: "mq_config g sg" using assms(1) by (simp add: mq_inv_def)
  note run = shmmq_dequeue_cs [OF assms(2) cfg assms(3), of buf]
  show ?thesis
  proof (cases "mq_items g sg")
    case Nil
    then show ?thesis by (simp add: run dequeue_cs_empty [OF assms(1)] write_bytes_def)
  next
    case (Cons x xs)
    have "length x = slot_size g"
    proof -
      have "x = nth_slot g sg 0" "mq_len sg \<noteq> 0"
        using Cons length_mq_items [of g sg] by (auto simp: mq_items_def upt_rec split: if_splits)
      moreover have "no_wrap g sg (Suc 0)"
        using assms(1) \<open>mq_len sg \<noteq> 0\<close> no_wrap_mono [of g sg "mq_len sg" "Suc 0"] by (simp add: mq_inv_def)
      ultimately show ?thesis using cfg by simp
    qed
    with size_okD(3) [OF cfg assms(3)] have "length (take (unat sz) x) = unat sz" by simp
    moreover obtain sg' where "dequeue_cs g sg (unat sz) = Some (SUCCESS, take (unat sz) x, sg')"
      "mq_inv g sg'" "mq_items g sg' = xs"
      using dequeue_cs_ok [OF assms(1) Cons size_okD(3) [OF cfg assms(3)]] by metis
    ultimately show ?thesis using Cons assms(4) by (simp add: run write_bytes_def)
  qed
qed

section \<open>Opening establishes the invariant\<close>

definition requested :: "u32 \<Rightarrow> u32 \<Rightarrow> u32" where
  "requested dflt n = (if n \<le>s 0 then dflt else n)"

lemma requested_pos: "0 <s dflt \<Longrightarrow> 0 <s requested dflt n"
  by (simp add: requested_def signed.not_le)

lemma default_sizes_pos: "0 <s DEFAULT_MQ_SIZE" "0 <s DEFAULT_ITEM_SIZE"
  by (simp_all add: DEFAULT_MQ_SIZE_def DEFAULT_ITEM_SIZE_def pos_u32)

lemma fresh_queue:
  assumes "mq_config g sg" "enq_pos sg = -1" "deq_pos sg = -1"
  shows "mq_inv g sg" "mq_items g sg = []" "n \<le> 2 ^ 32 \<Longrightarrow> no_wrap g sg n"
  using assms mq_configD(2) [OF assms(1)]
  by (simp_all add: mq_inv_def mq_items_def mq_len_def no_wrap_def)

text \<open>
  \<open>shmmq_open\<close> by the creator, when the kernel grants every call and a segment of the
  requested size, returns success with an empty queue that satisfies the invariant, of the
  requested number of slots or the default.
\<close>
theorem shmmq_open_creates_empty_queue:
  fixes mqsize itemsize :: u32
  defines "m \<equiv> unat (requested DEFAULT_MQ_SIZE mqsize)"
    and "s \<equiv> unat (requested DEFAULT_ITEM_SIZE itemsize)"
  assumes "0 \<le> r_semget os" "r_setval os \<noteq> -1" "sem_ok os" "r_shmget os \<noteq> -1" "r_shmat os = Some base"
    and "m * s \<le> length (content (r_segment os))" "m * s < 2 ^ 31"
  shows "\<exists>g' sg' calls. shmmq_open os g sg True mqsize itemsize = (SUCCESS, g', sg', calls)
    \<and> mq_inv g' sg' \<and> mq_items g' sg' = [] \<and> slots g' = m \<and> slot_size g' = s"
proof -
  obtain g' sg' calls where
    open': "shmmq_open os g sg True mqsize itemsize = (SUCCESS, g', sg', calls)"
    and g': "g_s_mqsize g' = requested DEFAULT_MQ_SIZE mqsize"
      "g_s_itemsize g' = requested DEFAULT_ITEM_SIZE itemsize" "head_live g'"
    and sg': "sg' = (r_segment os)\<lparr>enq_pos := -1, deq_pos := -1\<rparr>"
    using assms(3-7)
    by (auto simp: shmmq_open_def open_attach_def get_semvalue_def set_semvalue_def semaphore_p_def
        semaphore_v_def sem_ok_def requested_def head_live_def Let_def)
  have "mq_config g' sg'"
    using assms(8,9) g' requested_pos default_sizes_pos
    by (simp add: mq_config_def slots_def slot_size_def m_def s_def sg')
  from fresh_queue [OF this] open' g' show ?thesis
    by (simp add: sg' slots_def slot_size_def m_def s_def)
qed

section \<open>Lock discipline\<close>

fun is_semop :: "syscall \<Rightarrow> bool" where
  "is_semop (SEMOP _ _ _) = True"
| "is_semop _ = False"

text \<open>No semaphore operation, a refused P, or P and later V on the same semaphore.\<close>

definition balanced :: "os \<Rightarrow> syscall list \<Rightarrow> bool" where
  "balanced os calls \<longleftrightarrow> (\<exists>id. filter is_semop calls \<in>
     {[], [SEMOP id (-1) SEM_UNDO, SEMOP id 1 SEM_UNDO]} \<union> (if r_semop_p os = -1 then {[SEMOP id (-1) SEM_UNDO]} else {}))"

text \<open>
  Lock discipline: on every path that returns, with any answers of the kernel, each
  operation either never takes the semaphore, fails to take it, or takes it once and releases
  it once afterwards.
\<close>
theorem shmmq_lock_balanced:
  "(shmmq_enqueue os g sg item sz = Some (ret, sg1, calls1) \<longrightarrow> balanced os calls1)
   \<and> (shmmq_dequeue os g sg item sz = Some (ret, item', sg2, calls2) \<longrightarrow> balanced os calls2)
   \<and> (shmmq_clear os g sg sf = Some (ret, sg3, calls3) \<longrightarrow> balanced os calls3)
   \<and> balanced os (snd (snd (snd (shmmq_open os g sg iscreated mqsize itemsize))))"
proof (intro conjI impI)
  assume "shmmq_enqueue os g sg item sz = Some (ret, sg1, calls1)"
  then show "balanced os calls1"
    by (auto simp: shmmq_enqueue_def semaphore_p_def semaphore_v_def balanced_def Let_def
        split: option.splits if_splits bind_splits)
next
  assume "shmmq_dequeue os g sg item sz = Some (ret, item', sg2, calls2)"
  then show "balanced os calls2"
    by (auto simp: shmmq_dequeue_def semaphore_p_def semaphore_v_def balanced_def Let_def
        split: option.splits if_splits bind_splits)
next
  assume "shmmq_clear os g sg sf = Some (ret, sg3, calls3)"
  then show "balanced os calls3"
    by (auto simp: shmmq_clear_def semaphore_p_def semaphore_v_def balanced_def Let_def
        split: option.splits if_splits)
next
  have attach: "filter is_semop (snd (snd (snd (open_attach os g' sg iscreated mqsize itemsize)))) = []" for g'
    by (auto simp: open_attach_def Let_def split: option.splits)
  obtain ret g' sg' c where o: "open_attach os (g\<lparr>g_s_semid := r_semget os\<rparr>) sg iscreated mqsize itemsize
      = (ret, g', sg', c)" by (rule prod_cases4)
  with attach [of "g\<lparr>g_s_semid := r_semget os\<rparr>"] have "filter is_semop c = []" by simp
  with o show "balanced os (snd (snd (snd (shmmq_open os g sg iscreated mqsize itemsize))))"
    by (auto simp: shmmq_open_def get_semvalue_def set_semvalue_def del_semvalue_def semaphore_p_def
        semaphore_v_def balanced_def)
qed

section \<open>The queue as a bounded FIFO queue\<close>

definition os_ok :: os where
  "os_ok = \<lparr>r_semget = 0, r_setval = 0, r_sem_rmid = 0, r_semop_p = 0, r_semop_v = 0, r_shmget = 0,
     r_shmat = Some 65536, r_shmdt = 0, r_shm_rmid = 0,
     r_segment = \<lparr>enq_pos = 0, deq_pos = 0, content = replicate 8 0\<rparr>\<rparr>"

text \<open>Whole-slot items, with a kernel that grants the semaphore.\<close>

definition mq_enq :: "globals \<Rightarrow> bytes \<Rightarrow> segment \<Rightarrow> segment option" where
  "mq_enq g x sg = (case shmmq_enqueue os_ok g sg (Some x) (g_s_itemsize g) of
     Some (SUCCESS, sg', _) \<Rightarrow> Some sg' | _ \<Rightarrow> None)"

definition mq_deq :: "globals \<Rightarrow> segment \<Rightarrow> (bytes \<times> segment) option" where
  "mq_deq g sg = (case shmmq_dequeue os_ok g sg (Some (replicate (slot_size g) 0)) (g_s_itemsize g) of
     Some (SUCCESS, Some x, sg', _) \<Rightarrow> Some (x, sg') | _ \<Rightarrow> None)"

definition mq_ring :: "globals \<Rightarrow> segment \<Rightarrow> bool" where
  "mq_ring g sg \<longleftrightarrow> mq_inv g sg \<and> slots g dvd 2 ^ 32"

lemma os_ok_sem_ok [simp]: "sem_ok os_ok"
  by (simp add: os_ok_def sem_ok_def)

lemma whole_slot_ok: "mq_config g sg \<Longrightarrow> size_ok g (g_s_itemsize g)"
  by (simp add: mq_config_def size_ok_def)

lemma mq_enq_ring:
  assumes "mq_ring g sg" "length x = slot_size g"
  shows "if Suc (length (mq_items g sg)) = slots g then mq_enq g x sg = None
    else \<exists>sg'. mq_enq g x sg = Some sg' \<and> mq_ring g sg' \<and> mq_items g sg' = mq_items g sg @ [x]"
proof -
  have inv: "mq_inv g sg" and cfg: "mq_config g sg" using assms(1) by (auto simp: mq_ring_def mq_inv_def)
  have wrap: "no_wrap g sg (Suc (mq_len sg))" using assms(1) by (simp add: mq_ring_def no_wrap_def)
  have len: "unat (g_s_itemsize g) = length x" using assms(2) by (simp add: slot_size_def)
  note run = shmmq_enqueue_cs [OF os_ok_sem_ok cfg whole_slot_ok [OF cfg], of x]
  show ?thesis
  proof (cases "Suc (mq_len sg) = slots g")
    case True
    then show ?thesis by (simp add: mq_enq_def run enqueue_cs_full [OF inv])
  next
    case False
    then have "Suc (mq_len sg) < slots g" using inv by (simp add: mq_inv_def)
    from enqueue_cs_ok [OF inv this wrap, of "length x" x]
    obtain sg' where "enqueue_cs g sg x (length x) = Some (SUCCESS, sg')" "mq_inv g sg'"
      "mq_items g sg' = mq_items g sg @ [take (length x) x @ drop (length x) (nth_slot g sg (mq_len sg))]"
      using assms(2) by auto
    with False assms(1) wrap cfg show ?thesis by (simp add: mq_enq_def run len mq_ring_def assms(2))
  qed
qed

lemma mq_deq_empty:
  assumes "mq_ring g sg" "mq_items g sg = []"
  shows "mq_deq g sg = None"
proof -
  have inv: "mq_inv g sg" and cfg: "mq_config g sg" using assms(1) by (auto simp: mq_ring_def mq_inv_def)
  show ?thesis
    by (simp add: mq_deq_def shmmq_dequeue_cs [OF os_ok_sem_ok cfg whole_slot_ok [OF cfg]]
        dequeue_cs_empty [OF inv assms(2)] write_bytes_def)
qed

lemma mq_deq_first:
  assumes "mq_ring g sg" "mq_items g sg = x # xs"
  shows "\<exists>sg'. mq_deq g sg = Some (x, sg') \<and> mq_ring g sg' \<and> mq_items g sg' = xs"
proof -
  have inv: "mq_inv g sg" and cfg: "mq_config g sg" using assms(1) by (auto simp: mq_ring_def mq_inv_def)
  have "x = nth_slot g sg 0"
    using assms(2) length_mq_items [of g sg] by (auto simp: mq_items_def upt_rec split: if_splits)
  moreover have "no_wrap g sg (Suc 0)" using assms(1) by (simp add: mq_ring_def no_wrap_def)
  ultimately have len: "length x = slot_size g" using cfg by simp
  from dequeue_cs_ok [OF inv assms(2) order_refl]
  obtain sg' where "dequeue_cs g sg (slot_size g) = Some (SUCCESS, take (slot_size g) x, sg')"
    "mq_inv g sg'" "mq_items g sg' = xs" .
  with assms(1) len show ?thesis
    by (simp add: mq_deq_def shmmq_dequeue_cs [OF os_ok_sem_ok cfg whole_slot_ok [OF cfg]] write_bytes_def
        mq_ring_def flip: slot_size_def)
qed

interpretation mq: bounded_fifo "mq_enq g" "mq_deq g" "mq_items g" "mq_ring g"
  "\<lambda>x. length x = slot_size g" "slots g - 1" for g
proof (unfold_locales, goal_cases)
  case (1 s) then show ?case by (auto simp: mq_ring_def mq_inv_def)
next
  case (2 s x)
  moreover from 2(1) have "mq_len s < slots g" by (simp add: mq_ring_def mq_inv_def)
  ultimately show ?case using mq_enq_ring [of g s x] by (auto split: if_splits)
next
  case (3 s x)
  moreover from 3(1) have "mq_len s < slots g" by (simp add: mq_ring_def mq_inv_def)
  ultimately show ?case using mq_enq_ring [of g s x] by auto
next
  case (4 s) then show ?case by (rule mq_deq_empty)
next
  case (5 s x xs) then show ?case by (rule mq_deq_first)
qed

text \<open>
  C6. Any sequence of whole-item enqueues and dequeues on a queue whose number of slots divides
  \<open>2 ^ 32\<close> behaves as the bounded list of capacity \<open>mqsize - 1\<close>: the same calls are refused,
  and the items handed out, followed by those still queued, are the items queued at the start
  followed by the accepted ones, in order, none lost and none duplicated.
\<close>
theorem shmmq_run_is_fifo:
  assumes "mq_ring g sg" "\<forall>c \<in> set cs. call_ok (\<lambda>x. length x = slot_size g) c"
    and "fifo_run (mq_enq g) (mq_deq g) cs sg = (acc, out, sg')"
  shows "mq_ring g sg'
    \<and> fifo_run (list_enq (slots g - 1)) list_deq cs (mq_items g sg) = (acc, out, mq_items g sg')
    \<and> out @ mq_items g sg' = mq_items g sg @ acc"
  using mq.run_refines [OF assms] mq.run_fifo [OF assms] by blast

section \<open>A concrete queue\<close>

text \<open>Four slots of two bytes, as \<open>shmmq_open\<close> leaves them.\<close>

definition example_globals :: globals where
  "example_globals = \<lparr>g_s_semid = 5, g_s_shmid = 6, g_s_mqsize = 4, g_s_itemsize = 2,
     g_s_pbase = Some 65536, g_s_phead = Some 65536, g_s_pcontent = Some 69632, mapped = Some 65536\<rparr>"

definition example_segment :: segment where
  "example_segment = \<lparr>enq_pos = -1, deq_pos = -1, content = replicate 8 0\<rparr>"

lemma example_config: "mq_config example_globals example_segment"
  by (simp add: mq_config_def head_live_def example_globals_def example_segment_def slots_def
      slot_size_def DEFAULT_HEAD_SIZE_def pos_u32)

lemma example_sizes [simp]: "slots example_globals = 4" "slot_size example_globals = 2"
  by (simp_all add: slots_def slot_size_def example_globals_def)

lemma example_inv: "mq_inv example_globals example_segment"
  and example_items: "mq_items example_globals example_segment = []"
  using fresh_queue [OF example_config] by (simp_all add: example_segment_def)

lemma example_ring: "mq_ring example_globals example_segment"
  using example_inv by (simp add: mq_ring_def)

lemma example_size_ok: "size_ok example_globals 1" "size_ok example_globals 2"
  by (simp_all add: size_ok_def example_globals_def word_sless_alt)

lemma example_no_wrap: "no_wrap example_globals sg n"
  by (simp add: no_wrap_def)

text \<open>The queue with one item in it.\<close>

definition example_segment1 :: segment where
  "example_segment1 = \<lparr>enq_pos = 0, deq_pos = -1, content = [7, 9, 0, 0, 0, 0, 0, 0]\<rparr>"

lemma example_inv1: "mq_inv example_globals example_segment1"
  by (simp add: mq_inv_def mq_config_def head_live_def example_globals_def example_segment1_def slots_def
      slot_size_def DEFAULT_HEAD_SIZE_def mq_len_def no_wrap_def pos_u32)

lemma example_items1: "mq_items example_globals example_segment1 = [[7, 9]]"
  by (simp add: mq_items_def nth_slot_def mq_len_def example_segment1_def block_def slot_offset_def
      slot_size_def example_globals_def)

theorem shmmq_enqueue_appends_witness:
  "\<exists>sg'. shmmq_enqueue os_ok example_globals example_segment1 (Some [8]) 1
      = Some (SUCCESS, sg', lock_calls example_globals)
    \<and> mq_items example_globals sg' = [[7, 9], [8, 0]]"
proof -
  have "nth_slot example_globals example_segment1 1 = [0, 0]"
    by (simp add: nth_slot_def example_segment1_def block_def slot_offset_def slot_size_def
        example_globals_def)
  with shmmq_enqueue_appends [OF example_inv1 os_ok_sem_ok example_size_ok(1) _ example_no_wrap, of "[8]"]
  show ?thesis by (auto simp: example_items1)
qed

theorem shmmq_dequeue_removes_oldest_witness:
  "\<exists>sg'. shmmq_dequeue os_ok example_globals example_segment1 (Some [0]) 1
      = Some (SUCCESS, Some [7], sg', lock_calls example_globals)
    \<and> mq_items example_globals sg' = []"
  using shmmq_dequeue_removes_oldest [OF example_inv1 os_ok_sem_ok example_size_ok(1), of "[0]"]
  by (auto simp: example_items1)

theorem shmmq_open_creates_empty_queue_witness:
  "\<exists>g' sg' calls. shmmq_open os_ok example_globals example_segment1 True 4 2 = (SUCCESS, g', sg', calls)
    \<and> mq_inv g' sg' \<and> mq_items g' sg' = [] \<and> slots g' = 4 \<and> slot_size g' = 2"
  using shmmq_open_creates_empty_queue [of os_ok 65536 4 2 example_globals example_segment1]
  by (simp add: os_ok_def sem_ok_def requested_def word_sle_eq)

theorem shmmq_lock_balanced_witness:
  "balanced os_ok [SEMOP 5 (-1) SEM_UNDO, SEMOP 5 1 SEM_UNDO]"
proof -
  obtain ret sg' where run: "shmmq_enqueue os_ok example_globals example_segment (Some [8, 8]) 2
      = Some (ret, sg', [SEMOP 5 (-1) SEM_UNDO, SEMOP 5 1 SEM_UNDO])"
    using shmmq_enqueue_cs [OF os_ok_sem_ok example_config example_size_ok(2), of "[8, 8]"]
    by (auto simp: enqueue_cs_def example_globals_def example_segment_def head_live_def
        DEFAULT_HEAD_SIZE_def slot_offset_def read_bytes_def write_bytes_def)
  show ?thesis using shmmq_lock_balanced run by blast
qed

theorem shmmq_run_is_fifo_witness:
  "\<exists>sg'. fifo_run (mq_enq example_globals) (mq_deq example_globals) [Enq [1, 2], Deq, Deq, Enq [3, 4]]
      example_segment = ([[1, 2], [3, 4]], [[1, 2]], sg')
    \<and> mq_items example_globals sg' = [[3, 4]]"
proof -
  let ?cs = "[Enq [1, 2], Deq, Deq, Enq [3, 4]] :: bytes qcall list"
  obtain acc out sg' where run:
    "fifo_run (mq_enq example_globals) (mq_deq example_globals) ?cs example_segment = (acc, out, sg')"
    by (rule prod_cases3)
  from shmmq_run_is_fifo [OF example_ring _ run]
  have "acc = [[1, 2], [3, 4]]" "out = [[1, 2]]" "mq_items example_globals sg' = [[3, 4]]"
    by (auto simp: example_items list_enq_def)
  with run show ?thesis by blast
qed

section \<open>Where the code does not do what it means to\<close>

text \<open>
  Error strings. Because \<open>errlist\<close> lacks the comma after its first string, no error code
  gets its own message: code 0 is described by two joined messages, each code from 1 to 10 by
  the message written for the next code, and \<open>ERROR_MSGQUEUE_FULL\<close> reads past the array. Codes
  outside the enumeration yield the null pointer.
\<close>
theorem shmmq_get_errstr_shifted:
  "shmmq_get_errstr (mq_code SUCCESS) = Some (Some ''SuccessfulInvalid Argument'')
   \<and> shmmq_get_errstr (mq_code ERROR_INVALID_ARGUMENT) = Some (Some ''Failed in get_semvalue'')
   \<and> shmmq_get_errstr (mq_code ERROR_SEMAPHORE_P) = Some (Some ''Failed in semaphore_v'')
   \<and> shmmq_get_errstr (mq_code ERROR_SEMAPHORE_V) = Some (Some ''Msg Queue Full'')
   \<and> shmmq_get_errstr (mq_code ERROR_MSGQUEUE_FULL) = None
   \<and> (shmmq_get_errstr e = None \<longleftrightarrow> e = mq_code ERROR_MSGQUEUE_FULL)
   \<and> (shmmq_get_errstr e = Some None \<longleftrightarrow> e \<notin> range mq_code)"
proof -
  have codes: "e \<in> range mq_code" if "0 \<le> e" "e \<le> 11" for e
  proof -
    have "e \<in> set [0..11]" using that by simp
    then have "e \<in> set (map mq_code [SUCCESS, ERROR_INVALID_ARGUMENT, ERROR_GET_SEMVALUE,
      ERROR_SET_SEMVALUE, ERROR_DEL_SEMVALUE, ERROR_SHMGET, ERROR_SHMAT, ERROR_SHMDT, ERROR_SHMCTL,
      ERROR_SEMAPHORE_P, ERROR_SEMAPHORE_V, ERROR_MSGQUEUE_FULL])" by (simp add: upto_rec1)
    then show ?thesis unfolding set_map by (rule subsetD [OF image_mono, rotated]) simp
  qed
  have range: "0 \<le> mq_code r \<and> mq_code r \<le> 11" for r by (cases r) auto
  have "shmmq_get_errstr e = Some None \<longleftrightarrow> e < 0 \<or> 11 < e"
    by (simp add: shmmq_get_errstr_def)
  moreover have "e < 0 \<or> 11 < e \<longleftrightarrow> e \<notin> range mq_code"
    using codes range by (metis imageE linorder_not_less)
  ultimately have "shmmq_get_errstr e = Some None \<longleftrightarrow> e \<notin> range mq_code" by simp
  moreover have "shmmq_get_errstr e = None \<longleftrightarrow> e = mq_code ERROR_MSGQUEUE_FULL"
    by (auto simp: shmmq_get_errstr_def errlist_def)
  ultimately show ?thesis by (simp add: shmmq_get_errstr_def errlist_def)
qed

text \<open>
  C30. Wrap-around. The positions run freely through all 32-bit values but the slot is the position modulo the number
  of slots \<open>n\<close>, and position 0 follows position \<open>2 ^ 32 - 1\<close>. In every consistent queue whose last item is at
  position \<open>2 ^ 32 - 1\<close>, that is not full and whose waiting items reach back to the last multiple of \<open>n\<close>, so that one of
  them is in slot 0 (there are then more than \<open>r = (2 ^ 32 - 1) mod n\<close> of them, and less than \<open>n - 1\<close>, so that \<open>n\<close> does not divide \<open>2 ^ 32\<close>),
  an enqueue succeeds and writes the new item over that one, \<open>r\<close> places before the end, which is lost; the new item is handed out twice.
\<close>
theorem shmmq_wrap_overwrites_item:
  assumes "mq_inv g sg" "enq_pos sg = -1" "sem_ok os" "size_ok g sz" "unat sz \<le> length buf"
    and "(2 ^ 32 - 1) mod slots g < mq_len sg" "mq_len sg < slots g - 1"
  shows "\<exists>sg' calls x k. shmmq_enqueue os g sg (Some buf) sz = Some (SUCCESS, sg', calls)
    \<and> k + (2 ^ 32 - 1) mod slots g + 1 = mq_len sg
    \<and> x = take (unat sz) buf @ drop (unat sz) (mq_items g sg ! k)
    \<and> mq_items g sg' = (mq_items g sg)[k := x] @ [x]"
proof -
  let ?n = "slots g" and ?s = "slot_size g" and ?m = "mq_len sg" and ?r = "(2 ^ 32 - 1) mod slots g"
  let ?item = "take (unat sz) buf"
  define k where "k = ?m - 1 - ?r"
  have k: "k < ?m" "k + ?r + 1 = ?m" using assms(6) by (simp_all add: k_def)
  have cfg: "mq_config g sg" and m: "?m < ?n" "?m < 2 ^ 31"
    using assms(1) mq_configD(4) [of g sg] by (auto simp: mq_inv_def)
  have sz: "unat sz \<le> ?s" by (rule size_okD(3) [OF cfg assms(4)])
  have start: "unat (deq_pos sg + 1) = 2 ^ 32 - ?m"
  proof -
    have "deq_pos sg = -1 - of_nat ?m" using enq_pos_eq [of sg] assms(2) by (simp add: eq_diff_eq)
    then have "deq_pos sg + 1 = - of_nat ?m" by simp
    moreover have "unat (of_nat ?m :: u32) = ?m" by (simp add: mq_len_def)
    with k(1) unat_sub_if' [of "0 :: u32" "of_nat ?m"] have "unat (- (of_nat ?m :: u32)) = 2 ^ 32 - ?m" by simp
    ultimately show ?thesis by simp
  qed
  have slot: "(2 ^ 32 - ?m + i) mod ?n = 0 \<longleftrightarrow> i = k" if "i < ?m" for i
  proof -
    have zero: "(2 ^ 32 - ?m + k) mod ?n = 0"
    proof -
      have "2 ^ 32 - ?m + k = (2 ^ 32 - 1) - ?r" using k m(2) by simp
      then show ?thesis by (simp add: minus_mod_eq_mult_div)
    qed
    have "(2 ^ 32 - ?m + i) mod ?n \<noteq> (2 ^ 32 - ?m + k) mod ?n" if "i \<noteq> k"
      using mod_neq_close [of "2 ^ 32 - ?m + i" "2 ^ 32 - ?m + k" ?n] mod_neq_close [of "2 ^ 32 - ?m + k" "2 ^ 32 - ?m + i" ?n]
        that \<open>i < ?m\<close> k(1) m(1) by (cases i k rule: linorder_cases) (auto simp del: mod_eq_0_iff_dvd)
    with zero show ?thesis by metis
  qed
  obtain c where c: "write_bytes (content sg) 0 ?item = Some c"
    using slot_inside [OF cfg, of 0] sz assms(5) by (simp add: write_bytes_def)
  have lenc: "length c = length (content sg)" using c by (auto simp: write_bytes_def split: if_splits)
  let ?sg = "sg\<lparr>content := c, enq_pos := enq_pos sg + 1\<rparr>"
  have off0: "slot_offset g 0 = 0" by (simp add: slot_offset_def)
  have "enqueue_cs g sg buf (unat sz) = Some (SUCCESS, ?sg)"
    using assms(2,5,7) c mq_configD(1,8) [OF cfg] full_iff [OF cfg] off0
    by (simp add: enqueue_cs_def read_bytes_def)
  then have run: "shmmq_enqueue os g sg (Some buf) sz = Some (SUCCESS, ?sg, lock_calls g)"
    by (simp add: shmmq_enqueue_cs [OF assms(3) cfg assms(4)])
  have cfg': "mq_config g ?sg" using cfg by (simp add: mq_config_def lenc)
  have wrap: "no_wrap g sg (Suc i)" "no_wrap g ?sg (Suc i)" if "i < ?m" for i
  proof -
    have "2 ^ 32 - ?m + Suc i \<le> 2 ^ 32" using that m(2) by simp
    then show "no_wrap g sg (Suc i)" "no_wrap g ?sg (Suc i)" by (simp_all add: no_wrap_def start)
  qed
  have fits: "0 + ?s \<le> length (content sg)" using slot_inside [OF cfg, of 0] by simp
  let ?x = "take (unat sz) buf @ drop (unat sz) (mq_items g sg ! k)"
  have at0: "block c 0 ?s = ?x"
    using block_write_same [OF c _ fits] sz assms(5) nth_slot_eq [OF cfg wrap(1) [OF k(1)]] slot [OF k(1)] k(1)
    by (simp add: mq_items_def start)
  have old: "nth_slot g ?sg i = (if i = k then ?x else nth_slot g sg i)" if "i < ?m" for i
  proof (cases "i = k")
    case True
    then show ?thesis using nth_slot_eq [OF cfg' wrap(2) [OF that]] slot [OF that] at0 by (simp add: start)
  next
    case False
    then have "0 < (2 ^ 32 - ?m + i) mod ?n" using slot [OF that] by simp
    then have one: "1 * ?s \<le> (2 ^ 32 - ?m + i) mod ?n * ?s" by (intro mult_le_mono1) simp
    have "0 + length ?item \<le> 1 * ?s" using sz by simp
    from order_trans [OF this one] have "0 + length ?item \<le> (2 ^ 32 - ?m + i) mod ?n * ?s" .
    from block_write_other [OF c disjI2, OF this] False show ?thesis
      using nth_slot_eq [OF cfg' wrap(2) [OF that]] nth_slot_eq [OF cfg wrap(1) [OF that]] by (simp add: start)
  qed
  have new: "nth_slot g ?sg ?m = ?x"
  proof -
    have "deq_pos sg = -1 - of_nat ?m" using enq_pos_eq [of sg] assms(2) by (simp add: eq_diff_eq)
    then have "deq_pos sg + 1 + of_nat ?m = 0" by simp
    then show ?thesis using at0 by (simp add: nth_slot_def off0)
  qed
  have len: "mq_len ?sg = Suc ?m" by (rule mq_len_enq [OF m(2)])
  have itemk: "mq_items g sg ! k = nth_slot g sg k" using k(1) by (simp add: mq_items_def)
  have "mq_items g ?sg = (mq_items g sg)[k := ?x] @ [?x]"
    unfolding itemk unfolding mq_items_def len
    by (rule nth_equalityI) (auto simp: nth_append nth_list_update old [unfolded itemk] new [unfolded itemk] less_Suc_eq)
  with run k(2) show ?thesis by blast
qed

text \<open>Three slots of one byte and one waiting item, in slot 0.\<close>

theorem shmmq_wrap_overwrites_item_witness:
  "\<exists>g sg sg' calls. mq_inv g sg \<and> mq_items g sg = [[7]]
    \<and> shmmq_enqueue os_ok g sg (Some [9]) 1 = Some (SUCCESS, sg', calls)
    \<and> mq_items g sg' = [[9], [9]]"
proof -
  let ?g = "example_globals\<lparr>g_s_mqsize := 3, g_s_itemsize := 1\<rparr>"
  let ?sg = "\<lparr>enq_pos = -1, deq_pos = -2, content = [7, 0, 0]\<rparr>"
  have inv: "mq_inv ?g ?sg"
    by (simp add: mq_inv_def mq_config_def head_live_def example_globals_def slots_def slot_size_def
        DEFAULT_HEAD_SIZE_def mq_len_def no_wrap_def pos_u32)
  have items: "mq_items ?g ?sg = [[7]]"
    by (simp add: mq_items_def nth_slot_def mq_len_def block_def slot_offset_def slot_size_def
        example_globals_def)
  have "size_ok ?g 1" by (simp add: size_ok_def word_sless_alt)
  moreover have "(2 ^ 32 - 1) mod slots ?g < mq_len ?sg" "mq_len ?sg < slots ?g - 1"
    by (simp_all add: slots_def mq_len_def)
  ultimately obtain sg' calls x k where r: "shmmq_enqueue os_ok ?g ?sg (Some [9]) 1 = Some (SUCCESS, sg', calls)"
    "k + (2 ^ 32 - 1) mod slots ?g + 1 = mq_len ?sg"
    "x = take (unat (1 :: u32)) [9] @ drop (unat (1 :: u32)) (mq_items ?g ?sg ! k)"
    "mq_items ?g sg' = (mq_items ?g ?sg)[k := x] @ [x]"
    using shmmq_wrap_overwrites_item [OF inv _ os_ok_sem_ok, of 1 "[9]"] by auto
  then have "k = 0" by (simp add: slots_def mq_len_def)
  with r items have "mq_items ?g sg' = [[9], [9]]" by simp
  with inv items r(1) show ?thesis by blast
qed

text \<open>
  \<open>shmmq_clear\<close> never changes the segment, whatever the search function answers: the
  position it computes is only range-checked, never stored, so no overdue item is ever removed.
\<close>
theorem shmmq_clear_removes_nothing:
  assumes "shmmq_clear os g sg sf = Some (ret, sg', calls)"
  shows "sg' = sg \<and> mq_items g sg' = mq_items g sg"
  using assms by (auto simp: shmmq_clear_def Let_def split: option.splits if_splits prod.splits)

theorem shmmq_clear_removes_nothing_witness:
  "\<exists>sg'. shmmq_clear os_ok example_globals example_segment1 (Some (\<lambda>b e. e))
      = Some (SUCCESS, sg', lock_calls example_globals)
    \<and> mq_items example_globals sg' = [[7, 9]]"
proof -
  obtain sg' where run: "shmmq_clear os_ok example_globals example_segment1 (Some (\<lambda>b e. e))
      = Some (SUCCESS, sg', lock_calls example_globals)"
    by (simp add: shmmq_clear_def os_ok_def semaphore_p_def semaphore_v_def head_live_def
        example_globals_def example_segment1_def DEFAULT_HEAD_SIZE_def word_sle_eq)
  with shmmq_clear_removes_nothing [OF run] show ?thesis by (simp add: example_items1)
qed

end
