(* ===== verification/Simulation.thy ===== *)
theory Simulation
  imports Prelude
begin

text \<open>
  Runs of labelled step relations, and the contract under which one relation refines
  another: a forward simulation on the labels that the environment may choose.
\<close>

inductive run :: "('s \<Rightarrow> 'l \<Rightarrow> 's \<Rightarrow> bool) \<Rightarrow> 's \<Rightarrow> 'l list \<Rightarrow> 's \<Rightarrow> bool" for stp where
  run_Nil: "run stp s [] s"
| run_snoc: "run stp s ls t \<Longrightarrow> stp t l u \<Longrightarrow> run stp s (ls @ [l]) u"

inductive_cases run_NilE: "run stp s [] t"

lemma run_invariant:
  assumes "run stp s ls t" and "I s" "\<forall>l \<in> set ls. good l"
    and "\<And>s l t. I s \<Longrightarrow> good l \<Longrightarrow> stp s l t \<Longrightarrow> I t"
  shows "I t"
  using assms(1,2,3) by (induction rule: run.induct) (auto intro: assms(4))

text \<open>A run as a function, for steps that are functions of the label.\<close>

fun run_fun :: "('l \<Rightarrow> 's \<Rightarrow> 's option) \<Rightarrow> 'l list \<Rightarrow> 's \<Rightarrow> 's option" where
  "run_fun f [] s = Some s"
| "run_fun f (l # ls) s = (case f l s of None \<Rightarrow> None | Some t \<Rightarrow> run_fun f ls t)"

lemma run_fun_append:
  "run_fun f (ls @ ms) s = (case run_fun f ls s of None \<Rightarrow> None | Some t \<Rightarrow> run_fun f ms t)"
  by (induction ls arbitrary: s) (auto split: option.splits)

lemma run_iff_fun: "run (\<lambda>s l t. f l s = Some t) s ls t \<longleftrightarrow> run_fun f ls s = Some t"
proof
  show "run (\<lambda>s l t. f l s = Some t) s ls t \<Longrightarrow> run_fun f ls s = Some t"
    by (induction rule: run.induct) (auto simp: run_fun_append)
  show "run_fun f ls s = Some t \<Longrightarrow> run (\<lambda>s l t. f l s = Some t) s ls t"
    by (induction ls arbitrary: t rule: rev_induct)
      (auto simp: run_fun_append intro: run.intros split: option.splits)
qed

locale forward_simulation =
  fixes cstep :: "'c \<Rightarrow> 'l \<Rightarrow> 'c \<Rightarrow> bool"
    and astep :: "'a \<Rightarrow> 'l \<Rightarrow> 'a \<Rightarrow> bool"
    and rel :: "'c \<Rightarrow> 'a \<Rightarrow> bool"
    and good :: "'l \<Rightarrow> bool"
  assumes simulate: "rel c a \<Longrightarrow> good l \<Longrightarrow> cstep c l c' \<Longrightarrow> \<exists>a'. astep a l a' \<and> rel c' a'"
begin

lemma run_simulated:
  assumes "run cstep c ls c'" "rel c a" "\<forall>l \<in> set ls. good l"
  shows "\<exists>a'. run astep a ls a' \<and> rel c' a'"
  using assms
proof (induction rule: run.induct)
  case (run_Nil s)
  then show ?case by (blast intro: run.run_Nil)
next
  case (run_snoc s ls t l u)
  then obtain b where b: "run astep a ls b" "rel t b" by auto
  moreover obtain a' where "astep b l a'" "rel u a'"
    using simulate [OF b(2) _ run_snoc.hyps(2)] run_snoc.prems by auto
  ultimately show ?case by (blast intro: run.run_snoc)
qed

end

end
