(* ===== verification/Shmmq_Procs.thy ===== *)
theory Shmmq_Procs
  imports Shmmq_Queue Simulation
begin

text \<open>
  The processes of \<open>shmmq/shmmq.c\<close> running at the same time: the operations are cut into their
  C statements, which any scheduler may interleave, and the only synchronisation is the
  semaphore of \<open>semutil.c\<close>. A process may die at every statement.

  The kernel's semaphore is a parameter (\<open>kernel\<close>); \<open>kernel_ok\<close> states what \<open>semop(2)\<close> and
  \<open>semctl(2)\<close> document. The specification is a list that every call changes at most once, at
  one moment between its start and its return.
\<close>

section \<open>The semaphore\<close>

text \<open>
  The calls of the kernel on the one semaphore: the process that makes the call, \<open>sem_op\<close>, \<open>sem_flg\<close> and
  the kernel's state; \<open>None\<close> blocks. \<open>k_exit\<close> is what the kernel does when a process ends.
  \<open>sem_val\<close> (\<open>None\<close> after \<open>IPC_RMID\<close>) and \<open>sem_adj\<close>, the adjustments that operations with the flag
  \<open>SEM_UNDO\<close> collect, observe the state. The failures of \<open>semop\<close> for other reasons than a removed
  semaphore (a signal that is caught, no memory for the adjustments) are left out.
\<close>

record 'k kernel =
  k_semop :: "nat \<Rightarrow> int \<Rightarrow> int \<Rightarrow> 'k \<Rightarrow> (int \<times> 'k) option"
  k_setval :: "int \<Rightarrow> 'k \<Rightarrow> int \<times> 'k"
  k_rmid :: "'k \<Rightarrow> int \<times> 'k"
  k_exit :: "nat \<Rightarrow> 'k \<Rightarrow> 'k"
  sem_val :: "'k \<Rightarrow> int option"
  sem_adj :: "'k \<Rightarrow> nat \<Rightarrow> int"

definition semop_ok :: "'k kernel \<Rightarrow> bool" where
  "semop_ok K \<longleftrightarrow>
     (\<forall>k i d f. f \<in> {0, SEM_UNDO} \<longrightarrow> sem_val K k = None \<longrightarrow> k_semop K i d f k = Some (-1, k))
   \<and> (\<forall>k i d f v. f \<in> {0, SEM_UNDO} \<longrightarrow> sem_val K k = Some v \<and> v + d < 0 \<longrightarrow> k_semop K i d f k = None)
   \<and> (\<forall>k i d f v. f \<in> {0, SEM_UNDO} \<longrightarrow> sem_val K k = Some v \<and> 0 \<le> v + d \<and> v + d < 32768 \<longrightarrow>
        (\<exists>k'. k_semop K i d f k = Some (0, k') \<and> sem_val K k' = Some (v + d)
           \<and> sem_adj K k' = (if f = SEM_UNDO then (sem_adj K k)(i := sem_adj K k i - d) else sem_adj K k)))"

definition exit_ok :: "'k kernel \<Rightarrow> bool" where
  "exit_ok K \<longleftrightarrow>
     (\<forall>k i. sem_val K k = None \<longrightarrow> sem_val K (k_exit K i k) = None)
   \<and> (\<forall>k i v. sem_val K k = Some v \<and> 0 \<le> v + sem_adj K k i \<and> v + sem_adj K k i < 32768 \<longrightarrow>
        sem_val K (k_exit K i k) = Some (v + sem_adj K k i)
        \<and> sem_adj K (k_exit K i k) = (sem_adj K k)(i := 0))"

definition semctl_ok :: "'k kernel \<Rightarrow> bool" where
  "semctl_ok K \<longleftrightarrow>
     (\<forall>k. sem_val K (snd (k_rmid K k)) = None)
   \<and> (\<forall>k v. sem_val K k \<noteq> None \<and> 0 \<le> v \<and> v < 32768 \<longrightarrow>
        fst (k_setval K v k) = 0 \<and> sem_val K (snd (k_setval K v k)) = Some v
        \<and> sem_adj K (snd (k_setval K v k)) = (\<lambda>_. 0))"

definition kernel_ok :: "'k kernel \<Rightarrow> bool" where
  "kernel_ok K \<longleftrightarrow> semop_ok K \<and> exit_ok K \<and> semctl_ok K"

text \<open>The wrappers of \<open>semutil.c\<close> on the shared kernel state.\<close>

definition proc_p :: "'k kernel \<Rightarrow> nat \<Rightarrow> 'k \<Rightarrow> (int \<times> 'k) option" where
  "proc_p K i k = map_option (apfst (\<lambda>r. if r = -1 then -1 else 0)) (k_semop K i (-1) SEM_UNDO k)"

definition proc_v :: "'k kernel \<Rightarrow> nat \<Rightarrow> 'k \<Rightarrow> (int \<times> 'k) option" where
  "proc_v K i k = map_option (apfst (\<lambda>r. if r = -1 then -1 else 0)) (k_semop K i 1 SEM_UNDO k)"

definition proc_setval :: "'k kernel \<Rightarrow> 'k \<Rightarrow> int \<times> 'k" where
  "proc_setval K k = apfst (\<lambda>r. if r = -1 then -1 else 0) (k_setval K 1 k)"

section \<open>Processes\<close>

datatype qop =
    Op_enqueue "bytes option" u32
  | Op_dequeue "bytes option" u32
  | Op_clear "(u32 \<Rightarrow> u32 \<Rightarrow> u32) option"
  | Op_open bool

text \<open>
  Where a process is: the statement that it executes next, with the values of the arguments
  and of the local variables. \<open>Ret\<close> is about to return a code and the caller's buffer.
\<close>

datatype pc =
    Idle
  | Enq_args "bytes option" u32 | Enq_p bytes u32 | Enq_test bytes u32 | Enq_pos bytes u32
  | Enq_copy bytes u32 u32 | Enq_incr bytes u32 | Enq_v bytes mq_ret
  | Deq_args "bytes option" u32 | Deq_p bytes u32 | Deq_test bytes u32 | Deq_pos bytes u32
  | Deq_copy bytes u32 u32 | Deq_incr bytes u32 | Deq_v bytes mq_ret
  | Clr_args "(u32 \<Rightarrow> u32 \<Rightarrow> u32) option" | Clr_p "u32 \<Rightarrow> u32 \<Rightarrow> u32" | Clr_search "u32 \<Rightarrow> u32 \<Rightarrow> u32" | Clr_v mq_ret
  | Open_set | Open_p bool | Open_attach bool | Open_v
  | Ret mq_ret "bytes option"
  | Closed
  | Gone

definition entry :: "qop \<Rightarrow> pc" where
  "entry op = (case op of
     Op_enqueue item sz \<Rightarrow> Enq_args item sz
   | Op_dequeue item sz \<Rightarrow> Deq_args item sz
   | Op_clear sf \<Rightarrow> Clr_args sf
   | Op_open iscreated \<Rightarrow> if iscreated then Open_set else Open_p False)"

text \<open>The statements between a semaphore operation that locks and the one that unlocks.\<close>

fun in_cs :: "pc \<Rightarrow> bool" where
  "in_cs (Enq_test buf sz) = True"
| "in_cs (Enq_pos buf sz) = True"
| "in_cs (Enq_copy buf sz pos) = True"
| "in_cs (Enq_incr buf sz) = True"
| "in_cs (Enq_v buf r) = True"
| "in_cs (Deq_test buf sz) = True"
| "in_cs (Deq_pos buf sz) = True"
| "in_cs (Deq_copy buf sz pos) = True"
| "in_cs (Deq_incr buf sz) = True"
| "in_cs (Deq_v buf r) = True"
| "in_cs (Clr_search f) = True"
| "in_cs (Clr_v r) = True"
| "in_cs (Open_attach c) = True"
| "in_cs Open_v = True"
| "in_cs p = False"

datatype 'k reaction = Blocked | Undefined | Goes pc 'k segment

definition after_p :: "(int \<times> 'k) option \<Rightarrow> pc \<Rightarrow> bytes option \<Rightarrow> segment \<Rightarrow> 'k reaction" where
  "after_p x p buf sg = (case x of
     None \<Rightarrow> Blocked
   | Some (r, k) \<Rightarrow> Goes (if r = -1 then Ret ERROR_SEMAPHORE_P buf else p) k sg)"

definition after_v :: "(int \<times> 'k) option \<Rightarrow> mq_ret \<Rightarrow> bytes option \<Rightarrow> segment \<Rightarrow> 'k reaction" where
  "after_v x ret buf sg = (case x of
     None \<Rightarrow> Blocked
   | Some (r, k) \<Rightarrow> Goes (Ret (if r = -1 then ERROR_SEMAPHORE_V else ret) buf) k sg)"

text \<open>
  One statement of process \<open>i\<close> with the globals \<open>g\<close>. The globals are those after the
  process has opened the queue; attaching the segment again, as \<open>shmmq_open\<close> does in its
  critical section, succeeds and changes the shared state for the creator only.
\<close>

fun stmt :: "'k kernel \<Rightarrow> globals \<Rightarrow> nat \<Rightarrow> pc \<Rightarrow> 'k \<Rightarrow> segment \<Rightarrow> 'k reaction" where
  "stmt K g i (Enq_args item sz) k sg =
     (case item of
        None \<Rightarrow> Goes (Ret ERROR_INVALID_ARGUMENT None) k sg
      | Some buf \<Rightarrow>
          Goes (if sz \<le>s 0 \<or> g_s_itemsize g <s sz then Ret ERROR_INVALID_ARGUMENT item else Enq_p buf sz) k sg)"
| "stmt K g i (Enq_p buf sz) k sg = after_p (proc_p K i k) (Enq_test buf sz) (Some buf) sg"
| "stmt K g i (Enq_test buf sz) k sg =
     (if \<not> head_live g then Undefined
      else if deq_pos sg + g_s_mqsize g - 1 = enq_pos sg then Goes (Enq_v buf ERROR_MSGQUEUE_FULL) k sg
      else Goes (Enq_pos buf sz) k sg)"
| "stmt K g i (Enq_pos buf sz) k sg =
     (if \<not> head_live g \<or> g_s_mqsize g = 0 then Undefined
      else Goes (Enq_copy buf sz ((enq_pos sg + 1) mod g_s_mqsize g)) k sg)"
| "stmt K g i (Enq_copy buf sz pos) k sg =
     (case do {
        src \<leftarrow> read_bytes buf 0 (unat sz);
        write_bytes (content sg) (unat (pos * g_s_itemsize g)) src
      } of None \<Rightarrow> Undefined | Some c \<Rightarrow> Goes (Enq_incr buf sz) k (sg\<lparr>content := c\<rparr>))"
| "stmt K g i (Enq_incr buf sz) k sg = Goes (Enq_v buf SUCCESS) k (sg\<lparr>enq_pos := enq_pos sg + 1\<rparr>)"
| "stmt K g i (Enq_v buf ret) k sg = after_v (proc_v K i k) ret (Some buf) sg"
| "stmt K g i (Deq_args item sz) k sg =
     (case item of
        None \<Rightarrow> Goes (Ret ERROR_INVALID_ARGUMENT None) k sg
      | Some buf \<Rightarrow>
          Goes (if sz \<le>s 0 \<or> g_s_itemsize g <s sz then Ret ERROR_INVALID_ARGUMENT item else Deq_p buf sz) k sg)"
| "stmt K g i (Deq_p buf sz) k sg = after_p (proc_p K i k) (Deq_test buf sz) (Some buf) sg"
| "stmt K g i (Deq_test buf sz) k sg =
     (if \<not> head_live g then Undefined
      else if enq_pos sg = deq_pos sg then Goes (Deq_v buf ERROR_MSGQUEUE_FULL) k sg
      else Goes (Deq_pos buf sz) k sg)"
| "stmt K g i (Deq_pos buf sz) k sg =
     (if \<not> head_live g \<or> g_s_mqsize g = 0 then Undefined
      else Goes (Deq_copy buf sz ((deq_pos sg + 1) mod g_s_mqsize g)) k sg)"
| "stmt K g i (Deq_copy buf sz pos) k sg =
     (case do {
        x \<leftarrow> read_bytes (content sg) (unat (pos * g_s_itemsize g)) (unat sz);
        write_bytes buf 0 x
      } of None \<Rightarrow> Undefined | Some buf' \<Rightarrow> Goes (Deq_incr buf' sz) k sg)"
| "stmt K g i (Deq_incr buf sz) k sg = Goes (Deq_v buf SUCCESS) k (sg\<lparr>deq_pos := deq_pos sg + 1\<rparr>)"
| "stmt K g i (Deq_v buf ret) k sg = after_v (proc_v K i k) ret (Some buf) sg"
| "stmt K g i (Clr_args sf) k sg =
     (case sf of None \<Rightarrow> Goes (Ret ERROR_INVALID_ARGUMENT None) k sg | Some f \<Rightarrow> Goes (Clr_p f) k sg)"
| "stmt K g i (Clr_p f) k sg = after_p (proc_p K i k) (Clr_search f) None sg"
| "stmt K g i (Clr_search f) k sg =
     (if \<not> head_live g \<or> g_s_mqsize g = 0 then Undefined
      else let b = f (deq_pos sg mod g_s_mqsize g) (enq_pos sg mod g_s_mqsize g)
           in Goes (Clr_v (if b <s 0 \<or> g_s_mqsize g \<le>s b then ERROR_INVALID_ARGUMENT else SUCCESS)) k sg)"
| "stmt K g i (Clr_v ret) k sg = after_v (proc_v K i k) ret None sg"
| "stmt K g i Open_set k sg =
     (case proc_setval K k of (r, k') \<Rightarrow>
        Goes (if r = -1 then Ret ERROR_SET_SEMVALUE None else Open_p True) k' sg)"
| "stmt K g i (Open_p iscreated) k sg = after_p (proc_p K i k) (Open_attach iscreated) None sg"
| "stmt K g i (Open_attach iscreated) k sg =
     Goes Open_v k (if iscreated then sg\<lparr>enq_pos := -1, deq_pos := -1\<rparr> else sg)"
| "stmt K g i Open_v k sg = after_v (proc_v K i k) SUCCESS None sg"
| "stmt K g i p k sg = Blocked"

text \<open>
  The processes, their kernel and their segment. A label is what one step does: process \<open>i\<close>
  calls an operation, executes a statement, returns from the call, closes the queue or dies.

  A process that dies in its \<open>memcpy\<close> into the segment has written some of the bytes, in an order that nobody
  knows: \<open>dn j\<close> tells whether it has written the byte \<open>j\<close>. The stores to the two positions are whole.
\<close>

definition torn :: "globals \<Rightarrow> (nat \<Rightarrow> bool) \<Rightarrow> pc \<Rightarrow> segment \<Rightarrow> segment" where
  "torn g dn p sg = (case p of
     Enq_copy buf sz pos \<Rightarrow>
       (case do {
          src \<leftarrow> read_bytes buf 0 (unat sz);
          old \<leftarrow> read_bytes (content sg) (unat (pos * g_s_itemsize g)) (unat sz);
          write_bytes (content sg) (unat (pos * g_s_itemsize g))
            (map (\<lambda>j. if dn j then src ! j else old ! j) [0..<unat sz])
        } of None \<Rightarrow> sg | Some c \<Rightarrow> sg\<lparr>content := c\<rparr>)
   | _ \<Rightarrow> sg)"

record 'k world =
  kern :: 'k
  seg :: segment
  pc :: "nat \<Rightarrow> pc"

datatype label =
    Call nat qop | Tau nat | Return nat mq_ret "bytes option" | Close nat bool | Exit nat "nat \<Rightarrow> bool"

fun act :: "'k kernel \<Rightarrow> (nat \<Rightarrow> globals) \<Rightarrow> label \<Rightarrow> 'k world \<Rightarrow> 'k world option" where
  "act K G (Call i op) w =
     (if pc w i = Idle then Some (w\<lparr>pc := (pc w)(i := entry op)\<rparr>) else None)"
| "act K G (Tau i) w =
     (case stmt K (G i) i (pc w i) (kern w) (seg w) of
        Goes p k sg \<Rightarrow> Some (w\<lparr>kern := k, seg := sg, pc := (pc w)(i := p)\<rparr>)
      | _ \<Rightarrow> None)"
| "act K G (Return i r b) w =
     (if pc w i = Ret r b then Some (w\<lparr>pc := (pc w)(i := Idle)\<rparr>) else None)"
| "act K G (Close i isdestroyed) w =
     (if pc w i = Idle
      then Some (w\<lparr>kern := (if isdestroyed then snd (k_rmid K (kern w)) else kern w), pc := (pc w)(i := Closed)\<rparr>)
      else None)"
| "act K G (Exit i dn) w =
     (if pc w i = Gone then None
      else Some (w\<lparr>kern := k_exit K i (kern w), seg := torn (G i) dn (pc w i) (seg w), pc := (pc w)(i := Gone)\<rparr>))"

abbreviation wstep :: "'k kernel \<Rightarrow> (nat \<Rightarrow> globals) \<Rightarrow> 'k world \<Rightarrow> label \<Rightarrow> 'k world \<Rightarrow> bool" where
  "wstep K G w l w' \<equiv> act K G l w = Some w'"

section \<open>Specification\<close>

text \<open>
  A list of items and what each process waits for. \<open>effect\<close> is what a call does to the list, in
  one moment: the queue decides once, at some moment between call and return. After the
  semaphore is removed (\<open>broken\<close>) a call may fail without an effect, and a call that has had
  its effect may fail to unlock.
\<close>

datatype status = S_idle | S_called qop | S_done mq_ret "bytes option" | S_closed | S_gone

record spec =
  queue :: "bytes list"
  broken :: bool
  status :: "nat \<Rightarrow> status"

inductive effect :: "globals \<Rightarrow> qop \<Rightarrow> bytes list \<Rightarrow> mq_ret \<Rightarrow> bytes option \<Rightarrow> bytes list \<Rightarrow> bool"
  for g :: globals where
  enq_null: "effect g (Op_enqueue None sz) xs ERROR_INVALID_ARGUMENT None xs"
| enq_size: "\<not> size_ok g sz \<Longrightarrow> effect g (Op_enqueue (Some buf) sz) xs ERROR_INVALID_ARGUMENT (Some buf) xs"
| enq_full: "size_ok g sz \<Longrightarrow> length xs = slots g - 1 \<Longrightarrow>
    effect g (Op_enqueue (Some buf) sz) xs ERROR_MSGQUEUE_FULL (Some buf) xs"
| enq_room: "size_ok g sz \<Longrightarrow> length xs < slots g - 1 \<Longrightarrow> unat sz \<le> length buf \<Longrightarrow>
    length x = slot_size g \<Longrightarrow> take (unat sz) x = take (unat sz) buf \<Longrightarrow>
    effect g (Op_enqueue (Some buf) sz) xs SUCCESS (Some buf) (xs @ [x])"
| deq_null: "effect g (Op_dequeue None sz) xs ERROR_INVALID_ARGUMENT None xs"
| deq_size: "\<not> size_ok g sz \<Longrightarrow> effect g (Op_dequeue (Some buf) sz) xs ERROR_INVALID_ARGUMENT (Some buf) xs"
| deq_empty: "size_ok g sz \<Longrightarrow> effect g (Op_dequeue (Some buf) sz) [] ERROR_MSGQUEUE_FULL (Some buf) []"
| deq_first: "size_ok g sz \<Longrightarrow> unat sz \<le> length buf \<Longrightarrow>
    effect g (Op_dequeue (Some buf) sz) (x # xs) SUCCESS (Some (take (unat sz) x @ drop (unat sz) buf)) xs"
| clear_null: "effect g (Op_clear None) xs ERROR_INVALID_ARGUMENT None xs"
| clear_found: "effect g (Op_clear (Some f)) xs SUCCESS None xs"
| clear_outside: "effect g (Op_clear (Some f)) xs ERROR_INVALID_ARGUMENT None xs"
| opened: "effect g (Op_open False) xs SUCCESS None xs"

definition call_buffer :: "qop \<Rightarrow> bytes option" where
  "call_buffer op = (case op of Op_enqueue b _ \<Rightarrow> b | Op_dequeue b _ \<Rightarrow> b | _ \<Rightarrow> None)"

inductive sstep :: "globals \<Rightarrow> spec \<Rightarrow> label \<Rightarrow> spec \<Rightarrow> bool" for g :: globals where
  s_call: "status s i = S_idle \<Longrightarrow> sstep g s (Call i op) (s\<lparr>status := (status s)(i := S_called op)\<rparr>)"
| s_stutter: "sstep g s (Tau i) s"
| s_effect: "status s i = S_called op \<Longrightarrow> effect g op (queue s) r b xs \<Longrightarrow>
    sstep g s (Tau i) (s\<lparr>queue := xs, status := (status s)(i := S_done r b)\<rparr>)"
| s_no_lock: "status s i = S_called op \<Longrightarrow> broken s \<Longrightarrow>
    sstep g s (Tau i) (s\<lparr>status := (status s)(i := S_done ERROR_SEMAPHORE_P (call_buffer op))\<rparr>)"
| s_no_unlock: "status s i = S_done r b \<Longrightarrow> broken s \<Longrightarrow>
    sstep g s (Tau i) (s\<lparr>status := (status s)(i := S_done ERROR_SEMAPHORE_V b)\<rparr>)"
| s_return: "status s i = S_done r b \<Longrightarrow> sstep g s (Return i r b) (s\<lparr>status := (status s)(i := S_idle)\<rparr>)"
| s_close: "status s i = S_idle \<Longrightarrow>
    sstep g s (Close i d) (s\<lparr>broken := (d \<or> broken s), status := (status s)(i := S_closed)\<rparr>)"
| s_exit: "status s i \<noteq> S_gone \<Longrightarrow> sstep g s (Exit i dn) (s\<lparr>status := (status s)(i := S_gone)\<rparr>)"

end
