(* ===== verification/Shmmq_Procs_Inv.thy ===== *)
theory Shmmq_Procs_Inv
  imports Shmmq_Procs
begin

text \<open>
  The invariant of the processes of \<open>Shmmq_Procs\<close>, in three parts: the semaphore counts the
  process in its critical section, every local variable of a critical section fits the
  segment, and every process stands where the specification thinks it stands. Each part is
  kept by every statement; the simulation follows.
\<close>

section \<open>What a statement does to the semaphore\<close>

lemma semop_undo:
  assumes "kernel_ok K"
  shows "sem_val K k = None \<Longrightarrow> k_semop K i d SEM_UNDO k = Some (-1, k)"
    and "sem_val K k = Some v \<Longrightarrow> v + d < 0 \<Longrightarrow> k_semop K i d SEM_UNDO k = None"
    and "sem_val K k = Some v \<Longrightarrow> 0 \<le> v + d \<Longrightarrow> v + d < 32768 \<Longrightarrow>
      \<exists>k'. k_semop K i d SEM_UNDO k = Some (0, k') \<and> sem_val K k' = Some (v + d)
        \<and> sem_adj K k' = (sem_adj K k)(i := sem_adj K k i - d)"
proof -
  note ok = assms [unfolded kernel_ok_def semop_ok_def, THEN conjunct1]
  show "sem_val K k = None \<Longrightarrow> k_semop K i d SEM_UNDO k = Some (-1, k)"
    using ok [THEN conjunct1, rule_format, of SEM_UNDO k i d] by simp
  show "sem_val K k = Some v \<Longrightarrow> v + d < 0 \<Longrightarrow> k_semop K i d SEM_UNDO k = None"
    using ok [THEN conjunct2, THEN conjunct1, rule_format, of SEM_UNDO k v d i] by simp
  show "sem_val K k = Some v \<Longrightarrow> 0 \<le> v + d \<Longrightarrow> v + d < 32768 \<Longrightarrow>
      \<exists>k'. k_semop K i d SEM_UNDO k = Some (0, k') \<and> sem_val K k' = Some (v + d)
        \<and> sem_adj K k' = (sem_adj K k)(i := sem_adj K k i - d)"
    using ok [THEN conjunct2, THEN conjunct2, rule_format, of SEM_UNDO k v d i] by simp
qed

lemma proc_semop:
  assumes "kernel_ok K" "sem_val K k = Some v" "0 \<le> v + d" "v + d < 32768"
  obtains k' where "k_semop K i d SEM_UNDO k = Some (0, k')" "sem_val K k' = Some (v + d)"
    "sem_adj K k' = (sem_adj K k)(i := sem_adj K k i - d)"
  using semop_undo(3) [OF assms, of i] by blast

lemma proc_p_cases:
  assumes "kernel_ok K" "\<forall>v. sem_val K k = Some v \<longrightarrow> v \<le> 1"
  obtains "sem_val K k = None" "proc_p K i k = Some (-1, k)"
  | v where "sem_val K k = Some v" "v \<le> 0" "proc_p K i k = None"
  | v k' where "sem_val K k = Some v" "0 < v" "proc_p K i k = Some (0, k')" "sem_val K k' = Some (v - 1)"
      "sem_adj K k' = (sem_adj K k)(i := sem_adj K k i + 1)"
proof (cases "sem_val K k")
  case None
  from semop_undo(1) [OF assms(1) this] have "k_semop K i (-1) SEM_UNDO k = Some (-1, k)" .
  with None that(1) show ?thesis by (simp add: proc_p_def)
next
  case (Some v)
  show ?thesis
  proof (cases "v \<le> 0")
    case True
    then have "v + -1 < 0" by simp
    from semop_undo(2) [OF assms(1) Some this] have "k_semop K i (-1) SEM_UNDO k = None" .
    with Some True that(2) show ?thesis by (simp add: proc_p_def)
  next
    case False
    then have "0 \<le> v + -1" "v + -1 < 32768" using assms(2) Some by auto
    from proc_semop [OF assms(1) Some this] obtain k' where
      "k_semop K i (-1) SEM_UNDO k = Some (0, k')" "sem_val K k' = Some (v + -1)"
      "sem_adj K k' = (sem_adj K k)(i := sem_adj K k i - -1)" .
    with Some False that(3) show ?thesis by (simp add: proc_p_def)
  qed
qed

lemma proc_v_cases:
  assumes "kernel_ok K" "\<forall>v. sem_val K k = Some v \<longrightarrow> v = 0"
  obtains "sem_val K k = None" "proc_v K i k = Some (-1, k)"
  | k' where "sem_val K k = Some 0" "proc_v K i k = Some (0, k')" "sem_val K k' = Some 1"
      "sem_adj K k' = (sem_adj K k)(i := sem_adj K k i - 1)"
proof (cases "sem_val K k")
  case None
  from semop_undo(1) [OF assms(1) this] have "k_semop K i 1 SEM_UNDO k = Some (-1, k)" .
  with None that(1) show ?thesis by (simp add: proc_v_def)
next
  case (Some v)
  with assms(2) have "sem_val K k = Some 0" by simp
  moreover obtain k' where "k_semop K i 1 SEM_UNDO k = Some (0, k')" "sem_val K k' = Some (0 + 1)"
    "sem_adj K k' = (sem_adj K k)(i := sem_adj K k i - 1)"
    using proc_semop [OF assms(1) \<open>sem_val K k = Some 0\<close>, of 1 i] by auto
  ultimately show ?thesis using that(2) by (simp add: proc_v_def)
qed

lemma proc_exit:
  assumes "kernel_ok K" "sem_val K k = Some v" "0 \<le> v + sem_adj K k i" "v + sem_adj K k i < 32768"
  shows "sem_val K (k_exit K i k) = Some (v + sem_adj K k i)"
    "sem_adj K (k_exit K i k) = (sem_adj K k)(i := 0)"
  using assms unfolding kernel_ok_def exit_ok_def by blast+

section \<open>The lock\<close>

definition lock_inv :: "'k kernel \<Rightarrow> 'k \<Rightarrow> (nat \<Rightarrow> pc) \<Rightarrow> bool" where
  "lock_inv K k p \<longleftrightarrow>
     (\<forall>i j. in_cs (p i) \<longrightarrow> in_cs (p j) \<longrightarrow> i = j)
   \<and> (\<forall>v. sem_val K k = Some v \<longrightarrow>
        v = (if \<exists>i. in_cs (p i) then 0 else 1)
        \<and> sem_adj K k = (\<lambda>i. if in_cs (p i) then 1 else 0))"

lemma lock_invD:
  assumes "lock_inv K k p"
  shows "in_cs (p i) \<Longrightarrow> in_cs (p j) \<Longrightarrow> i = j"
    and "sem_val K k = Some v \<Longrightarrow> in_cs (p i) \<Longrightarrow> v = 0"
    and "sem_val K k = Some v \<Longrightarrow> 0 < v \<Longrightarrow> \<not> in_cs (p i)"
    and "sem_val K k = Some v \<Longrightarrow> v \<le> 0 \<Longrightarrow> \<exists>j. in_cs (p j)"
    and "sem_val K k = Some v \<Longrightarrow> 0 \<le> v \<and> v \<le> 1"
    and "sem_val K k = Some v \<Longrightarrow> sem_adj K k = (\<lambda>i. if in_cs (p i) then 1 else 0)"
  using assms unfolding lock_inv_def by (auto split: if_splits)

text \<open>The four ways in which a process moves: inside or outside, in, out, and away.\<close>

lemma lock_inv_same:
  assumes "lock_inv K k p" "in_cs q \<longleftrightarrow> in_cs (p i)"
  shows "lock_inv K k (p(i := q))"
proof -
  have "in_cs ((p(i := q)) j) \<longleftrightarrow> in_cs (p j)" for j using assms(2) by simp
  then show ?thesis using assms(1) unfolding lock_inv_def by simp
qed

lemma lock_inv_enter:
  assumes "lock_inv K k p" "sem_val K k = Some v" "0 < v"
    and "sem_val K k' = Some (v - 1)" "sem_adj K k' = (sem_adj K k)(i := sem_adj K k i + 1)" "in_cs q"
  shows "lock_inv K k' (p(i := q))"
proof -
  have out: "\<not> in_cs (p j)" for j using lock_invD(3) [OF assms(1-3)] .
  have "v = 1" using lock_invD(5) [OF assms(1,2)] assms(3) by simp
  moreover have "sem_adj K k = (\<lambda>_. 0)" using lock_invD(6) [OF assms(1,2)] out by simp
  ultimately show ?thesis using assms(4-6) out unfolding lock_inv_def by (auto simp: fun_eq_iff)
qed

lemma lock_inv_leave:
  assumes "lock_inv K k p" "sem_val K k = Some 0" "in_cs (p i)"
    and "sem_val K k' = Some 1" "sem_adj K k' = (sem_adj K k)(i := 0)" "\<not> in_cs q"
  shows "lock_inv K k' (p(i := q))"
proof -
  have "\<not> in_cs ((p(i := q)) j)" for j
    using lock_invD(1) [OF assms(1) assms(3), of j] assms(6) by auto
  moreover have "sem_adj K k' = (\<lambda>_. 0)"
    using lock_invD(6) [OF assms(1,2)] lock_invD(1) [OF assms(1) assms(3)] assms(5)
    by (auto simp: fun_eq_iff)
  ultimately show ?thesis using assms(4) unfolding lock_inv_def by (auto simp: fun_eq_iff)
qed

lemma lock_inv_removed:
  assumes "lock_inv K k p" "sem_val K k' = None" "in_cs q \<Longrightarrow> in_cs (p i)"
  shows "lock_inv K k' (p(i := q))"
  using assms unfolding lock_inv_def by (auto split: if_splits)

lemma lock_inv_stmt:
  assumes K: "kernel_ok K" and inv: "lock_inv K k p" and ne: "p i \<noteq> Open_set"
    and go: "stmt K g i (p i) k sg = Goes q k' sg'"
  shows "lock_inv K k' (p(i := q))"
proof -
  have stay: ?thesis if "k' = k" "in_cs q = in_cs (p i)"
    using that lock_inv_same [OF inv] by simp
  have enter: ?thesis if "after_p (proc_p K i k) r b sg = Goes q k' sg'" "\<not> in_cs (p i)" "in_cs r" for r b
    using K
  proof (rule proc_p_cases [where k = k and i = i])
    show "\<forall>v. sem_val K k = Some v \<longrightarrow> v \<le> 1" using lock_invD(5) [OF inv] by blast
  next
    assume "sem_val K k = None" "proc_p K i k = Some (- 1, k)"
    with that show ?thesis by (intro stay) (auto simp: after_p_def)
  next
    fix v k'' assume "sem_val K k = Some v" "0 < v" "proc_p K i k = Some (0, k'')"
      "sem_val K k'' = Some (v - 1)" "sem_adj K k'' = (sem_adj K k)(i := sem_adj K k i + 1)"
    with that show ?thesis using lock_inv_enter [OF inv] by (auto simp: after_p_def)
  qed (use that in \<open>simp add: after_p_def\<close>)
  have leave: ?thesis if "after_v (proc_v K i k) r b sg = Goes q k' sg'" "in_cs (p i)" for r b
  proof (rule proc_v_cases [OF K, where k = k and i = i])
    show "\<forall>v. sem_val K k = Some v \<longrightarrow> v = 0" using lock_invD(2) [OF inv _ that(2)] by blast
  next
    assume "sem_val K k = None" "proc_v K i k = Some (- 1, k)"
    with that show ?thesis using lock_inv_removed [OF inv] by (auto simp: after_v_def)
  next
    fix k'' assume *: "sem_val K k = Some 0" "proc_v K i k = Some (0, k'')"
      "sem_val K k'' = Some 1" "sem_adj K k'' = (sem_adj K k)(i := sem_adj K k i - 1)"
    moreover have "sem_adj K k i = 1" using lock_invD(6) [OF inv *(1)] that(2) by simp
    ultimately show ?thesis using that lock_inv_leave [OF inv *(1) that(2)] by (auto simp: after_v_def)
  qed
  show ?thesis
    using go ne enter leave stay
    by (cases "p i") (auto simp: Let_def split: if_splits option.splits)
qed

lemma lock_inv_exit:
  assumes K: "kernel_ok K" and inv: "lock_inv K k p"
  shows "lock_inv K (k_exit K i k) (p(i := Gone))"
proof (cases "sem_val K k")
  case None
  with K have "sem_val K (k_exit K i k) = None" unfolding kernel_ok_def exit_ok_def by blast
  then show ?thesis by (rule lock_inv_removed [OF inv]) simp
next
  case (Some v)
  note adj = lock_invD(6) [OF inv Some]
  have b: "0 \<le> v + sem_adj K k i" "v + sem_adj K k i < 32768"
    using lock_invD(5) [OF inv Some] by (simp_all add: adj)
  note val = proc_exit(1) [OF K Some b] and adj' = proc_exit(2) [OF K Some b]
  show ?thesis
  proof (cases "in_cs (p i)")
    case True
    moreover have "v = 0" using lock_invD(2) [OF inv Some True] .
    ultimately show ?thesis using lock_inv_leave [OF inv _ True _ adj'] Some val by (simp add: adj)
  next
    case False
    then have "sem_val K (k_exit K i k) = sem_val K k" "sem_adj K (k_exit K i k) = sem_adj K k"
      using val adj' Some adj by (auto simp: fun_eq_iff)
    then have "lock_inv K (k_exit K i k) p" using inv unfolding lock_inv_def by simp
    then show ?thesis using False by (intro lock_inv_same) simp_all
  qed
qed

section \<open>The segment\<close>

text \<open>All processes map the same queue, each at its own address.\<close>

definition peers :: "globals \<Rightarrow> (nat \<Rightarrow> globals) \<Rightarrow> bool" where
  "peers g G \<longleftrightarrow> (\<forall>i. head_live (G i) \<and> g_s_mqsize (G i) = g_s_mqsize g \<and> g_s_itemsize (G i) = g_s_itemsize g)"

lemma peersD [simp]:
  assumes "peers g G"
  shows "head_live (G i)" "g_s_mqsize (G i) = g_s_mqsize g" "g_s_itemsize (G i) = g_s_itemsize g"
  using assms by (simp_all add: peers_def)

lemma ring_config: "mq_ring g sg \<Longrightarrow> mq_config g sg"
  by (simp add: mq_ring_def mq_inv_def)

lemma ring_len: "mq_ring g sg \<Longrightarrow> mq_len sg < slots g"
  by (simp add: mq_ring_def mq_inv_def)

lemma ring_mqsize: "mq_ring g sg \<Longrightarrow> g_s_mqsize g \<noteq> 0"
  by (rule mq_configD(8) [OF ring_config])

lemma ring_no_wrap: "mq_ring g sg \<Longrightarrow> no_wrap g sg' n"
  by (simp add: mq_ring_def no_wrap_def)

lemma ring_size: "mq_ring g sg \<Longrightarrow> size_ok g sz \<Longrightarrow> unat sz \<le> slot_size g"
  by (rule size_okD(3) [OF ring_config])

lemma ringI:
  assumes "mq_ring g sg" "mq_len sg' < slots g" "length (content sg') = length (content sg)"
  shows "mq_ring g sg'"
  using assms ring_no_wrap [OF assms(1)] by (simp add: mq_ring_def mq_inv_def mq_config_def)

lemma bad_size: "mq_ring g sg \<Longrightarrow> sz \<le>s 0 \<or> g_s_itemsize g <s sz \<longleftrightarrow> \<not> size_ok g sz"
  by (auto simp: size_ok_def signed.not_le)

text \<open>The copy of an item goes to the slot behind the last one, which no item occupies.\<close>

lemma enq_copy_ok:
  assumes ring: "mq_ring g sg" and room: "Suc (mq_len sg) < slots g"
    and sz: "size_ok g sz" "unat sz \<le> length buf"
  obtains c where "read_bytes buf 0 (unat sz) = Some (take (unat sz) buf)"
    "write_bytes (content sg) (slot_offset g (enq_pos sg + 1)) (take (unat sz) buf) = Some c"
    "mq_ring g (sg\<lparr>content := c\<rparr>)" "mq_items g (sg\<lparr>content := c\<rparr>) = mq_items g sg"
    "take (unat sz) (nth_slot g (sg\<lparr>content := c\<rparr>) (mq_len sg)) = take (unat sz) buf"
proof -
  let ?n = "unat sz"
  have inv: "mq_inv g sg" using ring by (simp add: mq_ring_def)
  from enqueue_cs_ok [OF inv room ring_no_wrap [OF ring] ring_size [OF ring sz(1)] sz(2)]
  obtain sg' where run: "enqueue_cs g sg buf ?n = Some (SUCCESS, sg')"
    and items: "mq_items g sg' = mq_items g sg @ [take ?n buf @ drop ?n (nth_slot g sg (mq_len sg))]"
    and len: "length (content sg') = length (content sg)" .
  have read: "read_bytes buf 0 ?n = Some (take ?n buf)" using sz(2) by (simp add: read_bytes_def)
  with run obtain c where c: "write_bytes (content sg) (slot_offset g (enq_pos sg + 1)) (take ?n buf) = Some c"
    and sg': "sg' = sg\<lparr>content := c, enq_pos := enq_pos sg + 1\<rparr>"
    by (auto simp: enqueue_cs_def split: if_splits bind_splits)
  let ?sg = "sg\<lparr>content := c\<rparr>"
  have "length (mq_items g sg') = Suc (mq_len sg)" unfolding items by simp
  then have l: "mq_len ?sg = mq_len sg" "mq_len sg' = Suc (mq_len sg)"
    unfolding length_mq_items by (simp_all add: mq_len_def)
  have "nth_slot g sg' = nth_slot g ?sg" by (simp add: fun_eq_iff nth_slot_def sg')
  then have "mq_items g sg' = mq_items g ?sg @ [nth_slot g ?sg (mq_len sg)]"
    using l unfolding mq_items_def by simp
  with items l have "mq_items g ?sg = mq_items g sg"
    "nth_slot g ?sg (mq_len sg) = take ?n buf @ drop ?n (nth_slot g sg (mq_len sg))"
    by simp_all
  moreover have "mq_ring g ?sg" using ringI [OF ring, of ?sg] len l ring_len [OF ring] by (simp add: sg')
  ultimately show ?thesis using that [OF read c] sz(2) by simp
qed

lemma enq_incr_ok:
  assumes ring: "mq_ring g sg" and room: "Suc (mq_len sg) < slots g"
  shows "mq_ring g (sg\<lparr>enq_pos := enq_pos sg + 1\<rparr>)"
    "mq_items g (sg\<lparr>enq_pos := enq_pos sg + 1\<rparr>) = mq_items g sg @ [nth_slot g sg (mq_len sg)]"
proof -
  let ?sg = "sg\<lparr>enq_pos := enq_pos sg + 1\<rparr>"
  have "mq_len sg < 2 ^ 31" using ring_len [OF ring] mq_configD(4) [OF ring_config [OF ring]] by simp
  then have len: "mq_len ?sg = Suc (mq_len sg)" using mq_len_enq [of sg "content sg"] by simp
  then show "mq_ring g ?sg" using ringI [OF ring, of ?sg] room by simp
  have "nth_slot g ?sg = nth_slot g sg" by (simp add: fun_eq_iff nth_slot_def)
  then show "mq_items g ?sg = mq_items g sg @ [nth_slot g sg (mq_len sg)]"
    by (simp add: mq_items_def len)
qed

lemma new_slot_length: "mq_ring g sg \<Longrightarrow> length (nth_slot g sg i) = slot_size g"
  by (rule length_nth_slot [OF ring_config ring_no_wrap])

lemma deq_ok:
  assumes ring: "mq_ring g sg" and items: "mq_items g sg = x # xs" and sz: "size_ok g sz"
  shows "read_bytes (content sg) (slot_offset g (deq_pos sg + 1)) (unat sz) = Some (take (unat sz) x)"
    "mq_ring g (sg\<lparr>deq_pos := deq_pos sg + 1\<rparr>)" "mq_items g (sg\<lparr>deq_pos := deq_pos sg + 1\<rparr>) = xs"
    "unat sz \<le> length x"
proof -
  have inv: "mq_inv g sg" using ring by (simp add: mq_ring_def)
  from dequeue_cs_ok [OF inv items ring_size [OF ring sz]]
  obtain sg' where run: "dequeue_cs g sg (unat sz) = Some (SUCCESS, take (unat sz) x, sg')"
    "mq_inv g sg'" "mq_items g sg' = xs" .
  have "read_bytes (content sg) (slot_offset g (deq_pos sg + 1)) (unat sz) = Some (take (unat sz) x)
      \<and> sg' = sg\<lparr>deq_pos := deq_pos sg + 1\<rparr>"
    using run(1) by (auto simp: dequeue_cs_def split: if_splits bind_splits)
  with run ring show "read_bytes (content sg) (slot_offset g (deq_pos sg + 1)) (unat sz) = Some (take (unat sz) x)"
    "mq_ring g (sg\<lparr>deq_pos := deq_pos sg + 1\<rparr>)" "mq_items g (sg\<lparr>deq_pos := deq_pos sg + 1\<rparr>) = xs"
    by (auto simp: mq_ring_def)
  have "x = nth_slot g sg 0"
    using items length_mq_items [of g sg] by (auto simp: mq_items_def upt_rec split: if_splits)
  then show "unat sz \<le> length x" using new_slot_length [OF ring] ring_size [OF ring sz] by simp
qed

section \<open>Where the processes stand\<close>

definition op_fits :: "qop \<Rightarrow> bool" where
  "op_fits op = (case op of
     Op_enqueue (Some buf) sz \<Rightarrow> unat sz \<le> length buf
   | Op_dequeue (Some buf) sz \<Rightarrow> unat sz \<le> length buf
   | Op_open iscreated \<Rightarrow> \<not> iscreated
   | _ \<Rightarrow> True)"

definition enqueuing :: "globals \<Rightarrow> bytes \<Rightarrow> u32 \<Rightarrow> status \<Rightarrow> bool" where
  "enqueuing g buf sz st \<longleftrightarrow>
     st = S_called (Op_enqueue (Some buf) sz) \<and> size_ok g sz \<and> unat sz \<le> length buf"

definition dequeuing :: "globals \<Rightarrow> bytes \<Rightarrow> u32 \<Rightarrow> status \<Rightarrow> bool" where
  "dequeuing g buf sz st \<longleftrightarrow>
     st = S_called (Op_dequeue (Some buf) sz) \<and> size_ok g sz \<and> unat sz \<le> length buf"

text \<open>
  \<open>fits g sg st p\<close>: the process at \<open>p\<close> has the status \<open>st\<close> in the specification, and what it
  has found out about the segment in its critical section still holds.
\<close>

fun fits :: "globals \<Rightarrow> segment \<Rightarrow> status \<Rightarrow> pc \<Rightarrow> bool" where
  "fits g sg st Idle = (st = S_idle)"
| "fits g sg st (Enq_args item sz) = (st = S_called (Op_enqueue item sz) \<and> op_fits (Op_enqueue item sz))"
| "fits g sg st (Enq_p buf sz) = enqueuing g buf sz st"
| "fits g sg st (Enq_test buf sz) = enqueuing g buf sz st"
| "fits g sg st (Enq_pos buf sz) = (enqueuing g buf sz st \<and> Suc (mq_len sg) < slots g)"
| "fits g sg st (Enq_copy buf sz pos) =
     (enqueuing g buf sz st \<and> Suc (mq_len sg) < slots g \<and> pos = (enq_pos sg + 1) mod g_s_mqsize g)"
| "fits g sg st (Enq_incr buf sz) =
     (enqueuing g buf sz st \<and> Suc (mq_len sg) < slots g
      \<and> take (unat sz) (nth_slot g sg (mq_len sg)) = take (unat sz) buf)"
| "fits g sg st (Enq_v buf r) = (st = S_done r (Some buf))"
| "fits g sg st (Deq_args item sz) = (st = S_called (Op_dequeue item sz) \<and> op_fits (Op_dequeue item sz))"
| "fits g sg st (Deq_p buf sz) = dequeuing g buf sz st"
| "fits g sg st (Deq_test buf sz) = dequeuing g buf sz st"
| "fits g sg st (Deq_pos buf sz) = (dequeuing g buf sz st \<and> mq_items g sg \<noteq> [])"
| "fits g sg st (Deq_copy buf sz pos) =
     (dequeuing g buf sz st \<and> mq_items g sg \<noteq> [] \<and> pos = (deq_pos sg + 1) mod g_s_mqsize g)"
| "fits g sg st (Deq_incr buf sz) =
     (\<exists>old. dequeuing g old sz st \<and> mq_items g sg \<noteq> []
       \<and> buf = take (unat sz) (hd (mq_items g sg)) @ drop (unat sz) old)"
| "fits g sg st (Deq_v buf r) = (st = S_done r (Some buf))"
| "fits g sg st (Clr_args sf) = (st = S_called (Op_clear sf))"
| "fits g sg st (Clr_p f) = (st = S_called (Op_clear (Some f)))"
| "fits g sg st (Clr_search f) = (st = S_called (Op_clear (Some f)))"
| "fits g sg st (Clr_v r) = (st = S_done r None)"
| "fits g sg st Open_set = False"
| "fits g sg st (Open_p iscreated) = (st = S_called (Op_open False) \<and> \<not> iscreated)"
| "fits g sg st (Open_attach iscreated) = (st = S_called (Op_open False) \<and> \<not> iscreated)"
| "fits g sg st Open_v = (st = S_done SUCCESS None)"
| "fits g sg st (Ret r b) = (st = S_done r b)"
| "fits g sg st Closed = (st = S_closed)"
| "fits g sg st Gone = (st = S_gone)"

text \<open>Outside of its critical section a process knows nothing of the segment.\<close>

lemma fits_outside: "\<not> in_cs p \<Longrightarrow> fits g sg st p \<Longrightarrow> fits g sg' st p"
  by (cases p) auto

lemma fits_entry: "op_fits op \<Longrightarrow> fits g sg (S_called op) (entry op)"
  by (auto simp: entry_def op_fits_def split: qop.splits)

section \<open>One statement against the specification\<close>

text \<open>The ways in which the specification follows a statement.\<close>

inductive move :: "globals \<Rightarrow> bool \<Rightarrow> bytes list \<Rightarrow> status \<Rightarrow> bytes list \<Rightarrow> status \<Rightarrow> bool"
  for g :: globals and br :: bool where
  m_stutter: "move g br xs st xs st"
| m_effect: "effect g op xs r b xs' \<Longrightarrow> move g br xs (S_called op) xs' (S_done r b)"
| m_no_lock: "br \<Longrightarrow> b = call_buffer op \<Longrightarrow> move g br xs (S_called op) xs (S_done ERROR_SEMAPHORE_P b)"
| m_no_unlock: "br \<Longrightarrow> move g br xs (S_done r b) xs (S_done ERROR_SEMAPHORE_V b)"

lemma move_sstep:
  assumes "move g (broken s) (queue s) (status s i) xs st"
  shows "sstep g s (Tau i) (s\<lparr>queue := xs, status := (status s)(i := st)\<rparr>)"
  using assms
proof (cases rule: move.cases)
  case m_stutter
  then have "s\<lparr>queue := xs, status := (status s)(i := st)\<rparr> = s" by simp
  then show ?thesis by (simp add: s_stutter)
next
  case (m_effect op r b)
  then show ?thesis by (auto intro: s_effect)
next
  case (m_no_lock b op)
  with s_no_lock [of s i op g] show ?thesis by simp
next
  case (m_no_unlock r b)
  with s_no_unlock [of s i r b g] show ?thesis by simp
qed

text \<open>What a statement of process \<open>i\<close> must establish.\<close>

definition followed :: "'k kernel \<Rightarrow> globals \<Rightarrow> bool \<Rightarrow> segment \<Rightarrow> status \<Rightarrow> 'k \<Rightarrow> pc \<Rightarrow> 'k \<Rightarrow> segment \<Rightarrow> bool" where
  "followed K g br sg st k q k' sg' \<longleftrightarrow>
     (sem_val K k' = None \<longrightarrow> sem_val K k = None) \<and> mq_ring g sg'
     \<and> (\<exists>st'. fits g sg' st' q \<and> move g br (mq_items g sg) st (mq_items g sg') st')"

lemma followedI:
  assumes "mq_ring g sg'" "fits g sg' st' q" "move g br (mq_items g sg) st (mq_items g sg') st'"
  shows "followed K g br sg st k q k sg'"
  using assms by (auto simp: followed_def)

lemma followed_p:
  assumes K: "kernel_ok K" "lock_inv K k p" and br: "sem_val K k = None \<Longrightarrow> br" and ring: "mq_ring g sg"
    and st: "st = S_called op" "fits g sg st q"
    and go: "after_p (proc_p K i k) q (call_buffer op) sg = Goes q' k' sg'"
  shows "followed K g br sg st k q' k' sg'"
proof (rule proc_p_cases [OF K(1), where k = k and i = i])
  show "\<forall>v. sem_val K k = Some v \<longrightarrow> v \<le> 1" using lock_invD(5) [OF K(2)] by blast
next
  assume "sem_val K k = None" "proc_p K i k = Some (- 1, k)"
  with go br ring st show ?thesis by (auto simp: after_p_def intro!: followedI intro: m_no_lock)
next
  fix v k'' assume "sem_val K k'' = Some (v - 1)" "proc_p K i k = Some (0, k'')"
  with go ring st show ?thesis by (auto simp: after_p_def followed_def intro: m_stutter)
qed (use go in \<open>simp add: after_p_def\<close>)

lemma followed_v:
  assumes K: "kernel_ok K" "lock_inv K k p" "in_cs (p i)" and br: "sem_val K k = None \<Longrightarrow> br"
    and ring: "mq_ring g sg" and st: "st = S_done r b"
    and go: "after_v (proc_v K i k) r b sg = Goes q' k' sg'"
  shows "followed K g br sg st k q' k' sg'"
proof (rule proc_v_cases [OF K(1), where k = k and i = i])
  show "\<forall>v. sem_val K k = Some v \<longrightarrow> v = 0" using lock_invD(2) [OF K(2) _ K(3)] by blast
next
  assume "sem_val K k = None" "proc_v K i k = Some (- 1, k)"
  with go br ring st show ?thesis by (auto simp: after_v_def intro!: followedI intro: m_no_unlock)
next
  fix k'' assume "sem_val K k'' = Some 1" "proc_v K i k = Some (0, k'')"
  with go ring st show ?thesis by (auto simp: after_v_def followed_def intro: m_stutter)
qed

lemma full_test: "mq_ring g sg \<Longrightarrow> deq_pos sg + g_s_mqsize g - 1 = enq_pos sg \<longleftrightarrow> Suc (mq_len sg) = slots g"
  by (rule full_iff [OF ring_config])

lemma items_Nil_iff: "mq_items g sg = [] \<longleftrightarrow> mq_len sg = 0"
  by (metis length_mq_items length_0_conv)

lemma stmt_enqueue:
  assumes ring: "mq_ring g sg" and gi: "head_live gi" "g_s_mqsize gi = g_s_mqsize g" "g_s_itemsize gi = g_s_itemsize g"
    and fit: "fits g sg st q"
  shows "q = Enq_args item sz \<Longrightarrow> \<exists>q'. stmt K gi i q k sg = Goes q' k sg \<and> followed K g br sg st k q' k sg"
    and "q = Enq_test buf sz \<Longrightarrow> \<exists>q'. stmt K gi i q k sg = Goes q' k sg \<and> followed K g br sg st k q' k sg"
    and "q = Enq_pos buf sz \<Longrightarrow> \<exists>q'. stmt K gi i q k sg = Goes q' k sg \<and> followed K g br sg st k q' k sg"
    and "q = Enq_copy buf sz pos \<Longrightarrow> \<exists>q' sg'. stmt K gi i q k sg = Goes q' k sg' \<and> followed K g br sg st k q' k sg'"
    and "q = Enq_incr buf sz \<Longrightarrow> \<exists>q' sg'. stmt K gi i q k sg = Goes q' k sg' \<and> followed K g br sg st k q' k sg'"
proof -
  assume q: "q = Enq_args item sz"
  show "\<exists>q'. stmt K gi i q k sg = Goes q' k sg \<and> followed K g br sg st k q' k sg"
  proof (cases "\<exists>buf. item = Some buf \<and> size_ok g sz")
    case True
    with q fit gi ring show ?thesis
      by (auto simp: bad_size [OF ring] enqueuing_def op_fits_def intro!: followedI intro: m_stutter)
  next
    case False
    then have "effect g (Op_enqueue item sz) (mq_items g sg) ERROR_INVALID_ARGUMENT item (mq_items g sg)"
      by (cases item) (auto intro: enq_null enq_size)
    from m_effect [OF this] False q fit gi ring show ?thesis
      by (auto simp: bad_size [OF ring] split: option.splits intro!: followedI)
  qed
next
  assume q: "q = Enq_test buf sz"
  show "\<exists>q'. stmt K gi i q k sg = Goes q' k sg \<and> followed K g br sg st k q' k sg"
  proof (cases "Suc (mq_len sg) = slots g")
    case True
    then have "move g br (mq_items g sg) st (mq_items g sg) (S_done ERROR_MSGQUEUE_FULL (Some buf))"
      using q fit by (auto simp: enqueuing_def intro!: m_effect enq_full)
    with True q gi ring show ?thesis by (auto simp: full_test [OF ring] intro: followedI)
  next
    case False
    with q gi ring fit ring_len [OF ring] show ?thesis
      by (auto simp: full_test [OF ring] intro!: followedI intro: m_stutter)
  qed
next
  assume "q = Enq_pos buf sz"
  with gi ring fit show "\<exists>q'. stmt K gi i q k sg = Goes q' k sg \<and> followed K g br sg st k q' k sg"
    by (auto simp: ring_mqsize intro!: followedI intro: m_stutter)
next
  assume q: "q = Enq_copy buf sz pos"
  then have room: "Suc (mq_len sg) < slots g" and e: "enqueuing g buf sz st"
    and pos: "pos = (enq_pos sg + 1) mod g_s_mqsize g" using fit by auto
  have sz: "size_ok g sz" "unat sz \<le> length buf" using e by (auto simp: enqueuing_def)
  from enq_copy_ok [OF ring room sz] obtain c where c: "read_bytes buf 0 (unat sz) = Some (take (unat sz) buf)"
    "write_bytes (content sg) (slot_offset g (enq_pos sg + 1)) (take (unat sz) buf) = Some c"
    "mq_ring g (sg\<lparr>content := c\<rparr>)" "mq_items g (sg\<lparr>content := c\<rparr>) = mq_items g sg"
    "take (unat sz) (nth_slot g (sg\<lparr>content := c\<rparr>) (mq_len sg)) = take (unat sz) buf" .
  moreover have "mq_len (sg\<lparr>content := c\<rparr>) = mq_len sg" by (simp add: mq_len_def)
  ultimately have "followed K g br sg st k (Enq_incr buf sz) k (sg\<lparr>content := c\<rparr>)"
    using room e by (intro followedI [where st' = st]) (auto intro: m_stutter)
  with c(1,2) show "\<exists>q' sg'. stmt K gi i q k sg = Goes q' k sg' \<and> followed K g br sg st k q' k sg'"
    by (auto simp: q gi pos slot_offset_def)
next
  assume q: "q = Enq_incr buf sz"
  then have room: "Suc (mq_len sg) < slots g" and e: "enqueuing g buf sz st"
    and new: "take (unat sz) (nth_slot g sg (mq_len sg)) = take (unat sz) buf" using fit by auto
  have "effect g (Op_enqueue (Some buf) sz) (mq_items g sg) SUCCESS (Some buf)
      (mq_items g sg @ [nth_slot g sg (mq_len sg)])"
    using e room new new_slot_length [OF ring] by (intro enq_room) (auto simp: enqueuing_def)
  from m_effect [OF this] e enq_incr_ok [OF ring room]
  show "\<exists>q' sg'. stmt K gi i q k sg = Goes q' k sg' \<and> followed K g br sg st k q' k sg'"
    by (auto simp: q enqueuing_def intro!: followedI)
qed

lemma stmt_dequeue:
  assumes ring: "mq_ring g sg" and gi: "head_live gi" "g_s_mqsize gi = g_s_mqsize g" "g_s_itemsize gi = g_s_itemsize g"
    and fit: "fits g sg st q"
  shows "q = Deq_args item sz \<Longrightarrow> \<exists>q'. stmt K gi i q k sg = Goes q' k sg \<and> followed K g br sg st k q' k sg"
    and "q = Deq_test buf sz \<Longrightarrow> \<exists>q'. stmt K gi i q k sg = Goes q' k sg \<and> followed K g br sg st k q' k sg"
    and "q = Deq_pos buf sz \<Longrightarrow> \<exists>q'. stmt K gi i q k sg = Goes q' k sg \<and> followed K g br sg st k q' k sg"
    and "q = Deq_copy buf sz pos \<Longrightarrow> \<exists>q'. stmt K gi i q k sg = Goes q' k sg \<and> followed K g br sg st k q' k sg"
    and "q = Deq_incr buf sz \<Longrightarrow> \<exists>q' sg'. stmt K gi i q k sg = Goes q' k sg' \<and> followed K g br sg st k q' k sg'"
proof -
  assume q: "q = Deq_args item sz"
  show "\<exists>q'. stmt K gi i q k sg = Goes q' k sg \<and> followed K g br sg st k q' k sg"
  proof (cases "\<exists>buf. item = Some buf \<and> size_ok g sz")
    case True
    with q fit gi ring show ?thesis
      by (auto simp: bad_size [OF ring] dequeuing_def op_fits_def intro!: followedI intro: m_stutter)
  next
    case False
    then have "effect g (Op_dequeue item sz) (mq_items g sg) ERROR_INVALID_ARGUMENT item (mq_items g sg)"
      by (cases item) (auto intro: deq_null deq_size)
    from m_effect [OF this] False q fit gi ring show ?thesis
      by (auto simp: bad_size [OF ring] split: option.splits intro!: followedI)
  qed
next
  assume q: "q = Deq_test buf sz"
  show "\<exists>q'. stmt K gi i q k sg = Goes q' k sg \<and> followed K g br sg st k q' k sg"
  proof (cases "mq_items g sg = []")
    case True
    then have "move g br (mq_items g sg) st (mq_items g sg) (S_done ERROR_MSGQUEUE_FULL (Some buf))"
      using q fit by (auto simp: dequeuing_def intro!: m_effect deq_empty)
    with True q gi ring show ?thesis by (auto simp: empty_iff items_Nil_iff intro: followedI)
  next
    case False
    with q gi ring fit show ?thesis
      by (auto simp: empty_iff items_Nil_iff intro!: followedI intro: m_stutter)
  qed
next
  assume "q = Deq_pos buf sz"
  with gi ring fit show "\<exists>q'. stmt K gi i q k sg = Goes q' k sg \<and> followed K g br sg st k q' k sg"
    by (auto simp: ring_mqsize intro!: followedI intro: m_stutter)
next
  assume q: "q = Deq_copy buf sz pos"
  then have d: "dequeuing g buf sz st" and ne: "mq_items g sg \<noteq> []"
    and pos: "pos = (deq_pos sg + 1) mod g_s_mqsize g" using fit by auto
  from ne obtain x xs where x: "mq_items g sg = x # xs" by (cases "mq_items g sg") auto
  have sz: "size_ok g sz" "unat sz \<le> length buf" using d by (auto simp: dequeuing_def)
  note read = deq_ok [OF ring x sz(1)]
  then have "write_bytes buf 0 (take (unat sz) x) = Some (take (unat sz) x @ drop (unat sz) buf)"
    using sz(2) by (simp add: write_bytes_def)
  moreover have "followed K g br sg st k (Deq_incr (take (unat sz) x @ drop (unat sz) buf) sz) k sg"
    using d x ring by (intro followedI [where st' = st]) (auto intro: m_stutter)
  ultimately show "\<exists>q'. stmt K gi i q k sg = Goes q' k sg \<and> followed K g br sg st k q' k sg"
    using read(1) by (auto simp: q gi pos slot_offset_def)
next
  assume q: "q = Deq_incr buf sz"
  then obtain old where d: "dequeuing g old sz st" and ne: "mq_items g sg \<noteq> []"
    and buf: "buf = take (unat sz) (hd (mq_items g sg)) @ drop (unat sz) old" using fit by auto
  from ne obtain x xs where x: "mq_items g sg = x # xs" by (cases "mq_items g sg") auto
  have "effect g (Op_dequeue (Some old) sz) (mq_items g sg) SUCCESS (Some buf) xs"
    unfolding x buf using d by (simp add: dequeuing_def deq_first)
  from m_effect [OF this] d deq_ok [OF ring x, of sz]
  show "\<exists>q' sg'. stmt K gi i q k sg = Goes q' k sg' \<and> followed K g br sg st k q' k sg'"
    by (auto simp: q dequeuing_def intro!: followedI)
qed

lemma stmt_clear:
  assumes ring: "mq_ring g sg" and gi: "head_live gi" "g_s_mqsize gi = g_s_mqsize g" "g_s_itemsize gi = g_s_itemsize g"
    and fit: "fits g sg st q"
  shows "q = Clr_args sf \<Longrightarrow> \<exists>q'. stmt K gi i q k sg = Goes q' k sg \<and> followed K g br sg st k q' k sg"
    and "q = Clr_search f \<Longrightarrow> \<exists>q'. stmt K gi i q k sg = Goes q' k sg \<and> followed K g br sg st k q' k sg"
    and "q = Open_attach c \<Longrightarrow> \<exists>q'. stmt K gi i q k sg = Goes q' k sg \<and> followed K g br sg st k q' k sg"
proof -
  assume "q = Clr_args sf"
  with ring fit show "\<exists>q'. stmt K gi i q k sg = Goes q' k sg \<and> followed K g br sg st k q' k sg"
    by (cases sf) (auto intro!: followedI intro: m_stutter m_effect clear_null)
next
  assume "q = Clr_search f"
  with ring fit gi ring_mqsize [OF ring]
  show "\<exists>q'. stmt K gi i q k sg = Goes q' k sg \<and> followed K g br sg st k q' k sg"
    by (auto simp: Let_def intro!: followedI intro: m_effect clear_found clear_outside)
next
  assume "q = Open_attach c"
  with ring fit show "\<exists>q'. stmt K gi i q k sg = Goes q' k sg \<and> followed K g br sg st k q' k sg"
    by (auto intro!: followedI intro: m_effect opened)
qed

section \<open>The simulation\<close>

definition simulates :: "'k kernel \<Rightarrow> globals \<Rightarrow> (nat \<Rightarrow> globals) \<Rightarrow> 'k world \<Rightarrow> spec \<Rightarrow> bool" where
  "simulates K g G w s \<longleftrightarrow> kernel_ok K \<and> peers g G
     \<and> mq_ring g (seg w) \<and> lock_inv K (kern w) (pc w) \<and> queue s = mq_items g (seg w)
     \<and> (sem_val K (kern w) = None \<longrightarrow> broken s) \<and> (\<forall>i. fits g (seg w) (status s i) (pc w i))"

lemma stmt_followed:
  assumes sim: "simulates K g G w s"
  shows "stmt K (G i) i (pc w i) (kern w) (seg w) \<noteq> Undefined"
    and "stmt K (G i) i (pc w i) (kern w) (seg w) = Goes q k sg \<Longrightarrow>
      followed K g (broken s) (seg w) (status s i) (kern w) q k sg"
    and "stmt K (G i) i (pc w i) (kern w) (seg w) = Goes q k sg \<Longrightarrow> sg = seg w \<or> in_cs (pc w i)"
proof -
  let ?st = "stmt K (G i) i (pc w i) (kern w) (seg w)"
  let ?F = "followed K g (broken s) (seg w) (status s i) (kern w)"
  have K: "kernel_ok K" and peers: "peers g G" and ring: "mq_ring g (seg w)" and lock: "lock_inv K (kern w) (pc w)"
    and br: "sem_val K (kern w) = None \<Longrightarrow> broken s" and fit: "fits g (seg w) (status s i) (pc w i)"
    using sim by (auto simp: simulates_def)
  note gi = peersD [OF peers, where i = i]
  note direct = stmt_enqueue [OF ring gi fit, where K = K and k = "kern w" and i = i and br = "broken s"]
    stmt_dequeue [OF ring gi fit, where K = K and k = "kern w" and i = i and br = "broken s"]
    stmt_clear [OF ring gi fit, where K = K and k = "kern w" and i = i and br = "broken s"]
  note lock_p = followed_p [OF K lock br ring, where i = i]
  note lock_v = followed_v [OF K lock, where i = i, OF _ br ring]
  have all: "?st \<noteq> Undefined \<and> (\<forall>q k sg. ?st = Goes q k sg \<longrightarrow> ?F q k sg \<and> (sg = seg w \<or> in_cs (pc w i)))"
  proof (cases "pc w i")
    case (Enq_args item sz) with direct(1) show ?thesis by fastforce
  next
    case (Enq_p buf sz)
    then show ?thesis using fit lock_p [where q = "Enq_test buf sz" and op = "Op_enqueue (Some buf) sz"]
      by (auto simp: enqueuing_def call_buffer_def after_p_def split: option.splits)
  next
    case (Enq_test buf sz) with direct(2) show ?thesis by fastforce
  next
    case (Enq_pos buf sz) with direct(3) show ?thesis by fastforce
  next
    case (Enq_copy buf sz pos) with direct(4) show ?thesis by fastforce
  next
    case (Enq_incr buf sz) with direct(5) show ?thesis by fastforce
  next
    case (Enq_v buf r)
    then show ?thesis using fit lock_v [where r = r and b = "Some buf"]
      by (auto simp: after_v_def split: option.splits)
  next
    case (Deq_args item sz) with direct(6) show ?thesis by fastforce
  next
    case (Deq_p buf sz)
    then show ?thesis using fit lock_p [where q = "Deq_test buf sz" and op = "Op_dequeue (Some buf) sz"]
      by (auto simp: dequeuing_def call_buffer_def after_p_def split: option.splits)
  next
    case (Deq_test buf sz) with direct(7) show ?thesis by fastforce
  next
    case (Deq_pos buf sz) with direct(8) show ?thesis by fastforce
  next
    case (Deq_copy buf sz pos) with direct(9) show ?thesis by fastforce
  next
    case (Deq_incr buf sz) with direct(10) show ?thesis by fastforce
  next
    case (Deq_v buf r)
    then show ?thesis using fit lock_v [where r = r and b = "Some buf"]
      by (auto simp: after_v_def split: option.splits)
  next
    case (Clr_args sf) with direct(11) show ?thesis by fastforce
  next
    case (Clr_p f)
    then show ?thesis using fit lock_p [where q = "Clr_search f" and op = "Op_clear (Some f)"]
      by (auto simp: call_buffer_def after_p_def split: option.splits)
  next
    case (Clr_search f) with direct(12) show ?thesis by fastforce
  next
    case (Clr_v r)
    then show ?thesis using fit lock_v [where r = r and b = None]
      by (auto simp: after_v_def split: option.splits)
  next
    case (Open_p c)
    then show ?thesis using fit lock_p [where q = "Open_attach c" and op = "Op_open False"]
      by (auto simp: call_buffer_def after_p_def split: option.splits)
  next
    case (Open_attach c) with direct(13) show ?thesis by fastforce
  next
    case Open_v
    then show ?thesis using fit lock_v [where r = SUCCESS and b = None]
      by (auto simp: after_v_def split: option.splits)
  next
    case Open_set with fit show ?thesis by simp
  qed simp_all
  then show "?st \<noteq> Undefined" "?st = Goes q k sg \<Longrightarrow> ?F q k sg" "?st = Goes q k sg \<Longrightarrow> sg = seg w \<or> in_cs (pc w i)"
    by auto
qed

text \<open>Only the process in its critical section can write the segment, so the others still fit.\<close>

lemma simulate_tau:
  assumes sim: "simulates K g G w s" and go: "act K G (Tau i) w = Some w'"
  shows "\<exists>s'. sstep g s (Tau i) s' \<and> simulates K g G w' s'"
proof -
  from go obtain q k sg where st: "stmt K (G i) i (pc w i) (kern w) (seg w) = Goes q k sg"
    and w': "w' = w\<lparr>kern := k, seg := sg, pc := (pc w)(i := q)\<rparr>" by (auto split: reaction.splits)
  have K: "kernel_ok K" and peers: "peers g G" and lock: "lock_inv K (kern w) (pc w)"
    and q: "queue s = mq_items g (seg w)" and br: "sem_val K (kern w) = None \<longrightarrow> broken s"
    and fit: "fits g (seg w) (status s j) (pc w j)" for j using sim by (auto simp: simulates_def)
  from stmt_followed(2) [OF sim st] obtain st' where val: "sem_val K k = None \<longrightarrow> sem_val K (kern w) = None"
    and ring: "mq_ring g sg" and st': "fits g sg st' q"
    and mv: "move g (broken s) (queue s) (status s i) (mq_items g sg) st'"
    unfolding followed_def q [symmetric] by (elim conjE exE) (rule that)
  have others: "fits g sg (status s j) (pc w j)" if "j \<noteq> i" for j
  proof (cases "sg = seg w")
    case False
    with stmt_followed(3) [OF sim st] have "in_cs (pc w i)" by blast
    with lock_invD(1) [OF lock] that have "\<not> in_cs (pc w j)" by blast
    then show ?thesis using fit by (rule fits_outside)
  qed (use fit in simp)
  have "pc w i \<noteq> Open_set" using fit [of i] by auto
  then have lock': "lock_inv K k ((pc w)(i := q))" by (rule lock_inv_stmt [OF K lock _ st])
  let ?s = "s\<lparr>queue := mq_items g sg, status := (status s)(i := st')\<rparr>"
  have "simulates K g G w' ?s"
    using K peers ring lock' val br others st' by (simp add: simulates_def w')
  with move_sstep [OF mv] show ?thesis by blast
qed

fun label_fits :: "label \<Rightarrow> bool" where
  "label_fits (Call i op) = op_fits op"
| "label_fits l = True"

lemma simulates_outside:
  assumes sim: "simulates K g G w s" and p: "\<not> in_cs (pc w i)" "\<not> in_cs q" "fits g (seg w) st q"
  shows "simulates K g G (w\<lparr>pc := (pc w)(i := q)\<rparr>) (s\<lparr>status := (status s)(i := st)\<rparr>)"
  using sim p lock_inv_same [of K "kern w" "pc w" q i] by (simp add: simulates_def)

lemma entry_outside: "\<not> in_cs (entry op)"
  by (simp add: entry_def split: qop.splits)

lemma simulate_call:
  assumes sim: "simulates K g G w s" and op: "op_fits op" and go: "act K G (Call i op) w = Some w'"
  shows "\<exists>s'. sstep g s (Call i op) s' \<and> simulates K g G w' s'"
proof -
  have idle: "pc w i = Idle" and w': "w' = w\<lparr>pc := (pc w)(i := entry op)\<rparr>" using go by (auto split: if_splits)
  have "fits g (seg w) (status s i) (pc w i)" using sim by (simp add: simulates_def)
  then have "status s i = S_idle" by (simp add: idle)
  from s_call [OF this, of g op] simulates_outside [OF sim _ entry_outside fits_entry [OF op], of i] idle
  show ?thesis unfolding w' by auto
qed

lemma simulate_return:
  assumes sim: "simulates K g G w s" and go: "act K G (Return i r b) w = Some w'"
  shows "\<exists>s'. sstep g s (Return i r b) s' \<and> simulates K g G w' s'"
proof -
  have ret: "pc w i = Ret r b" and w': "w' = w\<lparr>pc := (pc w)(i := Idle)\<rparr>" using go by (auto split: if_splits)
  have "fits g (seg w) (status s i) (pc w i)" using sim by (simp add: simulates_def)
  then have "status s i = S_done r b" by (simp add: ret)
  from s_return [OF this, of g] simulates_outside [OF sim, of i Idle S_idle] ret
  show ?thesis unfolding w' by auto
qed

lemma simulate_close:
  assumes sim: "simulates K g G w s" and go: "act K G (Close i d) w = Some w'"
  shows "\<exists>s'. sstep g s (Close i d) s' \<and> simulates K g G w' s'"
proof -
  have idle: "pc w i = Idle"
    and w': "w' = w\<lparr>kern := (if d then snd (k_rmid K (kern w)) else kern w), pc := (pc w)(i := Closed)\<rparr>"
    using go by (auto split: if_splits)
  have K: "kernel_ok K" and lock: "lock_inv K (kern w) (pc w)"
    and "fits g (seg w) (status s i) (pc w i)" using sim by (auto simp: simulates_def)
  then have st: "status s i = S_idle" by (simp add: idle)
  have rm: "sem_val K (snd (k_rmid K (kern w))) = None"
    using K unfolding kernel_ok_def semctl_ok_def by blast
  have "lock_inv K (kern w') (pc w')"
    using lock_inv_removed [OF lock rm, of Closed i] lock_inv_same [OF lock, of Closed i] by (simp add: w' idle)
  then have "simulates K g G w' (s\<lparr>broken := (d \<or> broken s), status := (status s)(i := S_closed)\<rparr>)"
    using sim by (simp add: simulates_def w')
  with s_close [OF st] show ?thesis by blast
qed

text \<open>A process that dies in its copy leaves a mixture of bytes in a slot that no item occupies.\<close>

lemma torn_ok:
  assumes ring: "mq_ring g sg" and gi: "g_s_mqsize gi = g_s_mqsize g" "g_s_itemsize gi = g_s_itemsize g"
    and fit: "fits g sg st p"
  shows "mq_ring g (torn gi dn p sg)" "mq_items g (torn gi dn p sg) = mq_items g sg"
    "torn gi dn p sg = sg \<or> in_cs p"
proof -
  have "mq_ring g (torn gi dn p sg) \<and> mq_items g (torn gi dn p sg) = mq_items g sg"
  proof (cases "\<exists>buf sz pos. p = Enq_copy buf sz pos")
    case True
    then obtain buf sz pos where p: "p = Enq_copy buf sz pos" by blast
    let ?o = "slot_offset g (enq_pos sg + 1)" and ?n = "unat sz"
    have e: "enqueuing g buf sz st" and room: "Suc (mq_len sg) < slots g"
      and pos: "unat (pos * g_s_itemsize g) = ?o" using fit by (auto simp: p slot_offset_def)
    then have sz: "size_ok g sz" "?n \<le> length buf" by (auto simp: enqueuing_def)
    show ?thesis
    proof (cases "read_bytes (content sg) ?o ?n")
      case None
      with ring show ?thesis by (simp add: torn_def p gi pos split: option.split)
    next
      case (Some old)
      define mix where "mix = map (\<lambda>j. if dn j then take ?n buf ! j else old ! j) [0..<?n]"
      have mix: "length mix = ?n" "take ?n mix = mix" by (simp_all add: mix_def)
      obtain c where "write_bytes (content sg) ?o (take ?n mix) = Some c"
        "mq_ring g (sg\<lparr>content := c\<rparr>)" "mq_items g (sg\<lparr>content := c\<rparr>) = mq_items g sg"
        by (rule enq_copy_ok [OF ring room sz(1), of mix]) (use mix in auto)
      moreover have "read_bytes buf 0 ?n = Some (take ?n buf)" using sz(2) by (simp add: read_bytes_def)
      ultimately show ?thesis using Some mix(2) by (simp add: torn_def p gi pos mix_def)
    qed
  next
    case False
    then have "torn gi dn p sg = sg" by (cases p) (simp_all add: torn_def)
    with ring show ?thesis by simp
  qed
  then show "mq_ring g (torn gi dn p sg)" "mq_items g (torn gi dn p sg) = mq_items g sg" by simp_all
  show "torn gi dn p sg = sg \<or> in_cs p" by (cases p) (simp_all add: torn_def)
qed

lemma simulate_exit:
  assumes sim: "simulates K g G w s" and go: "act K G (Exit i dn) w = Some w'"
  shows "\<exists>s'. sstep g s (Exit i dn) s' \<and> simulates K g G w' s'"
proof -
  have alive: "pc w i \<noteq> Gone"
    and w': "w' = w\<lparr>kern := k_exit K i (kern w), seg := torn (G i) dn (pc w i) (seg w), pc := (pc w)(i := Gone)\<rparr>"
    using go by (auto split: if_splits)
  have K: "kernel_ok K" and lock: "lock_inv K (kern w) (pc w)" and peers: "peers g G" and ring: "mq_ring g (seg w)"
    and fit: "fits g (seg w) (status s j) (pc w j)" for j
    using sim by (auto simp: simulates_def)
  note seg = torn_ok [OF ring peersD(2,3) [OF peers] fit, of i dn i]
  have "status s i \<noteq> S_gone"
    using fit [of i] alive by (cases "pc w i") (auto simp: enqueuing_def dequeuing_def)
  moreover have "sem_val K (kern w) = None" if "sem_val K (k_exit K i (kern w)) = None"
  proof (rule ccontr)
    assume "sem_val K (kern w) \<noteq> None"
    then obtain v where v: "sem_val K (kern w) = Some v" by auto
    with lock_invD(5,6) [OF lock v] have "0 \<le> v + sem_adj K (kern w) i" "v + sem_adj K (kern w) i < 32768"
      by (auto split: if_splits)
    from proc_exit(1) [OF K v this] that show False by simp
  qed
  moreover have "fits g (torn (G i) dn (pc w i) (seg w)) (status s j) (pc w j)" if "j \<noteq> i" for j
  proof (cases "in_cs (pc w i)")
    case True
    with lock_invD(1) [OF lock] that have "\<not> in_cs (pc w j)" by blast
    then show ?thesis using fit by (rule fits_outside)
  next
    case False
    with seg(3) fit show ?thesis by simp
  qed
  ultimately have "simulates K g G w' (s\<lparr>status := (status s)(i := S_gone)\<rparr>)"
    using sim lock_inv_exit [OF K lock, of i] seg(1,2) by (auto simp: simulates_def w')
  with s_exit [OF \<open>status s i \<noteq> S_gone\<close>] show ?thesis by blast
qed

interpretation procs: forward_simulation "wstep K G" "sstep g" "simulates K g G" label_fits for K g G
proof
  fix c :: "'a world" and a l c'
  assume "simulates K g G c a" "label_fits l" "wstep K G c l c'"
  then show "\<exists>a'. sstep g a l a' \<and> simulates K g G c' a'"
    by (cases l) (simp_all only: label_fits.simps simulate_call simulate_tau simulate_return simulate_close simulate_exit)
qed

end
