(* ===== verification/Shmmq_Procs_Props.thy ===== *)
theory Shmmq_Procs_Props
  imports Shmmq_Procs_Inv
begin

text \<open>
  What holds of the processes of \<open>Shmmq_Procs\<close> under every scheduler: they refine the list
  specification, exclude each other, never stop for good, finish every call after a bounded
  number of statements and survive each other's death. Then what breaks when a second
  process creates the queue.
\<close>

section \<open>Executions\<close>

text \<open>At the start the queue has been created and no process is in a call.\<close>

definition procs_start :: "'k kernel \<Rightarrow> globals \<Rightarrow> (nat \<Rightarrow> globals) \<Rightarrow> 'k world \<Rightarrow> bool" where
  "procs_start K g G w \<longleftrightarrow> kernel_ok K \<and> peers g G \<and> mq_ring g (seg w) \<and> (\<forall>i. pc w i = Idle)
     \<and> sem_val K (kern w) = Some 1 \<and> sem_adj K (kern w) = (\<lambda>_. 0)"

definition spec_start :: "globals \<Rightarrow> 'k world \<Rightarrow> spec" where
  "spec_start g w = \<lparr>queue = mq_items g (seg w), broken = False, status = (\<lambda>_. S_idle)\<rparr>"

lemma start_simulates: "procs_start K g G w \<Longrightarrow> simulates K g G w (spec_start g w)"
  by (simp add: procs_start_def simulates_def spec_start_def lock_inv_def)

text \<open>The states that well-behaved calls reach: no second creation, and buffers as long as claimed.\<close>

definition reached :: "'k kernel \<Rightarrow> globals \<Rightarrow> (nat \<Rightarrow> globals) \<Rightarrow> 'k world \<Rightarrow> label list \<Rightarrow> 'k world \<Rightarrow> bool" where
  "reached K g G w ls w' \<longleftrightarrow>
     procs_start K g G w \<and> (\<forall>l \<in> set ls. label_fits l) \<and> run (wstep K G) w ls w'"

lemma reached_simulates:
  assumes "reached K g G w ls w'"
  obtains s where "run (sstep g) (spec_start g w) ls s" "simulates K g G w' s"
  using assms procs.run_simulated [OF _ start_simulates] unfolding reached_def by blast

lemma holder_not_blocked:
  assumes sim: "simulates K g G w s" and i: "in_cs (pc w i)"
  obtains q k sg where "stmt K (G i) i (pc w i) (kern w) (seg w) = Goes q k sg"
proof -
  let ?st = "stmt K (G i) i (pc w i) (kern w) (seg w)"
  have K: "kernel_ok K" and lock: "lock_inv K (kern w) (pc w)" using sim by (simp_all add: simulates_def)
  have "after_v (proc_v K i (kern w)) r b (seg w) \<noteq> Blocked" for r b
    by (rule proc_v_cases [OF K, where k = "kern w" and i = i])
      (use lock_invD(2) [OF lock _ i] in \<open>auto simp: after_v_def\<close>)
  then have "?st \<noteq> Blocked"
    using i by (cases "pc w i") (auto simp: Let_def split: option.splits)
  moreover note stmt_followed(1) [OF sim, of i]
  ultimately show ?thesis using that by (cases ?st) auto
qed

section \<open>Properties\<close>

text \<open>
  C2. The queue is linearizable: whatever the scheduler does, and whoever dies at whatever
  statement, the calls and returns that the processes see are those of a list on which every
  call takes effect at one moment between its start and its return. A full list refuses an item,
  an empty one has none to hand out, and an error without an effect needs a removed semaphore
  or wrong arguments. At the end the segment holds exactly the list.
\<close>
theorem shmmq_linearizable:
  assumes "reached K g G w ls w'"
  shows "\<exists>s. run (sstep g) (spec_start g w) ls s \<and> queue s = mq_items g (seg w') \<and> mq_ring g (seg w')"
  using reached_simulates [OF assms] unfolding simulates_def by metis

text \<open>
  C5. Mutual exclusion and safety of processes that have the queue open (each has attached the segment, calls
  nothing after its own \<open>shmmq_close\<close>, and none creates the queue a second time), under every scheduler and with deaths at any
  statement: at most one process is between locking and unlocking the semaphore, and no process is about to
  divide by zero or to copy outside of the segment or of its caller's buffer. What a call after \<open>shmmq_close\<close>
  does is not part of it: \<open>cocd_child_undefined\<close>.
\<close>
theorem shmmq_mutual_exclusion:
  assumes "reached K g G w ls w'"
  shows "(in_cs (pc w' i) \<longrightarrow> in_cs (pc w' j) \<longrightarrow> i = j)
    \<and> stmt K (G i) i (pc w' i) (kern w') (seg w') \<noteq> Undefined"
proof -
  from reached_simulates [OF assms] obtain s where sim: "simulates K g G w' s" by blast
  then have "lock_inv K (kern w') (pc w')" by (simp add: simulates_def)
  from lock_invD(1) [OF this] stmt_followed(1) [OF sim] show ?thesis by blast
qed

text \<open>
  C15. No deadlock: as long as a process is in a call, that process or the one in its critical
  section can go on.
\<close>
theorem shmmq_never_stuck:
  assumes "reached K g G w ls w'" and "pc w' i \<notin> {Idle, Closed, Gone}"
  shows "\<exists>j r b. (j = i \<or> in_cs (pc w' j)) \<and> (act K G (Tau j) w' \<noteq> None \<or> act K G (Return j r b) w' \<noteq> None)"
proof -
  from reached_simulates [OF assms(1)] obtain s where sim: "simulates K g G w' s" by blast
  let ?st = "stmt K (G i) i (pc w' i) (kern w') (seg w')"
  show ?thesis
  proof (cases ?st)
    case (Goes q k sg)
    then show ?thesis by auto
  next
    case Undefined
    with stmt_followed(1) [OF sim] show ?thesis by blast
  next
    case Blocked
    have K: "kernel_ok K" and lock: "lock_inv K (kern w') (pc w')" and fit: "fits g (seg w') (status s i) (pc w' i)"
      using sim by (simp_all add: simulates_def)
    have holder: ?thesis if j: "in_cs (pc w' j)" for j
    proof -
      obtain q k sg where "stmt K (G j) j (pc w' j) (kern w') (seg w') = Goes q k sg"
        by (rule holder_not_blocked [OF sim j])
      then have "act K G (Tau j) w' \<noteq> None" by simp
      with j show ?thesis by blast
    qed
    have wait: ?thesis if "after_p (proc_p K i (kern w')) q b sg = Blocked" for q b sg
    proof (rule proc_p_cases [OF K, where k = "kern w'" and i = i])
      show "\<forall>v. sem_val K (kern w') = Some v \<longrightarrow> v \<le> 1" using lock_invD(5) [OF lock] by blast
    next
      fix v assume "sem_val K (kern w') = Some v" "v \<le> 0"
      with lock_invD(4) [OF lock] holder show ?thesis by blast
    qed (use that in \<open>auto simp: after_p_def\<close>)
    show ?thesis
    proof (cases "in_cs (pc w' i)")
      case False
      have "\<exists>r b. act K G (Return i r b) w' \<noteq> None" if "pc w' i = Ret r b" for r b
        using that by auto
      with False Blocked fit assms(2) wait show ?thesis
        by (cases "pc w' i") (auto split: option.splits)
    qed (rule holder)
  qed
qed

text \<open>How many statements a process has left until it returns.\<close>

fun statements_left :: "pc \<Rightarrow> nat" where
  "statements_left (Enq_args item sz) = 7"
| "statements_left (Enq_p buf sz) = 6"
| "statements_left (Enq_test buf sz) = 5"
| "statements_left (Enq_pos buf sz) = 4"
| "statements_left (Enq_copy buf sz pos) = 3"
| "statements_left (Enq_incr buf sz) = 2"
| "statements_left (Enq_v buf r) = 1"
| "statements_left (Deq_args item sz) = 7"
| "statements_left (Deq_p buf sz) = 6"
| "statements_left (Deq_test buf sz) = 5"
| "statements_left (Deq_pos buf sz) = 4"
| "statements_left (Deq_copy buf sz pos) = 3"
| "statements_left (Deq_incr buf sz) = 2"
| "statements_left (Deq_v buf r) = 1"
| "statements_left (Clr_args sf) = 4"
| "statements_left (Clr_p f) = 3"
| "statements_left (Clr_search f) = 2"
| "statements_left (Clr_v r) = 1"
| "statements_left Open_set = 4"
| "statements_left (Open_p c) = 3"
| "statements_left (Open_attach c) = 2"
| "statements_left Open_v = 1"
| "statements_left p = 0"

lemma statement_counts:
  "stmt K g i p k sg = Goes q k' sg' \<Longrightarrow> statements_left q < statements_left p"
  by (cases p) (auto simp: after_p_def after_v_def Let_def split: if_splits option.splits prod.splits)

lemma entry_counts: "statements_left (entry op) \<le> 7"
  by (simp add: entry_def split: qop.splits)

definition calls_of :: "nat \<Rightarrow> label list \<Rightarrow> nat" where
  "calls_of i ls = length (filter (\<lambda>l. case l of Call j op \<Rightarrow> j = i | _ \<Rightarrow> False) ls)"

definition statements_of :: "nat \<Rightarrow> label list \<Rightarrow> nat" where
  "statements_of i ls = length (filter (\<lambda>l. l = Tau i) ls)"

text \<open>
  Every call ends: a process executes at most seven statements for each of its calls,
  whatever the others do and whatever the kernel answers.
\<close>
theorem shmmq_calls_bounded:
  assumes "run (wstep K G) w ls w'"
  shows "statements_of i ls + statements_left (pc w' i) \<le> 7 * calls_of i ls + statements_left (pc w i)"
  using assms
proof (induction rule: run.induct)
  case (run_Nil s)
  then show ?case by (simp add: statements_of_def)
next
  case (run_snoc s ls t l u)
  have "statements_of i [l] + statements_left (pc u i) \<le> 7 * calls_of i [l] + statements_left (pc t i)"
    using run_snoc.hyps(2) entry_counts statement_counts [of K "G i" i "pc t i" "kern t" "seg t"]
    by (cases l) (auto simp: statements_of_def calls_of_def Suc_le_eq split: if_splits reaction.splits)
  then show ?case using run_snoc.IH by (simp add: statements_of_def calls_of_def)
qed

text \<open>The processes that wait for the lock.\<close>

fun waits :: "pc \<Rightarrow> bool" where
  "waits (Enq_p buf sz) = True"
| "waits (Deq_p buf sz) = True"
| "waits (Clr_p f) = True"
| "waits (Open_p c) = True"
| "waits p = False"

lemma waits_enters:
  assumes "kernel_ok K" "sem_val K k = Some 1" "waits p"
  obtains q k' where "stmt K g i p k sg = Goes q k' sg" "in_cs q"
proof (rule proc_p_cases [OF assms(1), where k = k and i = i])
  fix v k' assume "proc_p K i k = Some (0, k')"
  with assms(3) that show ?thesis by (cases p) (auto simp: after_p_def)
qed (use assms in auto)

text \<open>
  C14. A process that dies at any statement, even in the middle of its \<open>memcpy\<close> into the segment with any of the
  bytes written, leaves the queue as it was: the items are those that the finished enqueues and
  dequeues account for. Unless the semaphore has been removed, it is afterwards 0 exactly when one of the
  other processes is in its critical section, and 1 otherwise: the operation of a process that dies in its critical section is
  undone, because \<open>semaphore_p\<close> and \<open>semaphore_v\<close> ask for it with \<open>SEM_UNDO\<close>, and then every process that waits for the lock can take it.
\<close>
theorem shmmq_death_harmless:
  assumes "reached K g G w ls w'" and "act K G (Exit i dn) w' = Some w''"
  shows "mq_items g (seg w'') = mq_items g (seg w') \<and> mq_ring g (seg w'')
    \<and> (sem_val K (kern w') \<noteq> None \<longrightarrow> sem_val K (kern w'') = Some (if \<exists>j. in_cs (pc w'' j) then 0 else 1))
    \<and> (in_cs (pc w' i) \<and> sem_val K (kern w') \<noteq> None \<longrightarrow> (\<forall>j. \<not> in_cs (pc w'' j)
        \<and> (waits (pc w'' j) \<longrightarrow> (\<exists>w3. act K G (Tau j) w'' = Some w3 \<and> in_cs (pc w3 j)))))"
proof -
  from reached_simulates [OF assms(1)] obtain s where sim: "simulates K g G w' s" by blast
  from simulate_exit [OF sim assms(2)] obtain s' where sim': "simulates K g G w'' s'" by blast
  have K: "kernel_ok K" and ring: "mq_ring g (seg w')" and lock: "lock_inv K (kern w') (pc w')" and peers: "peers g G"
    and fit: "fits g (seg w') (status s i) (pc w' i)" using sim by (simp_all add: simulates_def)
  have ring': "mq_ring g (seg w'')" and lock': "lock_inv K (kern w'') (pc w'')" using sim' by (simp_all add: simulates_def)
  have w'': "w'' = w'\<lparr>kern := k_exit K i (kern w'), seg := torn (G i) dn (pc w' i) (seg w'), pc := (pc w')(i := Gone)\<rparr>"
    using assms(2) by (auto split: if_splits)
  have items: "mq_items g (seg w'') = mq_items g (seg w')"
    using torn_ok(2) [OF ring peersD(2,3) [OF peers] fit, of i dn] by (simp add: w'')
  have semval: "sem_val K (kern w'') = Some (if \<exists>j. in_cs (pc w'' j) then 0 else 1)" if v: "sem_val K (kern w') = Some v" for v
  proof -
    have "0 \<le> v + sem_adj K (kern w') i" "v + sem_adj K (kern w') i < 32768"
      using lock_invD(5,6) [OF lock v] by (simp_all split: if_splits)
    from proc_exit(1) [OF K v this] obtain v' where "sem_val K (kern w'') = Some v'" by (simp add: w'')
    with lock' show ?thesis unfolding lock_inv_def by blast
  qed
  moreover have "\<not> in_cs (pc w'' j) \<and> (waits (pc w'' j) \<longrightarrow> (\<exists>w3. act K G (Tau j) w'' = Some w3 \<and> in_cs (pc w3 j)))"
    if i: "in_cs (pc w' i)" and v: "sem_val K (kern w') = Some v" for v j
  proof -
    have out: "\<not> in_cs (pc w'' j)" for j using lock_invD(1) [OF lock i, of j] by (auto simp: w'')
    then have "sem_val K (kern w'') = Some 1" using semval [OF v] by simp
    then have "\<exists>w3. act K G (Tau j) w'' = Some w3 \<and> in_cs (pc w3 j)" if "waits (pc w'' j)"
      using waits_enters [OF K _ that, of "kern w''" "G j" j "seg w''"] by fastforce
    with out show ?thesis by blast
  qed
  ultimately show ?thesis using items ring' by blast
qed

section \<open>A concrete kernel\<close>

text \<open>A semaphore as its value and its adjustments; \<open>None\<close> once it is removed.\<close>

definition sysv_semop ::
    "nat \<Rightarrow> int \<Rightarrow> int \<Rightarrow> (int \<times> (nat \<Rightarrow> int)) option \<Rightarrow> (int \<times> (int \<times> (nat \<Rightarrow> int)) option) option" where
  "sysv_semop i d f k = (case k of
     None \<Rightarrow> Some (-1, None)
   | Some (v, adj) \<Rightarrow>
       if v + d < 0 then None
       else if 32768 \<le> v + d then Some (-1, k)
       else Some (0, Some (v + d, if f = SEM_UNDO then adj(i := adj i - d) else adj)))"

definition sysv :: "(int \<times> (nat \<Rightarrow> int)) option kernel" where
  "sysv = \<lparr>k_semop = sysv_semop,
     k_setval = (\<lambda>v k. if k = None then (-1, None) else (0, Some (v, \<lambda>_. 0))),
     k_rmid = (\<lambda>k. (if k = None then -1 else 0, None)),
     k_exit = (\<lambda>i. map_option (\<lambda>(v, adj). (max 0 (v + adj i), adj(i := 0)))),
     sem_val = map_option fst,
     sem_adj = (\<lambda>k. case k of None \<Rightarrow> (\<lambda>_. 0) | Some (v, adj) \<Rightarrow> adj)\<rparr>"

lemma sysv_ok: "kernel_ok sysv"
  unfolding kernel_ok_def semop_ok_def exit_ok_def semctl_ok_def
  by (auto simp: sysv_def sysv_semop_def split: option.splits prod.splits)

definition example_world :: "(int \<times> (nat \<Rightarrow> int)) option world" where
  "example_world = \<lparr>kern = Some (1, \<lambda>_. 0), seg = example_segment, pc = (\<lambda>_. Idle)\<rparr>"

abbreviation example_procs :: "nat \<Rightarrow> globals" where
  "example_procs \<equiv> \<lambda>_. example_globals"

lemma example_peers: "peers example_globals example_procs"
  by (simp add: peers_def head_live_def example_globals_def DEFAULT_HEAD_SIZE_def)

lemma example_start: "procs_start sysv example_globals example_procs example_world"
  using sysv_ok example_peers example_ring by (simp add: procs_start_def example_world_def sysv_def)

lemmas example_eval = example_world_def example_globals_def example_segment_def entry_def proc_p_def proc_v_def
  proc_setval_def sysv_def sysv_semop_def after_p_def after_v_def head_live_def DEFAULT_HEAD_SIZE_def
  read_bytes_def write_bytes_def word_sle_eq word_sless_alt

text \<open>
  Process 0 enqueues and process 1 dequeues, interleaved; process 1 is blocked until process 0
  unlocks, and dies in its critical section after it has copied the item.
\<close>

definition example_labels :: "label list" where
  "example_labels =
     [Call 0 (Op_enqueue (Some [7, 9]) 2), Call 1 (Op_dequeue (Some [0, 0]) 2), Tau 0, Tau 0, Tau 1, Tau 0,
      Tau 0, Tau 0, Tau 0, Tau 0, Tau 1, Return 0 SUCCESS (Some [7, 9]), Tau 1, Tau 1, Tau 1]"

lemma example_labels_fit: "\<forall>l \<in> set example_labels. label_fits l"
  by (simp add: example_labels_def op_fits_def)

lemma example_run:
  "\<exists>w. run_fun (act sysv example_procs) example_labels example_world = Some w
     \<and> pc w 1 = Deq_incr [7, 9] 2 \<and> seg w = example_segment1"
  by (simp add: example_labels_def example_eval example_segment1_def) (simp add: numeral_eq_Suc)

lemma example_reached:
  obtains w where "reached sysv example_globals example_procs example_world example_labels w"
    "pc w 1 = Deq_incr [7, 9] 2" "seg w = example_segment1"
proof -
  obtain w where w: "run_fun (act sysv example_procs) example_labels example_world = Some w"
    "pc w 1 = Deq_incr [7, 9] 2" "seg w = example_segment1" using example_run by blast
  then have "run (wstep sysv example_procs) example_world example_labels w" by (simp add: run_iff_fun)
  with w that show ?thesis using example_start example_labels_fit unfolding reached_def by blast
qed

theorem shmmq_linearizable_witness:
  "\<exists>s. run (sstep example_globals) (spec_start example_globals example_world) example_labels s
     \<and> queue s = [[7, 9]]"
proof -
  obtain w where "reached sysv example_globals example_procs example_world example_labels w"
    "seg w = example_segment1" using example_reached .
  from shmmq_linearizable [OF this(1)] this(2) show ?thesis by (auto simp: example_items1)
qed

theorem shmmq_mutual_exclusion_witness:
  "\<exists>w. run_fun (act sysv example_procs) example_labels example_world = Some w \<and> in_cs (pc w 1) \<and> \<not> in_cs (pc w 0)"
proof -
  obtain w where w: "reached sysv example_globals example_procs example_world example_labels w"
    "pc w 1 = Deq_incr [7, 9] 2" using example_reached .
  from shmmq_mutual_exclusion [OF w(1), of 1 0] w show ?thesis by (auto simp: reached_def run_iff_fun)
qed

theorem shmmq_never_stuck_witness:
  "\<exists>w j r b. run_fun (act sysv example_procs) example_labels example_world = Some w
     \<and> (j = 1 \<or> in_cs (pc w j))
     \<and> (act sysv example_procs (Tau j) w \<noteq> None \<or> act sysv example_procs (Return j r b) w \<noteq> None)"
proof -
  obtain w where w: "reached sysv example_globals example_procs example_world example_labels w"
    "pc w 1 = Deq_incr [7, 9] 2" using example_reached .
  from shmmq_never_stuck [OF w(1), of 1] w show ?thesis by (auto simp: reached_def run_iff_fun)
qed

theorem shmmq_calls_bounded_witness:
  "statements_of 0 example_labels \<le> 7 * calls_of 0 example_labels"
proof -
  obtain w where "reached sysv example_globals example_procs example_world example_labels w"
    using example_reached .
  then have "run (wstep sysv example_procs) example_world example_labels w" by (simp add: reached_def)
  from shmmq_calls_bounded [OF this, of 0] show ?thesis by (simp add: example_world_def)
qed

text \<open>Process 0 dies when it has copied only the second of the two bytes of its item, and process 1 can lock the semaphore.\<close>

definition death_labels :: "label list" where
  "death_labels =
     [Call 0 (Op_enqueue (Some [7, 9]) 2), Call 1 (Op_dequeue (Some [0, 0]) 2), Tau 0, Tau 0, Tau 1, Tau 0, Tau 0]"

lemma death_run:
  "\<exists>w. run_fun (act sysv example_procs) death_labels example_world = Some w
     \<and> pc w 0 = Enq_copy [7, 9] 2 0 \<and> pc w 1 = Deq_p [0, 0] 2 \<and> seg w = example_segment \<and> kern w \<noteq> None"
  by (simp add: death_labels_def example_eval)

theorem shmmq_death_harmless_witness:
  "\<exists>w w' w3. run_fun (act sysv example_procs) death_labels example_world = Some w
     \<and> act sysv example_procs (Exit 0 (\<lambda>j. j = 1)) w = Some w' \<and> mq_items example_globals (seg w') = []
     \<and> take 2 (content (seg w')) = [0, 9] \<and> act sysv example_procs (Tau 1) w' = Some w3 \<and> in_cs (pc w3 1)"
proof -
  obtain w where w: "run_fun (act sysv example_procs) death_labels example_world = Some w"
    "pc w 0 = Enq_copy [7, 9] 2 0" "pc w 1 = Deq_p [0, 0] 2" "seg w = example_segment" "kern w \<noteq> None"
    using death_run by blast
  have "\<forall>l \<in> set death_labels. label_fits l" by (simp add: death_labels_def op_fits_def)
  with w(1) have r: "reached sysv example_globals example_procs example_world death_labels w"
    using example_start unfolding reached_def run_iff_fun by blast
  obtain w' where w': "act sysv example_procs (Exit 0 (\<lambda>j. j = 1)) w = Some w'" using w(2) by simp
  have "in_cs (pc w 0)" "sem_val sysv (kern w) \<noteq> None" "waits (pc w' 1)" using w w' by (auto simp: sysv_def)
  with shmmq_death_harmless [OF r w'] obtain w3 where
    "mq_items example_globals (seg w') = mq_items example_globals example_segment"
    "act sysv example_procs (Tau 1) w' = Some w3" "in_cs (pc w3 1)" unfolding w(4) by blast
  moreover have "mq_items example_globals example_segment = []"
    by (simp add: mq_items_def mq_len_def example_segment_def)
  moreover have "take 2 (content (seg w')) = [0, 9]"
    using w w' by (auto simp: torn_def example_globals_def example_segment_def read_bytes_def write_bytes_def upt_rec)
  ultimately show ?thesis using w(1) w' by (intro exI [of _ w] exI [of _ w'] exI [of _ w3]) simp
qed

section \<open>A second creator\<close>

lemma sem_free:
  assumes "kernel_ok K" "sem_val K k = Some 1"
  obtains k1 where "proc_p K i k = Some (0, k1)" "sem_val K k1 = Some 0"
proof (rule proc_p_cases [OF assms(1), where k = k and i = i])
  fix v k' assume "sem_val K k = Some v" "proc_p K i k = Some (0, k')" "sem_val K k' = Some (v - 1)"
  with assms(2) that show ?thesis by simp
qed (use assms in auto)

lemma sem_held:
  assumes "kernel_ok K" "sem_val K k = Some 0"
  obtains k1 where "proc_v K i k = Some (0, k1)" "sem_val K k1 = Some 1"
  by (rule proc_v_cases [OF assms(1), where k = k and i = i]) (use assms that in auto)

lemma open_set_go:
  assumes "kernel_ok K" "sem_val K k = Some v"
  obtains k' where "proc_setval K k = (0, k')" "sem_val K k' = Some 1"
proof -
  have "fst (k_setval K 1 k) = 0" "sem_val K (snd (k_setval K 1 k)) = Some 1"
    using assms unfolding kernel_ok_def semctl_ok_def by auto
  then show ?thesis using that [of "snd (k_setval K 1 k)"] by (simp add: proc_setval_def apfst_def map_prod_def split_def)
qed

text \<open>
  C39. Creating a queue that is in use breaks it: in whatever state, when a process \<open>i\<close> is in its critical section
  and another one calls \<open>shmmq_open (1, ...)\<close>, that call sets the semaphore to 1 and locks it, so that both are in
  their critical sections; it sets the positions to the beginning, so that every waiting item is lost; and it
  unlocks the semaphore although \<open>i\<close> has not left its critical section, so that a third process can enter too.
\<close>
theorem shmmq_recreate_breaks_lock:
  assumes "reached K g G w ls w0" "in_cs (pc w0 i)" "pc w0 j = Idle" "sem_val K (kern w0) \<noteq> None"
  shows "\<exists>w1 w2 w3 w4. run (wstep K G) w0 [Call j (Op_open True), Tau j] w1 \<and> sem_val K (kern w1) = Some 1
    \<and> wstep K G w1 (Tau j) w2 \<and> in_cs (pc w2 i) \<and> in_cs (pc w2 j) \<and> i \<noteq> j
    \<and> wstep K G w2 (Tau j) w3 \<and> mq_items g (seg w3) = []
    \<and> wstep K G w3 (Tau j) w4 \<and> sem_val K (kern w4) = Some 1 \<and> in_cs (pc w4 i) \<and> pc w4 j = Ret SUCCESS None"
proof -
  from reached_simulates [OF assms(1)] obtain s where sim: "simulates K g G w0 s" by blast
  then have K: "kernel_ok K" by (simp add: simulates_def)
  have ne: "i \<noteq> j" using assms(2,3) by auto
  from assms(4) obtain v where v: "sem_val K (kern w0) = Some v" by auto
  obtain k1 where k1: "proc_setval K (kern w0) = (0, k1)" "sem_val K k1 = Some 1" using open_set_go [OF K v] .
  obtain k2 where k2: "proc_p K j k1 = Some (0, k2)" "sem_val K k2 = Some 0" using sem_free [OF K k1(2)] .
  obtain k3 where k3: "proc_v K j k2 = Some (0, k3)" "sem_val K k3 = Some 1" using sem_held [OF K k2(2)] .
  let ?w1 = "w0\<lparr>kern := k1, pc := (pc w0)(j := Open_p True)\<rparr>"
  let ?w2 = "?w1\<lparr>kern := k2, pc := (pc w0)(j := Open_attach True)\<rparr>"
  let ?w3 = "?w2\<lparr>seg := (seg w0)\<lparr>enq_pos := -1, deq_pos := -1\<rparr>, pc := (pc w0)(j := Open_v)\<rparr>"
  let ?w4 = "?w3\<lparr>kern := k3, pc := (pc w0)(j := Ret SUCCESS None)\<rparr>"
  have "run (wstep K G) w0 [Call j (Op_open True), Tau j] ?w1"
    unfolding run_iff_fun using assms(3) k1 by (simp add: entry_def)
  moreover have "wstep K G ?w1 (Tau j) ?w2" using k2 by (simp add: after_p_def)
  moreover have "wstep K G ?w2 (Tau j) ?w3" by simp
  moreover have "wstep K G ?w3 (Tau j) ?w4" using k3 by (simp add: after_v_def)
  moreover have "mq_items g (seg ?w3) = []" by (simp add: mq_items_def mq_len_def)
  ultimately show ?thesis using k1(2) k3(2) ne assms(2)
    by (intro exI [of _ ?w1] exI [of _ ?w2] exI [of _ ?w3] exI [of _ ?w4]) simp
qed

text \<open>
  Process 0 is about to copy its item when process 1 creates the queue again; process 2 then
  locks the semaphore that \<open>set_semvalue\<close> has put back to 1.
\<close>

definition busy_labels :: "label list" where
  "busy_labels = [Call 0 (Op_enqueue (Some [7, 9]) 2), Tau 0, Tau 0, Tau 0, Tau 0]"

theorem shmmq_recreate_breaks_lock_witness:
  "\<exists>w w1. run (wstep sysv example_procs) example_world busy_labels w \<and> in_cs (pc w 0)
    \<and> run (wstep sysv example_procs) w [Call 1 (Op_open True), Tau 1] w1 \<and> sem_val sysv (kern w1) = Some 1"
proof -
  have "\<exists>w. run_fun (act sysv example_procs) busy_labels example_world = Some w
     \<and> in_cs (pc w 0) \<and> pc w 1 = Idle \<and> kern w \<noteq> None"
    by (simp add: busy_labels_def example_eval)
  then obtain w where w: "run (wstep sysv example_procs) example_world busy_labels w"
    "in_cs (pc w 0)" "pc w 1 = Idle" "sem_val sysv (kern w) \<noteq> None"
    unfolding run_iff_fun by (auto simp: sysv_def)
  moreover have "\<forall>l \<in> set busy_labels. label_fits l" by (simp add: busy_labels_def op_fits_def)
  ultimately have "reached sysv example_globals example_procs example_world busy_labels w"
    using example_start by (simp add: reached_def)
  from shmmq_recreate_breaks_lock [OF this w(2-4)] w(1,2) show ?thesis by blast
qed

definition recreate_labels :: "label list" where
  "recreate_labels =
     [Call 0 (Op_enqueue (Some [7, 9]) 2), Tau 0, Tau 0, Tau 0, Tau 0,
      Call 1 (Op_open True), Tau 1, Tau 1, Tau 1, Tau 1, Return 1 SUCCESS None,
      Call 2 (Op_enqueue (Some [8, 8]) 2), Tau 2, Tau 2, Tau 2, Tau 2]"

definition finish_labels :: "label list" where
  "finish_labels =
     [Tau 0, Tau 0, Tau 2, Tau 2, Tau 0, Tau 2, Return 0 SUCCESS (Some [7, 9]), Return 2 SUCCESS (Some [8, 8])]"

text \<open>
  What comes of it when they go on: two processes enqueue at once, both are told that they succeeded, one item is
  lost, an item that nobody sent is waiting in its place, and the semaphore has the value 2, so
  that the lock excludes nobody from then on.
\<close>
theorem recreate_loses_item:
  "\<exists>w w'. run (wstep sysv example_procs) example_world recreate_labels w
     \<and> in_cs (pc w 0) \<and> in_cs (pc w 2)
     \<and> run (wstep sysv example_procs) w finish_labels w'
     \<and> mq_items example_globals (seg w') = [[8, 8], [0, 0]] \<and> sem_val sysv (kern w') = Some 2"
proof -
  let ?sg = "\<lparr>enq_pos = 1, deq_pos = -1, content = [8, 8, 0, 0, 0, 0, 0, 0]\<rparr>"
  have "\<exists>w w'. run_fun (act sysv example_procs) recreate_labels example_world = Some w
     \<and> in_cs (pc w 0) \<and> in_cs (pc w 2)
     \<and> run_fun (act sysv example_procs) finish_labels w = Some w'
     \<and> seg w' = ?sg \<and> sem_val sysv (kern w') = Some 2"
    by (simp add: recreate_labels_def finish_labels_def example_eval) (simp add: numeral_eq_Suc)
  then obtain w w' where "run_fun (act sysv example_procs) recreate_labels example_world = Some w"
    "in_cs (pc w 0)" "in_cs (pc w 2)" "run_fun (act sysv example_procs) finish_labels w = Some w'"
    "seg w' = ?sg" "sem_val sysv (kern w') = Some 2" by blast
  moreover have "mq_items example_globals ?sg = [[8, 8], [0, 0]]"
    by (simp add: mq_items_def nth_slot_def mq_len_def block_def slot_offset_def slot_size_def
        example_globals_def upt_rec)
  ultimately show ?thesis unfolding run_iff_fun by (intro exI [of _ w] exI [of _ w']) simp
qed

section \<open>A process that is alone\<close>

text \<open>Process \<open>i\<close> executes its call and nobody interferes; \<open>n\<close> bounds the statements.\<close>

fun alone :: "nat \<Rightarrow> 'k kernel \<Rightarrow> globals \<Rightarrow> nat \<Rightarrow> pc \<Rightarrow> 'k \<Rightarrow> segment \<Rightarrow> 'k reaction" where
  "alone 0 K g i p k sg = Goes p k sg"
| "alone (Suc n) K g i p k sg =
     (case stmt K g i p k sg of
        Goes q k' sg' \<Rightarrow> (case q of Ret r b \<Rightarrow> Goes q k' sg' | _ \<Rightarrow> alone n K g i q k' sg')
      | x \<Rightarrow> x)"

lemma numeral_7: "7 = Suc (Suc (Suc (Suc (Suc (Suc (Suc 0))))))"
  by simp

lemma sem_calls_ok:
  "semaphore_p os_ok semid = (0, [SEMOP semid (-1) SEM_UNDO])"
  "semaphore_v os_ok semid = (0, [SEMOP semid 1 SEM_UNDO])"
  using os_ok_sem_ok by (simp_all add: semaphore_p_def semaphore_v_def sem_ok_def)

lemma enqueue_alone:
  assumes "proc_p K i k = Some (0, k1)" "proc_v K i k1 = Some (0, k2)"
  shows "case shmmq_enqueue os_ok g sg item sz of
      None \<Rightarrow> alone 7 K g i (entry (Op_enqueue item sz)) k sg = Undefined
    | Some (ret, sg', calls) \<Rightarrow>
        \<exists>k'\<in>{k, k2}. alone 7 K g i (entry (Op_enqueue item sz)) k sg = Goes (Ret ret item) k' sg'"
  using assms
  by (cases item)
    (auto simp: entry_def numeral_7 shmmq_enqueue_def sem_calls_ok enqueue_cs_def after_p_def after_v_def
      slot_offset_def split: option.splits bind_splits)

lemma dequeue_alone:
  assumes "proc_p K i k = Some (0, k1)" "proc_v K i k1 = Some (0, k2)"
  shows "case shmmq_dequeue os_ok g sg item sz of
      None \<Rightarrow> alone 7 K g i (entry (Op_dequeue item sz)) k sg = Undefined
    | Some (ret, item', sg', calls) \<Rightarrow>
        \<exists>k'\<in>{k, k2}. alone 7 K g i (entry (Op_dequeue item sz)) k sg = Goes (Ret ret item') k' sg'"
proof -
  have "write_bytes buf 0 [] = Some buf" for buf by (simp add: write_bytes_def)
  then show ?thesis using assms
    by (cases item)
      (auto simp: entry_def numeral_7 shmmq_dequeue_def sem_calls_ok dequeue_cs_def after_p_def after_v_def
        slot_offset_def split: option.splits bind_splits)
qed

text \<open>
  The statements of a call, executed by a process that nobody disturbs, are the operation
  of \<open>Shmmq\<close>: the same code is returned, the same buffer and segment are left, the operation is
  undefined exactly when a statement is, and the semaphore is free again.
\<close>
theorem shmmq_statements_are_the_call:
  assumes "kernel_ok K" "sem_val K k = Some 1"
  shows "(case shmmq_enqueue os_ok g sg item sz of
      None \<Rightarrow> alone 7 K g i (entry (Op_enqueue item sz)) k sg = Undefined
    | Some (ret, sg', calls) \<Rightarrow> \<exists>k'. sem_val K k' = Some 1
        \<and> alone 7 K g i (entry (Op_enqueue item sz)) k sg = Goes (Ret ret item) k' sg')
   \<and> (case shmmq_dequeue os_ok g sg item sz of
      None \<Rightarrow> alone 7 K g i (entry (Op_dequeue item sz)) k sg = Undefined
    | Some (ret, item', sg', calls) \<Rightarrow> \<exists>k'. sem_val K k' = Some 1
        \<and> alone 7 K g i (entry (Op_dequeue item sz)) k sg = Goes (Ret ret item') k' sg')"
proof -
  obtain k1 where p: "proc_p K i k = Some (0, k1)" "sem_val K k1 = Some 0" using sem_free [OF assms] .
  obtain k2 where v: "proc_v K i k1 = Some (0, k2)" "sem_val K k2 = Some 1" using sem_held [OF assms(1) p(2)] .
  show ?thesis using enqueue_alone [OF p(1) v(1), of g item sz sg] dequeue_alone [OF p(1) v(1), of g item sz sg] v(2) assms(2)
    by (auto split: option.splits prod.splits)
qed

theorem shmmq_statements_are_the_call_witness:
  "\<exists>k'. alone 7 sysv example_globals 0 (entry (Op_dequeue (Some [0, 0]) 2)) (Some (1, \<lambda>_. 0)) example_segment1
    = Goes (Ret SUCCESS (Some [7, 9])) k' (example_segment1\<lparr>deq_pos := 0\<rparr>)"
proof -
  have "shmmq_dequeue os_ok example_globals example_segment1 (Some [0, 0]) 2
      = Some (SUCCESS, Some [7, 9], example_segment1\<lparr>deq_pos := 0\<rparr>, lock_calls example_globals)"
    by (simp add: shmmq_dequeue_def sem_calls_ok dequeue_cs_def head_live_def example_globals_def
        example_segment1_def DEFAULT_HEAD_SIZE_def slot_offset_def read_bytes_def write_bytes_def
        word_sle_eq word_sless_alt)
  with shmmq_statements_are_the_call [OF sysv_ok, where k = "Some (1, \<lambda>_. 0)" and g = example_globals
      and sg = example_segment1 and item = "Some [0, 0]" and sz = 2 and i = 0]
  show ?thesis by (auto simp: sysv_def)
qed

end
