(* ===== verification/Shmmq_Pipe.thy ===== *)
theory Shmmq_Pipe
  imports Shmmq_Procs_Props
begin

text \<open>
  The use that \<open>shmmq/test/test_cocd.c\<close> makes of the queue: one process sends, one receives, both
  at any pace. From the list specification of \<open>Shmmq_Procs\<close> it follows what the receiver sees.
\<close>

section \<open>What was sent and what was received\<close>

text \<open>The first \<open>n\<close> bytes of the buffers with which process \<open>i\<close> returned successfully, in order.\<close>

fun returned :: "nat \<Rightarrow> nat \<Rightarrow> label list \<Rightarrow> bytes list" where
  "returned n i [] = []"
| "returned n i (Return j SUCCESS (Some b) # ls) = (if j = i then [take n b] else []) @ returned n i ls"
| "returned n i (l # ls) = returned n i ls"

lemma returned_append: "returned n i (ls @ ms) = returned n i ls @ returned n i ms"
  by (induction n i ls rule: returned.induct) auto

text \<open>Only \<open>p\<close> enqueues, only \<open>c\<close> dequeues, messages have \<open>n\<close> bytes; nobody removes the queue.\<close>

fun pipe_label :: "u32 \<Rightarrow> nat \<Rightarrow> nat \<Rightarrow> label \<Rightarrow> bool" where
  "pipe_label n p c (Call i (Op_enqueue b sz)) = (i = p \<and> sz = n)"
| "pipe_label n p c (Call i (Op_dequeue b sz)) = (i = c \<and> sz = n)"
| "pipe_label n p c (Exit i dn) = (i \<noteq> p \<and> i \<noteq> c)"
| "pipe_label n p c (Close i isdestroyed) = (\<not> isdestroyed)"
| "pipe_label n p c l = True"

text \<open>What a process has got done but not yet returned from.\<close>

fun pending :: "nat \<Rightarrow> status \<Rightarrow> bytes list" where
  "pending n (S_done SUCCESS (Some b)) = [take n b]"
| "pending n st = []"

lemma pending_length: "length (pending n st) \<le> 1"
  by (induction n st rule: pending.induct) auto

definition pipe_inv :: "globals \<Rightarrow> u32 \<Rightarrow> nat \<Rightarrow> nat \<Rightarrow> label list \<Rightarrow> spec \<Rightarrow> bool" where
  "pipe_inv g n p c ls s \<longleftrightarrow>
     \<not> broken s \<and> (\<forall>x \<in> set (queue s). length x = slot_size g)
   \<and> (\<forall>i op. status s i = S_called op \<longrightarrow> pipe_label n p c (Call i op))
   \<and> returned (unat n) p ls @ pending (unat n) (status s p)
       = returned (unat n) c ls @ pending (unat n) (status s c) @ map (take (unat n)) (queue s)"

inductive_cases effect_enqueueE: "effect g (Op_enqueue b sz) xs r b' xs'"
inductive_cases effect_dequeueE: "effect g (Op_dequeue b sz) xs r b' xs'"
inductive_cases effect_clearE: "effect g (Op_clear f) xs r b xs'"
inductive_cases effect_openE: "effect g (Op_open cr) xs r b xs'"

text \<open>An effect moves one message from the sender's hand to the queue or from there to the receiver's.\<close>

lemma effect_pipe:
  assumes "effect g op xs r b xs'" "pipe_label n p c (Call i op)" "unat n \<le> slot_size g" "p \<noteq> c"
    and "\<forall>x \<in> set xs. length x = slot_size g"
  shows "(\<forall>x \<in> set xs'. length x = slot_size g)
    \<and> (if i = p then map (take (unat n)) xs' = map (take (unat n)) xs @ pending (unat n) (S_done r b)
       else if i = c then map (take (unat n)) xs = pending (unat n) (S_done r b) @ map (take (unat n)) xs'
       else xs' = xs)"
proof (cases op)
  case (Op_enqueue b0 sz)
  with assms show ?thesis by (auto elim!: effect_enqueueE)
next
  case (Op_dequeue b0 sz)
  with assms show ?thesis by (auto elim!: effect_dequeueE)
next
  case (Op_clear f)
  with assms show ?thesis by (auto elim!: effect_clearE)
next
  case (Op_open cr)
  with assms show ?thesis by (auto elim!: effect_openE)
qed

lemma sstep_pipe:
  assumes "sstep g s l t" "pipe_inv g n p c ls s" "pipe_label n p c l" "unat n \<le> slot_size g" "p \<noteq> c"
  shows "pipe_inv g n p c (ls @ [l]) t"
  using assms(1)
proof cases
  case (s_effect i op r b xs)
  have called: "pipe_label n p c (Call i op)" and len: "\<forall>x \<in> set (queue s). length x = slot_size g"
    using s_effect assms(2) by (simp_all add: pipe_inv_def)
  note moved = effect_pipe [OF s_effect(4) called assms(4,5) len]
  let ?M = "map (take (unat n))" and ?P = "pending (unat n)" and ?R = "\<lambda>j. returned (unat n) j ls"
  have eq: "?R p @ ?P (status s p) = ?R c @ ?P (status s c) @ ?M (queue s)"
    and rest: "\<not> broken s" "\<forall>i op. status s i = S_called op \<longrightarrow> pipe_label n p c (Call i op)"
    using assms(2) by (simp_all add: pipe_inv_def)
  let ?st = "(status s)(i := S_done r b)"
  have "?R p @ ?P (?st p) = ?R c @ ?P (?st c) @ ?M xs"
  proof (cases "i = p \<or> i = c")
    case True
    then show ?thesis using moved eq s_effect(3) assms(5) by (elim disjE) simp_all
  next
    case False
    then show ?thesis using moved eq by auto
  qed
  then show ?thesis unfolding s_effect(1,2) using moved rest
    by (simp add: pipe_inv_def returned_append)
next
  case (s_return i r b)
  have "returned (unat n) j [l] = (if j = i then pending (unat n) (status s i) else [])" for j
    unfolding s_return by (cases r; cases b) auto
  then show ?thesis using s_return assms(2,5)
    by (auto simp: pipe_inv_def returned_append)
qed (use assms(2,3,5) in \<open>auto simp: pipe_inv_def returned_append\<close>)

lemma run_pipe:
  assumes "run (sstep g) s ls t" "pipe_inv g n p c [] s" "\<forall>l \<in> set ls. pipe_label n p c l"
    and "unat n \<le> slot_size g" "p \<noteq> c"
  shows "pipe_inv g n p c ls t"
  using assms(1,2,3)
proof (induction rule: run.induct)
  case (run_snoc s ls t l u)
  then show ?case using sstep_pipe [OF run_snoc.hyps(2) _ _ assms(4,5)] by auto
qed

text \<open>
  C3. Messages: when one process sends and one receives, in any interleaving with each other
  and with processes that open, search or close the queue, the messages received so far and those
  still in the segment are the messages whose sending succeeded, in the order of sending, none lost,
  doubled or altered; up to one message of a call that has had its effect and has not returned yet.
\<close>
theorem shmmq_messages_in_order:
  assumes "reached K g G w ls w'" "mq_items g (seg w) = []"
    and "\<forall>l \<in> set ls. pipe_label n p c l" "size_ok g n" "p \<noteq> c"
  shows "\<exists>ps cs. returned (unat n) p ls @ ps = returned (unat n) c ls @ cs @ map (take (unat n)) (mq_items g (seg w'))
    \<and> length ps \<le> 1 \<and> length cs \<le> 1
    \<and> (pc w' p = Idle \<longrightarrow> ps = []) \<and> (pc w' c = Idle \<longrightarrow> cs = [])"
proof -
  from reached_simulates [OF assms(1)] obtain s
    where run: "run (sstep g) (spec_start g w) ls s" and sim: "simulates K g G w' s" .
  have fit: "fits g (seg w') (status s i) (pc w' i)" for i using sim by (simp add: simulates_def)
  have idle: "pending (unat n) (status s i) = []" if "pc w' i = Idle" for i
    using fit [of i] that by simp
  have "mq_ring g (seg w)" using assms(1) by (simp add: reached_def procs_start_def)
  then have "unat n \<le> slot_size g" using assms(4) by (rule ring_size)
  moreover have "pipe_inv g n p c [] (spec_start g w)"
    using assms(2) by (simp add: pipe_inv_def spec_start_def)
  ultimately have "pipe_inv g n p c ls s" using run_pipe [OF run _ assms(3)] assms(5) by blast
  then have "returned (unat n) p ls @ pending (unat n) (status s p)
      = returned (unat n) c ls @ pending (unat n) (status s c) @ map (take (unat n)) (mq_items g (seg w'))"
    using sim by (simp add: pipe_inv_def simulates_def)
  with pending_length idle show ?thesis by blast
qed

theorem shmmq_messages_in_order_witness:
  "\<exists>ps cs. returned 2 0 example_labels @ ps = returned 2 1 example_labels @ cs @ [[7, 9]]
    \<and> length ps \<le> 1 \<and> length cs \<le> 1"
proof -
  obtain w where w: "reached sysv example_globals example_procs example_world example_labels w"
    "seg w = example_segment1" using example_reached .
  have "mq_items example_globals (seg example_world) = []" by (simp add: example_world_def example_items)
  moreover have "\<forall>l \<in> set example_labels. pipe_label 2 0 1 l" by (simp add: example_labels_def)
  moreover have "map (take 2) (mq_items example_globals (seg w)) = [[7, 9]]" by (simp add: w(2) example_items1)
  ultimately show ?thesis
    using shmmq_messages_in_order [OF w(1), of 2 0 1, OF _ _ example_size_ok(2)] by simp blast
qed

end
