(* ===== verification/Shmmq_Tests.thy ===== *)
theory Shmmq_Tests
  imports Shmmq_Queue
begin

text \<open>
  The programs of \<open>shmmq/test/\<close> on the operations of \<open>Shmmq\<close>. What the kernel answers to the
  \<open>n\<close>-th operation of a program is \<open>os n\<close>, and \<open>others n\<close> is what other processes do to the segment
  before it. The lines that a program prints about its calls are part of its result; messages
  of progress are left out.
\<close>

section \<open>Shared parts\<close>

text \<open>The initial values of the globals.\<close>

definition process_globals :: globals where
  "process_globals = \<lparr>g_s_semid = -1, g_s_shmid = -1, g_s_mqsize = DEFAULT_MQ_SIZE,
     g_s_itemsize = DEFAULT_ITEM_SIZE, g_s_pbase = None, g_s_phead = None, g_s_pcontent = None, mapped = None\<rparr>"

text \<open>An \<open>int\<close> in memory (little-endian), and back.\<close>

definition int_bytes :: "u32 \<Rightarrow> bytes" where
  "int_bytes i = map (\<lambda>j. ucast (drop_bit (8 * j) i)) [0..<4]"

definition bytes_int :: "bytes \<Rightarrow> u32" where
  "bytes_int b = foldr (\<lambda>x w. push_bit 8 w OR ucast x) b 0"

text \<open>A printed line: the positions, the value and the return code.\<close>

type_synonym line = "u32 \<times> u32 \<times> u32 \<times> mq_ret"

definition enqueue_line :: "os \<Rightarrow> globals \<Rightarrow> segment \<Rightarrow> u32 \<Rightarrow> (segment \<times> line) option" where
  "enqueue_line os g sg i = do {
     (ret, sg, calls) \<leftarrow> shmmq_enqueue os g sg (Some (int_bytes i)) 4;
     e \<leftarrow> shmmq_get_enq_pos g sg;
     d \<leftarrow> shmmq_get_deq_pos g sg;
     Some (sg, (e, d, i, ret))
   }"

text \<open>\<open>tmp\<close> is not initialised: its bytes before the call are an argument.\<close>

definition dequeue_line :: "os \<Rightarrow> globals \<Rightarrow> segment \<Rightarrow> bytes \<Rightarrow> (segment \<times> line) option" where
  "dequeue_line os g sg tmp = do {
     (ret, item, sg, calls) \<leftarrow> shmmq_dequeue os g sg (Some tmp) 4;
     tmp \<leftarrow> item;
     e \<leftarrow> shmmq_get_enq_pos g sg;
     d \<leftarrow> shmmq_get_deq_pos g sg;
     Some (sg, (e, d, bytes_int tmp, ret))
   }"

section \<open>\<open>test_enqueue.c\<close>\<close>

definition set_positions :: "globals \<Rightarrow> segment \<Rightarrow> u32 \<Rightarrow> u32 \<Rightarrow> segment option" where
  "set_positions g sg e d = do {
     sg \<leftarrow> shmmq_set_enq_pos g sg e;
     shmmq_set_deq_pos g sg d
   }"

definition test_enqueue :: "(nat \<Rightarrow> os) \<Rightarrow> segment \<Rightarrow> (int \<times> line list) option" where
  "test_enqueue os sg =
     (let (ret, g, sg, calls) = shmmq_open (os 0) process_globals sg True 0 0
      in if ret \<noteq> SUCCESS then Some (-1, [])
         else do {
           (sg, l1) \<leftarrow> enqueue_line (os 1) g sg 0;
           sg \<leftarrow> set_positions g sg 3 3;
           (sg, l2) \<leftarrow> enqueue_line (os 2) g sg 1;
           sg \<leftarrow> set_positions g sg 1023 1023;
           (sg, l3) \<leftarrow> enqueue_line (os 3) g sg 2;
           sg \<leftarrow> set_positions g sg 1024 1;
           (sg, l4) \<leftarrow> enqueue_line (os 4) g sg 3;
           sg \<leftarrow> set_positions g sg (NOT 0) (NOT 0 - 1022);
           (sg, l5) \<leftarrow> enqueue_line (os 5) g sg 4;
           sg \<leftarrow> set_positions g sg 1022 (NOT 0);
           (sg, l6) \<leftarrow> enqueue_line (os 6) g sg 5;
           let (ret, g, calls) = shmmq_close (os 7) g True;
           Some (if ret \<noteq> SUCCESS then -1 else 0, [l1, l2, l3, l4, l5, l6])
         })"

section \<open>\<open>test_dequeue.c\<close> and \<open>test_clear.c\<close>\<close>

definition test_dequeue :: "os \<Rightarrow> segment \<Rightarrow> int \<times> segment \<times> syscall list" where
  "test_dequeue os sg =
     (let (ret, g, sg, calls) = shmmq_open os process_globals sg True 0 0
      in (if ret \<noteq> SUCCESS then -1 else 0, sg, calls))"

definition test_clear :: "os \<Rightarrow> int \<times> syscall list" where
  "test_clear os =
     (let (ret, g, calls) = shmmq_close os process_globals True
      in (if ret \<noteq> SUCCESS then -1 else 0, calls))"

section \<open>\<open>test_cocd.c\<close>\<close>

text \<open>The two loops, from \<open>i\<close> on.\<close>

fun enqueue_loop :: "nat \<Rightarrow> (nat \<Rightarrow> os) \<Rightarrow> (nat \<Rightarrow> segment \<Rightarrow> segment) \<Rightarrow> u32 \<Rightarrow> globals \<Rightarrow> segment
    \<Rightarrow> (segment \<times> line list) option" where
  "enqueue_loop 0 os others i g sg = Some (sg, [])"
| "enqueue_loop (Suc n) os others i g sg = do {
     (sg, l) \<leftarrow> enqueue_line (os (unat i)) g (others (unat i) sg) i;
     (sg, ls) \<leftarrow> enqueue_loop n os others (i + 1) g sg;
     Some (sg, l # ls)
   }"

fun dequeue_loop :: "nat \<Rightarrow> (nat \<Rightarrow> os) \<Rightarrow> (nat \<Rightarrow> segment \<Rightarrow> segment) \<Rightarrow> (nat \<Rightarrow> bytes) \<Rightarrow> nat \<Rightarrow> globals \<Rightarrow> segment
    \<Rightarrow> (segment \<times> line list) option" where
  "dequeue_loop 0 os others tmp i g sg = Some (sg, [])"
| "dequeue_loop (Suc n) os others tmp i g sg = do {
     (sg, l) \<leftarrow> dequeue_line (os i) g (others i sg) (tmp i);
     (sg, ls) \<leftarrow> dequeue_loop n os others tmp (Suc i) g sg;
     Some (sg, l # ls)
   }"

text \<open>
  What both processes execute after the \<open>if\<close>: the loop of dequeues and the closing. Waiting for
  the child in between changes nothing in the process.
\<close>

definition cocd_rest :: "(nat \<Rightarrow> os) \<Rightarrow> (nat \<Rightarrow> segment \<Rightarrow> segment) \<Rightarrow> (nat \<Rightarrow> bytes) \<Rightarrow> os \<Rightarrow> globals \<Rightarrow> segment
    \<Rightarrow> (int \<times> line list) option" where
  "cocd_rest os others tmp os_end g sg = do {
     (sg, ls) \<leftarrow> dequeue_loop 10 os others tmp 0 g sg;
     let (ret, g, calls) = shmmq_close os_end g True;
     Some (if ret \<noteq> SUCCESS then -1 else 0, ls)
   }"

text \<open>The child, from \<open>fork\<close> on, with the globals that it inherits.\<close>

definition cocd_child :: "os \<Rightarrow> (nat \<Rightarrow> os) \<Rightarrow> os \<Rightarrow> (nat \<Rightarrow> os) \<Rightarrow> os \<Rightarrow> (nat \<Rightarrow> segment \<Rightarrow> segment)
    \<Rightarrow> (nat \<Rightarrow> bytes) \<Rightarrow> globals \<Rightarrow> segment \<Rightarrow> (int \<times> line list) option" where
  "cocd_child os_open os_enq os_close os_deq os_end others tmp g sg =
     (let (ret, g, sg, calls) = shmmq_open os_open g sg False 0 0
      in if ret \<noteq> SUCCESS then Some (-1, [])
         else do {
           (sg, ls) \<leftarrow> enqueue_loop 10 os_enq others 0 g sg;
           let (ret, g, calls) = shmmq_close os_close g False;
           if ret \<noteq> SUCCESS then Some (-1, ls)
           else do {
             (code, ls') \<leftarrow> cocd_rest os_deq (\<lambda>n. others (10 + n)) tmp os_end g sg;
             Some (code, ls @ ls')
           }
         })"

text \<open>The parent: it creates the queue, forks (\<open>pid\<close> is the answer of \<open>fork\<close>) and receives.\<close>

definition cocd_parent :: "os \<Rightarrow> int \<Rightarrow> (nat \<Rightarrow> os) \<Rightarrow> os \<Rightarrow> (nat \<Rightarrow> segment \<Rightarrow> segment)
    \<Rightarrow> (nat \<Rightarrow> bytes) \<Rightarrow> segment \<Rightarrow> (int \<times> line list) option" where
  "cocd_parent os_open pid os_deq os_end others tmp sg =
     (let (ret, g, sg, calls) = shmmq_open os_open process_globals sg True 0 0
      in if ret \<noteq> SUCCESS then Some (-1, [])
         else if pid = -1 then Some (-1, [])
         else cocd_rest os_deq others tmp os_end g sg)"

section \<open>What the programs print\<close>

lemma int_bytes_length [simp]: "length (int_bytes i) = 4"
  by (simp add: int_bytes_def)

text \<open>The globals after \<open>shmmq_open (_, 0, 0)\<close> with calls that the kernel grants.\<close>

definition default_opened :: "globals \<Rightarrow> bool" where
  "default_opened g \<longleftrightarrow> head_live g \<and> g_s_mqsize g = 1024 \<and> g_s_itemsize g = 256"

definition open_granted :: "os \<Rightarrow> bool" where
  "open_granted os \<longleftrightarrow> 0 \<le> r_semget os \<and> r_setval os \<noteq> -1 \<and> sem_ok os \<and> r_shmget os \<noteq> -1 \<and> r_shmat os \<noteq> None"

lemma open_default:
  assumes "open_granted os"
  obtains g' sg' calls where "shmmq_open os g sg iscreated 0 0 = (SUCCESS, g', sg', calls)" "default_opened g'"
    "g_s_pbase g' = r_shmat os"
    "sg' = (if iscreated then (r_segment os)\<lparr>enq_pos := -1, deq_pos := -1\<rparr> else r_segment os)"
  using assms
  by (cases iscreated) (auto simp: open_granted_def shmmq_open_def open_attach_def get_semvalue_def set_semvalue_def semaphore_p_def
      semaphore_v_def sem_ok_def default_opened_def head_live_def DEFAULT_MQ_SIZE_def DEFAULT_ITEM_SIZE_def Let_def)

lemma default_config:
  assumes "default_opened g" "262144 \<le> length (content sg)"
  shows "mq_config g sg" "slots g = 1024" "slot_size g = 256" "size_ok g 4"
  using assms by (simp_all add: default_opened_def mq_config_def slots_def slot_size_def size_ok_def pos_u32
      word_sless_alt)

lemma enqueue_line_at:
  assumes g: "default_opened g" and len: "length (content sg) = L" "262144 \<le> L" and os: "sem_ok os"
  shows "if 1023 + deq_pos sg = enq_pos sg
    then enqueue_line os g sg i = Some (sg, (enq_pos sg, deq_pos sg, i, ERROR_MSGQUEUE_FULL))
    else \<exists>c. length c = L \<and> enqueue_line os g sg i =
      Some (sg\<lparr>content := c, enq_pos := enq_pos sg + 1\<rparr>, (enq_pos sg + 1, deq_pos sg, i, SUCCESS))"
proof -
  have cfg: "mq_config g sg" and sz: "slots g = 1024" "slot_size g = 256" "size_ok g 4"
    using default_config [OF g, of sg] len by simp_all
  have live: "head_live g" and n: "g_s_mqsize g = 1024" using g by (simp_all add: default_opened_def)
  have off: "slot_offset g (enq_pos sg + 1) = (unat (enq_pos sg + 1) mod slots g) * slot_size g"
    using slot_offset_eq [OF cfg, of "enq_pos sg + 1" 0] sz by simp
  have "slot_offset g (enq_pos sg + 1) + 4 \<le> length (content sg)"
    using slot_inside [OF cfg, of "unat (enq_pos sg + 1)"] unfolding off sz by simp
  then obtain c where c: "write_bytes (content sg) (slot_offset g (enq_pos sg + 1)) (int_bytes i) = Some c"
    by (simp add: write_bytes_def)
  then have "length c = L" using length_write_bytes len by metis
  with c show ?thesis
    by (auto simp: enqueue_line_def shmmq_enqueue_cs [OF os cfg sz(3)] enqueue_cs_def live n read_bytes_def
        shmmq_get_enq_pos_def shmmq_get_deq_pos_def)
qed

text \<open>
  The test program for enqueueing, when the kernel grants every call: the queue takes an item when it is
  fresh, when the positions stand inside and at the end of the slots, and when the enqueue position
  wraps to 0 with 1022 items waiting; with 1023 items waiting, also across the wrap, it is full. The
  program ends with 0.
\<close>
theorem test_enqueue_prints:
  assumes "open_granted (os 0)" "262144 \<le> length (content (r_segment (os 0)))" "\<forall>n. sem_ok (os n)"
    and "r_shmdt (os 7) \<noteq> -1" "r_shm_rmid (os 7) \<noteq> -1" "r_sem_rmid (os 7) \<noteq> -1"
  shows "test_enqueue os sg = Some (0,
    [(0, -1, 0, SUCCESS), (4, 3, 1, SUCCESS), (1024, 1023, 2, SUCCESS), (1024, 1, 3, ERROR_MSGQUEUE_FULL),
     (0, -1023, 4, SUCCESS), (1022, -1, 5, ERROR_MSGQUEUE_FULL)])"
proof -
  let ?L = "length (content (r_segment (os 0)))"
  obtain g sg0 calls where o: "shmmq_open (os 0) process_globals sg True 0 0 = (SUCCESS, g, sg0, calls)"
    and g: "default_opened g" and sg0: "sg0 = (r_segment (os 0))\<lparr>enq_pos := -1, deq_pos := -1\<rparr>"
    by (rule open_default [OF assms(1), of process_globals sg True]) auto
  have live: "head_live g" using g by (simp add: default_opened_def)
  have line: "length (content s) = ?L \<Longrightarrow> if 1023 + deq_pos s = enq_pos s
    then enqueue_line (os n) g s i = Some (s, (enq_pos s, deq_pos s, i, ERROR_MSGQUEUE_FULL))
    else \<exists>c. length c = ?L \<and> enqueue_line (os n) g s i =
      Some (s\<lparr>content := c, enq_pos := enq_pos s + 1\<rparr>, (enq_pos s + 1, deq_pos s, i, SUCCESS))" for s n i
    using enqueue_line_at [OF g _ assms(2)] assms(3) by blast
  have "fst (shmmq_close (os 7) g True) = SUCCESS"
    using assms(4-6) by (auto simp: shmmq_close_def del_semvalue_def Let_def split: option.splits)
  then obtain g' cs where close: "shmmq_close (os 7) g True = (SUCCESS, g', cs)" by (metis prod.collapse)
  have set: "set_positions g s e d = Some (s\<lparr>enq_pos := e, deq_pos := d\<rparr>)" for s e d
    by (simp add: set_positions_def shmmq_set_enq_pos_def shmmq_set_deq_pos_def live)
  obtain c1 where 1: "length c1 = ?L"
    "enqueue_line (os 1) g sg0 0 = Some (sg0\<lparr>content := c1, enq_pos := 0\<rparr>, (0, -1, 0, SUCCESS))"
    using line [of sg0 1 0] by (auto simp: sg0)
  let ?s1 = "\<lambda>e d. sg0\<lparr>content := c1, enq_pos := e, deq_pos := d\<rparr>"
  obtain c2 where 2: "length c2 = ?L"
    "enqueue_line (os 2) g (?s1 3 3) 1 = Some (sg0\<lparr>content := c2, enq_pos := 4, deq_pos := 3\<rparr>, (4, 3, 1, SUCCESS))"
    using line [of "?s1 3 3" 2 1] 1(1) by auto
  let ?s2 = "\<lambda>e d. sg0\<lparr>content := c2, enq_pos := e, deq_pos := d\<rparr>"
  obtain c3 where 3: "length c3 = ?L" "enqueue_line (os 3) g (?s2 1023 1023) 2
      = Some (sg0\<lparr>content := c3, enq_pos := 1024, deq_pos := 1023\<rparr>, (1024, 1023, 2, SUCCESS))"
    using line [of "?s2 1023 1023" 3 2] 2(1) by auto
  let ?s3 = "\<lambda>e d. sg0\<lparr>content := c3, enq_pos := e, deq_pos := d\<rparr>"
  have 4: "enqueue_line (os 4) g (?s3 1024 1) 3 = Some (?s3 1024 1, (1024, 1, 3, ERROR_MSGQUEUE_FULL))"
    using line [of "?s3 1024 1" 4 3] 3(1) by simp
  obtain c5 where 5: "length c5 = ?L" "enqueue_line (os 5) g (?s3 (-1) (-1023)) 4
      = Some (sg0\<lparr>content := c5, enq_pos := 0, deq_pos := -1023\<rparr>, (0, -1023, 4, SUCCESS))"
    using line [of "?s3 (-1) (-1023)" 5 4] 3(1) by auto
  let ?s5 = "sg0\<lparr>content := c5, enq_pos := 1022, deq_pos := -1\<rparr>"
  have 6: "enqueue_line (os 6) g ?s5 5 = Some (?s5, (1022, -1, 5, ERROR_MSGQUEUE_FULL))"
    using line [of ?s5 6 5] 5(1) by simp
  show ?thesis
    using 1 2 3 4 5 6 by (simp add: test_enqueue_def o set close)
qed

definition granting :: os where
  "granting = \<lparr>r_semget = 5, r_setval = 0, r_sem_rmid = 0, r_semop_p = 0, r_semop_v = 0, r_shmget = 6,
     r_shmat = Some 65536, r_shmdt = 0, r_shm_rmid = 0,
     r_segment = \<lparr>enq_pos = 0, deq_pos = 0, content = replicate 262144 0\<rparr>\<rparr>"

lemma granting_ok:
  "open_granted granting" "sem_ok granting" "262144 \<le> length (content (r_segment granting))"
  by (simp_all add: granting_def open_granted_def sem_ok_def)

theorem test_enqueue_prints_witness:
  "map_option (map (\<lambda>(e, d, i, ret). ret) \<circ> snd) (test_enqueue (\<lambda>_. granting) sg) =
    Some [SUCCESS, SUCCESS, SUCCESS, ERROR_MSGQUEUE_FULL, SUCCESS, ERROR_MSGQUEUE_FULL]"
  using test_enqueue_prints [of "\<lambda>_. granting" sg] granting_ok by (simp add: granting_def)

text \<open>
  The child of \<open>test_cocd.c\<close> does not leave after it has sent its items and closed the queue: it runs on into the
  parent's loop, where its first dequeue locks the semaphore and follows the pointer to the segment
  that it has detached.
\<close>

lemma closed_not_live:
  assumes "shmmq_close os g False = (SUCCESS, g', calls)" "g_s_pbase g \<noteq> None" "r_shmdt os \<noteq> -1"
  shows "\<not> head_live g'" "g_s_itemsize g' = g_s_itemsize g"
  using assms by (auto simp: shmmq_close_def head_live_def split: option.splits)

lemma dequeue_not_live:
  assumes "\<not> head_live g" "g_s_itemsize g = 256" "r_semop_p os \<noteq> -1"
  shows "shmmq_dequeue os g sg (Some buf) 4 = None"
  using assms by (simp add: shmmq_dequeue_def semaphore_p_def dequeue_cs_def word_sle_eq word_sless_alt)

text \<open>
  When the kernel grants every call, the child process of \<open>test_cocd.c\<close> has no defined
  behaviour, whatever the other processes do in the meantime: it does not end after closing
  the queue.
\<close>
theorem cocd_child_undefined:
  assumes "open_granted os_open" "r_shmdt os_close \<noteq> -1" "r_semop_p (os_deq 0) \<noteq> -1"
  shows "cocd_child os_open os_enq os_close os_deq os_end others tmp g sg = None"
proof -
  obtain g1 sg1 calls where o: "shmmq_open os_open g sg False 0 0 = (SUCCESS, g1, sg1, calls)"
    and g1: "default_opened g1" and base: "g_s_pbase g1 = r_shmat os_open"
    by (rule open_default [OF assms(1), of g sg False])
  have "g_s_pbase g1 \<noteq> None" using base assms(1) by (simp add: open_granted_def)
  then obtain g2 cs where c: "shmmq_close os_close g1 False = (SUCCESS, g2, cs)"
    using assms(2) by (auto simp: shmmq_close_def)
  note dead = closed_not_live [OF c \<open>g_s_pbase g1 \<noteq> None\<close> assms(2)]
  have "cocd_rest os_deq (\<lambda>n. others (10 + n)) tmp os_end g2 s = None" for s
    using dequeue_not_live [OF dead(1) _ assms(3)] dead(2) g1
    by (simp add: cocd_rest_def numeral_eq_Suc dequeue_line_def default_opened_def)
  then show ?thesis by (simp add: cocd_child_def o c split: Option.bind_split)
qed

theorem cocd_child_undefined_witness:
  "cocd_child granting (\<lambda>_. granting) granting (\<lambda>_. granting) granting (\<lambda>_. id) (\<lambda>_. replicate 4 0) g sg = None"
  by (rule cocd_child_undefined, rule granting_ok(1)) (simp_all add: granting_def)

text \<open>
  \<open>test_clear.c\<close> destroys nothing: it closes a queue that it has not opened, so no call is made.
  \<open>test_dequeue.c\<close> takes nothing from the queue but creates it anew, which empties it.
\<close>
lemma test_clear_does_nothing: "test_clear os = (0, [])"
  by (simp add: test_clear_def shmmq_close_def process_globals_def)

lemma test_dequeue_empties:
  assumes "open_granted os"
  shows "\<exists>sg' calls. test_dequeue os sg = (0, sg', calls) \<and> enq_pos sg' = deq_pos sg'"
proof -
  obtain g sg' calls where "shmmq_open os process_globals sg True 0 0 = (SUCCESS, g, sg', calls)"
    "sg' = (r_segment os)\<lparr>enq_pos := -1, deq_pos := -1\<rparr>"
    by (rule open_default [OF assms, of process_globals sg True]) auto
  then show ?thesis by (simp add: test_dequeue_def)
qed

section \<open>The numbers of \<open>test_cocd.c\<close>\<close>

lemma bytes_int_int_bytes: "bytes_int (int_bytes i) = i"
proof (rule bit_word_eqI)
  fix n assume n: "n < LENGTH(32)"
  have e: "bytes_int (int_bytes i) = push_bit 8 (push_bit 8 (push_bit 8 (ucast (ucast (drop_bit 24 i) :: u8))
      OR ucast (ucast (drop_bit 16 i) :: u8)) OR ucast (ucast (drop_bit 8 i) :: u8)) OR ucast (ucast i :: u8)"
    by (simp add: bytes_int_def int_bytes_def upt_rec)
  consider "n < 8" | "8 \<le> n" "n < 16" | "16 \<le> n" "n < 24" | "24 \<le> n" "n < 32" using n by fastforce
  then show "bit (bytes_int (int_bytes i)) n \<longleftrightarrow> bit i n"
    unfolding e by cases (auto simp: bit_simps less_diff_conv2)
qed

text \<open>The loop of the receiver takes the waiting items in order and prints the numbers in them.\<close>

lemma dequeue_loop_prints:
  assumes "mq_inv g sg" "size_ok g 4" "\<forall>n. sem_ok (os n)" "\<forall>n. length (tmp n) = 4"
    and "mq_items g sg = map (\<lambda>v. int_bytes v @ pad v) vs @ rest"
  shows "\<exists>sg' ls. dequeue_loop (length vs) os (\<lambda>_. id) tmp i g sg = Some (sg', ls)
    \<and> map (\<lambda>(e, d, v, ret). (v, ret)) ls = map (\<lambda>v. (v, SUCCESS)) vs
    \<and> mq_inv g sg' \<and> mq_items g sg' = rest"
  using assms(1,5)
proof (induction vs arbitrary: sg i)
  case Nil
  then show ?case by simp
next
  case (Cons v vs)
  have cfg: "mq_config g sg" using Cons.prems(1) by (simp add: mq_inv_def)
  have n: "unat (4 :: u32) \<le> slot_size g" using size_okD(3) [OF cfg assms(2)] .
  have "mq_items g sg = (int_bytes v @ pad v) # (map (\<lambda>v. int_bytes v @ pad v) vs @ rest)"
    using Cons.prems(2) by simp
  then obtain sg1 where run: "dequeue_cs g sg (unat (4 :: u32)) =
      Some (SUCCESS, take (unat (4 :: u32)) (int_bytes v @ pad v), sg1)"
    and inv: "mq_inv g sg1" and items: "mq_items g sg1 = map (\<lambda>v. int_bytes v @ pad v) vs @ rest"
    by (rule dequeue_cs_ok [OF Cons.prems(1) _ n])
  have live: "head_live g" using mq_configD(1) [OF cfg] .
  have sem: "sem_ok (os i)" and tmp: "length (tmp i) = 4" using assms(3,4) by simp_all
  have "write_bytes (tmp i) 0 (int_bytes v) = Some (int_bytes v)" using tmp by (simp add: write_bytes_def)
  then have "dequeue_line (os i) g sg (tmp i) = Some (sg1, (enq_pos sg1, deq_pos sg1, v, SUCCESS))"
    using run by (simp add: dequeue_line_def shmmq_dequeue_cs [OF sem cfg assms(2)] live
        shmmq_get_enq_pos_def shmmq_get_deq_pos_def bytes_int_int_bytes)
  with Cons.IH [OF inv items, of "Suc i"] show ?case by auto
qed

end
