(* ===== verification/Zmalloc.thy ===== *)
theory Zmalloc
  imports Prelude
begin

text \<open>
  The accounting allocator of \<open>ae/zmalloc.c\<close>, for the configuration without \<open>malloc_size\<close>
  (Linux without tcmalloc): each block starts with a \<open>size_t\<close> that holds the requested size,
  and \<open>used_memory\<close> adds up the blocks rounded to words.

  \<open>malloc\<close> and \<open>realloc\<close> are parameters that choose the address, or answer null. A null answer
  makes the program abort, which is a result (\<open>Aborted\<close>), not undefined behaviour (\<open>None\<close>).
\<close>

section \<open>State\<close>

text \<open>A live block: the size prefix and the bytes after it.\<close>

record zblock =
  zsize :: u64
  zdata :: bytes

type_synonym zheap = "nat \<rightharpoonup> zblock"

record zstate =
  used_memory :: u64
  zmalloc_allocations :: "nat \<Rightarrow> u64"
  zmalloc_thread_safe :: bool
  zheap :: zheap

datatype 'a outcome = Aborted | Returns 'a

definition PREFIX_SIZE :: u64 where "PREFIX_SIZE = 8"
definition ZMALLOC_MAX_ALLOC_STAT :: u64 where "ZMALLOC_MAX_ALLOC_STAT = 256"

section \<open>Accounting\<close>

definition word_round :: "u64 \<Rightarrow> u64" where
  "word_round n = (if n AND (8 - 1) \<noteq> 0 then n + (8 - (n AND (8 - 1))) else n)"

text \<open>The mutex around the two updates has no effect on the value computed by one thread.\<close>

definition update_zmalloc_stat_alloc :: "u64 \<Rightarrow> u64 \<Rightarrow> zstate \<Rightarrow> zstate" where
  "update_zmalloc_stat_alloc n sz s =
     (let slot = unat (if sz < ZMALLOC_MAX_ALLOC_STAT then sz else ZMALLOC_MAX_ALLOC_STAT)
      in s\<lparr>used_memory := used_memory s + word_round n,
           zmalloc_allocations := (zmalloc_allocations s)(slot := zmalloc_allocations s slot + 1)\<rparr>)"

definition update_zmalloc_stat_free :: "u64 \<Rightarrow> zstate \<Rightarrow> zstate" where
  "update_zmalloc_stat_free n s = s\<lparr>used_memory := used_memory s - word_round n\<rparr>"

section \<open>Operations\<close>

text \<open>
  The addresses are those of the blocks as the caller sees them, after the prefix. A block of
  \<open>sz + PREFIX_SIZE\<close> bytes is asked for; when that sum wraps, the block may be too small for the
  prefix, whose write is then undefined.
\<close>

definition new_block :: "u64 \<Rightarrow> bytes \<Rightarrow> zblock option" where
  "new_block sz bs =
     (if sz + PREFIX_SIZE < PREFIX_SIZE then None else Some \<lparr>zsize = sz, zdata = bs\<rparr>)"

definition zmalloc_with ::
  "(zheap \<Rightarrow> u64 \<Rightarrow> ptr) \<Rightarrow> (nat \<Rightarrow> bytes) \<Rightarrow> u64 \<Rightarrow> zstate \<Rightarrow> (ptr \<times> zstate) outcome option" where
  "zmalloc_with alloc fill sz s =
     (case alloc (zheap s) (sz + PREFIX_SIZE) of
        None \<Rightarrow> Some Aborted
      | Some p \<Rightarrow> do {
          b \<leftarrow> new_block sz (fill (unat sz));
          let s = s\<lparr>zheap := (zheap s)(p \<mapsto> b)\<rparr>;
          Some (Returns (Some p, update_zmalloc_stat_alloc (sz + PREFIX_SIZE) sz s))
        })"

text \<open>\<open>malloc\<close> leaves arbitrary bytes in a block, \<open>calloc\<close> zeroes.\<close>

definition zmalloc ::
  "(zheap \<Rightarrow> u64 \<Rightarrow> ptr) \<Rightarrow> (nat \<Rightarrow> bytes) \<Rightarrow> u64 \<Rightarrow> zstate \<Rightarrow> (ptr \<times> zstate) outcome option" where
  "zmalloc alloc junk sz s = zmalloc_with alloc junk sz s"

definition zcalloc :: "(zheap \<Rightarrow> u64 \<Rightarrow> ptr) \<Rightarrow> u64 \<Rightarrow> zstate \<Rightarrow> (ptr \<times> zstate) outcome option" where
  "zcalloc alloc sz s = zmalloc_with alloc (\<lambda>n. replicate n 0) sz s"

text \<open>\<open>realloc\<close> keeps the old bytes up to the new size; the old block is gone.\<close>

definition zrealloc ::
  "(zheap \<Rightarrow> u64 \<Rightarrow> ptr) \<Rightarrow> (nat \<Rightarrow> bytes) \<Rightarrow> ptr \<Rightarrow> u64 \<Rightarrow> zstate \<Rightarrow> (ptr \<times> zstate) outcome option" where
  "zrealloc alloc junk ptr sz s =
     (case ptr of
        None \<Rightarrow> zmalloc alloc junk sz s
      | Some p \<Rightarrow> do {
          old \<leftarrow> zheap s p;
          let oldsize = zsize old;
          (case alloc ((zheap s)(p := None)) (sz + PREFIX_SIZE) of
             None \<Rightarrow> Some Aborted
           | Some q \<Rightarrow> do {
               b \<leftarrow> new_block sz (take (unat sz) (zdata old @ junk (unat sz - length (zdata old))));
               let s = s\<lparr>zheap := (zheap s)(p := None, q \<mapsto> b)\<rparr>;
               let s = update_zmalloc_stat_free oldsize s;
               Some (Returns (Some q, update_zmalloc_stat_alloc sz sz s))
             })
        })"

definition zfree :: "ptr \<Rightarrow> zstate \<Rightarrow> zstate option" where
  "zfree ptr s =
     (case ptr of
        None \<Rightarrow> Some s
      | Some p \<Rightarrow> do {
          b \<leftarrow> zheap s p;
          let s = update_zmalloc_stat_free (zsize b + PREFIX_SIZE) s;
          Some (s\<lparr>zheap := (zheap s)(p := None)\<rparr>)
        })"

text \<open>The argument of \<open>zstrdup\<close> is a C string; without a terminating NUL its read is undefined.\<close>

definition zstrdup ::
  "(zheap \<Rightarrow> u64 \<Rightarrow> ptr) \<Rightarrow> (nat \<Rightarrow> bytes) \<Rightarrow> bytes \<Rightarrow> zstate \<Rightarrow> (ptr \<times> zstate) outcome option" where
  "zstrdup alloc junk str s =
     (if 0 \<notin> set str then None
      else let l = length (takeWhile (\<lambda>b. b \<noteq> 0) str) + 1
      in do {
        r \<leftarrow> zmalloc alloc junk (of_nat l) s;
        (case r of
           Returns (Some p, s) \<Rightarrow> do {
             b \<leftarrow> zheap s p;
             bs \<leftarrow> write_bytes (zdata b) 0 (take l str);
             Some (Returns (Some p, s\<lparr>zheap := (zheap s)(p \<mapsto> b\<lparr>zdata := bs\<rparr>)\<rparr>))
           }
         | r \<Rightarrow> Some r)
      })"

definition zmalloc_used_memory :: "zstate \<Rightarrow> u64" where
  "zmalloc_used_memory s = used_memory s"

definition zmalloc_allocations_for_size :: "u64 \<Rightarrow> zstate \<Rightarrow> u64" where
  "zmalloc_allocations_for_size sz s =
     (if ZMALLOC_MAX_ALLOC_STAT < sz then 0 else zmalloc_allocations s (unat sz))"

definition zmalloc_enable_thread_safeness :: "zstate \<Rightarrow> zstate" where
  "zmalloc_enable_thread_safeness s = s\<lparr>zmalloc_thread_safe := True\<rparr>"

section \<open>Resident set size\<close>

text \<open>
  \<open>strchr(p, ' ')\<close> in the buffer: the position of the blank, null when the string ends before it,
  undefined when neither occurs inside the buffer.
\<close>

fun strchr_from :: "u8 \<Rightarrow> bytes \<Rightarrow> nat \<Rightarrow> ptr option" where
  "strchr_from c [] i = None"
| "strchr_from c (b # bs) i =
     (if b = c then Some (Some i) else if b = 0 then Some None else strchr_from c bs (i + 1))"

definition strchr :: "bytes \<Rightarrow> nat \<Rightarrow> u8 \<Rightarrow> ptr option" where
  "strchr buf p c = strchr_from c (drop p buf) p"

text \<open>\<open>while (p && count--) { p = strchr(p, ' '); if (p) p++; }\<close>\<close>

fun skip_fields :: "bytes \<Rightarrow> nat \<Rightarrow> ptr \<Rightarrow> ptr option" where
  "skip_fields buf 0 p = Some p"
| "skip_fields buf (Suc n) None = Some None"
| "skip_fields buf (Suc n) (Some p) = do {
     q \<leftarrow> strchr buf p 32;
     skip_fields buf n (map_option Suc q)
   }"

text \<open>\<open>strtoll(p, NULL, 10)\<close> on a field that starts with a digit.\<close>

definition decimal :: "bytes \<Rightarrow> nat" where
  "decimal ds = foldl (\<lambda>n d. 10 * n + (unat d - 48)) 0 (takeWhile (\<lambda>d. 48 \<le> d \<and> d \<le> 57) ds)"

text \<open>
  \<open>buf\<close> is the 4096-byte buffer after the read of \<open>/proc/<pid>/stat\<close>, \<open>None\<close> when it could not be
  read.
\<close>

definition zmalloc_get_rss :: "bytes option \<Rightarrow> u64 \<Rightarrow> u64 option" where
  "zmalloc_get_rss stat page =
     (case stat of None \<Rightarrow> Some 0
      | Some buf \<Rightarrow> do {
          p \<leftarrow> skip_fields buf 23 (Some 0);
          (case p of None \<Rightarrow> Some 0
           | Some p \<Rightarrow> do {
               x \<leftarrow> strchr buf p 32;
               (case x of None \<Rightarrow> Some 0
                | Some x \<Rightarrow> Some (of_nat (decimal (take (x - p) (drop p buf))) * page))
             })
        })"

section \<open>The accounting is exact\<close>

text \<open>What a live block contributes, and the invariant.\<close>

definition block_cost :: "zblock \<Rightarrow> u64" where
  "block_cost b = word_round (zsize b + PREFIX_SIZE)"

definition z_inv :: "zstate \<Rightarrow> bool" where
  "z_inv s \<longleftrightarrow> finite (dom (zheap s)) \<and> used_memory s = (\<Sum>p \<in> dom (zheap s). block_cost (the (zheap s p)))"

lemma and7: "(n :: u64) AND 7 = take_bit 3 n"
proof -
  have "(7 :: u64) = mask 3" by (simp add: mask_eq_exp_minus_1)
  then show ?thesis by (simp add: take_bit_eq_mask)
qed

lemma word_round_prefix: "word_round (n + PREFIX_SIZE) = word_round n + PREFIX_SIZE"
proof -
  have "unat (take_bit 3 (n + 8)) = (unat n + 8) mod 2 ^ 64 mod 8"
    by (simp add: unsigned_take_bit_eq take_bit_eq_mod unat_word_ariths)
  also have "\<dots> = (unat n + 8) mod 8" by (rule mod_mod_cancel) simp
  also have "\<dots> = unat n mod 8" by simp
  also have "\<dots> = unat (take_bit 3 n)" by (simp only: unsigned_take_bit_eq) (simp add: take_bit_eq_mod)
  finally have "take_bit 3 (n + 8) = take_bit 3 n" by (simp only: word_unat_eq_iff)
  then show ?thesis by (simp add: word_round_def PREFIX_SIZE_def and7)
qed

lemma block_cost_eq: "block_cost b = word_round (zsize b) + PREFIX_SIZE"
  by (simp add: block_cost_def word_round_prefix)

lemma sum_cost_insert:
  assumes "finite (dom h)" "p \<notin> dom h"
  shows "(\<Sum>q \<in> dom (h(p \<mapsto> b)). block_cost (the ((h(p \<mapsto> b)) q)))
    = (\<Sum>q \<in> dom h. block_cost (the (h q))) + block_cost b"
proof -
  have "(\<Sum>q \<in> dom h. block_cost (the ((h(p \<mapsto> b)) q))) = (\<Sum>q \<in> dom h. block_cost (the (h q)))"
    using assms(2) by (intro sum.cong) auto
  with assms show ?thesis by (simp add: add.commute)
qed

lemma sum_cost_remove:
  assumes "finite (dom h)" "h p = Some b"
  shows "(\<Sum>q \<in> dom (h(p := None)). block_cost (the ((h(p := None)) q)))
    = (\<Sum>q \<in> dom h. block_cost (the (h q))) - block_cost b"
proof -
  have "(\<Sum>q \<in> dom h - {p}. block_cost (the ((h(p := None)) q))) = (\<Sum>q \<in> dom h - {p}. block_cost (the (h q)))"
    by (intro sum.cong) auto
  moreover have "p \<in> dom h" using assms(2) by auto
  ultimately show ?thesis using assms by (simp add: sum.remove [of "dom h" p] algebra_simps)
qed

text \<open>The allocator's contract: a fresh address.\<close>

definition fresh_alloc :: "(zheap \<Rightarrow> u64 \<Rightarrow> ptr) \<Rightarrow> bool" where
  "fresh_alloc alloc \<longleftrightarrow> (\<forall>h n p. alloc h n = Some p \<longrightarrow> h p = None)"

lemma z_inv_with:
  assumes "z_inv s" "fresh_alloc alloc" "zmalloc_with alloc fill sz s = Some (Returns (p, s'))"
  shows "z_inv s' \<and> (\<exists>a. p = Some a \<and> a \<notin> dom (zheap s)
    \<and> zheap s' = (zheap s)(a \<mapsto> \<lparr>zsize = sz, zdata = fill (unat sz)\<rparr>))"
proof -
  from assms(3) obtain a where a: "alloc (zheap s) (sz + PREFIX_SIZE) = Some a" "p = Some a"
    "s' = update_zmalloc_stat_alloc (sz + PREFIX_SIZE) sz
       (s\<lparr>zheap := (zheap s)(a \<mapsto> \<lparr>zsize = sz, zdata = fill (unat sz)\<rparr>)\<rparr>)"
    by (auto simp: zmalloc_with_def new_block_def Let_def split: option.splits if_splits)
  let ?b = "\<lparr>zsize = sz, zdata = fill (unat sz)\<rparr>"
  have fresh: "a \<notin> dom (zheap s)" using a(1) assms(2) by (metis domIff fresh_alloc_def)
  have heap: "zheap s' = (zheap s)(a \<mapsto> ?b)" and used: "used_memory s' = used_memory s + block_cost ?b"
    by (simp_all add: a(3) update_zmalloc_stat_alloc_def Let_def block_cost_def)
  have fin: "finite (dom (zheap s))" using assms(1) by (simp add: z_inv_def)
  then have "z_inv s'"
    using sum_cost_insert [OF fin fresh, of ?b] assms(1) unfolding z_inv_def heap used by simp
  with fresh heap a(2) show ?thesis by auto
qed

lemma z_inv_free:
  assumes "z_inv s" "zfree p s = Some s'"
  shows "z_inv s' \<and> zheap s' = (case p of None \<Rightarrow> zheap s | Some a \<Rightarrow> (zheap s)(a := None))"
proof (cases p)
  case None
  with assms show ?thesis by (simp add: zfree_def)
next
  case (Some a)
  with assms(2) obtain b where b: "zheap s a = Some b"
    "s' = (update_zmalloc_stat_free (zsize b + PREFIX_SIZE) s)\<lparr>zheap := (zheap s)(a := None)\<rparr>"
    by (auto simp: zfree_def update_zmalloc_stat_free_def Let_def split: bind_splits)
  moreover have "finite (dom ((zheap s)(a := None)))" using assms(1) by (simp add: z_inv_def)
  ultimately show ?thesis
    using Some assms(1) sum_cost_remove [of "zheap s" a b]
    by (auto simp: z_inv_def update_zmalloc_stat_free_def block_cost_def simp del: dom_fun_upd)
qed

lemma z_inv_realloc:
  assumes "z_inv s" "fresh_alloc alloc" "zrealloc alloc junk (Some p) sz s = Some (Returns (q, s'))"
  shows "z_inv s' \<and> (\<exists>a old b. q = Some a \<and> zheap s p = Some old \<and> zheap s' = (zheap s)(p := None, a \<mapsto> b)
    \<and> zsize b = sz \<and> zdata b = take (unat sz) (zdata old @ junk (unat sz - length (zdata old))))"
proof -
  from assms(3) obtain old where old: "zheap s p = Some old"
    by (auto simp: zrealloc_def split: bind_splits)
  let ?b = "\<lparr>zsize = sz, zdata = take (unat sz) (zdata old @ junk (unat sz - length (zdata old)))\<rparr>"
  let ?h = "(zheap s)(p := None)"
  from assms(3) old obtain a where a: "alloc ?h (sz + PREFIX_SIZE) = Some a" "q = Some a"
    "s' = update_zmalloc_stat_alloc sz sz (update_zmalloc_stat_free (zsize old) (s\<lparr>zheap := ?h(a \<mapsto> ?b)\<rparr>))"
    by (auto simp: zrealloc_def new_block_def Let_def split: option.splits if_splits)
  have fresh: "a \<notin> dom ?h" using a(1) assms(2) by (metis domIff fresh_alloc_def)
  have fin: "finite (dom ?h)" using assms(1) by (simp add: z_inv_def)
  have "used_memory s' = used_memory s - block_cost old + block_cost ?b"
    by (simp add: a(3) update_zmalloc_stat_alloc_def update_zmalloc_stat_free_def Let_def block_cost_eq)
  then have "used_memory s' = (\<Sum>q \<in> dom (?h(a \<mapsto> ?b)). block_cost (the ((?h(a \<mapsto> ?b)) q)))"
    using assms(1) sum_cost_insert [OF fin fresh, of ?b] sum_cost_remove [of "zheap s" p old] old
    by (simp add: z_inv_def del: dom_fun_upd)
  moreover have heap: "zheap s' = ?h(a \<mapsto> ?b)"
    by (simp add: a(3) update_zmalloc_stat_alloc_def update_zmalloc_stat_free_def Let_def)
  ultimately show ?thesis using fin old a(2) by (auto simp: z_inv_def)
qed

section \<open>Sequences of allocator calls\<close>

text \<open>\<open>used_memory\<close> follows any sequence of calls; an aborted program has no next state.\<close>

datatype zcall = Zmalloc u64 | Zcalloc u64 | Zrealloc ptr u64 | Zfree ptr | Zstrdup bytes

fun z_step :: "(zheap \<Rightarrow> u64 \<Rightarrow> ptr) \<Rightarrow> (nat \<Rightarrow> bytes) \<Rightarrow> zcall \<Rightarrow> zstate \<Rightarrow> (ptr \<times> zstate) outcome option" where
  "z_step alloc junk (Zmalloc n) s = zmalloc alloc junk n s"
| "z_step alloc junk (Zcalloc n) s = zcalloc alloc n s"
| "z_step alloc junk (Zrealloc p n) s = zrealloc alloc junk p n s"
| "z_step alloc junk (Zfree p) s = map_option (\<lambda>s. Returns (None, s)) (zfree p s)"
| "z_step alloc junk (Zstrdup str) s = zstrdup alloc junk str s"

inductive z_reach :: "(zheap \<Rightarrow> u64 \<Rightarrow> ptr) \<Rightarrow> (nat \<Rightarrow> bytes) \<Rightarrow> zstate \<Rightarrow> zstate \<Rightarrow> bool"
  for alloc junk where
  start: "z_reach alloc junk s s"
| call: "z_reach alloc junk s t \<Longrightarrow> z_step alloc junk c t = Some (Returns (p, u)) \<Longrightarrow> z_reach alloc junk s u"

lemma z_inv_strdup:
  assumes "z_inv s" "fresh_alloc alloc" "zstrdup alloc junk str s = Some (Returns (p, s'))"
  shows "z_inv s'"
proof -
  let ?l = "length (takeWhile (\<lambda>b. b \<noteq> 0) str) + 1"
  have some: "zmalloc alloc junk (of_nat ?l) s \<noteq> Some (Returns (None, t))" for t
    by (auto simp: zmalloc_def zmalloc_with_def Let_def split: option.splits bind_splits)
  from assms(3) obtain a t b bs where
    t: "zmalloc alloc junk (of_nat ?l) s = Some (Returns (Some a, t))" "zheap t a = Some b"
    "s' = t\<lparr>zheap := (zheap t)(a \<mapsto> b\<lparr>zdata := bs\<rparr>)\<rparr>"
    using some by (auto simp: zstrdup_def Let_def split: if_splits bind_splits outcome.splits option.splits)
  have inv: "z_inv t" using z_inv_with [OF assms(1,2)] t(1) by (auto simp: zmalloc_def)
  have dom: "dom (zheap s') = dom (zheap t)" using t(2,3) by auto
  have "(\<Sum>q \<in> dom (zheap t). block_cost (the (zheap s' q))) = (\<Sum>q \<in> dom (zheap t). block_cost (the (zheap t q)))"
    by (rule sum.cong) (auto simp: t(2,3) block_cost_def)
  with inv dom show ?thesis by (simp add: z_inv_def t(3))
qed

lemma z_inv_step:
  assumes "z_inv s" "fresh_alloc alloc" "z_step alloc junk c s = Some (Returns (p, s'))"
  shows "z_inv s'"
proof (cases c)
  case (Zrealloc q n)
  show ?thesis
  proof (cases q)
    case None
    with Zrealloc assms(3) have "zmalloc_with alloc junk n s = Some (Returns (p, s'))"
      by (simp add: zrealloc_def zmalloc_def)
    then show ?thesis using z_inv_with [OF assms(1,2)] by blast
  next
    case (Some a)
    with Zrealloc assms(3) show ?thesis using z_inv_realloc [OF assms(1,2)] by simp
  qed
next
  case (Zfree q)
  with assms show ?thesis using z_inv_free [OF assms(1)] by auto
next
  case (Zstrdup str)
  with assms show ?thesis using z_inv_strdup [OF assms(1,2)] by simp
next
  case (Zmalloc n)
  with assms(3) have "zmalloc_with alloc junk n s = Some (Returns (p, s'))" by (simp add: zmalloc_def)
  then show ?thesis using z_inv_with [OF assms(1,2)] by blast
next
  case (Zcalloc n)
  with assms(3) have "zmalloc_with alloc (\<lambda>n. replicate n 0) n s = Some (Returns (p, s'))"
    by (simp add: zcalloc_def)
  then show ?thesis using z_inv_with [OF assms(1,2)] by blast
qed

text \<open>
  C19. Exact accounting: after any sequence of \<open>zmalloc\<close>, \<open>zcalloc\<close>, \<open>zrealloc\<close>, \<open>zfree\<close> and
  \<open>zstrdup\<close> calls from the empty heap, the reported memory is the sum, over the live blocks, of
  their size with prefix rounded up to a word. In particular \<open>zrealloc\<close>, which leaves the prefix
  out of both of its updates, does not drift.
\<close>
theorem zmalloc_accounting_exact:
  assumes "fresh_alloc alloc" "z_reach alloc junk s t" "zheap s = Map.empty" "used_memory s = 0"
  shows "zmalloc_used_memory t = (\<Sum>p \<in> dom (zheap t). word_round (zsize (the (zheap t p)) + PREFIX_SIZE))"
proof -
  have "z_inv s" using assms(3,4) by (simp add: z_inv_def)
  have "z_inv t"
    using assms(2) \<open>z_inv s\<close>
  proof (induction rule: z_reach.induct)
    case (call s t c p u)
    then show ?case using z_inv_step [OF _ assms(1)] by blast
  qed
  then show ?thesis by (simp add: z_inv_def zmalloc_used_memory_def block_cost_def)
qed

text \<open>A small allocator for the examples: the next multiple of 16 above every live address.\<close>

definition bump :: "nat list \<Rightarrow> zheap \<Rightarrow> u64 \<Rightarrow> ptr" where
  "bump as h n = find (\<lambda>a. h a = None) as"

lemma fresh_bump: "fresh_alloc (bump as)"
  by (auto simp: fresh_alloc_def bump_def find_Some_iff)

definition zstate0 :: zstate where
  "zstate0 = \<lparr>used_memory = 0, zmalloc_allocations = (\<lambda>_. 0), zmalloc_thread_safe = False, zheap = Map.empty\<rparr>"

text \<open>Allocate 10 bytes, grow the block to 20, free another one: 20 + 8 bytes round up to 32.\<close>

theorem zmalloc_accounting_exact_witness:
  "\<exists>t. z_reach (bump [16, 32]) (\<lambda>n. replicate n 7) zstate0 t \<and> zmalloc_used_memory t = 32
     \<and> dom (zheap t) = {16}"
proof -
  let ?al = "bump [16, 32]" and ?junk = "\<lambda>n. replicate n (7 :: u8)"
  have s0: "z_reach ?al ?junk zstate0 zstate0" by (rule z_reach.start)
  obtain t1 where t1: "z_step ?al ?junk (Zmalloc 10) zstate0 = Some (Returns (Some 16, t1))"
    "zheap t1 = [16 \<mapsto> \<lparr>zsize = 10, zdata = ?junk 10\<rparr>]"
    by (simp add: zmalloc_def zmalloc_with_def new_block_def PREFIX_SIZE_def bump_def zstate0_def
        update_zmalloc_stat_alloc_def Let_def)
  have s1: "z_reach ?al ?junk zstate0 t1" by (rule z_reach.call [OF s0 t1(1)])
  obtain t2 b where t2: "z_step ?al ?junk (Zrealloc (Some 16) 20) t1 = Some (Returns (Some 16, t2))"
    "zheap t2 = [16 \<mapsto> b]" "zsize b = 20"
    by (simp add: zrealloc_def t1(2) new_block_def PREFIX_SIZE_def bump_def
        update_zmalloc_stat_alloc_def update_zmalloc_stat_free_def Let_def)
  have s2: "z_reach ?al ?junk zstate0 t2" by (rule z_reach.call [OF s1 t2(1)])
  have "zmalloc_used_memory t2 = 32"
    using zmalloc_accounting_exact [OF fresh_bump s2] t2(2,3)
    by (simp add: zstate0_def word_round_def PREFIX_SIZE_def)
  moreover have "dom (zheap t2) = {16}" by (simp add: t2(2))
  ultimately show ?thesis using s2 by blast
qed

section \<open>The resident set size is the 24th field\<close>

definition field_ok :: "bytes \<Rightarrow> bool" where
  "field_ok f \<longleftrightarrow> 32 \<notin> set f \<and> 0 \<notin> set f"

definition join_fields :: "bytes list \<Rightarrow> bytes" where
  "join_fields fs = concat (map (\<lambda>f. f @ [32]) fs)"

lemma join_fields_Cons [simp]: "join_fields (f # fs) = f @ 32 # join_fields fs"
  and join_fields_Nil [simp]: "join_fields [] = []"
  by (simp_all add: join_fields_def)

lemma strchr_from_field: "field_ok f \<Longrightarrow> strchr_from 32 (f @ 32 # r) i = Some (Some (i + length f))"
  by (induction f arbitrary: i) (auto simp: field_ok_def)

lemma skip_fields_join:
  "drop p buf = join_fields fs @ rest \<Longrightarrow> \<forall>f \<in> set fs. field_ok f \<Longrightarrow>
   skip_fields buf (length fs) (Some p) = Some (Some (p + length (join_fields fs)))"
proof (induction fs arbitrary: p)
  case (Cons f fs)
  then have "strchr buf p 32 = Some (Some (p + length f))"
    by (simp add: strchr_def strchr_from_field)
  moreover have "drop (Suc (p + length f)) buf = join_fields fs @ rest"
  proof -
    have "drop (Suc (length f)) (drop p buf) = join_fields fs @ rest" by (simp add: Cons.prems(1))
    then show ?thesis by (simp add: add.commute)
  qed
  ultimately show ?case using Cons.IH [of "Suc (p + length f)"] Cons.prems(2) by simp
qed simp

text \<open>
  On a status line whose fields contain no blank, \<open>zmalloc_get_rss\<close> returns the number in
  its 24th field times the page size, and reads nothing past the blank that follows the field.
\<close>
theorem zmalloc_get_rss_field24:
  assumes "length fs = 23" "\<forall>f \<in> set fs. field_ok f" "field_ok rss"
  shows "zmalloc_get_rss (Some (join_fields fs @ rss @ 32 # rest)) page = Some (of_nat (decimal rss) * page)"
proof -
  let ?buf = "join_fields fs @ rss @ 32 # rest"
  have skip: "skip_fields ?buf 23 (Some 0) = Some (Some (length (join_fields fs)))"
    using skip_fields_join [of 0 ?buf fs "rss @ 32 # rest"] assms by simp
  have "strchr ?buf (length (join_fields fs)) 32 = Some (Some (length (join_fields fs) + length rss))"
    using strchr_from_field [OF assms(3)] by (simp add: strchr_def)
  with skip show ?thesis by (simp add: zmalloc_get_rss_def)
qed

theorem zmalloc_get_rss_field24_witness:
  "zmalloc_get_rss (Some (join_fields (replicate 23 [48]) @ [49, 50] @ [32, 48])) 4096 = Some (12 * 4096)"
  using zmalloc_get_rss_field24 [of "replicate 23 [48]" "[49, 50]" "[48]" 4096]
  by (simp add: field_ok_def decimal_def)

end
