(* ===== verification/Zmalloc_Threads.thy ===== *)
theory Zmalloc_Threads
  imports Zmalloc Simulation "HOL-Library.Multiset"
begin

text \<open>
  The accounting macros of \<open>ae/zmalloc.c\<close> executed by several threads: each update of a shared counter
  is a read and a write, which other threads may interleave unless the mutex is held. The mutex is
  the one of POSIX: locking waits until nobody holds it.
\<close>

section \<open>Threads\<close>

text \<open>The two macros with their arguments.\<close>

datatype zjob = Stat_alloc u64 u64 | Stat_free u64

text \<open>What the macro does when it runs alone.\<close>

fun apply_job :: "zjob \<Rightarrow> zstate \<Rightarrow> zstate" where
  "apply_job (Stat_alloc n sz) s = update_zmalloc_stat_alloc n sz s"
| "apply_job (Stat_free n) s = update_zmalloc_stat_free n s"

definition stat_slot :: "u64 \<Rightarrow> nat" where
  "stat_slot sz = unat (if sz < ZMALLOC_MAX_ALLOC_STAT then sz else ZMALLOC_MAX_ALLOC_STAT)"

text \<open>Where a thread is; the flag says whether it has taken the mutex, a number is what it has read.\<close>

datatype zpc =
    Z_idle | Z_start zjob | Z_lock zjob | Z_read bool zjob | Z_write bool zjob u64
  | Z_count bool u64 u64 | Z_count_write bool u64 u64 u64 | Z_unlock | Z_done

record zworld =
  zst :: zstate
  holder :: "nat option"
  zpc :: "nat \<Rightarrow> zpc"

fun zstmt :: "nat \<Rightarrow> zpc \<Rightarrow> nat option \<Rightarrow> zstate \<Rightarrow> (zpc \<times> nat option \<times> zstate) option" where
  "zstmt i (Z_start j) h s = Some (if zmalloc_thread_safe s then Z_lock j else Z_read False j, h, s)"
| "zstmt i (Z_lock j) h s = (if h = None then Some (Z_read True j, Some i, s) else None)"
| "zstmt i (Z_read l j) h s = Some (Z_write l j (used_memory s), h, s)"
| "zstmt i (Z_write l j v) h s =
     (case j of
        Stat_alloc n sz \<Rightarrow> Some (Z_count l n sz, h, s\<lparr>used_memory := v + word_round n\<rparr>)
      | Stat_free n \<Rightarrow> Some (if l then Z_unlock else Z_done, h, s\<lparr>used_memory := v - word_round n\<rparr>))"
| "zstmt i (Z_count l n sz) h s = Some (Z_count_write l n sz (zmalloc_allocations s (stat_slot sz)), h, s)"
| "zstmt i (Z_count_write l n sz v) h s =
     Some (if l then Z_unlock else Z_done, h, s\<lparr>zmalloc_allocations := (zmalloc_allocations s)(stat_slot sz := v + 1)\<rparr>)"
| "zstmt i Z_unlock h s = Some (Z_done, None, s)"
| "zstmt i p h s = None"

datatype zlabel = Z_call nat zjob | Z_tau nat | Z_return nat

fun zact :: "zlabel \<Rightarrow> zworld \<Rightarrow> zworld option" where
  "zact (Z_call i j) w = (if zpc w i = Z_idle then Some (w\<lparr>zpc := (zpc w)(i := Z_start j)\<rparr>) else None)"
| "zact (Z_tau i) w = (case zstmt i (zpc w i) (holder w) (zst w) of
     None \<Rightarrow> None | Some (p, h, s) \<Rightarrow> Some (w\<lparr>zst := s, holder := h, zpc := (zpc w)(i := p)\<rparr>))"
| "zact (Z_return i) w = (if zpc w i = Z_done then Some (w\<lparr>zpc := (zpc w)(i := Z_idle)\<rparr>) else None)"

section \<open>Specification\<close>

text \<open>Whole updates in some order: the list of those done so far, and what each thread is waiting for.\<close>

datatype zstatus = ZS_idle | ZS_called zjob | ZS_done

record zspec =
  log :: "(nat \<times> zjob) list"
  zstatus :: "nat \<Rightarrow> zstatus"

inductive zsstep :: "zspec \<Rightarrow> zlabel \<Rightarrow> zspec \<Rightarrow> bool" where
  zs_call: "zstatus s i = ZS_idle \<Longrightarrow> zsstep s (Z_call i j) (s\<lparr>zstatus := (zstatus s)(i := ZS_called j)\<rparr>)"
| zs_stutter: "zsstep s (Z_tau i) s"
| zs_effect: "zstatus s i = ZS_called j \<Longrightarrow>
    zsstep s (Z_tau i) (s\<lparr>log := log s @ [(i, j)], zstatus := (zstatus s)(i := ZS_done)\<rparr>)"
| zs_return: "zstatus s i = ZS_done \<Longrightarrow> zsstep s (Z_return i) (s\<lparr>zstatus := (zstatus s)(i := ZS_idle)\<rparr>)"

definition logged :: "zstate \<Rightarrow> zspec \<Rightarrow> zstate" where
  "logged z0 s = fold (apply_job \<circ> snd) (log s) z0"

section \<open>The simulation\<close>

fun zcs :: "zpc \<Rightarrow> bool" where
  "zcs (Z_read l j) = True"
| "zcs (Z_write l j v) = True"
| "zcs (Z_count l n sz) = True"
| "zcs (Z_count_write l n sz v) = True"
| "zcs Z_unlock = True"
| "zcs p = False"

text \<open>The state that the thread at \<open>p\<close> has made of the logged state so far, and what it knows.\<close>

fun halfway :: "zpc \<Rightarrow> zstate \<Rightarrow> zstate" where
  "halfway (Z_count l n sz) s = s\<lparr>used_memory := used_memory s + word_round n\<rparr>"
| "halfway (Z_count_write l n sz v) s = s\<lparr>used_memory := used_memory s + word_round n\<rparr>"
| "halfway p s = s"

fun zfits :: "zstate \<Rightarrow> zstatus \<Rightarrow> zpc \<Rightarrow> bool" where
  "zfits s st Z_idle = (st = ZS_idle)"
| "zfits s st (Z_start j) = (st = ZS_called j)"
| "zfits s st (Z_lock j) = (st = ZS_called j)"
| "zfits s st (Z_read l j) = (l \<and> st = ZS_called j)"
| "zfits s st (Z_write l j v) = (l \<and> st = ZS_called j \<and> v = used_memory s)"
| "zfits s st (Z_count l n sz) = (l \<and> st = ZS_called (Stat_alloc n sz))"
| "zfits s st (Z_count_write l n sz v) =
     (l \<and> st = ZS_called (Stat_alloc n sz) \<and> v = zmalloc_allocations s (stat_slot sz))"
| "zfits s st Z_unlock = (st = ZS_done)"
| "zfits s st Z_done = (st = ZS_done)"

definition zsim :: "zstate \<Rightarrow> zworld \<Rightarrow> zspec \<Rightarrow> bool" where
  "zsim z0 w s \<longleftrightarrow> zmalloc_thread_safe z0 \<and> zmalloc_thread_safe (zst w)
   \<and> (\<forall>i. zcs (zpc w i) \<longleftrightarrow> holder w = Some i) \<and> (\<forall>i. zfits (zst w) (zstatus s i) (zpc w i))
   \<and> zst w = (case holder w of None \<Rightarrow> logged z0 s | Some i \<Rightarrow> halfway (zpc w i) (logged z0 s))"

lemma zsim_fits: "zsim z0 w s \<Longrightarrow> zfits (zst w) (zstatus s i) (zpc w i)"
  unfolding zsim_def by blast

lemma zsim_cs: "zsim z0 w s \<Longrightarrow> zcs (zpc w i) \<longleftrightarrow> holder w = Some i"
  unfolding zsim_def by blast

lemma zfits_outside: "\<not> zcs p \<Longrightarrow> zfits s st p \<Longrightarrow> zfits s' st p"
  by (cases p) auto

lemma halfway_outside: "\<not> zcs p \<Longrightarrow> halfway p s = s"
  by (cases p) auto

lemma alloc_in_steps:
  "update_zmalloc_stat_alloc n sz s =
     s\<lparr>used_memory := used_memory s + word_round n,
       zmalloc_allocations := (zmalloc_allocations s)(stat_slot sz := zmalloc_allocations s (stat_slot sz) + 1)\<rparr>"
  by (simp add: update_zmalloc_stat_alloc_def stat_slot_def Let_def)

text \<open>One statement, as the specification sees it: nothing, or the effect of the whole job.\<close>

definition zmove :: "nat \<Rightarrow> zpc \<Rightarrow> nat option \<Rightarrow> zstate \<Rightarrow> zstatus \<Rightarrow> zstate \<Rightarrow> zpc \<Rightarrow> nat option \<Rightarrow> zstate \<Rightarrow> zstatus \<Rightarrow> zstate \<Rightarrow> bool" where
  "zmove i p h s st L q h' s' st' L' \<longleftrightarrow>
     zfits s' st' q \<and> (zcs p \<or> zcs q \<longrightarrow> s' = halfway q L') \<and> zmalloc_thread_safe s'
     \<and> (zcs q \<longleftrightarrow> h' = Some i) \<and> (s' = s \<or> zcs p) \<and> (h' = h \<or> (h' = None \<and> h = Some i) \<or> (h' = Some i \<and> h = None))
     \<and> ((st' = st \<and> L' = L) \<or> (\<exists>j. zcs p \<and> st = ZS_called j \<and> st' = ZS_done \<and> L' = apply_job j L))"

lemma zstmt_step:
  assumes "zfits s st p" "zcs p \<or> h = None \<longrightarrow> s = halfway p L" "zmalloc_thread_safe s"
    and "zcs p \<longleftrightarrow> h = Some i" and go: "zstmt i p h s = Some (q, h', s')"
  shows "\<exists>st' L'. zmove i p h s st L q h' s' st' L'"
proof (cases p)
  case (Z_start j)
  then have "zmove i p h s st L q h' s' st L" using assms by (auto simp: zmove_def)
  then show ?thesis by blast
next
  case (Z_lock j)
  then have "zmove i p h s st L q h' s' st L" using assms by (auto simp: zmove_def split: if_splits)
  then show ?thesis by blast
next
  case (Z_read l j)
  then have "zmove i p h s st L q h' s' st L" using assms by (auto simp: zmove_def)
  then show ?thesis by blast
next
  case (Z_write l j v)
  show ?thesis
  proof (cases j)
    case (Stat_alloc n sz)
    then have "zmove i p h s st L q h' s' st L" using assms Z_write by (auto simp: zmove_def)
    then show ?thesis by blast
  next
    case (Stat_free n)
    then have "zmove i p h s st L q h' s' ZS_done (apply_job j L)" using assms Z_write
      by (auto simp: zmove_def update_zmalloc_stat_free_def)
    then show ?thesis by blast
  qed
next
  case (Z_count l n sz)
  then have "zmove i p h s st L q h' s' st L" using assms by (auto simp: zmove_def)
  then show ?thesis by blast
next
  case (Z_count_write l n sz v)
  then have "zmove i p h s st L q h' s' ZS_done (apply_job (Stat_alloc n sz) L)" using assms
    by (auto simp: zmove_def alloc_in_steps)
  then show ?thesis by blast
next
  case Z_unlock
  then have "zmove i p h s st L q h' s' st L" using assms by (auto simp: zmove_def)
  then show ?thesis by blast
qed (use go in simp_all)

text \<open>The other threads do not notice the move of one.\<close>

lemma zsim_moved:
  assumes sim: "zsim z0 w s"
    and mv: "zmove i (zpc w i) (holder w) (zst w) (zstatus s i) (logged z0 s) q h z st' L'"
    and s': "zstatus s' = (zstatus s)(i := st')" "logged z0 s' = L'"
  shows "zsim z0 (w\<lparr>zst := z, holder := h, zpc := (zpc w)(i := q)\<rparr>) s'"
proof -
  have fit: "\<And>j. zfits (zst w) (zstatus s j) (zpc w j)" and cs: "\<And>j. zcs (zpc w j) \<longleftrightarrow> holder w = Some j"
    and safe: "zmalloc_thread_safe z0"
    and val: "zst w = (case holder w of None \<Rightarrow> logged z0 s | Some k \<Rightarrow> halfway (zpc w k) (logged z0 s))"
    using sim unfolding zsim_def by blast+
  from mv [unfolded zmove_def] have fits: "zfits z st' q" and mid: "zcs (zpc w i) \<or> zcs q \<Longrightarrow> z = halfway q L'"
    and safe': "zmalloc_thread_safe z" and cs': "zcs q \<longleftrightarrow> h = Some i" and same: "z = zst w \<or> zcs (zpc w i)"
    and lock: "h = holder w \<or> (h = None \<and> holder w = Some i) \<or> (h = Some i \<and> holder w = None)"
    and eff: "zcs (zpc w i) \<or> L' = logged z0 s"
    by blast+
  have "zfits z (zstatus s j) (zpc w j)" if "j \<noteq> i" for j
  proof (cases "zcs (zpc w i)")
    case True
    then have "\<not> zcs (zpc w j)" using cs [of i] cs [of j] that by simp
    then show ?thesis using fit zfits_outside by blast
  next
    case False
    then show ?thesis using same fit by simp
  qed
  moreover have "zcs (((zpc w)(i := q)) j) \<longleftrightarrow> h = Some j" for j
    using lock cs' cs [of i] cs [of j] by auto
  moreover have "z = (case h of None \<Rightarrow> L' | Some k \<Rightarrow> halfway (((zpc w)(i := q)) k) L')"
  proof (cases "zcs (zpc w i) \<or> zcs q")
    case True
    have "h = None \<or> h = Some i" using True lock cs' cs [of i] by auto
    then show ?thesis using mid [OF True] cs' halfway_outside [of q L'] by auto
  next
    case False
    then have "h = holder w" "holder w \<noteq> Some i" using lock cs' cs [of i] by auto
    moreover have "z = zst w" "L' = logged z0 s" using False same eff by auto
    ultimately show ?thesis using val by (simp split: option.splits)
  qed
  ultimately show ?thesis unfolding zsim_def using fits safe' safe s' by (cases h) (auto split: if_splits)
qed

text \<open>A statement of one thread is a step of the specification.\<close>

lemma zsim_tau:
  assumes sim: "zsim z0 w s" and go: "zact (Z_tau i) w = Some w'"
  shows "\<exists>s'. zsstep s (Z_tau i) s' \<and> zsim z0 w' s'"
proof -
  obtain q h z where st: "zstmt i (zpc w i) (holder w) (zst w) = Some (q, h, z)"
    and w': "w' = w\<lparr>zst := z, holder := h, zpc := (zpc w)(i := q)\<rparr>" using go by (auto split: option.splits)
  have fit: "\<And>j. zfits (zst w) (zstatus s j) (zpc w j)" and cs: "\<And>j. zcs (zpc w j) \<longleftrightarrow> holder w = Some j"
    and safe: "zmalloc_thread_safe z0" "zmalloc_thread_safe (zst w)"
    and val: "zst w = (case holder w of None \<Rightarrow> logged z0 s | Some k \<Rightarrow> halfway (zpc w k) (logged z0 s))"
    using sim unfolding zsim_def by blast+
  have "zcs (zpc w i) \<or> holder w = None \<longrightarrow> zst w = halfway (zpc w i) (logged z0 s)"
    using cs [of i] val by (auto simp: halfway_outside)
  from zstmt_step [OF fit this safe(2) cs st] obtain st' L'
    where "zmove i (zpc w i) (holder w) (zst w) (zstatus s i) (logged z0 s) q h z st' L'" by blast
  note mv = this
  have rel: "zsim z0 w' s'" if "zstatus s' = (zstatus s)(i := st')" "logged z0 s' = L'" for s'
    unfolding w' by (rule zsim_moved [OF sim mv that])
  show ?thesis
  proof (cases "st' = zstatus s i \<and> L' = logged z0 s")
    case True
    then have "zsim z0 w' s" using rel by simp
    then show ?thesis using zs_stutter by blast
  next
    case False
    then obtain j where j: "zstatus s i = ZS_called j" "st' = ZS_done" "L' = apply_job j (logged z0 s)"
      using mv unfolding zmove_def by blast
    let ?s = "s\<lparr>log := log s @ [(i, j)], zstatus := (zstatus s)(i := ZS_done)\<rparr>"
    have "zsim z0 w' ?s" by (rule rel) (simp_all add: j logged_def)
    then show ?thesis using zs_effect [OF j(1)] by blast
  qed
qed

lemma zsim_call:
  assumes "zsim z0 w s" "zact (Z_call i j) w = Some w'"
  shows "\<exists>s'. zsstep s (Z_call i j) s' \<and> zsim z0 w' s'"
proof -
  have p: "zpc w i = Z_idle" and w': "w' = w\<lparr>zpc := (zpc w)(i := Z_start j)\<rparr>"
    using assms(2) by (auto split: if_splits)
  have idle: "zstatus s i = ZS_idle" and "holder w \<noteq> Some i"
    using zsim_fits [OF assms(1), of i] zsim_cs [OF assms(1), of i] p by simp_all
  then have "zsim z0 w' (s\<lparr>zstatus := (zstatus s)(i := ZS_called j)\<rparr>)"
    using assms(1) p unfolding w' zsim_def by (auto simp: logged_def split: option.splits)
  then show ?thesis using zs_call [OF idle] by blast
qed

lemma zsim_return:
  assumes "zsim z0 w s" "zact (Z_return i) w = Some w'"
  shows "\<exists>s'. zsstep s (Z_return i) s' \<and> zsim z0 w' s'"
proof -
  have p: "zpc w i = Z_done" and w': "w' = w\<lparr>zpc := (zpc w)(i := Z_idle)\<rparr>"
    using assms(2) by (auto split: if_splits)
  have fin: "zstatus s i = ZS_done" and "holder w \<noteq> Some i"
    using zsim_fits [OF assms(1), of i] zsim_cs [OF assms(1), of i] p by simp_all
  then have "zsim z0 w' (s\<lparr>zstatus := (zstatus s)(i := ZS_idle)\<rparr>)"
    using assms(1) p unfolding w' zsim_def by (auto simp: logged_def split: option.splits)
  then show ?thesis using zs_return [OF fin] by blast
qed

interpretation threads: forward_simulation "\<lambda>w l w'. zact l w = Some w'" zsstep "zsim z0" "\<lambda>l. True" for z0
proof
  fix w s l w'
  assume "zsim z0 w s" "zact l w = Some w'"
  then show "\<exists>s'. zsstep s l s' \<and> zsim z0 w' s'"
    by (cases l) (auto intro: zsim_tau zsim_call zsim_return)
qed

section \<open>The counters after the calls\<close>

definition calls :: "zlabel list \<Rightarrow> (nat \<times> zjob) list" where
  "calls ls = concat (map (\<lambda>l. case l of Z_call i j \<Rightarrow> [(i, j)] | _ \<Rightarrow> []) ls)"

definition of_thread :: "nat \<Rightarrow> (nat \<times> zjob) list \<Rightarrow> zjob list" where
  "of_thread i xs = map snd (filter (\<lambda>x. fst x = i) xs)"

fun waiting :: "zstatus \<Rightarrow> zjob list" where
  "waiting (ZS_called j) = [j]"
| "waiting st = []"

definition zspec_start :: zspec where
  "zspec_start = \<lparr>log = [], zstatus = \<lambda>_. ZS_idle\<rparr>"

definition zthreads_start :: "zstate \<Rightarrow> zworld" where
  "zthreads_start z0 = \<lparr>zst = z0, holder = None, zpc = \<lambda>_. Z_idle\<rparr>"

text \<open>Every thread's jobs are logged in the order of its calls, up to the one it is in.\<close>

lemma logged_calls:
  assumes "run zsstep zspec_start ls s"
  shows "of_thread i (log s) @ waiting (zstatus s i) = of_thread i (calls ls)"
  using assms
proof (induction zspec_start ls s rule: run.induct)
  case run_Nil
  then show ?case by (simp add: zspec_start_def of_thread_def calls_def)
next
  case (run_snoc ls t l u)
  from run_snoc(3,2) show ?case by cases (auto simp: of_thread_def calls_def)
qed

lemma count_by_thread: "count (mset xs) (i, j) = count (mset (of_thread i xs)) j"
  by (induction xs) (auto simp: of_thread_def)

lemma same_threads_same_jobs:
  assumes "\<And>i. of_thread i xs = of_thread i ys"
  shows "mset xs = mset ys"
proof (rule multiset_eqI)
  fix p :: "nat \<times> zjob"
  show "count (mset xs) p = count (mset ys) p"
    by (cases p) (simp add: count_by_thread assms)
qed

lemma apply_job_commute: "apply_job a (apply_job b s) = apply_job b (apply_job a s)"
  by (cases a; cases b) (auto simp: alloc_in_steps update_zmalloc_stat_free_def fun_eq_iff algebra_simps)

lemma fold_jobs_permuted:
  assumes "mset xs = mset ys"
  shows "fold (apply_job \<circ> snd) xs = fold (apply_job \<circ> snd) ys"
  by (rule fold_multiset_equiv) (auto simp: assms apply_job_commute)

lemma zsim_start: "zmalloc_thread_safe z0 \<Longrightarrow> zsim z0 (zthreads_start z0) zspec_start"
  by (simp add: zsim_def zthreads_start_def zspec_start_def logged_def)

lemma threads_reached:
  assumes "zmalloc_thread_safe z0" "run_fun zact ls (zthreads_start z0) = Some w"
  obtains s where "run zsstep zspec_start ls s" "zsim z0 w s"
  using threads.run_simulated [OF _ zsim_start [OF assms(1)], of ls w] assms(2) run_iff_fun [of zact]
  by (auto intro: that)

text \<open>
  C13. With the mutex enabled, the interleaving of the threads does not show: whenever every thread has left the
  macros, whatever order their reads, writes and lock operations took, the counters are the ones that result
  when the calls are made one after the other.
\<close>

theorem zmalloc_threads_count_every_call:
  assumes "zmalloc_thread_safe z0" "run_fun zact ls (zthreads_start z0) = Some w" "\<forall>i. zpc w i = Z_idle"
  shows "zst w = fold (apply_job \<circ> snd) (calls ls) z0"
proof -
  obtain s where s: "run zsstep zspec_start ls s" "zsim z0 w s" by (rule threads_reached [OF assms(1,2)])
  have "zstatus s i = ZS_idle" for i using zsim_fits [OF s(2), of i] assms(3) by simp
  then have "of_thread i (log s) = of_thread i (calls ls)" for i using logged_calls [OF s(1), of i] by simp
  then have "fold (apply_job \<circ> snd) (log s) = fold (apply_job \<circ> snd) (calls ls)"
    by (intro fold_jobs_permuted same_threads_same_jobs)
  moreover have "holder w = None" using zsim_cs [OF s(2)] assms(3) by (cases "holder w") auto
  ultimately show ?thesis using s(2) by (simp add: zsim_def logged_def)
qed

text \<open>Two allocating threads; the second waits for the mutex.\<close>

definition zempty :: "bool \<Rightarrow> zstate" where
  "zempty safe = \<lparr>used_memory = 0, zmalloc_allocations = \<lambda>_. 0, zmalloc_thread_safe = safe, zheap = \<lambda>_. None\<rparr>"

definition safe_schedule :: "zlabel list" where
  "safe_schedule = [Z_call 0 (Stat_alloc 24 16), Z_call 1 (Stat_alloc 24 16), Z_tau 0, Z_tau 0, Z_tau 1]
     @ replicate 5 (Z_tau 0) @ replicate 6 (Z_tau 1) @ [Z_return 0, Z_return 1]"

theorem zmalloc_threads_count_every_call_witness:
  "\<exists>w. run_fun zact safe_schedule (zthreads_start (zempty True)) = Some w \<and> used_memory (zst w) = 48"
proof -
  obtain w where w: "run_fun zact safe_schedule (zthreads_start (zempty True)) = Some w" "\<forall>i. zpc w i = Z_idle"
    by (simp add: safe_schedule_def zthreads_start_def zempty_def numeral_eq_Suc)
  have "zst w = fold (apply_job \<circ> snd) (calls safe_schedule) (zempty True)"
    by (rule zmalloc_threads_count_every_call [OF _ w]) (simp add: zempty_def)
  also have "used_memory \<dots> = 48"
    by (simp add: safe_schedule_def calls_def alloc_in_steps zempty_def word_round_def)
  finally show ?thesis using w(1) by blast
qed

text \<open>One thread alone does what the macros of \<open>Zmalloc\<close> say, with the mutex and without it.\<close>

definition macro_labels :: "bool \<Rightarrow> nat \<Rightarrow> zjob \<Rightarrow> zlabel list" where
  "macro_labels safe i j = Z_call i j
     # replicate ((if safe then 3 else 1) + (case j of Stat_alloc n sz \<Rightarrow> 4 | Stat_free n \<Rightarrow> 2)) (Z_tau i) @ [Z_return i]"

lemma macro_statements:
  assumes "zpc w i = Z_idle" "holder w = None"
  shows "run_fun zact (macro_labels (zmalloc_thread_safe (zst w)) i j) w = Some (w\<lparr>zst := apply_job j (zst w)\<rparr>)"
proof -
  have "(zpc w)(i := Z_idle) = zpc w" using assms(1) by (simp add: fun_eq_iff)
  then show ?thesis
    by (cases j; cases "zmalloc_thread_safe (zst w)")
      (simp_all add: macro_labels_def numeral_eq_Suc assms alloc_in_steps update_zmalloc_stat_free_def)
qed

text \<open>Without the mutex an update can be lost: both threads read the counter before either writes it.\<close>

definition unsafe_schedule :: "zlabel list" where
  "unsafe_schedule = [Z_call 0 (Stat_alloc 24 16), Z_call 1 (Stat_alloc 24 16), Z_tau 0, Z_tau 1, Z_tau 0, Z_tau 1]
     @ replicate 3 (Z_tau 0) @ replicate 3 (Z_tau 1) @ [Z_return 0, Z_return 1]"

theorem zmalloc_threads_lose_updates:
  "\<exists>w. run_fun zact unsafe_schedule (zthreads_start (zempty False)) = Some w \<and> used_memory (zst w) = 24
       \<and> used_memory (fold (apply_job \<circ> snd) (calls unsafe_schedule) (zempty False)) = 48"
proof -
  have "used_memory (fold (apply_job \<circ> snd) (calls unsafe_schedule) (zempty False)) = 48"
    by (simp add: unsafe_schedule_def calls_def alloc_in_steps zempty_def word_round_def)
  moreover obtain w where "run_fun zact unsafe_schedule (zthreads_start (zempty False)) = Some w"
    "used_memory (zst w) = word_round 24"
    by (simp add: unsafe_schedule_def zthreads_start_def zempty_def numeral_eq_Suc)
  ultimately show ?thesis by (simp add: word_round_def)
qed

end
