(* ===== verification/Ae.thy ===== *)
theory Ae
  imports Prelude "HOL-Library.Signed_Division"
begin

text \<open>
  The event loop of \<open>ae/ae.c\<close> on \<open>ae/ae_epoll.c\<close>: file events registered in an array indexed by
  descriptor and mirrored in the kernel's epoll interest list, and time events in a linked
  list.

  Parameters of the definitions, for what is not part of the source: \<open>ctl\<close> is \<open>epoll_ctl\<close> on the
  kernel's state \<open>'k\<close> (\<open>None\<close> for -1), \<open>wait\<close> is \<open>epoll_wait\<close> (what it wrote to the caller's array),
  \<open>clk\<close> gives the successive readings of \<open>gettimeofday\<close> as seconds and milliseconds, and
  \<open>fcall\<close>, \<open>tcall\<close>, \<open>fin\<close> and \<open>bcall\<close> run the program's callbacks by their addresses; a callback may
  change the loop in any way. \<open>long\<close> and \<open>long long\<close> values are unbounded integers (an overflow
  would be undefined), descriptors are integers, event masks 32-bit words.
\<close>

section \<open>Data\<close>

definition AE_SETSIZE :: int where "AE_SETSIZE = 1024 * 10"

definition AE_NONE :: u32 where "AE_NONE = 0"
definition AE_READABLE :: u32 where "AE_READABLE = 1"
definition AE_WRITABLE :: u32 where "AE_WRITABLE = 2"

definition AE_FILE_EVENTS :: u32 where "AE_FILE_EVENTS = 1"
definition AE_TIME_EVENTS :: u32 where "AE_TIME_EVENTS = 2"
definition AE_ALL_EVENTS :: u32 where "AE_ALL_EVENTS = AE_FILE_EVENTS OR AE_TIME_EVENTS"
definition AE_DONT_WAIT :: u32 where "AE_DONT_WAIT = 4"

definition AE_OK :: int where "AE_OK = 0"
definition AE_ERR :: int where "AE_ERR = -1"
definition AE_NOMORE :: int where "AE_NOMORE = -1"

definition EPOLLIN :: u32 where "EPOLLIN = 1"
definition EPOLLOUT :: u32 where "EPOLLOUT = 4"

record aeFileEvent =
  fe_mask :: u32
  rfileProc :: ptr
  wfileProc :: ptr
  fe_clientData :: ptr

record aeTimeEvent =
  te_id :: int
  when_sec :: int
  when_ms :: int
  timeProc :: ptr
  finalizerProc :: ptr
  te_clientData :: ptr

text \<open>
  \<open>timeEvents\<close> is the list from \<open>timeEventHead\<close> on. A node is identified by its tid, which is never
  given to another node. \<open>apidata\<close> is the kernel's state behind the epoll descriptor, and \<open>ticks\<close>
  counts the clock readings so far.
\<close>

record 'k aeEventLoop =
  maxfd :: int
  timeEventNextId :: int
  events :: "nat \<Rightarrow> aeFileEvent"
  fired :: "nat \<Rightarrow> int \<times> u32"
  timeEvents :: "aeTimeEvent list"
  stop :: bool
  apidata :: 'k
  beforesleep :: ptr
  ticks :: nat

datatype epoll_op = EPOLL_CTL_ADD | EPOLL_CTL_MOD | EPOLL_CTL_DEL

type_synonym 'k epoll_ctl = "'k \<Rightarrow> epoll_op \<Rightarrow> int \<Rightarrow> u32 \<Rightarrow> 'k option"
type_synonym 'k epoll_wait = "'k \<Rightarrow> int \<Rightarrow> (int \<times> u32) list \<times> 'k"
type_synonym clock = "nat \<Rightarrow> int \<times> int"
type_synonym 'k file_procs = "ptr \<Rightarrow> 'k aeEventLoop \<Rightarrow> int \<Rightarrow> ptr \<Rightarrow> u32 \<Rightarrow> 'k aeEventLoop option"
type_synonym 'k time_procs = "ptr \<Rightarrow> 'k aeEventLoop \<Rightarrow> int \<Rightarrow> ptr \<Rightarrow> (int \<times> 'k aeEventLoop) option"
type_synonym 'k finalizers = "ptr \<Rightarrow> 'k aeEventLoop \<Rightarrow> ptr \<Rightarrow> 'k aeEventLoop option"

section \<open>The epoll layer\<close>

definition ee_events :: "u32 \<Rightarrow> u32" where
  "ee_events msk = (if msk AND AE_READABLE \<noteq> 0 then EPOLLIN else 0)
     OR (if msk AND AE_WRITABLE \<noteq> 0 then EPOLLOUT else 0)"

definition aeApiAddEvent :: "'k epoll_ctl \<Rightarrow> 'k aeEventLoop \<Rightarrow> int \<Rightarrow> u32 \<Rightarrow> 'k aeEventLoop option" where
  "aeApiAddEvent ctl lp fd msk =
     (let old = fe_mask (events lp (nat fd));
          op = (if old = AE_NONE then EPOLL_CTL_ADD else EPOLL_CTL_MOD);
          msk = msk OR old
      in map_option (\<lambda>k. lp\<lparr>apidata := k\<rparr>) (ctl (apidata lp) op fd (ee_events msk)))"

text \<open>The result of \<open>epoll_ctl\<close> is ignored here.\<close>

definition aeApiDelEvent :: "'k epoll_ctl \<Rightarrow> 'k aeEventLoop \<Rightarrow> int \<Rightarrow> u32 \<Rightarrow> 'k aeEventLoop" where
  "aeApiDelEvent ctl lp fd delmask =
     (let msk = fe_mask (events lp (nat fd)) AND NOT delmask;
          op = (if msk \<noteq> AE_NONE then EPOLL_CTL_MOD else EPOLL_CTL_DEL)
      in case ctl (apidata lp) op fd (ee_events msk) of None \<Rightarrow> lp | Some k \<Rightarrow> lp\<lparr>apidata := k\<rparr>)"

definition fired_mask :: "u32 \<Rightarrow> u32" where
  "fired_mask ev = (if ev AND EPOLLIN \<noteq> 0 then AE_READABLE else 0)
     OR (if ev AND EPOLLOUT \<noteq> 0 then AE_WRITABLE else 0)"

text \<open>
  The milliseconds are computed as a \<open>long\<close> and passed as an \<open>int\<close>: the upper half is dropped.
\<close>

definition aeApiPoll :: "'k epoll_wait \<Rightarrow> 'k aeEventLoop \<Rightarrow> (int \<times> int) option \<Rightarrow> nat \<times> 'k aeEventLoop" where
  "aeApiPoll wait lp tvp =
     (let timeout = (case tvp of None \<Rightarrow> -1 | Some (sec, usec) \<Rightarrow> sint (word_of_int (sec * 1000 + usec sdiv 1000) :: 32 word));
          (evs, k) = wait (apidata lp) timeout
      in (length evs,
          lp\<lparr>apidata := k,
             fired := (\<lambda>j. if j < length evs then (fst (evs ! j), fired_mask (snd (evs ! j))) else fired lp j)\<rparr>))"

section \<open>The loop and its file events\<close>

text \<open>
  \<open>zmalloc\<close> never returns null. \<open>create\<close> is what \<open>epoll_create\<close> yields, \<open>junk\<close> and \<open>junkfired\<close> the
  contents of the fresh memory.
\<close>

definition aeCreateEventLoop ::
  "'k option \<Rightarrow> (nat \<Rightarrow> aeFileEvent) \<Rightarrow> (nat \<Rightarrow> int \<times> u32) \<Rightarrow> 'k aeEventLoop option" where
  "aeCreateEventLoop create junk junkfired =
     map_option (\<lambda>k. \<lparr>maxfd = -1, timeEventNextId = 0,
       events = (\<lambda>i. if i < nat AE_SETSIZE then (junk i)\<lparr>fe_mask := AE_NONE\<rparr> else junk i),
       fired = junkfired, timeEvents = [], stop = False, apidata = k, beforesleep = None, ticks = 0\<rparr>) create"

definition aeStop :: "'k aeEventLoop \<Rightarrow> 'k aeEventLoop" where
  "aeStop lp = lp\<lparr>stop := True\<rparr>"

text \<open>The writes to the event's slot of the array.\<close>

definition register :: "aeFileEvent \<Rightarrow> u32 \<Rightarrow> ptr \<Rightarrow> ptr \<Rightarrow> aeFileEvent" where
  "register fe msk proc clientData =
     (let fe = fe\<lparr>fe_mask := fe_mask fe OR msk\<rparr>;
          fe = (if msk AND AE_READABLE \<noteq> 0 then fe\<lparr>rfileProc := proc\<rparr> else fe);
          fe = (if msk AND AE_WRITABLE \<noteq> 0 then fe\<lparr>wfileProc := proc\<rparr> else fe)
      in fe\<lparr>fe_clientData := clientData\<rparr>)"

text \<open>A negative descriptor passes the size check and indexes before the array.\<close>

definition aeCreateFileEvent ::
  "'k epoll_ctl \<Rightarrow> 'k aeEventLoop \<Rightarrow> int \<Rightarrow> u32 \<Rightarrow> ptr \<Rightarrow> ptr \<Rightarrow> (int \<times> 'k aeEventLoop) option" where
  "aeCreateFileEvent ctl lp fd msk proc clientData =
     (if AE_SETSIZE \<le> fd then Some (AE_ERR, lp)
      else if fd < 0 then None
      else (case aeApiAddEvent ctl lp fd msk of
          None \<Rightarrow> Some (AE_ERR, lp)
        | Some lp \<Rightarrow> Some (AE_OK,
            lp\<lparr>events := (events lp)(nat fd := register (events lp (nat fd)) msk proc clientData),
               maxfd := (if maxfd lp < fd then fd else maxfd lp)\<rparr>)))"

text \<open>\<open>for (j = maxfd-1; j >= 0; j--) if (events[j].mask != AE_NONE) break;\<close> for \<open>j + 1 = n\<close>.\<close>

fun last_used :: "(nat \<Rightarrow> aeFileEvent) \<Rightarrow> nat \<Rightarrow> int" where
  "last_used ev 0 = -1"
| "last_used ev (Suc j) = (if fe_mask (ev j) \<noteq> AE_NONE then int j else last_used ev j)"

definition aeDeleteFileEvent :: "'k epoll_ctl \<Rightarrow> 'k aeEventLoop \<Rightarrow> int \<Rightarrow> u32 \<Rightarrow> 'k aeEventLoop option" where
  "aeDeleteFileEvent ctl lp fd msk =
     (if AE_SETSIZE \<le> fd then Some lp
      else if fd < 0 then None
      else let fe = events lp (nat fd)
      in if fe_mask fe = AE_NONE then Some lp
      else let fe = fe\<lparr>fe_mask := fe_mask fe AND NOT msk\<rparr>;
               ev = (events lp)(nat fd := fe);
               lp = lp\<lparr>events := ev,
                       maxfd := (if fd = maxfd lp \<and> fe_mask fe = AE_NONE
                                 then last_used ev (nat (maxfd lp)) else maxfd lp)\<rparr>
      in Some (aeApiDelEvent ctl lp fd msk))"

section \<open>Time events\<close>

definition aeGetTime :: "clock \<Rightarrow> 'k aeEventLoop \<Rightarrow> (int \<times> int) \<times> 'k aeEventLoop" where
  "aeGetTime clk lp = (clk (ticks lp), lp\<lparr>ticks := ticks lp + 1\<rparr>)"

definition aeAddMillisecondsToNow :: "int \<times> int \<Rightarrow> int \<Rightarrow> int \<times> int" where
  "aeAddMillisecondsToNow now milliseconds =
     (let (cur_sec, cur_ms) = now;
          when_sec = cur_sec + milliseconds sdiv 1000;
          when_ms = cur_ms + milliseconds smod 1000
      in if 1000 \<le> when_ms then (when_sec + 1, when_ms - 1000) else (when_sec, when_ms))"

definition aeCreateTimeEvent ::
  "clock \<Rightarrow> 'k aeEventLoop \<Rightarrow> int \<Rightarrow> ptr \<Rightarrow> ptr \<Rightarrow> ptr \<Rightarrow> int \<times> 'k aeEventLoop" where
  "aeCreateTimeEvent clk lp milliseconds proc clientData finalizer =
     (let tid = timeEventNextId lp;
          lp = lp\<lparr>timeEventNextId := tid + 1\<rparr>;
          (now, lp) = aeGetTime clk lp;
          (sec, ms) = aeAddMillisecondsToNow now milliseconds;
          te = \<lparr>te_id = tid, when_sec = sec, when_ms = ms, timeProc = proc, finalizerProc = finalizer,
                te_clientData = clientData\<rparr>
      in (tid, lp\<lparr>timeEvents := te # timeEvents lp\<rparr>))"

text \<open>The list without the first node with the id, and that node.\<close>

fun unlink_te :: "int \<Rightarrow> aeTimeEvent list \<Rightarrow> (aeTimeEvent \<times> aeTimeEvent list) option" where
  "unlink_te tid [] = None"
| "unlink_te tid (te # tes) =
     (if te_id te = tid then Some (te, tes)
      else map_option (\<lambda>(x, rest). (x, te # rest)) (unlink_te tid tes))"

definition aeDeleteTimeEvent :: "'k finalizers \<Rightarrow> 'k aeEventLoop \<Rightarrow> int \<Rightarrow> (int \<times> 'k aeEventLoop) option" where
  "aeDeleteTimeEvent fin lp tid =
     (case unlink_te tid (timeEvents lp) of
        None \<Rightarrow> Some (AE_ERR, lp)
      | Some (te, rest) \<Rightarrow> do {
          let lp = lp\<lparr>timeEvents := rest\<rparr>;
          lp \<leftarrow> (if finalizerProc te \<noteq> None then fin (finalizerProc te) lp (te_clientData te) else Some lp);
          Some (AE_OK, lp)
        })"

fun nearest_timer :: "aeTimeEvent option \<Rightarrow> aeTimeEvent list \<Rightarrow> aeTimeEvent option" where
  "nearest_timer near [] = near"
| "nearest_timer near (te # tes) =
     (case near of
        None \<Rightarrow> nearest_timer (Some te) tes
      | Some n \<Rightarrow>
          if when_sec te < when_sec n \<or> (when_sec te = when_sec n \<and> when_ms te < when_ms n)
          then nearest_timer (Some te) tes else nearest_timer (Some n) tes)"

definition aeSearchNearestTimer :: "'k aeEventLoop \<Rightarrow> aeTimeEvent option" where
  "aeSearchNearestTimer lp = nearest_timer None (timeEvents lp)"

definition due :: "int \<times> int \<Rightarrow> aeTimeEvent \<Rightarrow> bool" where
  "due now te \<longleftrightarrow> when_sec te < fst now \<or> (fst now = when_sec te \<and> when_ms te \<le> snd now)"

text \<open>
  The write to \<open>te->when_sec\<close> and \<open>te->when_ms\<close> after the callback; when the callback deleted its
  own event, \<open>te\<close> has been freed and the write is undefined.
\<close>

definition set_when :: "int \<Rightarrow> int \<times> int \<Rightarrow> aeTimeEvent list \<Rightarrow> aeTimeEvent list option" where
  "set_when tid w tes =
     (if tid \<in> te_id ` set tes
      then Some (map (\<lambda>te. if te_id te = tid then te\<lparr>when_sec := fst w, when_ms := snd w\<rparr> else te) tes)
      else None)"

definition run_timer ::
  "clock \<Rightarrow> 'k time_procs \<Rightarrow> 'k finalizers \<Rightarrow> 'k aeEventLoop \<Rightarrow> aeTimeEvent \<Rightarrow> 'k aeEventLoop option" where
  "run_timer clk tcall fin lp te = do {
     (retval, lp) \<leftarrow> tcall (timeProc te) lp (te_id te) (te_clientData te);
     if retval \<noteq> AE_NOMORE
     then do {
       let (now, lp) = aeGetTime clk lp;
       tes \<leftarrow> set_when (te_id te) (aeAddMillisecondsToNow now retval) (timeEvents lp);
       Some (lp\<lparr>timeEvents := tes\<rparr>)
     }
     else map_option snd (aeDeleteTimeEvent fin lp (te_id te))
   }"

text \<open>The loop of \<open>processTimeEvents\<close>; \<open>tes\<close> is the list from the current node on.\<close>

partial_function (option) time_loop ::
  "clock \<Rightarrow> 'k time_procs \<Rightarrow> 'k finalizers \<Rightarrow> int \<Rightarrow> aeTimeEvent list \<Rightarrow> 'k aeEventLoop \<Rightarrow> nat
     \<Rightarrow> (nat \<times> 'k aeEventLoop) option" where
  "time_loop clk tcall fin maxId tes lp processed =
     (if tes = [] then Some (processed, lp)
      else if maxId < te_id (hd tes) then time_loop clk tcall fin maxId (tl tes) lp processed
      else if due (fst (aeGetTime clk lp)) (hd tes)
      then do {
        lp \<leftarrow> run_timer clk tcall fin (snd (aeGetTime clk lp)) (hd tes);
        time_loop clk tcall fin maxId (timeEvents lp) lp (processed + 1)
      }
      else time_loop clk tcall fin maxId (tl tes) (snd (aeGetTime clk lp)) processed)"

definition processTimeEvents ::
  "clock \<Rightarrow> 'k time_procs \<Rightarrow> 'k finalizers \<Rightarrow> 'k aeEventLoop \<Rightarrow> (nat \<times> 'k aeEventLoop) option" where
  "processTimeEvents clk tcall fin lp =
     time_loop clk tcall fin (timeEventNextId lp - 1) (timeEvents lp) lp 0"

section \<open>One iteration\<close>

text \<open>The time to wait for the nearest timer, as a \<open>timeval\<close>.\<close>

definition timer_timeout :: "int \<times> int \<Rightarrow> aeTimeEvent \<Rightarrow> int \<times> int" where
  "timer_timeout now te =
     (let sec = when_sec te - fst now;
          (sec, usec) = (if when_ms te < snd now
                         then (sec - 1, ((when_ms te + 1000) - snd now) * 1000)
                         else (sec, (when_ms te - snd now) * 1000))
      in (if sec < 0 then 0 else sec, if usec < 0 then 0 else usec))"

definition wait_time :: "clock \<Rightarrow> 'k aeEventLoop \<Rightarrow> u32 \<Rightarrow> (int \<times> int) option \<times> 'k aeEventLoop" where
  "wait_time clk lp flags =
     (case (if flags AND AE_TIME_EVENTS \<noteq> 0 \<and> flags AND AE_DONT_WAIT = 0 then aeSearchNearestTimer lp else None) of
        Some shortest \<Rightarrow> let (now, lp) = aeGetTime clk lp in (Some (timer_timeout now shortest), lp)
      | None \<Rightarrow> (if flags AND AE_DONT_WAIT \<noteq> 0 then Some (0, 0) else None, lp))"

text \<open>
  The callbacks of one fired event. \<open>fe\<close> is a pointer into the array, so its msk and procedures
  are read again after the first callback.
\<close>

definition dispatch :: "'k file_procs \<Rightarrow> 'k aeEventLoop \<Rightarrow> nat \<Rightarrow> 'k aeEventLoop option" where
  "dispatch fcall lp j =
     (let (fd, msk) = fired lp j
      in if fd < 0 \<or> AE_SETSIZE \<le> fd then None
      else let fe = events lp (nat fd);
               rfired = (fe_mask fe AND msk AND AE_READABLE \<noteq> 0)
      in do {
        lp \<leftarrow> (if rfired then fcall (rfileProc fe) lp fd (fe_clientData fe) msk else Some lp);
        let fe = events lp (nat fd);
        if fe_mask fe AND msk AND AE_WRITABLE \<noteq> 0 \<and> (\<not> rfired \<or> wfileProc fe \<noteq> rfileProc fe)
        then fcall (wfileProc fe) lp fd (fe_clientData fe) msk else Some lp
      })"

fun dispatch_all :: "'k file_procs \<Rightarrow> nat list \<Rightarrow> 'k aeEventLoop \<Rightarrow> 'k aeEventLoop option" where
  "dispatch_all fcall [] lp = Some lp"
| "dispatch_all fcall (j # js) lp = do { lp \<leftarrow> dispatch fcall lp j; dispatch_all fcall js lp }"

definition aeProcessEvents ::
  "clock \<Rightarrow> 'k epoll_wait \<Rightarrow> 'k file_procs \<Rightarrow> 'k time_procs \<Rightarrow> 'k finalizers
     \<Rightarrow> 'k aeEventLoop \<Rightarrow> u32 \<Rightarrow> (nat \<times> 'k aeEventLoop) option" where
  "aeProcessEvents clk wait fcall tcall fin lp flags =
     (if flags AND AE_TIME_EVENTS = 0 \<and> flags AND AE_FILE_EVENTS = 0 then Some (0, lp)
      else do {
        (processed, lp) \<leftarrow>
          (if maxfd lp \<noteq> -1 \<or> (flags AND AE_TIME_EVENTS \<noteq> 0 \<and> flags AND AE_DONT_WAIT = 0)
           then let (tvp, lp) = wait_time clk lp flags;
                    (numevents, lp) = aeApiPoll wait lp tvp
             in map_option (\<lambda>lp. (numevents, lp)) (dispatch_all fcall [0..<numevents] lp)
           else Some (0, lp));
        if flags AND AE_TIME_EVENTS \<noteq> 0
        then map_option (\<lambda>(n, lp). (processed + n, lp)) (processTimeEvents clk tcall fin lp)
        else Some (processed, lp)
      })"

partial_function (option) main_loop ::
  "clock \<Rightarrow> 'k epoll_wait \<Rightarrow> 'k file_procs \<Rightarrow> 'k time_procs \<Rightarrow> 'k finalizers
     \<Rightarrow> (ptr \<Rightarrow> 'k aeEventLoop \<Rightarrow> 'k aeEventLoop option) \<Rightarrow> 'k aeEventLoop \<Rightarrow> 'k aeEventLoop option" where
  "main_loop clk wait fcall tcall fin bcall lp =
     (if stop lp then Some lp
      else do {
        lp \<leftarrow> (if beforesleep lp \<noteq> None then bcall (beforesleep lp) lp else Some lp);
        (n, lp) \<leftarrow> aeProcessEvents clk wait fcall tcall fin lp AE_ALL_EVENTS;
        main_loop clk wait fcall tcall fin bcall lp
      })"

definition aeMain ::
  "clock \<Rightarrow> 'k epoll_wait \<Rightarrow> 'k file_procs \<Rightarrow> 'k time_procs \<Rightarrow> 'k finalizers
     \<Rightarrow> (ptr \<Rightarrow> 'k aeEventLoop \<Rightarrow> 'k aeEventLoop option) \<Rightarrow> 'k aeEventLoop \<Rightarrow> 'k aeEventLoop option" where
  "aeMain clk wait fcall tcall fin bcall lp = main_loop clk wait fcall tcall fin bcall (lp\<lparr>stop := False\<rparr>)"

definition aeSetBeforeSleepProc :: "'k aeEventLoop \<Rightarrow> ptr \<Rightarrow> 'k aeEventLoop" where
  "aeSetBeforeSleepProc lp proc = lp\<lparr>beforesleep := proc\<rparr>"

text \<open>
  \<open>aeWait\<close>: \<open>sel\<close> is \<open>select\<close> on the one descriptor: given membership in the read and the write set
  and the timeout, the return value and the membership afterwards. A descriptor outside an
  \<open>fd_set\<close> is undefined.
\<close>

definition aeWait :: "(bool \<Rightarrow> bool \<Rightarrow> int \<times> int \<Rightarrow> int \<times> bool \<times> bool) \<Rightarrow> int \<Rightarrow> u32 \<Rightarrow> int \<Rightarrow> int option" where
  "aeWait sel fd msk milliseconds =
     (if fd < 0 \<or> 1024 \<le> fd then None
      else let tv = (milliseconds sdiv 1000, (milliseconds smod 1000) * 1000);
               (retval, r, w) = sel (msk AND AE_READABLE \<noteq> 0) (msk AND AE_WRITABLE \<noteq> 0) tv
      in Some (if 0 < retval
               then uint ((if r then AE_READABLE else 0) OR (if w then AE_WRITABLE else 0)) else retval))"

end
