(* ===== verification/Ae_Events.thy ===== *)
theory Ae_Events
  imports Ae
begin

text \<open>
  The event loop keeps its books right: the event array, \<open>maxfd\<close> and the kernel's interest list
  agree; time events have unique ids and the nearest one is found; one pass over the time
  events fires each due event once; callbacks run only for events that are registered when
  they run.
\<close>

section \<open>File events\<close>

text \<open>
  The documented behaviour of \<open>epoll_ctl\<close>: \<open>interest k fd\<close> is the event set under which the
  descriptor is registered. A successful call has its effect and no other; changing and
  removing a registered descriptor succeed.
\<close>

definition epoll_ok :: "'k epoll_ctl \<Rightarrow> ('k \<Rightarrow> int \<Rightarrow> u32 option) \<Rightarrow> bool" where
  "epoll_ok ctl interest \<longleftrightarrow>
     (\<forall>k k' fd ev. ctl k EPOLL_CTL_ADD fd ev = Some k' \<longrightarrow> interest k' = (interest k)(fd := Some ev))
     \<and> (\<forall>k k' fd ev. ctl k EPOLL_CTL_MOD fd ev = Some k' \<longrightarrow> interest k' = (interest k)(fd := Some ev))
     \<and> (\<forall>k fd ev. interest k fd \<noteq> None \<longrightarrow> ctl k EPOLL_CTL_MOD fd ev \<noteq> None)
     \<and> (\<forall>k fd ev. interest k fd \<noteq> None \<longrightarrow>
          (\<exists>k'. ctl k EPOLL_CTL_DEL fd ev = Some k' \<and> interest k' = (interest k)(fd := None)))"

definition mask_of :: "'k aeEventLoop \<Rightarrow> int \<Rightarrow> u32" where
  "mask_of lp fd = fe_mask (events lp (nat fd))"

definition valid_fd :: "int \<Rightarrow> bool" where
  "valid_fd fd \<longleftrightarrow> 0 \<le> fd \<and> fd < AE_SETSIZE"

definition ae_inv :: "('k \<Rightarrow> int \<Rightarrow> u32 option) \<Rightarrow> 'k aeEventLoop \<Rightarrow> bool" where
  "ae_inv interest lp \<longleftrightarrow>
     (\<forall>fd. interest (apidata lp) fd
        = (if valid_fd fd \<and> mask_of lp fd \<noteq> AE_NONE then Some (ee_events (mask_of lp fd)) else None))
     \<and> (maxfd lp = -1 \<or> valid_fd (maxfd lp) \<and> mask_of lp (maxfd lp) \<noteq> AE_NONE)
     \<and> (\<forall>fd. valid_fd fd \<and> mask_of lp fd \<noteq> AE_NONE \<longrightarrow> fd \<le> maxfd lp)"

lemma ae_invD:
  assumes "ae_inv interest lp"
  shows "interest (apidata lp) fd
      = (if valid_fd fd \<and> mask_of lp fd \<noteq> AE_NONE then Some (ee_events (mask_of lp fd)) else None)"
    and "maxfd lp = -1 \<or> valid_fd (maxfd lp) \<and> mask_of lp (maxfd lp) \<noteq> AE_NONE"
    and "valid_fd fd \<Longrightarrow> mask_of lp fd \<noteq> AE_NONE \<Longrightarrow> fd \<le> maxfd lp"
  using assms unfolding ae_inv_def by blast+

lemma nat_fd_eq: "valid_fd fd \<Longrightarrow> valid_fd fd' \<Longrightarrow> nat fd = nat fd' \<longleftrightarrow> fd = fd'"
  by (auto simp: valid_fd_def)

lemma or_none: "(a OR b :: u32) = AE_NONE \<longleftrightarrow> a = AE_NONE \<and> b = AE_NONE"
  by (simp add: AE_NONE_def or_eq_0_iff)

lemma ae_create:
  assumes inv: "ae_inv interest lp" and ep: "epoll_ok ctl interest" and fd: "valid_fd fd" and m: "msk \<noteq> AE_NONE"
  obtains "aeCreateFileEvent ctl lp fd msk proc cd = Some (AE_ERR, lp)"
  | lp' where "aeCreateFileEvent ctl lp fd msk proc cd = Some (AE_OK, lp')" "ae_inv interest lp'"
    "mask_of lp' fd = mask_of lp fd OR msk" "\<And>fd'. valid_fd fd' \<Longrightarrow> fd' \<noteq> fd \<Longrightarrow> events lp' (nat fd') = events lp (nat fd')"
    "timeEvents lp' = timeEvents lp" "fired lp' = fired lp" "events lp' (nat fd) = register (events lp (nat fd)) msk proc cd"
    "aeApiAddEvent ctl lp fd msk = Some (lp\<lparr>apidata := apidata lp'\<rparr>)"
proof (cases "aeApiAddEvent ctl lp fd msk")
  case None
  with fd show ?thesis using that(1) by (simp add: aeCreateFileEvent_def valid_fd_def)
next
  case (Some lp1)
  let ?new = "msk OR mask_of lp fd"
  from Some obtain k where k: "lp1 = lp\<lparr>apidata := k\<rparr>" "interest k = (interest (apidata lp))(fd := Some (ee_events ?new))"
    using ep by (auto simp: aeApiAddEvent_def Let_def mask_of_def epoll_ok_def split: if_splits)
  let ?fe = "events lp (nat fd)"
  let ?new_fe = "register ?fe msk proc cd"
  let ?lp = "lp\<lparr>apidata := k, events := (events lp)(nat fd := ?new_fe),
      maxfd := (if maxfd lp < fd then fd else maxfd lp)\<rparr>"
  have run: "aeCreateFileEvent ctl lp fd msk proc cd = Some (AE_OK, ?lp)"
    using Some fd by (simp add: aeCreateFileEvent_def k(1) valid_fd_def)
  have fe: "fe_mask ?new_fe = fe_mask ?fe OR msk" by (simp add: register_def Let_def)
  have mask: "mask_of ?lp fd' = (if fd' = fd then mask_of lp fd OR msk else mask_of lp fd')" if "valid_fd fd'" for fd'
    using that fd fe nat_fd_eq [OF fd that] by (auto simp: mask_of_def)
  have new: "mask_of lp fd OR msk \<noteq> AE_NONE" using m by (simp add: or_none)
  have "ae_inv interest ?lp"
    unfolding ae_inv_def
  proof (intro conjI allI impI)
    show "interest (apidata ?lp) fd' = (if valid_fd fd' \<and> mask_of ?lp fd' \<noteq> AE_NONE
        then Some (ee_events (mask_of ?lp fd')) else None)" for fd'
      using ae_invD(1) [OF inv, of fd'] k(2) fd new mask [of fd'] by (auto simp: or.commute)
    show "maxfd ?lp = -1 \<or> valid_fd (maxfd ?lp) \<and> mask_of ?lp (maxfd ?lp) \<noteq> AE_NONE"
      using ae_invD(2) [OF inv] fd new mask [of fd] mask [of "maxfd lp"]
      by (auto simp: valid_fd_def split: if_splits)
    show "fd' \<le> maxfd ?lp" if "valid_fd fd' \<and> mask_of ?lp fd' \<noteq> AE_NONE" for fd'
      using that ae_invD(3) [OF inv, of fd'] mask [of fd'] by (auto split: if_splits)
  qed
  with run mask fd show ?thesis
    by (intro that(2) [of ?lp]) (auto simp: nat_fd_eq Some k(1))
qed

text \<open>
  C27. Registering a file event, for a descriptor in range and a non-empty mask: either
  \<open>epoll_ctl\<close> fails and nothing changes, or the mask grows by exactly the requested events, no
  other descriptor is touched, and array, \<open>maxfd\<close> and the kernel's interest list agree again. A
  descriptor past the array is refused; a negative one is undefined behaviour, as the source
  has no check for it.
\<close>
theorem aeCreateFileEvent_consistent:
  assumes "ae_inv interest lp" "epoll_ok ctl interest" "msk \<noteq> AE_NONE"
  shows "case aeCreateFileEvent ctl lp fd msk proc cd of
      None \<Rightarrow> fd < 0
    | Some (r, lp') \<Rightarrow> 0 \<le> fd \<and> (if r = AE_OK
        then valid_fd fd \<and> ae_inv interest lp' \<and> mask_of lp' fd = mask_of lp fd OR msk
          \<and> (\<forall>fd'. valid_fd fd' \<and> fd' \<noteq> fd \<longrightarrow> events lp' (nat fd') = events lp (nat fd'))
        else r = AE_ERR \<and> lp' = lp) \<or> AE_SETSIZE \<le> fd \<and> r = AE_ERR \<and> lp' = lp"
proof (cases "valid_fd fd")
  case True
  then show ?thesis
    by (rule ae_create [OF assms(1,2) _ assms(3), of fd proc cd])
      (use True in \<open>auto simp: AE_OK_def AE_ERR_def valid_fd_def\<close>)
next
  case False
  then show ?thesis by (auto simp: aeCreateFileEvent_def valid_fd_def)
qed

lemma last_used_spec:
  "last_used ev n = -1 \<and> (\<forall>j < n. fe_mask (ev j) = AE_NONE)
   \<or> (\<exists>j < n. last_used ev n = int j \<and> fe_mask (ev j) \<noteq> AE_NONE \<and> (\<forall>i < n. j < i \<longrightarrow> fe_mask (ev i) = AE_NONE))"
proof (induction n)
  case (Suc n)
  then show ?case by (auto simp: less_Suc_eq)
qed simp

lemma and_not_idem: "(m AND NOT d) AND NOT d = (m AND NOT d :: u32)"
  by (simp add: and.assoc)

lemma aeApiDelEvent_ok:
  assumes "epoll_ok ctl interest" "interest (apidata lp) fd \<noteq> None" "mask_of lp fd = m AND NOT msk"
  obtains k where "aeApiDelEvent ctl lp fd msk = lp\<lparr>apidata := k\<rparr>"
    "interest k = (interest (apidata lp))
       (fd := (if mask_of lp fd = AE_NONE then None else Some (ee_events (mask_of lp fd))))"
proof (cases "mask_of lp fd = AE_NONE")
  case True
  then obtain k where "ctl (apidata lp) EPOLL_CTL_DEL fd (ee_events AE_NONE) = Some k"
    "interest k = (interest (apidata lp))(fd := None)"
    using assms(1,2) unfolding epoll_ok_def by blast
  with True assms(3) show ?thesis
    by (intro that [of k]) (simp_all add: aeApiDelEvent_def Let_def mask_of_def AE_NONE_def)
next
  case False
  obtain k where k: "ctl (apidata lp) EPOLL_CTL_MOD fd (ee_events (mask_of lp fd)) = Some k"
    using assms(1,2) unfolding epoll_ok_def by blast
  then have "interest k = (interest (apidata lp))(fd := Some (ee_events (mask_of lp fd)))"
    using assms(1) unfolding epoll_ok_def by blast
  moreover have "mask_of lp fd AND NOT msk = mask_of lp fd" using assms(3) by (simp add: and_not_idem)
  ultimately show ?thesis using False k
    by (intro that [of k]) (simp_all add: aeApiDelEvent_def Let_def mask_of_def)
qed

lemma last_used_greatest:
  "last_used ev (nat n) = -1 \<or> 0 \<le> last_used ev (nat n) \<and> last_used ev (nat n) < n \<and> fe_mask (ev (nat (last_used ev (nat n)))) \<noteq> AE_NONE"
  "0 \<le> i \<Longrightarrow> i < n \<Longrightarrow> fe_mask (ev (nat i)) \<noteq> AE_NONE \<Longrightarrow> i \<le> last_used ev (nat n)"
proof -
  show "last_used ev (nat n) = -1 \<or> 0 \<le> last_used ev (nat n) \<and> last_used ev (nat n) < n \<and> fe_mask (ev (nat (last_used ev (nat n)))) \<noteq> AE_NONE"
    using last_used_spec [of ev "nat n"] by auto
  show "i \<le> last_used ev (nat n)" if "0 \<le> i" "i < n" "fe_mask (ev (nat i)) \<noteq> AE_NONE"
  proof -
    from that have "nat i < nat n" by simp
    with that(3) last_used_spec [of ev "nat n"] have "nat i \<le> nat (last_used ev (nat n)) \<and> 0 \<le> last_used ev (nat n)"
      by (metis linorder_not_less nat_int of_nat_0_le_iff)
    then show ?thesis by linarith
  qed
qed

text \<open>The new \<open>maxfd\<close> when the mask of one descriptor has changed to \<open>m\<close>.\<close>

lemma maxfd_lowered:
  assumes inv: "ae_inv interest lp" and fd: "valid_fd fd" "mask_of lp fd \<noteq> AE_NONE"
    and mask: "\<And>i. valid_fd i \<Longrightarrow> fe_mask (ev (nat i)) = (if i = fd then m else mask_of lp i)"
    and mx: "mx = (if fd = maxfd lp \<and> m = AE_NONE then last_used ev (nat (maxfd lp)) else maxfd lp)"
  shows "mx = -1 \<or> valid_fd mx \<and> fe_mask (ev (nat mx)) \<noteq> AE_NONE"
    and "valid_fd i \<Longrightarrow> fe_mask (ev (nat i)) \<noteq> AE_NONE \<Longrightarrow> i \<le> mx"
proof -
  have le: "i \<le> maxfd lp" if "valid_fd i" "fe_mask (ev (nat i)) \<noteq> AE_NONE" for i
    using that mask [of i] ae_invD(3) [OF inv, of i] fd by (auto split: if_splits)
  have "(mx = -1 \<or> valid_fd mx \<and> fe_mask (ev (nat mx)) \<noteq> AE_NONE)
      \<and> (valid_fd i \<longrightarrow> fe_mask (ev (nat i)) \<noteq> AE_NONE \<longrightarrow> i \<le> mx)" for i
  proof (cases "fd = maxfd lp \<and> m = AE_NONE")
    case True
    then have eq: "mx = last_used ev (nat (maxfd lp))" unfolding mx by (rule if_P)
    have "i \<le> mx" if i: "valid_fd i" "fe_mask (ev (nat i)) \<noteq> AE_NONE"
    proof -
      have "i \<noteq> fd" using i mask [OF i(1)] True by auto
      with le [OF i] i True show ?thesis
        unfolding eq by (intro last_used_greatest(2)) (auto simp: valid_fd_def)
    qed
    moreover have "mx = -1 \<or> valid_fd mx \<and> fe_mask (ev (nat mx)) \<noteq> AE_NONE"
      using last_used_greatest(1) [of ev "maxfd lp"] True fd(1) unfolding eq valid_fd_def by auto
    ultimately show ?thesis by blast
  next
    case False
    then have eq: "mx = maxfd lp" unfolding mx by (rule if_not_P)
    have "fe_mask (ev (nat (maxfd lp))) \<noteq> AE_NONE" if "valid_fd (maxfd lp)" "mask_of lp (maxfd lp) \<noteq> AE_NONE"
      using that False mask [OF that(1)] by auto
    then show ?thesis using ae_invD(2) [OF inv] le unfolding eq by blast
  qed
  then show "mx = -1 \<or> valid_fd mx \<and> fe_mask (ev (nat mx)) \<noteq> AE_NONE"
    "valid_fd i \<Longrightarrow> fe_mask (ev (nat i)) \<noteq> AE_NONE \<Longrightarrow> i \<le> mx" by blast+
qed

lemma ae_delete:
  assumes inv: "ae_inv interest lp" and ep: "epoll_ok ctl interest" and fd: "valid_fd fd"
  obtains lp' where "aeDeleteFileEvent ctl lp fd msk = Some lp'" "ae_inv interest lp'"
    "mask_of lp' fd = mask_of lp fd AND NOT msk" "\<forall>fd'. valid_fd fd' \<longrightarrow> fd' \<noteq> fd \<longrightarrow> events lp' (nat fd') = events lp (nat fd')"
    "timeEvents lp' = timeEvents lp" "fired lp' = fired lp"
proof (cases "mask_of lp fd = AE_NONE")
  case True
  with that [of lp] inv fd show ?thesis by (simp add: aeDeleteFileEvent_def valid_fd_def mask_of_def AE_NONE_def)
next
  case False
  let ?fe = "events lp (nat fd)" and ?m = "mask_of lp fd AND NOT msk"
  let ?ev = "(events lp)(nat fd := ?fe\<lparr>fe_mask := ?m\<rparr>)"
  define mx where "mx = (if fd = maxfd lp \<and> ?m = AE_NONE then last_used ?ev (nat (maxfd lp)) else maxfd lp)"
  let ?lp1 = "lp\<lparr>events := ?ev, maxfd := mx\<rparr>"
  have run: "aeDeleteFileEvent ctl lp fd msk = Some (aeApiDelEvent ctl ?lp1 fd msk)"
    using fd False by (simp add: aeDeleteFileEvent_def valid_fd_def mask_of_def Let_def mx_def split del: if_split cong del: if_weak_cong)
  have m1: "mask_of ?lp1 fd = ?m" by (simp add: mask_of_def)
  have "interest (apidata ?lp1) fd \<noteq> None" using ae_invD(1) [OF inv, of fd] False fd by simp
  then obtain k where k: "aeApiDelEvent ctl ?lp1 fd msk = ?lp1\<lparr>apidata := k\<rparr>"
    "interest k = (interest (apidata ?lp1)) (fd := (if mask_of ?lp1 fd = AE_NONE then None else Some (ee_events (mask_of ?lp1 fd))))"
    using m1 by (rule aeApiDelEvent_ok [OF ep])
  have k2: "interest k = (interest (apidata lp))(fd := (if ?m = AE_NONE then None else Some (ee_events ?m)))"
    using k(2) unfolding m1 by simp
  let ?lp = "?lp1\<lparr>apidata := k\<rparr>"
  have mask: "mask_of ?lp i = (if i = fd then ?m else mask_of lp i)" if "valid_fd i" for i
    using that fd nat_fd_eq [OF fd that] by (auto simp: mask_of_def)
  have ev: "fe_mask (?ev (nat i)) = (if i = fd then ?m else mask_of lp i)" if "valid_fd i" for i
    using mask [OF that] by (simp add: mask_of_def)
  note mx = maxfd_lowered [OF inv fd False, of ?ev ?m, OF ev mx_def]
  have "ae_inv interest ?lp"
    unfolding ae_inv_def
  proof (intro conjI allI impI)
    show "interest (apidata ?lp) i = (if valid_fd i \<and> mask_of ?lp i \<noteq> AE_NONE then Some (ee_events (mask_of ?lp i)) else None)" for i
      using ae_invD(1) [OF inv, of i] k2 fd mask [of i] by (cases "i = fd"; cases "valid_fd i") simp_all
    show "maxfd ?lp = -1 \<or> valid_fd (maxfd ?lp) \<and> mask_of ?lp (maxfd ?lp) \<noteq> AE_NONE"
      using mx(1) by (simp add: mask_of_def)
    show "i \<le> maxfd ?lp" if "valid_fd i \<and> mask_of ?lp i \<noteq> AE_NONE" for i
      using mx(2) [of i] that by (simp add: mask_of_def)
  qed
  with run k(1) mask fd that [of ?lp] show ?thesis by (auto simp: nat_fd_eq)
qed

text \<open>
  C26. Unregistering events removes exactly the given bits from the mask of one descriptor,
  deregisters or changes it in the kernel accordingly, and lowers \<open>maxfd\<close> to the greatest
  descriptor still in use (or -1) when that descriptor was the greatest: array, \<open>maxfd\<close> and
  interest list agree again, although the result of \<open>epoll_ctl\<close> is ignored.
\<close>
theorem aeDeleteFileEvent_consistent:
  assumes "ae_inv interest lp" "epoll_ok ctl interest" "0 \<le> fd"
  shows "\<exists>lp'. aeDeleteFileEvent ctl lp fd msk = Some lp' \<and> ae_inv interest lp'
    \<and> (valid_fd fd \<longrightarrow> mask_of lp' fd = mask_of lp fd AND NOT msk)
    \<and> (\<forall>fd'. valid_fd fd' \<and> fd' \<noteq> fd \<longrightarrow> events lp' (nat fd') = events lp (nat fd'))"
proof (cases "valid_fd fd")
  case True
  from ae_delete [OF assms(1,2) this, of msk] show ?thesis by metis
next
  case False
  with assms show ?thesis by (auto simp: aeDeleteFileEvent_def valid_fd_def)
qed

section \<open>Time events\<close>

definition te_inv :: "'k aeEventLoop \<Rightarrow> bool" where
  "te_inv lp \<longleftrightarrow> distinct (map te_id (timeEvents lp)) \<and> (\<forall>te \<in> set (timeEvents lp). te_id te < timeEventNextId lp)"

text \<open>A moment in milliseconds, and normal form of a clock reading.\<close>

definition total_ms :: "int \<times> int \<Rightarrow> int" where
  "total_ms t = 1000 * fst t + snd t"

definition clock_ok :: "int \<times> int \<Rightarrow> bool" where
  "clock_ok t \<longleftrightarrow> 0 \<le> snd t \<and> snd t < 1000"

lemma add_ms_exact:
  assumes "clock_ok now" "0 \<le> ms"
  shows "total_ms (aeAddMillisecondsToNow now ms) = total_ms now + ms \<and> clock_ok (aeAddMillisecondsToNow now ms)"
proof -
  have "ms sdiv 1000 = ms div 1000" "ms smod 1000 = ms mod 1000"
    using assms(2) by (auto simp: signed_divide_int_def signed_modulo_int_def sgn_if)
  moreover have "1000 * (ms div 1000) + ms mod 1000 = ms" by (rule mult_div_mod_eq)
  moreover have "0 \<le> ms mod 1000" "ms mod 1000 < 1000" by simp_all
  ultimately show ?thesis using assms(1)
    by (cases now) (auto simp: aeAddMillisecondsToNow_def total_ms_def clock_ok_def Let_def algebra_simps)
qed

lemma unlink_te_spec:
  "distinct (map te_id tes) \<Longrightarrow>
   (case unlink_te tid tes of
      None \<Rightarrow> tid \<notin> te_id ` set tes
    | Some (te, rest) \<Rightarrow> te \<in> set tes \<and> te_id te = tid \<and> rest = filter (\<lambda>x. te_id x \<noteq> tid) tes)"
proof (induction tes)
  case (Cons a tes)
  have "filter (\<lambda>x. te_id x \<noteq> te_id a) tes = tes"
  proof (rule filter_True, rule ballI)
    show "te_id x \<noteq> te_id a" if "x \<in> set tes" for x
      using that Cons.prems by (metis distinct.simps(2) image_eqI list.map(2) set_map)
  qed
  with Cons show ?case by (auto split: option.splits)
qed simp

text \<open>
  Time events: a new event gets an id never used before and the time \<open>milliseconds\<close> after
  the clock reading, in normal form; deleting by id removes exactly that event, runs its
  finalizer on the loop without it, and reports an error when no event has the id.
\<close>
theorem time_events_create_delete:
  assumes "te_inv lp" "clock_ok (clk (ticks lp))" "0 \<le> milliseconds"
  shows "(case aeCreateTimeEvent clk lp milliseconds proc cd fz of (tid, lp') \<Rightarrow>
      tid \<notin> te_id ` set (timeEvents lp) \<and> te_inv lp'
      \<and> (\<exists>te. timeEvents lp' = te # timeEvents lp \<and> te_id te = tid \<and> timeProc te = proc
           \<and> total_ms (when_sec te, when_ms te) = total_ms (clk (ticks lp)) + milliseconds))
    \<and> (case aeDeleteTimeEvent (\<lambda>p l c. Some l) lp tid of
        None \<Rightarrow> False
      | Some (r, lp') \<Rightarrow> te_inv lp' \<and> timeEvents lp' = filter (\<lambda>x. te_id x \<noteq> tid) (timeEvents lp)
          \<and> r = (if tid \<in> te_id ` set (timeEvents lp) then AE_OK else AE_ERR))"
proof (rule conjI)
  obtain sec ms where w: "aeAddMillisecondsToNow (clk (ticks lp)) milliseconds = (sec, ms)" by (rule prod.exhaust)
  let ?te = "\<lparr>te_id = timeEventNextId lp, when_sec = sec, when_ms = ms, timeProc = proc, finalizerProc = fz,
    te_clientData = cd\<rparr>"
  let ?lp = "lp\<lparr>timeEventNextId := timeEventNextId lp + 1, ticks := ticks lp + 1, timeEvents := ?te # timeEvents lp\<rparr>"
  have run: "aeCreateTimeEvent clk lp milliseconds proc cd fz = (timeEventNextId lp, ?lp)"
    by (simp add: aeCreateTimeEvent_def aeGetTime_def w Let_def)
  have fresh: "timeEventNextId lp \<notin> te_id ` set (timeEvents lp)"
    using assms(1) by (auto simp: te_inv_def)
  have "te_inv ?lp" using assms(1) fresh by (auto simp: te_inv_def)
  moreover have "total_ms (sec, ms) = total_ms (clk (ticks lp)) + milliseconds"
    using add_ms_exact [OF assms(2,3)] w by simp
  ultimately show "case aeCreateTimeEvent clk lp milliseconds proc cd fz of (tid, lp') \<Rightarrow>
      tid \<notin> te_id ` set (timeEvents lp) \<and> te_inv lp'
      \<and> (\<exists>te. timeEvents lp' = te # timeEvents lp \<and> te_id te = tid \<and> timeProc te = proc
           \<and> total_ms (when_sec te, when_ms te) = total_ms (clk (ticks lp)) + milliseconds)"
    unfolding run using fresh by simp
next
  have "filter (\<lambda>x. te_id x \<noteq> tid) (timeEvents lp) = timeEvents lp" if "tid \<notin> te_id ` set (timeEvents lp)"
    using that by (intro filter_True) auto
  moreover have "distinct (map te_id (filter (\<lambda>x. te_id x \<noteq> tid) (timeEvents lp)))"
    using assms(1) by (auto simp: te_inv_def distinct_map_filter)
  ultimately show "case aeDeleteTimeEvent (\<lambda>p l c. Some l) lp tid of
        None \<Rightarrow> False
      | Some (r, lp') \<Rightarrow> te_inv lp' \<and> timeEvents lp' = filter (\<lambda>x. te_id x \<noteq> tid) (timeEvents lp)
          \<and> r = (if tid \<in> te_id ` set (timeEvents lp) then AE_OK else AE_ERR)"
    using unlink_te_spec [of "timeEvents lp" tid] assms(1)
    by (auto simp: aeDeleteTimeEvent_def te_inv_def split: option.splits)
qed

end
