(* ===== verification/Ae_Time.thy ===== *)
theory Ae_Time
  imports Ae_Events
begin

text \<open>
  Waiting and firing: the nearest timer and the time to sleep, one pass over the time events,
  and the dispatch of fired file events.
\<close>

section \<open>The nearest timer\<close>

definition when_of :: "aeTimeEvent \<Rightarrow> int" where
  "when_of te = total_ms (when_sec te, when_ms te)"

definition te_normal :: "aeTimeEvent \<Rightarrow> bool" where
  "te_normal te \<longleftrightarrow> clock_ok (when_sec te, when_ms te)"

lemma earlier_iff:
  assumes "te_normal te" "te_normal n"
  shows "(when_sec te < when_sec n \<or> (when_sec te = when_sec n \<and> when_ms te < when_ms n)) \<longleftrightarrow> when_of te < when_of n"
  using assms by (auto simp: te_normal_def clock_ok_def when_of_def total_ms_def)

lemma nearest_timer_Some:
  assumes "te_normal n" "\<forall>te \<in> set tes. te_normal te"
  shows "\<exists>m. nearest_timer (Some n) tes = Some m \<and> m \<in> set (n # tes) \<and> (\<forall>te \<in> set (n # tes). when_of m \<le> when_of te)"
  using assms
proof (induction tes arbitrary: n)
  case (Cons te tes)
  show ?case
  proof (cases "when_of te < when_of n")
    case True
    with Cons.IH [of te] Cons.prems earlier_iff [of te n] show ?thesis by force
  next
    case False
    with Cons.IH [of n] Cons.prems earlier_iff [of te n] show ?thesis by force
  qed
qed simp

text \<open>
  Sleeping: \<open>aeSearchNearestTimer\<close> finds an event with the earliest time, or none exactly
  when there is none; and as long as that time is not past, the \<open>timeval\<close> computed for the
  poll is exactly the time that is left, so no event is delayed and the loop does not spin.
\<close>
theorem nearest_timer_and_timeout:
  assumes "\<forall>te \<in> set (timeEvents lp). te_normal te" "clock_ok now"
  shows "case aeSearchNearestTimer lp of
      None \<Rightarrow> timeEvents lp = []
    | Some m \<Rightarrow> m \<in> set (timeEvents lp) \<and> (\<forall>te \<in> set (timeEvents lp). when_of m \<le> when_of te)
        \<and> (total_ms now \<le> when_of m \<longrightarrow> (case timer_timeout now m of (sec, usec) \<Rightarrow>
             0 \<le> sec \<and> 0 \<le> usec \<and> usec < 1000000
             \<and> sec * 1000000 + usec = (when_of m - total_ms now) * 1000))"
proof (cases "timeEvents lp")
  case Nil
  then show ?thesis by (simp add: aeSearchNearestTimer_def)
next
  case (Cons te tes)
  then obtain m where m: "nearest_timer (Some te) tes = Some m" "m \<in> set (timeEvents lp)"
    "\<forall>te \<in> set (timeEvents lp). when_of m \<le> when_of te"
    using nearest_timer_Some [of te tes] assms(1) by auto
  have "te_normal m" using m(2) assms(1) by blast
  then have "total_ms now \<le> when_of m \<longrightarrow> (case timer_timeout now m of (sec, usec) \<Rightarrow>
      0 \<le> sec \<and> 0 \<le> usec \<and> usec < 1000000 \<and> sec * 1000000 + usec = (when_of m - total_ms now) * 1000)"
    using assms(2)
    by (cases now) (auto simp: timer_timeout_def te_normal_def clock_ok_def when_of_def total_ms_def Let_def)
  with m Cons show ?thesis by (simp add: aeSearchNearestTimer_def)
qed

text \<open>
  An overdue event can make the loop sleep: when the nearest time is past, the seconds of
  the \<open>timeval\<close> are set to zero but its microseconds are kept. With a timer that was due five
  seconds ago the poll may still wait 999 milliseconds.
\<close>
theorem overdue_timer_sleeps:
  "\<exists>now te. due now te \<and> total_ms now - when_of te = 5001 \<and> timer_timeout now te = (0, 999000)
     \<and> snd (aeApiPoll (\<lambda>k timeout. ([], timeout)) (lp\<lparr>apidata := 0\<rparr>) (Some (timer_timeout now te)))
         = lp\<lparr>apidata := 999, fired := fired lp\<rparr>"
proof -
  let ?te = "\<lparr>te_id = 0, when_sec = 5, when_ms = 0, timeProc = None, finalizerProc = None, te_clientData = None\<rparr>"
  have "due (10, 1) ?te" "total_ms (10, 1) - when_of ?te = 5001" "timer_timeout (10, 1) ?te = (0, 999000)"
    by (simp_all add: due_def total_ms_def when_of_def timer_timeout_def)
  moreover have "snd (aeApiPoll (\<lambda>k timeout. ([], timeout)) (lp\<lparr>apidata := 0\<rparr>) (Some (0, 999000)))
      = lp\<lparr>apidata := 999, fired := fired lp\<rparr>"
    by (simp add: aeApiPoll_def signed_divide_int_def)
  ultimately show ?thesis by metis
qed

text \<open>
  A nearest event about 25 days ahead, 2147484 seconds, makes the timeout negative, and \<open>epoll_wait\<close> then
  waits without a limit.
\<close>

theorem far_timer_waits_forever:
  "snd (aeApiPoll (\<lambda>k timeout. ([], timeout)) (lp\<lparr>apidata := 0\<rparr>) (Some (2147484, 0))) =
     lp\<lparr>apidata := -2147483296, fired := fired lp\<rparr>"
  by (simp add: aeApiPoll_def signed_divide_int_def)

section \<open>One pass over the time events\<close>

text \<open>
  Callbacks that register new events in front of the list and otherwise leave it alone, and
  finalizers that leave the list alone. Each reads the clock at most \<open>c\<close> times. \<open>ret i\<close> is what the
  callback of the event \<open>i\<close> answers: \<open>AE_NOMORE\<close> or an interval.
\<close>

definition steady_timers :: "(int \<Rightarrow> int) \<Rightarrow> nat \<Rightarrow> 'k time_procs \<Rightarrow> 'k finalizers \<Rightarrow> bool" where
  "steady_timers ret c tcall fin \<longleftrightarrow>
     (\<forall>p lp i d. \<exists>lp' new. tcall p lp i d = Some (ret i, lp') \<and> timeEvents lp' = new @ timeEvents lp
        \<and> (\<forall>te \<in> set new. timeEventNextId lp \<le> te_id te) \<and> timeEventNextId lp \<le> timeEventNextId lp'
        \<and> ticks lp \<le> ticks lp' \<and> ticks lp' \<le> ticks lp + c)
     \<and> (\<forall>p lp d. \<exists>lp'. fin p lp d = Some lp' \<and> timeEvents lp' = timeEvents lp
        \<and> timeEventNextId lp' = timeEventNextId lp \<and> ticks lp \<le> ticks lp' \<and> ticks lp' \<le> ticks lp + c)"

text \<open>The readings of the clock from the \<open>m\<close>-th up to the \<open>n\<close>-th are normal and lie between \<open>t0\<close> and \<open>t1\<close>, in any order.\<close>

definition clock_window :: "clock \<Rightarrow> nat \<Rightarrow> nat \<Rightarrow> int \<Rightarrow> int \<Rightarrow> bool" where
  "clock_window clk m n t0 t1 \<longleftrightarrow>
     (\<forall>i. m \<le> i \<longrightarrow> i < n \<longrightarrow> clock_ok (clk i) \<and> t0 \<le> total_ms (clk i) \<and> total_ms (clk i) \<le> t1)"

lemma clock_windowD:
  assumes "clock_window clk m n t0 t1" "m \<le> i" "i < n"
  shows "clock_ok (clk i)" "t0 \<le> total_ms (clk i)" "total_ms (clk i) \<le> t1"
  using assms unfolding clock_window_def by blast+

lemma clock_window_sub: "clock_window clk m n t0 t1 \<Longrightarrow> m \<le> m' \<Longrightarrow> n' \<le> n \<Longrightarrow> clock_window clk m' n' t0 t1"
  by (simp add: clock_window_def)

text \<open>
  What becomes of one event in a pass: one that is not among the fired ones \<open>F\<close> stays as it is; a fired one is
  deleted, or moved to the time \<open>w i\<close>.
\<close>

definition after_pass :: "int set \<Rightarrow> (int \<Rightarrow> int \<times> int) \<Rightarrow> (int \<Rightarrow> int) \<Rightarrow> aeTimeEvent \<Rightarrow> aeTimeEvent list" where
  "after_pass F w ret te =
     (if te_id te \<notin> F then [te]
      else if ret (te_id te) = AE_NOMORE then []
      else [te\<lparr>when_sec := fst (w (te_id te)), when_ms := snd (w (te_id te))\<rparr>])"

lemma due_iff: "te_normal te \<Longrightarrow> clock_ok now \<Longrightarrow> due now te \<longleftrightarrow> when_of te \<le> total_ms now"
  by (cases now) (auto simp: due_def te_normal_def clock_ok_def when_of_def total_ms_def)

text \<open>
  A walk along the list: it ends, when no event is found due, or at the first one that is, which is run, and the
  loop starts again from the head.
\<close>

lemma time_loop_scan:
  assumes "clock_window clk (ticks lp) (ticks lp + length (filter (\<lambda>te. te_id te \<le> maxId) tes)) t0 t1" "\<forall>te \<in> set tes. te_id te \<le> maxId \<longrightarrow> te_normal te"
  shows "(\<exists>n. ticks lp \<le> n \<and> time_loop clk tcall fin maxId tes lp processed = Some (processed, lp\<lparr>ticks := n\<rparr>)
        \<and> (\<forall>te \<in> set tes. te_id te \<le> maxId \<longrightarrow> t0 < when_of te))
    \<or> (\<exists>a te b n. tes = a @ te # b \<and> te_id te \<le> maxId \<and> when_of te \<le> t1
        \<and> ticks lp \<le> n \<and> n \<le> ticks lp + length (filter (\<lambda>te. te_id te \<le> maxId) tes)
        \<and> time_loop clk tcall fin maxId tes lp processed
            = Option.bind (run_timer clk tcall fin (lp\<lparr>ticks := n\<rparr>) te)
                (\<lambda>lp. time_loop clk tcall fin maxId (timeEvents lp) lp (processed + 1)))"
  using assms
proof (induction tes arbitrary: lp)
  case Nil
  show ?case by (intro disjI1 exI [of _ "ticks lp"]) (simp add: time_loop.simps)
next
  case (Cons te tes)
  let ?old = "\<lambda>te. te_id te \<le> maxId"
  show ?case
  proof (cases "maxId < te_id te")
    case True
    then have step: "time_loop clk tcall fin maxId (te # tes) lp processed = time_loop clk tcall fin maxId tes lp processed"
      by (subst time_loop.simps) simp
    have win: "clock_window clk (ticks lp) (ticks lp + length (filter ?old tes)) t0 t1" using Cons.prems(1) True by simp
    have "\<forall>te \<in> set tes. te_id te \<le> maxId \<longrightarrow> te_normal te" using Cons.prems(2) by simp
    from Cons.IH [OF win this] show ?thesis
    proof (elim disjE exE conjE)
      fix n assume "ticks lp \<le> n" "time_loop clk tcall fin maxId tes lp processed = Some (processed, lp\<lparr>ticks := n\<rparr>)"
        "\<forall>te \<in> set tes. te_id te \<le> maxId \<longrightarrow> t0 < when_of te"
      with step True show ?thesis by (intro disjI1 exI [of _ n]) simp
    next
      fix a x b n assume "tes = a @ x # b" "te_id x \<le> maxId" "when_of x \<le> t1" "ticks lp \<le> n"
        "n \<le> ticks lp + length (filter ?old tes)"
        "time_loop clk tcall fin maxId tes lp processed = Option.bind (run_timer clk tcall fin (lp\<lparr>ticks := n\<rparr>) x)
           (\<lambda>lp. time_loop clk tcall fin maxId (timeEvents lp) lp (processed + 1))"
      with step True show ?thesis
        by (intro disjI2 exI [of _ "te # a"] exI [of _ x] exI [of _ b] exI [of _ n]) simp
    qed
  next
    case False
    let ?now = "clk (ticks lp)" and ?lp = "lp\<lparr>ticks := ticks lp + 1\<rparr>"
    have now: "clock_ok ?now" "t0 \<le> total_ms ?now" "total_ms ?now \<le> t1"
      by (rule clock_windowD [OF Cons.prems(1)]; use False in simp)+
    have due: "due ?now te \<longleftrightarrow> when_of te \<le> total_ms ?now"
      using due_iff [OF _ now(1)] Cons.prems(2) False by simp
    show ?thesis
    proof (cases "due ?now te")
      case True
      with False have "time_loop clk tcall fin maxId (te # tes) lp processed
          = Option.bind (run_timer clk tcall fin ?lp te) (\<lambda>lp. time_loop clk tcall fin maxId (timeEvents lp) lp (processed + 1))"
        by (subst time_loop.simps) (simp add: aeGetTime_def)
      with True False due now show ?thesis
        by (intro disjI2 exI [of _ "[]"] exI [of _ te] exI [of _ tes] exI [of _ "ticks lp + 1"]) simp
    next
      case notdue: False
      with False have step: "time_loop clk tcall fin maxId (te # tes) lp processed = time_loop clk tcall fin maxId tes ?lp processed"
        by (subst time_loop.simps) (simp add: aeGetTime_def)
      have win: "clock_window clk (ticks ?lp) (ticks ?lp + length (filter ?old tes)) t0 t1"
        by (rule clock_window_sub [OF Cons.prems(1)]) (use False in simp_all)
      have "\<forall>te \<in> set tes. te_id te \<le> maxId \<longrightarrow> te_normal te" using Cons.prems(2) by simp
      from Cons.IH [OF win this] show ?thesis
      proof (elim disjE exE conjE)
        fix n assume "ticks ?lp \<le> n" "time_loop clk tcall fin maxId tes ?lp processed = Some (processed, ?lp\<lparr>ticks := n\<rparr>)"
          "\<forall>te \<in> set tes. te_id te \<le> maxId \<longrightarrow> t0 < when_of te"
        with step notdue due now show ?thesis by (intro disjI1 exI [of _ n]) simp
      next
        fix a x b n assume "tes = a @ x # b" "te_id x \<le> maxId" "when_of x \<le> t1" "ticks ?lp \<le> n"
          "n \<le> ticks ?lp + length (filter ?old tes)"
          "time_loop clk tcall fin maxId tes ?lp processed = Option.bind (run_timer clk tcall fin (?lp\<lparr>ticks := n\<rparr>) x)
             (\<lambda>lp. time_loop clk tcall fin maxId (timeEvents lp) lp (processed + 1))"
        with step False show ?thesis
          by (intro disjI2 exI [of _ "te # a"] exI [of _ x] exI [of _ b] exI [of _ n]) simp
      qed
    qed
  qed
qed

lemma unlink_te_at: "te_id te \<notin> te_id ` set xs \<Longrightarrow> unlink_te (te_id te) (xs @ te # ys) = Some (te, xs @ ys)"
  by (induction xs) auto

lemma set_when_at:
  assumes "te_id te \<notin> te_id ` set (xs @ ys)"
  shows "set_when (te_id te) w (xs @ te # ys) = Some (xs @ te\<lparr>when_sec := fst w, when_ms := snd w\<rparr> # ys)"
proof -
  have same: "map (\<lambda>x. if te_id x = te_id te then x\<lparr>when_sec := fst w, when_ms := snd w\<rparr> else x) zs = zs"
    if "te_id te \<notin> te_id ` set zs" for zs
    using that by (induction zs) auto
  have "te_id te \<notin> te_id ` set xs" "te_id te \<notin> te_id ` set ys" using assms by auto
  from this [THEN same] show ?thesis by (simp add: set_when_def)
qed

text \<open>Running one event: it is moved or deleted, and new events come first; \<open>w\<close> is a reading of the clock plus the interval.\<close>

lemma run_timer_steady:
  assumes st: "steady_timers ret c tcall fin"
    and tes: "timeEvents lp = xs @ te # ys"
    and fresh: "te_id te \<notin> te_id ` set (xs @ ys)" "te_id te < timeEventNextId lp"
  obtains lp' nw n where "run_timer clk tcall fin lp te = Some lp'"
    "timeEvents lp' = nw @ xs @ after_pass {te_id te} (\<lambda>_. aeAddMillisecondsToNow (clk n) (ret (te_id te))) ret te @ ys"
    "\<forall>x \<in> set nw. timeEventNextId lp \<le> te_id x" "timeEventNextId lp \<le> timeEventNextId lp'"
    "ticks lp \<le> n" "n \<le> ticks lp + c" "ticks lp \<le> ticks lp'" "ticks lp' \<le> ticks lp + 2 * c + 1"
proof -
  obtain lp1 nw where call: "tcall (timeProc te) lp (te_id te) (te_clientData te) = Some (ret (te_id te), lp1)"
    "timeEvents lp1 = nw @ timeEvents lp" "\<forall>x \<in> set nw. timeEventNextId lp \<le> te_id x"
    "timeEventNextId lp \<le> timeEventNextId lp1" "ticks lp \<le> ticks lp1" "ticks lp1 \<le> ticks lp + c"
    using st unfolding steady_timers_def by meson
  have nw: "te_id te \<notin> te_id ` set nw" using call(3) fresh(2) by force
  then have notin: "te_id te \<notin> te_id ` set ((nw @ xs) @ ys)" using fresh(1) by auto
  show ?thesis
  proof (cases "ret (te_id te) = AE_NOMORE")
    case False
    let ?w = "aeAddMillisecondsToNow (clk (ticks lp1)) (ret (te_id te))"
    have "set_when (te_id te) ?w (timeEvents lp1)
        = Some ((nw @ xs) @ te\<lparr>when_sec := fst ?w, when_ms := snd ?w\<rparr> # ys)"
      using set_when_at [OF notin, of ?w] call(2) tes by simp
    then show ?thesis
      using False call
      by (intro that [of "lp1\<lparr>ticks := ticks lp1 + 1,
          timeEvents := (nw @ xs) @ te\<lparr>when_sec := fst ?w, when_ms := snd ?w\<rparr> # ys\<rparr>" nw "ticks lp1"])
        (simp_all add: run_timer_def aeGetTime_def after_pass_def Let_def)
  next
    case True
    have un: "unlink_te (te_id te) (timeEvents lp1) = Some (te, (nw @ xs) @ ys)"
      using unlink_te_at [of te "nw @ xs" ys] notin call(2) tes by auto
    let ?lp2 = "lp1\<lparr>timeEvents := nw @ xs @ ys\<rparr>"
    obtain lp3 where lp3: "(if finalizerProc te \<noteq> None then fin (finalizerProc te) ?lp2 (te_clientData te)
        else Some ?lp2) = Some lp3" "timeEvents lp3 = nw @ xs @ ys" "timeEventNextId lp3 = timeEventNextId lp1"
        "ticks lp1 \<le> ticks lp3" "ticks lp3 \<le> ticks lp1 + c"
    proof (cases "finalizerProc te = None")
      case True
      then show ?thesis by (intro that [of ?lp2]) simp_all
    next
      case False
      obtain lp3 where "fin (finalizerProc te) ?lp2 (te_clientData te) = Some lp3"
        "timeEvents lp3 = timeEvents ?lp2" "timeEventNextId lp3 = timeEventNextId ?lp2"
        "ticks ?lp2 \<le> ticks lp3" "ticks lp3 \<le> ticks ?lp2 + c"
        using st unfolding steady_timers_def by meson
      with False show ?thesis by (intro that [of lp3]) simp_all
    qed
    have "aeDeleteTimeEvent fin lp1 (te_id te) = Some (AE_OK, lp3)"
      using un lp3(1) by (simp add: aeDeleteTimeEvent_def)
    with True call lp3 show ?thesis
      by (intro that [of lp3 nw "ticks lp"]) (simp_all add: run_timer_def after_pass_def)
  qed
qed

lemma add_to_reading:
  assumes "clock_ok now" "t0 \<le> total_ms now" "total_ms now \<le> t1" "0 \<le> r" "w = aeAddMillisecondsToNow now r"
  shows "clock_ok w" "t0 + r \<le> total_ms w" "total_ms w \<le> t1 + r"
  using add_ms_exact [of now r] assms by simp_all

lemma after_pass_ids:
  "te_id ` set (a @ after_pass F w ret te @ b) \<subseteq> te_id ` set (a @ te # b)"
  "length (a @ after_pass F w ret te @ b) \<le> length (a @ te # b)"
  "distinct (map te_id (a @ te # b)) \<Longrightarrow> distinct (map te_id (a @ after_pass F w ret te @ b))"
proof -
  have ids: "map te_id (after_pass F w ret te) = [] \<or> map te_id (after_pass F w ret te) = [te_id te]"
    by (simp add: after_pass_def)
  then have "te_id ` set (after_pass F w ret te) \<subseteq> {te_id te}" by auto
  then show "te_id ` set (a @ after_pass F w ret te @ b) \<subseteq> te_id ` set (a @ te # b)" by auto
  show "length (a @ after_pass F w ret te @ b) \<le> length (a @ te # b)" by (simp add: after_pass_def)
  assume "distinct (map te_id (a @ te # b))"
  with ids show "distinct (map te_id (a @ after_pass F w ret te @ b))"
    unfolding map_append by (elim disjE) (simp_all only:, simp_all)
qed

lemma after_pass_other: "i \<notin> te_id ` set xs \<Longrightarrow> map (after_pass (insert i F) (w(i := v)) ret) xs = map (after_pass F w ret) xs"
  by (induction xs) (auto simp: after_pass_def)

text \<open>
  How often a pass reads the clock at most, with \<open>l\<close> events of which \<open>d\<close> can be run: one walk along the list for each
  and one more, and what running it reads.
\<close>

definition pass_readings :: "nat \<Rightarrow> nat \<Rightarrow> nat \<Rightarrow> nat" where
  "pass_readings c l d = Suc d * (l + 2 * c + 1)"

definition pass_result :: "(int \<Rightarrow> int) \<Rightarrow> int \<Rightarrow> int \<Rightarrow> aeTimeEvent list \<Rightarrow> int set \<Rightarrow> (int \<Rightarrow> int \<times> int) \<Rightarrow> bool" where
  "pass_result ret t0 t1 olds F w \<longleftrightarrow> F \<subseteq> te_id ` set olds
     \<and> (\<forall>te \<in> set olds. (when_of te \<le> t0 \<longrightarrow> te_id te \<in> F) \<and> (te_id te \<in> F \<longrightarrow> when_of te \<le> t1))
     \<and> (\<forall>i \<in> F. ret i \<noteq> AE_NOMORE \<longrightarrow> t0 + ret i \<le> total_ms (w i) \<and> total_ms (w i) \<le> t1 + ret i)"

text \<open>Running one event more: a run event is out of the window, so that it is not among those run later.\<close>

lemma pass_result_step:
  assumes res: "pass_result ret t0 t1 (a @ after_pass {te_id te} (\<lambda>_. v) ret te @ b) F w"
    and te: "when_of te \<le> t1" "te_id te \<notin> te_id ` set (a @ b)"
    and v: "ret (te_id te) \<noteq> AE_NOMORE \<Longrightarrow> t0 + ret (te_id te) \<le> total_ms v \<and> total_ms v \<le> t1 + ret (te_id te) \<and> t1 < total_ms v"
  shows "te_id te \<notin> F" "pass_result ret t0 t1 (a @ te # b) (insert (te_id te) F) (w(te_id te := v))"
    and "concat (map (after_pass F w ret) (a @ after_pass {te_id te} (\<lambda>_. v) ret te @ b))
      = concat (map (after_pass (insert (te_id te) F) (w(te_id te := v)) ret) (a @ te # b))"
proof -
  show notin: "te_id te \<notin> F"
  proof
    assume "te_id te \<in> F"
    with res te(2) have "te_id te \<in> te_id ` set (after_pass {te_id te} (\<lambda>_. v) ret te)"
      unfolding pass_result_def by auto
    then have moved: "ret (te_id te) \<noteq> AE_NOMORE" "te\<lparr>when_sec := fst v, when_ms := snd v\<rparr> \<in> set (after_pass {te_id te} (\<lambda>_. v) ret te)"
      by (auto simp: after_pass_def split: if_splits)
    with res \<open>te_id te \<in> F\<close> have "when_of (te\<lparr>when_sec := fst v, when_ms := snd v\<rparr>) \<le> t1"
      unfolding pass_result_def by fastforce
    with v [OF moved(1)] show False by (simp add: when_of_def)
  qed
  have ids: "te_id te \<notin> te_id ` set a" "te_id te \<notin> te_id ` set b" using te(2) by auto
  have "concat (map (after_pass F w ret) (after_pass {te_id te} (\<lambda>_. v) ret te))
      = after_pass (insert (te_id te) F) (w(te_id te := v)) ret te"
    using notin by (simp add: after_pass_def)
  then show "concat (map (after_pass F w ret) (a @ after_pass {te_id te} (\<lambda>_. v) ret te @ b))
      = concat (map (after_pass (insert (te_id te) F) (w(te_id te := v)) ret) (a @ te # b))"
    by (simp only: map_append concat_append list.map concat.simps after_pass_other [OF ids(1)] after_pass_other [OF ids(2)])
  have "F \<subseteq> te_id ` set (a @ te # b)"
    using res after_pass_ids(1) [of a "{te_id te}" "\<lambda>_. v" ret te b] unfolding pass_result_def by blast
  moreover have "when_of x \<le> t0 \<longrightarrow> te_id x \<in> F" "te_id x \<in> F \<longrightarrow> when_of x \<le> t1" if "x \<in> set (a @ b)" for x
    using res that unfolding pass_result_def by auto
  moreover have "ret i \<noteq> AE_NOMORE \<longrightarrow> t0 + ret i \<le> total_ms (w i) \<and> total_ms (w i) \<le> t1 + ret i" if "i \<in> F" for i
    using res that unfolding pass_result_def by blast
  ultimately show "pass_result ret t0 t1 (a @ te # b) (insert (te_id te) F) (w(te_id te := v))"
    using te(1) v ids unfolding pass_result_def by (fastforce simp: image_iff)
qed

lemma time_loop_fires:
  assumes st: "steady_timers ret c tcall fin" and long: "\<forall>i. ret i = AE_NOMORE \<or> t1 - t0 < ret i"
  shows "timeEvents lp = new @ olds \<Longrightarrow> \<forall>te \<in> set new. maxId < te_id te \<Longrightarrow> \<forall>te \<in> set olds. te_id te \<le> maxId \<and> te_normal te \<Longrightarrow>
    distinct (map te_id olds) \<Longrightarrow> maxId < timeEventNextId lp \<Longrightarrow> length olds \<le> l \<Longrightarrow>
    clock_window clk (ticks lp) (ticks lp + pass_readings c l (length (filter (\<lambda>te. when_of te \<le> t1) olds))) t0 t1 \<Longrightarrow>
    \<exists>F w lp' new'. time_loop clk tcall fin maxId (timeEvents lp) lp processed = Some (processed + card F, lp')
      \<and> timeEvents lp' = new' @ concat (map (after_pass F w ret) olds) \<and> (\<forall>te \<in> set new'. maxId < te_id te)
      \<and> pass_result ret t0 t1 olds F w"
proof (induction "length (filter (\<lambda>te. when_of te \<le> t1) olds)" arbitrary: lp new olds processed rule: less_induct)
  case less
  let ?d = "length (filter (\<lambda>te. when_of te \<le> t1) olds)" and ?old = "\<lambda>te. te_id te \<le> maxId"
  have filt: "filter ?old (timeEvents lp) = olds"
    using less.prems(1-3) by (auto simp: filter_empty_conv filter_id_conv)
  have "length olds \<le> pass_readings c l ?d" using less.prems(6) by (simp add: pass_readings_def)
  then have "clock_window clk (ticks lp) (ticks lp + length (filter ?old (timeEvents lp))) t0 t1"
    unfolding filt by (intro clock_window_sub [OF less.prems(7)]) simp_all
  moreover have "\<forall>te \<in> set (timeEvents lp). ?old te \<longrightarrow> te_normal te" using less.prems(1-3) by auto
  note time_loop_scan [OF calculation this, of tcall fin processed]
  then show ?case
  proof (elim disjE exE conjE)
    fix n assume n: "time_loop clk tcall fin maxId (timeEvents lp) lp processed = Some (processed, lp\<lparr>ticks := n\<rparr>)"
      "\<forall>te \<in> set (timeEvents lp). ?old te \<longrightarrow> t0 < when_of te"
    have "concat (map (after_pass {} w ret) xs) = xs" for w xs by (induction xs) (simp_all add: after_pass_def)
    moreover have "pass_result ret t0 t1 olds {} w" for w using n(2) less.prems(1,3) by (auto simp: pass_result_def)
    ultimately show ?thesis
      using n(1) less.prems(1,2) by (intro exI [of _ "{}"] exI [of _ "\<lambda>_. (0, 0)"] exI [of _ "lp\<lparr>ticks := n\<rparr>"] exI [of _ new]) simp
  next
    fix a' te b n assume scan: "timeEvents lp = a' @ te # b" "?old te" "when_of te \<le> t1" "ticks lp \<le> n"
      "n \<le> ticks lp + length (filter ?old (timeEvents lp))"
      "time_loop clk tcall fin maxId (timeEvents lp) lp processed = Option.bind (run_timer clk tcall fin (lp\<lparr>ticks := n\<rparr>) te)
         (\<lambda>lp. time_loop clk tcall fin maxId (timeEvents lp) lp (processed + 1))"
    obtain a where a: "a' = new @ a" "olds = a @ te # b"
    proof -
      have "te \<notin> set new" using scan(2) less.prems(2) by force
      with scan(1) less.prems(1) that show ?thesis by (auto simp: append_eq_append_conv2 append_eq_Cons_conv)
    qed
    let ?lp = "lp\<lparr>ticks := n\<rparr>"
    have ids: "te_id te \<notin> te_id ` set (a @ b)" using less.prems(4) by (auto simp: a)
    have fresh: "te_id te \<notin> te_id ` set (a' @ b)" using ids scan(2) less.prems(2) by (fastforce simp: a)
    have nextid: "te_id te < timeEventNextId ?lp" using scan(2) less.prems(5) by simp
    have tes: "timeEvents ?lp = a' @ te # b" using scan(1) by simp
    obtain lp2 nw m where run: "run_timer clk tcall fin ?lp te = Some lp2"
      "timeEvents lp2 = nw @ a' @ after_pass {te_id te} (\<lambda>_. aeAddMillisecondsToNow (clk m) (ret (te_id te))) ret te @ b"
      "\<forall>x \<in> set nw. timeEventNextId ?lp \<le> te_id x" "timeEventNextId ?lp \<le> timeEventNextId lp2"
      "ticks ?lp \<le> m" "m \<le> ticks ?lp + c" "ticks ?lp \<le> ticks lp2" "ticks lp2 \<le> ticks ?lp + 2 * c + 1"
      using run_timer_steady [OF st tes fresh nextid, where clk = clk] by metis
    define v where "v = aeAddMillisecondsToNow (clk m) (ret (te_id te))"
    let ?olds = "a @ after_pass {te_id te} (\<lambda>_. v) ret te @ b"
    have d: "?d = Suc (length (filter (\<lambda>te. when_of te \<le> t1) (a @ b)))" using scan(3) by (simp add: a)
    have budget: "pass_readings c l ?d = pass_readings c l (length (filter (\<lambda>te. when_of te \<le> t1) (a @ b))) + (l + 2 * c + 1)"
      unfolding d by (simp add: pass_readings_def)
    have used: "ticks lp2 \<le> ticks lp + (l + 2 * c + 1)" "m \<le> ticks lp + l + c" "ticks lp \<le> m" "ticks lp \<le> ticks lp2"
      using scan(4,5) run(5-8) less.prems(6) by (simp_all add: filt)
    have "m < ticks lp + pass_readings c l ?d" using used(2) unfolding budget by simp
    note reading = clock_windowD [OF less.prems(7) used(3) this]
    have v: "clock_ok v \<and> t0 + ret (te_id te) \<le> total_ms v \<and> total_ms v \<le> t1 + ret (te_id te) \<and> t1 < total_ms v"
      if "ret (te_id te) \<noteq> AE_NOMORE"
    proof -
      have pos: "t1 - t0 < ret (te_id te)" using long that by blast
      with reading have "0 \<le> ret (te_id te)" by simp
      from add_to_reading [OF reading this v_def] pos show ?thesis by simp
    qed
    have "filter (\<lambda>te. when_of te \<le> t1) (after_pass {te_id te} (\<lambda>_. v) ret te) = []"
      using v by (cases "ret (te_id te) = AE_NOMORE") (simp_all add: after_pass_def when_of_def)
    then have "filter (\<lambda>te. when_of te \<le> t1) ?olds = filter (\<lambda>te. when_of te \<le> t1) (a @ b)" by simp
    note left = arg_cong [OF this, of length]
    have win: "clock_window clk (ticks lp2) (ticks lp2 + pass_readings c l (length (filter (\<lambda>te. when_of te \<le> t1) ?olds))) t0 t1"
      unfolding left by (rule clock_window_sub [OF less.prems(7)]) (use used(1,4) budget in simp_all)
    have "te_id x \<le> maxId \<and> te_normal x" if "x \<in> set ?olds" for x
      using that less.prems(3) scan(2) v by (auto simp: a after_pass_def te_normal_def split: if_splits)
    then have "\<forall>x \<in> set ?olds. te_id x \<le> maxId \<and> te_normal x" by blast
    moreover have "timeEvents lp2 = (nw @ new) @ ?olds" using run(2) by (simp add: a v_def)
    moreover have "\<forall>x \<in> set (nw @ new). maxId < te_id x" using run(3) less.prems(2,5) by auto
    moreover have "distinct (map te_id ?olds)"
      by (rule after_pass_ids(3)) (use less.prems(4) in \<open>simp add: a\<close>)
    moreover have "maxId < timeEventNextId lp2" using run(4) less.prems(5) by simp
    moreover have "length ?olds \<le> l"
      using after_pass_ids(2) [of a "{te_id te}" "\<lambda>_. v" ret te b] less.prems(6) by (simp add: a)
    moreover have "length (filter (\<lambda>te. when_of te \<le> t1) ?olds) < ?d" unfolding left d by simp
    ultimately obtain F w lp' new' where IH: "time_loop clk tcall fin maxId (timeEvents lp2) lp2 (processed + 1) = Some (processed + 1 + card F, lp')"
      "timeEvents lp' = new' @ concat (map (after_pass F w ret) ?olds)" "\<forall>te \<in> set new'. maxId < te_id te"
      "pass_result ret t0 t1 ?olds F w"
      using less.hyps [of ?olds lp2 "nw @ new" "processed + 1"] win by metis
    have "ret (te_id te) \<noteq> AE_NOMORE \<Longrightarrow> t0 + ret (te_id te) \<le> total_ms v \<and> total_ms v \<le> t1 + ret (te_id te) \<and> t1 < total_ms v"
      using v by blast
    note step = pass_result_step [OF IH(4) scan(3) ids this]
    have "finite F" using IH(4) by (auto simp: pass_result_def dest: finite_subset)
    with step(1) have "card (insert (te_id te) F) = card F + 1" by simp
    with scan(6) run(1) IH(1-3) step(2,3) show ?thesis
      by (intro exI [of _ "insert (te_id te) F"] exI [of _ "w(te_id te := v)"] exI [of _ lp'] exI [of _ new']) (simp add: a)
  qed
qed

text \<open>
  C12. One pass over the time events of the loop, with callbacks that register new events but leave the others alone:
  suppose that the readings of the clock in the pass, at most \<open>(d + 1) (l + 2 c + 1)\<close> of them with \<open>l\<close> events, \<open>d\<close> of them due
  at \<open>t1\<close>, lie between \<open>t0\<close> and \<open>t1\<close> and that the callbacks ask to be called again only after more than \<open>t1 - t0\<close>
  milliseconds, so after the pass. Then it returns; it runs every event that is due at \<open>t0\<close> and none that is not due
  at \<open>t1\<close>, each of them exactly once; it deletes it, or moves it to the time of the call plus the interval that
  the callback returned; it leaves the others untouched and keeps events registered in the pass for the next one.
  (With intervals shorter than the pass it need not return: \<open>zero_interval_never_returns\<close>.)
\<close>
theorem processTimeEvents_fires_due_once:
  assumes "steady_timers ret c tcall fin" "te_inv lp" "\<forall>te \<in> set (timeEvents lp). te_normal te"
    and "clock_window clk (ticks lp) (ticks lp + pass_readings c (length (timeEvents lp))
      (length (filter (\<lambda>te. when_of te \<le> t1) (timeEvents lp)))) t0 t1"
    and "\<forall>i. ret i = AE_NOMORE \<or> t1 - t0 < ret i"
  shows "\<exists>fired w lp' new. processTimeEvents clk tcall fin lp = Some (card fired, lp')
    \<and> {te_id te |te. te \<in> set (timeEvents lp) \<and> when_of te \<le> t0} \<subseteq> fired
    \<and> fired \<subseteq> {te_id te |te. te \<in> set (timeEvents lp) \<and> when_of te \<le> t1}
    \<and> timeEvents lp' = new @ concat (map (\<lambda>te.
        if te_id te \<notin> fired then [te]
        else if ret (te_id te) = AE_NOMORE then []
        else [te\<lparr>when_sec := fst (w (te_id te)), when_ms := snd (w (te_id te))\<rparr>]) (timeEvents lp))
    \<and> (\<forall>i \<in> fired. ret i \<noteq> AE_NOMORE \<longrightarrow> t0 + ret i \<le> total_ms (w i) \<and> total_ms (w i) \<le> t1 + ret i)
    \<and> (\<forall>te \<in> set new. timeEventNextId lp \<le> te_id te)"
proof -
  have "\<forall>te \<in> set (timeEvents lp). te_id te \<le> timeEventNextId lp - 1 \<and> te_normal te" "distinct (map te_id (timeEvents lp))"
    using assms(2,3) by (auto simp: te_inv_def)
  with time_loop_fires [OF assms(1,5), of lp "[]" "timeEvents lp" "timeEventNextId lp - 1" "length (timeEvents lp)" clk 0] assms(4)
  obtain F w lp' new where r: "time_loop clk tcall fin (timeEventNextId lp - 1) (timeEvents lp) lp 0 = Some (card F, lp')"
    "timeEvents lp' = new @ concat (map (after_pass F w ret) (timeEvents lp))" "\<forall>te \<in> set new. timeEventNextId lp - 1 < te_id te"
    "pass_result ret t0 t1 (timeEvents lp) F w" by auto
  from r(4) have "{te_id te |te. te \<in> set (timeEvents lp) \<and> when_of te \<le> t0} \<subseteq> F"
      "F \<subseteq> {te_id te |te. te \<in> set (timeEvents lp) \<and> when_of te \<le> t1}"
      "\<forall>i \<in> F. ret i \<noteq> AE_NOMORE \<longrightarrow> t0 + ret i \<le> total_ms (w i) \<and> total_ms (w i) \<le> t1 + ret i"
    unfolding pass_result_def by (blast, fastforce, blast)
  with r(1-3) show ?thesis
    by (intro exI [of _ F] exI [of _ w] exI [of _ lp'] exI [of _ new]) (auto simp: processTimeEvents_def after_pass_def [abs_def])
qed

lemma zero_interval_loop:
  assumes "time_loop clk tcall fin maxId tes lp processed = Some r"
  shows "(\<forall>n. clk n = now) \<longrightarrow> (\<forall>p l i c. tcall p l i c = Some (0, l)) \<longrightarrow> clock_ok now \<longrightarrow>
    (\<forall>te. timeEvents lp = [te] \<longrightarrow> te_id te \<le> maxId \<longrightarrow> due now te \<longrightarrow> tes = [te] \<longrightarrow> False)"
proof (rule time_loop.raw_induct [of "\<lambda>clk tcall fin maxId tes lp processed r.
    (\<forall>n. clk n = now) \<longrightarrow> (\<forall>p l i c. tcall p l i c = Some (0, l)) \<longrightarrow> clock_ok now \<longrightarrow>
    (\<forall>te. timeEvents lp = [te] \<longrightarrow> te_id te \<le> maxId \<longrightarrow> due now te \<longrightarrow> tes = [te] \<longrightarrow> False)", OF _ assms],
    goal_cases)
  case (1 loop clk tcall fin maxId tes lp processed r)
  note IH = 1(1) and body = 1(2)
  show ?case
  proof (intro impI allI)
    fix te
    assume *: "\<forall>n. clk n = now" "\<forall>p l i c. tcall p l i c = Some (0, l)" "clock_ok now"
      "timeEvents lp = [te]" "te_id te \<le> maxId" "due now te" "tes = [te]"
    let ?te = "te\<lparr>when_sec := fst now, when_ms := snd now\<rparr>"
    let ?lp = "lp\<lparr>ticks := ticks lp + 2, timeEvents := [?te]\<rparr>"
    have now: "aeAddMillisecondsToNow now 0 = now"
      using *(3) by (cases now) (auto simp: aeAddMillisecondsToNow_def clock_ok_def)
    have "run_timer clk tcall fin (lp\<lparr>ticks := ticks lp + 1\<rparr>) te = Some ?lp"
      using * now by (simp add: run_timer_def aeGetTime_def set_when_def AE_NOMORE_def)
    with body * have "loop clk tcall fin maxId [?te] ?lp (processed + 1) = Some r"
      by (simp add: aeGetTime_def)
    moreover have "due now ?te" by (simp add: due_def)
    ultimately show False using IH [of clk tcall fin maxId "[?te]" ?lp "processed + 1" r] * by simp
  qed
qed

text \<open>
  The restart from the head after each callback can keep the pass from returning: with a
  clock that does not advance, an event whose callback asks to be called again in 0
  milliseconds is due again at once, and \<open>processTimeEvents\<close> never returns.
\<close>
theorem zero_interval_never_returns:
  assumes "clock_ok now" "timeEvents lp = [te]" "te_id te < timeEventNextId lp" "due now te"
  shows "processTimeEvents (\<lambda>_. now) (\<lambda>p l i c. Some (0, l)) fin lp = None"
proof (rule ccontr)
  assume "processTimeEvents (\<lambda>_. now) (\<lambda>p l i c. Some (0, l)) fin lp \<noteq> None"
  then obtain r where "time_loop (\<lambda>_. now) (\<lambda>p l i c. Some (0, l)) fin (timeEventNextId lp - 1) [te] lp 0 = Some r"
    using assms(2) by (auto simp: processTimeEvents_def)
  from zero_interval_loop [OF this, of now] assms show False by simp
qed

section \<open>Dispatch\<close>

text \<open>
  Callbacks guarded by the registration: undefined unless, at the moment of the call, the
  descriptor is in range, the procedure is the registered one for an event that is both in the
  mask and among the fired ones, and the client data is the registered one.
\<close>

definition registered_call :: "'k aeEventLoop \<Rightarrow> ptr \<Rightarrow> int \<Rightarrow> ptr \<Rightarrow> u32 \<Rightarrow> bool" where
  "registered_call lp p fd c ev \<longleftrightarrow> valid_fd fd \<and> fe_clientData (events lp (nat fd)) = c
     \<and> (mask_of lp fd AND ev AND AE_READABLE \<noteq> 0 \<and> p = rfileProc (events lp (nat fd))
        \<or> mask_of lp fd AND ev AND AE_WRITABLE \<noteq> 0 \<and> p = wfileProc (events lp (nat fd)))"

definition guarded :: "'k file_procs \<Rightarrow> 'k file_procs" where
  "guarded fcall p lp fd c ev = (if registered_call lp p fd c ev then fcall p lp fd c ev else None)"

lemma dispatch_guarded: "dispatch (guarded fcall) lp j = dispatch fcall lp j"
  by (auto simp: dispatch_def guarded_def registered_call_def valid_fd_def mask_of_def Let_def
      split: prod.splits bind_splits intro!: Option.bind_cong)

text \<open>
  Whatever callbacks do to the loop while the fired events are worked off (unregister
  other descriptors, replace procedures, run a nested iteration), no callback is ever run for
  an event that is not registered at the moment of the call, nor with stale client data.
\<close>
theorem dispatch_only_registered:
  "dispatch_all (guarded fcall) js lp = dispatch_all fcall js lp"
proof (induction js arbitrary: lp)
  case (Cons j js)
  then show ?case by (auto simp: dispatch_guarded intro!: Option.bind_cong)
qed simp

section \<open>A concrete loop\<close>

text \<open>A kernel that keeps the interest list as a map.\<close>

definition map_ctl :: "(int \<Rightarrow> u32 option) epoll_ctl" where
  "map_ctl k op fd ev =
     (case op of
        EPOLL_CTL_ADD \<Rightarrow> if k fd = None then Some (k(fd := Some ev)) else None
      | EPOLL_CTL_MOD \<Rightarrow> if k fd = None then None else Some (k(fd := Some ev))
      | EPOLL_CTL_DEL \<Rightarrow> if k fd = None then None else Some (k(fd := None)))"

lemma map_ctl_ok: "epoll_ok map_ctl (\<lambda>k. k)"
  by (auto simp: epoll_ok_def map_ctl_def split: if_splits)

definition no_event :: aeFileEvent where
  "no_event = \<lparr>fe_mask = 0, rfileProc = None, wfileProc = None, fe_clientData = None\<rparr>"

definition loop0 :: "(int \<Rightarrow> u32 option) aeEventLoop" where
  "loop0 = the (aeCreateEventLoop (Some (\<lambda>_. None)) (\<lambda>_. no_event) (\<lambda>_. (0, 0)))"

lemma loop0_inv: "ae_inv (\<lambda>k. k) loop0" "te_inv loop0"
  by (auto simp: ae_inv_def te_inv_def loop0_def aeCreateEventLoop_def mask_of_def no_event_def valid_fd_def)

theorem aeCreateFileEvent_consistent_witness:
  "\<exists>lp'. aeCreateFileEvent map_ctl loop0 7 AE_READABLE (Some 1) None = Some (AE_OK, lp')
     \<and> ae_inv (\<lambda>k. k) lp' \<and> mask_of lp' 7 = AE_READABLE"
proof -
  obtain lp' where run: "aeCreateFileEvent map_ctl loop0 7 AE_READABLE (Some 1) None = Some (AE_OK, lp')"
    by (simp add: aeCreateFileEvent_def AE_SETSIZE_def aeApiAddEvent_def map_ctl_def loop0_def
        aeCreateEventLoop_def no_event_def AE_NONE_def Let_def)
  have "AE_READABLE \<noteq> AE_NONE" by (simp add: AE_READABLE_def AE_NONE_def)
  from aeCreateFileEvent_consistent [OF loop0_inv(1) map_ctl_ok this, of 7 "Some 1" None] run
  have "ae_inv (\<lambda>k. k) lp'" "mask_of lp' 7 = mask_of loop0 7 OR AE_READABLE"
    by (auto simp: AE_OK_def AE_ERR_def split: if_splits)
  moreover have "mask_of loop0 7 = 0"
    by (simp add: mask_of_def loop0_def aeCreateEventLoop_def no_event_def AE_NONE_def AE_SETSIZE_def)
  ultimately show ?thesis using run by simp
qed

text \<open>Descriptor 5 registered for both events.\<close>

definition loop5 :: "(int \<Rightarrow> u32 option) aeEventLoop" where
  "loop5 = loop0\<lparr>apidata := (\<lambda>_. None)(5 := Some (ee_events 3)),
     events := (events loop0)(5 := no_event\<lparr>fe_mask := 3\<rparr>), maxfd := 5\<rparr>"

lemma loop5_inv: "ae_inv (\<lambda>k. k) loop5"
proof -
  have "mask_of loop5 fd = (if fd = 5 then 3 else 0)" if "valid_fd fd" for fd
    using that by (auto simp: mask_of_def loop5_def loop0_def aeCreateEventLoop_def no_event_def
        AE_NONE_def valid_fd_def)
  moreover have "valid_fd 5" by (simp add: valid_fd_def AE_SETSIZE_def)
  moreover have "apidata loop5 = (\<lambda>_. None)(5 := Some (ee_events 3))" "maxfd loop5 = 5"
    by (simp_all add: loop5_def)
  ultimately show ?thesis by (auto simp: ae_inv_def AE_NONE_def split: if_splits)
qed

theorem aeDeleteFileEvent_consistent_witness:
  "\<exists>lp'. aeDeleteFileEvent map_ctl loop5 5 3 = Some lp' \<and> ae_inv (\<lambda>k. k) lp' \<and> mask_of lp' 5 = 0"
proof -
  have "valid_fd 5" "mask_of loop5 5 = 3"
    by (simp_all add: valid_fd_def AE_SETSIZE_def mask_of_def loop5_def)
  with aeDeleteFileEvent_consistent [OF loop5_inv map_ctl_ok, of 5 3] show ?thesis by auto
qed

text \<open>A loop with two time events, at 10.500 and 10.200 seconds.\<close>

definition timer :: "int \<Rightarrow> int \<Rightarrow> aeTimeEvent" where
  "timer i ms = \<lparr>te_id = i, when_sec = 10, when_ms = ms, timeProc = None, finalizerProc = None,
     te_clientData = None\<rparr>"

definition loop_t :: "(int \<Rightarrow> u32 option) aeEventLoop" where
  "loop_t = loop0\<lparr>timeEventNextId := 2, timeEvents := [timer 1 500, timer 0 200]\<rparr>"

lemma loop_t_inv: "te_inv loop_t"
  by (simp add: te_inv_def loop_t_def timer_def)

theorem time_events_create_delete_witness:
  "\<exists>lp' te. aeCreateTimeEvent (\<lambda>_. (10, 900)) loop_t 1200 None None None = (2, lp') \<and> te_inv lp'
     \<and> timeEvents lp' = te # timeEvents loop_t \<and> total_ms (when_sec te, when_ms te) = 12100"
proof -
  obtain tid lp' where run: "aeCreateTimeEvent (\<lambda>_. (10, 900)) loop_t 1200 None None None = (tid, lp')"
    by (rule prod.exhaust)
  moreover have "tid = 2"
    using run by (auto simp: aeCreateTimeEvent_def loop_t_def aeGetTime_def Let_def split: prod.splits)
  moreover have "clock_ok ((\<lambda>_. (10, 900)) (ticks loop_t))" by (simp add: clock_ok_def)
  ultimately show ?thesis
    using time_events_create_delete [OF loop_t_inv, of "\<lambda>_. (10, 900)" 1200 None None None 0]
    by (auto simp: total_ms_def)
qed

theorem nearest_timer_and_timeout_witness:
  "\<exists>m. aeSearchNearestTimer loop_t = Some m \<and> when_of m \<le> when_of (timer 1 500)
     \<and> m \<in> {timer 1 500, timer 0 200}"
proof -
  have "\<forall>te \<in> set (timeEvents loop_t). te_normal te"
    by (simp add: loop_t_def timer_def te_normal_def clock_ok_def)
  moreover have "clock_ok (10, 100)" by (simp add: clock_ok_def)
  moreover have "timeEvents loop_t = [timer 1 500, timer 0 200]" by (simp add: loop_t_def)
  ultimately show ?thesis
    using nearest_timer_and_timeout [of loop_t "(10, 100)"] by (auto split: option.splits)
qed

text \<open>
  A clock that advances by a millisecond with each reading, from 10.299 seconds on: the event of 10.200 is due, that of
  10.500 is not before the pass is over.
\<close>

theorem processTimeEvents_fires_due_once_witness:
  "\<exists>fired w lp' new. processTimeEvents (\<lambda>n. (10, 299 + int n)) (\<lambda>p l i d. Some (1000, l)) (\<lambda>p l d. Some l) loop_t = Some (card fired, lp')
     \<and> fired = {0 :: int} \<and> timeEvents lp' = new @ [timer 1 500, (timer 0 200)\<lparr>when_sec := fst (w 0), when_ms := snd (w 0)\<rparr>]
     \<and> 11299 \<le> total_ms (w (0 :: int)) \<and> total_ms (w 0) \<le> 11309"
proof -
  let ?tc = "\<lambda>p (l :: (int \<Rightarrow> u32 option) aeEventLoop) i d. Some (1000 :: int, l)"
  let ?fin = "\<lambda>p (l :: (int \<Rightarrow> u32 option) aeEventLoop) d. Some l"
  have st: "steady_timers (\<lambda>_. 1000) 0 ?tc ?fin" by (simp add: steady_timers_def)
  have tes: "timeEvents loop_t = [timer 1 500, timer 0 200]" and ticks: "ticks loop_t = 0"
    by (simp_all add: loop_t_def loop0_def aeCreateEventLoop_def)
  have whens: "when_of (timer 1 500) = 10500" "when_of (timer 0 200) = 10200" "te_id (timer i ms) = i" for i ms
    by (simp_all add: when_of_def timer_def total_ms_def)
  have norm: "\<forall>te \<in> set (timeEvents loop_t). te_normal te"
    by (simp add: tes timer_def te_normal_def clock_ok_def)
  have "clock_window (\<lambda>n. (10, 299 + int n)) (ticks loop_t) (ticks loop_t + pass_readings 0 (length (timeEvents loop_t))
      (length (filter (\<lambda>te. when_of te \<le> 10309) (timeEvents loop_t)))) 10299 10309"
    by (simp add: clock_window_def tes ticks whens pass_readings_def clock_ok_def total_ms_def)
  moreover have "\<forall>i :: int. (1000 :: int) = AE_NOMORE \<or> 10309 - 10299 < (1000 :: int)" by simp
  note processTimeEvents_fires_due_once [OF st loop_t_inv norm calculation this]
  then obtain fired w lp' new where r: "processTimeEvents (\<lambda>n. (10, 299 + int n)) ?tc ?fin loop_t = Some (card fired, lp')"
    "{te_id te |te. te \<in> set (timeEvents loop_t) \<and> when_of te \<le> 10299} \<subseteq> fired"
    "fired \<subseteq> {te_id te |te. te \<in> set (timeEvents loop_t) \<and> when_of te \<le> 10309}"
    "timeEvents lp' = new @ concat (map (\<lambda>te. if te_id te \<notin> fired then [te] else if (1000 :: int) = AE_NOMORE then []
        else [te\<lparr>when_sec := fst (w (te_id te)), when_ms := snd (w (te_id te))\<rparr>]) (timeEvents loop_t))"
    "\<forall>i \<in> fired. (1000 :: int) \<noteq> AE_NOMORE \<longrightarrow> 10299 + 1000 \<le> total_ms (w i) \<and> total_ms (w i) \<le> 10309 + 1000"
    by (elim exE conjE) (rule that)
  have "{te_id te |te. te \<in> set (timeEvents loop_t) \<and> when_of te \<le> 10299} = {0}"
    "{te_id te |te. te \<in> set (timeEvents loop_t) \<and> when_of te \<le> 10309} = {0}"
    using whens(3) [of 0 200] by (auto simp: tes whens(1,2) intro: exI [of _ "timer 0 200"])
  with r(2,3) have "fired = {0}" by auto
  with r(1,4,5) show ?thesis
    by (intro exI [of _ fired] exI [of _ w] exI [of _ lp'] exI [of _ new]) (simp add: tes whens AE_NOMORE_def)
qed

theorem zero_interval_never_returns_witness:
  "processTimeEvents (\<lambda>_. (10, 300)) (\<lambda>p l i c. Some (0, l)) (\<lambda>p l c. Some l)
     (loop_t\<lparr>timeEvents := [timer 0 200]\<rparr>) = None"
  by (rule zero_interval_never_returns [where te = "timer 0 200"])
    (simp_all add: clock_ok_def loop_t_def timer_def due_def)

end
