(* ===== verification/Ae_Lifetime.thy ===== *)
theory Ae_Lifetime
  imports Ae_Time Zmalloc
begin

text \<open>
  The event loop and its memory: \<open>aeCreateEventLoop\<close>, \<open>aeDeleteEventLoop\<close> and the time event functions of
  \<open>ae/ae.c\<close>, with \<open>aeApiCreate\<close> and \<open>aeApiFree\<close> of \<open>ae/ae_epoll.c\<close>, on the allocator of \<open>ae/zmalloc.c\<close>.
  A program is the event loop together with the addresses of its structures and the state of
  the allocator; what the functions do to the loop itself is in the theory \<open>Ae\<close>.
\<close>

section \<open>Operations\<close>

text \<open>The sizes of the structures on a 64-bit machine (\<open>struct epoll_event\<close> is packed there: 12 bytes).\<close>

definition sizeof_aeEventLoop :: u64 where "sizeof_aeEventLoop = 48 + 10240 * 32 + 10240 * 8"
definition sizeof_aeApiState :: u64 where "sizeof_aeApiState = 4 + 10240 * 12"
definition sizeof_aeTimeEvent :: u64 where "sizeof_aeTimeEvent = 56"

definition aeApiName :: string where "aeApiName = ''epoll''"
definition aeGetApiName :: string where "aeGetApiName = aeApiName"

record 'k ae_program =
  loop :: "'k aeEventLoop"
  loop_addr :: nat
  api_addr :: nat
  te_addr :: "int \<rightharpoonup> nat"
  allocator :: zstate

type_synonym mallocs = "zheap \<Rightarrow> u64 \<Rightarrow> ptr"
type_synonym 'k prog_finalizers = "ptr \<Rightarrow> 'k ae_program \<Rightarrow> ptr \<Rightarrow> 'k ae_program option"

text \<open>
  \<open>epfd\<close> is what \<open>epoll_create\<close> yields, \<open>None\<close> for -1; a result \<open>None\<close> of the function is its -1. When
  \<open>epoll_create\<close> fails the state that has just been allocated is not freed.
\<close>

definition aeApiCreate ::
    "mallocs \<Rightarrow> (nat \<Rightarrow> bytes) \<Rightarrow> 'k option \<Rightarrow> zstate \<Rightarrow> ((nat \<times> 'k) option \<times> zstate) outcome option" where
  "aeApiCreate alloc junk epfd z = do {
     r \<leftarrow> zmalloc alloc junk sizeof_aeApiState z;
     (case r of
        Aborted \<Rightarrow> Some Aborted
      | Returns (None, z) \<Rightarrow> Some (Returns (None, z))
      | Returns (Some p, z) \<Rightarrow> Some (Returns (map_option (\<lambda>k. (p, k)) epfd, z)))
   }"

text \<open>\<open>shut\<close> is \<open>close\<close> of the epoll descriptor.\<close>

definition aeApiFree :: "('k \<Rightarrow> 'k) \<Rightarrow> 'k ae_program \<Rightarrow> 'k ae_program option" where
  "aeApiFree shut P = do {
     let lp = loop P;
     z \<leftarrow> zfree (Some (api_addr P)) (allocator P);
     Some (P\<lparr>loop := lp\<lparr>apidata := shut (apidata lp)\<rparr>, allocator := z\<rparr>)
   }"

definition create_loop ::
    "mallocs \<Rightarrow> (nat \<Rightarrow> bytes) \<Rightarrow> 'k option \<Rightarrow> (nat \<Rightarrow> aeFileEvent) \<Rightarrow> (nat \<Rightarrow> int \<times> u32) \<Rightarrow> zstate
       \<Rightarrow> ('k ae_program option \<times> zstate) outcome option" where
  "create_loop alloc junk epfd junkev junkfired z = do {
     r \<leftarrow> zmalloc alloc junk sizeof_aeEventLoop z;
     (case r of
        Aborted \<Rightarrow> Some Aborted
      | Returns (None, z) \<Rightarrow> Some (Returns (None, z))
      | Returns (Some a, z) \<Rightarrow> do {
          r \<leftarrow> aeApiCreate alloc junk epfd z;
          (case r of
             Aborted \<Rightarrow> Some Aborted
           | Returns (None, z) \<Rightarrow> do { z \<leftarrow> zfree (Some a) z; Some (Returns (None, z)) }
           | Returns (Some (p, k), z) \<Rightarrow> Some (Returns
               (map_option (\<lambda>lp. \<lparr>loop = lp, loop_addr = a, api_addr = p, te_addr = Map.empty, allocator = z\<rparr>)
                  (aeCreateEventLoop (Some k) junkev junkfired), z)))
        })
   }"

text \<open>Only the state of the epoll layer and the loop itself are freed: not the time events.\<close>

definition aeDeleteEventLoop :: "('k \<Rightarrow> 'k) \<Rightarrow> 'k ae_program \<Rightarrow> ('k \<times> zstate) option" where
  "aeDeleteEventLoop shut P = do {
     P \<leftarrow> aeApiFree shut P;
     z \<leftarrow> zfree (Some (loop_addr P)) (allocator P);
     Some (apidata (loop P), z)
   }"

definition create_timer ::
    "mallocs \<Rightarrow> (nat \<Rightarrow> bytes) \<Rightarrow> clock \<Rightarrow> int \<Rightarrow> ptr \<Rightarrow> ptr \<Rightarrow> ptr \<Rightarrow> 'k ae_program \<Rightarrow> (int \<times> 'k ae_program) outcome option" where
  "create_timer alloc junk clk milliseconds proc clientData finalizer P = do {
     let tid = timeEventNextId (loop P);
     r \<leftarrow> zmalloc alloc junk sizeof_aeTimeEvent (allocator P);
     (case r of
        Aborted \<Rightarrow> Some Aborted
      | Returns (None, z) \<Rightarrow>
          Some (Returns (AE_ERR, P\<lparr>loop := (loop P)\<lparr>timeEventNextId := tid + 1\<rparr>, allocator := z\<rparr>))
      | Returns (Some a, z) \<Rightarrow>
          let (tid, lp) = aeCreateTimeEvent clk (loop P) milliseconds proc clientData finalizer
          in Some (Returns (tid, P\<lparr>loop := lp, te_addr := (te_addr P)(tid \<mapsto> a), allocator := z\<rparr>)))
   }"

definition delete_timer :: "'k prog_finalizers \<Rightarrow> 'k ae_program \<Rightarrow> int \<Rightarrow> (int \<times> 'k ae_program) option" where
  "delete_timer fin P tid =
     (case unlink_te tid (timeEvents (loop P)) of
        None \<Rightarrow> Some (AE_ERR, P)
      | Some (te, rest) \<Rightarrow> do {
          let P = P\<lparr>loop := (loop P)\<lparr>timeEvents := rest\<rparr>\<rparr>;
          P \<leftarrow> (if finalizerProc te \<noteq> None then fin (finalizerProc te) P (te_clientData te) else Some P);
          a \<leftarrow> te_addr P tid;
          z \<leftarrow> zfree (Some a) (allocator P);
          Some (AE_OK, P\<lparr>te_addr := (te_addr P)(tid := None), allocator := z\<rparr>)
        })"

section \<open>What the program owns\<close>

lemma zmalloc_returns:
  assumes "fresh_alloc alloc" "zmalloc alloc junk n z = Some (Returns (p, z'))"
  obtains a where "p = Some a" "zheap z a = None" "zheap z' = (zheap z)(a \<mapsto> \<lparr>zsize = n, zdata = junk (unat n)\<rparr>)"
    "used_memory z' = used_memory z + word_round (n + PREFIX_SIZE)"
proof -
  from assms(2) obtain a where a: "alloc (zheap z) (n + PREFIX_SIZE) = Some a" "p = Some a"
    "z' = update_zmalloc_stat_alloc (n + PREFIX_SIZE) n (z\<lparr>zheap := (zheap z)(a \<mapsto> \<lparr>zsize = n, zdata = junk (unat n)\<rparr>)\<rparr>)"
    by (auto simp: zmalloc_def zmalloc_with_def new_block_def Let_def split: option.splits if_splits)
  then show ?thesis using assms(1) that [of a]
    by (simp add: fresh_alloc_def update_zmalloc_stat_alloc_def Let_def)
qed

lemma zfree_live:
  assumes "zheap z a = Some b"
  obtains z' where "zfree (Some a) z = Some z'" "zheap z' = (zheap z)(a := None)"
    "used_memory z' = used_memory z - word_round (zsize b + PREFIX_SIZE)"
  using assms by (simp add: zfree_def update_zmalloc_stat_free_def Let_def)

definition owned :: "'k ae_program \<Rightarrow> nat \<Rightarrow> u64 option" where
  "owned P q = (if q = loop_addr P then Some sizeof_aeEventLoop else if q = api_addr P then Some sizeof_aeApiState
     else if q \<in> ran (te_addr P) then Some sizeof_aeTimeEvent else None)"

definition cost :: "u64 \<Rightarrow> u64" where "cost n = word_round (n + PREFIX_SIZE)"

definition timers :: "'k ae_program \<Rightarrow> int list" where
  "timers P = map te_id (timeEvents (loop P))"

text \<open>
  Relative to the allocator \<open>z\<close> before the loop was created; \<open>X\<close> holds the events that have been unlinked and
  whose finalizers are running.
\<close>

definition mem_inv :: "zstate \<Rightarrow> int set \<Rightarrow> 'k ae_program \<Rightarrow> bool" where
  "mem_inv z X P \<longleftrightarrow>
     loop_addr P \<noteq> api_addr P \<and> loop_addr P \<notin> ran (te_addr P) \<and> api_addr P \<notin> ran (te_addr P)
     \<and> inj_on (te_addr P) (dom (te_addr P))
     \<and> dom (te_addr P) = set (timers P) \<union> X \<and> set (timers P) \<inter> X = {} \<and> distinct (timers P) \<and> finite X
     \<and> (\<forall>i \<in> dom (te_addr P). i < timeEventNextId (loop P))
     \<and> (\<forall>q. owned P q = None \<longrightarrow> zheap (allocator P) q = zheap z q)
     \<and> (\<forall>q n. owned P q = Some n \<longrightarrow> zheap z q = None \<and> map_option zsize (zheap (allocator P) q) = Some n)
     \<and> used_memory (allocator P) = used_memory z + cost sizeof_aeEventLoop + cost sizeof_aeApiState
         + of_nat (card (dom (te_addr P))) * cost sizeof_aeTimeEvent"

lemma mem_invD:
  assumes "mem_inv z X P"
  shows "loop_addr P \<noteq> api_addr P" "loop_addr P \<notin> ran (te_addr P)" "api_addr P \<notin> ran (te_addr P)"
    "inj_on (te_addr P) (dom (te_addr P))" "dom (te_addr P) = set (timers P) \<union> X" "set (timers P) \<inter> X = {}"
    "distinct (timers P)" "finite X" "\<And>i. i \<in> dom (te_addr P) \<Longrightarrow> i < timeEventNextId (loop P)"
    "\<And>q. owned P q = None \<Longrightarrow> zheap (allocator P) q = zheap z q"
    "\<And>q n. owned P q = Some n \<Longrightarrow> zheap z q = None \<and> map_option zsize (zheap (allocator P) q) = Some n"
    "used_memory (allocator P) = used_memory z + cost sizeof_aeEventLoop + cost sizeof_aeApiState
         + of_nat (card (dom (te_addr P))) * cost sizeof_aeTimeEvent"
  using assms unfolding mem_inv_def by blast+

lemma create_loop_blocks:
  assumes al: "fresh_alloc alloc" and c: "create_loop alloc junk epfd junkev junkfired z = Some (Returns (r, z'))"
  obtains a z1 b z2 where
    "zmalloc alloc junk sizeof_aeEventLoop z = Some (Returns (Some a, z1))" "zheap z a = None"
    "zheap z1 = (zheap z)(a \<mapsto> \<lparr>zsize = sizeof_aeEventLoop, zdata = junk (unat sizeof_aeEventLoop)\<rparr>)"
    "used_memory z1 = used_memory z + cost sizeof_aeEventLoop"
    "zmalloc alloc junk sizeof_aeApiState z1 = Some (Returns (Some b, z2))" "a \<noteq> b" "zheap z b = None"
    "zheap z2 = (zheap z1)(b \<mapsto> \<lparr>zsize = sizeof_aeApiState, zdata = junk (unat sizeof_aeApiState)\<rparr>)"
    "used_memory z2 = used_memory z1 + cost sizeof_aeApiState"
proof -
  from c obtain r1 where r1: "zmalloc alloc junk sizeof_aeEventLoop z = Some r1"
    by (auto simp: create_loop_def split: Option.bind_splits)
  with c obtain pa z1 where "r1 = Returns (pa, z1)" by (cases r1) (auto simp: create_loop_def)
  with r1 obtain a where a: "r1 = Returns (Some a, z1)" "zheap z a = None"
    "zheap z1 = (zheap z)(a \<mapsto> \<lparr>zsize = sizeof_aeEventLoop, zdata = junk (unat sizeof_aeEventLoop)\<rparr>)"
    "used_memory z1 = used_memory z + cost sizeof_aeEventLoop"
    by (auto simp: cost_def elim!: zmalloc_returns [OF al])
  from c r1 a(1) obtain r2 where r2: "zmalloc alloc junk sizeof_aeApiState z1 = Some r2"
    by (auto simp: create_loop_def aeApiCreate_def split: Option.bind_splits)
  with c r1 a(1) obtain pb z2 where "r2 = Returns (pb, z2)" by (cases r2) (auto simp: create_loop_def aeApiCreate_def)
  with r2 obtain b where b: "r2 = Returns (Some b, z2)" "zheap z1 b = None"
    "zheap z2 = (zheap z1)(b \<mapsto> \<lparr>zsize = sizeof_aeApiState, zdata = junk (unat sizeof_aeApiState)\<rparr>)"
    "used_memory z2 = used_memory z1 + cost sizeof_aeApiState"
    by (auto simp: cost_def elim!: zmalloc_returns [OF al])
  moreover have "a \<noteq> b" "zheap z b = None" using a(3) b(2) by (auto split: if_splits)
  ultimately show ?thesis using that [of a z1 b z2] r1 r2 a b by blast
qed

lemma create_loop_inv:
  assumes al: "fresh_alloc alloc" and c: "create_loop alloc junk epfd junkev junkfired z = Some (Returns (Some P, z'))"
  shows "mem_inv z {} P \<and> z' = allocator P"
proof -
  obtain a z1 b z2 where b: "zmalloc alloc junk sizeof_aeEventLoop z = Some (Returns (Some a, z1))" "zheap z a = None"
    "zheap z1 = (zheap z)(a \<mapsto> \<lparr>zsize = sizeof_aeEventLoop, zdata = junk (unat sizeof_aeEventLoop)\<rparr>)"
    "used_memory z1 = used_memory z + cost sizeof_aeEventLoop"
    "zmalloc alloc junk sizeof_aeApiState z1 = Some (Returns (Some b, z2))" "a \<noteq> b" "zheap z b = None"
    "zheap z2 = (zheap z1)(b \<mapsto> \<lparr>zsize = sizeof_aeApiState, zdata = junk (unat sizeof_aeApiState)\<rparr>)"
    "used_memory z2 = used_memory z1 + cost sizeof_aeApiState"
    by (rule create_loop_blocks [OF al c])
  from c b(1,5) have P: "z' = z2" "loop_addr P = a" "api_addr P = b" "te_addr P = Map.empty" "allocator P = z2"
    "timeEvents (loop P) = []"
    by (auto simp: create_loop_def aeApiCreate_def aeCreateEventLoop_def split: option.splits Option.bind_splits)
  then show ?thesis using b by (auto simp: mem_inv_def owned_def timers_def)
qed

lemma owned_timer:
  assumes "mem_inv z X P" and "te_addr P i = Some a"
  obtains b where "zheap (allocator P) a = Some b" "zsize b = sizeof_aeTimeEvent" "zheap z a = None"
    "a \<noteq> loop_addr P" "a \<noteq> api_addr P"
proof -
  from assms(2) have r: "a \<in> ran (te_addr P)" by (rule ranI)
  with mem_invD(2,3) [OF assms(1)] have "owned P a = Some sizeof_aeTimeEvent" "a \<noteq> loop_addr P" "a \<noteq> api_addr P"
    by (auto simp: owned_def)
  with mem_invD(11) [OF assms(1)] that show ?thesis by fastforce
qed

lemma unowned:
  assumes "mem_inv z X P" and "zheap (allocator P) a = None"
  shows "owned P a = None" "zheap z a = None"
proof -
  show "owned P a = None" using mem_invD(11) [OF assms(1), of a] assms(2) by (cases "owned P a") auto
  then show "zheap z a = None" using mem_invD(10) [OF assms(1)] assms(2) by simp
qed

lemma create_timer_inv:
  assumes al: "fresh_alloc alloc" and inv: "mem_inv z X P"
    and c: "create_timer alloc junk clk ms proc cd fz P = Some (Returns (i, P'))"
  shows "mem_inv z X P'"
proof -
  from c obtain r where r: "zmalloc alloc junk sizeof_aeTimeEvent (allocator P) = Some r"
    by (auto simp: create_timer_def Let_def split: Option.bind_splits)
  with c obtain pa z1 where "r = Returns (pa, z1)" by (cases r) (auto simp: create_timer_def)
  with r obtain a where a: "r = Returns (Some a, z1)" "zheap (allocator P) a = None"
    "zheap z1 = (zheap (allocator P))(a \<mapsto> \<lparr>zsize = sizeof_aeTimeEvent, zdata = junk (unat sizeof_aeTimeEvent)\<rparr>)"
    "used_memory z1 = used_memory (allocator P) + cost sizeof_aeTimeEvent"
    by (auto simp: cost_def elim!: zmalloc_returns [OF al])
  let ?n = "timeEventNextId (loop P)"
  from c r a(1) have P': "te_addr P' = (te_addr P)(?n \<mapsto> a)" "loop_addr P' = loop_addr P" "api_addr P' = api_addr P"
    "allocator P' = z1" "timers P' = ?n # timers P" "timeEventNextId (loop P') = ?n + 1"
    by (auto simp: create_timer_def aeCreateTimeEvent_def timers_def aeGetTime_def Let_def split: prod.splits)
  note d = mem_invD [OF inv]
  have n: "?n \<notin> dom (te_addr P)" using d(9) [of ?n] by auto
  have u: "owned P a = None" "zheap z a = None" using unowned [OF inv a(2)] by auto
  have na: "a \<noteq> loop_addr P" "a \<noteq> api_addr P" "a \<notin> ran (te_addr P)"
    using u(1) by (auto simp: owned_def split: if_splits)
  have ran: "ran ((te_addr P)(?n \<mapsto> a)) = insert a (ran (te_addr P))" using n by (simp add: domIff)
  have ow: "owned P' q = (if q = a then Some sizeof_aeTimeEvent else owned P q)" for q
    using na by (auto simp: owned_def ran P')
  have inj: "inj_on (te_addr P') (dom (te_addr P'))"
    using d(4) n na(3) unfolding P'(1) by (auto simp: inj_on_def dom_def ran_def split: if_splits)
  have fin: "finite (dom (te_addr P))" using d(5,8) by simp
  have blocks: "owned P' q = None \<Longrightarrow> zheap z1 q = zheap z q"
      "owned P' q = Some k \<Longrightarrow> zheap z q = None \<and> map_option zsize (zheap z1 q) = Some k" for q k
    using d(10,11) [of q] u(2) by (auto simp: ow a(3) split: if_splits)
  have lt: "i < ?n + 1" if "i \<in> dom (te_addr P')" for i
    using that d(9) [of i] P'(1) by (cases "i = ?n") (auto dest: domI)
  have used: "used_memory z1 = used_memory z + cost sizeof_aeEventLoop + cost sizeof_aeApiState
      + of_nat (card (dom (te_addr P'))) * cost sizeof_aeTimeEvent"
    using n fin by (simp add: a(4) d(12) P'(1) algebra_simps)
  show ?thesis
    unfolding mem_inv_def
    using d(1-3,5-8) na ran inj n blocks lt used by (auto simp: P')
qed

lemma unlink_te_facts:
  assumes "unlink_te i tes = Some (te, rest)" "distinct (map te_id tes)"
  shows "distinct (map te_id rest)" "te_id ` set tes = insert i (te_id ` set rest)" "i \<notin> te_id ` set rest"
proof -
  have "te \<in> set tes" "te_id te = i" "rest = filter (\<lambda>x. te_id x \<noteq> i) tes"
    using unlink_te_spec [OF assms(2), of i] by (simp_all add: assms(1))
  then show "distinct (map te_id rest)" "te_id ` set tes = insert i (te_id ` set rest)" "i \<notin> te_id ` set rest"
    using assms(2) by (auto simp: distinct_map_filter)
qed

lemma ran_delete:
  assumes "inj_on m (dom m)" "m i = Some a"
  shows "ran (m(i := None)) = ran m - {a}"
proof (intro equalityI subsetI)
  fix x assume "x \<in> ran (m(i := None))"
  then obtain j where "j \<noteq> i" "m j = Some x" by (auto simp: ran_def split: if_splits)
  moreover from this assms have "x \<noteq> a" using inj_onD [OF assms(1), of j i] by (auto simp: dom_def)
  ultimately show "x \<in> ran m - {a}" by (auto intro: ranI)
next
  fix x assume "x \<in> ran m - {a}"
  then obtain j where "m j = Some x" "x \<noteq> a" by (auto simp: ran_def)
  with assms(2) have "(m(i := None)) j = Some x" by auto
  then show "x \<in> ran (m(i := None))" by (rule ranI)
qed

definition finalizers_ok :: "'k prog_finalizers \<Rightarrow> bool" where
  "finalizers_ok fin \<longleftrightarrow> (\<forall>p P cd P' z X. mem_inv z X P \<longrightarrow> fin p P cd = Some P' \<longrightarrow> mem_inv z X P')"

lemma delete_timer_inv:
  assumes fin: "finalizers_ok fin" and inv: "mem_inv z X P" and c: "delete_timer fin P i = Some (r, P')"
  shows "mem_inv z X P'"
proof (cases "unlink_te i (timeEvents (loop P))")
  case None
  with c inv show ?thesis by (simp add: delete_timer_def)
next
  case (Some tr)
  obtain te rest where tr: "tr = (te, rest)" by (cases tr)
  let ?P = "P\<lparr>loop := (loop P)\<lparr>timeEvents := rest\<rparr>\<rparr>"
  note d = mem_invD [OF inv]
  have u: "distinct (map te_id rest)" "set (timers P) = insert i (te_id ` set rest)" "i \<notin> te_id ` set rest"
    using unlink_te_facts [OF Some [unfolded tr]] d(7) by (auto simp: timers_def)
  have "mem_inv z (insert i X) ?P"
    unfolding mem_inv_def using d u by (auto simp: timers_def owned_def)
  moreover obtain P1 where P1: "(if finalizerProc te \<noteq> None then fin (finalizerProc te) ?P (te_clientData te) else Some ?P) = Some P1"
    using c Some tr by (auto simp: delete_timer_def Let_def split: Option.bind_splits if_splits)
  ultimately have inv1: "mem_inv z (insert i X) P1" using fin by (auto simp: finalizers_ok_def split: if_splits)
  note d1 = mem_invD [OF inv1]
  from d1(5) obtain a where a: "te_addr P1 i = Some a" by auto
  obtain b where b: "zheap (allocator P1) a = Some b" "zsize b = sizeof_aeTimeEvent" "zheap z a = None"
    "a \<noteq> loop_addr P1" "a \<noteq> api_addr P1" by (rule owned_timer [OF inv1 a])
  obtain z' where z': "zfree (Some a) (allocator P1) = Some z'" "zheap z' = (zheap (allocator P1))(a := None)"
    "used_memory z' = used_memory (allocator P1) - cost sizeof_aeTimeEvent"
    using zfree_live [OF b(1)] b(2) by (auto simp: cost_def)
  from c Some tr P1 a z'(1) have P': "P' = P1\<lparr>te_addr := (te_addr P1)(i := None), allocator := z'\<rparr>"
    by (auto simp: delete_timer_def Let_def)
  note ran = ran_delete [OF d1(4) a]
  have ow: "owned P' q = (if q = a then None else owned P1 q)" for q
    using b(4,5) by (simp add: owned_def P' ran)
  have ids: "i \<notin> set (timers P1)" "i \<notin> X" using d1(6) u(2) d(6) by auto
  have fin: "finite (dom (te_addr P1))" using d1(5,8) by simp
  then have "card (dom (te_addr P1)) = Suc (card (dom (te_addr P1) - {i}))"
    using a by (intro card.remove) auto
  then have used: "used_memory z' = used_memory z + cost sizeof_aeEventLoop + cost sizeof_aeApiState
      + of_nat (card (dom (te_addr P1) - {i})) * cost sizeof_aeTimeEvent"
    by (simp add: z'(3) d1(12) algebra_simps)
  have blocks: "owned P' q = None \<Longrightarrow> zheap z' q = zheap z q"
      "owned P' q = Some k \<Longrightarrow> zheap z q = None \<and> map_option zsize (zheap z' q) = Some k" for q k
    using d1(10,11) [of q] b(3) by (auto simp: ow z'(2) split: if_splits)
  have inj: "inj_on ((te_addr P1)(i := None)) (dom (te_addr P1) - {i})"
    using d1(4) by (auto simp: inj_on_def)
  have dom: "dom (te_addr P1) - {i} = set (timers P1) \<union> X" using d1(5) ids by auto
  have lt: "k < timeEventNextId (loop P1)" if "k \<in> dom (te_addr P1) - {i}" for k using that d1(9) by blast
  show ?thesis
    unfolding mem_inv_def
    using d1(1-3,6-8) lt [unfolded dom] ran inj used blocks dom d(8) by (auto simp: P' timers_def)
qed

section \<open>The life of an event loop\<close>

text \<open>
  Whatever a program does between \<open>aeCreateEventLoop\<close> and \<open>aeDeleteEventLoop\<close>: time events come and go, and any
  other operation changes the loop but not the identity of its time events.
\<close>

inductive prog_run ::
    "mallocs \<Rightarrow> (nat \<Rightarrow> bytes) \<Rightarrow> 'k prog_finalizers \<Rightarrow> 'k ae_program \<Rightarrow> 'k ae_program \<Rightarrow> bool" for alloc junk fin P0 where
  run_start: "prog_run alloc junk fin P0 P0"
| run_create: "prog_run alloc junk fin P0 P \<Longrightarrow> create_timer alloc junk clk ms proc cd fz P = Some (Returns (i, P')) \<Longrightarrow>
    prog_run alloc junk fin P0 P'"
| run_delete: "prog_run alloc junk fin P0 P \<Longrightarrow> delete_timer fin P i = Some (r, P') \<Longrightarrow> prog_run alloc junk fin P0 P'"
| run_other: "prog_run alloc junk fin P0 P \<Longrightarrow> map te_id (timeEvents lp) = timers P \<Longrightarrow>
    timeEventNextId lp = timeEventNextId (loop P) \<Longrightarrow> prog_run alloc junk fin P0 (P\<lparr>loop := lp\<rparr>)"

lemma mem_inv_other:
  assumes "mem_inv z X P" "map te_id (timeEvents lp) = timers P" "timeEventNextId lp = timeEventNextId (loop P)"
  shows "mem_inv z X (P\<lparr>loop := lp\<rparr>)"
proof -
  have "timers (P\<lparr>loop := lp\<rparr>) = timers P" using assms(2) by (simp add: timers_def)
  moreover have "owned (P\<lparr>loop := lp\<rparr>) = owned P" by (simp add: owned_def fun_eq_iff)
  ultimately show ?thesis using assms(1,3) unfolding mem_inv_def by auto
qed

lemma prog_run_inv:
  assumes "prog_run alloc junk fin P0 P" and "fresh_alloc alloc" "finalizers_ok fin" "mem_inv z X P0"
  shows "mem_inv z X P"
  using assms(1)
proof induction
  case (run_create P clk ms proc cd fz i P')
  from create_timer_inv [OF assms(2) run_create.IH run_create.hyps(2)] show ?case .
next
  case (run_delete P i r P')
  from delete_timer_inv [OF assms(3) run_delete.IH run_delete.hyps(2)] show ?case .
next
  case (run_other P lp)
  from mem_inv_other [OF run_other.IH run_other.hyps(2,3)] show ?case .
qed (rule assms(4))

lemma cost_timer: "cost sizeof_aeTimeEvent = 64"
  by (simp add: cost_def word_round_def sizeof_aeTimeEvent_def PREFIX_SIZE_def)

lemma delete_loop:
  assumes "mem_inv z {} P"
  obtains z' where "aeDeleteEventLoop shut P = Some (shut (apidata (loop P)), z')"
    "\<forall>q. zheap z' q = (if q \<in> ran (te_addr P) then zheap (allocator P) q else zheap z q)"
    "used_memory z' = used_memory z + of_nat (length (timeEvents (loop P))) * cost sizeof_aeTimeEvent"
proof -
  note d = mem_invD [OF assms]
  have "owned P (api_addr P) = Some sizeof_aeApiState" using d(1) by (simp add: owned_def)
  then obtain b where b: "zheap (allocator P) (api_addr P) = Some b" "zsize b = sizeof_aeApiState" "zheap z (api_addr P) = None"
    using d(11) [of "api_addr P"] by auto
  have "owned P (loop_addr P) = Some sizeof_aeEventLoop" by (simp add: owned_def)
  then obtain c where c: "zheap (allocator P) (loop_addr P) = Some c" "zsize c = sizeof_aeEventLoop" "zheap z (loop_addr P) = None"
    using d(11) [of "loop_addr P"] by auto
  obtain z1 where z1: "zfree (Some (api_addr P)) (allocator P) = Some z1" "zheap z1 = (zheap (allocator P))(api_addr P := None)"
    "used_memory z1 = used_memory (allocator P) - cost sizeof_aeApiState"
    using zfree_live [OF b(1)] b(2) by (auto simp: cost_def)
  have "zheap z1 (loop_addr P) = Some c" using c(1) z1(2) d(1) by simp
  then obtain z2 where z2: "zfree (Some (loop_addr P)) z1 = Some z2" "zheap z2 = (zheap z1)(loop_addr P := None)"
    "used_memory z2 = used_memory z1 - cost sizeof_aeEventLoop"
    using c(2) zfree_live [of z1 "loop_addr P" c] by (auto simp: cost_def)
  have "card (dom (te_addr P)) = length (timeEvents (loop P))"
    using d(5,7) distinct_card [of "timers P"] by (simp add: timers_def)
  then have used: "used_memory z2 = used_memory z + of_nat (length (timeEvents (loop P))) * cost sizeof_aeTimeEvent"
    by (simp add: z1(3) z2(3) d(12))
  have heap: "zheap z2 q = (if q \<in> ran (te_addr P) then zheap (allocator P) q else zheap z q)" for q
    using d(2,3) d(10) [of q] b(3) c(3) by (auto simp: z1(2) z2(2) owned_def)
  show ?thesis
    by (rule that [OF _ allI [OF heap] used]) (simp add: aeDeleteEventLoop_def aeApiFree_def Let_def z1(1) z2(1))
qed

text \<open>
  C20. The memory of an event loop: after any use of the loop \<open>aeDeleteEventLoop\<close> succeeds and gives back what
  \<open>aeCreateEventLoop\<close> and the time event functions have allocated, except the time events that are
  still registered; each of these stays allocated, and the accounting shows 64 bytes for it.
\<close>

theorem event_loop_frees_all_but_timers:
  assumes "fresh_alloc alloc" and "finalizers_ok fin"
    and "create_loop alloc junk epfd junkev junkfired z = Some (Returns (Some P0, z0))"
    and "prog_run alloc junk fin P0 P"
  shows "\<exists>z'. aeDeleteEventLoop shut P = Some (shut (apidata (loop P)), z') \<and>
    zmalloc_used_memory z' = zmalloc_used_memory z + 64 * of_nat (length (timeEvents (loop P))) \<and>
    (\<forall>q. q \<notin> ran (te_addr P) \<longrightarrow> zheap z' q = zheap z q) \<and>
    (\<forall>te \<in> set (timeEvents (loop P)). \<exists>q. te_addr P (te_id te) = Some q \<and> zheap z q = None \<and> zheap z' q \<noteq> None)"
proof -
  have inv: "mem_inv z {} P"
    using prog_run_inv [OF assms(4,1,2)] create_loop_inv [OF assms(1,3)] by blast
  obtain z' where z': "aeDeleteEventLoop shut P = Some (shut (apidata (loop P)), z')"
    "\<forall>q. zheap z' q = (if q \<in> ran (te_addr P) then zheap (allocator P) q else zheap z q)"
    "used_memory z' = used_memory z + of_nat (length (timeEvents (loop P))) * cost sizeof_aeTimeEvent"
    by (rule delete_loop [OF inv])
  have "\<exists>q. te_addr P (te_id te) = Some q \<and> zheap z q = None \<and> zheap z' q \<noteq> None" if "te \<in> set (timeEvents (loop P))" for te
  proof -
    from that mem_invD(5) [OF inv] have "te_id te \<in> dom (te_addr P)" by (auto simp: timers_def)
    then obtain q where q: "te_addr P (te_id te) = Some q" by blast
    obtain b where "zheap (allocator P) q = Some b" "zheap z q = None" by (rule owned_timer [OF inv q]) blast
    moreover from q have "q \<in> ran (te_addr P)" by (rule ranI)
    ultimately show ?thesis using q z'(2) by simp
  qed
  moreover have "used_memory z' = used_memory z + 64 * of_nat (length (timeEvents (loop P)))"
    using z'(3) by (simp add: cost_timer mult.commute)
  moreover have "zheap z' q = zheap z q" if "q \<notin> ran (te_addr P)" for q using z'(2) that by simp
  ultimately show ?thesis using z'(1) unfolding zmalloc_used_memory_def by blast
qed

text \<open>
  When \<open>epoll_create\<close> fails the loop is freed but the state of the epoll layer is not: every failed
  call leaks a block of that size.
\<close>

theorem failed_create_leaks:
  assumes "fresh_alloc alloc" and "create_loop alloc junk None junkev junkfired z = Some (Returns (r, z'))"
  shows "r = None \<and> zmalloc_used_memory z' = zmalloc_used_memory z + cost sizeof_aeApiState \<and>
    (\<exists>p. zheap z p = None \<and> map_option zsize (zheap z' p) = Some sizeof_aeApiState \<and>
      (\<forall>q. q \<noteq> p \<longrightarrow> zheap z' q = zheap z q))"
proof -
  obtain a z1 b z2 where b: "zmalloc alloc junk sizeof_aeEventLoop z = Some (Returns (Some a, z1))" "zheap z a = None"
    "zheap z1 = (zheap z)(a \<mapsto> \<lparr>zsize = sizeof_aeEventLoop, zdata = junk (unat sizeof_aeEventLoop)\<rparr>)"
    "used_memory z1 = used_memory z + cost sizeof_aeEventLoop"
    "zmalloc alloc junk sizeof_aeApiState z1 = Some (Returns (Some b, z2))" "a \<noteq> b" "zheap z b = None"
    "zheap z2 = (zheap z1)(b \<mapsto> \<lparr>zsize = sizeof_aeApiState, zdata = junk (unat sizeof_aeApiState)\<rparr>)"
    "used_memory z2 = used_memory z1 + cost sizeof_aeApiState"
    by (rule create_loop_blocks [OF assms])
  have "zheap z2 a = Some \<lparr>zsize = sizeof_aeEventLoop, zdata = junk (unat sizeof_aeEventLoop)\<rparr>" using b by simp
  then obtain z3 where z3: "zfree (Some a) z2 = Some z3" "zheap z3 = (zheap z2)(a := None)"
    "used_memory z3 = used_memory z2 - cost sizeof_aeEventLoop"
    by (rule zfree_live) (auto simp: cost_def)
  from assms(2) b(1,5) z3(1) have "r = None" "z' = z3"
    by (auto simp: create_loop_def aeApiCreate_def)
  with b z3 show ?thesis by (auto simp: zmalloc_used_memory_def)
qed

section \<open>The properties at concrete inputs\<close>

text \<open>Two time events are created and one is deleted; the finalizer leaves the program alone.\<close>

definition lifetime_alloc :: mallocs where "lifetime_alloc = bump [16, 32, 48, 64]"
definition no_junk :: "nat \<Rightarrow> bytes" where "no_junk n = []"
definition idle_clock :: clock where "idle_clock n = (100, 0)"
definition blank_event :: aeFileEvent where
  "blank_event = \<lparr>fe_mask = 0, rfileProc = None, wfileProc = None, fe_clientData = None\<rparr>"

lemma not_in_dom: "a \<notin> dom m \<longleftrightarrow> m a = None"
  by auto

lemma zmalloc_example:
  assumes "find (\<lambda>a. zheap z a = None) [16, 32, 48, 64] = Some a" "\<not> n + 8 < 8"
  shows "zmalloc lifetime_alloc no_junk n z = Some (Returns (Some a,
    update_zmalloc_stat_alloc (n + PREFIX_SIZE) n (z\<lparr>zheap := (zheap z)(a \<mapsto> \<lparr>zsize = n, zdata = []\<rparr>)\<rparr>)))"
  using assms by (simp add: zmalloc_def zmalloc_with_def lifetime_alloc_def bump_def new_block_def no_junk_def PREFIX_SIZE_def)

lemmas lifetime_simps = zmalloc_example zstate0_def sizeof_aeEventLoop_def sizeof_aeApiState_def sizeof_aeTimeEvent_def
  update_zmalloc_stat_alloc_def Let_def

lemma lifetime_start:
  "\<exists>P z. create_loop lifetime_alloc no_junk (Some ()) (\<lambda>_. blank_event) (\<lambda>_. (0, 0)) zstate0 = Some (Returns (Some P, z))
    \<and> timeEvents (loop P) = [] \<and> timeEventNextId (loop P) = 0 \<and> dom (zheap (allocator P)) = {16, 32}"
  by (auto simp: create_loop_def aeApiCreate_def aeCreateEventLoop_def lifetime_simps)

lemma lifetime_timer:
  assumes "find (\<lambda>a. a \<notin> dom (zheap (allocator P))) [16, 32, 48, 64] = Some a"
  shows "\<exists>P'. create_timer lifetime_alloc no_junk idle_clock 10 (Some 1) None (Some 2) P = Some (Returns (timeEventNextId (loop P), P'))
    \<and> dom (zheap (allocator P')) = insert a (dom (zheap (allocator P)))
    \<and> (\<exists>te. te_id te = timeEventNextId (loop P) \<and> timeEvents (loop P') = te # timeEvents (loop P))
    \<and> timeEventNextId (loop P') = timeEventNextId (loop P) + 1
    \<and> te_addr P' = (te_addr P)(timeEventNextId (loop P) \<mapsto> a)"
  using assms unfolding not_in_dom
  by (auto simp: create_timer_def aeCreateTimeEvent_def aeGetTime_def lifetime_simps split: prod.splits)

lemma keep_finalizers: "finalizers_ok (\<lambda>p P cd. Some P)"
  by (simp add: finalizers_ok_def)

theorem event_loop_frees_all_but_timers_witness:
  "\<exists>P z'. aeDeleteEventLoop (\<lambda>k. k) P = Some ((), z') \<and> length (timeEvents (loop P)) = 1 \<and> zmalloc_used_memory z' = 64"
proof -
  obtain P0 z where P0: "create_loop lifetime_alloc no_junk (Some ()) (\<lambda>_. blank_event) (\<lambda>_. (0, 0)) zstate0 = Some (Returns (Some P0, z))"
    "timeEvents (loop P0) = []" "timeEventNextId (loop P0) = 0" "dom (zheap (allocator P0)) = {16, 32}"
    using lifetime_start by blast
  let ?mk = "create_timer lifetime_alloc no_junk idle_clock 10 (Some 1) None (Some 2)"
  obtain P1 te where P1: "?mk P0 = Some (Returns (0, P1))" "dom (zheap (allocator P1)) = {48, 16, 32}"
    "te_id te = 0" "timeEvents (loop P1) = [te]" "timeEventNextId (loop P1) = 1" "te_addr P1 0 = Some 48"
    using lifetime_timer [of P0 48] P0(2-4) by auto
  obtain P2 te2 where P2: "?mk P1 = Some (Returns (1, P2))" "dom (zheap (allocator P2)) = {64, 48, 16, 32}"
    "te_id te2 = 1" "timeEvents (loop P2) = [te2, te]" "te_addr P2 0 = Some 48"
    using lifetime_timer [of P1 64] P1(2-6) by auto
  from P2(2) obtain b where "zheap (allocator P2) 48 = Some b" by (metis domD insertCI)
  then obtain z3 where "zfree (Some 48) (allocator P2) = Some z3" by (rule zfree_live)
  then obtain P3 where P3: "delete_timer (\<lambda>p P cd. Some P) P2 0 = Some (AE_OK, P3)" "timeEvents (loop P3) = [te2]"
    using P1(3) P2 by (auto simp: delete_timer_def Let_def)
  have run: "prog_run lifetime_alloc no_junk (\<lambda>p P cd. Some P) P0 P3"
    by (intro prog_run.run_delete [OF _ P3(1)] prog_run.run_create [OF _ P2(1)] prog_run.run_create [OF _ P1(1)] prog_run.run_start)
  have al: "fresh_alloc lifetime_alloc" unfolding lifetime_alloc_def by (rule fresh_bump)
  from event_loop_frees_all_but_timers [where shut = "\<lambda>k. k", OF al keep_finalizers P0(1) run] P3(2)
  show ?thesis by (intro exI [of _ P3]) (auto simp: zmalloc_used_memory_def zstate0_def)
qed

end
