(* ===== verification/Ae_Server.thy ===== *)
theory Ae_Server
  imports Ae_Lifetime
begin

text \<open>
  The demo server of \<open>ae/main.c\<close>: a listening socket and its clients as file events of the loop. Every
  client that sends something is answered with \<open>ok\<close>. The system calls are a record of functions
  on the kernel's state; output on the terminal is left out.
\<close>

section \<open>System calls\<close>

text \<open>
  Each call yields its return value and the kernel's state after it; \<open>errno\<close> is read from there. \<open>k_read\<close> also
  yields the bytes read.
\<close>

record 'k sys =
  k_errno :: "'k \<Rightarrow> int"
  k_getfl :: "'k \<Rightarrow> int \<Rightarrow> int \<times> 'k"
  k_setfl :: "'k \<Rightarrow> int \<Rightarrow> int \<Rightarrow> int \<times> 'k"
  k_read :: "'k \<Rightarrow> int \<Rightarrow> nat \<Rightarrow> (int \<times> bytes) \<times> 'k"
  k_send :: "'k \<Rightarrow> int \<Rightarrow> bytes \<Rightarrow> int \<times> 'k"
  k_close :: "'k \<Rightarrow> int \<Rightarrow> 'k"
  k_accept :: "'k \<Rightarrow> int \<Rightarrow> int \<times> 'k"
  k_socket :: "'k \<Rightarrow> int \<times> 'k"
  k_bind :: "'k \<Rightarrow> int \<Rightarrow> int \<Rightarrow> int \<times> 'k"
  k_listen :: "'k \<Rightarrow> int \<Rightarrow> nat \<Rightarrow> int \<times> 'k"

text \<open>The numbers are those of Linux, where \<open>EWOULDBLOCK\<close> is \<open>EAGAIN\<close>.\<close>

definition EAGAIN :: int where "EAGAIN = 11"
definition EWOULDBLOCK :: int where "EWOULDBLOCK = 11"
definition EINTR :: int where "EINTR = 4"
definition ENOBUFS :: int where "ENOBUFS = 105"
definition O_NONBLOCK :: int where "O_NONBLOCK = 2048"
definition FD_CLOEXEC :: int where "FD_CLOEXEC = 1"

definition SOCKET_READ_BUFFER_LENGTH :: nat where "SOCKET_READ_BUFFER_LENGTH = 4096"
definition server_port :: int where "server_port = 9999"
definition LISTEN_QUEUE_LENGTH :: nat where "LISTEN_QUEUE_LENGTH = 32"

section \<open>Sockets\<close>

definition set_nonblocking :: "'k sys \<Rightarrow> int \<Rightarrow> 'k \<Rightarrow> int \<times> 'k" where
  "set_nonblocking S fd k =
     (let (flag, k) = k_getfl S k fd
      in if flag < 0 then (-1, k)
      else let (r, k) = k_setfl S k fd (flag OR O_NONBLOCK)
      in if r < 0 then (-1, k) else (0, k))"

text \<open>The flags are those of \<open>F_GETFL\<close> and \<open>F_SETFL\<close> here too, not the descriptor's flags.\<close>

definition set_closexec :: "'k sys \<Rightarrow> int \<Rightarrow> 'k \<Rightarrow> int \<times> 'k" where
  "set_closexec S fd k =
     (let (flag, k) = k_getfl S k fd
      in if flag < 0 then (-1, k)
      else let (r, k) = k_setfl S k fd (flag OR FD_CLOEXEC)
      in if r < 0 then (-1, k) else (0, k))"

text \<open>The listening socket, or \<open>exit(1)\<close>, which is \<open>None\<close>. The result of \<open>setsockopt\<close> is not looked at.\<close>

definition init_server :: "'k sys \<Rightarrow> 'k \<Rightarrow> int option \<times> 'k" where
  "init_server S k =
     (let (fd, k) = k_socket S k
      in if fd < 0 then (None, k)
      else let (r, k) = k_bind S k fd server_port
      in if r < 0 then (None, k)
      else let (r, k) = k_listen S k fd LISTEN_QUEUE_LENGTH
      in if r < 0 then (None, k)
      else let (r, k) = set_nonblocking S fd k
      in if r = -1 then (None, k) else (Some fd, k))"

text \<open>
  The loop of \<open>non_block_send\<close>: \<open>ss\<close> bytes are left at \<open>buffer + cp\<close>. It yields what is left; a socket whose
  buffer stays full keeps it running.
\<close>

definition retry :: "int \<Rightarrow> bool" where
  "retry e \<longleftrightarrow> e = EAGAIN \<or> e = EINTR \<or> e = ENOBUFS"

partial_function (option) send_loop :: "'k sys \<Rightarrow> int \<Rightarrow> bytes \<Rightarrow> u32 \<Rightarrow> u32 \<Rightarrow> 'k \<Rightarrow> (u32 \<times> 'k) option" where
  "send_loop S fd buffer ss cp k =
     (if ss = 0 then Some (ss, k)
      else case k_send S k fd (take (unat ss) (drop (unat cp) buffer)) of
        (rv, k') \<Rightarrow>
          if 0 < rv then send_loop S fd buffer (ss - of_int rv) (cp + of_int rv) k'
          else if retry (k_errno S k') then send_loop S fd buffer ss cp k'
          else Some (ss, k'))"

definition non_block_send :: "'k sys \<Rightarrow> int \<Rightarrow> bytes \<Rightarrow> u32 \<Rightarrow> 'k \<Rightarrow> (int \<times> 'k) option" where
  "non_block_send S fd buffer total_size k =
     map_option (\<lambda>(ss, k). (if ss = 0 then 0 else -1, k)) (send_loop S fd buffer total_size 0 k)"

section \<open>File event handlers\<close>

definition say :: bytes where "say = [111, 107, 0]"

text \<open>The kernel's state is that of the loop.\<close>

definition drive_machine :: "'k sys \<Rightarrow> 'k epoll_ctl \<Rightarrow> 'k aeEventLoop \<Rightarrow> int \<Rightarrow> 'k aeEventLoop option" where
  "drive_machine S ctl lp fd =
     (let ((rl, buffer), k) = k_read S (apidata lp) fd SOCKET_READ_BUFFER_LENGTH;
          lp = lp\<lparr>apidata := k\<rparr>
      in if rl = -1 \<and> (k_errno S k = EAGAIN \<or> k_errno S k = EWOULDBLOCK) then Some lp
      else if rl = -1 \<or> rl = 0
      then do {
        lp \<leftarrow> aeDeleteFileEvent ctl lp fd AE_READABLE;
        Some (lp\<lparr>apidata := k_close S (apidata lp) fd\<rparr>)
      }
      else do {
        (r, k) \<leftarrow> non_block_send S fd say 2 k;
        Some (lp\<lparr>apidata := k\<rparr>)
      })"

text \<open>The handlers by their addresses.\<close>

definition accept_handler_addr :: nat where "accept_handler_addr = 1"
definition drive_machine_addr :: nat where "drive_machine_addr = 2"

text \<open>The result of \<open>aeCreateFileEvent\<close> is not looked at.\<close>

definition accept_handler :: "'k sys \<Rightarrow> 'k epoll_ctl \<Rightarrow> 'k aeEventLoop \<Rightarrow> int \<Rightarrow> 'k aeEventLoop option" where
  "accept_handler S ctl lp fd =
     (let (client_fd, k) = k_accept S (apidata lp) fd
      in if client_fd < 0 then Some (lp\<lparr>apidata := k\<rparr>)
      else let (r, k) = set_nonblocking S client_fd k
      in if r = -1 then Some (lp\<lparr>apidata := k_close S k client_fd\<rparr>)
      else let (r, k) = set_closexec S client_fd k
      in if r = -1 then Some (lp\<lparr>apidata := k_close S k client_fd\<rparr>)
      else map_option snd (aeCreateFileEvent ctl (lp\<lparr>apidata := k\<rparr>) client_fd AE_READABLE (Some drive_machine_addr) None))"

definition demo_procs :: "'k sys \<Rightarrow> 'k epoll_ctl \<Rightarrow> 'k file_procs" where
  "demo_procs S ctl p lp fd clientData msk =
     (if p = Some accept_handler_addr then accept_handler S ctl lp fd
      else if p = Some drive_machine_addr then drive_machine S ctl lp fd
      else None)"

section \<open>The program\<close>

text \<open>
  What \<open>main\<close> does before \<open>aeMain\<close>: the loop with the listening socket, nothing when \<open>init_server\<close> exits. \<open>create\<close>
  is \<open>epoll_create\<close>; when it fails the loop is null and its use undefined. There are no time events.
\<close>

definition demo_init ::
    "'k sys \<Rightarrow> 'k epoll_ctl \<Rightarrow> ('k \<Rightarrow> 'k option) \<Rightarrow> (nat \<Rightarrow> aeFileEvent) \<Rightarrow> (nat \<Rightarrow> int \<times> u32) \<Rightarrow> 'k
       \<Rightarrow> (int \<times> 'k aeEventLoop) option option" where
  "demo_init S ctl create junk junkfired k =
     (case init_server S k of
        (None, k) \<Rightarrow> Some None
      | (Some server_fd, k) \<Rightarrow> do {
          lp \<leftarrow> aeCreateEventLoop (create k) junk junkfired;
          (r, lp) \<leftarrow> aeCreateFileEvent ctl lp server_fd AE_READABLE (Some accept_handler_addr) None;
          Some (Some (server_fd, lp))
        })"

definition demo_iteration ::
    "clock \<Rightarrow> 'k epoll_wait \<Rightarrow> 'k sys \<Rightarrow> 'k epoll_ctl \<Rightarrow> 'k aeEventLoop \<Rightarrow> (nat \<times> 'k aeEventLoop) option" where
  "demo_iteration clk wait S ctl lp =
     aeProcessEvents clk wait (demo_procs S ctl) (\<lambda>_ _ _ _. None) (\<lambda>_ _ _. None) lp AE_ALL_EVENTS"

definition demo_main ::
    "clock \<Rightarrow> 'k epoll_wait \<Rightarrow> 'k sys \<Rightarrow> 'k epoll_ctl \<Rightarrow> ('k \<Rightarrow> 'k option) \<Rightarrow> (nat \<Rightarrow> aeFileEvent) \<Rightarrow> (nat \<Rightarrow> int \<times> u32) \<Rightarrow> 'k
       \<Rightarrow> 'k aeEventLoop option option" where
  "demo_main clk wait S ctl create junk junkfired k = do {
     r \<leftarrow> demo_init S ctl create junk junkfired k;
     (case r of
        None \<Rightarrow> Some None
      | Some (server_fd, lp) \<Rightarrow> map_option Some
          (aeMain clk wait (demo_procs S ctl) (\<lambda>_ _ _ _. None) (\<lambda>_ _ _. None) (\<lambda>_ _. None) lp))
   }"

end
