(* ===== verification/Ae_Server_Props.thy ===== *)
theory Ae_Server_Props
  imports Ae_Server
begin

text \<open>
  The demo server on the event loop: its responses are sent completely or the call reports an
  error; every iteration keeps exactly the connected clients registered, so that no descriptor is
  leaked and no handler runs on a closed one; what happens when registration fails, and that one
  client which does not read stops the whole server.
\<close>

section \<open>Sending\<close>

text \<open>
  \<open>send\<close> takes at most the bytes offered. It may refuse them, and the caller asks again when the error number
  tells it to; nothing bounds how often.
\<close>

definition send_ok :: "'k sys \<Rightarrow> bool" where
  "send_ok S \<longleftrightarrow> (\<forall>k fd bs. bs \<noteq> [] \<longrightarrow> fst (k_send S k fd bs) \<le> int (length bs))"

definition send_refused :: "'k sys \<Rightarrow> int \<Rightarrow> bytes \<Rightarrow> 'k \<Rightarrow> bool" where
  "send_refused S fd bs k \<longleftrightarrow> fst (k_send S k fd bs) \<le> 0 \<and> retry (k_errno S (snd (k_send S k fd bs)))"

primrec after_sends :: "'k sys \<Rightarrow> int \<Rightarrow> bytes \<Rightarrow> nat \<Rightarrow> 'k \<Rightarrow> 'k" where
  "after_sends S fd bs 0 k = k"
| "after_sends S fd bs (Suc n) k = after_sends S fd bs n (snd (k_send S k fd bs))"

definition refuses_forever :: "'k sys \<Rightarrow> int \<Rightarrow> bytes \<Rightarrow> 'k \<Rightarrow> bool" where
  "refuses_forever S fd bs k \<longleftrightarrow> (\<forall>n. send_refused S fd bs (after_sends S fd bs n k))"

lemma refuses_forever_step:
  assumes "refuses_forever S fd bs k"
  shows "send_refused S fd bs k" "refuses_forever S fd bs (snd (k_send S k fd bs))"
proof -
  show "send_refused S fd bs k" using assms [unfolded refuses_forever_def, THEN spec, of 0] by simp
  have "send_refused S fd bs (after_sends S fd bs (Suc n) k)" for n using assms unfolding refuses_forever_def by blast
  then show "refuses_forever S fd bs (snd (k_send S k fd bs))" by (simp add: refuses_forever_def)
qed

lemma unat_minus_sent:
  fixes ss cp :: u32
  assumes "0 < rv" "rv \<le> int (unat ss)" "unat cp + unat ss < 2 ^ 32"
  shows "unat (ss - of_int rv) = unat ss - nat rv" "unat (cp + of_int rv) = unat cp + nat rv"
proof -
  define n where "n = nat rv"
  have n: "rv = int n" using assms(1) by (simp add: n_def)
  moreover have "n \<le> unat ss" using assms(2) unfolding n_def by (simp only: nat_le_iff)
  ultimately have n: "rv = int n" "n \<le> unat ss" by simp_all
  have b: "n < 2 ^ 32" using n(2) assms(3) by simp
  then have u: "unat (of_nat n :: u32) = n" by (simp add: unat_of_nat32)
  show "unat (ss - of_int rv) = unat ss - nat rv"
    using n u by (simp add: unat_sub_if')
  show "unat (cp + of_int rv) = unat cp + nat rv"
    using n u assms(3) by (simp add: unat_word_ariths)
qed

text \<open>
  \<open>P k n\<close> says of the kernel's state that \<open>n\<close> bytes of the buffer have been sent; a call of \<open>send\<close> adds
  what it reports.
\<close>

definition counts_sent :: "'k sys \<Rightarrow> int \<Rightarrow> bytes \<Rightarrow> ('k \<Rightarrow> nat \<Rightarrow> bool) \<Rightarrow> bool" where
  "counts_sent S fd buffer P \<longleftrightarrow> (\<forall>k n l. P k n \<longrightarrow>
     (case k_send S k fd (take l (drop n buffer)) of (rv, k') \<Rightarrow> P k' (if 0 < rv then n + nat rv else n)))"

lemma send_loop_refused:
  assumes "send_loop S fd buffer ss cp k = Some r" "ss \<noteq> 0"
    and "refuses_forever S fd (take (unat ss) (drop (unat cp) buffer)) k"
  shows False
proof -
  have "ss \<noteq> 0 \<longrightarrow> refuses_forever S fd (take (unat ss) (drop (unat cp) buffer)) k \<longrightarrow> False"
  proof (rule send_loop.raw_induct [OF _ assms(1), where P = "\<lambda>S fd buffer ss cp k r.
      ss \<noteq> 0 \<longrightarrow> refuses_forever S fd (take (unat ss) (drop (unat cp) buffer)) k \<longrightarrow> False"], goal_cases)
    case (1 loop S fd buffer ss cp k r)
    show ?case
    proof (intro impI)
      let ?bs = "take (unat ss) (drop (unat cp) buffer)"
      assume *: "ss \<noteq> 0" "refuses_forever S fd ?bs k"
      note next_call = refuses_forever_step [OF *(2)]
      with 1(2) *(1) have "loop S fd buffer ss cp (snd (k_send S k fd ?bs)) = Some r"
        by (cases "k_send S k fd ?bs") (simp add: send_refused_def)
      from 1(1) [OF this] next_call(2) *(1) show False by blast
    qed
  qed
  with assms show False by blast
qed

lemma counts_sentD:
  assumes "counts_sent S fd buffer P" "P k n" "k_send S k fd (take l (drop n buffer)) = (rv, k')"
  shows "P k' (if 0 < rv then n + nat rv else n)"
  using assms unfolding counts_sent_def by (metis (no_types, lifting) case_prod_conv)

text \<open>Calls that are refused change neither what is left nor what has been sent.\<close>

lemma send_loop_skip:
  assumes "counts_sent S fd buffer P" "ss \<noteq> 0"
  shows "P k (unat cp) \<Longrightarrow> \<forall>i<n. send_refused S fd (take (unat ss) (drop (unat cp) buffer)) (after_sends S fd (take (unat ss) (drop (unat cp) buffer)) i k)
    \<Longrightarrow> send_loop S fd buffer ss cp k = send_loop S fd buffer ss cp (after_sends S fd (take (unat ss) (drop (unat cp) buffer)) n k)
      \<and> P (after_sends S fd (take (unat ss) (drop (unat cp) buffer)) n k) (unat cp)"
proof (induction n arbitrary: k)
  case (Suc n)
  let ?bs = "take (unat ss) (drop (unat cp) buffer)"
  obtain rv k' where send: "k_send S k fd ?bs = (rv, k')" by (cases "k_send S k fd ?bs")
  have now: "rv \<le> 0" "retry (k_errno S k')" using Suc.prems(2) [THEN spec, of 0] send by (simp_all add: send_refused_def)
  then have P: "P k' (unat cp)" using counts_sentD [OF assms(1) Suc.prems(1) send] by simp
  have later: "\<forall>i<n. send_refused S fd ?bs (after_sends S fd ?bs i k')"
  proof (intro allI impI)
    fix i assume "i < n"
    then have "Suc i < Suc n" by simp
    with Suc.prems(2) have "send_refused S fd ?bs (after_sends S fd ?bs (Suc i) k)" by blast
    then show "send_refused S fd ?bs (after_sends S fd ?bs i k')" by (simp add: send)
  qed
  have "send_loop S fd buffer ss cp k = send_loop S fd buffer ss cp k'"
    using send now assms(2) by (subst send_loop.simps) simp
  with Suc.IH [OF P later] show ?case by (simp add: send)
qed simp

definition send_blocked :: "'k sys \<Rightarrow> int \<Rightarrow> bytes \<Rightarrow> nat \<Rightarrow> nat \<Rightarrow> 'k \<Rightarrow> bool" where
  "send_blocked S fd buffer n i k \<longleftrightarrow> i < n \<and> refuses_forever S fd (take (n - i) (drop i buffer)) k"

lemma send_loop_spec:
  assumes ok: "send_ok S" and cnt: "counts_sent S fd buffer P"
    and "P k (unat cp)" "unat cp + unat ss \<le> length buffer" and len: "length buffer < 2 ^ 32"
  shows "(\<exists>ss' k'. send_loop S fd buffer ss cp k = Some (ss', k') \<and> P k' (unat cp + unat ss - unat ss') \<and> unat ss' \<le> unat ss
        \<and> (ss' \<noteq> 0 \<longrightarrow> \<not> retry (k_errno S k')))
    \<or> (send_loop S fd buffer ss cp k = None \<and> (\<exists>i k'. P k' i \<and> send_blocked S fd buffer (unat cp + unat ss) i k'))"
  using assms(3,4)
proof (induction "unat ss" arbitrary: ss cp k rule: less_induct)
  case less
  let ?bs = "take (unat ss) (drop (unat cp) buffer)"
  show ?case
  proof (cases "ss = 0")
    case True
    then show ?thesis using less.prems by (subst send_loop.simps) simp
  next
    case nonzero: False
    then have pos: "0 < unat ss" by (simp add: unat_gt_0)
    then have ne: "?bs \<noteq> []" "length ?bs = unat ss" using less.prems(2) by auto
    show ?thesis
    proof (cases "refuses_forever S fd ?bs k")
      case True
      then have "send_loop S fd buffer ss cp k = None"
        using send_loop_refused [where S = S and fd = fd and buffer = buffer and ss = ss and cp = cp and k = k] nonzero
        by (cases "send_loop S fd buffer ss cp k") blast+
      moreover have "send_blocked S fd buffer (unat cp + unat ss) (unat cp) k" using True pos by (simp add: send_blocked_def)
      ultimately show ?thesis using less.prems(1) by blast
    next
      case False
      then obtain n where "\<not> send_refused S fd ?bs (after_sends S fd ?bs n k)"
          "\<forall>i<n. send_refused S fd ?bs (after_sends S fd ?bs i k)"
        using exists_least_iff [of "\<lambda>n. \<not> send_refused S fd ?bs (after_sends S fd ?bs n k)"]
        unfolding refuses_forever_def by blast
      moreover define k1 where "k1 = after_sends S fd ?bs n k"
      ultimately have skip: "send_loop S fd buffer ss cp k = send_loop S fd buffer ss cp k1" "P k1 (unat cp)"
        and accepted: "\<not> send_refused S fd ?bs k1"
        using send_loop_skip [OF cnt nonzero less.prems(1), of n] by simp_all
      obtain rv k' where send: "k_send S k1 fd ?bs = (rv, k')" by (cases "k_send S k1 fd ?bs")
      have law: "rv \<le> int (unat ss)" using ok ne send unfolding send_ok_def by (metis fst_conv)
      note P = counts_sentD [OF cnt skip(2) send]
      show ?thesis
      proof (cases "0 < rv")
        case more: True
        note u = unat_minus_sent [OF more law, of cp]
        from u less.prems(2) len have u1: "unat (ss - of_int rv) = unat ss - nat rv" "unat (cp + of_int rv) = unat cp + nat rv" by simp_all
        have nr: "nat rv \<le> unat ss" "0 < nat rv" using law more by (simp_all only: nat_le_iff zero_less_nat_eq)
        have sum: "unat (cp + of_int rv) + unat (ss - of_int rv) = unat cp + unat ss" using u1 nr by simp
        have "send_loop S fd buffer ss cp k1 = send_loop S fd buffer (ss - of_int rv) (cp + of_int rv) k'"
          using send more nonzero by (subst send_loop.simps) simp
        moreover have "unat (ss - of_int rv) < unat ss" "P k' (unat (cp + of_int rv))"
            "unat (cp + of_int rv) + unat (ss - of_int rv) \<le> length buffer"
          using u1 nr P more less.prems(2) sum by simp_all
        note less.hyps [OF this]
        ultimately show ?thesis unfolding skip(1) sum using nr u1(1) by fastforce
      next
        case failed: False
        with accepted send have "\<not> retry (k_errno S k')" by (simp add: send_refused_def)
        with failed send nonzero have "send_loop S fd buffer ss cp k1 = Some (ss, k')" by (subst send_loop.simps) simp
        with skip(1) P failed \<open>\<not> retry (k_errno S k')\<close> show ?thesis by simp
      qed
    qed
  qed
qed

text \<open>
  C29. \<open>non_block_send\<close> with a kernel of which only this is known, that \<open>send\<close> takes at most the bytes offered,
  in whatever pieces and with whatever refusals: either it returns, with 0 when exactly the whole buffer has
  been sent, with -1 when only a part of it has and the last error is none of those after which it asks again;
  or it does not return, and this only when the kernel, after a part of the buffer, answers every further
  call of \<open>send\<close> for the rest with such an error, for ever.
\<close>

theorem non_block_send_sends_all:
  assumes "send_ok S" "counts_sent S fd buffer P"
    and "P k 0" "unat n \<le> length buffer" "length buffer < 2 ^ 32"
  shows "(\<exists>r k' i. non_block_send S fd buffer n k = Some (r, k') \<and> P k' i \<and>
      (r = 0 \<and> i = unat n \<or> r = -1 \<and> i < unat n \<and> \<not> retry (k_errno S k')))
    \<or> (non_block_send S fd buffer n k = None \<and>
        (\<exists>i k'. P k' i \<and> i < unat n \<and> refuses_forever S fd (take (unat n - i) (drop i buffer)) k'))"
proof -
  from send_loop_spec [OF assms(1,2), of k 0 n] assms(3-5) consider
      ss' k' where "send_loop S fd buffer n 0 k = Some (ss', k')" "P k' (unat n - unat ss')" "unat ss' \<le> unat n"
        "ss' \<noteq> 0 \<longrightarrow> \<not> retry (k_errno S k')"
    | i k' where "send_loop S fd buffer n 0 k = None" "P k' i" "send_blocked S fd buffer (unat n) i k'" by auto
  then show ?thesis
  proof cases
    case (1 ss' k')
    show ?thesis
    proof (cases "ss' = 0")
      case True
      with 1 show ?thesis by (auto simp: non_block_send_def)
    next
      case False
      then have "0 < unat ss'" by (simp add: unat_gt_0)
      with 1 False show ?thesis by (auto simp: non_block_send_def intro!: exI [of _ "unat n - unat ss'"])
    qed
  next
    case 2
    then show ?thesis by (auto simp: non_block_send_def send_blocked_def)
  qed
qed

text \<open>
  A client that does not read: as long as its socket stays full the call does not return, and with it
  the event loop, which serves no other client.
\<close>

definition stays_full :: "'k sys \<Rightarrow> int \<Rightarrow> ('k \<Rightarrow> bool) \<Rightarrow> bool" where
  "stays_full S fd full \<longleftrightarrow> (\<forall>k bs. full k \<longrightarrow> bs \<noteq> [] \<longrightarrow>
     fst (k_send S k fd bs) = -1 \<and> k_errno S (snd (k_send S k fd bs)) = EAGAIN \<and> full (snd (k_send S k fd bs)))"

lemma stays_full_refuses:
  assumes "stays_full S fd full" "bs \<noteq> []" "full k"
  shows "refuses_forever S fd bs k"
proof -
  have step: "full k \<Longrightarrow> fst (k_send S k fd bs) = -1 \<and> k_errno S (snd (k_send S k fd bs)) = EAGAIN \<and> full (snd (k_send S k fd bs))" for k
    using assms(1,2) unfolding stays_full_def by blast
  have "full k \<Longrightarrow> send_refused S fd bs (after_sends S fd bs n k)" for n k
    by (induction n arbitrary: k) (auto simp: step send_refused_def retry_def)
  with assms(3) show ?thesis by (simp add: refuses_forever_def)
qed

text \<open>
  A client that sends but does not read stops the server: as long as its socket buffer stays full,
  \<open>drive_machine\<close> does not return, and with it the event loop, which serves no other client.
\<close>

theorem full_client_blocks_server:
  assumes "k_read S (apidata lp) fd SOCKET_READ_BUFFER_LENGTH = ((rl, buffer), k)" "0 < rl"
    and "stays_full S fd full" "full k"
  shows "drive_machine S ctl lp fd = None"
proof -
  have "send_loop S fd say 2 0 k \<noteq> Some r" for r
    using send_loop_refused [where ss = 2 and cp = 0 and buffer = say and r = r, OF _ _ stays_full_refuses [OF assms(3) _ assms(4)]]
    by (auto simp: say_def)
  then have "send_loop S fd say 2 0 k = None" by (cases "send_loop S fd say 2 0 k") auto
  then show ?thesis using assms(1,2) by (simp add: drive_machine_def non_block_send_def)
qed

section \<open>The clients of the server\<close>

text \<open>
  The documented behaviour of the system calls, \<open>opened k\<close> being the open descriptors: calls on an
  open descriptor have no effect on the table of descriptors but the one they are made for;
  \<open>accept\<close> yields a fresh descriptor; closing one also removes it from the interest list; only open
  descriptors can be registered; and \<open>epoll_wait\<close> reports registered ones, each at most once.
\<close>

definition keeps_fds :: "('k \<Rightarrow> int \<Rightarrow> u32 option) \<Rightarrow> ('k \<Rightarrow> int set) \<Rightarrow> 'k \<Rightarrow> 'k \<Rightarrow> bool" where
  "keeps_fds interest opened k k' \<longleftrightarrow> interest k' = interest k \<and> opened k' = opened k"

definition sys_ok :: "'k sys \<Rightarrow> 'k epoll_ctl \<Rightarrow> 'k epoll_wait \<Rightarrow> ('k \<Rightarrow> int \<Rightarrow> u32 option) \<Rightarrow> ('k \<Rightarrow> int set) \<Rightarrow> bool" where
  "sys_ok S ctl wait interest opened \<longleftrightarrow>
     (\<forall>k fd. fd \<in> opened k \<longrightarrow>
        keeps_fds interest opened k (snd (k_getfl S k fd))
        \<and> (\<forall>fl. keeps_fds interest opened k (snd (k_setfl S k fd fl)))
        \<and> (\<forall>n. keeps_fds interest opened k (snd (k_read S k fd n)))
        \<and> (\<forall>bs. keeps_fds interest opened k (snd (k_send S k fd bs)))
        \<and> interest (k_close S k fd) = (interest k)(fd := None) \<and> opened (k_close S k fd) = opened k - {fd}
        \<and> interest (snd (k_accept S k fd)) = interest k
        \<and> opened (snd (k_accept S k fd)) =
            (if fst (k_accept S k fd) < 0 then opened k else insert (fst (k_accept S k fd)) (opened k))
        \<and> (0 \<le> fst (k_accept S k fd) \<longrightarrow> fst (k_accept S k fd) \<notin> opened k))
     \<and> (\<forall>k op fd ev k'. ctl k op fd ev = Some k' \<longrightarrow> opened k' = opened k)
     \<and> (\<forall>k t. keeps_fds interest opened k (snd (wait k t)) \<and> (\<forall>(fd, ev) \<in> set (fst (wait k t)). interest k fd \<noteq> None)
          \<and> distinct (map fst (fst (wait k t))))"

text \<open>
  The descriptors that the loop cannot take: those past the end of its array, and those that \<open>epoll_ctl\<close> refuses to watch
  although they are open and not yet watched, as it does when a limit of the system is reached.
\<close>

definition refused :: "'k epoll_ctl \<Rightarrow> ('k \<Rightarrow> int \<Rightarrow> u32 option) \<Rightarrow> ('k \<Rightarrow> int set) \<Rightarrow> int \<Rightarrow> bool" where
  "refused ctl interest opened c \<longleftrightarrow> AE_SETSIZE \<le> c
     \<or> (\<exists>k. c \<in> opened k \<and> interest k c = None \<and> ctl k EPOLL_CTL_ADD c EPOLLIN = None)"

definition registered :: "'k aeEventLoop \<Rightarrow> int set" where
  "registered lp = {fd. valid_fd fd \<and> mask_of lp fd \<noteq> AE_NONE}"

text \<open>
  The invariant: the listening socket has \<open>accept_handler\<close>, every other registered descriptor is a client with
  \<open>drive_machine\<close>; those of \<open>base\<close>, which the program had before, and the registered ones are open; and any
  other open descriptor is one that the loop could not take.
\<close>

definition demo_inv ::
    "'k epoll_ctl \<Rightarrow> ('k \<Rightarrow> int \<Rightarrow> u32 option) \<Rightarrow> ('k \<Rightarrow> int set) \<Rightarrow> int set \<Rightarrow> int \<Rightarrow> 'k aeEventLoop \<Rightarrow> bool" where
  "demo_inv ctl interest opened base sfd lp \<longleftrightarrow>
     ae_inv interest lp \<and> timeEvents lp = [] \<and> sfd \<in> registered lp
     \<and> (\<forall>fd \<in> registered lp. mask_of lp fd = AE_READABLE
          \<and> rfileProc (events lp (nat fd)) = Some (if fd = sfd then accept_handler_addr else drive_machine_addr))
     \<and> base \<union> registered lp \<subseteq> opened (apidata lp) \<and> base \<inter> registered lp = {}
     \<and> (\<forall>c \<in> opened (apidata lp) - base - registered lp. refused ctl interest opened c)"

lemma ae_inv_kernel:
  "ae_inv interest lp \<Longrightarrow> interest k = interest (apidata lp) \<Longrightarrow> ae_inv interest (lp\<lparr>apidata := k\<rparr>)"
  by (simp add: ae_inv_def mask_of_def)

lemma mask_of_kernel [simp]: "mask_of (lp\<lparr>apidata := k\<rparr>) fd = mask_of lp fd"
  by (simp add: mask_of_def)

lemma registered_kernel [simp]: "registered (lp\<lparr>apidata := k\<rparr>) = registered lp"
  by (simp add: registered_def)

lemma demo_inv_kernel:
  assumes "demo_inv ctl interest opened base sfd lp" "keeps_fds interest opened (apidata lp) k"
  shows "demo_inv ctl interest opened base sfd (lp\<lparr>apidata := k\<rparr>)"
  using assms ae_inv_kernel [of interest lp k]
  unfolding demo_inv_def keeps_fds_def by (simp add: mask_of_def)

lemma keeps_fds_trans: "keeps_fds interest opened k k1 \<Longrightarrow> keeps_fds interest opened k1 k2 \<Longrightarrow> keeps_fds interest opened k k2"
  by (simp add: keeps_fds_def)

lemma sys_okD:
  assumes "sys_ok S ctl wait interest opened" and "fd \<in> opened k"
  shows "keeps_fds interest opened k (snd (k_getfl S k fd))" "keeps_fds interest opened k (snd (k_setfl S k fd fl))"
    "keeps_fds interest opened k (snd (k_read S k fd n))" "keeps_fds interest opened k (snd (k_send S k fd bs))"
    "interest (k_close S k fd) = (interest k)(fd := None)" "opened (k_close S k fd) = opened k - {fd}"
    "interest (snd (k_accept S k fd)) = interest k"
    "opened (snd (k_accept S k fd)) =
       (if fst (k_accept S k fd) < 0 then opened k else insert (fst (k_accept S k fd)) (opened k))"
    "0 \<le> fst (k_accept S k fd) \<Longrightarrow> fst (k_accept S k fd) \<notin> opened k"
  using assms unfolding sys_ok_def by blast+

lemma sys_ok_ctl: "sys_ok S ctl wait interest opened \<Longrightarrow> ctl k op fd ev = Some k' \<Longrightarrow> opened k' = opened k"
  unfolding sys_ok_def by blast

lemma sys_ok_wait:
  assumes "sys_ok S ctl wait interest opened"
  shows "keeps_fds interest opened k (snd (wait k t))" "\<forall>(fd, ev) \<in> set (fst (wait k t)). interest k fd \<noteq> None"
  using assms unfolding sys_ok_def by blast+

lemma flag_calls:
  assumes "sys_ok S ctl wait interest opened" "fd \<in> opened k"
  shows "keeps_fds interest opened k (snd (set_nonblocking S fd k))" "keeps_fds interest opened k (snd (set_closexec S fd k))"
proof -
  have "keeps_fds interest opened k (snd (k_setfl S (snd (k_getfl S k fd)) fd fl))" for fl
  proof (rule keeps_fds_trans)
    show g: "keeps_fds interest opened k (snd (k_getfl S k fd))" by (rule sys_okD [OF assms])
    then have "fd \<in> opened (snd (k_getfl S k fd))" using assms(2) by (simp add: keeps_fds_def)
    then show "keeps_fds interest opened (snd (k_getfl S k fd)) (snd (k_setfl S (snd (k_getfl S k fd)) fd fl))"
      by (rule sys_okD [OF assms(1)])
  qed
  with sys_okD(1) [OF assms] show "keeps_fds interest opened k (snd (set_nonblocking S fd k))"
    "keeps_fds interest opened k (snd (set_closexec S fd k))"
    by (simp_all add: set_nonblocking_def set_closexec_def Let_def split_def)
qed

lemma aeApiAddEvent_opened:
  "sys_ok S ctl wait interest opened \<Longrightarrow> aeApiAddEvent ctl lp fd msk = Some lp' \<Longrightarrow> opened (apidata lp') = opened (apidata lp)"
  by (auto simp: aeApiAddEvent_def Let_def dest: sys_ok_ctl)

lemma aeApiDelEvent_opened:
  "sys_ok S ctl wait interest opened \<Longrightarrow> opened (apidata (aeApiDelEvent ctl lp fd msk)) = opened (apidata lp)"
  by (auto simp: aeApiDelEvent_def Let_def dest: sys_ok_ctl split: option.splits)

lemma aeDeleteFileEvent_opened:
  "sys_ok S ctl wait interest opened \<Longrightarrow> aeDeleteFileEvent ctl lp fd msk = Some lp' \<Longrightarrow> opened (apidata lp') = opened (apidata lp)"
  by (auto simp: aeDeleteFileEvent_def Let_def aeApiDelEvent_opened split: if_splits)

lemma reply_keeps:
  assumes "sys_ok S ctl wait interest opened" "send_ok S" "fd \<in> opened k"
  obtains r k' where "non_block_send S fd say 2 k = Some (r, k')" "keeps_fds interest opened k k'"
    | i k' where "non_block_send S fd say 2 k = None" "keeps_fds interest opened k k'" "send_blocked S fd say 2 i k'"
proof -
  have sent: "counts_sent S fd say (\<lambda>k' n. keeps_fds interest opened k k')"
    unfolding counts_sent_def
  proof (intro allI impI)
    fix k1 n l assume k1: "keeps_fds interest opened k k1"
    with assms(3) have "fd \<in> opened k1" by (simp add: keeps_fds_def)
    from keeps_fds_trans [OF k1 sys_okD(4) [OF assms(1) this]]
    show "case k_send S k1 fd (take l (drop n say)) of (rv, k') \<Rightarrow> keeps_fds interest opened k k'"
      by (simp add: split_def)
  qed
  have start: "keeps_fds interest opened k k" "unat (0 :: u32) + unat (2 :: u32) \<le> length say" "length say < 2 ^ 32"
    by (simp_all add: keeps_fds_def say_def)
  have two: "unat (0 :: u32) + unat (2 :: u32) = 2" by simp
  from send_loop_spec [OF assms(2) sent, of k 0 2] start consider
      ss' k' where "send_loop S fd say 2 0 k = Some (ss', k')" "keeps_fds interest opened k k'"
    | i k' where "send_loop S fd say 2 0 k = None" "keeps_fds interest opened k k'" "send_blocked S fd say 2 i k'"
    unfolding two by blast
  then show ?thesis
  proof cases
    case (1 ss' k')
    then show ?thesis using that(1) by (auto simp: non_block_send_def)
  next
    case (2 i k')
    then show ?thesis using that(2) by (simp add: non_block_send_def)
  qed
qed

text \<open>A client's socket refuses the rest of the reply for ever: the only way in which the server stops serving.\<close>

definition client_blocks :: "'k sys \<Rightarrow> ('k \<Rightarrow> int set) \<Rightarrow> int \<Rightarrow> bool" where
  "client_blocks S opened sfd \<longleftrightarrow> (\<exists>k fd i. fd \<in> opened k \<and> fd \<noteq> sfd \<and> send_blocked S fd say 2 i k)"

lemma drive_machine_inv:
  assumes laws: "sys_ok S ctl wait interest opened" "epoll_ok ctl interest" "send_ok S"
    and inv: "demo_inv ctl interest opened base sfd lp" and fd: "fd \<in> registered lp" "fd \<noteq> sfd"
  obtains lp' where "drive_machine S ctl lp fd = Some lp'" "demo_inv ctl interest opened base sfd lp'" "fired lp' = fired lp"
    | "drive_machine S ctl lp fd = None" "client_blocks S opened sfd"
proof -
  have op: "fd \<in> opened (apidata lp)" using inv fd(1) by (auto simp: demo_inv_def)
  obtain rl buffer k where rd: "k_read S (apidata lp) fd SOCKET_READ_BUFFER_LENGTH = ((rl, buffer), k)"
    by (metis surj_pair)
  have keep: "keeps_fds interest opened (apidata lp) k"
    using sys_okD(3) [OF laws(1) op, of SOCKET_READ_BUFFER_LENGTH] rd by simp
  have opk: "fd \<in> opened k" using keep op by (simp add: keeps_fds_def)
  let ?lp = "lp\<lparr>apidata := k\<rparr>"
  have inv1: "demo_inv ctl interest opened base sfd ?lp" by (rule demo_inv_kernel [OF inv keep])
  show ?thesis
  proof (cases "rl = -1 \<and> (k_errno S k = EAGAIN \<or> k_errno S k = EWOULDBLOCK)")
    case True
    with rd inv1 that(1) [of ?lp] show ?thesis by (simp add: drive_machine_def)
  next
    case again: False
    show ?thesis
    proof (cases "rl = -1 \<or> rl = 0")
      case False
      show ?thesis
      proof (rule reply_keeps [OF laws(1,3) opk])
        fix r k' assume "non_block_send S fd say 2 k = Some (r, k')" "keeps_fds interest opened k k'"
        with demo_inv_kernel [OF inv1, of k'] rd again False that(1) [of "?lp\<lparr>apidata := k'\<rparr>"]
        show ?thesis by (simp add: drive_machine_def)
      next
        fix i k' assume blocked: "non_block_send S fd say 2 k = None" "keeps_fds interest opened k k'" "send_blocked S fd say 2 i k'"
        then have "client_blocks S opened sfd" using opk fd(2) by (auto simp: client_blocks_def keeps_fds_def)
        with blocked rd again False that(2) show ?thesis by (auto simp: drive_machine_def)
      qed
    next
      case True
      have valid: "valid_fd fd" and m: "mask_of ?lp fd = AE_READABLE"
        using inv1 fd(1) by (auto simp: demo_inv_def registered_def)
      have ae: "ae_inv interest ?lp" using inv1 by (simp add: demo_inv_def)
      obtain lp1 where lp1: "aeDeleteFileEvent ctl ?lp fd AE_READABLE = Some lp1" "ae_inv interest lp1"
        "mask_of lp1 fd = mask_of ?lp fd AND NOT AE_READABLE"
        "\<forall>i. valid_fd i \<longrightarrow> i \<noteq> fd \<longrightarrow> events lp1 (nat i) = events ?lp (nat i)"
        "timeEvents lp1 = timeEvents ?lp" "fired lp1 = fired ?lp"
        by (rule ae_delete [OF ae laws(2) valid, of AE_READABLE])
      have op1: "opened (apidata lp1) = opened k" using aeDeleteFileEvent_opened [OF laws(1) lp1(1)] by simp
      have none: "mask_of lp1 fd = AE_NONE" using lp1(3) m by (simp add: AE_READABLE_def AE_NONE_def)
      have mask: "mask_of lp1 i = mask_of lp i" if "valid_fd i" "i \<noteq> fd" for i
        using lp1(4) that by (simp add: mask_of_def)
      have "i \<in> registered lp1 \<longleftrightarrow> i \<in> registered lp - {fd}" for i
        using mask [of i] none by (cases "i = fd") (auto simp: registered_def)
      then have reg: "registered lp1 = registered lp - {fd}" by blast
      have "fd \<in> opened (apidata lp1)" using op1 op keep by (simp add: keeps_fds_def)
      note close = sys_okD(5,6) [OF laws(1) this]
      let ?lp2 = "lp1\<lparr>apidata := k_close S (apidata lp1) fd\<rparr>"
      have "interest (apidata lp1) fd = None" using ae_invD(1) [OF lp1(2), of fd] none by simp
      then have "interest (k_close S (apidata lp1) fd) = interest (apidata lp1)" using close(1) by auto
      then have ae2: "ae_inv interest ?lp2" by (rule ae_inv_kernel [OF lp1(2)])
      have rest: "mask_of ?lp2 i = AE_READABLE
          \<and> rfileProc (events ?lp2 (nat i)) = Some (if i = sfd then accept_handler_addr else drive_machine_addr)"
        if "i \<in> registered lp - {fd}" for i
        using that inv lp1(4) [THEN spec, of i] mask [of i] by (auto simp: demo_inv_def registered_def mask_of_def)
      have "opened (apidata ?lp2) = opened (apidata lp) - {fd}"
        using close(2) op1 keep by (simp add: keeps_fds_def)
      moreover have "fd \<notin> base" using inv fd(1) by (auto simp: demo_inv_def)
      ultimately have "demo_inv ctl interest opened base sfd ?lp2"
        using ae2 rest inv fd(2) lp1(5) unfolding demo_inv_def by (auto simp: reg)
      with rd True again lp1(1,6) that(1) [of ?lp2] show ?thesis by (auto simp: drive_machine_def)
    qed
  qed
qed

lemma accept_new_fd:
  assumes laws: "sys_ok S ctl wait interest opened" and op: "fd \<in> opened k"
    and acc: "k_accept S k fd = (c, k1)" "0 \<le> c"
  shows "c \<notin> opened k" "interest k1 = interest k" "opened k1 = insert c (opened k)"
  using sys_okD(7-9) [OF laws op] acc by simp_all

text \<open>The client's descriptor, once registered, is one more of the registered clients.\<close>

lemma accepted_registered:
  assumes sys: "sys_ok S ctl wait interest opened" and inv: "demo_inv ctl interest opened base sfd lp"
    and valid: "valid_fd c" and notreg: "c \<notin> registered lp" and none: "mask_of lp c = AE_NONE"
    and new: "c \<notin> opened (apidata lp)" "opened k2 = insert c (opened (apidata lp))"
    and lp': "ae_inv interest lp'" "mask_of lp' c = mask_of (lp\<lparr>apidata := k2\<rparr>) c OR AE_READABLE"
      "\<And>i. valid_fd i \<Longrightarrow> i \<noteq> c \<Longrightarrow> events lp' (nat i) = events (lp\<lparr>apidata := k2\<rparr>) (nat i)"
      "timeEvents lp' = timeEvents lp"
      "events lp' (nat c) = register (events (lp\<lparr>apidata := k2\<rparr>) (nat c)) AE_READABLE (Some drive_machine_addr) None"
      "aeApiAddEvent ctl (lp\<lparr>apidata := k2\<rparr>) c AE_READABLE = Some (lp\<lparr>apidata := apidata lp'\<rparr>)"
  shows "demo_inv ctl interest opened base sfd lp'"
proof -
  have readable: "AE_READABLE \<noteq> AE_NONE" by (simp add: AE_READABLE_def AE_NONE_def)
  have mc: "mask_of lp' c = AE_READABLE" using lp'(2) none by (simp add: AE_NONE_def)
  have mask: "mask_of lp' i = mask_of lp i" if "valid_fd i" "i \<noteq> c" for i
    using lp'(3) [OF that] by (simp add: mask_of_def)
  have "i \<in> registered lp' \<longleftrightarrow> i \<in> insert c (registered lp)" for i
    using mask [of i] mc valid readable by (cases "i = c") (auto simp: registered_def)
  then have reg: "registered lp' = insert c (registered lp)" by blast
  have op': "opened (apidata lp') = insert c (opened (apidata lp))"
    using aeApiAddEvent_opened [OF sys lp'(6)] new(2) by simp
  have rest: "mask_of lp' i = AE_READABLE
      \<and> rfileProc (events lp' (nat i)) = Some (if i = sfd then accept_handler_addr else drive_machine_addr)"
    if "i \<in> insert c (registered lp)" for i
  proof (cases "i = c")
    case True
    have "c \<noteq> sfd" using notreg inv by (auto simp: demo_inv_def)
    with True mc lp'(5) readable show ?thesis by (simp add: register_def AE_READABLE_def AE_WRITABLE_def Let_def)
  next
    case False
    with that inv lp'(3) [of i] mask [of i] show ?thesis by (auto simp: demo_inv_def registered_def)
  qed
  have "base \<inter> insert c (registered lp) = {}" using new(1) inv by (auto simp: demo_inv_def)
  with lp'(1,4) rest op' show ?thesis
    using inv unfolding demo_inv_def by (auto simp: reg)
qed

lemma accept_handler_inv:
  assumes laws: "sys_ok S ctl wait interest opened" "epoll_ok ctl interest"
    and inv: "demo_inv ctl interest opened base sfd lp"
  obtains lp' where "accept_handler S ctl lp sfd = Some lp'" "demo_inv ctl interest opened base sfd lp'" "fired lp' = fired lp"
proof -
  have op: "sfd \<in> opened (apidata lp)" using inv by (auto simp: demo_inv_def)
  obtain c k where acc: "k_accept S (apidata lp) sfd = (c, k)" by (cases "k_accept S (apidata lp) sfd")
  show ?thesis
  proof (cases "c < 0")
    case True
    have "keeps_fds interest opened (apidata lp) k"
      using sys_okD(7,8) [OF laws(1) op] acc True by (simp add: keeps_fds_def)
    from demo_inv_kernel [OF inv this] acc True that [of "lp\<lparr>apidata := k\<rparr>"] show ?thesis
      by (simp add: accept_handler_def)
  next
    case False
    then have c: "0 \<le> c" by simp
    note new = accept_new_fd [OF laws(1) op acc c]
    have copen: "c \<in> opened k" using new(3) by simp
    obtain r1 k1 where k1: "set_nonblocking S c k = (r1, k1)" by (cases "set_nonblocking S c k")
    have keep1: "keeps_fds interest opened k k1" using flag_calls(1) [OF laws(1) copen] k1 by simp
    then have copen1: "c \<in> opened k1" using copen by (simp add: keeps_fds_def)
    obtain r2 k2 where k2: "set_closexec S c k1 = (r2, k2)" by (cases "set_closexec S c k1")
    have keep2: "keeps_fds interest opened k k2"
      using keeps_fds_trans [OF keep1] flag_calls(2) [OF laws(1) copen1] k2 by simp
    have notreg: "c \<notin> registered lp" using new(1) inv by (auto simp: demo_inv_def)
    then have none: "mask_of lp c = AE_NONE" if "valid_fd c" using that by (simp add: registered_def)
    have ae: "ae_inv interest lp" using inv by (simp add: demo_inv_def)
    have nointerest: "interest (apidata lp) c = None" using ae_invD(1) [OF ae, of c] none by auto
    have closed: "demo_inv ctl interest opened base sfd (lp\<lparr>apidata := k_close S k' c\<rparr>)" if "keeps_fds interest opened k k'" for k'
    proof (rule demo_inv_kernel [OF inv])
      have "c \<in> opened k'" using that copen by (simp add: keeps_fds_def)
      from sys_okD(5,6) [OF laws(1) this] show "keeps_fds interest opened (apidata lp) (k_close S k' c)"
        using that new nointerest by (auto simp: keeps_fds_def)
    qed
    show ?thesis
    proof (cases "r1 = -1 \<or> r2 = -1")
      case True
      with closed [OF keep1] closed [OF keep2] acc False k1 k2
        that [of "lp\<lparr>apidata := k_close S k1 c\<rparr>"] that [of "lp\<lparr>apidata := k_close S k2 c\<rparr>"]
      show ?thesis by (cases "r1 = -1") (auto simp: accept_handler_def)
    next
      case ok: False
      let ?lp = "lp\<lparr>apidata := k2\<rparr>"
      have run: "accept_handler S ctl lp sfd = map_option snd (aeCreateFileEvent ctl ?lp c AE_READABLE (Some drive_machine_addr) None)"
        using acc False k1 k2 ok by (simp add: accept_handler_def)
      have "interest k2 = interest (apidata lp)" using keep2 new(2) by (simp add: keeps_fds_def)
      then have ae2: "ae_inv interest ?lp" by (rule ae_inv_kernel [OF ae])
      have readable: "AE_READABLE \<noteq> AE_NONE" by (simp add: AE_READABLE_def AE_NONE_def)
      have op2: "opened k2 = insert c (opened (apidata lp))" using keep2 new(3) by (simp add: keeps_fds_def)
      have lost: "demo_inv ctl interest opened base sfd ?lp" if "refused ctl interest opened c"
        using inv ae2 op2 that by (auto simp: demo_inv_def)
      show ?thesis
      proof (cases "valid_fd c")
        case False
        with c have big: "AE_SETSIZE \<le> c" by (simp add: valid_fd_def)
        then have "demo_inv ctl interest opened base sfd ?lp" by (intro lost) (simp add: refused_def)
        with run big that [of ?lp] show ?thesis by (simp add: aeCreateFileEvent_def)
      next
      case valid: True
      have maskc: "fe_mask (events lp (nat c)) = AE_NONE" using none [OF valid] valid by (simp add: mask_of_def)
      show ?thesis
      proof (rule ae_create [OF ae2 laws(2) valid readable, of "Some drive_machine_addr" None])
        assume err: "aeCreateFileEvent ctl ?lp c AE_READABLE (Some drive_machine_addr) None = Some (AE_ERR, ?lp)"
        then have "aeApiAddEvent ctl ?lp c AE_READABLE = None"
          using valid by (auto simp: aeCreateFileEvent_def valid_fd_def AE_ERR_def AE_OK_def split: option.splits)
        then have "ctl k2 EPOLL_CTL_ADD c EPOLLIN = None"
          using maskc by (simp add: aeApiAddEvent_def AE_NONE_def ee_events_def AE_READABLE_def AE_WRITABLE_def)
        moreover have "interest k2 c = None" using keep2 new(2) nointerest by (simp add: keeps_fds_def)
        moreover have "c \<in> opened k2" using op2 by simp
        ultimately have "refused ctl interest opened c" unfolding refused_def by blast
        then have "demo_inv ctl interest opened base sfd ?lp" by (rule lost)
        with run err that [of ?lp] show ?thesis by simp
      next
        fix lp'
        assume lp': "aeCreateFileEvent ctl ?lp c AE_READABLE (Some drive_machine_addr) None = Some (AE_OK, lp')" "ae_inv interest lp'"
          "mask_of lp' c = mask_of ?lp c OR AE_READABLE"
          "\<And>i. valid_fd i \<Longrightarrow> i \<noteq> c \<Longrightarrow> events lp' (nat i) = events ?lp (nat i)"
          "timeEvents lp' = timeEvents ?lp" "fired lp' = fired ?lp"
          "events lp' (nat c) = register (events ?lp (nat c)) AE_READABLE (Some drive_machine_addr) None"
          "aeApiAddEvent ctl ?lp c AE_READABLE = Some (?lp\<lparr>apidata := apidata lp'\<rparr>)"
        have "demo_inv ctl interest opened base sfd lp'"
          by (rule accepted_registered [OF laws(1) inv valid notreg none [OF valid], of k2])
            (use lp' new keep2 in \<open>simp_all add: keeps_fds_def\<close>)
        with run lp'(1,6) that [of lp'] show ?thesis by simp
      qed
      qed
    qed
  qed
qed

section \<open>Iterations\<close>

lemma readable_simps: "AE_READABLE AND msk AND AE_WRITABLE = 0" "AE_NONE AND msk AND x = 0"
proof -
  have "AE_READABLE AND msk AND AE_WRITABLE = msk AND AE_READABLE AND AE_WRITABLE" by (rule and.left_commute)
  also have "AE_READABLE AND AE_WRITABLE = 0" by (simp add: AE_READABLE_def AE_WRITABLE_def)
  finally show "AE_READABLE AND msk AND AE_WRITABLE = 0" by simp
qed (simp add: AE_NONE_def)

lemma dispatch_inv:
  assumes laws: "sys_ok S ctl wait interest opened" "epoll_ok ctl interest" "send_ok S"
    and inv: "demo_inv ctl interest opened base sfd lp" and f: "valid_fd (fst (fired lp j))"
  obtains lp' where "dispatch (demo_procs S ctl) lp j = Some lp'" "demo_inv ctl interest opened base sfd lp'" "fired lp' = fired lp"
    | "dispatch (demo_procs S ctl) lp j = None" "client_blocks S opened sfd"
proof -
  obtain fd msk where fm: "fired lp j = (fd, msk)" by (cases "fired lp j")
  with f have valid: "valid_fd fd" by simp
  have w: "mask_of lp' fd AND msk AND AE_WRITABLE = 0" if "demo_inv ctl interest opened base sfd lp'" for lp'
  proof (cases "fd \<in> registered lp'")
    case True
    with that have "mask_of lp' fd = AE_READABLE" by (simp add: demo_inv_def)
    then show ?thesis by (simp add: readable_simps)
  next
    case False
    with valid have "mask_of lp' fd = AE_NONE" by (simp add: registered_def)
    then show ?thesis by (simp add: readable_simps)
  qed
  let ?fe = "events lp (nat fd)"
  let ?handled = "if fe_mask ?fe AND msk AND AE_READABLE \<noteq> 0
      then demo_procs S ctl (rfileProc ?fe) lp fd (fe_clientData ?fe) msk else Some lp"
  have run: "(\<exists>lp'. ?handled = Some lp' \<and> demo_inv ctl interest opened base sfd lp' \<and> fired lp' = fired lp)
      \<or> ?handled = None \<and> client_blocks S opened sfd"
  proof (cases "fe_mask ?fe AND msk AND AE_READABLE = 0")
    case True
    with inv show ?thesis by simp
  next
    case False
    then have reg: "fd \<in> registered lp"
      using valid readable_simps(2) [of msk AE_READABLE] by (auto simp: registered_def mask_of_def)
    with inv have proc: "rfileProc ?fe = Some (if fd = sfd then accept_handler_addr else drive_machine_addr)"
      by (simp add: demo_inv_def)
    show ?thesis
    proof (cases "fd = sfd")
      case True
      obtain lp' where "accept_handler S ctl lp sfd = Some lp'" "demo_inv ctl interest opened base sfd lp'" "fired lp' = fired lp"
        by (rule accept_handler_inv [OF laws(1,2) inv])
      with False True proc show ?thesis by (simp add: demo_procs_def)
    next
      case client: False
      have "?handled = drive_machine S ctl lp fd"
        using False client proc by (simp add: demo_procs_def accept_handler_addr_def drive_machine_addr_def)
      then show ?thesis
        by (cases rule: drive_machine_inv [OF laws inv reg client]) simp_all
    qed
  qed
  then show ?thesis
  proof (elim disjE exE conjE)
    fix lp' assume handled: "?handled = Some lp'" "demo_inv ctl interest opened base sfd lp'" "fired lp' = fired lp"
    have "dispatch (demo_procs S ctl) lp j = Some lp'"
      using handled(1) w [OF handled(2)] valid fm unfolding dispatch_def
      by (simp add: Let_def valid_fd_def mask_of_def del: if_split split del: if_split)
    from that(1) [OF this handled(2,3)] show ?thesis .
  next
    assume handled: "?handled = None" and blocks: "client_blocks S opened sfd"
    have "dispatch (demo_procs S ctl) lp j = None"
      using handled valid fm unfolding dispatch_def
      by (simp add: Let_def valid_fd_def mask_of_def del: if_split split del: if_split)
    from that(2) [OF this blocks] show ?thesis .
  qed
qed

lemma dispatch_all_inv:
  assumes laws: "sys_ok S ctl wait interest opened" "epoll_ok ctl interest" "send_ok S"
    and "demo_inv ctl interest opened base sfd lp" "\<forall>j \<in> set js. valid_fd (fst (fired lp j))"
  shows "(\<exists>lp'. dispatch_all (demo_procs S ctl) js lp = Some lp' \<and> demo_inv ctl interest opened base sfd lp')
    \<or> dispatch_all (demo_procs S ctl) js lp = None \<and> client_blocks S opened sfd"
  using assms(4,5)
proof (induction js arbitrary: lp)
  case (Cons j js)
  have "valid_fd (fst (fired lp j))" using Cons.prems(2) by simp
  then show ?case
  proof (rule dispatch_inv [OF laws Cons.prems(1)])
    fix lp1 assume "dispatch (demo_procs S ctl) lp j = Some lp1" "demo_inv ctl interest opened base sfd lp1" "fired lp1 = fired lp"
    with Cons.IH [of lp1] Cons.prems(2) show ?case by simp
  qed simp
qed simp

lemma poll_inv:
  assumes laws: "sys_ok S ctl wait interest opened" and inv: "demo_inv ctl interest opened base sfd lp"
    and poll: "aeApiPoll wait lp tvp = (n, lp')"
  shows "demo_inv ctl interest opened base sfd lp' \<and> (\<forall>j \<in> set [0..<n]. valid_fd (fst (fired lp' j)))"
proof -
  obtain t evs k where w: "wait (apidata lp) t = (evs, k)" and r: "n = length evs"
    "lp' = lp\<lparr>apidata := k, fired := (\<lambda>j. if j < length evs then (fst (evs ! j), fired_mask (snd (evs ! j))) else fired lp j)\<rparr>"
    using poll by (auto simp: aeApiPoll_def Let_def split: prod.splits)
  have keep: "keeps_fds interest opened (apidata lp) k" and reg: "\<forall>(fd, ev) \<in> set evs. interest (apidata lp) fd \<noteq> None"
    using sys_ok_wait [OF laws, of "apidata lp" t] w by simp_all
  have ae: "ae_inv interest lp" using inv by (simp add: demo_inv_def)
  have "valid_fd (fst (evs ! j))" if "j < length evs" for j
    using reg nth_mem [OF that] ae_invD(1) [OF ae, of "fst (evs ! j)"] by (auto split: if_splits)
  moreover have "demo_inv ctl interest opened base sfd (lp\<lparr>apidata := k\<rparr>)" by (rule demo_inv_kernel [OF inv keep])
  then have "demo_inv ctl interest opened base sfd lp'"
    by (simp add: demo_inv_def r(2) ae_inv_def mask_of_def registered_def)
  ultimately show ?thesis by (simp add: r)
qed

lemma iteration_inv:
  assumes "sys_ok S ctl wait interest opened" "epoll_ok ctl interest" "send_ok S"
    and "demo_inv ctl interest opened base sfd lp"
  shows "(\<exists>n lp'. demo_iteration clk wait S ctl lp = Some (n, lp') \<and> demo_inv ctl interest opened base sfd lp')
    \<or> demo_iteration clk wait S ctl lp = None \<and> client_blocks S opened sfd"
proof -
  have te: "timeEvents lp = []" and max: "maxfd lp \<noteq> -1"
    using assms(4) ae_invD(3) [of interest lp sfd] by (auto simp: demo_inv_def registered_def valid_fd_def)
  obtain n lp1 where poll: "aeApiPoll wait lp None = (n, lp1)" by (cases "aeApiPoll wait lp None")
  have wt: "wait_time clk lp AE_ALL_EVENTS = (None, lp)"
    by (simp add: wait_time_def aeSearchNearestTimer_def te AE_ALL_EVENTS_def AE_FILE_EVENTS_def AE_TIME_EVENTS_def AE_DONT_WAIT_def)
  note unfolds = demo_iteration_def aeProcessEvents_def AE_ALL_EVENTS_def AE_FILE_EVENTS_def AE_TIME_EVENTS_def AE_DONT_WAIT_def
  have polled: "demo_inv ctl interest opened base sfd lp1" "\<forall>j \<in> set [0..<n]. valid_fd (fst (fired lp1 j))"
    using poll_inv [OF assms(1,4) poll] by blast+
  from dispatch_all_inv [OF assms(1-3) polled] show ?thesis
  proof (elim disjE exE conjE)
    fix lp2 assume lp2: "dispatch_all (demo_procs S ctl) [0..<n] lp1 = Some lp2" "demo_inv ctl interest opened base sfd lp2"
    have "processTimeEvents clk (\<lambda>_ _ _ _. None) (\<lambda>_ _ _. None) lp2 = Some (0, lp2)"
      using lp2(2) by (simp add: processTimeEvents_def demo_inv_def time_loop.simps)
    with lp2 max poll wt show ?thesis by (simp add: unfolds)
  next
    assume "dispatch_all (demo_procs S ctl) [0..<n] lp1 = None" "client_blocks S opened sfd"
    with max poll wt show ?thesis by (simp add: unfolds)
  qed
qed

text \<open>
  The start: \<open>socket\<close> yields a fresh descriptor, \<open>bind\<close> and \<open>listen\<close> change no descriptor, and a new epoll
  descriptor has an empty interest list.
\<close>

definition boot_ok :: "'k sys \<Rightarrow> ('k \<Rightarrow> 'k option) \<Rightarrow> ('k \<Rightarrow> int \<Rightarrow> u32 option) \<Rightarrow> ('k \<Rightarrow> int set) \<Rightarrow> bool" where
  "boot_ok S create interest opened \<longleftrightarrow>
     (\<forall>k. 0 \<le> fst (k_socket S k) \<longrightarrow> opened (snd (k_socket S k)) = insert (fst (k_socket S k)) (opened k))
     \<and> (\<forall>k fd p. opened (snd (k_bind S k fd p)) = opened k) \<and> (\<forall>k fd n. opened (snd (k_listen S k fd n)) = opened k)
     \<and> (\<forall>k k'. create k = Some k' \<longrightarrow> (\<forall>fd. interest k' fd = None) \<and> opened k \<subseteq> opened k')"

lemma init_server_opened:
  assumes "sys_ok S ctl wait interest opened" "boot_ok S create interest opened" "init_server S k = (Some fd, k')"
  shows "fd \<in> opened k' \<and> 0 \<le> fd \<and> fd = fst (k_socket S k)"
proof -
  let ?k1 = "snd (k_socket S k)" and ?fd = "fst (k_socket S k)"
  let ?k2 = "snd (k_bind S ?k1 ?fd server_port)"
  let ?k3 = "snd (k_listen S ?k2 ?fd LISTEN_QUEUE_LENGTH)"
  from assms(3) have fd: "fd = ?fd" "0 \<le> ?fd" "k' = snd (set_nonblocking S ?fd ?k3)"
    by (auto simp: init_server_def Let_def split_def split: if_splits)
  with assms(2) have op: "fd \<in> opened ?k3" by (simp add: boot_ok_def)
  from flag_calls(1) [OF assms(1) this] fd op show ?thesis by (simp add: keeps_fds_def)
qed

lemma demo_init_inv:
  assumes laws: "sys_ok S ctl wait interest opened" "epoll_ok ctl interest" "boot_ok S create interest opened"
    and init: "demo_init S ctl create junk junkfired k = Some (Some (sfd, lp))" and started: "sfd \<in> registered lp"
  shows "demo_inv ctl interest opened (opened (apidata lp) - {sfd}) sfd lp"
proof -
  obtain k1 where k1: "init_server S k = (Some sfd, k1)"
    using init by (auto simp: demo_init_def split: option.splits Option.bind_splits prod.splits)
  note srv = init_server_opened [OF laws(1,3) k1]
  have valid: "valid_fd sfd" using started by (simp add: registered_def)
  from init k1 obtain lp0 r where lp0: "aeCreateEventLoop (create k1) junk junkfired = Some lp0"
    and add: "aeCreateFileEvent ctl lp0 sfd AE_READABLE (Some accept_handler_addr) None = Some (r, lp)"
    by (auto simp: demo_init_def split: Option.bind_splits)
  from lp0 obtain k2 where k2: "create k1 = Some k2" and lp0': "apidata lp0 = k2" "maxfd lp0 = -1" "timeEvents lp0 = []"
    "\<And>fd. valid_fd fd \<Longrightarrow> mask_of lp0 fd = AE_NONE"
    by (auto simp: aeCreateEventLoop_def mask_of_def valid_fd_def)
  have "\<forall>fd. interest k2 fd = None" "opened k1 \<subseteq> opened k2"
    using laws(3) k2 unfolding boot_ok_def by blast+
  with srv have fresh: "interest k2 = (\<lambda>_. None)" and op2: "sfd \<in> opened k2" by auto
  have ae0: "ae_inv interest lp0" using fresh lp0' unfolding ae_inv_def by auto
  have readable: "AE_READABLE \<noteq> AE_NONE" by (simp add: AE_READABLE_def AE_NONE_def)
  show ?thesis
  proof (rule ae_create [OF ae0 laws(2) valid readable, of "Some accept_handler_addr" None])
    assume "aeCreateFileEvent ctl lp0 sfd AE_READABLE (Some accept_handler_addr) None = Some (AE_ERR, lp0)"
    with add have "lp = lp0" by simp
    with started lp0'(4) [OF valid] show ?thesis by (simp add: registered_def)
  next
    fix lp'
    assume lp': "aeCreateFileEvent ctl lp0 sfd AE_READABLE (Some accept_handler_addr) None = Some (AE_OK, lp')" "ae_inv interest lp'"
      "mask_of lp' sfd = mask_of lp0 sfd OR AE_READABLE"
      "\<And>i. valid_fd i \<Longrightarrow> i \<noteq> sfd \<Longrightarrow> events lp' (nat i) = events lp0 (nat i)"
      "timeEvents lp' = timeEvents lp0" "fired lp' = fired lp0"
      "events lp' (nat sfd) = register (events lp0 (nat sfd)) AE_READABLE (Some accept_handler_addr) None"
      "aeApiAddEvent ctl lp0 sfd AE_READABLE = Some (lp0\<lparr>apidata := apidata lp'\<rparr>)"
    have eq: "lp' = lp" using lp'(1) add by simp
    have m: "mask_of lp sfd = AE_READABLE" using lp'(3) lp0'(4) [OF valid] by (simp add: eq AE_NONE_def)
    have "i \<in> registered lp \<longleftrightarrow> i = sfd" for i
      using lp'(4) [of i] lp0'(4) [of i] m valid readable by (cases "i = sfd") (auto simp: eq registered_def mask_of_def)
    then have reg: "registered lp = {sfd}" by blast
    have op: "sfd \<in> opened (apidata lp)" using aeApiAddEvent_opened [OF laws(1) lp'(8)] op2 lp0'(1) by (simp add: eq)
    show ?thesis
      using lp'(2,5,7) m readable op lp0'(3) unfolding demo_inv_def reg
      by (auto simp: eq register_def AE_READABLE_def AE_WRITABLE_def Let_def)
  qed
qed

fun demo_run :: "clock \<Rightarrow> 'k epoll_wait \<Rightarrow> 'k sys \<Rightarrow> 'k epoll_ctl \<Rightarrow> nat \<Rightarrow> 'k aeEventLoop \<Rightarrow> 'k aeEventLoop option" where
  "demo_run clk wait S ctl 0 lp = Some lp"
| "demo_run clk wait S ctl (Suc n) lp = Option.bind (demo_iteration clk wait S ctl lp) (\<lambda>(_, lp). demo_run clk wait S ctl n lp)"

lemma demo_run_inv:
  assumes "sys_ok S ctl wait interest opened" "epoll_ok ctl interest" "send_ok S"
  shows "demo_inv ctl interest opened base sfd lp \<Longrightarrow>
    (\<exists>lp'. demo_run clk wait S ctl n lp = Some lp' \<and> demo_inv ctl interest opened base sfd lp')
    \<or> demo_run clk wait S ctl n lp = None \<and> client_blocks S opened sfd"
proof (induction n arbitrary: lp)
  case (Suc n)
  with iteration_inv [OF assms Suc.prems, of clk] show ?case by fastforce
qed simp

text \<open>
  C11. The demo server, once its listening socket is registered, whatever its clients and the kernel do: after any
  number of iterations of the event loop the descriptors that the program had before, the listening socket and the
  registered clients are open, each registered one with its handler and readable events only; so no handler runs on
  a closed descriptor and none is closed twice. Any other open descriptor is a client that could not be taken,
  because its number is past the array of the loop or \<open>epoll_ctl\<close> refused to watch it: only those are
  leaked (\<open>refused_client_leaks\<close>). And an iteration that does not return is one in which the socket of a client
  refuses the rest of the reply for ever (\<open>full_client_blocks_server\<close>).
\<close>

theorem demo_server_keeps_clients:
  assumes "sys_ok S ctl wait interest opened" "epoll_ok ctl interest" "send_ok S" "boot_ok S create interest opened"
    and "demo_init S ctl create junk junkfired k = Some (Some (sfd, lp))" "sfd \<in> registered lp"
  shows "(\<exists>lp'. demo_run clk wait S ctl n lp = Some lp' \<and> ae_inv interest lp' \<and> sfd \<in> registered lp' \<and>
      (\<forall>fd \<in> registered lp'. mask_of lp' fd = AE_READABLE \<and>
        rfileProc (events lp' (nat fd)) = Some (if fd = sfd then accept_handler_addr else drive_machine_addr)) \<and>
      (opened (apidata lp) - {sfd}) \<union> registered lp' \<subseteq> opened (apidata lp') \<and>
      (opened (apidata lp) - {sfd}) \<inter> registered lp' = {} \<and>
      (\<forall>c \<in> opened (apidata lp') - opened (apidata lp) - registered lp'. AE_SETSIZE \<le> c \<or>
        (\<exists>k. c \<in> opened k \<and> interest k c = None \<and> ctl k EPOLL_CTL_ADD c EPOLLIN = None)))
    \<or> (demo_run clk wait S ctl n lp = None \<and>
        (\<exists>k fd i. fd \<in> opened k \<and> fd \<noteq> sfd \<and> i < 2 \<and> refuses_forever S fd (take (2 - i) (drop i say)) k))"
  using demo_run_inv [OF assms(1-3) demo_init_inv [OF assms(1,2,4-6)], of clk n]
  unfolding demo_inv_def client_blocks_def send_blocked_def refused_def by blast

text \<open>
  Without room the server leaks: when a client's descriptor does not fit into the array of the loop, or
  the kernel refuses to watch it, \<open>accept_handler\<close> returns as if nothing had happened, and the client
  stays connected and open but nothing will ever serve or close it.
\<close>

theorem refused_client_leaks:
  assumes "sys_ok S ctl wait interest opened" "fd \<in> opened (apidata lp)"
    and "k_accept S (apidata lp) fd = (c, k)" "0 \<le> c"
    and "set_nonblocking S c k = (0, k1)" "set_closexec S c k1 = (0, k2)"
    and "AE_SETSIZE \<le> c \<or> aeApiAddEvent ctl (lp\<lparr>apidata := k2\<rparr>) c AE_READABLE = None"
  shows "accept_handler S ctl lp fd = Some (lp\<lparr>apidata := k2\<rparr>) \<and>
    c \<notin> opened (apidata lp) \<and> opened k2 = insert c (opened (apidata lp)) \<and> interest k2 = interest (apidata lp)"
proof -
  note new = accept_new_fd [OF assms(1-4)]
  have k1: "keeps_fds interest opened k k1" using flag_calls(1) [OF assms(1), of c k] new(3) assms(5) by simp
  then have "c \<in> opened k1" using new(3) by (simp add: keeps_fds_def)
  then have "keeps_fds interest opened k1 k2" using flag_calls(2) [OF assms(1), of c k1] assms(6) by simp
  with k1 new assms(3-7) show ?thesis
    by (auto simp: accept_handler_def aeCreateFileEvent_def keeps_fds_def)
qed

section \<open>The properties at concrete inputs\<close>

text \<open>A small kernel: a list of open descriptors and the interest list; every client hangs up at once.\<close>

type_synonym toy = "int list \<times> (int \<Rightarrow> u32 option)"

definition toy_sys :: "toy sys" where
  "toy_sys = \<lparr>k_errno = (\<lambda>k. EAGAIN), k_getfl = (\<lambda>k fd. (0, k)), k_setfl = (\<lambda>k fd fl. (0, k)),
     k_read = (\<lambda>k fd n. ((0, []), k)), k_send = (\<lambda>k fd bs. (int (length bs), k)),
     k_close = (\<lambda>(os, ws) fd. (filter (\<lambda>x. x \<noteq> fd) os, ws(fd := None))),
     k_accept = (\<lambda>(os, ws) fd. case find (\<lambda>c. c \<notin> set os) [4, 5, 6] of None \<Rightarrow> (-1, (os, ws)) | Some c \<Rightarrow> (c, (c # os, ws))),
     k_socket = (\<lambda>(os, ws). (3, (3 # os, ws))), k_bind = (\<lambda>k fd p. (0, k)), k_listen = (\<lambda>k fd n. (0, k))\<rparr>"

definition toy_ctl :: "toy epoll_ctl" where
  "toy_ctl k op fd ev = (case k of (os, ws) \<Rightarrow>
     (case op of
        EPOLL_CTL_ADD \<Rightarrow> if fd \<in> set os then Some (os, ws(fd := Some ev)) else None
      | EPOLL_CTL_MOD \<Rightarrow> if ws fd \<noteq> None then Some (os, ws(fd := Some ev)) else None
      | EPOLL_CTL_DEL \<Rightarrow> if ws fd \<noteq> None then Some (os, ws(fd := None)) else None))"

definition toy_wait :: "toy epoll_wait" where
  "toy_wait k t = (map (\<lambda>fd. (fd, EPOLLIN)) (filter (\<lambda>fd. snd k fd \<noteq> None) [3, 4, 5, 6]), k)"

definition toy_create :: "toy \<Rightarrow> toy option" where
  "toy_create k = Some (7 # fst k, \<lambda>_. None)"

lemma toy_laws:
  "sys_ok toy_sys toy_ctl toy_wait snd (\<lambda>k. set (fst k))" "epoll_ok toy_ctl snd"
  "send_ok toy_sys" "boot_ok toy_sys toy_create snd (\<lambda>k. set (fst k))"
proof -
  show "sys_ok toy_sys toy_ctl toy_wait snd (\<lambda>k. set (fst k))"
    by (auto simp: sys_ok_def toy_sys_def toy_ctl_def toy_wait_def keeps_fds_def find_Some_iff distinct_map
        split: epoll_op.splits if_splits option.splits)
  show "epoll_ok toy_ctl snd"
    by (auto simp: epoll_ok_def toy_ctl_def split: if_splits)
  show "boot_ok toy_sys toy_create snd (\<lambda>k. set (fst k))"
    by (auto simp: boot_ok_def toy_sys_def toy_create_def)
  show "send_ok toy_sys"
    by (auto simp: send_ok_def toy_sys_def)
qed

lemma toy_start:
  "\<exists>lp. demo_init toy_sys toy_ctl toy_create (\<lambda>_. blank_event) (\<lambda>_. (0, 0)) ([], \<lambda>_. None) = Some (Some (3, lp))
    \<and> 3 \<in> registered lp"
  by (simp add: demo_init_def init_server_def set_nonblocking_def toy_sys_def toy_create_def aeCreateEventLoop_def
      aeCreateFileEvent_def aeApiAddEvent_def toy_ctl_def blank_event_def AE_NONE_def AE_SETSIZE_def Let_def
      registered_def mask_of_def valid_fd_def register_def AE_READABLE_def AE_WRITABLE_def)

theorem demo_server_keeps_clients_witness:
  "\<exists>lp. demo_init toy_sys toy_ctl toy_create (\<lambda>_. blank_event) (\<lambda>_. (0, 0)) ([], \<lambda>_. None) = Some (Some (3, lp)) \<and>
    (\<exists>lp'. demo_run idle_clock toy_wait toy_sys toy_ctl 4 lp = Some lp' \<and> 3 \<in> registered lp')"
proof -
  obtain lp where lp: "demo_init toy_sys toy_ctl toy_create (\<lambda>_. blank_event) (\<lambda>_. (0, 0)) ([], \<lambda>_. None) = Some (Some (3, lp))"
      "3 \<in> registered lp"
    using toy_start by blast
  have "\<not> refuses_forever toy_sys fd (take (2 - i) (drop i say)) k" if "i < 2" for fd i k
    using that by (auto simp: refuses_forever_def send_refused_def toy_sys_def say_def intro!: exI [of _ 0])
  with demo_server_keeps_clients [OF toy_laws lp, of idle_clock 4] lp show ?thesis by blast
qed

text \<open>
  A kernel that counts the bytes it has taken and refuses every second call: it takes one byte, has no room, takes
  one byte again. And one that takes a byte and is full from then on.
\<close>

definition slow_sys :: "(nat \<times> bool) sys" where
  "slow_sys = \<lparr>k_errno = (\<lambda>k. EAGAIN), k_getfl = (\<lambda>k fd. (0, k)), k_setfl = (\<lambda>k fd fl. (0, k)),
     k_read = (\<lambda>k fd n. ((0, []), k)),
     k_send = (\<lambda>(sent, busy) fd bs. if busy then (-1, (sent, False)) else (1, (Suc sent, True))),
     k_close = (\<lambda>k fd. k), k_accept = (\<lambda>k fd. (-1, k)),
     k_socket = (\<lambda>k. (3, k)), k_bind = (\<lambda>k fd p. (0, k)), k_listen = (\<lambda>k fd n. (0, k))\<rparr>"

definition stuck_sys :: "(nat \<times> bool) sys" where
  "stuck_sys = slow_sys\<lparr>k_send := (\<lambda>(sent, full) fd bs. if full then (-1, (sent, full)) else (1, (Suc sent, True)))\<rparr>"

text \<open>The first kernel is sent the whole reply; the second stops the server after one byte.\<close>

lemma slow_kernels:
  "send_ok slow_sys" "counts_sent slow_sys 4 say (\<lambda>k n. fst k = n)"
  "send_ok stuck_sys" "counts_sent stuck_sys 4 say (\<lambda>k n. fst k = n)"
  by (auto simp: send_ok_def counts_sent_def slow_sys_def stuck_sys_def)
    (metis One_nat_def Suc_leI length_greater_0_conv of_nat_1 of_nat_le_iff)+

lemma slow_sends: "bs \<noteq> [] \<Longrightarrow> \<not> refuses_forever slow_sys 4 bs k"
  by (cases k; cases "snd k")
    (auto simp: refuses_forever_def send_refused_def slow_sys_def intro: exI [of _ 0] exI [of _ "Suc 0"])

theorem non_block_send_sends_all_witness:
  "(\<exists>r k'. non_block_send slow_sys 4 say 2 (0, True) = Some (r, k') \<and> (fst k' = 2 \<longleftrightarrow> r = 0)) \<and>
    non_block_send stuck_sys 4 say 2 (0, False) = None"
proof
  have buf: "unat (2 :: u32) \<le> length say" "length say < 2 ^ 32" by (simp_all add: say_def)
  have rest: "take (unat (2 :: u32) - i) (drop i say) \<noteq> []" if "i < unat (2 :: u32)" for i
    using that by (simp add: say_def)
  from non_block_send_sends_all [OF slow_kernels(1,2) _ buf, of "(0, True)"] slow_sends [OF rest]
  show "\<exists>r k'. non_block_send slow_sys 4 say 2 (0, True) = Some (r, k') \<and> (fst k' = 2 \<longleftrightarrow> r = 0)" by fastforce
  have "send_loop stuck_sys 4 say 2 0 (0, False) = send_loop stuck_sys 4 say 1 1 (1, True)"
    by (subst send_loop.simps) (simp add: stuck_sys_def say_def)
  also have "\<dots> = None"
  proof -
    have "stays_full stuck_sys 4 snd" by (simp add: stays_full_def stuck_sys_def slow_sys_def split_def)
    from stays_full_refuses [OF this] have "refuses_forever stuck_sys 4 (take (unat (1 :: u32)) (drop (unat (1 :: u32)) say)) (1, True)"
      by (simp add: say_def)
    from send_loop_refused [OF _ _ this] show ?thesis
      by (cases "send_loop stuck_sys 4 say 1 1 (1, True)") auto
  qed
  finally show "non_block_send stuck_sys 4 say 2 (0, False) = None" by (simp add: non_block_send_def)
qed

definition full_sys :: "toy sys" where
  "full_sys = toy_sys\<lparr>k_read := (\<lambda>k fd n. ((1, [120]), k)), k_send := (\<lambda>k fd bs. (-1, k))\<rparr>"

theorem full_client_blocks_server_witness:
  "drive_machine full_sys toy_ctl
     \<lparr>maxfd = -1, timeEventNextId = 0, events = (\<lambda>_. blank_event), fired = (\<lambda>_. (0, 0)), timeEvents = [], stop = False,
      apidata = ([4], \<lambda>_. None), beforesleep = None, ticks = 0\<rparr> 4 = None"
  by (rule full_client_blocks_server [where full = "\<lambda>_. True" and k = "([4], \<lambda>_. None)" and rl = 1 and buffer = "[120]"])
    (simp_all add: full_sys_def toy_sys_def stays_full_def)

text \<open>The kernel refuses to watch the descriptor 4.\<close>

definition tight_ctl :: "toy epoll_ctl" where
  "tight_ctl k op fd ev = (if op = EPOLL_CTL_ADD then None else toy_ctl k op fd ev)"

theorem refused_client_leaks_witness:
  "\<exists>lp lp'. accept_handler toy_sys tight_ctl lp 3 = Some lp' \<and>
    (4 :: int) \<notin> set (fst (apidata lp)) \<and> 4 \<in> set (fst (apidata lp')) \<and> snd (apidata lp') = snd (apidata lp)"
proof -
  let ?lp = "\<lparr>maxfd = -1, timeEventNextId = 0, events = (\<lambda>_. blank_event), fired = (\<lambda>_. (0, 0)), timeEvents = [], stop = False,
      apidata = ([3 :: int], \<lambda>_. None), beforesleep = None, ticks = 0\<rparr> :: toy aeEventLoop"
  have ctl: "tight_ctl k op fd ev = Some k' \<Longrightarrow> fst k' = fst k" for k op fd ev k'
    by (cases op) (auto simp: tight_ctl_def toy_ctl_def split: if_splits prod.splits)
  have laws: "sys_ok toy_sys tight_ctl toy_wait snd (\<lambda>k. set (fst k))"
    using toy_laws(1) ctl unfolding sys_ok_def by (auto dest: ctl)
  let ?k = "([4 :: int, 3], \<lambda>_. None) :: toy"
  have "3 \<in> set (fst (apidata ?lp))" "k_accept toy_sys (apidata ?lp) 3 = (4, ?k)" "set_nonblocking toy_sys 4 ?k = (0, ?k)"
    "set_closexec toy_sys 4 ?k = (0, ?k)"
    by (simp_all add: toy_sys_def set_nonblocking_def set_closexec_def)
  moreover have "aeApiAddEvent tight_ctl (?lp\<lparr>apidata := ?k\<rparr>) 4 AE_READABLE = None"
    by (simp add: aeApiAddEvent_def tight_ctl_def blank_event_def AE_NONE_def)
  ultimately have "accept_handler toy_sys tight_ctl ?lp 3 = Some (?lp\<lparr>apidata := ?k\<rparr>) \<and>
      (4 :: int) \<notin> set (fst (apidata ?lp)) \<and> set (fst ?k) = insert 4 (set (fst (apidata ?lp))) \<and> snd ?k = snd (apidata ?lp)"
    by (intro refused_client_leaks [where ?k1.0 = ?k, OF laws]) simp_all
  then show ?thesis by (intro exI [of _ ?lp] exI [of _ "?lp\<lparr>apidata := ?k\<rparr>"]) auto
qed

end
