(* ===== verification/Http_Defs.thy ===== *)
theory Http_Defs
  imports Prelude
begin

text \<open>
  The constants of \<open>httpserver/http_parser.h\<close> and \<open>httpserver/http_parser.cc\<close>: the
  enumerations (parser states, header states, host states, methods, statuses, error
  codes, flags), the character classes, and the character tables. The program is compiled
  with the header's default \<open>HTTP_PARSER_STRICT\<close> = 1, so the strict variants of the
  macros are the ones modelled.

  A \<open>char\<close> is a byte; all comparisons of the source are against ASCII letters, digits and
  punctuation, for which the signedness of \<open>char\<close> makes no difference.
\<close>

section \<open>Characters\<close>

text \<open>The character literals of the source, as bytes.\<close>

abbreviation c_NUL :: u8 where "c_NUL \<equiv> 0"
abbreviation c_TAB :: u8 where "c_TAB \<equiv> 9"
abbreviation c_LF :: u8 where "c_LF \<equiv> 10"
abbreviation c_FF :: u8 where "c_FF \<equiv> 12"
abbreviation c_CR :: u8 where "c_CR \<equiv> 13"
abbreviation c_SP :: u8 where "c_SP \<equiv> 32"
abbreviation c_excl :: u8 where "c_excl \<equiv> 33"
abbreviation c_hash :: u8 where "c_hash \<equiv> 35"
abbreviation c_dollar :: u8 where "c_dollar \<equiv> 36"
abbreviation c_percent :: u8 where "c_percent \<equiv> 37"
abbreviation c_amp :: u8 where "c_amp \<equiv> 38"
abbreviation c_quote :: u8 where "c_quote \<equiv> 39"
abbreviation c_lpar :: u8 where "c_lpar \<equiv> 40"
abbreviation c_rpar :: u8 where "c_rpar \<equiv> 41"
abbreviation c_star :: u8 where "c_star \<equiv> 42"
abbreviation c_plus :: u8 where "c_plus \<equiv> 43"
abbreviation c_comma :: u8 where "c_comma \<equiv> 44"
abbreviation c_minus :: u8 where "c_minus \<equiv> 45"
abbreviation c_dot :: u8 where "c_dot \<equiv> 46"
abbreviation c_slash :: u8 where "c_slash \<equiv> 47"
abbreviation c_0 :: u8 where "c_0 \<equiv> 48"
abbreviation c_9 :: u8 where "c_9 \<equiv> 57"
abbreviation c_colon :: u8 where "c_colon \<equiv> 58"
abbreviation c_semi :: u8 where "c_semi \<equiv> 59"
abbreviation c_eq :: u8 where "c_eq \<equiv> 61"
abbreviation c_quest :: u8 where "c_quest \<equiv> 63"
abbreviation c_at :: u8 where "c_at \<equiv> 64"
abbreviation c_A :: u8 where "c_A \<equiv> 65"
abbreviation c_B :: u8 where "c_B \<equiv> 66"
abbreviation c_C :: u8 where "c_C \<equiv> 67"
abbreviation c_D :: u8 where "c_D \<equiv> 68"
abbreviation c_E :: u8 where "c_E \<equiv> 69"
abbreviation c_F :: u8 where "c_F \<equiv> 70"
abbreviation c_G :: u8 where "c_G \<equiv> 71"
abbreviation c_H :: u8 where "c_H \<equiv> 72"
abbreviation c_I :: u8 where "c_I \<equiv> 73"
abbreviation c_L :: u8 where "c_L \<equiv> 76"
abbreviation c_M :: u8 where "c_M \<equiv> 77"
abbreviation c_N :: u8 where "c_N \<equiv> 78"
abbreviation c_O :: u8 where "c_O \<equiv> 79"
abbreviation c_P :: u8 where "c_P \<equiv> 80"
abbreviation c_R :: u8 where "c_R \<equiv> 82"
abbreviation c_S :: u8 where "c_S \<equiv> 83"
abbreviation c_T :: u8 where "c_T \<equiv> 84"
abbreviation c_U :: u8 where "c_U \<equiv> 85"
abbreviation c_Z :: u8 where "c_Z \<equiv> 90"
abbreviation c_lbr :: u8 where "c_lbr \<equiv> 91"
abbreviation c_rbr :: u8 where "c_rbr \<equiv> 93"
abbreviation c_under :: u8 where "c_under \<equiv> 95"
abbreviation c_la :: u8 where "c_la \<equiv> 97"
abbreviation c_lc :: u8 where "c_lc \<equiv> 99"
abbreviation c_le :: u8 where "c_le \<equiv> 101"
abbreviation c_lf :: u8 where "c_lf \<equiv> 102"
abbreviation c_lk :: u8 where "c_lk \<equiv> 107"
abbreviation c_ln :: u8 where "c_ln \<equiv> 110"
abbreviation c_lo :: u8 where "c_lo \<equiv> 111"
abbreviation c_lp :: u8 where "c_lp \<equiv> 112"
abbreviation c_lt :: u8 where "c_lt \<equiv> 116"
abbreviation c_lu :: u8 where "c_lu \<equiv> 117"
abbreviation c_lz :: u8 where "c_lz \<equiv> 122"
abbreviation c_tilde :: u8 where "c_tilde \<equiv> 126"
abbreviation c_DEL :: u8 where "c_DEL \<equiv> 127"

text \<open>The character classes of the source (macros).\<close>

definition LOWER :: "u8 \<Rightarrow> u8" where
  "LOWER c = c OR 0x20"

definition IS_ALPHA :: "u8 \<Rightarrow> bool" where
  "IS_ALPHA c \<longleftrightarrow> c_la \<le> LOWER c \<and> LOWER c \<le> c_lz"

definition IS_NUM :: "u8 \<Rightarrow> bool" where
  "IS_NUM c \<longleftrightarrow> c_0 \<le> c \<and> c \<le> c_9"

definition IS_ALPHANUM :: "u8 \<Rightarrow> bool" where
  "IS_ALPHANUM c \<longleftrightarrow> IS_ALPHA c \<or> IS_NUM c"

definition IS_HEX :: "u8 \<Rightarrow> bool" where
  "IS_HEX c \<longleftrightarrow> IS_NUM c \<or> (c_la \<le> LOWER c \<and> LOWER c \<le> c_lf)"

definition IS_MARK :: "u8 \<Rightarrow> bool" where
  "IS_MARK c \<longleftrightarrow> c = c_minus \<or> c = c_under \<or> c = c_dot \<or> c = c_excl \<or> c = c_tilde \<or>
     c = c_star \<or> c = c_quote \<or> c = c_lpar \<or> c = c_rpar"

definition IS_USERINFO_CHAR :: "u8 \<Rightarrow> bool" where
  "IS_USERINFO_CHAR c \<longleftrightarrow> IS_ALPHANUM c \<or> IS_MARK c \<or> c = c_percent \<or> c = c_semi \<or>
     c = c_colon \<or> c = c_amp \<or> c = c_eq \<or> c = c_plus \<or> c = c_dollar \<or> c = c_comma"

definition IS_HOST_CHAR :: "u8 \<Rightarrow> bool" where
  "IS_HOST_CHAR c \<longleftrightarrow> IS_ALPHANUM c \<or> c = c_dot \<or> c = c_minus"

definition IS_HEADER_CHAR :: "u8 \<Rightarrow> bool" where
  "IS_HEADER_CHAR ch \<longleftrightarrow> ch = c_CR \<or> ch = c_LF \<or> ch = 9 \<or> (31 < ch \<and> ch \<noteq> 127)"

text \<open>The number a string of decimal digits denotes, continuing from \<open>a\<close>.\<close>

primrec dec_from :: "nat \<Rightarrow> bytes \<Rightarrow> nat" where
    "dec_from a [] = a"
  | "dec_from a (d # ds) = dec_from (10 * a + (unat d - 48)) ds"

section \<open>Tables\<close>

text \<open>
  The tables as the source initialises them. An array with fewer initialisers than
  elements is filled with zeros, which concerns the upper halves of all three.
\<close>

definition tokens :: "u8 list" where
  "tokens = [
    0, 0, 0, 0, 0, 0, 0, 0, 0, 0, 0, 0, 0, 0, 0, 0,
    0, 0, 0, 0, 0, 0, 0, 0, 0, 0, 0, 0, 0, 0, 0, 0,
    0, 33, 0, 35, 36, 37, 38, 39, 0, 0, 42, 43, 0, 45, 46, 0,
    48, 49, 50, 51, 52, 53, 54, 55, 56, 57, 0, 0, 0, 0, 0, 0,
    0, 97, 98, 99, 100, 101, 102, 103, 104, 105, 106, 107, 108, 109, 110, 111,
    112, 113, 114, 115, 116, 117, 118, 119, 120, 121, 122, 0, 0, 0, 94, 95,
    96, 97, 98, 99, 100, 101, 102, 103, 104, 105, 106, 107, 108, 109, 110, 111,
    112, 113, 114, 115, 116, 117, 118, 119, 120, 121, 122, 0, 124, 0, 126, 0]
    @ replicate 128 0"

definition unhex :: "int list" where
  "unhex = [
    -1, -1, -1, -1, -1, -1, -1, -1, -1, -1, -1, -1, -1, -1, -1, -1,
    -1, -1, -1, -1, -1, -1, -1, -1, -1, -1, -1, -1, -1, -1, -1, -1,
    -1, -1, -1, -1, -1, -1, -1, -1, -1, -1, -1, -1, -1, -1, -1, -1,
    0, 1, 2, 3, 4, 5, 6, 7, 8, 9, -1, -1, -1, -1, -1, -1,
    -1, 10, 11, 12, 13, 14, 15, -1, -1, -1, -1, -1, -1, -1, -1, -1,
    -1, -1, -1, -1, -1, -1, -1, -1, -1, -1, -1, -1, -1, -1, -1, -1,
    -1, 10, 11, 12, 13, 14, 15, -1, -1, -1, -1, -1, -1, -1, -1, -1,
    -1, -1, -1, -1, -1, -1, -1, -1, -1, -1, -1, -1, -1, -1, -1, -1]
    @ replicate 128 0"

definition normal_url_char :: "u8 list" where
  "normal_url_char = [0, 0, 0, 0, 246, 255, 255, 127, 255, 255, 255, 255, 255, 255, 255, 127]
    @ replicate 16 0"

definition BIT_AT :: "u8 list \<Rightarrow> u8 \<Rightarrow> bool" where
  "BIT_AT a i \<longleftrightarrow> a ! (unat i div 8) AND push_bit (unat (i AND 7)) 1 \<noteq> 0"

definition TOKEN :: "u8 \<Rightarrow> u8" where
  "TOKEN c = tokens ! unat c"

abbreviation STRICT_TOKEN :: "u8 \<Rightarrow> u8" where
  "STRICT_TOKEN \<equiv> TOKEN"

definition unhex_at :: "u8 \<Rightarrow> int" where
  "unhex_at c = unhex ! unat c"

definition IS_URL_CHAR :: "u8 \<Rightarrow> bool" where
  "IS_URL_CHAR c \<longleftrightarrow> BIT_AT normal_url_char c"

section \<open>Enumerations\<close>

datatype state =
    s_dead | s_start_req_or_res | s_res_or_resp_H | s_start_res
  | s_res_H | s_res_HT | s_res_HTT | s_res_HTTP
  | s_res_http_major | s_res_http_dot | s_res_http_minor | s_res_http_end
  | s_res_first_status_code | s_res_status_code | s_res_status_start | s_res_status
  | s_res_line_almost_done | s_start_req | s_req_method | s_req_spaces_before_url
  | s_req_schema | s_req_schema_slash | s_req_schema_slash_slash | s_req_server_start
  | s_req_server | s_req_server_with_at | s_req_path | s_req_query_string_start
  | s_req_query_string | s_req_fragment_start | s_req_fragment | s_req_http_start
  | s_req_http_H | s_req_http_HT | s_req_http_HTT | s_req_http_HTTP
  | s_req_http_major | s_req_http_dot | s_req_http_minor | s_req_http_end
  | s_req_line_almost_done | s_header_field_start | s_header_field | s_header_value_discard_ws
  | s_header_value_discard_ws_almost_done | s_header_value_discard_lws | s_header_value_start | s_header_value
  | s_header_value_lws | s_header_almost_done | s_chunk_size_start | s_chunk_size
  | s_chunk_parameters | s_chunk_size_almost_done | s_headers_almost_done | s_headers_done
  | s_chunk_data | s_chunk_data_almost_done | s_chunk_data_done | s_body_identity
  | s_body_identity_eof | s_message_done

text \<open>The numbering of the enumeration, which \<open>PARSING_HEADER\<close> compares.\<close>

primrec state_num :: "state \<Rightarrow> nat" where
    "state_num s_dead = 1"
  | "state_num s_start_req_or_res = 2"
  | "state_num s_res_or_resp_H = 3"
  | "state_num s_start_res = 4"
  | "state_num s_res_H = 5"
  | "state_num s_res_HT = 6"
  | "state_num s_res_HTT = 7"
  | "state_num s_res_HTTP = 8"
  | "state_num s_res_http_major = 9"
  | "state_num s_res_http_dot = 10"
  | "state_num s_res_http_minor = 11"
  | "state_num s_res_http_end = 12"
  | "state_num s_res_first_status_code = 13"
  | "state_num s_res_status_code = 14"
  | "state_num s_res_status_start = 15"
  | "state_num s_res_status = 16"
  | "state_num s_res_line_almost_done = 17"
  | "state_num s_start_req = 18"
  | "state_num s_req_method = 19"
  | "state_num s_req_spaces_before_url = 20"
  | "state_num s_req_schema = 21"
  | "state_num s_req_schema_slash = 22"
  | "state_num s_req_schema_slash_slash = 23"
  | "state_num s_req_server_start = 24"
  | "state_num s_req_server = 25"
  | "state_num s_req_server_with_at = 26"
  | "state_num s_req_path = 27"
  | "state_num s_req_query_string_start = 28"
  | "state_num s_req_query_string = 29"
  | "state_num s_req_fragment_start = 30"
  | "state_num s_req_fragment = 31"
  | "state_num s_req_http_start = 32"
  | "state_num s_req_http_H = 33"
  | "state_num s_req_http_HT = 34"
  | "state_num s_req_http_HTT = 35"
  | "state_num s_req_http_HTTP = 36"
  | "state_num s_req_http_major = 37"
  | "state_num s_req_http_dot = 38"
  | "state_num s_req_http_minor = 39"
  | "state_num s_req_http_end = 40"
  | "state_num s_req_line_almost_done = 41"
  | "state_num s_header_field_start = 42"
  | "state_num s_header_field = 43"
  | "state_num s_header_value_discard_ws = 44"
  | "state_num s_header_value_discard_ws_almost_done = 45"
  | "state_num s_header_value_discard_lws = 46"
  | "state_num s_header_value_start = 47"
  | "state_num s_header_value = 48"
  | "state_num s_header_value_lws = 49"
  | "state_num s_header_almost_done = 50"
  | "state_num s_chunk_size_start = 51"
  | "state_num s_chunk_size = 52"
  | "state_num s_chunk_parameters = 53"
  | "state_num s_chunk_size_almost_done = 54"
  | "state_num s_headers_almost_done = 55"
  | "state_num s_headers_done = 56"
  | "state_num s_chunk_data = 57"
  | "state_num s_chunk_data_almost_done = 58"
  | "state_num s_chunk_data_done = 59"
  | "state_num s_body_identity = 60"
  | "state_num s_body_identity_eof = 61"
  | "state_num s_message_done = 62"

definition PARSING_HEADER :: "state \<Rightarrow> bool" where
  "PARSING_HEADER s \<longleftrightarrow> state_num s \<le> state_num s_headers_done"

datatype header_states =
    h_general | h_C | h_CO
  | h_CON | h_matching_connection | h_matching_proxy_connection
  | h_matching_content_length | h_matching_transfer_encoding | h_matching_upgrade
  | h_connection | h_content_length | h_transfer_encoding
  | h_upgrade | h_matching_transfer_encoding_chunked | h_matching_connection_token_start
  | h_matching_connection_keep_alive | h_matching_connection_close | h_matching_connection_upgrade
  | h_matching_connection_token | h_transfer_encoding_chunked | h_connection_keep_alive
  | h_connection_close | h_connection_upgrade

datatype http_host_state =
    s_http_host_dead | s_http_userinfo_start | s_http_userinfo
  | s_http_host_start | s_http_host_v6_start | s_http_host
  | s_http_host_v6 | s_http_host_v6_end | s_http_host_v6_zone_start
  | s_http_host_v6_zone | s_http_host_port_start | s_http_host_port

datatype http_parser_type =
    HTTP_REQUEST | HTTP_RESPONSE | HTTP_BOTH

datatype http_method =
    HTTP_DELETE | HTTP_GET | HTTP_HEAD | HTTP_POST | HTTP_PUT | HTTP_CONNECT
  | HTTP_OPTIONS | HTTP_TRACE | HTTP_COPY | HTTP_LOCK | HTTP_MKCOL | HTTP_MOVE
  | HTTP_PROPFIND | HTTP_PROPPATCH | HTTP_SEARCH | HTTP_UNLOCK | HTTP_BIND | HTTP_REBIND
  | HTTP_UNBIND | HTTP_ACL | HTTP_REPORT | HTTP_MKACTIVITY | HTTP_CHECKOUT | HTTP_MERGE
  | HTTP_MSEARCH | HTTP_NOTIFY | HTTP_SUBSCRIBE | HTTP_UNSUBSCRIBE | HTTP_PATCH | HTTP_PURGE
  | HTTP_MKCALENDAR | HTTP_LINK | HTTP_UNLINK | HTTP_SOURCE

text \<open>C strings: the bytes of the literal and its terminating zero.\<close>

definition cstr :: "string \<Rightarrow> bytes" where
  "cstr s = map of_char s @ [0]"

primrec method_string :: "http_method \<Rightarrow> string" where
    "method_string HTTP_DELETE = ''DELETE''"
  | "method_string HTTP_GET = ''GET''"
  | "method_string HTTP_HEAD = ''HEAD''"
  | "method_string HTTP_POST = ''POST''"
  | "method_string HTTP_PUT = ''PUT''"
  | "method_string HTTP_CONNECT = ''CONNECT''"
  | "method_string HTTP_OPTIONS = ''OPTIONS''"
  | "method_string HTTP_TRACE = ''TRACE''"
  | "method_string HTTP_COPY = ''COPY''"
  | "method_string HTTP_LOCK = ''LOCK''"
  | "method_string HTTP_MKCOL = ''MKCOL''"
  | "method_string HTTP_MOVE = ''MOVE''"
  | "method_string HTTP_PROPFIND = ''PROPFIND''"
  | "method_string HTTP_PROPPATCH = ''PROPPATCH''"
  | "method_string HTTP_SEARCH = ''SEARCH''"
  | "method_string HTTP_UNLOCK = ''UNLOCK''"
  | "method_string HTTP_BIND = ''BIND''"
  | "method_string HTTP_REBIND = ''REBIND''"
  | "method_string HTTP_UNBIND = ''UNBIND''"
  | "method_string HTTP_ACL = ''ACL''"
  | "method_string HTTP_REPORT = ''REPORT''"
  | "method_string HTTP_MKACTIVITY = ''MKACTIVITY''"
  | "method_string HTTP_CHECKOUT = ''CHECKOUT''"
  | "method_string HTTP_MERGE = ''MERGE''"
  | "method_string HTTP_MSEARCH = ''M-SEARCH''"
  | "method_string HTTP_NOTIFY = ''NOTIFY''"
  | "method_string HTTP_SUBSCRIBE = ''SUBSCRIBE''"
  | "method_string HTTP_UNSUBSCRIBE = ''UNSUBSCRIBE''"
  | "method_string HTTP_PATCH = ''PATCH''"
  | "method_string HTTP_PURGE = ''PURGE''"
  | "method_string HTTP_MKCALENDAR = ''MKCALENDAR''"
  | "method_string HTTP_LINK = ''LINK''"
  | "method_string HTTP_UNLINK = ''UNLINK''"
  | "method_string HTTP_SOURCE = ''SOURCE''"

datatype http_errno =
    HPE_OK | HPE_CB_message_begin | HPE_CB_url
  | HPE_CB_header_field | HPE_CB_header_value | HPE_CB_headers_complete
  | HPE_CB_body | HPE_CB_message_complete | HPE_CB_status
  | HPE_CB_chunk_header | HPE_CB_chunk_complete | HPE_INVALID_EOF_STATE
  | HPE_HEADER_OVERFLOW | HPE_CLOSED_CONNECTION | HPE_INVALID_VERSION
  | HPE_INVALID_STATUS | HPE_INVALID_METHOD | HPE_INVALID_URL
  | HPE_INVALID_HOST | HPE_INVALID_PORT | HPE_INVALID_PATH
  | HPE_INVALID_QUERY_STRING | HPE_INVALID_FRAGMENT | HPE_LF_EXPECTED
  | HPE_INVALID_HEADER_TOKEN | HPE_INVALID_CONTENT_LENGTH | HPE_UNEXPECTED_CONTENT_LENGTH
  | HPE_INVALID_CHUNK_SIZE | HPE_INVALID_CONSTANT | HPE_INVALID_INTERNAL_STATE
  | HPE_STRICT | HPE_PAUSED | HPE_UNKNOWN

primrec http_errno_description :: "http_errno \<Rightarrow> string" where
    "http_errno_description HPE_OK = ''success''"
  | "http_errno_description HPE_CB_message_begin = ''the on_message_begin callback failed''"
  | "http_errno_description HPE_CB_url = ''the on_url callback failed''"
  | "http_errno_description HPE_CB_header_field = ''the on_header_field callback failed''"
  | "http_errno_description HPE_CB_header_value = ''the on_header_value callback failed''"
  | "http_errno_description HPE_CB_headers_complete = ''the on_headers_complete callback failed''"
  | "http_errno_description HPE_CB_body = ''the on_body callback failed''"
  | "http_errno_description HPE_CB_message_complete = ''the on_message_complete callback failed''"
  | "http_errno_description HPE_CB_status = ''the on_status callback failed''"
  | "http_errno_description HPE_CB_chunk_header = ''the on_chunk_header callback failed''"
  | "http_errno_description HPE_CB_chunk_complete = ''the on_chunk_complete callback failed''"
  | "http_errno_description HPE_INVALID_EOF_STATE = ''stream ended at an unexpected time''"
  | "http_errno_description HPE_HEADER_OVERFLOW = ''too many header bytes seen; overflow detected''"
  | "http_errno_description HPE_CLOSED_CONNECTION = ''data received after completed connection: close message''"
  | "http_errno_description HPE_INVALID_VERSION = ''invalid HTTP version''"
  | "http_errno_description HPE_INVALID_STATUS = ''invalid HTTP status code''"
  | "http_errno_description HPE_INVALID_METHOD = ''invalid HTTP method''"
  | "http_errno_description HPE_INVALID_URL = ''invalid URL''"
  | "http_errno_description HPE_INVALID_HOST = ''invalid host''"
  | "http_errno_description HPE_INVALID_PORT = ''invalid port''"
  | "http_errno_description HPE_INVALID_PATH = ''invalid path''"
  | "http_errno_description HPE_INVALID_QUERY_STRING = ''invalid query string''"
  | "http_errno_description HPE_INVALID_FRAGMENT = ''invalid fragment''"
  | "http_errno_description HPE_LF_EXPECTED = ''LF character expected''"
  | "http_errno_description HPE_INVALID_HEADER_TOKEN = ''invalid character in header''"
  | "http_errno_description HPE_INVALID_CONTENT_LENGTH = ''invalid character in content-length header''"
  | "http_errno_description HPE_UNEXPECTED_CONTENT_LENGTH = ''unexpected content-length header''"
  | "http_errno_description HPE_INVALID_CHUNK_SIZE = ''invalid character in chunk size header''"
  | "http_errno_description HPE_INVALID_CONSTANT = ''invalid constant string''"
  | "http_errno_description HPE_INVALID_INTERNAL_STATE = ''encountered unexpected internal state''"
  | "http_errno_description HPE_STRICT = ''strict mode assertion failed''"
  | "http_errno_description HPE_PAUSED = ''parser is paused''"
  | "http_errno_description HPE_UNKNOWN = ''an unknown error occurred''"

primrec http_errno_name :: "http_errno \<Rightarrow> string" where
    "http_errno_name HPE_OK = ''HPE_OK''"
  | "http_errno_name HPE_CB_message_begin = ''HPE_CB_message_begin''"
  | "http_errno_name HPE_CB_url = ''HPE_CB_url''"
  | "http_errno_name HPE_CB_header_field = ''HPE_CB_header_field''"
  | "http_errno_name HPE_CB_header_value = ''HPE_CB_header_value''"
  | "http_errno_name HPE_CB_headers_complete = ''HPE_CB_headers_complete''"
  | "http_errno_name HPE_CB_body = ''HPE_CB_body''"
  | "http_errno_name HPE_CB_message_complete = ''HPE_CB_message_complete''"
  | "http_errno_name HPE_CB_status = ''HPE_CB_status''"
  | "http_errno_name HPE_CB_chunk_header = ''HPE_CB_chunk_header''"
  | "http_errno_name HPE_CB_chunk_complete = ''HPE_CB_chunk_complete''"
  | "http_errno_name HPE_INVALID_EOF_STATE = ''HPE_INVALID_EOF_STATE''"
  | "http_errno_name HPE_HEADER_OVERFLOW = ''HPE_HEADER_OVERFLOW''"
  | "http_errno_name HPE_CLOSED_CONNECTION = ''HPE_CLOSED_CONNECTION''"
  | "http_errno_name HPE_INVALID_VERSION = ''HPE_INVALID_VERSION''"
  | "http_errno_name HPE_INVALID_STATUS = ''HPE_INVALID_STATUS''"
  | "http_errno_name HPE_INVALID_METHOD = ''HPE_INVALID_METHOD''"
  | "http_errno_name HPE_INVALID_URL = ''HPE_INVALID_URL''"
  | "http_errno_name HPE_INVALID_HOST = ''HPE_INVALID_HOST''"
  | "http_errno_name HPE_INVALID_PORT = ''HPE_INVALID_PORT''"
  | "http_errno_name HPE_INVALID_PATH = ''HPE_INVALID_PATH''"
  | "http_errno_name HPE_INVALID_QUERY_STRING = ''HPE_INVALID_QUERY_STRING''"
  | "http_errno_name HPE_INVALID_FRAGMENT = ''HPE_INVALID_FRAGMENT''"
  | "http_errno_name HPE_LF_EXPECTED = ''HPE_LF_EXPECTED''"
  | "http_errno_name HPE_INVALID_HEADER_TOKEN = ''HPE_INVALID_HEADER_TOKEN''"
  | "http_errno_name HPE_INVALID_CONTENT_LENGTH = ''HPE_INVALID_CONTENT_LENGTH''"
  | "http_errno_name HPE_UNEXPECTED_CONTENT_LENGTH = ''HPE_UNEXPECTED_CONTENT_LENGTH''"
  | "http_errno_name HPE_INVALID_CHUNK_SIZE = ''HPE_INVALID_CHUNK_SIZE''"
  | "http_errno_name HPE_INVALID_CONSTANT = ''HPE_INVALID_CONSTANT''"
  | "http_errno_name HPE_INVALID_INTERNAL_STATE = ''HPE_INVALID_INTERNAL_STATE''"
  | "http_errno_name HPE_STRICT = ''HPE_STRICT''"
  | "http_errno_name HPE_PAUSED = ''HPE_PAUSED''"
  | "http_errno_name HPE_UNKNOWN = ''HPE_UNKNOWN''"

text \<open>Statuses are numbered from 0 by the enumeration; the table gives code and name.\<close>

definition status_map :: "(nat \<times> string) list" where
  "status_map = [
    (100, ''Continue''),
    (101, ''Switching Protocols''),
    (102, ''Processing''),
    (200, ''OK''),
    (201, ''Created''),
    (202, ''Accepted''),
    (203, ''Non-Authoritative Information''),
    (204, ''No Content''),
    (205, ''Reset Content''),
    (206, ''Partial Content''),
    (207, ''Multi-Status''),
    (208, ''Already Reported''),
    (226, ''IM Used''),
    (300, ''Multiple Choices''),
    (301, ''Moved Permanently''),
    (302, ''Found''),
    (303, ''See Other''),
    (304, ''Not Modified''),
    (305, ''Use Proxy''),
    (307, ''Temporary Redirect''),
    (308, ''Permanent Redirect''),
    (400, ''Bad Request''),
    (401, ''Unauthorized''),
    (402, ''Payment Required''),
    (403, ''Forbidden''),
    (404, ''Not Found''),
    (405, ''Method Not Allowed''),
    (406, ''Not Acceptable''),
    (407, ''Proxy Authentication Required''),
    (408, ''Request Timeout''),
    (409, ''Conflict''),
    (410, ''Gone''),
    (411, ''Length Required''),
    (412, ''Precondition Failed''),
    (413, ''Payload Too Large''),
    (414, ''URI Too Long''),
    (415, ''Unsupported Media Type''),
    (416, ''Range Not Satisfiable''),
    (417, ''Expectation Failed''),
    (421, ''Misdirected Request''),
    (422, ''Unprocessable Entity''),
    (423, ''Locked''),
    (424, ''Failed Dependency''),
    (426, ''Upgrade Required''),
    (428, ''Precondition Required''),
    (429, ''Too Many Requests''),
    (431, ''Request Header Fields Too Large''),
    (451, ''Unavailable For Legal Reasons''),
    (500, ''Internal Server Error''),
    (501, ''Not Implemented''),
    (502, ''Bad Gateway''),
    (503, ''Service Unavailable''),
    (504, ''Gateway Timeout''),
    (505, ''HTTP Version Not Supported''),
    (506, ''Variant Also Negotiates''),
    (507, ''Insufficient Storage''),
    (508, ''Loop Detected''),
    (510, ''Not Extended''),
    (511, ''Network Authentication Required'')]"

definition http_status_name :: "nat \<Rightarrow> string" where
  "http_status_name s = (if s < length status_map then snd (status_map ! s) else ''<unknown>'')"

definition http_status_code :: "nat \<Rightarrow> nat" where
  "http_status_code s = (if s < length status_map then fst (status_map ! s) else 0)"

text \<open>Bits of the \<open>flags\<close> field.\<close>

definition F_CHUNKED :: u8 where "F_CHUNKED = push_bit 0 1"
definition F_CONNECTION_KEEP_ALIVE :: u8 where "F_CONNECTION_KEEP_ALIVE = push_bit 1 1"
definition F_CONNECTION_CLOSE :: u8 where "F_CONNECTION_CLOSE = push_bit 2 1"
definition F_CONNECTION_UPGRADE :: u8 where "F_CONNECTION_UPGRADE = push_bit 3 1"
definition F_TRAILING :: u8 where "F_TRAILING = push_bit 4 1"
definition F_UPGRADE :: u8 where "F_UPGRADE = push_bit 5 1"
definition F_SKIPBODY :: u8 where "F_SKIPBODY = push_bit 6 1"
definition F_CONTENTLENGTH :: u8 where "F_CONTENTLENGTH = push_bit 7 1"

definition flag :: "u8 \<Rightarrow> u8 \<Rightarrow> bool" where
  "flag fs f \<longleftrightarrow> fs AND f \<noteq> 0"

lemmas flag_consts = F_CHUNKED_def F_CONNECTION_KEEP_ALIVE_def F_CONNECTION_CLOSE_def
  F_CONNECTION_UPGRADE_def F_TRAILING_def F_UPGRADE_def F_SKIPBODY_def F_CONTENTLENGTH_def

definition HTTP_MAX_HEADER_SIZE :: "'a::len word" where "HTTP_MAX_HEADER_SIZE = 80 * 1024"

definition http_parser_version :: u64 where
  "http_parser_version = 2 * 0x10000 OR 8 * 0x100 OR 0 * 0x1"

end
