(* ===== verification/Http_Url.thy ===== *)
theory Http_Url
  imports Http_Defs
begin

text \<open>
  The URL parser of \<open>httpserver/http_parser.cc\<close>: the byte-for-byte automaton
  \<open>parse_url_char\<close> (shared with the message parser), the host automaton, and
  \<open>http_parser_parse_url\<close>, which turns their transitions into the offsets and lengths of
  the URL's fields. Offsets and lengths are 16-bit words, as in the struct.

  Main results: on success every reported field lies inside the buffer and consists of
  characters its field allows, a schema comes with a host, and the port is the value of
  its digits; no assertion of the code fails; and for a path of 65536 bytes or more the
  16-bit length wraps.
\<close>

section \<open>The URL automaton\<close>

definition parse_url_char :: "state \<Rightarrow> u8 \<Rightarrow> state" where
  "parse_url_char s ch =
    (let server = (if ch = c_slash then s_req_path
                   else if ch = c_quest then s_req_query_string_start
                   else if ch = c_at then s_req_server_with_at
                   else if IS_USERINFO_CHAR ch \<or> ch = c_lbr \<or> ch = c_rbr then s_req_server
                   else s_dead);
         query = (if IS_URL_CHAR ch then s_req_query_string
                  else if ch = c_quest then s_req_query_string
                  else if ch = c_hash then s_req_fragment_start
                  else s_dead)
     in if ch = c_SP \<or> ch = c_CR \<or> ch = c_LF then s_dead
        else if ch = c_TAB \<or> ch = c_FF then s_dead
        else (case s of
            s_req_spaces_before_url \<Rightarrow>
              if ch = c_slash \<or> ch = c_star then s_req_path
              else if IS_ALPHA ch then s_req_schema
              else s_dead
          | s_req_schema \<Rightarrow>
              if IS_ALPHA ch then s
              else if ch = c_colon then s_req_schema_slash
              else s_dead
          | s_req_schema_slash \<Rightarrow> if ch = c_slash then s_req_schema_slash_slash else s_dead
          | s_req_schema_slash_slash \<Rightarrow> if ch = c_slash then s_req_server_start else s_dead
          | s_req_server_with_at \<Rightarrow> if ch = c_at then s_dead else server
          | s_req_server_start \<Rightarrow> server
          | s_req_server \<Rightarrow> server
          | s_req_path \<Rightarrow>
              if IS_URL_CHAR ch then s
              else if ch = c_quest then s_req_query_string_start
              else if ch = c_hash then s_req_fragment_start
              else s_dead
          | s_req_query_string_start \<Rightarrow> query
          | s_req_query_string \<Rightarrow> query
          | s_req_fragment_start \<Rightarrow>
              if IS_URL_CHAR ch then s_req_fragment
              else if ch = c_quest then s_req_fragment
              else if ch = c_hash then s
              else s_dead
          | s_req_fragment \<Rightarrow>
              if IS_URL_CHAR ch then s
              else if ch = c_quest \<or> ch = c_hash then s
              else s_dead
          | _ \<Rightarrow> s_dead))"

section \<open>The host automaton\<close>

definition http_parse_host_char :: "http_host_state \<Rightarrow> u8 \<Rightarrow> http_host_state" where
  "http_parse_host_char s ch =
    (let v6_end = (if ch = c_colon then s_http_host_port_start else s_http_host_dead);
         v6_start = (if IS_HEX ch \<or> ch = c_colon \<or> ch = c_dot then s_http_host_v6
                     else if s = s_http_host_v6 \<and> ch = c_percent then s_http_host_v6_zone_start
                     else s_http_host_dead);
         zone_start = (if IS_ALPHANUM ch \<or> ch = c_percent \<or> ch = c_dot \<or> ch = c_minus \<or>
                          ch = c_under \<or> ch = c_tilde
                       then s_http_host_v6_zone else s_http_host_dead);
         userinfo = (if ch = c_at then s_http_host_start
                     else if IS_USERINFO_CHAR ch then s_http_userinfo
                     else s_http_host_dead);
         port = (if IS_NUM ch then s_http_host_port else s_http_host_dead)
     in case s of
         s_http_userinfo \<Rightarrow> userinfo
       | s_http_userinfo_start \<Rightarrow> userinfo
       | s_http_host_start \<Rightarrow>
           if ch = c_lbr then s_http_host_v6_start
           else if IS_HOST_CHAR ch then s_http_host
           else s_http_host_dead
       | s_http_host \<Rightarrow> if IS_HOST_CHAR ch then s_http_host else v6_end
       | s_http_host_v6_end \<Rightarrow> v6_end
       | s_http_host_v6 \<Rightarrow> if ch = c_rbr then s_http_host_v6_end else v6_start
       | s_http_host_v6_start \<Rightarrow> v6_start
       | s_http_host_v6_zone \<Rightarrow> if ch = c_rbr then s_http_host_v6_end else zone_start
       | s_http_host_v6_zone_start \<Rightarrow> zone_start
       | s_http_host_port \<Rightarrow> port
       | s_http_host_port_start \<Rightarrow> port
       | _ \<Rightarrow> s_http_host_dead)"

section \<open>Fields\<close>

datatype url_fields = UF_SCHEMA | UF_HOST | UF_PORT | UF_PATH | UF_QUERY | UF_FRAGMENT | UF_USERINFO

primrec uf_num :: "url_fields \<Rightarrow> nat" where
    "uf_num UF_SCHEMA = 0"
  | "uf_num UF_HOST = 1"
  | "uf_num UF_PORT = 2"
  | "uf_num UF_PATH = 3"
  | "uf_num UF_QUERY = 4"
  | "uf_num UF_FRAGMENT = 5"
  | "uf_num UF_USERINFO = 6"

text \<open>\<open>field_data\<close> is an array of \<open>UF_MAX\<close> pairs, indexed only by the seven fields.\<close>

record http_parser_url =
  field_set :: u16
  port :: u16
  off :: "url_fields \<Rightarrow> u16"
  len :: "url_fields \<Rightarrow> u16"

definition http_parser_url_init :: http_parser_url where
  "http_parser_url_init = \<lparr> field_set = 0, port = 0, off = (\<lambda>_. 0), len = (\<lambda>_. 0) \<rparr>"

definition uf_mask :: "url_fields \<Rightarrow> u16" where
  "uf_mask uf = push_bit (uf_num uf) 1"

definition has_field :: "http_parser_url \<Rightarrow> url_fields \<Rightarrow> bool" where
  "has_field u uf \<longleftrightarrow> field_set u AND uf_mask uf \<noteq> 0"

definition add_field :: "url_fields \<Rightarrow> http_parser_url \<Rightarrow> http_parser_url" where
  "add_field uf u = u\<lparr>field_set := field_set u OR uf_mask uf\<rparr>"

definition set_off :: "url_fields \<Rightarrow> nat \<Rightarrow> http_parser_url \<Rightarrow> http_parser_url" where
  "set_off uf n u = u\<lparr>off := (off u)(uf := of_nat n)\<rparr>"

definition set_len :: "url_fields \<Rightarrow> u16 \<Rightarrow> http_parser_url \<Rightarrow> http_parser_url" where
  "set_len uf w u = u\<lparr>len := (len u)(uf := w)\<rparr>"

definition inc_len :: "url_fields \<Rightarrow> http_parser_url \<Rightarrow> http_parser_url" where
  "inc_len uf u = set_len uf (len u uf + 1) u"

section \<open>Splitting the host\<close>

text \<open>
  The body of the loop of \<open>http_parse_host\<close> after the state has moved from \<open>s\<close> to
  \<open>new_s\<close> on the byte at offset \<open>p\<close>.
\<close>

definition host_step :: "http_host_state \<Rightarrow> http_host_state \<Rightarrow> nat \<Rightarrow> http_parser_url \<Rightarrow> http_parser_url" where
  "host_step s new_s p u =
    (let start = (\<lambda>uf u. add_field uf (set_len uf 0 (set_off uf p u))) in
     case new_s of
       s_http_host \<Rightarrow> inc_len UF_HOST (if s \<noteq> s_http_host then set_off UF_HOST p u else u)
     | s_http_host_v6 \<Rightarrow> inc_len UF_HOST (if s \<noteq> s_http_host_v6 then set_off UF_HOST p u else u)
     | s_http_host_v6_zone_start \<Rightarrow> inc_len UF_HOST u
     | s_http_host_v6_zone \<Rightarrow> inc_len UF_HOST u
     | s_http_host_port \<Rightarrow> inc_len UF_PORT (if s \<noteq> s_http_host_port then start UF_PORT u else u)
     | s_http_userinfo \<Rightarrow> inc_len UF_USERINFO (if s \<noteq> s_http_userinfo then start UF_USERINFO u else u)
     | _ \<Rightarrow> u)"

fun host_loop :: "bytes \<Rightarrow> nat \<Rightarrow> http_host_state \<Rightarrow> http_parser_url \<Rightarrow>
    (http_host_state \<times> http_parser_url) + http_parser_url" where
  "host_loop [] p s u = Inl (s, u)"
| "host_loop (ch # rest) p s u =
    (let new_s = http_parse_host_char s ch in
     if new_s = s_http_host_dead then Inr u
     else host_loop rest (p + 1) new_s (host_step s new_s p u))"

definition bad_end :: "http_host_state \<Rightarrow> bool" where
  "bad_end s \<longleftrightarrow> s \<in> {s_http_host_start, s_http_host_v6_start, s_http_host_v6,
     s_http_host_v6_zone_start, s_http_host_v6_zone, s_http_host_port_start,
     s_http_userinfo, s_http_userinfo_start}"

text \<open>
  The result of the two C functions is the returned \<open>int\<close> with the struct as it was left,
  \<open>Failed_assert\<close> when an assertion of the code fails, and \<open>Read_outside\<close> when a byte
  outside the buffer would be read.
\<close>

datatype url_result = Returned nat http_parser_url | Failed_assert | Read_outside

definition http_parse_host :: "bytes \<Rightarrow> http_parser_url \<Rightarrow> bool \<Rightarrow> url_result" where
  "http_parse_host buf u found_at =
    (let start = unat (off u UF_HOST); buflen = start + unat (len u UF_HOST) in
     if \<not> has_field u UF_HOST then Failed_assert
     else if length buf < buflen then Read_outside
     else case host_loop (drop start (take buflen buf)) start
                 (if found_at then s_http_userinfo_start else s_http_host_start) (set_len UF_HOST 0 u) of
       Inr u' \<Rightarrow> Returned 1 u'
     | Inl (s, u') \<Rightarrow> Returned (if bad_end s then 1 else 0) u')"

section \<open>Splitting the URL\<close>

text \<open>
  The loop over the buffer. The switch on the new state says which field the byte belongs
  to; \<open>None\<close> for the delimiters. \<open>old_uf\<close> starts as \<open>UF_MAX\<close>, here \<open>None\<close>.
\<close>

datatype url_kind = Dead | Delimiter | In_field url_fields | Unexpected

definition url_class :: "state \<Rightarrow> url_kind" where
  "url_class s = (case s of
      s_dead \<Rightarrow> Dead
    | s_req_schema_slash \<Rightarrow> Delimiter
    | s_req_schema_slash_slash \<Rightarrow> Delimiter
    | s_req_server_start \<Rightarrow> Delimiter
    | s_req_query_string_start \<Rightarrow> Delimiter
    | s_req_fragment_start \<Rightarrow> Delimiter
    | s_req_schema \<Rightarrow> In_field UF_SCHEMA
    | s_req_server_with_at \<Rightarrow> In_field UF_HOST
    | s_req_server \<Rightarrow> In_field UF_HOST
    | s_req_path \<Rightarrow> In_field UF_PATH
    | s_req_query_string \<Rightarrow> In_field UF_QUERY
    | s_req_fragment \<Rightarrow> In_field UF_FRAGMENT
    | _ \<Rightarrow> Unexpected)"

datatype url_scan = Scan_dead http_parser_url | Scan_assert | Scan_end bool http_parser_url

fun url_loop :: "bytes \<Rightarrow> nat \<Rightarrow> state \<Rightarrow> url_fields option \<Rightarrow> bool \<Rightarrow> http_parser_url \<Rightarrow> url_scan" where
  "url_loop [] p s old_uf found_at u = Scan_end found_at u"
| "url_loop (ch # rest) p s old_uf found_at u =
    (let s = parse_url_char s ch in
     case url_class s of
       Dead \<Rightarrow> Scan_dead u
     | Delimiter \<Rightarrow> url_loop rest (p + 1) s old_uf found_at u
     | Unexpected \<Rightarrow> Scan_assert
     | In_field uf \<Rightarrow>
         (let found_at = (found_at \<or> s = s_req_server_with_at) in
          if old_uf = Some uf then url_loop rest (p + 1) s old_uf found_at (inc_len uf u)
          else url_loop rest (p + 1) s (Some uf) found_at
                 (add_field uf (set_len uf 1 (set_off uf p u)))))"

section \<open>The port\<close>

text \<open>\<open>*p - '0'\<close> is computed in \<open>int\<close> from a signed \<open>char\<close> and converted to \<open>unsigned long\<close>.\<close>

fun port_loop :: "bytes \<Rightarrow> u64 \<Rightarrow> u64 option" where
  "port_loop [] v = Some v"
| "port_loop (ch # rest) v =
    (let v = v * 10 + (scast ch - 48) in if v > 0xffff then None else port_loop rest v)"

definition url_port :: "bytes \<Rightarrow> http_parser_url \<Rightarrow> url_result" where
  "url_port buf u =
    (let o' = unat (off u UF_PORT); l = unat (len u UF_PORT) in
     if \<not> o' + l \<le> length buf then Failed_assert
     else case port_loop (take l (drop o' buf)) 0 of
       None \<Rightarrow> Returned 1 u
     | Some v \<Rightarrow> Returned 0 (u\<lparr>port := ucast v\<rparr>))"

definition http_parser_parse_url :: "bytes \<Rightarrow> bool \<Rightarrow> http_parser_url \<Rightarrow> url_result" where
  "http_parser_parse_url buf is_connect u0 =
    (let u0 = u0\<lparr>port := 0, field_set := 0\<rparr>;
         s0 = (if is_connect then s_req_server_start else s_req_spaces_before_url) in
     case url_loop buf 0 s0 None False u0 of
       Scan_dead u \<Rightarrow> Returned 1 u
     | Scan_assert \<Rightarrow> Failed_assert
     | Scan_end found_at u \<Rightarrow>
         if has_field u UF_SCHEMA \<and> \<not> has_field u UF_HOST then Returned 1 u
         else
           (case (if has_field u UF_HOST then http_parse_host buf u found_at else Returned 0 u) of
              Returned r u \<Rightarrow>
                if r \<noteq> 0 then Returned 1 u
                else if is_connect \<and> field_set u \<noteq> (uf_mask UF_HOST OR uf_mask UF_PORT) then Returned 1 u
                else if has_field u UF_PORT then url_port buf u
                else Returned 0 u
            | x \<Rightarrow> x))"


section \<open>Field bookkeeping\<close>

lemma has_field_bit: "has_field u uf \<longleftrightarrow> bit (field_set u) (uf_num uf)"
  by (simp add: has_field_def uf_mask_def push_bit_of_1 and_exp_eq_0_iff_not_bit)

lemma uf_num_inj [simp]: "uf_num a = uf_num b \<longleftrightarrow> a = b"
  by (cases a; cases b) simp_all

lemma uf_num_lt: "uf_num uf < 7"
  by (cases uf) simp_all

lemma has_field_add [simp]: "has_field (add_field a u) b \<longleftrightarrow> has_field u b \<or> a = b"
  unfolding has_field_bit add_field_def uf_mask_def push_bit_of_1
  using uf_num_lt [of b] by (auto simp: bit_or_iff bit_exp_iff)

lemma has_field_set_off [simp]: "has_field (set_off a n u) b = has_field u b"
  by (simp add: has_field_def set_off_def)

lemma has_field_set_len [simp]: "has_field (set_len a w u) b = has_field u b"
  by (simp add: has_field_def set_len_def)

lemma has_field_inc_len [simp]: "has_field (inc_len a u) b = has_field u b"
  by (simp add: inc_len_def)

lemma has_field_zero [simp]: "has_field (u\<lparr>port := x, field_set := 0\<rparr>) uf = False"
  by (simp add: has_field_def)

lemma has_field_port [simp]: "has_field (u\<lparr>port := x\<rparr>) uf = has_field u uf"
  by (simp add: has_field_def)

lemma off_simps [simp]:
  "off (set_off a n u) b = (if a = b then of_nat n else off u b)"
  "off (set_len a w u) = off u" "off (inc_len a u) = off u" "off (add_field a u) = off u"
  by (auto simp: set_off_def set_len_def inc_len_def add_field_def)

lemma len_simps [simp]:
  "len (set_len a w u) b = (if a = b then w else len u b)"
  "len (inc_len a u) b = (if a = b then len u b + 1 else len u b)"
  "len (set_off a n u) = len u" "len (add_field a u) = len u"
  by (auto simp: set_off_def set_len_def inc_len_def add_field_def)

text \<open>
  \<open>span P buf u uf e\<close>: the field is a non-empty run of characters satisfying \<open>P\<close> that
  ends just before offset \<open>e\<close>.
\<close>

definition span :: "(u8 \<Rightarrow> bool) \<Rightarrow> bytes \<Rightarrow> http_parser_url \<Rightarrow> url_fields \<Rightarrow> nat \<Rightarrow> bool" where
  "span P buf u uf e \<longleftrightarrow> 0 < unat (len u uf) \<and> unat (off u uf) + unat (len u uf) = e \<and>
     (\<forall>i. unat (off u uf) \<le> i \<and> i < e \<longrightarrow> P (buf ! i))"

lemma span_cong:
  "off u uf = off u' uf \<Longrightarrow> len u uf = len u' uf \<Longrightarrow> span P buf u uf e = span P buf u' uf e"
  by (simp add: span_def)

lemma unat_of_nat16: "n < 65536 \<Longrightarrow> unat (of_nat n :: u16) = n"
  by (simp add: unat_of_nat)

lemma unat_plus_one16: "unat (w :: u16) + 1 < 65536 \<Longrightarrow> unat (w + 1) = unat w + 1"
  by (simp add: unat_word_ariths)

lemma span_start:
  assumes "off u uf = of_nat p" "len u uf = 1" "p < 65536" "P (buf ! p)"
  shows "span P buf u uf (p + 1)"
proof -
  have "P (buf ! i)" if "p \<le> i" "i < p + 1" for i
  proof -
    from that have "i = p" by simp
    with assms(4) show ?thesis by simp
  qed
  with assms(1-3) show ?thesis by (auto simp: span_def unat_of_nat16)
qed

lemma span_extend:
  assumes "span P buf u uf p" "P (buf ! p)" "p + 1 < 65536"
    and "off u' uf = off u uf" "len u' uf = len u uf + 1"
  shows "span P buf u' uf (p + 1)"
proof -
  have l: "unat (len u' uf) = unat (len u uf) + 1"
    using assms by (simp add: span_def unat_plus_one16)
  have "P (buf ! i)" if "unat (off u uf) \<le> i" "i < p + 1" for i
    using assms(1,2) that by (cases "i = p") (auto simp: span_def)
  with assms(1,4) l show ?thesis by (simp add: span_def)
qed

lemma span_take:
  assumes "span P buf u uf e" "e \<le> length buf"
  shows "list_all P (take (unat (len u uf)) (drop (unat (off u uf)) buf))"
  using assms by (auto simp: span_def list_all_length)


section \<open>What the automaton lets through\<close>

text \<open>The characters of each field as the automaton delivers them, before the host is split.\<close>

definition host_raw_char :: "u8 \<Rightarrow> bool" where
  "host_raw_char c \<longleftrightarrow> IS_USERINFO_CHAR c \<or> c = c_lbr \<or> c = c_rbr \<or> c = c_at"

primrec raw_char :: "url_fields \<Rightarrow> u8 \<Rightarrow> bool" where
    "raw_char UF_SCHEMA c = IS_ALPHA c"
  | "raw_char UF_HOST c = host_raw_char c"
  | "raw_char UF_PORT c = False"
  | "raw_char UF_PATH c = IS_URL_CHAR c"
  | "raw_char UF_QUERY c = (IS_URL_CHAR c \<or> c = c_quest)"
  | "raw_char UF_FRAGMENT c = (IS_URL_CHAR c \<or> c = c_quest \<or> c = c_hash)"
  | "raw_char UF_USERINFO c = False"

text \<open>A bound on the numbers of the fields seen when the automaton is in a given state.\<close>

definition url_states :: "state set" where
  "url_states = {s_req_spaces_before_url, s_req_schema, s_req_schema_slash, s_req_schema_slash_slash,
     s_req_server_start, s_req_server, s_req_server_with_at, s_req_path, s_req_query_string_start,
     s_req_query_string, s_req_fragment_start, s_req_fragment}"

definition field_limit :: "state \<Rightarrow> nat" where
  "field_limit s = (case s of
      s_req_spaces_before_url \<Rightarrow> 0 | s_req_schema \<Rightarrow> 1 | s_req_schema_slash \<Rightarrow> 1
    | s_req_schema_slash_slash \<Rightarrow> 1 | s_req_server_start \<Rightarrow> 1 | s_req_server \<Rightarrow> 2
    | s_req_server_with_at \<Rightarrow> 2 | s_req_path \<Rightarrow> 4 | s_req_query_string_start \<Rightarrow> 4
    | s_req_query_string \<Rightarrow> 5 | s_req_fragment_start \<Rightarrow> 5 | _ \<Rightarrow> 6)"

lemma url_char_slash [simp]: "IS_URL_CHAR c_slash" "IS_URL_CHAR c_star"
  by (simp_all add: IS_URL_CHAR_def BIT_AT_def normal_url_char_def)

lemma parse_url_char_step:
  assumes "s \<in> url_states" and "parse_url_char s ch = s'" and "s' \<noteq> s_dead"
  shows "s' \<in> url_states" "s' \<noteq> s_req_spaces_before_url" "field_limit s \<le> field_limit s'"
    and "url_class s' = In_field uf \<Longrightarrow>
      raw_char uf ch \<and> uf_num uf < field_limit s' \<and>
      (url_class s = In_field uf \<or> field_limit s \<le> uf_num uf)"
proof -
  have all: "s' \<in> url_states \<and> s' \<noteq> s_req_spaces_before_url \<and> field_limit s \<le> field_limit s' \<and>
    (\<forall>uf. url_class s' = In_field uf \<longrightarrow> raw_char uf ch \<and> uf_num uf < field_limit s' \<and>
      (url_class s = In_field uf \<or> field_limit s \<le> uf_num uf))"
    using assms unfolding url_states_def
    by (-, elim insertE emptyE)
      (simp_all add: parse_url_char_def Let_def field_limit_def url_class_def host_raw_char_def
        split: if_split_asm, (elim disjE; simp)?)
  then show "s' \<in> url_states" "s' \<noteq> s_req_spaces_before_url" "field_limit s \<le> field_limit s'" by auto
  show "raw_char uf ch \<and> uf_num uf < field_limit s' \<and>
      (url_class s = In_field uf \<or> field_limit s \<le> uf_num uf)" if "url_class s' = In_field uf"
    using all that by blast
qed

lemma url_class_good: "s \<in> url_states \<Longrightarrow> s \<noteq> s_req_spaces_before_url \<Longrightarrow>
    url_class s = Delimiter \<or> (\<exists>uf. url_class s = In_field uf)"
  by (auto simp: url_states_def url_class_def)

lemma url_class_dead: "url_class s = Dead \<longleftrightarrow> s = s_dead"
  by (cases s) (simp_all add: url_class_def)

section \<open>The invariant of the URL loop\<close>

definition url_inv :: "bytes \<Rightarrow> nat \<Rightarrow> state \<Rightarrow> url_fields option \<Rightarrow> http_parser_url \<Rightarrow> bool" where
  "url_inv buf p s old_uf u \<longleftrightarrow> s \<in> url_states \<and>
     (\<forall>uf. has_field u uf \<longrightarrow> uf_num uf < field_limit s \<and> (\<exists>e\<le>p. span (raw_char uf) buf u uf e)) \<and>
     (\<forall>uf uf'. has_field u uf \<and> has_field u uf' \<and> uf_num uf < uf_num uf' \<longrightarrow>
        unat (off u uf) + unat (len u uf) \<le> unat (off u uf')) \<and>
     (\<forall>uf. old_uf = Some uf \<longrightarrow> has_field u uf) \<and>
     (\<forall>uf. url_class s = In_field uf \<longrightarrow> old_uf = Some uf \<and> span (raw_char uf) buf u uf p)"

lemma url_inv_delim:
  assumes "url_inv buf p s old_uf u" and "parse_url_char s ch = s'" and "url_class s' = Delimiter"
  shows "url_inv buf (p + 1) s' old_uf u"
proof -
  have "s' \<noteq> s_dead" using assms(3) by (auto simp: url_class_def)
  note st = parse_url_char_step [OF _ assms(2) this]
  from assms(1) have "s \<in> url_states" by (simp add: url_inv_def)
  with st have "s' \<in> url_states" "field_limit s \<le> field_limit s'" by auto
  note s' = this
  show ?thesis unfolding url_inv_def
  proof (intro conjI allI impI)
    fix a assume a: "has_field u a"
    then show "uf_num a < field_limit s'" using assms(1) s'(2) by (fastforce simp: url_inv_def)
    from a assms(1) obtain e where "e \<le> p" "span (raw_char a) buf u a e" by (auto simp: url_inv_def)
    then show "\<exists>e\<le>p + 1. span (raw_char a) buf u a e" by (intro exI [of _ e]) simp
  qed (use s'(1) assms(1,3) in \<open>auto simp: url_inv_def\<close>)
qed

lemma url_inv_same:
  assumes "url_inv buf p s (Some uf) u" and "parse_url_char s (buf ! p) = s'"
    and "url_class s' = In_field uf" and "p + 1 < 65536"
  shows "url_inv buf (p + 1) s' (Some uf) (inc_len uf u)"
proof -
  have "s' \<noteq> s_dead" using assms(3) by (auto simp: url_class_def)
  note st = parse_url_char_step [OF _ assms(2) this]
  have s: "s \<in> url_states" and hf: "has_field u uf" and lt: "uf_num uf < field_limit s"
    using assms(1) by (auto simp: url_inv_def)
  with st have s': "s' \<in> url_states" "field_limit s \<le> field_limit s'" by auto
  from st(4) [OF s assms(3)] lt have cl: "raw_char uf (buf ! p)" "url_class s = In_field uf" by auto
  with assms(1) have sp: "span (raw_char uf) buf u uf p" by (simp add: url_inv_def)
  have new: "span (raw_char uf) buf (inc_len uf u) uf (p + 1)"
    by (rule span_extend [OF sp cl(1) assms(4)]) simp_all
  have len: "unat (len u uf + 1) = unat (len u uf) + 1"
    using sp assms(4) by (simp add: span_def unat_plus_one16)
  show ?thesis unfolding url_inv_def
  proof (intro conjI allI impI)
    fix a assume "has_field (inc_len uf u) a"
    then have a: "has_field u a" by simp
    then show "uf_num a < field_limit s'" using assms(1) s' by (fastforce simp: url_inv_def)
    show "\<exists>e\<le>p + 1. span (raw_char a) buf (inc_len uf u) a e"
    proof (cases "a = uf")
      case True then show ?thesis using new by blast
    next
      case False
      from a assms(1) obtain e where "e \<le> p" "span (raw_char a) buf u a e" by (auto simp: url_inv_def)
      moreover have "span (raw_char a) buf (inc_len uf u) a e = span (raw_char a) buf u a e"
        using False by (intro span_cong) auto
      ultimately show ?thesis by (intro exI [of _ e]) simp
    qed
  next
    fix a b assume ab: "has_field (inc_len uf u) a \<and> has_field (inc_len uf u) b \<and> uf_num a < uf_num b"
    then have le: "unat (off u a) + unat (len u a) \<le> unat (off u b)" using assms(1) by (simp add: url_inv_def)
    show "unat (off (inc_len uf u) a) + unat (len (inc_len uf u) a) \<le> unat (off (inc_len uf u) b)"
    proof (cases "a = uf")
      case False then show ?thesis using le by simp
    next
      case True
      from ab assms(1) obtain e where e: "e \<le> p" "span (raw_char b) buf u b e" by (auto simp: url_inv_def)
      from True le sp e have False by (auto simp: span_def)
      then show ?thesis ..
    qed
  qed (use s'(1) hf new assms(3) in auto)
qed

lemma url_inv_new:
  assumes "url_inv buf p s old_uf u" and "parse_url_char s (buf ! p) = s'"
    and "url_class s' = In_field uf" and "old_uf \<noteq> Some uf" and "p < 65536"
  shows "url_inv buf (p + 1) s' (Some uf) (add_field uf (set_len uf 1 (set_off uf p u)))"
proof -
  let ?u = "add_field uf (set_len uf 1 (set_off uf p u))"
  have "s' \<noteq> s_dead" using assms(3) by (auto simp: url_class_def)
  note st = parse_url_char_step [OF _ assms(2) this]
  have s: "s \<in> url_states" using assms(1) by (auto simp: url_inv_def)
  with st have s': "s' \<in> url_states" "field_limit s \<le> field_limit s'" by auto
  have "url_class s \<noteq> In_field uf" using assms(1,4) by (auto simp: url_inv_def)
  with st(4) [OF s assms(3)] have cl: "raw_char uf (buf ! p)" "field_limit s \<le> uf_num uf"
    "uf_num uf < field_limit s'" by auto
  have new: "span (raw_char uf) buf ?u uf (p + 1)"
    by (rule span_start) (use assms(5) cl in simp_all)
  have old: "uf_num a < uf_num uf" "\<exists>e\<le>p. span (raw_char a) buf u a e" if "has_field u a" for a
    using that assms(1) cl(2) by (fastforce simp: url_inv_def)+
  show ?thesis unfolding url_inv_def
  proof (intro conjI allI impI)
    fix a assume "has_field ?u a"
    then have a: "has_field u a \<or> a = uf" by auto
    then show "uf_num a < field_limit s'" using old(1) [of a] cl(3) by auto
    show "\<exists>e\<le>p + 1. span (raw_char a) buf ?u a e"
    proof (cases "a = uf")
      case True then show ?thesis using new by blast
    next
      case False
      with a old(2) obtain e where "e \<le> p" "span (raw_char a) buf u a e" by auto
      moreover have "span (raw_char a) buf ?u a e = span (raw_char a) buf u a e"
        using False by (intro span_cong) auto
      ultimately show ?thesis by (intro exI [of _ e]) simp
    qed
  next
    fix a b assume ab: "has_field ?u a \<and> has_field ?u b \<and> uf_num a < uf_num b"
    then have "a \<noteq> uf" using old(1) [of b] by auto
    with ab have a: "has_field u a" by simp
    show "unat (off ?u a) + unat (len ?u a) \<le> unat (off ?u b)"
    proof (cases "b = uf")
      case True
      from old(2) [OF a] show ?thesis using True \<open>a \<noteq> uf\<close> assms(5) by (auto simp: span_def unat_of_nat16)
    next
      case False
      with ab a \<open>a \<noteq> uf\<close> assms(1) show ?thesis by (auto simp: url_inv_def)
    qed
  qed (use s'(1) new assms(3) in auto)
qed


lemma url_loop_inv:
  assumes "url_inv buf p s old_uf u" and "rest = drop p buf" and "p \<le> length buf" and "length buf < 65536"
  shows "url_loop rest p s old_uf fa u \<noteq> Scan_assert \<and>
    (\<forall>fa' u'. url_loop rest p s old_uf fa u = Scan_end fa' u' \<longrightarrow>
       (\<exists>s' old'. url_inv buf (length buf) s' old' u'))"
  using assms
proof (induction rest arbitrary: p s old_uf fa u)
  case Nil
  then have "p = length buf" by simp
  with Nil show ?case by auto
next
  case (Cons ch rest)
  note d = Cons_eq_drop [OF Cons.prems(2)]
  from d(1) have p: "p < length buf" by simp
  from d(2,3) have ch: "ch = buf ! p" "rest = drop (p + 1) buf" by simp_all
  define s' where "s' = parse_url_char s ch"
  have s: "s \<in> url_states" using Cons.prems(1) by (simp add: url_inv_def)
  have IH: "url_inv buf (p + 1) s' old' u' \<Longrightarrow> url_loop rest (p + 1) s' old' fa' u' \<noteq> Scan_assert \<and>
    (\<forall>fa'' u''. url_loop rest (p + 1) s' old' fa' u' = Scan_end fa'' u'' \<longrightarrow>
       (\<exists>s' old'. url_inv buf (length buf) s' old' u''))" for old' fa' u'
    by (rule Cons.IH) (use p ch assms(4) in auto)
  show ?case
  proof (cases "s' = s_dead")
    case True then show ?thesis by (simp add: s'_def [symmetric] url_class_def)
  next
    case False
    from url_class_good [OF parse_url_char_step(1,2) [OF s s'_def [symmetric] False]]
    consider "url_class s' = Delimiter" | uf where "url_class s' = In_field uf" by blast
    then show ?thesis
    proof cases
      case 1
      with IH [OF url_inv_delim [OF Cons.prems(1) s'_def [symmetric]]] show ?thesis
        by (simp add: s'_def [symmetric])
    next
      case 2
      have p': "p + 1 < 65536" "p < 65536" using p assms(4) by auto
      note tr = s'_def [symmetric, unfolded ch(1)]
      show ?thesis
      proof (cases "old_uf = Some uf")
        case True
        with IH [OF url_inv_same [OF Cons.prems(1) [unfolded True] tr 2 p'(1)]] show ?thesis
          using 2 by (simp add: s'_def [symmetric])
      next
        case False
        with IH [OF url_inv_new [OF Cons.prems(1) tr 2 False p'(2)]] show ?thesis
          using 2 by (simp add: s'_def [symmetric])
      qed
    qed
  qed
qed

lemma url_inv_init:
  "url_inv buf 0 (if is_connect then s_req_server_start else s_req_spaces_before_url) None
     (u\<lparr>port := 0, field_set := 0\<rparr>)"
  by (simp add: url_inv_def url_states_def url_class_def)

section \<open>The invariant of the host loop\<close>

definition host_char :: "u8 \<Rightarrow> bool" where
  "host_char c \<longleftrightarrow> IS_ALPHANUM c \<or> c = c_dot \<or> c = c_minus \<or> c = c_colon \<or> c = c_percent \<or>
     c = c_under \<or> c = c_tilde"

lemma IS_HEX_ALPHANUM: "IS_HEX c \<Longrightarrow> IS_ALPHANUM c"
  unfolding IS_HEX_def IS_ALPHANUM_def IS_ALPHA_def
  by (elim disjE conjE) (auto intro: order_trans)

lemma http_parse_host_char_step:
  assumes "http_parse_host_char s ch = s'" and "s' \<noteq> s_http_host_dead"
  shows "case s' of
      s_http_userinfo \<Rightarrow> s \<in> {s_http_userinfo_start, s_http_userinfo} \<and> IS_USERINFO_CHAR ch
    | s_http_host_start \<Rightarrow> s \<in> {s_http_userinfo_start, s_http_userinfo}
    | s_http_host \<Rightarrow> s \<in> {s_http_host_start, s_http_host} \<and> host_char ch
    | s_http_host_v6_start \<Rightarrow> s = s_http_host_start
    | s_http_host_v6 \<Rightarrow> s \<in> {s_http_host_v6_start, s_http_host_v6} \<and> host_char ch
    | s_http_host_v6_zone_start \<Rightarrow> s = s_http_host_v6 \<and> host_char ch
    | s_http_host_v6_zone \<Rightarrow> s \<in> {s_http_host_v6_zone_start, s_http_host_v6_zone} \<and> host_char ch
    | s_http_host_v6_end \<Rightarrow> s \<in> {s_http_host_v6, s_http_host_v6_zone}
    | s_http_host_port_start \<Rightarrow> s \<in> {s_http_host, s_http_host_v6_end}
    | s_http_host_port \<Rightarrow> s \<in> {s_http_host_port_start, s_http_host_port} \<and> IS_NUM ch
    | _ \<Rightarrow> False"
  using assms
  by (cases s) (auto simp: http_parse_host_char_def Let_def host_char_def IS_HOST_CHAR_def
      IS_HEX_ALPHANUM split: if_split_asm)

text \<open>
  \<open>h0\<close> is where the host field started before it was split; the user information, if
  any, ends before \<open>k\<close>.
\<close>

definition ui_before :: "bytes \<Rightarrow> nat \<Rightarrow> nat \<Rightarrow> http_parser_url \<Rightarrow> bool" where
  "ui_before buf h0 k u \<longleftrightarrow> (has_field u UF_USERINFO \<longrightarrow> h0 \<le> unat (off u UF_USERINFO) \<and>
     (\<exists>e<k. span IS_USERINFO_CHAR buf u UF_USERINFO e))"

definition host_before :: "bytes \<Rightarrow> nat \<Rightarrow> nat \<Rightarrow> http_parser_url \<Rightarrow> bool" where
  "host_before buf h0 e u \<longleftrightarrow> span host_char buf u UF_HOST e \<and> h0 \<le> unat (off u UF_HOST) \<and>
     ui_before buf h0 (unat (off u UF_HOST)) u"

definition host_inv :: "bytes \<Rightarrow> nat \<Rightarrow> nat \<Rightarrow> http_host_state \<Rightarrow> http_parser_url \<Rightarrow> bool" where
  "host_inv buf h0 p s u \<longleftrightarrow> h0 \<le> p \<and> (s \<noteq> s_http_host_port \<longrightarrow> \<not> has_field u UF_PORT) \<and>
    (case s of
       s_http_userinfo_start \<Rightarrow> len u UF_HOST = 0 \<and> \<not> has_field u UF_USERINFO
     | s_http_userinfo \<Rightarrow> len u UF_HOST = 0 \<and> has_field u UF_USERINFO \<and>
         h0 \<le> unat (off u UF_USERINFO) \<and> span IS_USERINFO_CHAR buf u UF_USERINFO p
     | s_http_host_start \<Rightarrow> len u UF_HOST = 0 \<and> ui_before buf h0 p u
     | s_http_host_v6_start \<Rightarrow> len u UF_HOST = 0 \<and> ui_before buf h0 p u
     | s_http_host_v6_end \<Rightarrow> (\<exists>e<p. host_before buf h0 e u)
     | s_http_host_port_start \<Rightarrow> (\<exists>e<p. host_before buf h0 e u)
     | s_http_host_port \<Rightarrow> has_field u UF_PORT \<and> span IS_NUM buf u UF_PORT p \<and>
         (\<exists>e<unat (off u UF_PORT). host_before buf h0 e u)
     | s_http_host_dead \<Rightarrow> False
     | _ \<Rightarrow> host_before buf h0 p u)"

text \<open>Splitting leaves the other fields alone.\<close>

definition host_frame :: "http_parser_url \<Rightarrow> http_parser_url \<Rightarrow> bool" where
  "host_frame u u' \<longleftrightarrow> (\<forall>a. a \<noteq> UF_HOST \<and> a \<noteq> UF_PORT \<and> a \<noteq> UF_USERINFO \<longrightarrow>
     off u' a = off u a \<and> len u' a = len u a \<and> has_field u' a = has_field u a) \<and>
     has_field u' UF_HOST = has_field u UF_HOST"

lemma host_frame_step: "host_frame u (host_step s s' p u)"
  by (cases s') (auto simp: host_frame_def host_step_def Let_def)

lemma host_frame_refl: "host_frame u u"
  by (simp add: host_frame_def)

lemma host_frame_trans: "host_frame u v \<Longrightarrow> host_frame v w \<Longrightarrow> host_frame u w"
  by (auto simp: host_frame_def)

lemma ui_before_cong:
  assumes "has_field u UF_USERINFO = has_field u' UF_USERINFO"
    and "off u UF_USERINFO = off u' UF_USERINFO" and "len u UF_USERINFO = len u' UF_USERINFO"
    and "k \<le> k'" and "ui_before buf h0 k u"
  shows "ui_before buf h0 k' u'"
  using assms span_cong [OF assms(2,3)] by (auto simp: ui_before_def intro: less_le_trans)


lemma host_before_start:
  assumes "len u UF_HOST = 0" "ui_before buf h0 p u" "host_char (buf ! p)" "p < 65536" "h0 \<le> p"
  shows "host_before buf h0 (p + 1) (inc_len UF_HOST (set_off UF_HOST p u))"
proof -
  have "span host_char buf (inc_len UF_HOST (set_off UF_HOST p u)) UF_HOST (p + 1)"
    by (rule span_start) (use assms in simp_all)
  moreover have "ui_before buf h0 p (inc_len UF_HOST (set_off UF_HOST p u))"
    by (rule ui_before_cong [OF _ _ _ _ assms(2)]) simp_all
  ultimately show ?thesis using assms(4,5) by (simp add: host_before_def unat_of_nat16)
qed

lemma host_before_extend:
  assumes "host_before buf h0 p u" "host_char (buf ! p)" "p + 1 < 65536"
  shows "host_before buf h0 (p + 1) (inc_len UF_HOST u)"
proof -
  have "span host_char buf (inc_len UF_HOST u) UF_HOST (p + 1)"
    by (rule span_extend [where u = u and P = host_char]) (use assms in \<open>simp_all add: host_before_def\<close>)
  moreover have "ui_before buf h0 (unat (off u UF_HOST)) (inc_len UF_HOST u)"
    by (rule ui_before_cong [where u = u, OF _ _ _ order_refl])
      (use assms(1) in \<open>simp_all add: host_before_def\<close>)
  ultimately show ?thesis using assms(1) by (simp add: host_before_def)
qed

lemma host_before_cong:
  assumes "has_field u UF_USERINFO = has_field u' UF_USERINFO"
    and "off u UF_USERINFO = off u' UF_USERINFO" and "len u UF_USERINFO = len u' UF_USERINFO"
    and "off u UF_HOST = off u' UF_HOST" and "len u UF_HOST = len u' UF_HOST"
    and "host_before buf h0 e u"
  shows "host_before buf h0 e u'"
  using assms(6) unfolding host_before_def
  using span_cong [OF assms(4,5), of host_char buf e] ui_before_cong [OF assms(1-3) order_refl] assms(4)
  by auto

lemma host_inv_userinfo:
  assumes inv: "host_inv buf h0 p s u" and tr: "http_parse_host_char s (buf ! p) = s'"
    and s': "s' = s_http_userinfo" and p: "p + 1 < 65536"
  shows "host_inv buf h0 (p + 1) s' (host_step s s' p u)"
proof -
  note st = http_parse_host_char_step [OF tr, unfolded s', simplified]
  have h0: "h0 \<le> p" "h0 \<le> p + 1" using inv by (auto simp: host_inv_def)
  have p': "p < 65536" using p by simp
  note defs = host_inv_def host_step_def Let_def
  from st consider "s = s_http_userinfo_start" "IS_USERINFO_CHAR (buf ! p)"
    | "s = s_http_userinfo" "IS_USERINFO_CHAR (buf ! p)" by auto
  then show ?thesis
  proof cases
    case 1
    have "span IS_USERINFO_CHAR buf (host_step s s' p u) UF_USERINFO (p + 1)"
      by (rule span_start) (use 1 s' p' in \<open>simp_all add: defs\<close>)
    with 1 s' inv h0 p' show ?thesis by (simp add: defs unat_of_nat16)
  next
    case 2
    then have "span IS_USERINFO_CHAR buf u UF_USERINFO p" using inv by (simp add: defs)
    then have "span IS_USERINFO_CHAR buf (host_step s s' p u) UF_USERINFO (p + 1)"
      by (rule span_extend) (use 2 s' p in \<open>simp_all add: defs\<close>)
    with 2 s' inv h0 show ?thesis by (simp add: defs)
  qed
qed

lemma host_inv_port:
  assumes inv: "host_inv buf h0 p s u" and tr: "http_parse_host_char s (buf ! p) = s'"
    and s': "s' = s_http_host_port" and p: "p + 1 < 65536"
  shows "host_inv buf h0 (p + 1) s' (host_step s s' p u)"
proof -
  note st = http_parse_host_char_step [OF tr, unfolded s', simplified]
  have h0: "h0 \<le> p" "h0 \<le> p + 1" using inv by (auto simp: host_inv_def)
  have p': "p < 65536" using p by simp
  note defs = host_inv_def host_step_def Let_def
  from st consider "s = s_http_host_port_start" "IS_NUM (buf ! p)"
    | "s = s_http_host_port" "IS_NUM (buf ! p)" by auto
  then show ?thesis
  proof cases
    case 1
    have sp: "span IS_NUM buf (host_step s s' p u) UF_PORT (p + 1)"
      by (rule span_start) (use 1 s' p' in \<open>simp_all add: defs\<close>)
    from 1 inv obtain e where "e < p" "host_before buf h0 e u" by (auto simp: defs)
    moreover from this(2) have "host_before buf h0 e (host_step s s' p u)"
      by (rule host_before_cong [rotated 5]) (use 1 s' in \<open>simp_all add: defs\<close>)
    ultimately show ?thesis using sp 1 s' h0 p'
      by (auto simp: defs unat_of_nat16)
  next
    case 2
    then have "span IS_NUM buf u UF_PORT p" using inv by (simp add: defs)
    then have sp: "span IS_NUM buf (host_step s s' p u) UF_PORT (p + 1)"
      by (rule span_extend) (use 2 s' p in \<open>simp_all add: defs\<close>)
    from 2 inv obtain e where "e < unat (off u UF_PORT)" "host_before buf h0 e u" by (auto simp: defs)
    moreover from this(2) have "host_before buf h0 e (host_step s s' p u)"
      by (rule host_before_cong [rotated 5]) (use 2 s' in \<open>simp_all add: defs\<close>)
    ultimately show ?thesis using sp 2 s' h0 inv
      by (auto simp: defs)
  qed
qed

lemma host_inv_step:
  assumes inv: "host_inv buf h0 p s u" and tr: "http_parse_host_char s (buf ! p) = s'"
    and ok: "s' \<noteq> s_http_host_dead" and p: "p + 1 < 65536"
  shows "host_inv buf h0 (p + 1) s' (host_step s s' p u)"
proof -
  note st = http_parse_host_char_step [OF tr ok]
  have h0: "h0 \<le> p" "h0 \<le> p + 1" using inv by (auto simp: host_inv_def)
  have p': "p < 65536" using p by simp
  note defs = host_inv_def host_step_def Let_def
  show ?thesis
  proof (cases s')
    case s_http_host_dead with ok show ?thesis by simp
  next
    case s_http_userinfo_start with st show ?thesis by simp
  next
    case s_http_userinfo
    with inv tr p show ?thesis using host_inv_userinfo by blast
  next
    case s_http_host_start
    with st consider "s = s_http_userinfo_start" | "s = s_http_userinfo" by auto
    then show ?thesis using inv h0 s_http_host_start
      by cases (auto simp: defs ui_before_def)
  next
    case s_http_host_v6_start
    with st inv h0 show ?thesis by (auto simp: defs elim!: ui_before_cong [rotated 4])
  next
    case s_http_host
    with st consider "s = s_http_host_start" "host_char (buf ! p)"
      | "s = s_http_host" "host_char (buf ! p)" by auto
    then show ?thesis using inv h0 s_http_host p p'
      by cases (auto simp: defs intro: host_before_start [simplified] host_before_extend [simplified])
  next
    case s_http_host_v6
    with st consider "s = s_http_host_v6_start" "host_char (buf ! p)"
      | "s = s_http_host_v6" "host_char (buf ! p)" by auto
    then show ?thesis using inv h0 s_http_host_v6 p p'
      by cases (auto simp: defs intro: host_before_start [simplified] host_before_extend [simplified])
  next
    case s_http_host_v6_zone_start
    with st inv h0 p show ?thesis
      by (auto simp: defs intro: host_before_extend [simplified])
  next
    case s_http_host_v6_zone
    with st inv h0 p show ?thesis
      by (auto simp: defs intro: host_before_extend [simplified])
  next
    case s_http_host_v6_end
    with st inv h0 show ?thesis by (auto simp: defs)
  next
    case s_http_host_port_start
    with st consider "s = s_http_host" | "s = s_http_host_v6_end" by auto
    then show ?thesis
    proof cases
      case 1
      with inv h0 s_http_host_port_start show ?thesis by (auto simp: defs)
    next
      case 2
      with inv obtain e where "e < p" "host_before buf h0 e u" by (auto simp: defs)
      then have "\<exists>e<p + 1. host_before buf h0 e u" by (intro exI [of _ e]) simp
      with 2 inv h0 s_http_host_port_start show ?thesis by (simp add: defs)
    qed
  next
    case s_http_host_port
    with inv tr p show ?thesis using host_inv_port by blast
  qed
qed

lemma host_loop_inv:
  assumes "host_inv buf h0 p s u" and "rest = drop p (take e buf)" and "p \<le> e" and "e \<le> length buf"
    and "length buf < 65536" and "host_loop rest p s u = Inl (s', u')"
  shows "host_inv buf h0 e s' u' \<and> host_frame u u'"
  using assms
proof (induction rest arbitrary: p s u)
  case Nil
  then have "p = e" by simp
  with Nil show ?case by (simp add: host_frame_refl)
next
  case (Cons ch rest)
  note d = Cons_eq_drop [OF Cons.prems(2)]
  from d(1) have pe: "p < e" by simp
  with d(2,3) Cons.prems(4) have ch: "ch = buf ! p" "rest = drop (p + 1) (take e buf)" by simp_all
  let ?s = "http_parse_host_char s ch"
  from Cons.prems(6) have nd: "?s \<noteq> s_http_host_dead"
    and run: "host_loop rest (p + 1) ?s (host_step s ?s p u) = Inl (s', u')"
    by (auto simp: Let_def split: if_splits)
  have "host_inv buf h0 (p + 1) ?s (host_step s ?s p u)"
    by (rule host_inv_step [OF Cons.prems(1)]) (use ch nd pe Cons.prems(4,5) in auto)
  from Cons.IH [OF this ch(2) _ Cons.prems(4,5) run] pe
  have "host_inv buf h0 e s' u' \<and> host_frame (host_step s ?s p u) u'" by simp
  then show ?case using host_frame_trans [OF host_frame_step] by blast
qed


section \<open>The port value\<close>

lemma IS_NUM_unat: "IS_NUM ch \<Longrightarrow> 48 \<le> unat ch \<and> unat ch \<le> 57"
  by (simp add: IS_NUM_def word_le_nat_alt)

lemma IS_NUM_cases:
  assumes "IS_NUM ch"
  obtains d where "d < 10" "ch = of_nat (48 + d)" "unat ch = 48 + d"
proof -
  from IS_NUM_unat [OF assms] have "unat ch - 48 < 10" "48 + (unat ch - 48) = unat ch" by auto
  moreover from this(2) have "ch = of_nat (48 + (unat ch - 48))" by simp
  ultimately show thesis by (intro that [of "unat ch - 48"]) auto
qed

lemma digit_value64:
  assumes "IS_NUM ch"
  shows "(scast ch - 48 :: u64) = of_nat (unat ch - 48)"
proof -
  from assms obtain d where d: "d < 10" "ch = of_nat (48 + d)" by (rule IS_NUM_cases)
  from d(1) have "d = 0 \<or> d = 1 \<or> d = 2 \<or> d = 3 \<or> d = 4 \<or> d = 5 \<or> d = 6 \<or> d = 7 \<or> d = 8 \<or> d = 9"
    by arith
  then show ?thesis using d(2) by (elim disjE) simp_all
qed

lemma dec_from_ge: "a \<le> dec_from a ds"
proof (induction ds arbitrary: a)
  case (Cons d ds)
  have "a \<le> 10 * a + (unat d - 48)" by simp
  also have "\<dots> \<le> dec_from (10 * a + (unat d - 48)) ds" by (rule Cons.IH)
  finally show ?case by simp
qed simp

lemma port_loop_exact:
  assumes "list_all IS_NUM ds" and "unat v \<le> 65535"
  shows "port_loop ds v = (if dec_from (unat v) ds \<le> 65535 then Some (of_nat (dec_from (unat v) ds)) else None)"
  using assms
proof (induction ds arbitrary: v)
  case Nil then show ?case by simp
next
  case (Cons ch ds)
  from Cons.prems have n: "IS_NUM ch" "list_all IS_NUM ds" by simp_all
  let ?w = "v * 10 + (scast ch - 48) :: u64"
  have "?w = of_nat (10 * unat v + (unat ch - 48))"
    using digit_value64 [OF n(1)] by (simp add: mult.commute)
  moreover have "10 * unat v + (unat ch - 48) < 2 ^ 64"
  proof -
    have "unat ch - 48 \<le> 9" using IS_NUM_unat [OF n(1)] by arith
    then have "10 * unat v + (unat ch - 48) \<le> 10 * 65535 + 9" using Cons.prems(2) by linarith
    then show ?thesis by simp
  qed
  ultimately have w: "unat ?w = 10 * unat v + (unat ch - 48)" by (simp add: unat_of_nat del: of_nat_add of_nat_mult)
  show ?case
  proof (cases "?w > 0xffff")
    case True
    then have "65535 < 10 * unat v + (unat ch - 48)" using w by (simp add: word_less_nat_alt)
    with dec_from_ge [of "10 * unat v + (unat ch - 48)" ds] True show ?thesis by (simp add: Let_def)
  next
    case False
    then have "unat ?w \<le> 65535" by (simp add: word_less_nat_alt)
    from Cons.IH [OF n(2) this] False show ?thesis unfolding w by (simp add: Let_def)
  qed
qed

section \<open>Correctness of the URL parser\<close>

text \<open>
  What a successfully parsed URL promises: the characters of each field, and the order of
  the fields in the buffer.
\<close>

primrec field_char :: "url_fields \<Rightarrow> u8 \<Rightarrow> bool" where
    "field_char UF_SCHEMA c = IS_ALPHA c"
  | "field_char UF_HOST c = host_char c"
  | "field_char UF_PORT c = IS_NUM c"
  | "field_char UF_PATH c = IS_URL_CHAR c"
  | "field_char UF_QUERY c = (IS_URL_CHAR c \<or> c = c_quest)"
  | "field_char UF_FRAGMENT c = (IS_URL_CHAR c \<or> c = c_quest \<or> c = c_hash)"
  | "field_char UF_USERINFO c = IS_USERINFO_CHAR c"

lemma field_char_eqs [simp]: "field_char UF_HOST = host_char" "field_char UF_PORT = IS_NUM"
  "field_char UF_USERINFO = IS_USERINFO_CHAR"
  by (simp_all add: fun_eq_iff)

primrec url_rank :: "url_fields \<Rightarrow> nat" where
    "url_rank UF_SCHEMA = 0"
  | "url_rank UF_USERINFO = 1"
  | "url_rank UF_HOST = 2"
  | "url_rank UF_PORT = 3"
  | "url_rank UF_PATH = 4"
  | "url_rank UF_QUERY = 5"
  | "url_rank UF_FRAGMENT = 6"

definition field_end :: "http_parser_url \<Rightarrow> url_fields \<Rightarrow> nat" where
  "field_end u a = unat (off u a) + unat (len u a)"

definition field_bytes :: "bytes \<Rightarrow> http_parser_url \<Rightarrow> url_fields \<Rightarrow> bytes" where
  "field_bytes buf u a = take (unat (len u a)) (drop (unat (off u a)) buf)"

definition url_fields_wf :: "bytes \<Rightarrow> http_parser_url \<Rightarrow> bool" where
  "url_fields_wf buf u \<longleftrightarrow>
     (\<forall>a. has_field u a \<longrightarrow> (\<exists>e\<le>length buf. span (field_char a) buf u a e)) \<and>
     (\<forall>a b. has_field u a \<and> has_field u b \<and> url_rank a < url_rank b \<longrightarrow> field_end u a \<le> unat (off u b))"


lemma span_end: "span P buf u a e \<Longrightarrow> field_end u a = e"
  by (simp add: span_def field_end_def)

lemma span_mono: "span P buf u a e \<Longrightarrow> (\<And>c. P c \<Longrightarrow> Q c) \<Longrightarrow> span Q buf u a e"
  by (auto simp: span_def)

lemma url_inv_field:
  assumes "url_inv buf p s old u" and "has_field u a"
  shows "uf_num a < field_limit s" "\<exists>e\<le>p. span (raw_char a) buf u a e"
  using assms unfolding url_inv_def by blast+

lemma url_inv_order:
  assumes "url_inv buf p s old u" and "has_field u a" "has_field u b" "uf_num a < uf_num b"
  shows "field_end u a \<le> unat (off u b)"
  using assms unfolding url_inv_def field_end_def by blast

lemma url_inv_no_port:
  assumes "url_inv buf p s old u"
  shows "\<not> has_field u UF_PORT" "\<not> has_field u UF_USERINFO"
proof -
  have no: "\<not> has_field u a" if "\<And>c. \<not> raw_char a c" for a
  proof
    assume "has_field u a"
    from url_inv_field(2) [OF assms this] obtain e where "span (raw_char a) buf u a e" by blast
    then have "raw_char a (buf ! unat (off u a))" by (auto simp: span_def)
    with that show False by blast
  qed
  show "\<not> has_field u UF_PORT" "\<not> has_field u UF_USERINFO" by (rule no, simp)+
qed

lemma wf_no_host:
  assumes "url_inv buf (length buf) s old u" and "\<not> has_field u UF_HOST"
  shows "url_fields_wf buf u"
  unfolding url_fields_wf_def
proof (intro conjI allI impI)
  fix a assume a: "has_field u a"
  from url_inv_field(2) [OF assms(1) this] obtain e where
    e: "e \<le> length buf" "span (raw_char a) buf u a e" by blast
  have "span (field_char a) buf u a e"
    by (rule span_mono [OF e(2)]) (use a assms(2) url_inv_no_port [OF assms(1)] in \<open>cases a; simp\<close>)
  with e(1) show "\<exists>e\<le>length buf. span (field_char a) buf u a e" by blast
next
  fix a b assume ab: "has_field u a \<and> has_field u b \<and> url_rank a < url_rank b"
  then have "uf_num a < uf_num b" using assms(2) url_inv_no_port [OF assms(1)] by (cases a; cases b) auto
  with ab show "field_end u a \<le> unat (off u b)" using url_inv_order [OF assms(1)] by blast
qed

text \<open>The three ways a host may end.\<close>

lemma host_good_end:
  assumes "host_inv buf h0 e s u" and "\<not> bad_end s"
  shows "\<exists>eh\<le>e. host_before buf h0 eh u \<and>
    (has_field u UF_PORT \<longrightarrow> span IS_NUM buf u UF_PORT e \<and> eh < unat (off u UF_PORT))"
  using assms
proof (cases s)
  case s_http_host with assms show ?thesis by (auto simp: host_inv_def)
next
  case s_http_host_v6_end with assms show ?thesis by (auto simp: host_inv_def intro: less_imp_le)
next
  case s_http_host_port
  with assms(1) obtain eh where eh: "eh < unat (off u UF_PORT)" "host_before buf h0 eh u"
    "span IS_NUM buf u UF_PORT e" by (auto simp: host_inv_def)
  then have "eh \<le> e" by (simp add: span_def)
  with eh show ?thesis by blast
qed (simp_all add: bad_end_def host_inv_def)

lemma http_parse_host_run:
  assumes inv: "url_inv buf (length buf) s old u" and host: "has_field u UF_HOST" and len: "length buf < 65536"
  obtains r u2 where "http_parse_host buf u fa = Returned r u2"
    and "r = 0 \<Longrightarrow> host_frame u u2 \<and> (\<exists>eh\<le>field_end u UF_HOST. host_before buf (unat (off u UF_HOST)) eh u2 \<and>
      (has_field u2 UF_PORT \<longrightarrow> span IS_NUM buf u2 UF_PORT (field_end u UF_HOST) \<and> eh < unat (off u2 UF_PORT)))"
proof -
  let ?h0 = "unat (off u UF_HOST)" and ?e = "field_end u UF_HOST"
  let ?s0 = "if fa then s_http_userinfo_start else s_http_host_start"
  from url_inv_field(2) [OF inv host] obtain e where
    e: "e \<le> length buf" "span (raw_char UF_HOST) buf u UF_HOST e" by blast
  have e': "?e \<le> length buf" "?h0 \<le> ?e" "?e = ?h0 + unat (len u UF_HOST)"
    using e by (auto simp: span_def field_end_def)
  have start: "host_inv buf ?h0 ?h0 ?s0 (set_len UF_HOST 0 u)"
    using url_inv_no_port [OF inv] by (auto simp: host_inv_def ui_before_def)
  define R where "R = host_loop (drop ?h0 (take ?e buf)) ?h0 ?s0 (set_len UF_HOST 0 u)"
  have run: "http_parse_host buf u fa = (case R of Inr u' \<Rightarrow> Returned 1 u'
      | Inl (s, u') \<Rightarrow> Returned (if bad_end s then 1 else 0) u')"
    using host e'(1) unfolding R_def e'(3) by (simp add: http_parse_host_def Let_def)
  show thesis
  proof (cases R)
    case (Inr u') with run that [of 1 u'] show thesis by simp
  next
    case (Inl su)
    obtain s' u2 where su: "su = (s', u2)" by (cases su)
    from Inl have "R = Inl (s', u2)" by (simp add: su)
    with R_def have "host_loop (drop ?h0 (take ?e buf)) ?h0 ?s0 (set_len UF_HOST 0 u) = Inl (s', u2)" by simp
    from host_loop_inv [OF start refl e'(2,1) len this]
    have fin: "host_inv buf ?h0 ?e s' u2" "host_frame (set_len UF_HOST 0 u) u2" by auto
    have fr: "host_frame u u2" using fin(2) by (auto simp: host_frame_def)
    show thesis
    proof (rule that)
      show "http_parse_host buf u fa = Returned (if bad_end s' then 1 else 0) u2" using run Inl su by simp
    qed (use fr host_good_end [OF fin(1)] in \<open>auto split: if_splits\<close>)
  qed
qed

text \<open>User name, host and port lie inside the field that the first pass has called the host.\<close>

lemma host_parts:
  assumes hb: "host_before buf (unat (off u UF_HOST)) eh u2" and eh: "eh \<le> field_end u UF_HOST"
    and port: "has_field u2 UF_PORT \<longrightarrow> span IS_NUM buf u2 UF_PORT (field_end u UF_HOST) \<and> eh < unat (off u2 UF_PORT)"
    and a: "has_field u2 a" "a \<in> {UF_USERINFO, UF_HOST, UF_PORT}"
  shows "unat (off u UF_HOST) \<le> unat (off u2 a) \<and> field_end u2 a \<le> field_end u UF_HOST
    \<and> (\<exists>k\<le>field_end u UF_HOST. span (field_char a) buf u2 a k)"
proof -
  let ?h0 = "unat (off u UF_HOST)" and ?e = "field_end u UF_HOST"
  have ui: "\<exists>k<unat (off u2 UF_HOST). span IS_USERINFO_CHAR buf u2 UF_USERINFO k"
    "?h0 \<le> unat (off u2 UF_USERINFO)" if "has_field u2 UF_USERINFO"
    using hb that by (auto simp: host_before_def ui_before_def)
  have sh: "span host_char buf u2 UF_HOST eh" "?h0 \<le> unat (off u2 UF_HOST)" using hb by (auto simp: host_before_def)
  then have oh: "unat (off u2 UF_HOST) < eh" by (auto simp: span_def)
  from a(2) consider "a = UF_USERINFO" | "a = UF_HOST" | "a = UF_PORT" by auto
  then show ?thesis
  proof cases
    case 1
    with ui a(1) obtain k where "k < unat (off u2 UF_HOST)" "span IS_USERINFO_CHAR buf u2 UF_USERINFO k" by blast
    moreover have "k \<le> ?e" using calculation oh eh by simp
    ultimately show ?thesis using 1 ui(2) a(1) by (auto dest: span_end)
  next
    case 2 then show ?thesis using sh eh by (auto dest: span_end)
  next
    case 3 then show ?thesis using port a(1) sh oh by (auto dest: span_end)
  qed
qed

lemma wf_host:
  assumes inv: "url_inv buf (length buf) s old u" and host: "has_field u UF_HOST" and fr: "host_frame u u2"
    and hb: "host_before buf (unat (off u UF_HOST)) eh u2" and eh: "eh \<le> field_end u UF_HOST"
    and port: "has_field u2 UF_PORT \<longrightarrow> span IS_NUM buf u2 UF_PORT (field_end u UF_HOST) \<and> eh < unat (off u2 UF_PORT)"
  shows "url_fields_wf buf u2"
proof -
  let ?h0 = "unat (off u UF_HOST)" and ?e = "field_end u UF_HOST"
  let ?mid = "{UF_USERINFO, UF_HOST, UF_PORT}"
  from url_inv_field(2) [OF inv host] obtain e where
    "e \<le> length buf" "span (raw_char UF_HOST) buf u UF_HOST e" by blast
  then have e: "?e \<le> length buf" by (auto dest: span_end)
  have ui: "\<exists>k<unat (off u2 UF_HOST). span IS_USERINFO_CHAR buf u2 UF_USERINFO k"
    "?h0 \<le> unat (off u2 UF_USERINFO)" if "has_field u2 UF_USERINFO"
    using hb that by (auto simp: host_before_def ui_before_def)
  have sh: "span host_char buf u2 UF_HOST eh" "?h0 \<le> unat (off u2 UF_HOST)" using hb by (auto simp: host_before_def)
  then have oh: "unat (off u2 UF_HOST) < eh" by (auto simp: span_def)
  have outer: "off u2 a = off u a" "len u2 a = len u a" "has_field u2 a = has_field u a" if "a \<notin> ?mid" for a
    using fr that by (auto simp: host_frame_def)
  note mid = host_parts [OF hb eh port]
  show ?thesis unfolding url_fields_wf_def
  proof (intro conjI allI impI)
    fix a assume a: "has_field u2 a"
    show "\<exists>k\<le>length buf. span (field_char a) buf u2 a k"
    proof (cases "a \<in> ?mid")
      case True then show ?thesis using mid [OF a] e le_trans by blast
    next
      case False
      from a outer [OF False] have "has_field u a" by simp
      from url_inv_field(2) [OF inv this] obtain k where
        k: "k \<le> length buf" "span (raw_char a) buf u a k" by blast
      have "span (field_char a) buf u a k" by (rule span_mono [OF k(2)]) (use False in \<open>cases a; simp\<close>)
      then have "span (field_char a) buf u2 a k" using span_cong [OF outer(1,2) [OF False]] by simp
      with k(1) show ?thesis by blast
    qed
  next
    fix a b assume ab: "has_field u2 a \<and> has_field u2 b \<and> url_rank a < url_rank b"
    have ord: "field_end u c \<le> unat (off u d)" if "has_field u c" "has_field u d" "uf_num c < uf_num d" for c d
      by (rule url_inv_order [OF inv that])
    have out_end: "field_end u2 c = field_end u c" if "c \<notin> ?mid" for c
      using outer [OF that] by (simp add: field_end_def)
    show "field_end u2 a \<le> unat (off u2 b)"
    proof (cases "a \<in> ?mid"; cases "b \<in> ?mid")
      assume "a \<notin> ?mid" "b \<notin> ?mid"
      moreover from this ab have "uf_num a < uf_num b" by (cases a; cases b) auto
      ultimately show ?thesis using ab outer out_end ord by auto
    next
      assume m: "a \<notin> ?mid" "b \<in> ?mid"
      with ab have "uf_num a < uf_num UF_HOST" by (cases a; cases b) auto
      then have "field_end u a \<le> ?h0" using ord [of a UF_HOST] ab host outer(3) [OF m(1)] by simp
      also have "\<dots> \<le> unat (off u2 b)" using mid [of b] ab m by simp
      finally show ?thesis using out_end [OF m(1)] by simp
    next
      assume m: "a \<in> ?mid" "b \<notin> ?mid"
      with ab have "uf_num UF_HOST < uf_num b" by (cases a; cases b) auto
      then have "?e \<le> unat (off u b)" using ord [of UF_HOST b] ab host outer(3) [OF m(2)] by simp
      then show ?thesis using mid [of a] ab m outer(1) [OF m(2)] by simp
    next
      assume m: "a \<in> ?mid" "b \<in> ?mid"
      with ab consider "a = UF_USERINFO" "b = UF_HOST" | "a = UF_USERINFO" "b = UF_PORT" | "a = UF_HOST" "b = UF_PORT"
        by auto
      then show ?thesis
      proof cases
        case 1 then show ?thesis using ui ab by (auto dest: span_end)
      next
        case 2 then show ?thesis using ui ab port oh by (auto dest: span_end)
      next
        case 3 then show ?thesis using sh port ab by (auto dest: span_end)
      qed
    qed
  qed
qed


lemma span_field_bytes:
  assumes "span P buf u a e" and "e \<le> length buf"
  shows "field_end u a \<le> length buf" "field_bytes buf u a \<noteq> []" "list_all P (field_bytes buf u a)"
  using assms span_take [OF assms] by (auto simp: span_def field_end_def field_bytes_def)

lemma ucast_of_nat64_16: "n \<le> 65535 \<Longrightarrow> (ucast (of_nat n :: u64) :: u16) = of_nat n"
  by (simp add: unsigned_of_nat take_bit_nat_eq_self)

lemma url_port_run:
  assumes "url_fields_wf buf u" and "has_field u UF_PORT"
  shows "url_port buf u = (if dec_from 0 (field_bytes buf u UF_PORT) \<le> 65535
    then Returned 0 (u\<lparr>port := of_nat (dec_from 0 (field_bytes buf u UF_PORT))\<rparr>) else Returned 1 u)"
proof -
  from assms have "\<exists>e\<le>length buf. span (field_char UF_PORT) buf u UF_PORT e"
    unfolding url_fields_wf_def by blast
  then obtain e where "e \<le> length buf" "span IS_NUM buf u UF_PORT e" by auto
  from span_field_bytes [OF this(2,1)]
  have "field_end u UF_PORT \<le> length buf" "list_all IS_NUM (field_bytes buf u UF_PORT)" by auto
  with port_loop_exact [of "field_bytes buf u UF_PORT" 0] show ?thesis
    by (simp add: url_port_def Let_def field_end_def field_bytes_def ucast_of_nat64_16)
qed

lemma url_fields_wf_port: "url_fields_wf buf (u\<lparr>port := x\<rparr>) = url_fields_wf buf u"
  by (simp add: url_fields_wf_def span_def field_end_def)

text \<open>The result of the whole function, given the run of the loop.\<close>

definition url_result_ok :: "bytes \<Rightarrow> bool \<Rightarrow> http_parser_url \<Rightarrow> bool" where
  "url_result_ok buf is_connect u \<longleftrightarrow>
     (\<forall>a. has_field u a \<longrightarrow> field_end u a \<le> length buf \<and> field_bytes buf u a \<noteq> [] \<and>
        list_all (field_char a) (field_bytes buf u a)) \<and>
     (\<forall>a b. has_field u a \<and> has_field u b \<and> url_rank a < url_rank b \<longrightarrow>
        field_end u a \<le> unat (off u b)) \<and>
     (has_field u UF_SCHEMA \<longrightarrow> has_field u UF_HOST) \<and>
     (has_field u UF_PORT \<longrightarrow> unat (port u) = dec_from 0 (field_bytes buf u UF_PORT)) \<and>
     (is_connect \<longrightarrow> (\<forall>a. has_field u a \<longleftrightarrow> a = UF_HOST \<or> a = UF_PORT))"

lemma url_result_okI:
  assumes "url_fields_wf buf u" "has_field u UF_SCHEMA \<longrightarrow> has_field u UF_HOST"
    and "has_field u UF_PORT \<longrightarrow> unat (port u) = dec_from 0 (field_bytes buf u UF_PORT)"
    and "is_connect \<longrightarrow> field_set u = (uf_mask UF_HOST OR uf_mask UF_PORT)"
  shows "url_result_ok buf is_connect u"
proof -
  have "has_field u a \<longleftrightarrow> a = UF_HOST \<or> a = UF_PORT" if "field_set u = (uf_mask UF_HOST OR uf_mask UF_PORT)" for a
    unfolding has_field_def that by (cases a) (simp_all add: uf_mask_def)
  note conn = this
  have "field_end u a \<le> length buf \<and> field_bytes buf u a \<noteq> [] \<and> list_all (field_char a) (field_bytes buf u a)"
    if "has_field u a" for a
  proof -
    from that assms(1) obtain e where "e \<le> length buf" "span (field_char a) buf u a e"
      unfolding url_fields_wf_def by blast
    then show ?thesis using span_field_bytes by blast
  qed
  moreover have "field_end u a \<le> unat (off u b)"
    if "has_field u a \<and> has_field u b \<and> url_rank a < url_rank b" for a b
    using assms(1) that unfolding url_fields_wf_def by blast
  moreover have "is_connect \<longrightarrow> (\<forall>a. has_field u a \<longleftrightarrow> a = UF_HOST \<or> a = UF_PORT)"
    using assms(4) conn by blast
  ultimately show ?thesis unfolding url_result_ok_def using assms(2,3) by blast
qed

lemma http_parse_url_finish:
  assumes wf: "url_fields_wf buf u" and sch: "has_field u UF_SCHEMA \<longrightarrow> has_field u UF_HOST"
  shows "\<exists>r u'. (if is_connect \<and> field_set u \<noteq> (uf_mask UF_HOST OR uf_mask UF_PORT) then Returned 1 u
      else if has_field u UF_PORT then url_port buf u else Returned 0 u) = Returned r u' \<and>
    (r = 0 \<longrightarrow> url_result_ok buf is_connect u')"
proof (cases "is_connect \<and> field_set u \<noteq> (uf_mask UF_HOST OR uf_mask UF_PORT)")
  case True then show ?thesis by auto
next
  case False
  show ?thesis
  proof (cases "has_field u UF_PORT")
    case P: True
    let ?v = "dec_from 0 (field_bytes buf u UF_PORT)"
    show ?thesis
    proof (cases "?v \<le> 65535")
      case True
      have "url_result_ok buf is_connect (u\<lparr>port := of_nat ?v\<rparr>)"
        by (rule url_result_okI)
          (use wf sch P False True in \<open>auto simp: url_fields_wf_port field_bytes_def unat_of_nat16\<close>)
      then show ?thesis using False P url_port_run [OF wf P] True by auto
    next
      case v: False
      then show ?thesis using False P url_port_run [OF wf P] by auto
    qed
  next
    case N: False
    have "url_result_ok buf is_connect u" by (rule url_result_okI) (use wf sch N False in auto)
    then show ?thesis using False N by auto
  qed
qed

lemma http_parser_parse_url_ok:
  assumes len: "length buf < 65536"
  shows "\<exists>r u. http_parser_parse_url buf is_connect u0 = Returned r u \<and> (r = 0 \<longrightarrow> url_result_ok buf is_connect u)"
proof -
  let ?u0 = "u0\<lparr>port := 0, field_set := 0\<rparr>"
  let ?s0 = "if is_connect then s_req_server_start else s_req_spaces_before_url"
  define R where "R = url_loop buf 0 ?s0 None False ?u0"
  note run = http_parser_parse_url_def [of buf is_connect u0, unfolded Let_def, folded R_def]
  from url_loop_inv [OF url_inv_init, of buf buf is_connect False u0] len
  have inv: "R \<noteq> Scan_assert \<and> (\<forall>fa' u'. R = Scan_end fa' u' \<longrightarrow>
      (\<exists>s' old'. url_inv buf (length buf) s' old' u'))" unfolding R_def by simp
  show ?thesis
  proof (cases R)
    case (Scan_dead u) with run show ?thesis by simp
  next
    case Scan_assert with inv show ?thesis by simp
  next
    case (Scan_end fa u)
    with inv obtain s' old' where i: "url_inv buf (length buf) s' old' u" by blast
    show ?thesis
    proof (cases "has_field u UF_HOST")
      case False
      show ?thesis
      proof (cases "has_field u UF_SCHEMA")
        case True with False Scan_end run show ?thesis by simp
      next
        case S: False
        then have "has_field u UF_SCHEMA \<longrightarrow> has_field u UF_HOST" by simp
        from http_parse_url_finish [OF wf_no_host [OF i False] this, of is_connect]
        show ?thesis using False S Scan_end run by simp
      qed
    next
      case True
      obtain r u2 where r: "http_parse_host buf u fa = Returned r u2"
        "r = 0 \<Longrightarrow> host_frame u u2 \<and> (\<exists>eh\<le>field_end u UF_HOST. host_before buf (unat (off u UF_HOST)) eh u2 \<and>
      (has_field u2 UF_PORT \<longrightarrow> span IS_NUM buf u2 UF_PORT (field_end u UF_HOST) \<and> eh < unat (off u2 UF_PORT)))"
        using http_parse_host_run [OF i True len] by blast
      show ?thesis
      proof (cases "r = 0")
        case False with r(1) True Scan_end run show ?thesis by simp
      next
        case R0: True
        with r(2) obtain eh where eh: "host_frame u u2" "eh \<le> field_end u UF_HOST"
          "host_before buf (unat (off u UF_HOST)) eh u2"
          "has_field u2 UF_PORT \<longrightarrow> span IS_NUM buf u2 UF_PORT (field_end u UF_HOST) \<and> eh < unat (off u2 UF_PORT)"
          by blast
        have "url_fields_wf buf u2" by (rule wf_host [OF i True eh(1,3,2,4)])
        moreover have "has_field u2 UF_SCHEMA \<longrightarrow> has_field u2 UF_HOST" using eh(1) True by (simp add: host_frame_def)
        ultimately show ?thesis using http_parse_url_finish [of buf u2 is_connect] r(1) R0 True Scan_end run by simp
      qed
    qed
  qed
qed


text \<open>
  C17. For a URL shorter than 65536 bytes the parser never reads outside the buffer and no
  assertion fails; and when it returns 0, every field it reports is a non-empty part of
  the buffer made of characters that field allows, the fields appear in the order schema,
  user information, host, port, path, query, fragment and do not overlap, a schema comes
  with a host, the port is the value of its digits, and a CONNECT target is exactly a
  host and a port.
\<close>

theorem http_parser_parse_url_sound:
  assumes "length buf < 65536"
  shows "\<exists>r u. http_parser_parse_url buf is_connect u0 = Returned r u \<and>
    (r = 0 \<longrightarrow>
      (\<forall>a. has_field u a \<longrightarrow> field_end u a \<le> length buf \<and> field_bytes buf u a \<noteq> [] \<and>
        list_all (field_char a) (field_bytes buf u a)) \<and>
      (\<forall>a b. has_field u a \<and> has_field u b \<and> url_rank a < url_rank b \<longrightarrow>
        field_end u a \<le> unat (off u b)) \<and>
      (has_field u UF_SCHEMA \<longrightarrow> has_field u UF_HOST) \<and>
      (has_field u UF_PORT \<longrightarrow> unat (port u) = dec_from 0 (field_bytes buf u UF_PORT)) \<and>
      (is_connect \<longrightarrow> (\<forall>a. has_field u a \<longleftrightarrow> a = UF_HOST \<or> a = UF_PORT)))"
  using http_parser_parse_url_ok [OF assms] unfolding url_result_ok_def .

section \<open>Long paths\<close>

lemma url_char_parse: "IS_URL_CHAR c \<Longrightarrow> parse_url_char s_req_path c = s_req_path"
proof -
  assume c: "IS_URL_CHAR c"
  have "\<not> IS_URL_CHAR c_SP" "\<not> IS_URL_CHAR c_CR" "\<not> IS_URL_CHAR c_LF" "\<not> IS_URL_CHAR c_TAB" "\<not> IS_URL_CHAR c_FF"
    by (simp_all add: IS_URL_CHAR_def BIT_AT_def normal_url_char_def)
  with c have "c \<noteq> c_SP" "c \<noteq> c_CR" "c \<noteq> c_LF" "c \<noteq> c_TAB" "c \<noteq> c_FF" by metis+
  with c show ?thesis by (simp add: parse_url_char_def)
qed

lemma url_loop_path:
  assumes "list_all IS_URL_CHAR xs"
  shows "url_loop xs p s_req_path (Some UF_PATH) fa u =
    Scan_end fa (set_len UF_PATH (len u UF_PATH + of_nat (length xs)) u)"
  using assms
proof (induction xs arbitrary: p u)
  case Nil
  have "set_len UF_PATH (len u UF_PATH) u = u" by (simp add: set_len_def)
  then show ?case by simp
next
  case (Cons x xs)
  then have "parse_url_char s_req_path x = s_req_path" by (simp add: url_char_parse)
  with Cons show ?case by (simp add: url_class_def inc_len_def) (simp add: set_len_def ac_simps)
qed

lemma parse_path_only:
  assumes "list_all IS_URL_CHAR xs"
  shows "\<exists>u. http_parser_parse_url (c_slash # xs) False u0 = Returned 0 u \<and> has_field u UF_PATH \<and>
    off u UF_PATH = 0 \<and> len u UF_PATH = of_nat (length xs + 1)"
proof -
  define u1 where "u1 = add_field UF_PATH (set_len UF_PATH 1 (set_off UF_PATH 0 (u0\<lparr>port := 0, field_set := 0\<rparr>)))"
  have "parse_url_char s_req_spaces_before_url c_slash = s_req_path" by (simp add: parse_url_char_def)
  then have "url_loop (c_slash # xs) 0 s_req_spaces_before_url None False (u0\<lparr>port := 0, field_set := 0\<rparr>) =
    url_loop xs 1 s_req_path (Some UF_PATH) False u1"
    unfolding u1_def by (simp add: url_class_def)
  also have "\<dots> = Scan_end False (set_len UF_PATH (len u1 UF_PATH + of_nat (length xs)) u1)"
    by (rule url_loop_path [OF assms])
  finally have run: "url_loop (c_slash # xs) 0 s_req_spaces_before_url None False (u0\<lparr>port := 0, field_set := 0\<rparr>) =
    Scan_end False (set_len UF_PATH (len u1 UF_PATH + of_nat (length xs)) u1)" .
  have "has_field u1 a \<longleftrightarrow> a = UF_PATH" "len u1 UF_PATH = 1" "off u1 UF_PATH = 0" for a
    by (auto simp: u1_def)
  with run show ?thesis by (simp add: http_parser_parse_url_def)
qed

text \<open>
  Every path of URL characters is accepted, and a path of 65536 of them is reported
  with length 0: the 16-bit length of the struct wraps.
\<close>

theorem parse_url_path_length_wraps:
  "(\<forall>n. \<exists>u. http_parser_parse_url (c_slash # replicate n c_la) False u0 = Returned 0 u \<and>
      has_field u UF_PATH \<and> off u UF_PATH = 0 \<and> len u UF_PATH = of_nat (n + 1)) \<and>
   (\<exists>u. http_parser_parse_url (c_slash # replicate 65535 c_la) False u0 = Returned 0 u \<and>
      has_field u UF_PATH \<and> len u UF_PATH = 0)"
proof (intro conjI allI)
  have a: "list_all IS_URL_CHAR (replicate n c_la)" for n
    by (induction n) (simp_all add: IS_URL_CHAR_def BIT_AT_def normal_url_char_def)
  then show p: "\<exists>u. http_parser_parse_url (c_slash # replicate n c_la) False u0 = Returned 0 u \<and>
      has_field u UF_PATH \<and> off u UF_PATH = 0 \<and> len u UF_PATH = of_nat (n + 1)" for n
    using parse_path_only [OF a, of n u0] by (simp only: length_replicate)
  have "of_nat (65535 + 1) = (0 :: u16)" by simp
  with p [of 65535] show "\<exists>u. http_parser_parse_url (c_slash # replicate 65535 c_la) False u0 = Returned 0 u \<and>
      has_field u UF_PATH \<and> len u UF_PATH = 0" by metis
qed

section \<open>An example\<close>

text \<open>\<open>http://u@h:80/p?q#f\<close>.\<close>

definition example_url :: bytes where
  "example_url = map of_char ''http://u@h:80/p?q#f''"

lemma example_url_parse:
  "case http_parser_parse_url example_url False http_parser_url_init of
     Returned r u \<Rightarrow> r = 0 \<and> port u = 80 \<and> field_set u = 0x7f \<and>
       field_bytes example_url u UF_HOST = map of_char ''h'' \<and>
       field_bytes example_url u UF_USERINFO = map of_char ''u'' \<and>
       field_bytes example_url u UF_FRAGMENT = map of_char ''f''
   | _ \<Rightarrow> False"
  by code_simp

lemma example_url_fields:
  "case http_parser_parse_url example_url False http_parser_url_init of
     Returned r u \<Rightarrow> list_all (has_field u) [UF_SCHEMA, UF_HOST, UF_PORT, UF_PATH, UF_QUERY, UF_FRAGMENT, UF_USERINFO]
   | _ \<Rightarrow> False"
  by code_simp

theorem http_parser_parse_url_sound_witness:
  "length example_url < 65536 \<and>
   (\<exists>u. http_parser_parse_url example_url False http_parser_url_init = Returned 0 u \<and> port u = 80 \<and>
      list_all IS_NUM (field_bytes example_url u UF_PORT) \<and>
      list_all host_char (field_bytes example_url u UF_HOST) \<and>
      field_end u UF_SCHEMA \<le> unat (off u UF_USERINFO) \<and>
      dec_from 0 (field_bytes example_url u UF_PORT) = 80)"
proof (intro conjI)
  show l: "length example_url < 65536" by (simp add: example_url_def)
  obtain r u where u: "http_parser_parse_url example_url False http_parser_url_init = Returned r u"
    and imp: "r = 0 \<longrightarrow> (\<forall>a. has_field u a \<longrightarrow> field_end u a \<le> length example_url \<and>
        field_bytes example_url u a \<noteq> [] \<and> list_all (field_char a) (field_bytes example_url u a)) \<and>
      (\<forall>a b. has_field u a \<and> has_field u b \<and> url_rank a < url_rank b \<longrightarrow> field_end u a \<le> unat (off u b)) \<and>
      (has_field u UF_SCHEMA \<longrightarrow> has_field u UF_HOST) \<and>
      (has_field u UF_PORT \<longrightarrow> unat (port u) = dec_from 0 (field_bytes example_url u UF_PORT)) \<and>
      (False \<longrightarrow> (\<forall>a. has_field u a \<longleftrightarrow> a = UF_HOST \<or> a = UF_PORT))"
    using http_parser_parse_url_sound [OF l, of False http_parser_url_init] by blast
  from example_url_parse example_url_fields u
  have r: "r = 0" "port u = 80" and f: "has_field u UF_SCHEMA" "has_field u UF_HOST" "has_field u UF_PORT" "has_field u UF_USERINFO"
    by simp_all
  from imp r(1) have all: "\<And>a. has_field u a \<Longrightarrow> list_all (field_char a) (field_bytes example_url u a)"
    "\<And>a b. has_field u a \<and> has_field u b \<and> url_rank a < url_rank b \<Longrightarrow> field_end u a \<le> unat (off u b)"
    "unat (port u) = dec_from 0 (field_bytes example_url u UF_PORT)" using f(3) by blast+
  show "\<exists>u. http_parser_parse_url example_url False http_parser_url_init = Returned 0 u \<and> port u = 80 \<and>
      list_all IS_NUM (field_bytes example_url u UF_PORT) \<and>
      list_all host_char (field_bytes example_url u UF_HOST) \<and>
      field_end u UF_SCHEMA \<le> unat (off u UF_USERINFO) \<and>
      dec_from 0 (field_bytes example_url u UF_PORT) = 80"
    using u r f all(1) [of UF_PORT] all(1) [of UF_HOST] all(2) [of UF_SCHEMA UF_USERINFO] all(3)
    by (intro exI [of _ u]) simp
qed

end
