(* ===== verification/Http_Parser.thy ===== *)
theory Http_Parser
  imports Http_Url
begin

text \<open>
  The message parser of \<open>httpserver/http_parser.cc\<close>: the parser object, its settings, and
  \<open>http_parser_execute\<close> with one definition per group of states, in the order of the
  switch.

  The local variables of \<open>http_parser_execute\<close> are the record \<open>exec\<close>: the position
  \<open>p - data\<close>, the current byte, the current state \<open>p_state\<close> (which is not the field
  \<open>state\<close> of the parser until a macro stores it), and the marks. The ways out of a
  state's code are the values of \<open>ctl\<close>. A callback is a function on the parser object, which it may
  change in any way; \<open>hp_data\<close> stands for the object behind the \<open>data\<close> pointer.
  The byte just beyond the buffer is a parameter, \<open>None\<close> when it must not be read.
\<close>

section \<open>The parser object\<close>

record 'd http_parser =
  hp_type :: http_parser_type
  hp_flags :: u8
  hp_state :: state
  hp_header_state :: header_states
  hp_index :: "7 word"
  hp_lenient :: bool
  hp_nread :: u32
  hp_content_length :: u64
  hp_major :: u16
  hp_minor :: u16
  hp_status_code :: u16
  hp_method :: http_method
  hp_errno :: http_errno
  hp_upgrade :: bool
  hp_data :: 'd

abbreviation ULLONG_MAX :: u64 where "ULLONG_MAX \<equiv> -1"

definition http_parser_init :: "http_parser_type \<Rightarrow> 'd http_parser \<Rightarrow> 'd http_parser" where
  "http_parser_init t parser =
    \<lparr> hp_type = t, hp_flags = 0,
      hp_state = (if t = HTTP_REQUEST then s_start_req
                  else if t = HTTP_RESPONSE then s_start_res else s_start_req_or_res),
      hp_header_state = h_general, hp_index = 0, hp_lenient = False, hp_nread = 0,
      hp_content_length = 0, hp_major = 0, hp_minor = 0, hp_status_code = 0,
      hp_method = HTTP_DELETE, hp_errno = HPE_OK, hp_upgrade = False, hp_data = hp_data parser \<rparr>"

text \<open>Pausing a parser that is in an error state is an assertion failure (\<open>None\<close>).\<close>

definition http_parser_pause :: "'d http_parser \<Rightarrow> bool \<Rightarrow> 'd http_parser option" where
  "http_parser_pause parser paused =
    (if hp_errno parser = HPE_OK \<or> hp_errno parser = HPE_PAUSED
     then Some (parser\<lparr>hp_errno := (if paused then HPE_PAUSED else HPE_OK)\<rparr>) else None)"

definition http_body_is_final :: "'d http_parser \<Rightarrow> bool" where
  "http_body_is_final parser \<longleftrightarrow> hp_state parser = s_message_done"

definition http_message_needs_eof :: "'d http_parser \<Rightarrow> bool" where
  "http_message_needs_eof parser =
    (if hp_type parser = HTTP_REQUEST then False
     else if hp_status_code parser div 100 = 1 \<or> hp_status_code parser = 204 \<or>
             hp_status_code parser = 304 \<or> flag (hp_flags parser) F_SKIPBODY then False
     else if flag (hp_flags parser) F_CHUNKED \<or> hp_content_length parser \<noteq> ULLONG_MAX then False
     else True)"

definition http_should_keep_alive :: "'d http_parser \<Rightarrow> bool" where
  "http_should_keep_alive parser =
    (if hp_major parser > 0 \<and> hp_minor parser > 0 then
       (if flag (hp_flags parser) F_CONNECTION_CLOSE then False else \<not> http_message_needs_eof parser)
     else
       (if \<not> flag (hp_flags parser) F_CONNECTION_KEEP_ALIVE then False
        else \<not> http_message_needs_eof parser))"

definition http_method_str :: "http_method \<Rightarrow> string" where
  "http_method_str m = method_string m"

section \<open>Callbacks\<close>

datatype notify = N_message_begin | N_headers_complete | N_message_complete
  | N_chunk_header | N_chunk_complete

datatype data_cb = D_url | D_status | D_header_field | D_header_value | D_body

record 'd http_parser_settings =
  on_notify :: "notify \<Rightarrow> ('d http_parser \<Rightarrow> int \<times> 'd http_parser) option"
  on_data :: "data_cb \<Rightarrow> ('d http_parser \<Rightarrow> bytes \<Rightarrow> int \<times> 'd http_parser) option"

definition http_parser_settings_init :: "'d http_parser_settings" where
  "http_parser_settings_init = \<lparr> on_notify = (\<lambda>_. None), on_data = (\<lambda>_. None) \<rparr>"

primrec notify_errno :: "notify \<Rightarrow> http_errno" where
    "notify_errno N_message_begin = HPE_CB_message_begin"
  | "notify_errno N_headers_complete = HPE_CB_headers_complete"
  | "notify_errno N_message_complete = HPE_CB_message_complete"
  | "notify_errno N_chunk_header = HPE_CB_chunk_header"
  | "notify_errno N_chunk_complete = HPE_CB_chunk_complete"

primrec data_errno :: "data_cb \<Rightarrow> http_errno" where
    "data_errno D_url = HPE_CB_url"
  | "data_errno D_status = HPE_CB_status"
  | "data_errno D_header_field = HPE_CB_header_field"
  | "data_errno D_header_value = HPE_CB_header_value"
  | "data_errno D_body = HPE_CB_body"

section \<open>The local state of an execution\<close>

record 'd exec =
  parser :: "'d http_parser"
  cur :: state
  pos :: nat
  cch :: u8
  lenient :: bool
  marks :: "data_cb \<Rightarrow> nat option"

text \<open>
  \<open>Break\<close> is a \<open>break\<close> out of the switch, \<open>Reexecute\<close> the jump to \<open>reexecute\<close>,
  \<open>Goto_error\<close> the jump to \<open>error\<close>, \<open>Return\<close> a return with the given value, \<open>Abort\<close> a
  failed assertion and \<open>Read_beyond\<close> a read outside an object.
\<close>

datatype 'd ctl = Break "'d exec" | Reexecute "'d exec" | Goto_error "'d exec"
  | Return nat "'d http_parser" | Abort | Read_beyond

definition proceed :: "'d ctl \<Rightarrow> ('d exec \<Rightarrow> 'd ctl) \<Rightarrow> 'd ctl" where
  "proceed c k = (case c of Break x \<Rightarrow> k x | _ \<Rightarrow> c)"

definition upd :: "('d http_parser \<Rightarrow> 'd http_parser) \<Rightarrow> 'd exec \<Rightarrow> 'd exec" where
  "upd f x = x\<lparr>parser := f (parser x)\<rparr>"

definition goto :: "state \<Rightarrow> 'd exec \<Rightarrow> 'd exec" where
  "goto s x = x\<lparr>cur := s\<rparr>"

definition set_errno :: "http_errno \<Rightarrow> 'd exec \<Rightarrow> 'd exec" where
  "set_errno e x = upd (hp_errno_update (\<lambda>_. e)) x"

definition fail :: "http_errno \<Rightarrow> 'd exec \<Rightarrow> 'd ctl" where
  "fail e x = Goto_error (set_errno e x)"

definition ret :: "nat \<Rightarrow> 'd exec \<Rightarrow> 'd ctl" where
  "ret n x = Return n ((parser x)\<lparr>hp_state := cur x\<rparr>)"

text \<open>\<open>STRICT_CHECK(cond)\<close> followed by the code \<open>k\<close>.\<close>

definition strict_check :: "bool \<Rightarrow> 'd exec \<Rightarrow> 'd ctl \<Rightarrow> 'd ctl" where
  "strict_check cond x k = (if cond then fail HPE_STRICT x else k)"

definition set_mark :: "data_cb \<Rightarrow> 'd exec \<Rightarrow> 'd exec" where
  "set_mark d x = (if marks x d = None then x\<lparr>marks := (marks x)(d := Some (pos x))\<rparr> else x)"

text \<open>
  \<open>CALLBACK_NOTIFY_(FOR, ER)\<close>: the current state is stored before the call and reloaded
  after it, so a callback may move the parser to another state.
\<close>

definition callback_notify :: "'d http_parser_settings \<Rightarrow> notify \<Rightarrow> nat \<Rightarrow> 'd exec \<Rightarrow> 'd ctl" where
  "callback_notify st n er x =
    (if hp_errno (parser x) \<noteq> HPE_OK then Abort
     else case on_notify st n of
       None \<Rightarrow> Break x
     | Some f \<Rightarrow>
        (let (r, q) = f ((parser x)\<lparr>hp_state := cur x\<rparr>);
             q = (if r \<noteq> 0 then q\<lparr>hp_errno := notify_errno n\<rparr> else q);
             x = x\<lparr>parser := q, cur := hp_state q\<rparr>
         in if hp_errno q \<noteq> HPE_OK then Return er q else Break x))"

text \<open>\<open>CALLBACK_DATA_(FOR, LEN, ER)\<close> with the bytes from the mark on.\<close>

definition callback_data :: "'d http_parser_settings \<Rightarrow> bytes \<Rightarrow> data_cb \<Rightarrow> nat \<Rightarrow> nat \<Rightarrow> 'd exec \<Rightarrow> 'd ctl" where
  "callback_data st data d till er x =
    (if hp_errno (parser x) \<noteq> HPE_OK then Abort
     else case marks x d of
       None \<Rightarrow> Break x
     | Some m \<Rightarrow>
        (case on_data st d of
           None \<Rightarrow> Break (x\<lparr>marks := (marks x)(d := None)\<rparr>)
         | Some f \<Rightarrow>
            (let (r, q) = f ((parser x)\<lparr>hp_state := cur x\<rparr>) (take (till - m) (drop m data));
                 q = (if r \<noteq> 0 then q\<lparr>hp_errno := data_errno d\<rparr> else q);
                 x = x\<lparr>parser := q, cur := hp_state q, marks := (marks x)(d := None)\<rparr>
             in if hp_errno q \<noteq> HPE_OK then Return er q else Break x)))"

definition CALLBACK_NOTIFY :: "'d http_parser_settings \<Rightarrow> notify \<Rightarrow> 'd exec \<Rightarrow> 'd ctl" where
  "CALLBACK_NOTIFY st n x = callback_notify st n (pos x + 1) x"

definition CALLBACK_NOTIFY_NOADVANCE :: "'d http_parser_settings \<Rightarrow> notify \<Rightarrow> 'd exec \<Rightarrow> 'd ctl" where
  "CALLBACK_NOTIFY_NOADVANCE st n x = callback_notify st n (pos x) x"

definition CALLBACK_DATA :: "'d http_parser_settings \<Rightarrow> bytes \<Rightarrow> data_cb \<Rightarrow> 'd exec \<Rightarrow> 'd ctl" where
  "CALLBACK_DATA st data d x = callback_data st data d (pos x) (pos x + 1) x"

definition CALLBACK_DATA_NOADVANCE :: "'d http_parser_settings \<Rightarrow> bytes \<Rightarrow> data_cb \<Rightarrow> 'd exec \<Rightarrow> 'd ctl" where
  "CALLBACK_DATA_NOADVANCE st data d x = callback_data st data d (pos x) (pos x) x"

definition COUNT_HEADER_SIZE :: "nat \<Rightarrow> 'd exec \<Rightarrow> 'd ctl" where
  "COUNT_HEADER_SIZE v x =
    (let x = upd (\<lambda>q. q\<lparr>hp_nread := hp_nread q + of_nat v\<rparr>) x in
     if hp_nread (parser x) > HTTP_MAX_HEADER_SIZE then fail HPE_HEADER_OVERFLOW x else Break x)"

definition start_state :: "'d http_parser \<Rightarrow> state" where
  "start_state q = (if hp_type q = HTTP_REQUEST then s_start_req else s_start_res)"

definition NEW_MESSAGE :: "'d exec \<Rightarrow> state" where
  "NEW_MESSAGE x = (if http_should_keep_alive (parser x) then start_state (parser x) else s_dead)"

section \<open>Start states\<close>

definition begin_message :: "'d exec \<Rightarrow> 'd exec" where
  "begin_message x = upd (\<lambda>q. q\<lparr>hp_flags := 0, hp_content_length := ULLONG_MAX\<rparr>) x"

definition exec_dead :: "'d exec \<Rightarrow> 'd ctl" where
  "exec_dead x = (if cch x = c_CR \<or> cch x = c_LF then Break x else fail HPE_CLOSED_CONNECTION x)"

definition exec_start_req_or_res :: "'d http_parser_settings \<Rightarrow> 'd exec \<Rightarrow> 'd ctl" where
  "exec_start_req_or_res st x =
    (if cch x = c_CR \<or> cch x = c_LF then Break x
     else let x = begin_message x in
       if cch x = c_H then CALLBACK_NOTIFY st N_message_begin (goto s_res_or_resp_H x)
       else Reexecute (goto s_start_req (upd (hp_type_update (\<lambda>_. HTTP_REQUEST)) x)))"

definition exec_res_or_resp_H :: "'d exec \<Rightarrow> 'd ctl" where
  "exec_res_or_resp_H x =
    (if cch x = c_T then Break (goto s_res_HT (upd (hp_type_update (\<lambda>_. HTTP_RESPONSE)) x))
     else if cch x \<noteq> c_E then fail HPE_INVALID_CONSTANT x
     else Break (goto s_req_method
            (upd (\<lambda>q. q\<lparr>hp_type := HTTP_REQUEST, hp_method := HTTP_HEAD, hp_index := 2\<rparr>) x)))"

definition exec_start_res :: "'d http_parser_settings \<Rightarrow> 'd exec \<Rightarrow> 'd ctl" where
  "exec_start_res st x =
    (let x = begin_message x in
     if cch x = c_H then CALLBACK_NOTIFY st N_message_begin (goto s_res_H x)
     else if cch x = c_CR \<or> cch x = c_LF then CALLBACK_NOTIFY st N_message_begin x
     else fail HPE_INVALID_CONSTANT x)"

text \<open>The byte at offset \<open>i\<close>; beyond the buffer there may be nothing to read.\<close>

definition peek :: "bytes \<Rightarrow> u8 option \<Rightarrow> nat \<Rightarrow> u8 option" where
  "peek data beyond i =
    (if i < length data then Some (data ! i) else if i = length data then beyond else None)"

definition first_letter :: "u8 \<Rightarrow> http_method option" where
  "first_letter ch =
    (if ch = c_A then Some HTTP_ACL else if ch = c_B then Some HTTP_BIND
     else if ch = c_C then Some HTTP_CONNECT else if ch = c_D then Some HTTP_DELETE
     else if ch = c_G then Some HTTP_GET else if ch = c_H then Some HTTP_HEAD
     else if ch = c_L then Some HTTP_LOCK else if ch = c_M then Some HTTP_MKCOL
     else if ch = c_N then Some HTTP_NOTIFY else if ch = c_O then Some HTTP_OPTIONS
     else if ch = c_R then Some HTTP_REPORT else if ch = c_S then Some HTTP_SUBSCRIBE
     else if ch = c_T then Some HTTP_TRACE else if ch = c_U then Some HTTP_UNLOCK else None)"

text \<open>
  For \<open>P\<close> the source looks at the next byte; its test \<open>p != data + len\<close> is always true
  inside the loop, so the byte is read even when \<open>P\<close> is the last one of the buffer.
\<close>

definition exec_start_req :: "'d http_parser_settings \<Rightarrow> bytes \<Rightarrow> u8 option \<Rightarrow> 'd exec \<Rightarrow> 'd ctl" where
  "exec_start_req st data beyond x =
    (if cch x = c_CR \<or> cch x = c_LF then Break x
     else let x = begin_message x in
       if \<not> IS_ALPHA (cch x) then fail HPE_INVALID_METHOD x
       else
         (let x = upd (\<lambda>q. q\<lparr>hp_method := HTTP_DELETE, hp_index := 1\<rparr>) x;
              go = (\<lambda>m. CALLBACK_NOTIFY st N_message_begin
                          (goto s_req_method (upd (hp_method_update (\<lambda>_. m)) x)))
          in if cch x = c_P then
               (case peek data beyond (pos x + 1) of
                  None \<Rightarrow> Read_beyond
                | Some b \<Rightarrow> go (if b = c_U then HTTP_PUT else HTTP_POST))
             else case first_letter (cch x) of
                    None \<Rightarrow> fail HPE_INVALID_METHOD x
                  | Some m \<Rightarrow> go m))"

section \<open>The status line\<close>

definition ch_digit :: "u8 \<Rightarrow> u16" where
  "ch_digit c = ucast c - 48"

definition exec_res_version :: "'d exec \<Rightarrow> 'd ctl" where
  "exec_res_version x =
    (case cur x of
       s_res_H \<Rightarrow> strict_check (cch x \<noteq> c_T) x (Break (goto s_res_HT x))
     | s_res_HT \<Rightarrow> strict_check (cch x \<noteq> c_T) x (Break (goto s_res_HTT x))
     | s_res_HTT \<Rightarrow> strict_check (cch x \<noteq> c_P) x (Break (goto s_res_HTTP x))
     | s_res_HTTP \<Rightarrow> strict_check (cch x \<noteq> c_slash) x (Break (goto s_res_http_major x))
     | s_res_http_major \<Rightarrow>
         if \<not> IS_NUM (cch x) then fail HPE_INVALID_VERSION x
         else Break (goto s_res_http_dot (upd (hp_major_update (\<lambda>_. ch_digit (cch x))) x))
     | s_res_http_dot \<Rightarrow>
         if cch x \<noteq> c_dot then fail HPE_INVALID_VERSION x else Break (goto s_res_http_minor x)
     | s_res_http_minor \<Rightarrow>
         if \<not> IS_NUM (cch x) then fail HPE_INVALID_VERSION x
         else Break (goto s_res_http_end (upd (hp_minor_update (\<lambda>_. ch_digit (cch x))) x))
     | s_res_http_end \<Rightarrow>
         if cch x \<noteq> c_SP then fail HPE_INVALID_VERSION x
         else Break (goto s_res_first_status_code x)
     | _ \<Rightarrow> Abort)"

definition exec_res_status :: "'d http_parser_settings \<Rightarrow> bytes \<Rightarrow> 'd exec \<Rightarrow> 'd ctl" where
  "exec_res_status st data x =
    (case cur x of
       s_res_first_status_code \<Rightarrow>
         if \<not> IS_NUM (cch x) then (if cch x = c_SP then Break x else fail HPE_INVALID_STATUS x)
         else Break (goto s_res_status_code (upd (hp_status_code_update (\<lambda>_. ch_digit (cch x))) x))
     | s_res_status_code \<Rightarrow>
         if \<not> IS_NUM (cch x) then
           (if cch x = c_SP then Break (goto s_res_status_start x)
            else if cch x = c_CR \<or> cch x = c_LF then Reexecute (goto s_res_status_start x)
            else fail HPE_INVALID_STATUS x)
         else
           (let x = upd (\<lambda>q. q\<lparr>hp_status_code := hp_status_code q * 10 + ch_digit (cch x)\<rparr>) x in
            if hp_status_code (parser x) > 999 then fail HPE_INVALID_STATUS x else Break x)
     | s_res_status_start \<Rightarrow>
         (let x = upd (hp_index_update (\<lambda>_. 0)) (goto s_res_status (set_mark D_status x)) in
          if cch x = c_CR \<or> cch x = c_LF then Reexecute x else Break x)
     | s_res_status \<Rightarrow>
         if cch x = c_CR then CALLBACK_DATA st data D_status (goto s_res_line_almost_done x)
         else if cch x = c_LF then CALLBACK_DATA st data D_status (goto s_header_field_start x)
         else Break x
     | s_res_line_almost_done \<Rightarrow>
         strict_check (cch x \<noteq> c_LF) x (Break (goto s_header_field_start x))
     | _ \<Rightarrow> Abort)"


section \<open>The request line\<close>

text \<open>Reading a C string, whose terminating zero is its last readable byte.\<close>

definition cstr_at :: "string \<Rightarrow> 7 word \<Rightarrow> u8 option" where
  "cstr_at s i = (if unat i < length (cstr s) then Some (cstr s ! unat i) else None)"

text \<open>Where the names of two methods part: method so far, position, byte, other method.\<close>

definition method_table :: "((http_method \<times> nat \<times> u8) \<times> http_method) list" where
  "method_table =
    [((HTTP_POST, 1, c_U), HTTP_PUT),
     ((HTTP_POST, 1, c_A), HTTP_PATCH),
     ((HTTP_POST, 1, c_R), HTTP_PROPFIND),
     ((HTTP_PUT, 2, c_R), HTTP_PURGE),
     ((HTTP_CONNECT, 1, c_H), HTTP_CHECKOUT),
     ((HTTP_CONNECT, 2, c_P), HTTP_COPY),
     ((HTTP_MKCOL, 1, c_O), HTTP_MOVE),
     ((HTTP_MKCOL, 1, c_E), HTTP_MERGE),
     ((HTTP_MKCOL, 1, c_minus), HTTP_MSEARCH),
     ((HTTP_MKCOL, 2, c_A), HTTP_MKACTIVITY),
     ((HTTP_MKCOL, 3, c_A), HTTP_MKCALENDAR),
     ((HTTP_SUBSCRIBE, 1, c_E), HTTP_SEARCH),
     ((HTTP_SUBSCRIBE, 1, c_O), HTTP_SOURCE),
     ((HTTP_REPORT, 2, c_B), HTTP_REBIND),
     ((HTTP_PROPFIND, 4, c_P), HTTP_PROPPATCH),
     ((HTTP_LOCK, 1, c_I), HTTP_LINK),
     ((HTTP_UNLOCK, 2, c_S), HTTP_UNSUBSCRIBE),
     ((HTTP_UNLOCK, 2, c_B), HTTP_UNBIND),
     ((HTTP_UNLOCK, 3, c_I), HTTP_UNLINK)]"

definition exec_req_method :: "'d exec \<Rightarrow> 'd ctl" where
  "exec_req_method x =
    (let ch = cch x; m = hp_method (parser x); i = hp_index (parser x);
         advance = (\<lambda>x. Break (upd (\<lambda>q. q\<lparr>hp_index := hp_index q + 1\<rparr>) x))
     in if ch = c_NUL then fail HPE_INVALID_METHOD x
        else case cstr_at (method_string m) i of
          None \<Rightarrow> Read_beyond
        | Some b \<Rightarrow>
            if ch = c_SP \<and> b = c_NUL then advance (goto s_req_spaces_before_url x)
            else if ch = b then advance x
            else if (c_A \<le> ch \<and> ch \<le> c_Z) \<or> ch = c_minus then
              (case map_of method_table (m, unat i, ch) of
                 None \<Rightarrow> fail HPE_INVALID_METHOD x
               | Some m' \<Rightarrow> advance (upd (hp_method_update (\<lambda>_. m')) x))
            else fail HPE_INVALID_METHOD x)"

definition url_byte :: "'d exec \<Rightarrow> 'd ctl" where
  "url_byte x =
    (let x = goto (parse_url_char (cur x) (cch x)) x in
     if cur x = s_dead then fail HPE_INVALID_URL x else Break x)"

definition exec_spaces_before_url :: "'d exec \<Rightarrow> 'd ctl" where
  "exec_spaces_before_url x =
    (if cch x = c_SP then Break x
     else let x = set_mark D_url x;
              x = (if hp_method (parser x) = HTTP_CONNECT then goto s_req_server_start x else x)
          in url_byte x)"

definition exec_url_start :: "'d exec \<Rightarrow> 'd ctl" where
  "exec_url_start x =
    (if cch x = c_SP \<or> cch x = c_CR \<or> cch x = c_LF then fail HPE_INVALID_URL x else url_byte x)"

definition exec_url :: "'d http_parser_settings \<Rightarrow> bytes \<Rightarrow> 'd exec \<Rightarrow> 'd ctl" where
  "exec_url st data x =
    (if cch x = c_SP then CALLBACK_DATA st data D_url (goto s_req_http_start x)
     else if cch x = c_CR \<or> cch x = c_LF then
       CALLBACK_DATA st data D_url
         (goto (if cch x = c_CR then s_req_line_almost_done else s_header_field_start)
           (upd (\<lambda>q. q\<lparr>hp_major := 0, hp_minor := 9\<rparr>) x))
     else url_byte x)"

definition exec_req_version :: "'d exec \<Rightarrow> 'd ctl" where
  "exec_req_version x =
    (case cur x of
       s_req_http_start \<Rightarrow>
         if cch x = c_H then Break (goto s_req_http_H x)
         else if cch x = c_SP then Break x
         else fail HPE_INVALID_CONSTANT x
     | s_req_http_H \<Rightarrow> strict_check (cch x \<noteq> c_T) x (Break (goto s_req_http_HT x))
     | s_req_http_HT \<Rightarrow> strict_check (cch x \<noteq> c_T) x (Break (goto s_req_http_HTT x))
     | s_req_http_HTT \<Rightarrow> strict_check (cch x \<noteq> c_P) x (Break (goto s_req_http_HTTP x))
     | s_req_http_HTTP \<Rightarrow> strict_check (cch x \<noteq> c_slash) x (Break (goto s_req_http_major x))
     | s_req_http_major \<Rightarrow>
         if \<not> IS_NUM (cch x) then fail HPE_INVALID_VERSION x
         else Break (goto s_req_http_dot (upd (hp_major_update (\<lambda>_. ch_digit (cch x))) x))
     | s_req_http_dot \<Rightarrow>
         if cch x \<noteq> c_dot then fail HPE_INVALID_VERSION x else Break (goto s_req_http_minor x)
     | s_req_http_minor \<Rightarrow>
         if \<not> IS_NUM (cch x) then fail HPE_INVALID_VERSION x
         else Break (goto s_req_http_end (upd (hp_minor_update (\<lambda>_. ch_digit (cch x))) x))
     | s_req_http_end \<Rightarrow>
         if cch x = c_CR then Break (goto s_req_line_almost_done x)
         else if cch x = c_LF then Break (goto s_header_field_start x)
         else fail HPE_INVALID_VERSION x
     | s_req_line_almost_done \<Rightarrow>
         if cch x \<noteq> c_LF then fail HPE_LF_EXPECTED x else Break (goto s_header_field_start x)
     | _ \<Rightarrow> Abort)"

section \<open>Header fields\<close>

definition exec_header_field_start :: "'d exec \<Rightarrow> 'd ctl" where
  "exec_header_field_start x =
    (if cch x = c_CR then Break (goto s_headers_almost_done x)
     else if cch x = c_LF then Reexecute (goto s_headers_almost_done x)
     else let c = TOKEN (cch x) in
       if c = 0 then fail HPE_INVALID_HEADER_TOKEN x
       else Break (goto s_header_field
          (upd (\<lambda>q. q\<lparr>hp_index := 0, hp_header_state :=
             (if c = c_lc then h_C
              else if c = c_lp then h_matching_proxy_connection
              else if c = c_lt then h_matching_transfer_encoding
              else if c = c_lu then h_matching_upgrade
              else h_general)\<rparr>) (set_mark D_header_field x))))"

definition CONNECTION :: string where "CONNECTION = ''connection''"
definition PROXY_CONNECTION :: string where "PROXY_CONNECTION = ''proxy-connection''"
definition CONTENT_LENGTH :: string where "CONTENT_LENGTH = ''content-length''"
definition TRANSFER_ENCODING :: string where "TRANSFER_ENCODING = ''transfer-encoding''"
definition UPGRADE :: string where "UPGRADE = ''upgrade''"
definition CHUNKED :: string where "CHUNKED = ''chunked''"
definition KEEP_ALIVE :: string where "KEEP_ALIVE = ''keep-alive''"
definition CLOSE :: string where "CLOSE = ''close''"

text \<open>
  The shared shape of the matchers: advance the index; on a mismatch (or past the end of
  the string) fall back to \<open>other\<close>, on the last letter move to \<open>found\<close>. \<open>sizeof\<close> counts
  the terminating zero.
\<close>

definition match_next :: "string \<Rightarrow> header_states \<Rightarrow> header_states \<Rightarrow> header_states \<Rightarrow> u8 \<Rightarrow> 7 word \<Rightarrow>
    header_states \<times> 7 word" where
  "match_next s this other found c i =
    (let i = i + 1; n = length (cstr s) in
     (if unat i > n - 1 \<or> c \<noteq> cstr s ! unat i then other
      else if unat i = n - 2 then found else this, i))"

definition header_field_step :: "header_states \<Rightarrow> 7 word \<Rightarrow> u8 \<Rightarrow> u8 \<Rightarrow> (header_states \<times> 7 word) option" where
  "header_field_step h i c ch =
    (case h of
       h_general \<Rightarrow> Some (h, i)
     | h_C \<Rightarrow> Some (if c = c_lo then h_CO else h_general, i + 1)
     | h_CO \<Rightarrow> Some (if c = c_ln then h_CON else h_general, i + 1)
     | h_CON \<Rightarrow> Some (if c = c_ln then h_matching_connection
                     else if c = c_lt then h_matching_content_length else h_general, i + 1)
     | h_matching_connection \<Rightarrow> Some (match_next CONNECTION h h_general h_connection c i)
     | h_matching_proxy_connection \<Rightarrow> Some (match_next PROXY_CONNECTION h h_general h_connection c i)
     | h_matching_content_length \<Rightarrow> Some (match_next CONTENT_LENGTH h h_general h_content_length c i)
     | h_matching_transfer_encoding \<Rightarrow>
         Some (match_next TRANSFER_ENCODING h h_general h_transfer_encoding c i)
     | h_matching_upgrade \<Rightarrow> Some (match_next UPGRADE h h_general h_upgrade c i)
     | h_connection \<Rightarrow> Some (if ch \<noteq> c_SP then h_general else h, i)
     | h_content_length \<Rightarrow> Some (if ch \<noteq> c_SP then h_general else h, i)
     | h_transfer_encoding \<Rightarrow> Some (if ch \<noteq> c_SP then h_general else h, i)
     | h_upgrade \<Rightarrow> Some (if ch \<noteq> c_SP then h_general else h, i)
     | _ \<Rightarrow> None)"

text \<open>The loop over the bytes of the name; the result counts the bytes it has passed.\<close>

fun header_field_loop :: "bytes \<Rightarrow> nat \<Rightarrow> header_states \<Rightarrow> 7 word \<Rightarrow> u8 \<Rightarrow>
    (nat \<times> header_states \<times> 7 word \<times> u8) option" where
  "header_field_loop [] n h i ch = Some (n, h, i, ch)"
| "header_field_loop (b # rest) n h i ch =
    (let c = TOKEN b in
     if c = 0 then Some (n, h, i, b)
     else case header_field_step h i c b of
       None \<Rightarrow> None
     | Some (h, i) \<Rightarrow> header_field_loop rest (n + 1) h i b)"

definition exec_header_field :: "'d http_parser_settings \<Rightarrow> bytes \<Rightarrow> 'd exec \<Rightarrow> 'd ctl" where
  "exec_header_field st data x =
    (case header_field_loop (drop (pos x) data) 0 (hp_header_state (parser x)) (hp_index (parser x)) (cch x) of
       None \<Rightarrow> Abort
     | Some (n, h, i, ch) \<Rightarrow>
        (let x = upd (\<lambda>q. q\<lparr>hp_header_state := h, hp_index := i\<rparr>) (x\<lparr>pos := pos x + n, cch := ch\<rparr>) in
         proceed (COUNT_HEADER_SIZE n x) (\<lambda>x.
           if pos x = length data then Break (x\<lparr>pos := pos x - 1\<rparr>)
           else if cch x = c_colon then
             CALLBACK_DATA st data D_header_field (goto s_header_value_discard_ws x)
           else fail HPE_INVALID_HEADER_TOKEN x)))"


section \<open>Header values\<close>

definition set_flag :: "u8 \<Rightarrow> 'd http_parser \<Rightarrow> 'd http_parser" where
  "set_flag f q = q\<lparr>hp_flags := hp_flags q OR f\<rparr>"

definition digit64 :: "u8 \<Rightarrow> u64" where
  "digit64 c = scast c - 48"

definition exec_header_value_start :: "'d exec \<Rightarrow> 'd ctl" where
  "exec_header_value_start x =
    (let x = upd (hp_index_update (\<lambda>_. 0)) (goto s_header_value (set_mark D_header_value x));
         ch = cch x; c = LOWER ch;
         go = (\<lambda>h x. Break (upd (hp_header_state_update (\<lambda>_. h)) x))
     in case hp_header_state (parser x) of
          h_upgrade \<Rightarrow> go h_general (upd (set_flag F_UPGRADE) x)
        | h_transfer_encoding \<Rightarrow>
            go (if c = c_lc then h_matching_transfer_encoding_chunked else h_general) x
        | h_content_length \<Rightarrow>
            if \<not> IS_NUM ch then fail HPE_INVALID_CONTENT_LENGTH x
            else if flag (hp_flags (parser x)) F_CONTENTLENGTH then fail HPE_UNEXPECTED_CONTENT_LENGTH x
            else Break (upd (\<lambda>q. (set_flag F_CONTENTLENGTH q)\<lparr>hp_content_length := digit64 ch\<rparr>) x)
        | h_connection \<Rightarrow>
            go (if c = c_lk then h_matching_connection_keep_alive
                else if c = c_lc then h_matching_connection_close
                else if c = c_lu then h_matching_connection_upgrade
                else h_matching_connection_token) x
        | h_matching_connection_token_start \<Rightarrow> Break x
        | _ \<Rightarrow> go h_general x)"

definition exec_value_discard_ws :: "'d exec \<Rightarrow> 'd ctl" where
  "exec_value_discard_ws x =
    (if cch x = c_SP \<or> cch x = c_TAB then Break x
     else if cch x = c_CR then Break (goto s_header_value_discard_ws_almost_done x)
     else if cch x = c_LF then Break (goto s_header_value_discard_lws x)
     else exec_header_value_start x)"

fun memchr :: "bytes \<Rightarrow> u8 \<Rightarrow> nat \<Rightarrow> nat option" where
  "memchr [] c limit = None"
| "memchr (b # rest) c limit =
    (if limit = 0 then None else if b = c then Some 0 else map_option Suc (memchr rest c (limit - 1)))"

text \<open>How far the scan of a general header jumps: to the next CR or LF, else to the end.\<close>

definition general_skip :: "bytes \<Rightarrow> nat" where
  "general_skip xs =
    (let limit = unat (min (of_nat (length xs) :: u64) HTTP_MAX_HEADER_SIZE);
         p_cr = memchr xs c_CR limit; p_lf = memchr xs c_LF limit
     in case p_cr of
          Some i \<Rightarrow> (case p_lf of Some j \<Rightarrow> if i \<ge> j then j else i | None \<Rightarrow> i)
        | None \<Rightarrow> (case p_lf of Some j \<Rightarrow> j | None \<Rightarrow> length xs))"

text \<open>One byte of a value: the new \<open>h_state\<close> and parser, an error, or a failed assertion.\<close>

datatype 'd value_next = V_next header_states "'d http_parser" | V_bad http_errno "'d http_parser" | V_abort

definition value_match :: "string \<Rightarrow> header_states \<Rightarrow> header_states \<Rightarrow> header_states \<Rightarrow> u8 \<Rightarrow>
    'd http_parser \<Rightarrow> 'd value_next" where
  "value_match s this other found c q =
    (let (h, i) = match_next s this other found c (hp_index q) in V_next h (q\<lparr>hp_index := i\<rparr>))"

definition connection_token_end :: "u8 \<Rightarrow> header_states \<Rightarrow> u8 \<Rightarrow> 'd http_parser \<Rightarrow> 'd value_next" where
  "connection_token_end f h ch q =
    (if ch = c_comma then V_next h_matching_connection_token_start ((set_flag f q)\<lparr>hp_index := 0\<rparr>)
     else if ch \<noteq> c_SP then V_next h_matching_connection_token q
     else V_next h q)"

definition header_value_step :: "header_states \<Rightarrow> u8 \<Rightarrow> 'd http_parser \<Rightarrow> 'd value_next" where
  "header_value_step h ch q =
    (let c = LOWER ch in
     case h of
       h_connection \<Rightarrow> V_abort
     | h_transfer_encoding \<Rightarrow> V_abort
     | h_content_length \<Rightarrow>
         if ch = c_SP then V_next h q
         else if \<not> IS_NUM ch then V_bad HPE_INVALID_CONTENT_LENGTH (q\<lparr>hp_header_state := h\<rparr>)
         else
           (let t = hp_content_length q * 10 + digit64 ch in
            if (ULLONG_MAX - 10) div 10 < hp_content_length q
            then V_bad HPE_INVALID_CONTENT_LENGTH (q\<lparr>hp_header_state := h\<rparr>)
            else V_next h (q\<lparr>hp_content_length := t\<rparr>))
     | h_matching_transfer_encoding_chunked \<Rightarrow>
         value_match CHUNKED h h_general h_transfer_encoding_chunked c q
     | h_matching_connection_token_start \<Rightarrow>
         V_next (if c = c_lk then h_matching_connection_keep_alive
                 else if c = c_lc then h_matching_connection_close
                 else if c = c_lu then h_matching_connection_upgrade
                 else if STRICT_TOKEN c \<noteq> 0 then h_matching_connection_token
                 else if c = c_SP \<or> c = c_TAB then h
                 else h_general) q
     | h_matching_connection_keep_alive \<Rightarrow>
         value_match KEEP_ALIVE h h_matching_connection_token h_connection_keep_alive c q
     | h_matching_connection_close \<Rightarrow>
         value_match CLOSE h h_matching_connection_token h_connection_close c q
     | h_matching_connection_upgrade \<Rightarrow>
         value_match UPGRADE h h_matching_connection_token h_connection_upgrade c q
     | h_matching_connection_token \<Rightarrow>
         if ch = c_comma then V_next h_matching_connection_token_start (q\<lparr>hp_index := 0\<rparr>)
         else V_next h q
     | h_transfer_encoding_chunked \<Rightarrow> V_next (if ch \<noteq> c_SP then h_general else h) q
     | h_connection_keep_alive \<Rightarrow> connection_token_end F_CONNECTION_KEEP_ALIVE h ch q
     | h_connection_close \<Rightarrow> connection_token_end F_CONNECTION_CLOSE h ch q
     | h_connection_upgrade \<Rightarrow> connection_token_end F_CONNECTION_UPGRADE h ch q
     | _ \<Rightarrow> V_next h_general q)"

text \<open>
  The loop over the bytes of the value, stopping at CR, at LF, at the end of the buffer or
  at an error. In the general state the source sets \<open>p\<close> to the byte before the next CR or
  LF (or before the end) and lets the loop advance it.
\<close>

datatype value_stop = V_end | V_cr | V_lf | V_error http_errno | V_assert

fun header_value_loop :: "bool \<Rightarrow> bytes \<Rightarrow> nat \<Rightarrow> header_states \<Rightarrow> u8 \<Rightarrow> 'd http_parser \<Rightarrow>
    value_stop \<times> nat \<times> header_states \<times> u8 \<times> 'd http_parser" where
  "header_value_loop lax [] n h ch q = (V_end, n, h, ch, q)"
| "header_value_loop lax (b # rest) n h ch q =
    (if b = c_CR then (V_cr, n, h, b, q)
     else if b = c_LF then (V_lf, n, h, b, q)
     else if \<not> lax \<and> \<not> IS_HEADER_CHAR b then (V_error HPE_INVALID_HEADER_TOKEN, n, h, b, q)
     else if h = h_general then
       (let k = general_skip (b # rest) in
        header_value_loop lax (drop (k - 1) rest) (n + k) h b q)
     else case header_value_step h b q of
       V_next h q \<Rightarrow> header_value_loop lax rest (n + 1) h b q
     | V_bad e q \<Rightarrow> (V_error e, n, h, b, q)
     | V_abort \<Rightarrow> (V_assert, n, h, b, q))"

definition exec_header_value :: "'d http_parser_settings \<Rightarrow> bytes \<Rightarrow> 'd exec \<Rightarrow> 'd ctl" where
  "exec_header_value st data x =
    (case header_value_loop (lenient x) (drop (pos x) data) 0 (hp_header_state (parser x)) (cch x) (parser x) of
       (stop, n, h, ch, q) \<Rightarrow>
        (let x = x\<lparr>pos := pos x + n, cch := ch, parser := q\<rparr>;
             store = upd (hp_header_state_update (\<lambda>_. h))
         in case stop of
              V_assert \<Rightarrow> Abort
            | V_error e \<Rightarrow> fail e x
            | V_lf \<Rightarrow>
                proceed (COUNT_HEADER_SIZE n (goto s_header_almost_done x)) (\<lambda>x.
                  proceed (CALLBACK_DATA_NOADVANCE st data D_header_value (store x)) Reexecute)
            | V_cr \<Rightarrow>
                proceed (CALLBACK_DATA st data D_header_value (store (goto s_header_almost_done x)))
                  (\<lambda>x. COUNT_HEADER_SIZE n (store x))
            | V_end \<Rightarrow>
                proceed (COUNT_HEADER_SIZE n (store x)) (\<lambda>x. Break (x\<lparr>pos := pos x - 1\<rparr>))))"

text \<open>What a finished \<open>Connection\<close> or \<open>Transfer-Encoding\<close> value means.\<close>

definition finish_header :: "'d http_parser \<Rightarrow> 'd http_parser" where
  "finish_header q =
    (case hp_header_state q of
       h_connection_keep_alive \<Rightarrow> set_flag F_CONNECTION_KEEP_ALIVE q
     | h_connection_close \<Rightarrow> set_flag F_CONNECTION_CLOSE q
     | h_transfer_encoding_chunked \<Rightarrow> set_flag F_CHUNKED q
     | h_connection_upgrade \<Rightarrow> set_flag F_CONNECTION_UPGRADE q
     | _ \<Rightarrow> q)"

definition exec_header_end :: "'d http_parser_settings \<Rightarrow> bytes \<Rightarrow> 'd exec \<Rightarrow> 'd ctl" where
  "exec_header_end st data x =
    (case cur x of
       s_header_almost_done \<Rightarrow>
         if cch x \<noteq> c_LF then fail HPE_LF_EXPECTED x else Break (goto s_header_value_lws x)
     | s_header_value_lws \<Rightarrow>
         if cch x = c_SP \<or> cch x = c_TAB then Reexecute (goto s_header_value_start x)
         else Reexecute (goto s_header_field_start (upd finish_header x))
     | s_header_value_discard_ws_almost_done \<Rightarrow>
         strict_check (cch x \<noteq> c_LF) x (Break (goto s_header_value_discard_lws x))
     | s_header_value_discard_lws \<Rightarrow>
         if cch x = c_SP \<or> cch x = c_TAB then Break (goto s_header_value_discard_ws x)
         else
           proceed (CALLBACK_DATA_NOADVANCE st data D_header_value
              (goto s_header_field_start (set_mark D_header_value (upd finish_header x)))) Reexecute
     | _ \<Rightarrow> Abort)"


section \<open>The end of the headers\<close>

text \<open>
  \<open>on_headers_complete\<close> is called without storing the state first, and its result selects
  whether the message has a body.
\<close>

definition headers_complete :: "'d http_parser_settings \<Rightarrow> 'd exec \<Rightarrow> 'd ctl" where
  "headers_complete st x =
    (case on_notify st N_headers_complete of
       None \<Rightarrow> Break x
     | Some f \<Rightarrow>
        (let (r, q) = f (parser x); x = x\<lparr>parser := q\<rparr> in
         if r = 0 then Break x
         else if r = 2 then Break (upd (set_flag F_SKIPBODY) (upd (hp_upgrade_update (\<lambda>_. True)) x))
         else if r = 1 then Break (upd (set_flag F_SKIPBODY) x)
         else ret (pos x) (set_errno HPE_CB_headers_complete x)))"

definition set_upgrade :: "'d http_parser \<Rightarrow> 'd http_parser" where
  "set_upgrade q = q\<lparr>hp_upgrade :=
     (if flag (hp_flags q) F_UPGRADE \<and> flag (hp_flags q) F_CONNECTION_UPGRADE
      then hp_type q = HTTP_REQUEST \<or> hp_status_code q = 101
      else hp_method q = HTTP_CONNECT)\<rparr>"

definition exec_headers_almost_done :: "'d http_parser_settings \<Rightarrow> 'd exec \<Rightarrow> 'd ctl" where
  "exec_headers_almost_done st x =
    strict_check (cch x \<noteq> c_LF) x
     (if flag (hp_flags (parser x)) F_TRAILING then
        proceed (CALLBACK_NOTIFY_NOADVANCE st N_chunk_complete (goto s_message_done x)) Reexecute
      else if flag (hp_flags (parser x)) F_CHUNKED \<and> flag (hp_flags (parser x)) F_CONTENTLENGTH then
        fail HPE_UNEXPECTED_CONTENT_LENGTH x
      else
        proceed (headers_complete st (upd set_upgrade (goto s_headers_done x))) (\<lambda>x.
          if hp_errno (parser x) \<noteq> HPE_OK then ret (pos x) x else Reexecute x))"

definition exec_headers_done :: "'d http_parser_settings \<Rightarrow> 'd exec \<Rightarrow> 'd ctl" where
  "exec_headers_done st x =
    strict_check (cch x \<noteq> c_LF) x
     (let x = upd (hp_nread_update (\<lambda>_. 0)) x; q = parser x;
          hasBody = (flag (hp_flags q) F_CHUNKED \<or>
                     (hp_content_length q > 0 \<and> hp_content_length q \<noteq> ULLONG_MAX));
          done = CALLBACK_NOTIFY st N_message_complete (goto (NEW_MESSAGE x) x)
      in if hp_upgrade q \<and> (hp_method q = HTTP_CONNECT \<or> flag (hp_flags q) F_SKIPBODY \<or> \<not> hasBody)
         then proceed done (\<lambda>x. ret (pos x + 1) x)
         else if flag (hp_flags q) F_SKIPBODY then done
         else if flag (hp_flags q) F_CHUNKED then Break (goto s_chunk_size_start x)
         else if hp_content_length q = 0 then done
         else if hp_content_length q \<noteq> ULLONG_MAX then Break (goto s_body_identity x)
         else if \<not> http_message_needs_eof q then done
         else Break (goto s_body_identity_eof x))"

section \<open>Bodies\<close>

text \<open>
  The part of the body at hand: \<open>content_length\<close> goes down by what is there, and \<open>p\<close>
  moves to its last byte.
\<close>

definition take_body :: "bytes \<Rightarrow> 'd exec \<Rightarrow> 'd exec" where
  "take_body data x =
    (let to_read = min (unat (hp_content_length (parser x))) (length data - pos x);
         x = set_mark D_body x
     in (upd (\<lambda>q. q\<lparr>hp_content_length := hp_content_length q - of_nat to_read\<rparr>) x)
          \<lparr>pos := pos x + to_read - 1\<rparr>)"

definition exec_message_done :: "'d http_parser_settings \<Rightarrow> 'd exec \<Rightarrow> 'd ctl" where
  "exec_message_done st x =
    proceed (CALLBACK_NOTIFY st N_message_complete (goto (NEW_MESSAGE x) x)) (\<lambda>x.
      if hp_upgrade (parser x) then ret (pos x + 1) x else Break x)"

definition exec_body :: "'d http_parser_settings \<Rightarrow> bytes \<Rightarrow> 'd exec \<Rightarrow> 'd ctl" where
  "exec_body st data x =
    (case cur x of
       s_body_identity \<Rightarrow>
         if hp_content_length (parser x) = 0 \<or> hp_content_length (parser x) = ULLONG_MAX then Abort
         else let x = take_body data x in
           if hp_content_length (parser x) = 0 then
             proceed (callback_data st data D_body (pos x + 1) (pos x) (goto s_message_done x)) Reexecute
           else Break x
     | s_body_identity_eof \<Rightarrow> Break ((set_mark D_body x)\<lparr>pos := length data - 1\<rparr>)
     | _ \<Rightarrow> Abort)"

definition exec_chunk_size :: "'d http_parser_settings \<Rightarrow> 'd exec \<Rightarrow> 'd ctl" where
  "exec_chunk_size st x =
    (if \<not> flag (hp_flags (parser x)) F_CHUNKED then Abort
     else case cur x of
       s_chunk_size_start \<Rightarrow>
         if hp_nread (parser x) \<noteq> 1 then Abort
         else if unhex_at (cch x) = -1 then fail HPE_INVALID_CHUNK_SIZE x
         else Break (goto s_chunk_size
           (upd (hp_content_length_update (\<lambda>_. word_of_int (unhex_at (cch x)))) x))
     | s_chunk_size \<Rightarrow>
         if cch x = c_CR then Break (goto s_chunk_size_almost_done x)
         else if unhex_at (cch x) = -1 then
           (if cch x = c_semi \<or> cch x = c_SP then Break (goto s_chunk_parameters x)
            else fail HPE_INVALID_CHUNK_SIZE x)
         else
           (let t = hp_content_length (parser x) * 16 + word_of_int (unhex_at (cch x)) in
            if (ULLONG_MAX - 16) div 16 < hp_content_length (parser x)
            then fail HPE_INVALID_CONTENT_LENGTH x
            else Break (upd (hp_content_length_update (\<lambda>_. t)) x))
     | s_chunk_parameters \<Rightarrow>
         if cch x = c_CR then Break (goto s_chunk_size_almost_done x) else Break x
     | s_chunk_size_almost_done \<Rightarrow>
         strict_check (cch x \<noteq> c_LF) x
          (let x = upd (hp_nread_update (\<lambda>_. 0)) x in
           CALLBACK_NOTIFY st N_chunk_header
             (if hp_content_length (parser x) = 0
              then goto s_header_field_start (upd (set_flag F_TRAILING) x)
              else goto s_chunk_data x))
     | _ \<Rightarrow> Abort)"

definition exec_chunk_data :: "'d http_parser_settings \<Rightarrow> bytes \<Rightarrow> 'd exec \<Rightarrow> 'd ctl" where
  "exec_chunk_data st data x =
    (if \<not> flag (hp_flags (parser x)) F_CHUNKED then Abort
     else case cur x of
       s_chunk_data \<Rightarrow>
         if hp_content_length (parser x) = 0 \<or> hp_content_length (parser x) = ULLONG_MAX then Abort
         else let x = take_body data x in
           Break (if hp_content_length (parser x) = 0 then goto s_chunk_data_almost_done x else x)
     | s_chunk_data_almost_done \<Rightarrow>
         if hp_content_length (parser x) \<noteq> 0 then Abort
         else strict_check (cch x \<noteq> c_CR) x (CALLBACK_DATA st data D_body (goto s_chunk_data_done x))
     | s_chunk_data_done \<Rightarrow>
         strict_check (cch x \<noteq> c_LF) x
          (CALLBACK_NOTIFY st N_chunk_complete
             (goto s_chunk_size_start (upd (hp_nread_update (\<lambda>_. 0)) x)))
     | _ \<Rightarrow> Abort)"

section \<open>The main loop\<close>

definition exec_switch :: "'d http_parser_settings \<Rightarrow> bytes \<Rightarrow> u8 option \<Rightarrow> 'd exec \<Rightarrow> 'd ctl" where
  "exec_switch st data beyond x =
    (case cur x of
       s_dead \<Rightarrow> exec_dead x
     | s_start_req_or_res \<Rightarrow> exec_start_req_or_res st x
     | s_res_or_resp_H \<Rightarrow> exec_res_or_resp_H x
     | s_start_res \<Rightarrow> exec_start_res st x
     | s_res_H \<Rightarrow> exec_res_version x
     | s_res_HT \<Rightarrow> exec_res_version x
     | s_res_HTT \<Rightarrow> exec_res_version x
     | s_res_HTTP \<Rightarrow> exec_res_version x
     | s_res_http_major \<Rightarrow> exec_res_version x
     | s_res_http_dot \<Rightarrow> exec_res_version x
     | s_res_http_minor \<Rightarrow> exec_res_version x
     | s_res_http_end \<Rightarrow> exec_res_version x
     | s_res_first_status_code \<Rightarrow> exec_res_status st data x
     | s_res_status_code \<Rightarrow> exec_res_status st data x
     | s_res_status_start \<Rightarrow> exec_res_status st data x
     | s_res_status \<Rightarrow> exec_res_status st data x
     | s_res_line_almost_done \<Rightarrow> exec_res_status st data x
     | s_start_req \<Rightarrow> exec_start_req st data beyond x
     | s_req_method \<Rightarrow> exec_req_method x
     | s_req_spaces_before_url \<Rightarrow> exec_spaces_before_url x
     | s_req_schema \<Rightarrow> exec_url_start x
     | s_req_schema_slash \<Rightarrow> exec_url_start x
     | s_req_schema_slash_slash \<Rightarrow> exec_url_start x
     | s_req_server_start \<Rightarrow> exec_url_start x
     | s_req_server \<Rightarrow> exec_url st data x
     | s_req_server_with_at \<Rightarrow> exec_url st data x
     | s_req_path \<Rightarrow> exec_url st data x
     | s_req_query_string_start \<Rightarrow> exec_url st data x
     | s_req_query_string \<Rightarrow> exec_url st data x
     | s_req_fragment_start \<Rightarrow> exec_url st data x
     | s_req_fragment \<Rightarrow> exec_url st data x
     | s_req_http_start \<Rightarrow> exec_req_version x
     | s_req_http_H \<Rightarrow> exec_req_version x
     | s_req_http_HT \<Rightarrow> exec_req_version x
     | s_req_http_HTT \<Rightarrow> exec_req_version x
     | s_req_http_HTTP \<Rightarrow> exec_req_version x
     | s_req_http_major \<Rightarrow> exec_req_version x
     | s_req_http_dot \<Rightarrow> exec_req_version x
     | s_req_http_minor \<Rightarrow> exec_req_version x
     | s_req_http_end \<Rightarrow> exec_req_version x
     | s_req_line_almost_done \<Rightarrow> exec_req_version x
     | s_header_field_start \<Rightarrow> exec_header_field_start x
     | s_header_field \<Rightarrow> exec_header_field st data x
     | s_header_value_discard_ws \<Rightarrow> exec_value_discard_ws x
     | s_header_value_start \<Rightarrow> exec_header_value_start x
     | s_header_value \<Rightarrow> exec_header_value st data x
     | s_header_almost_done \<Rightarrow> exec_header_end st data x
     | s_header_value_lws \<Rightarrow> exec_header_end st data x
     | s_header_value_discard_ws_almost_done \<Rightarrow> exec_header_end st data x
     | s_header_value_discard_lws \<Rightarrow> exec_header_end st data x
     | s_headers_almost_done \<Rightarrow> exec_headers_almost_done st x
     | s_headers_done \<Rightarrow> exec_headers_done st x
     | s_body_identity \<Rightarrow> exec_body st data x
     | s_body_identity_eof \<Rightarrow> exec_body st data x
     | s_message_done \<Rightarrow> exec_message_done st x
     | s_chunk_size_start \<Rightarrow> exec_chunk_size st x
     | s_chunk_size \<Rightarrow> exec_chunk_size st x
     | s_chunk_parameters \<Rightarrow> exec_chunk_size st x
     | s_chunk_size_almost_done \<Rightarrow> exec_chunk_size st x
     | s_chunk_data \<Rightarrow> exec_chunk_data st data x
     | s_chunk_data_almost_done \<Rightarrow> exec_chunk_data st data x
     | s_chunk_data_done \<Rightarrow> exec_chunk_data st data x)"

text \<open>The head of the loop: fetch the byte and count it while parsing a header.\<close>

definition next_byte :: "bytes \<Rightarrow> 'd exec \<Rightarrow> 'd ctl" where
  "next_byte data x =
    (if length data \<le> pos x then Read_beyond
     else let x = x\<lparr>cch := data ! pos x\<rparr> in
       if PARSING_HEADER (cur x) then COUNT_HEADER_SIZE 1 x else Break x)"

definition exec_round :: "'d http_parser_settings \<Rightarrow> bytes \<Rightarrow> u8 option \<Rightarrow> bool \<Rightarrow> 'd exec \<Rightarrow> 'd ctl" where
  "exec_round st data beyond re x =
    proceed (if re then Break x else next_byte data x) (exec_switch st data beyond)"

text \<open>The label \<open>error\<close>, and the callbacks for marks left over at the end of the buffer.\<close>

definition error_exit :: "'d exec \<Rightarrow> 'd ctl" where
  "error_exit x = ret (pos x) (if hp_errno (parser x) = HPE_OK then set_errno HPE_UNKNOWN x else x)"

definition open_marks :: "'d exec \<Rightarrow> data_cb list" where
  "open_marks x = filter (\<lambda>d. marks x d \<noteq> None) [D_header_field, D_header_value, D_url, D_body, D_status]"

definition leftover_callbacks :: "'d http_parser_settings \<Rightarrow> bytes \<Rightarrow> 'd exec \<Rightarrow> 'd ctl" where
  "leftover_callbacks st data x =
    (if length (open_marks x) > 1 then Abort
     else
       proceed (CALLBACK_DATA_NOADVANCE st data D_header_field x) (\<lambda>x.
       proceed (CALLBACK_DATA_NOADVANCE st data D_header_value x) (\<lambda>x.
       proceed (CALLBACK_DATA_NOADVANCE st data D_url x) (\<lambda>x.
       proceed (CALLBACK_DATA_NOADVANCE st data D_body x) (\<lambda>x.
       proceed (CALLBACK_DATA_NOADVANCE st data D_status x) (\<lambda>x.
       ret (length data) x))))))"

datatype 'd result = Executed nat "'d http_parser" | Assertion_failed | Over_read

definition result_of :: "'d ctl \<Rightarrow> 'd result" where
  "result_of c = (case c of Return n q \<Rightarrow> Executed n q | Read_beyond \<Rightarrow> Over_read | _ \<Rightarrow> Assertion_failed)"

text \<open>
  With arbitrary callbacks the loop need not end, so it is a partial function; \<open>re\<close> says
  whether it is entered at the label \<open>reexecute\<close>.
\<close>

partial_function (option) exec_loop ::
    "'d http_parser_settings \<Rightarrow> bytes \<Rightarrow> u8 option \<Rightarrow> bool \<Rightarrow> 'd exec \<Rightarrow> 'd result option" where
  "exec_loop st data beyond re x =
    (if \<not> re \<and> pos x = length data then Some (result_of (leftover_callbacks st data x))
     else case exec_round st data beyond re x of
       Break x' \<Rightarrow> exec_loop st data beyond False (x'\<lparr>pos := pos x' + 1\<rparr>)
     | Reexecute x' \<Rightarrow> exec_loop st data beyond True x'
     | Goto_error x' \<Rightarrow> Some (result_of (error_exit x'))
     | Return n q \<Rightarrow> Some (Executed n q)
     | Abort \<Rightarrow> Some Assertion_failed
     | Read_beyond \<Rightarrow> Some Over_read)"

declare exec_loop.simps [code]

definition url_mark_states :: "state list" where
  "url_mark_states = [s_req_path, s_req_schema, s_req_schema_slash, s_req_schema_slash_slash,
     s_req_server_start, s_req_server, s_req_server_with_at, s_req_query_string_start,
     s_req_query_string, s_req_fragment_start, s_req_fragment]"

definition initial_marks :: "state \<Rightarrow> data_cb \<Rightarrow> nat option" where
  "initial_marks s d =
    (if (case d of
           D_header_field \<Rightarrow> s = s_header_field
         | D_header_value \<Rightarrow> s = s_header_value
         | D_url \<Rightarrow> List.member url_mark_states s
         | D_status \<Rightarrow> s = s_res_status
         | D_body \<Rightarrow> False)
     then Some 0 else None)"

definition initial_exec :: "'d http_parser \<Rightarrow> 'd exec" where
  "initial_exec q = \<lparr> parser = q, cur = hp_state q, pos = 0, cch = 0, lenient = hp_lenient q,
     marks = initial_marks (hp_state q) \<rparr>"

definition http_parser_execute ::
    "'d http_parser_settings \<Rightarrow> bytes \<Rightarrow> u8 option \<Rightarrow> 'd http_parser \<Rightarrow> 'd result option" where
  "http_parser_execute st data beyond q =
    (if hp_errno q \<noteq> HPE_OK then Some (Executed 0 q)
     else if data = [] then
       (if hp_state q = s_body_identity_eof then
          Some (case CALLBACK_NOTIFY_NOADVANCE st N_message_complete (initial_exec q) of
                  Break x \<Rightarrow> Executed 0 (parser x)
                | c \<Rightarrow> result_of c)
        else if List.member [s_dead, s_start_req_or_res, s_start_res, s_start_req] (hp_state q) then
          Some (Executed 0 q)
        else Some (Executed 1 (q\<lparr>hp_errno := HPE_INVALID_EOF_STATE\<rparr>)))
     else exec_loop st data beyond False (initial_exec q))"

end
