(* ===== verification/Http_Parser_Inv.thy ===== *)
theory Http_Parser_Inv
  imports Http_Parser
begin

text \<open>
  Safety of the message parser: the invariant of the parser object between two calls of
  \<open>http_parser_execute\<close>, the invariant of the local state during a call, and their
  preservation by every state of the switch. The lemmas are in weakest-precondition
  style: \<open>ctl_all data B R c\<close> says that the outcome \<open>c\<close> of a piece of code is neither a
  failed assertion nor a read outside the buffer, that a \<open>break\<close> happens in a state
  satisfying \<open>B\<close>, a jump to \<open>reexecute\<close> in a state satisfying \<open>R\<close>, and that errors and
  returns leave the parser object in order.

  Callbacks are assumed to keep the private fields of the parser (they may change the
  user data and pause the parser), except that \<open>on_message_complete\<close> may
  reinitialise it, as the HTTP server of this repository does.
\<close>

section \<open>Well-behaved callbacks\<close>

definition keeps_parser :: "'d http_parser \<Rightarrow> 'd http_parser \<Rightarrow> bool" where
  "keeps_parser q q' \<longleftrightarrow> (\<exists>d e. q' = q\<lparr>hp_data := d, hp_errno := e\<rparr>)"

definition reinits_parser :: "'d http_parser \<Rightarrow> 'd http_parser \<Rightarrow> bool" where
  "reinits_parser q q' \<longleftrightarrow> (\<exists>t d. q' = (http_parser_init t q)\<lparr>hp_data := d\<rparr>)"

definition benign :: "'d http_parser_settings \<Rightarrow> bool" where
  "benign st \<longleftrightarrow>
    (\<forall>n f q. on_notify st n = Some f \<longrightarrow>
       keeps_parser q (snd (f q)) \<or> (n = N_message_complete \<and> reinits_parser q (snd (f q)))) \<and>
    (\<forall>d f q bs. on_data st d = Some f \<longrightarrow> keeps_parser q (snd (f q bs)))"

section \<open>The invariant\<close>

text \<open>The one mark that may be set in a state.\<close>

definition mark_of :: "state \<Rightarrow> data_cb option" where
  "mark_of s = (case s of
      s_header_field \<Rightarrow> Some D_header_field
    | s_header_value \<Rightarrow> Some D_header_value
    | s_res_status \<Rightarrow> Some D_status
    | s_req_schema \<Rightarrow> Some D_url | s_req_schema_slash \<Rightarrow> Some D_url
    | s_req_schema_slash_slash \<Rightarrow> Some D_url | s_req_server_start \<Rightarrow> Some D_url
    | s_req_server \<Rightarrow> Some D_url | s_req_server_with_at \<Rightarrow> Some D_url | s_req_path \<Rightarrow> Some D_url
    | s_req_query_string_start \<Rightarrow> Some D_url | s_req_query_string \<Rightarrow> Some D_url
    | s_req_fragment_start \<Rightarrow> Some D_url | s_req_fragment \<Rightarrow> Some D_url
    | s_body_identity \<Rightarrow> Some D_body | s_body_identity_eof \<Rightarrow> Some D_body
    | s_chunk_data \<Rightarrow> Some D_body | s_chunk_data_almost_done \<Rightarrow> Some D_body
    | _ \<Rightarrow> None)"

definition marks_ok :: "state \<Rightarrow> (data_cb \<Rightarrow> nat option) \<Rightarrow> nat \<Rightarrow> bool" where
  "marks_ok s m p \<longleftrightarrow> (\<forall>d k. m d = Some k \<longrightarrow> mark_of s = Some d \<and> k \<le> p)"

definition field_states :: "header_states set" where
  "field_states = {h_general, h_C, h_CO, h_CON, h_matching_connection, h_matching_proxy_connection,
     h_matching_content_length, h_matching_transfer_encoding, h_matching_upgrade,
     h_connection, h_content_length, h_transfer_encoding, h_upgrade}"

definition chunk_states :: "state set" where
  "chunk_states = {s_chunk_size_start, s_chunk_size, s_chunk_parameters, s_chunk_size_almost_done,
     s_chunk_data, s_chunk_data_almost_done, s_chunk_data_done}"

text \<open>
  What must hold of the parser object when its state is \<open>s\<close>; \<open>counted\<close> says whether the
  current byte has been counted in \<open>nread\<close> already.
\<close>

definition state_ok :: "bool \<Rightarrow> state \<Rightarrow> 'd http_parser \<Rightarrow> bool" where
  "state_ok counted s q \<longleftrightarrow>
     hp_nread q \<le> HTTP_MAX_HEADER_SIZE \<and>
     (s = s_req_method \<longrightarrow> unat (hp_index q) \<le> length (method_string (hp_method q))) \<and>
     (s = s_header_field \<longrightarrow> hp_header_state q \<in> field_states) \<and>
     (s = s_header_value \<longrightarrow> hp_header_state q \<notin> {h_connection, h_transfer_encoding}) \<and>
     (s \<in> chunk_states \<longrightarrow> flag (hp_flags q) F_CHUNKED) \<and>
     (s = s_chunk_size_start \<longrightarrow> hp_nread q = (if counted then 1 else 0)) \<and>
     (s \<in> {s_chunk_size, s_chunk_parameters, s_chunk_size_almost_done} \<longrightarrow> hp_content_length q \<noteq> ULLONG_MAX) \<and>
     (s \<in> {s_body_identity, s_chunk_data} \<longrightarrow> hp_content_length q \<noteq> 0 \<and> hp_content_length q \<noteq> ULLONG_MAX) \<and>
     (s = s_chunk_data_almost_done \<longrightarrow> hp_content_length q = 0)"

definition parser_ok :: "'d http_parser \<Rightarrow> bool" where
  "parser_ok q \<longleftrightarrow> (hp_errno q \<in> {HPE_OK, HPE_PAUSED} \<longrightarrow> state_ok False (hp_state q) q)"

lemma state_ok_data [simp]:
  "state_ok c s (q\<lparr>hp_data := d\<rparr>) = state_ok c s q" "state_ok c s (q\<lparr>hp_errno := e\<rparr>) = state_ok c s q"
  "state_ok c s (q\<lparr>hp_state := t\<rparr>) = state_ok c s q"
  by (simp_all add: state_ok_def)

lemma state_ok_init [simp]: "state_ok c (hp_state (http_parser_init t q)) (http_parser_init t q)"
  by (cases t) (simp_all add: state_ok_def http_parser_init_def chunk_states_def)

lemma marks_ok_none: "mark_of s = None \<Longrightarrow> marks_ok s m p \<Longrightarrow> m d = None"
  by (cases "m d") (auto simp: marks_ok_def)

lemma marks_ok_any: "mark_of s = None \<Longrightarrow> marks_ok s m p \<Longrightarrow> marks_ok s' m p'"
  using marks_ok_none by (fastforce simp: marks_ok_def)

section \<open>Outcomes\<close>

definition return_ok :: "bytes \<Rightarrow> nat \<Rightarrow> 'd http_parser \<Rightarrow> bool" where
  "return_ok data n q \<longleftrightarrow> n \<le> length data \<and> parser_ok q"

definition ctl_all :: "bytes \<Rightarrow> ('d exec \<Rightarrow> bool) \<Rightarrow> ('d exec \<Rightarrow> bool) \<Rightarrow> 'd ctl \<Rightarrow> bool" where
  "ctl_all data B R c =
    (case c of
       Break x \<Rightarrow> B x
     | Reexecute x \<Rightarrow> R x
     | Goto_error x \<Rightarrow> hp_errno (parser x) \<notin> {HPE_OK, HPE_PAUSED} \<and> pos x \<le> length data
     | Return n q \<Rightarrow> return_ok data n q
     | Abort \<Rightarrow> False
     | Read_beyond \<Rightarrow> False)"

lemma ctl_all_simps [simp]:
  "ctl_all data B R (Break x) = B x"
  "ctl_all data B R (Reexecute x) = R x"
  "ctl_all data B R (Return n q) = return_ok data n q"
  "ctl_all data B R Abort = False" "ctl_all data B R Read_beyond = False"
  by (simp_all add: ctl_all_def)

lemma ctl_all_proceed:
  assumes "ctl_all data B' R c" and "\<And>x. B' x \<Longrightarrow> ctl_all data B R (k x)"
  shows "ctl_all data B R (proceed c k)"
  using assms by (cases c) (simp_all add: proceed_def ctl_all_def)

text \<open>The record after \<open>upd\<close>, \<open>goto\<close>, \<open>set_errno\<close>, \<open>set_mark\<close>.\<close>

lemma exec_simps [simp]:
  "parser (upd f x) = f (parser x)" "cur (upd f x) = cur x" "pos (upd f x) = pos x"
  "cch (upd f x) = cch x" "marks (upd f x) = marks x" "lenient (upd f x) = lenient x"
  "parser (goto s x) = parser x" "cur (goto s x) = s" "pos (goto s x) = pos x"
  "cch (goto s x) = cch x" "marks (goto s x) = marks x" "lenient (goto s x) = lenient x"
  "parser (set_mark d x) = parser x" "cur (set_mark d x) = cur x" "pos (set_mark d x) = pos x"
  "cch (set_mark d x) = cch x" "lenient (set_mark d x) = lenient x"
  by (simp_all add: upd_def goto_def set_mark_def)

lemma marks_set_mark [simp]:
  "marks (set_mark d x) = (if marks x d = None then (marks x)(d := Some (pos x)) else marks x)"
  by (simp add: set_mark_def)

lemma ctl_all_fail [simp]:
  "ctl_all data B R (fail e x) \<longleftrightarrow> e \<noteq> HPE_OK \<and> e \<noteq> HPE_PAUSED \<and> pos x \<le> length data"
  by (simp add: ctl_all_def fail_def set_errno_def)

lemma ctl_all_strict [simp]:
  "ctl_all data B R (strict_check c x k) \<longleftrightarrow>
     (if c then pos x \<le> length data else ctl_all data B R k)"
  by (simp add: strict_check_def)

lemma ctl_all_ret [simp]:
  "ctl_all data B R (ret n x) \<longleftrightarrow>
     n \<le> length data \<and> (hp_errno (parser x) \<in> {HPE_OK, HPE_PAUSED} \<longrightarrow> state_ok False (cur x) (parser x))"
  by (simp add: ret_def return_ok_def parser_ok_def)

section \<open>Rules for the callbacks\<close>

text \<open>The local state after a callback that let the parser go on.\<close>

definition after_callback :: "'d exec \<Rightarrow> 'd exec \<Rightarrow> bool" where
  "after_callback x x' \<longleftrightarrow> hp_errno (parser x') = HPE_OK \<and> cur x' = cur x \<and> pos x' = pos x \<and>
     cch x' = cch x \<and> lenient x' = lenient x \<and> marks x' = marks x \<and>
     (\<exists>t d. t \<in> {cur x, hp_state (parser x)} \<and> parser x' = (parser x)\<lparr>hp_state := t, hp_data := d\<rparr>)"

lemma after_callbackD:
  assumes "after_callback x x'"
  shows "cur x' = cur x" "pos x' = pos x" "cch x' = cch x" "marks x' = marks x" "lenient x' = lenient x"
    "hp_errno (parser x') = HPE_OK" "state_ok c s (parser x') = state_ok c s (parser x)"
    "hp_flags (parser x') = hp_flags (parser x)" "hp_upgrade (parser x') = hp_upgrade (parser x)"
    "hp_header_state (parser x') = hp_header_state (parser x)"
    "hp_content_length (parser x') = hp_content_length (parser x)"
    "hp_nread (parser x') = hp_nread (parser x)"
  using assms by (auto simp: after_callback_def)

lemma errno_idem: "hp_errno q = HPE_OK \<Longrightarrow> q\<lparr>hp_errno := HPE_OK\<rparr> = q"
  by (cases q) simp

lemma after_callbackI:
  assumes "hp_errno (parser x) = HPE_OK"
    and "parser x' = (parser x)\<lparr>hp_state := cur x, hp_data := d, hp_errno := HPE_OK\<rparr>"
    and "cur x' = cur x" "pos x' = pos x" "cch x' = cch x" "lenient x' = lenient x" "marks x' = marks x"
  shows "after_callback x x'"
proof -
  have "parser x' = (parser x)\<lparr>hp_state := cur x, hp_data := d\<rparr>"
    using errno_idem [of "(parser x)\<lparr>hp_state := cur x, hp_data := d\<rparr>"] assms(1,2) by simp
  moreover have "hp_errno (parser x') = HPE_OK" using assms(2) by simp
  ultimately show ?thesis using assms(3-) unfolding after_callback_def by blast
qed

lemma after_callback_refl: "hp_errno (parser x) = HPE_OK \<Longrightarrow> after_callback x x"
  unfolding after_callback_def by (intro conjI exI [of _ "hp_state (parser x)"] exI [of _ "hp_data (parser x)"]) simp_all

lemma callback_notify_ok:
  assumes st: "benign st" and e: "hp_errno (parser x) = HPE_OK" and er: "er \<le> length data"
    and ok: "state_ok False (cur x) (parser x)"
    and B: "\<And>x'. after_callback x x' \<Longrightarrow> B x'"
    and C: "\<And>x' t d. n = N_message_complete \<Longrightarrow>
      x' = x\<lparr>parser := (http_parser_init t (parser x))\<lparr>hp_data := d\<rparr>, cur := hp_state (http_parser_init t (parser x))\<rparr> \<Longrightarrow> B x'"
  shows "ctl_all data B R (callback_notify st n er x)"
proof (cases "on_notify st n")
  case None
  have "after_callback x x" by (rule after_callback_refl [OF e])
  with None e B show ?thesis by (simp add: callback_notify_def)
next
  case (Some f)
  let ?q = "(parser x)\<lparr>hp_state := cur x\<rparr>"
  obtain r q where fq: "f ?q = (r, q)" by (cases "f ?q")
  from st Some have "keeps_parser ?q (snd (f ?q)) \<or> (n = N_message_complete \<and> reinits_parser ?q (snd (f ?q)))"
    unfolding benign_def by blast
  then consider (keep) d er' where "q = ?q\<lparr>hp_data := d, hp_errno := er'\<rparr>"
    | (init) t d where "n = N_message_complete" "q = (http_parser_init t ?q)\<lparr>hp_data := d\<rparr>"
    using fq by (auto simp: keeps_parser_def reinits_parser_def)
  then show ?thesis
  proof cases
    case keep
    show ?thesis
    proof (cases "r = 0 \<and> er' = HPE_OK")
      case True
      then have "after_callback x (x\<lparr>parser := q, cur := hp_state q\<rparr>)"
        by (intro after_callbackI [OF e]) (use keep True in simp_all)
      from B [OF this] Some fq e True keep show ?thesis by (simp add: callback_notify_def)
    next
      case False
      then show ?thesis using Some fq e keep er ok
        by (cases n) (auto simp: callback_notify_def return_ok_def parser_ok_def)
    qed
  next
    case init
    have i: "http_parser_init t ?q = http_parser_init t (parser x)" by (simp add: http_parser_init_def)
    have eq: "hp_errno q = HPE_OK" using init by (simp add: http_parser_init_def)
    show ?thesis
    proof (cases "r = 0")
      case True
      with Some fq e eq C [OF init(1), of "x\<lparr>parser := q, cur := hp_state q\<rparr>" t d] init i show ?thesis
        by (simp add: callback_notify_def)
    next
      case False
      with Some fq e eq init(1) er show ?thesis
        by (simp add: callback_notify_def return_ok_def parser_ok_def)
    qed
  qed
qed

lemma callback_data_ok:
  assumes st: "benign st" and e: "hp_errno (parser x) = HPE_OK" and er: "er \<le> length data"
    and ok: "state_ok False (cur x) (parser x)"
    and B: "\<And>x'. after_callback (x\<lparr>marks := (marks x)(d := None)\<rparr>) x' \<Longrightarrow> B x'"
  shows "ctl_all data B R (callback_data st data d till er x)"
proof (cases "marks x d")
  case None
  then have "x\<lparr>marks := (marks x)(d := None)\<rparr> = x" by (simp add: fun_upd_idem)
  then have "after_callback (x\<lparr>marks := (marks x)(d := None)\<rparr>) x" using e by (simp add: after_callback_refl)
  with None e B show ?thesis by (simp add: callback_data_def)
next
  case m: (Some m)
  show ?thesis
  proof (cases "on_data st d")
    case None
    have "after_callback (x\<lparr>marks := (marks x)(d := None)\<rparr>) (x\<lparr>marks := (marks x)(d := None)\<rparr>)"
      using e by (simp add: after_callback_refl)
    with None m e B show ?thesis by (simp add: callback_data_def)
  next
    case (Some f)
    let ?q = "(parser x)\<lparr>hp_state := cur x\<rparr>" and ?bs = "take (till - m) (drop m data)"
    obtain r q where fq: "f ?q ?bs = (r, q)" by (cases "f ?q ?bs")
    from st Some have "keeps_parser ?q (snd (f ?q ?bs))" unfolding benign_def by blast
    then obtain d' er' where q: "q = ?q\<lparr>hp_data := d', hp_errno := er'\<rparr>"
      using fq by (auto simp: keeps_parser_def)
    show ?thesis
    proof (cases "r = 0 \<and> er' = HPE_OK")
      case True
      then have "after_callback (x\<lparr>marks := (marks x)(d := None)\<rparr>)
          (x\<lparr>parser := q, cur := hp_state q, marks := (marks x)(d := None)\<rparr>)"
        by (intro after_callbackI [where d = d']) (use q e True in simp_all)
      from B [OF this] Some m fq e True q show ?thesis by (simp add: callback_data_def)
    next
      case False
      then show ?thesis using Some m fq e q er ok
        by (cases d) (auto simp: callback_data_def return_ok_def parser_ok_def)
    qed
  qed
qed


section \<open>Every state of the switch\<close>

text \<open>
  A jump to \<open>reexecute\<close> goes to a state of smaller rank, which bounds the number of such
  jumps between two bytes.
\<close>

definition rank :: "state \<Rightarrow> nat" where
  "rank s = (case s of
      s_header_value_lws \<Rightarrow> 4 | s_header_value_discard_lws \<Rightarrow> 4
    | s_header_field_start \<Rightarrow> 3
    | s_headers_almost_done \<Rightarrow> 2 | s_res_status_code \<Rightarrow> 2
    | s_start_req_or_res \<Rightarrow> 1 | s_res_status_start \<Rightarrow> 1 | s_header_value \<Rightarrow> 1 | s_body_identity \<Rightarrow> 1
    | _ \<Rightarrow> 0)"

definition exec_ok :: "bytes \<Rightarrow> bool \<Rightarrow> 'd exec \<Rightarrow> bool" where
  "exec_ok data counted x \<longleftrightarrow> hp_errno (parser x) = HPE_OK \<and> pos x < length data \<and>
     state_ok counted (cur x) (parser x) \<and> marks_ok (cur x) (marks x) (pos x)"

definition brk_ok :: "bytes \<Rightarrow> 'd exec \<Rightarrow> 'd exec \<Rightarrow> bool" where
  "brk_ok data x0 x \<longleftrightarrow> exec_ok data False x \<and> pos x0 \<le> pos x"

definition re_ok :: "bytes \<Rightarrow> 'd exec \<Rightarrow> 'd exec \<Rightarrow> bool" where
  "re_ok data x0 x \<longleftrightarrow> exec_ok data True x \<and> pos x0 \<le> pos x \<and> rank (cur x) < rank (cur x0)"

abbreviation step_ok :: "bytes \<Rightarrow> 'd exec \<Rightarrow> 'd ctl \<Rightarrow> bool" where
  "step_ok data x c \<equiv> ctl_all data (brk_ok data x) (re_ok data x) c"

lemmas ok_defs = brk_ok_def re_ok_def exec_ok_def

lemma notify_brk:
  assumes "benign st" and "brk_ok data x0 x" and "n = N_message_complete \<Longrightarrow> mark_of (cur x) = None"
  shows "ctl_all data (brk_ok data x0) R (CALLBACK_NOTIFY st n x)"
  unfolding CALLBACK_NOTIFY_def
proof (rule callback_notify_ok [OF assms(1)])
  fix x' assume "after_callback x x'"
  from after_callbackD [OF this] assms(2) show "brk_ok data x0 x'" by (simp add: ok_defs)
next
  fix x' t d assume n: "n = N_message_complete" and x': "x' = x\<lparr>parser := (http_parser_init t (parser x))\<lparr>hp_data := d\<rparr>,
      cur := hp_state (http_parser_init t (parser x))\<rparr>"
  have "marks_ok (cur x) (marks x) (pos x)" using assms(2) by (simp add: ok_defs)
  from marks_ok_any [OF assms(3) [OF n] this] have "marks_ok (cur x') (marks x) (pos x)" .
  moreover have "hp_errno (http_parser_init t (parser x)) = HPE_OK" by (simp add: http_parser_init_def)
  ultimately show "brk_ok data x0 x'" using assms(2) x' by (simp add: ok_defs)
qed (use assms(2) in \<open>auto simp: ok_defs\<close>)

lemma data_brk:
  assumes "benign st" and "brk_ok data x0 (x\<lparr>marks := (marks x)(d := None)\<rparr>)"
  shows "ctl_all data (brk_ok data x0) R (CALLBACK_DATA st data d x)"
  unfolding CALLBACK_DATA_def
proof (rule callback_data_ok [OF assms(1)])
  fix x' assume "after_callback (x\<lparr>marks := (marks x)(d := None)\<rparr>) x'"
  from after_callbackD [OF this] assms(2) show "brk_ok data x0 x'" by (simp add: ok_defs)
qed (use assms(2) in \<open>auto simp: ok_defs\<close>)

text \<open>Moving to a state without a mark requirement on the parser.\<close>

definition plain_state :: "state \<Rightarrow> bool" where
  "plain_state s \<longleftrightarrow> s \<notin> chunk_states \<union> {s_req_method, s_header_field, s_header_value, s_body_identity}"

lemma state_ok_plain: "plain_state s \<Longrightarrow> state_ok c s q = (hp_nread q \<le> HTTP_MAX_HEADER_SIZE)"
  by (auto simp: state_ok_def plain_state_def chunk_states_def)

lemma state_ok_nread: "state_ok c s q \<Longrightarrow> hp_nread q \<le> HTTP_MAX_HEADER_SIZE"
  by (simp add: state_ok_def)

lemmas plain_simps = state_ok_plain plain_state_def chunk_states_def

lemma marks_ok_clear: "marks_ok s m p \<Longrightarrow> mark_of s = Some d \<Longrightarrow> marks_ok s' (m(d := None)) p"
  by (auto simp: marks_ok_def)

lemma marks_ok_start: "mark_of s = None \<Longrightarrow> marks_ok s m p \<Longrightarrow> mark_of s' = Some d \<Longrightarrow>
    marks_ok s' (if m d = None then m(d := Some p) else m) p"
  using marks_ok_none [of s m p] by (auto simp: marks_ok_def)

lemma marks_ok_stay: "marks_ok s m p \<Longrightarrow> mark_of s' = mark_of s \<Longrightarrow> p \<le> p' \<Longrightarrow> marks_ok s' m p'"
  unfolding marks_ok_def using le_trans by metis

text \<open>Moves between states without a mark, to a state without further requirements.\<close>

lemma brk_plain:
  assumes "exec_ok data c x" and "mark_of (cur x) = None" and "hp_errno (parser x') = HPE_OK"
    and "pos x' = pos x" and "hp_nread (parser x') = hp_nread (parser x)" and "marks x' = marks x"
    and "plain_state (cur x')"
  shows "brk_ok data x x'"
  using assms marks_ok_any [OF assms(2)] by (auto simp: ok_defs state_ok_plain dest: state_ok_nread)

lemma re_plain:
  assumes "exec_ok data c x" and "mark_of (cur x) = None" and "hp_errno (parser x') = HPE_OK"
    and "pos x' = pos x" and "hp_nread (parser x') = hp_nread (parser x)" and "marks x' = marks x"
    and "plain_state (cur x')" and "rank (cur x') < rank (cur x)"
  shows "re_ok data x x'"
  using assms marks_ok_any [OF assms(2)] by (auto simp: ok_defs state_ok_plain dest: state_ok_nread)

lemma exec_okD:
  assumes "exec_ok data c x"
  shows "hp_errno (parser x) = HPE_OK" "pos x < length data" "pos x \<le> length data"
    "state_ok c (cur x) (parser x)" "marks_ok (cur x) (marks x) (pos x)"
    "hp_nread (parser x) \<le> HTTP_MAX_HEADER_SIZE"
  using assms by (auto simp: exec_ok_def dest: state_ok_nread)

lemma plain_state_simps:
  "plain_state s \<longleftrightarrow> s \<noteq> s_req_method \<and> s \<noteq> s_header_field \<and> s \<noteq> s_header_value \<and> s \<noteq> s_body_identity \<and>
     s \<notin> chunk_states"
  by (auto simp: plain_state_def)

lemmas plain_eval = plain_state_simps chunk_states_def mark_of_def rank_def

lemma step_dead:
  assumes "exec_ok data True x" "cur x = s_dead"
  shows "step_ok data x (exec_dead x)"
  using assms exec_okD [OF assms(1)]
  by (auto simp: exec_dead_def plain_eval intro!: brk_plain [OF assms(1)])

lemma step_start_req_or_res:
  assumes st: "benign st" and x: "exec_ok data True x" and s: "cur x = s_start_req_or_res"
  shows "step_ok data x (exec_start_req_or_res st x)"
  using s exec_okD [OF x]
  by (auto simp: exec_start_req_or_res_def begin_message_def Let_def plain_eval
      intro!: notify_brk [OF st] brk_plain [OF x] re_plain [OF x])

lemma state_ok_req_method:
  "state_ok c s_req_method q \<longleftrightarrow> hp_nread q \<le> HTTP_MAX_HEADER_SIZE \<and>
     unat (hp_index q) \<le> length (method_string (hp_method q))"
  by (simp add: state_ok_def chunk_states_def)

lemma method_string_nonempty: "1 \<le> length (method_string m)"
  by (cases m) simp_all

lemma step_res_or_resp_H:
  assumes x: "exec_ok data True x" and s: "cur x = s_res_or_resp_H"
  shows "step_ok data x (exec_res_or_resp_H x)"
proof -
  have "marks_ok s_req_method (marks x) (pos x)"
    using marks_ok_any [of "cur x"] s exec_okD(5) [OF x] by (simp add: mark_of_def)
  then have "brk_ok data x (goto s_req_method
      (upd (\<lambda>q. q\<lparr>hp_type := HTTP_REQUEST, hp_method := HTTP_HEAD, hp_index := 2\<rparr>) x))"
    using exec_okD [OF x] by (simp add: ok_defs state_ok_req_method)
  then show ?thesis using s exec_okD [OF x]
    by (auto simp: exec_res_or_resp_H_def plain_eval intro!: brk_plain [OF x])
qed

lemma step_start_res:
  assumes st: "benign st" and x: "exec_ok data True x" and s: "cur x = s_start_res"
  shows "step_ok data x (exec_start_res st x)"
  using s exec_okD [OF x]
  by (auto simp: exec_start_res_def begin_message_def Let_def plain_eval
      intro!: notify_brk [OF st] brk_plain [OF x])

lemma step_start_req:
  assumes st: "benign st" and x: "exec_ok data True x" and s: "cur x = s_start_req"
    and b: "beyond \<noteq> None"
  shows "step_ok data x (exec_start_req st data beyond x)"
proof -
  define y where "y = upd (\<lambda>q. q\<lparr>hp_method := HTTP_DELETE, hp_index := 1\<rparr>) (begin_message x)"
  have marks: "marks_ok s_req_method (marks x) (pos x)"
    using marks_ok_any [of "cur x"] s exec_okD(5) [OF x] by (simp add: mark_of_def)
  have "brk_ok data x (goto s_req_method (upd (hp_method_update (\<lambda>_. m)) y))" for m
    using marks exec_okD [OF x] method_string_nonempty [of m]
    by (simp add: ok_defs state_ok_req_method y_def begin_message_def)
  then have go: "step_ok data x (CALLBACK_NOTIFY st N_message_begin
      (goto s_req_method (upd (hp_method_update (\<lambda>_. m)) y)))" for m
    by (rule notify_brk [OF st]) simp
  have peek: "\<exists>c. peek data beyond (pos x + 1) = Some c"
    using exec_okD [OF x] b by (auto simp: peek_def)
  have y: "pos y = pos x" "cch y = cch x" "pos (begin_message x) = pos x" "cch (begin_message x) = cch x"
    by (simp_all add: y_def begin_message_def)
  have "brk_ok data x x" by (rule brk_plain [OF x]) (use s exec_okD [OF x] in \<open>simp_all add: plain_eval\<close>)
  then show ?thesis using go peek exec_okD(3) [OF x] unfolding exec_start_req_def Let_def y
    by (auto simp: y_def [symmetric] y split: option.split)
qed


lemma brk_gen:
  assumes "exec_ok data c x" and "hp_errno (parser x') = HPE_OK" and "pos x' = pos x"
    and "hp_nread (parser x') = hp_nread (parser x)" and "plain_state (cur x')"
    and "marks_ok (cur x') (marks x') (pos x)"
  shows "brk_ok data x x'"
  using assms by (auto simp: ok_defs state_ok_plain dest: state_ok_nread)

lemma re_gen:
  assumes "exec_ok data c x" and "hp_errno (parser x') = HPE_OK" and "pos x' = pos x"
    and "hp_nread (parser x') = hp_nread (parser x)" and "plain_state (cur x')"
    and "marks_ok (cur x') (marks x') (pos x)" and "rank (cur x') < rank (cur x)"
  shows "re_ok data x x'"
  using assms by (auto simp: ok_defs state_ok_plain dest: state_ok_nread)

lemma step_res_version:
  assumes x: "exec_ok data True x"
    and s: "cur x \<in> {s_res_H, s_res_HT, s_res_HTT, s_res_HTTP, s_res_http_major, s_res_http_dot,
      s_res_http_minor, s_res_http_end}"
  shows "step_ok data x (exec_res_version x)"
  using s exec_okD [OF x]
  by (auto simp: exec_res_version_def plain_eval intro!: brk_plain [OF x])

lemma step_res_status:
  assumes st: "benign st" and x: "exec_ok data True x"
    and s: "cur x \<in> {s_res_first_status_code, s_res_status_code, s_res_status_start, s_res_status,
      s_res_line_almost_done}"
  shows "step_ok data x (exec_res_status st data x)"
proof -
  note m = exec_okD(5) [OF x]
  from s consider "cur x = s_res_status_start" | "cur x = s_res_status"
    | "cur x \<in> {s_res_first_status_code, s_res_status_code, s_res_line_almost_done}" by auto
  then show ?thesis
  proof cases
    case 1
    with m have "marks_ok s_res_status (marks (set_mark D_status x)) (pos x)"
      using marks_ok_start [of "cur x" "marks x" "pos x" s_res_status D_status] by (simp add: mark_of_def)
    with 1 exec_okD [OF x] show ?thesis
      by (auto simp: exec_res_status_def Let_def plain_eval intro!: brk_gen [OF x] re_gen [OF x] split: if_splits)
  next
    case 2
    with m have "marks_ok t ((marks x)(D_status := None)) (pos x)" for t
      using marks_ok_clear [of "cur x" "marks x" "pos x" D_status] by (simp add: mark_of_def)
    with 2 m exec_okD [OF x] show ?thesis
      by (auto simp: exec_res_status_def plain_eval intro!: data_brk [OF st] brk_gen [OF x])
  next
    case 3
    with exec_okD [OF x] show ?thesis
      by (auto simp: exec_res_status_def Let_def plain_eval intro!: brk_plain [OF x] re_plain [OF x])
  qed
qed

text \<open>Every entry of the method table stays inside the name it moves to.\<close>

lemma method_table_inside:
  "map_of method_table (m, i, c) = Some m' \<Longrightarrow> i + 1 \<le> length (method_string m')"
  by (auto simp: method_table_def split: if_splits)

lemma cstr_length [simp]: "length (cstr s) = length s + 1"
  by (simp add: cstr_def)

lemma cstr_end: "cstr s ! length s = 0"
  by (simp add: cstr_def nth_append)

lemma method_string_bound: "length (method_string m) \<le> 11"
  by (cases m) simp_all

lemma index_inc: "unat (i :: 7 word) \<le> 11 \<Longrightarrow> unat (i + 1) = unat i + 1"
  by (simp add: unat_word_ariths)

lemma step_req_method:
  assumes x: "exec_ok data True x" and s: "cur x = s_req_method"
  shows "step_ok data x (exec_req_method x)"
proof -
  let ?q = "parser x" and ?s = "method_string (hp_method (parser x))" and ?i = "hp_index (parser x)"
  have i: "unat ?i \<le> length ?s" using exec_okD(4) [OF x] s by (simp add: state_ok_req_method)
  then have at: "cstr_at ?s ?i = Some (cstr ?s ! unat ?i)" by (simp add: cstr_at_def)
  have i1: "unat (?i + 1) = unat ?i + 1"
    using index_inc i method_string_bound [of "hp_method (parser x)"] by simp
  have m: "marks_ok t (marks x) (pos x)" for t
    using marks_ok_any [of "cur x"] exec_okD(5) [OF x] s by (simp add: mark_of_def)
  have adv: "brk_ok data x (upd (\<lambda>q. q\<lparr>hp_index := hp_index q + 1\<rparr>) (upd (hp_method_update (\<lambda>_. n)) x))"
    if "unat ?i + 1 \<le> length (method_string n)" for n
    using that exec_okD [OF x] s m by (simp add: ok_defs state_ok_req_method i1)
  have stay: "brk_ok data x (upd (\<lambda>q. q\<lparr>hp_index := hp_index q + 1\<rparr>) x)"
    if "cch x = cstr ?s ! unat ?i" "cch x \<noteq> 0"
  proof -
    have "unat ?i \<noteq> length ?s" using that cstr_end [of ?s] by metis
    with i have "unat ?i + 1 \<le> length ?s" by simp
    then show ?thesis using exec_okD [OF x] s m by (simp add: ok_defs state_ok_req_method i1)
  qed
  have sp: "brk_ok data x (upd (\<lambda>q. q\<lparr>hp_index := hp_index q + 1\<rparr>) (goto s_req_spaces_before_url x))"
    by (rule brk_plain [OF x]) (use s exec_okD [OF x] in \<open>simp_all add: plain_eval\<close>)
  show ?thesis using stay sp adv method_table_inside [of "hp_method ?q" "unat ?i" "cch x"] exec_okD(3) [OF x]
    by (auto simp: exec_req_method_def Let_def at split: option.split)
qed

lemma url_states_mark:
  "s \<in> url_states \<Longrightarrow> s \<noteq> s_req_spaces_before_url \<Longrightarrow> mark_of s = Some D_url \<and> plain_state s"
  by (auto simp: url_states_def plain_eval)

lemma step_url_byte:
  assumes y: "exec_ok data c x" "hp_errno (parser y) = HPE_OK" "pos y = pos x"
      "hp_nread (parser y) = hp_nread (parser x)"
    and s: "cur y \<in> url_states" and m: "\<And>t. mark_of t = Some D_url \<Longrightarrow> marks_ok t (marks y) (pos y)"
  shows "step_ok data x (url_byte y)"
proof (cases "parse_url_char (cur y) (cch y) = s_dead")
  case True then show ?thesis using y(3) exec_okD(3) [OF y(1)] by (simp add: url_byte_def)
next
  case False
  from url_states_mark [OF parse_url_char_step(1,2) [OF s refl False]]
  have "mark_of (parse_url_char (cur y) (cch y)) = Some D_url" "plain_state (parse_url_char (cur y) (cch y))" by auto
  then show ?thesis using False y m
    by (auto simp: url_byte_def Let_def intro!: brk_gen [OF y(1)])
qed

lemma step_spaces_before_url:
  assumes x: "exec_ok data True x" and s: "cur x = s_req_spaces_before_url"
  shows "step_ok data x (exec_spaces_before_url x)"
proof -
  have m: "marks_ok t (marks (set_mark D_url x)) (pos x)" if "mark_of t = Some D_url" for t
    using marks_ok_start [of "cur x" "marks x" "pos x" t D_url] that s exec_okD(5) [OF x] by (simp add: mark_of_def)
  have "cur (if hp_method (parser x) = HTTP_CONNECT then goto s_req_server_start (set_mark D_url x)
      else set_mark D_url x) \<in> url_states" using s by (simp add: url_states_def)
  then have "step_ok data x (url_byte (if hp_method (parser x) = HTTP_CONNECT
      then goto s_req_server_start (set_mark D_url x) else set_mark D_url x))"
    by (intro step_url_byte [OF x]) (use exec_okD [OF x] m in auto)
  moreover have "brk_ok data x x"
    by (rule brk_plain [OF x]) (use s exec_okD [OF x] in \<open>simp_all add: plain_eval\<close>)
  ultimately show ?thesis by (simp add: exec_spaces_before_url_def Let_def)
qed

lemma marks_ok_url: "mark_of s = Some d \<Longrightarrow> marks_ok s m p \<Longrightarrow> mark_of t = Some d \<Longrightarrow> marks_ok t m p"
  by (auto simp: marks_ok_def)

lemma step_url_start:
  assumes x: "exec_ok data True x"
    and s: "cur x \<in> {s_req_schema, s_req_schema_slash, s_req_schema_slash_slash, s_req_server_start}"
  shows "step_ok data x (exec_url_start x)"
proof -
  have u: "cur x \<in> url_states" "mark_of (cur x) = Some D_url" using s by (auto simp: url_states_def mark_of_def)
  note mk = marks_ok_url [OF u(2) exec_okD(5) [OF x]]
  have "step_ok data x (url_byte x)"
    by (intro step_url_byte [OF x] mk) (use exec_okD [OF x] u in simp_all)
  then show ?thesis using exec_okD(3) [OF x] by (simp add: exec_url_start_def)
qed

lemma step_url:
  assumes st: "benign st" and x: "exec_ok data True x"
    and s: "cur x \<in> {s_req_server, s_req_server_with_at, s_req_path, s_req_query_string_start,
      s_req_query_string, s_req_fragment_start, s_req_fragment}"
  shows "step_ok data x (exec_url st data x)"
proof -
  have u: "cur x \<in> url_states" "mark_of (cur x) = Some D_url" using s by (auto simp: url_states_def mark_of_def)
  note mk = marks_ok_url [OF u(2) exec_okD(5) [OF x]]
  have "step_ok data x (url_byte x)"
    by (intro step_url_byte [OF x] mk) (use exec_okD [OF x] u in simp_all)
  moreover have "marks_ok t ((marks x)(D_url := None)) (pos x)" for t
    by (rule marks_ok_clear [OF exec_okD(5) [OF x] u(2)])
  ultimately show ?thesis using exec_okD [OF x]
    by (auto simp: exec_url_def plain_eval intro!: data_brk [OF st] brk_gen [OF x])
qed

lemma step_req_version:
  assumes x: "exec_ok data True x"
    and s: "cur x \<in> {s_req_http_start, s_req_http_H, s_req_http_HT, s_req_http_HTT, s_req_http_HTTP,
      s_req_http_major, s_req_http_dot, s_req_http_minor, s_req_http_end, s_req_line_almost_done}"
  shows "step_ok data x (exec_req_version x)"
  using s exec_okD [OF x]
  by (auto simp: exec_req_version_def plain_eval intro!: brk_plain [OF x])


section \<open>Headers\<close>

lemma count_ok:
  assumes "pos x \<le> length data"
    and "hp_nread (parser x) + of_nat v \<le> HTTP_MAX_HEADER_SIZE \<Longrightarrow>
      B (upd (\<lambda>q. q\<lparr>hp_nread := hp_nread q + of_nat v\<rparr>) x)"
  shows "ctl_all data B R (COUNT_HEADER_SIZE v x)"
  using assms by (auto simp: COUNT_HEADER_SIZE_def Let_def not_less)

lemma state_ok_header_field:
  "state_ok c s_header_field q \<longleftrightarrow> hp_nread q \<le> HTTP_MAX_HEADER_SIZE \<and> hp_header_state q \<in> field_states"
  by (simp add: state_ok_def chunk_states_def)

lemma state_ok_header_value:
  "state_ok c s_header_value q \<longleftrightarrow> hp_nread q \<le> HTTP_MAX_HEADER_SIZE \<and>
     hp_header_state q \<notin> {h_connection, h_transfer_encoding}"
  by (simp add: state_ok_def chunk_states_def)

lemma step_header_field_start:
  assumes x: "exec_ok data True x" and s: "cur x = s_header_field_start"
  shows "step_ok data x (exec_header_field_start x)"
proof -
  let ?h = "\<lambda>c. if c = c_lc then h_C else if c = c_lp then h_matching_proxy_connection
     else if c = c_lt then h_matching_transfer_encoding else if c = c_lu then h_matching_upgrade else h_general"
  have "marks_ok s_header_field (marks (set_mark D_header_field x)) (pos x)"
    using marks_ok_start [of "cur x" "marks x" "pos x" s_header_field D_header_field] s exec_okD(5) [OF x]
    by (simp add: mark_of_def)
  moreover have "?h c \<in> field_states" for c by (simp add: field_states_def)
  ultimately have "brk_ok data x (goto s_header_field (upd (\<lambda>q. q\<lparr>hp_index := 0, hp_header_state := ?h c\<rparr>)
      (set_mark D_header_field x)))" for c
    using exec_okD [OF x] by (simp add: ok_defs state_ok_header_field del: marks_set_mark)
  then show ?thesis using s exec_okD [OF x]
    by (auto simp: exec_header_field_start_def Let_def plain_eval simp del: marks_set_mark
        intro!: brk_plain [OF x] re_plain [OF x])
qed

lemma match_next_cases: "match_next s this other found c i = (h, j) \<Longrightarrow> h \<in> {this, other, found}"
  by (auto simp: match_next_def Let_def split: if_splits)

lemma field_states_mem [simp]:
  "h_general \<in> field_states" "h_C \<in> field_states" "h_CO \<in> field_states" "h_CON \<in> field_states"
  "h_matching_connection \<in> field_states" "h_matching_proxy_connection \<in> field_states"
  "h_matching_content_length \<in> field_states" "h_matching_transfer_encoding \<in> field_states"
  "h_matching_upgrade \<in> field_states" "h_connection \<in> field_states" "h_content_length \<in> field_states"
  "h_transfer_encoding \<in> field_states" "h_upgrade \<in> field_states"
  by (simp_all add: field_states_def)

lemma match_next_mem:
  assumes "this \<in> S" "other \<in> S" "found \<in> S"
  shows "\<exists>h'. (\<exists>i'. match_next s this other found c i = (h', i')) \<and> h' \<in> S"
  using assms match_next_cases [of s this other found c i] by (cases "match_next s this other found c i") auto

lemma header_field_step_ok:
  assumes "h \<in> field_states"
  shows "\<exists>h' i'. header_field_step h i c ch = Some (h', i') \<and> h' \<in> field_states"
proof -
  from assms consider "h \<in> {h_general, h_C, h_CO, h_CON, h_connection, h_content_length, h_transfer_encoding, h_upgrade}"
    | "h \<in> {h_matching_connection, h_matching_proxy_connection, h_matching_content_length,
        h_matching_transfer_encoding, h_matching_upgrade}" unfolding field_states_def by blast
  then show ?thesis
  proof cases
    case 1 then show ?thesis by (elim insertE emptyE) (simp_all add: header_field_step_def)
  next
    case 2 then show ?thesis
      by (elim insertE emptyE) (simp_all add: header_field_step_def match_next_mem)
  qed
qed

lemma header_field_loop_ok:
  assumes "h \<in> field_states"
  shows "\<exists>n' h' i' ch'. header_field_loop bs n h i ch = Some (n', h', i', ch') \<and> h' \<in> field_states \<and>
    n \<le> n' \<and> n' \<le> n + length bs"
  using assms
proof (induction bs n h i ch rule: header_field_loop.induct)
  case (2 b rest n h i ch)
  show ?case
  proof (cases "TOKEN b = 0")
    case False
    obtain h' i' where st: "header_field_step h i (TOKEN b) b = Some (h', i')" "h' \<in> field_states"
      using header_field_step_ok [OF 2(2)] by blast
    from "2.IH" [OF refl False st(1) refl st(2)] st False show ?thesis by (fastforce simp: Let_def)
  qed (use 2(2) in simp)
qed simp

lemma step_header_field:
  assumes st: "benign st" and x: "exec_ok data True x" and s: "cur x = s_header_field"
  shows "step_ok data x (exec_header_field st data x)"
proof -
  have "hp_header_state (parser x) \<in> field_states"
    using exec_okD(4) [OF x] s by (simp add: state_ok_header_field)
  then obtain n h i ch where run: "header_field_loop (drop (pos x) data) 0 (hp_header_state (parser x))
      (hp_index (parser x)) (cch x) = Some (n, h, i, ch)"
    and h: "h \<in> field_states" and n: "n \<le> length data - pos x"
    using header_field_loop_ok [of _ "drop (pos x) data" 0 "hp_index (parser x)" "cch x"] by fastforce
  have n': "pos x + n \<le> length data" using n exec_okD(2) [OF x] by simp
  define y where "y = upd (\<lambda>q. q\<lparr>hp_header_state := h, hp_index := i\<rparr>) (x\<lparr>pos := pos x + n, cch := ch\<rparr>)"
  have m: "\<forall>d k. marks x d = Some k \<longrightarrow> d = D_header_field \<and> k \<le> pos x"
    using exec_okD(5) [OF x] s by (auto simp: marks_ok_def mark_of_def)
  then have clear: "marks_ok t ((marks x)(D_header_field := None)) p" for t p by (auto simp: marks_ok_def)
  have keep: "marks_ok s_header_field (marks x) (length data - 1)"
    using m exec_okD(2) [OF x] by (fastforce simp: marks_ok_def mark_of_def)
  define z where "z = upd (\<lambda>q. q\<lparr>hp_nread := hp_nread q + of_nat n\<rparr>) y"
  have z: "pos z = pos x + n" "cur z = s_header_field" "marks z = marks x" "hp_header_state (parser z) = h"
    "hp_errno (parser z) = HPE_OK" using s exec_okD(1) [OF x] by (simp_all add: z_def y_def)
  have cont: "step_ok data x (if pos z = length data then Break (z\<lparr>pos := pos z - 1\<rparr>)
      else if cch z = c_colon then CALLBACK_DATA st data D_header_field (goto s_header_value_discard_ws z)
      else fail HPE_INVALID_HEADER_TOKEN z)" if nr: "hp_nread (parser z) \<le> HTTP_MAX_HEADER_SIZE"
  proof (cases "pos z = length data")
    case True
    have "brk_ok data x (z\<lparr>pos := pos z - 1\<rparr>)"
      using True z nr h keep exec_okD(2) [OF x] by (auto simp: ok_defs state_ok_header_field)
    with True show ?thesis by simp
  next
    case False
    have "brk_ok data x (goto s_header_value_discard_ws z
        \<lparr>marks := (marks (goto s_header_value_discard_ws z))(D_header_field := None)\<rparr>)"
      using False z nr clear n' by (simp add: ok_defs plain_simps)
    from data_brk [OF st this] False z(1) n' show ?thesis by simp
  qed
  show ?thesis unfolding exec_header_field_def run Let_def option.case prod.case y_def [symmetric]
  proof (rule ctl_all_proceed [where B' = "\<lambda>w. w = z \<and> hp_nread (parser z) \<le> HTTP_MAX_HEADER_SIZE"])
    show "ctl_all data (\<lambda>w. w = z \<and> hp_nread (parser z) \<le> HTTP_MAX_HEADER_SIZE) (re_ok data x) (COUNT_HEADER_SIZE n y)"
      by (rule count_ok) (use n' in \<open>simp_all add: z_def y_def\<close>)
  qed (use cont in simp)
qed


lemma step_value_start:
  assumes x: "exec_ok data True x" and s: "mark_of (cur x) = None"
  shows "step_ok data x (exec_header_value_start x)"
proof -
  define y where "y = upd (hp_index_update (\<lambda>_. 0)) (goto s_header_value (set_mark D_header_value x))"
  have m: "marks_ok s_header_value (marks y) (pos x)"
    using marks_ok_start [OF s exec_okD(5) [OF x], of s_header_value D_header_value]
    by (simp add: y_def mark_of_def)
  have y: "pos y = pos x" "cur y = s_header_value" "hp_errno (parser y) = HPE_OK"
    "hp_nread (parser y) \<le> HTTP_MAX_HEADER_SIZE" using exec_okD [OF x] by (simp_all add: y_def)
  have go: "brk_ok data x (upd f y)" if "hp_errno (f (parser y)) = HPE_OK" "hp_nread (f (parser y)) = hp_nread (parser y)"
    "hp_header_state (f (parser y)) \<noteq> h_connection" "hp_header_state (f (parser y)) \<noteq> h_transfer_encoding" for f
    using that y m exec_okD(2) [OF x] by (simp add: ok_defs state_ok_header_value)
  have id: "upd (\<lambda>q. q) y = y" by (simp add: upd_def)
  have upd2: "upd f (upd g z) = upd (\<lambda>q. f (g q)) z" for f g z by (simp add: upd_def)
  note stay = go [of "\<lambda>q. q", unfolded id]
  show ?thesis unfolding exec_header_value_start_def Let_def y_def [symmetric]
    using y exec_okD(3) [OF x]
    by (cases "hp_header_state (parser y)") (auto simp: upd2 set_flag_def intro!: go stay)
qed

lemma step_value_discard_ws:
  assumes x: "exec_ok data True x" and s: "cur x = s_header_value_discard_ws"
  shows "step_ok data x (exec_value_discard_ws x)"
  using s exec_okD [OF x] step_value_start [OF x]
  by (auto simp: exec_value_discard_ws_def plain_eval intro!: brk_plain [OF x])

text \<open>The scan of a value.\<close>

lemma memchr_Some: "memchr xs c limit = Some i \<Longrightarrow> i < length xs \<and> xs ! i = c"
  by (induction xs c limit arbitrary: i rule: memchr.induct) (auto split: if_splits)

lemma memchr_hd: "memchr (b # rest) c limit = Some i \<Longrightarrow> b \<noteq> c \<Longrightarrow> 0 < i"
  by (auto split: if_splits)

lemma general_skip_bounds:
  assumes "b \<noteq> c_CR" "b \<noteq> c_LF"
  shows "0 < general_skip (b # rest)" "general_skip (b # rest) \<le> Suc (length rest)"
proof -
  let ?xs = "b # rest" and ?l = "unat (min (of_nat (length (b # rest)) :: u64) HTTP_MAX_HEADER_SIZE)"
  have cr: "0 < i \<and> i \<le> Suc (length rest)" if "memchr ?xs c_CR ?l = Some i" for i
    using memchr_hd [OF that assms(1)] memchr_Some [OF that] by simp
  have lf: "0 < i \<and> i \<le> Suc (length rest)" if "memchr ?xs c_LF ?l = Some i" for i
    using memchr_hd [OF that assms(2)] memchr_Some [OF that] by simp
  show "0 < general_skip ?xs" "general_skip ?xs \<le> Suc (length rest)"
    unfolding general_skip_def Let_def using cr lf
    by (cases "memchr ?xs c_CR ?l"; cases "memchr ?xs c_LF ?l"; simp only: option.case length_Cons if_splits; fastforce)+
qed


definition value_state :: "header_states \<Rightarrow> bool" where
  "value_state h \<longleftrightarrow> h \<noteq> h_connection \<and> h \<noteq> h_transfer_encoding"

definition same_meter :: "'d http_parser \<Rightarrow> 'd http_parser \<Rightarrow> bool" where
  "same_meter q q' \<longleftrightarrow> hp_errno q' = hp_errno q \<and> hp_nread q' = hp_nread q"

definition value_next_ok :: "'d http_parser \<Rightarrow> 'd value_next \<Rightarrow> bool" where
  "value_next_ok q v = (case v of
      V_next h' q' \<Rightarrow> value_state h' \<and> same_meter q q'
    | V_bad e q' \<Rightarrow> e = HPE_INVALID_CONTENT_LENGTH
    | V_abort \<Rightarrow> False)"

lemma value_match_ok:
  assumes "value_state this" "value_state other" "value_state found"
  shows "value_next_ok q (value_match s this other found c q)"
  using assms match_next_cases [of s this other found c "hp_index q"]
  by (cases "match_next s this other found c (hp_index q)")
    (auto simp: value_match_def value_next_ok_def same_meter_def)

lemma connection_token_end_ok:
  "value_state h \<Longrightarrow> value_next_ok q (connection_token_end f h ch q)"
  by (simp add: connection_token_end_def value_next_ok_def value_state_def same_meter_def set_flag_def)

lemma header_value_step_ok:
  assumes "value_state h"
  shows "value_next_ok q (header_value_step h ch q)"
proof -
  have n: "value_next_ok q (V_next h' q') \<longleftrightarrow> value_state h' \<and> same_meter q q'"
    "value_next_ok q (V_bad e q') \<longleftrightarrow> e = HPE_INVALID_CONTENT_LENGTH" "same_meter q q"
    "same_meter q (q\<lparr>hp_index := i\<rparr>)" "same_meter q (q\<lparr>hp_content_length := t\<rparr>)"
    for h' q' e i t by (simp_all add: value_next_ok_def same_meter_def)
  have v: "value_state h_general" "value_state h_content_length" "value_state h_matching_transfer_encoding_chunked"
    "value_state h_transfer_encoding_chunked" "value_state h_matching_connection_token_start"
    "value_state h_matching_connection_token" "value_state h_matching_connection_keep_alive"
    "value_state h_matching_connection_close" "value_state h_matching_connection_upgrade"
    "value_state h_connection_keep_alive" "value_state h_connection_close" "value_state h_connection_upgrade"
    by (simp_all add: value_state_def)
  show ?thesis
    by (cases h) (use assms in \<open>simp_all add: header_value_step_def Let_def n v value_match_ok
        connection_token_end_ok\<close>, simp_all add: value_state_def)
qed

definition value_stop_ok :: "nat \<Rightarrow> nat \<Rightarrow> 'd http_parser \<Rightarrow>
    value_stop \<times> nat \<times> header_states \<times> u8 \<times> 'd http_parser \<Rightarrow> bool" where
  "value_stop_ok lo hi q r = (case r of (stop, n, h, ch, q') \<Rightarrow>
     lo \<le> n \<and> n \<le> hi \<and>
     (case stop of
        V_end \<Rightarrow> n = hi \<and> value_state h \<and> same_meter q q'
      | V_cr \<Rightarrow> n < hi \<and> value_state h \<and> same_meter q q'
      | V_lf \<Rightarrow> n < hi \<and> value_state h \<and> same_meter q q' \<and> ch = c_LF
      | V_error e \<Rightarrow> n < hi \<and> e \<noteq> HPE_OK \<and> e \<noteq> HPE_PAUSED
      | V_assert \<Rightarrow> False))"

lemma value_stop_ok_mono:
  "value_stop_ok lo hi q r \<Longrightarrow> lo' \<le> lo \<Longrightarrow> same_meter p q \<Longrightarrow> value_stop_ok lo' hi p r"
  by (auto simp: value_stop_ok_def same_meter_def split: value_stop.splits prod.splits)

lemma header_value_loop_ok:
  assumes "value_state h"
  shows "value_stop_ok n (n + length bs) q (header_value_loop lax bs n h ch q)"
  using assms
proof (induction lax bs n h ch q rule: header_value_loop.induct)
  case (1 lax n h ch q)
  then show ?case by (simp add: value_stop_ok_def same_meter_def)
next
  case (2 lax b rest n h ch q)
  show ?case
  proof (cases "b = c_CR \<or> b = c_LF \<or> (\<not> lax \<and> \<not> IS_HEADER_CHAR b)")
    case True
    then show ?thesis using 2(3) by (auto simp: value_stop_ok_def same_meter_def)
  next
    case ord: False
    then have o: "b \<noteq> c_CR" "b \<noteq> c_LF" "\<not> (\<not> lax \<and> \<not> IS_HEADER_CHAR b)" by auto
    show ?thesis
    proof (cases "h = h_general")
      case True
      let ?k = "general_skip (b # rest)"
      note b = general_skip_bounds [OF o(1,2), of rest]
      have "value_stop_ok (n + ?k) (n + ?k + length (drop (?k - 1) rest)) q
          (header_value_loop lax (drop (?k - 1) rest) (n + ?k) h b q)"
        by (rule "2.IH"(1) [OF o(1,2,3) True refl 2(3)])
      moreover have "n + ?k + length (drop (?k - 1) rest) = n + length (b # rest)" using b by simp
      ultimately have "value_stop_ok n (n + length (b # rest)) q
          (header_value_loop lax (drop (?k - 1) rest) (n + ?k) h b q)"
        using value_stop_ok_mono [of "n + ?k" _ q _ n q] by (simp add: same_meter_def)
      then show ?thesis using o True by (auto simp: Let_def)
    next
      case False
      show ?thesis
      proof (cases "header_value_step h b q")
        case (V_next h' q')
        with header_value_step_ok [OF 2(3), of q b] have v: "value_state h'" "same_meter q q'"
          by (simp_all add: value_next_ok_def)
        from "2.IH"(2) [OF o(1,2,3) False V_next v(1)]
        have "value_stop_ok n (n + length (b # rest)) q (header_value_loop lax rest (n + 1) h' b q')"
          using value_stop_ok_mono [of "n + 1" _ q' _ n q] v(2) by simp
        then show ?thesis using o False V_next by auto
      next
        case (V_bad e q')
        with header_value_step_ok [OF 2(3), of q b] o False show ?thesis
          by (auto simp: value_next_ok_def value_stop_ok_def)
      next
        case V_abort
        with header_value_step_ok [OF 2(3), of q b] show ?thesis by (simp add: value_next_ok_def)
      qed
    qed
  qed
qed

text \<open>The three regular ends of the scan, from the local state \<open>y\<close> it leaves.\<close>

lemma value_end_cr:
  assumes st: "benign st" and s: "cur x = s_header_value"
    and y: "pos x \<le> pos y" "pos y < length data" "same_meter (parser x) (parser y)"
    and x: "hp_errno (parser x) = HPE_OK" "hp_nread (parser x) \<le> HTTP_MAX_HEADER_SIZE"
    and clear: "\<And>t p. marks_ok t ((marks y)(D_header_value := None)) p"
  shows "step_ok data x (proceed (CALLBACK_DATA st data D_header_value
      (upd (hp_header_state_update (\<lambda>_. h)) (goto s_header_almost_done y)))
      (\<lambda>x. COUNT_HEADER_SIZE n (upd (hp_header_state_update (\<lambda>_. h)) x)))"
    (is "step_ok data x (proceed (CALLBACK_DATA st data D_header_value ?y) ?k)")
  unfolding CALLBACK_DATA_def
proof (rule ctl_all_proceed [OF callback_data_ok [OF st]])
  fix w assume "after_callback (?y\<lparr>marks := (marks ?y)(D_header_value := None)\<rparr>) w"
  note w = after_callbackD [OF this]
  have "pos w = pos y" "cur w = s_header_almost_done" "hp_errno (parser w) = HPE_OK"
    "marks w = (marks y)(D_header_value := None)" using w by simp_all
  with y clear show "step_ok data x (?k w)"
    by (intro count_ok) (simp_all add: ok_defs plain_simps)
qed (use x y in \<open>simp_all add: plain_simps same_meter_def\<close>)

lemma value_end_lf:
  assumes st: "benign st" and s: "cur x = s_header_value"
    and y: "pos x \<le> pos y" "pos y < length data" "same_meter (parser x) (parser y)"
    and x: "hp_errno (parser x) = HPE_OK"
    and clear: "\<And>t p. marks_ok t ((marks y)(D_header_value := None)) p"
  shows "step_ok data x (proceed (COUNT_HEADER_SIZE n (goto s_header_almost_done y)) (\<lambda>x.
      proceed (CALLBACK_DATA_NOADVANCE st data D_header_value (upd (hp_header_state_update (\<lambda>_. h)) x)) Reexecute))"
proof (rule ctl_all_proceed [where B' = "\<lambda>z. pos z = pos y \<and> cur z = s_header_almost_done \<and>
    marks z = marks y \<and> hp_errno (parser z) = HPE_OK \<and> hp_nread (parser z) \<le> HTTP_MAX_HEADER_SIZE"])
  fix z :: "'a exec"
  assume z: "pos z = pos y \<and> cur z = s_header_almost_done \<and>
    marks z = marks y \<and> hp_errno (parser z) = HPE_OK \<and> hp_nread (parser z) \<le> HTTP_MAX_HEADER_SIZE"
  let ?z = "upd (hp_header_state_update (\<lambda>_. h)) z"
  show "step_ok data x (proceed (CALLBACK_DATA_NOADVANCE st data D_header_value ?z) Reexecute)"
    unfolding CALLBACK_DATA_NOADVANCE_def
  proof (rule ctl_all_proceed [OF callback_data_ok [OF st]])
    fix w assume "after_callback (?z\<lparr>marks := (marks ?z)(D_header_value := None)\<rparr>) w"
    note w = after_callbackD [OF this]
    have "pos w = pos y" "cur w = s_header_almost_done" "hp_errno (parser w) = HPE_OK"
      "marks w = (marks y)(D_header_value := None)" "hp_nread (parser w) \<le> HTTP_MAX_HEADER_SIZE"
      using w z by simp_all
    with y clear s show "step_ok data x (Reexecute w)" by (simp add: ok_defs plain_simps rank_def)
  qed (use z y in \<open>simp_all add: plain_simps\<close>)
qed (rule count_ok; use x y in \<open>simp add: same_meter_def\<close>)

lemma value_end_end:
  assumes s: "cur x = s_header_value" and x: "hp_errno (parser x) = HPE_OK"
    and y: "pos x < pos y" "pos y = length data" "same_meter (parser x) (parser y)" "cur y = s_header_value"
    and h: "value_state h" and keep: "marks_ok s_header_value (marks y) (pos y - 1)"
  shows "step_ok data x (proceed (COUNT_HEADER_SIZE n (upd (hp_header_state_update (\<lambda>_. h)) y))
      (\<lambda>x. Break (x\<lparr>pos := pos x - 1\<rparr>)))"
proof (rule ctl_all_proceed [where B' = "\<lambda>z. pos z = pos y \<and> cur z = s_header_value \<and> marks z = marks y \<and>
    hp_errno (parser z) = HPE_OK \<and> hp_nread (parser z) \<le> HTTP_MAX_HEADER_SIZE \<and> hp_header_state (parser z) = h"])
  fix z :: "'a exec"
  assume z: "pos z = pos y \<and> cur z = s_header_value \<and> marks z = marks y \<and>
    hp_errno (parser z) = HPE_OK \<and> hp_nread (parser z) \<le> HTTP_MAX_HEADER_SIZE \<and> hp_header_state (parser z) = h"
  then show "step_ok data x (Break (z\<lparr>pos := pos z - 1\<rparr>))"
    using y h keep by (auto simp: ok_defs state_ok_header_value value_state_def)
qed (rule count_ok; use x y in \<open>simp add: same_meter_def\<close>)

lemma step_header_value:
  assumes st: "benign st" and x: "exec_ok data True x" and s: "cur x = s_header_value"
  shows "step_ok data x (exec_header_value st data x)"
proof -
  let ?q = "parser x"
  have "value_state (hp_header_state ?q)"
    using exec_okD(4) [OF x] s by (simp add: state_ok_header_value value_state_def)
  from header_value_loop_ok [OF this, of 0 "drop (pos x) data" ?q "lenient x" "cch x"]
  obtain stop n h ch q where run: "header_value_loop (lenient x) (drop (pos x) data) 0 (hp_header_state ?q) (cch x) ?q
      = (stop, n, h, ch, q)" and ok: "value_stop_ok 0 (length data - pos x) ?q (stop, n, h, ch, q)"
    by (cases "header_value_loop (lenient x) (drop (pos x) data) 0 (hp_header_state ?q) (cch x) ?q") auto
  define y where "y = x\<lparr>pos := pos x + n, cch := ch, parser := q\<rparr>"
  have y: "pos y = pos x + n" "cur y = s_header_value" "marks y = marks x" "parser y = q"
    using s by (simp_all add: y_def)
  have m: "\<forall>d k. marks x d = Some k \<longrightarrow> d = D_header_value \<and> k \<le> pos x"
    using exec_okD(5) [OF x] s by (auto simp: marks_ok_def mark_of_def)
  then have clear: "\<And>t p. marks_ok t ((marks y)(D_header_value := None)) p" using y by (auto simp: marks_ok_def)
  note e = exec_okD [OF x]
  show ?thesis
  proof (cases stop)
    case V_assert with ok show ?thesis by (simp add: value_stop_ok_def)
  next
    case (V_error er)
    with ok e(2) show ?thesis
      by (auto simp: exec_header_value_def run Let_def value_stop_ok_def)
  next
    case V_lf
    with ok e(2) have "pos y < length data" "same_meter ?q (parser y)" using y by (auto simp: value_stop_ok_def)
    from value_end_lf [OF st s _ this e(1) clear, of n h] y(1) V_lf show ?thesis
      by (simp add: exec_header_value_def run Let_def y_def)
  next
    case V_cr
    with ok e(2) have "pos y < length data" "same_meter ?q (parser y)" using y by (auto simp: value_stop_ok_def)
    from value_end_cr [OF st s _ this e(1,6) clear, of h n] y(1) V_cr show ?thesis
      by (simp add: exec_header_value_def run Let_def y_def)
  next
    case V_end
    with ok e(2) have v: "pos x < pos y" "pos y = length data" "same_meter ?q (parser y)" "value_state h"
      using y by (auto simp: value_stop_ok_def)
    have "marks_ok s_header_value (marks y) (pos y - 1)"
      using m v y(3) by (fastforce simp: marks_ok_def mark_of_def)
    from value_end_end [OF s e(1) v(1,2,3) y(2) v(4) this, of n] V_end show ?thesis
      by (simp add: exec_header_value_def run Let_def y_def)
  qed
qed


lemma finish_header_simps [simp]:
  "hp_errno (finish_header q) = hp_errno q" "hp_nread (finish_header q) = hp_nread q"
  by (simp_all add: finish_header_def set_flag_def split: header_states.split)

lemma step_header_end:
  assumes st: "benign st" and x: "exec_ok data True x"
    and s: "cur x \<in> {s_header_almost_done, s_header_value_lws, s_header_value_discard_ws_almost_done,
      s_header_value_discard_lws}"
  shows "step_ok data x (exec_header_end st data x)"
proof (cases "cur x = s_header_value_discard_lws \<and> \<not> (cch x = c_SP \<or> cch x = c_TAB)")
  case False
  with s exec_okD [OF x] show ?thesis
    by (auto simp: exec_header_end_def plain_eval intro!: brk_plain [OF x] re_plain [OF x])
next
  case True
  let ?y = "goto s_header_field_start (set_mark D_header_value (upd finish_header x))"
  have "marks x = (\<lambda>_. None)"
    using marks_ok_none [of "cur x" "marks x" "pos x"] True exec_okD(5) [OF x] by (auto simp: mark_of_def)
  then have m: "marks_ok t ((marks ?y)(D_header_value := None)) p" for t p by (auto simp: marks_ok_def)
  have "step_ok data x (proceed (CALLBACK_DATA_NOADVANCE st data D_header_value ?y) Reexecute)"
    unfolding CALLBACK_DATA_NOADVANCE_def
  proof (rule ctl_all_proceed [OF callback_data_ok [OF st]])
    fix w assume "after_callback (?y\<lparr>marks := (marks ?y)(D_header_value := None)\<rparr>) w"
    note w = after_callbackD [OF this]
    show "step_ok data x (Reexecute w)" using w True m exec_okD [OF x]
      by (simp add: ok_defs plain_simps rank_def)
  qed (use exec_okD [OF x] in \<open>simp_all add: plain_simps\<close>)
  with True show ?thesis by (simp add: exec_header_end_def)
qed

section \<open>The end of the headers\<close>

lemma set_upgrade_simps [simp]:
  "hp_errno (set_upgrade q) = hp_errno q" "hp_nread (set_upgrade q) = hp_nread q"
  by (simp_all add: set_upgrade_def)

definition headers_complete_post :: "'d exec \<Rightarrow> 'd exec \<Rightarrow> bool" where
  "headers_complete_post x x' \<longleftrightarrow> cur x' = cur x \<and> pos x' = pos x \<and> marks x' = marks x \<and>
     hp_nread (parser x') = hp_nread (parser x)"

lemma headers_complete_ok:
  assumes st: "benign st" and p: "pos x \<le> length data"
  shows "ctl_all data (headers_complete_post x) R (headers_complete st x)"
proof (cases "on_notify st N_headers_complete")
  case None then show ?thesis by (simp add: headers_complete_def headers_complete_post_def)
next
  case (Some f)
  obtain r q where f: "f (parser x) = (r, q)" by (cases "f (parser x)")
  from st Some have "keeps_parser (parser x) (snd (f (parser x)))" unfolding benign_def by blast
  with f have "hp_nread q = hp_nread (parser x)" by (auto simp: keeps_parser_def)
  with Some f p show ?thesis
    by (simp add: headers_complete_def headers_complete_post_def set_flag_def set_errno_def Let_def)
qed

lemma step_headers_almost_done:
  assumes st: "benign st" and x: "exec_ok data True x" and s: "cur x = s_headers_almost_done"
  shows "step_ok data x (exec_headers_almost_done st x)"
proof -
  have m: "marks_ok t (marks x) p" for t p
    using marks_ok_any [of "cur x"] exec_okD(5) [OF x] s by (simp add: mark_of_def)
  note e = exec_okD [OF x]
  have tr: "step_ok data x (proceed (CALLBACK_NOTIFY_NOADVANCE st N_chunk_complete (goto s_message_done x)) Reexecute)"
    unfolding CALLBACK_NOTIFY_NOADVANCE_def
  proof (rule ctl_all_proceed [OF callback_notify_ok [OF st]])
    fix w assume "after_callback (goto s_message_done x) w"
    note w = after_callbackD [OF this]
    show "step_ok data x (Reexecute w)" using w m e s by (simp add: ok_defs plain_simps rank_def)
  qed (use e in \<open>simp_all add: plain_simps\<close>)
  let ?y = "upd set_upgrade (goto s_headers_done x)"
  have hc: "step_ok data x (proceed (headers_complete st ?y) (\<lambda>x.
      if hp_errno (parser x) \<noteq> HPE_OK then ret (pos x) x else Reexecute x))"
  proof (rule ctl_all_proceed [OF headers_complete_ok [OF st]])
    fix w assume w: "headers_complete_post ?y w"
    show "step_ok data x (if hp_errno (parser w) \<noteq> HPE_OK then ret (pos w) w else Reexecute w)"
      using w m e s by (simp add: headers_complete_post_def ok_defs plain_simps rank_def)
  qed (use e in simp)
  show ?thesis using tr hc e by (simp add: exec_headers_almost_done_def)
qed

lemma new_message_state:
  "NEW_MESSAGE x \<in> {s_start_req, s_start_res, s_dead}"
  by (simp add: NEW_MESSAGE_def start_state_def)

lemma new_message_plain: "plain_state (NEW_MESSAGE x)" "mark_of (NEW_MESSAGE x) = None" "rank (NEW_MESSAGE x) = 0"
  using new_message_state [of x] by (auto simp: plain_eval)

lemma step_headers_done:
  assumes st: "benign st" and x: "exec_ok data True x" and s: "cur x = s_headers_done"
  shows "step_ok data x (exec_headers_done st x)"
proof -
  let ?y = "upd (hp_nread_update (\<lambda>_. 0)) x"
  note e = exec_okD [OF x]
  have m: "marks_ok t (marks x) p" for t p
    using marks_ok_any [of "cur x"] e(5) s by (simp add: mark_of_def)
  have fin: "brk_ok data x (goto (NEW_MESSAGE ?y) ?y)"
    using e m new_message_plain [of ?y] by (simp add: ok_defs state_ok_plain)
  have dn: "step_ok data x (CALLBACK_NOTIFY st N_message_complete (goto (NEW_MESSAGE ?y) ?y))"
    by (rule notify_brk [OF st fin]) (simp add: new_message_plain)
  have up: "step_ok data x (proceed (CALLBACK_NOTIFY st N_message_complete (goto (NEW_MESSAGE ?y) ?y)) (\<lambda>x. ret (pos x + 1) x))"
    by (rule ctl_all_proceed [OF dn]) (simp add: ok_defs)
  have b: "flag (hp_flags (parser x)) F_CHUNKED \<Longrightarrow> brk_ok data x (goto s_chunk_size_start ?y)"
    "hp_content_length (parser x) \<noteq> 0 \<Longrightarrow> hp_content_length (parser x) \<noteq> ULLONG_MAX \<Longrightarrow>
      brk_ok data x (goto s_body_identity ?y)"
    "brk_ok data x (goto s_body_identity_eof ?y)"
    using e m by (simp_all add: ok_defs state_ok_def chunk_states_def)
  show ?thesis using e up dn b by (simp add: exec_headers_done_def Let_def)
qed


section \<open>Bodies\<close>

lemma step_message_done:
  assumes st: "benign st" and x: "exec_ok data True x" and s: "cur x = s_message_done"
  shows "step_ok data x (exec_message_done st x)"
proof -
  note e = exec_okD [OF x]
  have m: "marks_ok t (marks x) p" for t p
    using marks_ok_any [of "cur x"] e(5) s by (simp add: mark_of_def)
  have "brk_ok data x (goto (NEW_MESSAGE x) x)"
    using e m new_message_plain [of x] by (simp add: ok_defs state_ok_plain)
  then have "step_ok data x (CALLBACK_NOTIFY st N_message_complete (goto (NEW_MESSAGE x) x))"
    by (rule notify_brk [OF st]) (simp add: new_message_plain)
  then show ?thesis unfolding exec_message_done_def
    by (rule ctl_all_proceed) (simp add: ok_defs)
qed

lemma unat_of_nat_le64:
  assumes "n \<le> unat (c :: u64)"
  shows "unat (of_nat n :: u64) = n"
proof -
  have "unat c < 2 ^ 64" using unsigned_less [of c] by simp
  with assms show ?thesis by (simp add: unat_of_nat64)
qed

lemma take_body_facts:
  assumes "pos x < length data" "hp_content_length (parser x) \<noteq> 0" "hp_content_length (parser x) \<noteq> ULLONG_MAX"
  shows "cur (take_body data x) = cur x" "cch (take_body data x) = cch x"
    "pos x \<le> pos (take_body data x)" "pos (take_body data x) < length data"
    "hp_errno (parser (take_body data x)) = hp_errno (parser x)"
    "hp_nread (parser (take_body data x)) = hp_nread (parser x)"
    "hp_flags (parser (take_body data x)) = hp_flags (parser x)"
    "hp_content_length (parser (take_body data x)) \<noteq> ULLONG_MAX"
    "marks (take_body data x) = marks (set_mark D_body x)"
proof -
  let ?c = "hp_content_length (parser x)" and ?n = "min (unat (hp_content_length (parser x))) (length data - pos x)"
  have c: "0 < unat ?c" using assms(2) by (simp add: unat_gt_0)
  have n: "0 < ?n" "?n \<le> length data - pos x" "?n \<le> unat ?c" using c assms(1) by auto
  show "cur (take_body data x) = cur x" "cch (take_body data x) = cch x"
    "hp_errno (parser (take_body data x)) = hp_errno (parser x)"
    "hp_nread (parser (take_body data x)) = hp_nread (parser x)"
    "hp_flags (parser (take_body data x)) = hp_flags (parser x)"
    "marks (take_body data x) = marks (set_mark D_body x)"
    by (simp_all add: take_body_def Let_def)
  show "pos x \<le> pos (take_body data x)" "pos (take_body data x) < length data"
    using n assms(1) by (auto simp: take_body_def Let_def)
  have le: "(of_nat ?n :: u64) \<le> ?c"
    using n(3) unat_of_nat_le64 [OF n(3)] by (simp add: word_le_nat_alt)
  have "unat (?c - of_nat ?n) = unat ?c - unat (of_nat ?n :: u64)" by (rule unat_sub [OF le])
  also have "unat (of_nat ?n :: u64) = ?n" by (rule unat_of_nat_le64 [OF n(3)])
  finally have "unat (?c - of_nat ?n) < unat ?c" using n by simp
  moreover have "unat ?c \<le> unat ULLONG_MAX" using word_n1_ge [of ?c] by (simp only: word_le_nat_alt)
  ultimately have "unat (?c - of_nat ?n) \<noteq> unat ULLONG_MAX" by linarith
  then have "?c - of_nat ?n \<noteq> ULLONG_MAX" by metis
  then show "hp_content_length (parser (take_body data x)) \<noteq> ULLONG_MAX"
    by (simp add: take_body_def Let_def)
qed

lemma take_body_marks:
  assumes "marks_ok (cur x) (marks x) (pos x)" "mark_of (cur x) = Some D_body" "mark_of t = Some D_body" "pos x \<le> p"
  shows "marks_ok t (marks (set_mark D_body x)) p"
  using assms by (auto simp: marks_ok_def split: if_splits intro: le_trans)

lemma step_body:
  assumes st: "benign st" and x: "exec_ok data True x" and s: "cur x \<in> {s_body_identity, s_body_identity_eof}"
  shows "step_ok data x (exec_body st data x)"
proof -
  note e = exec_okD [OF x]
  have mo: "mark_of (cur x) = Some D_body" using s by (auto simp: mark_of_def)
  note m = take_body_marks [OF e(5) mo]
  from s consider "cur x = s_body_identity_eof" | "cur x = s_body_identity" by auto
  then show ?thesis
  proof cases
    case 1
    moreover have "pos x \<le> length data - 1" "length data - 1 < length data" using e(2) by auto
    moreover have "marks_ok s_body_identity_eof (marks (set_mark D_body x)) (length data - 1)"
      by (rule m) (use calculation in \<open>auto simp: mark_of_def\<close>)
    ultimately show ?thesis using e by (simp add: exec_body_def ok_defs plain_simps del: marks_set_mark)
  next
    case 2
    then have c: "hp_content_length (parser x) \<noteq> 0" "hp_content_length (parser x) \<noteq> ULLONG_MAX"
      using e(4) by (simp_all add: state_ok_def)
    let ?y = "take_body data x"
    note t = take_body_facts [OF e(2) c]
    have mk: "marks_ok s_body_identity (marks ?y) (pos ?y)"
      unfolding t(9) by (rule m) (use t in \<open>simp_all add: mark_of_def\<close>)
    show ?thesis
    proof (cases "hp_content_length (parser ?y) = 0")
      case False
      then have "brk_ok data x ?y" using t e mk 2 by (simp add: ok_defs state_ok_def chunk_states_def)
      then show ?thesis using False c 2 by (simp add: exec_body_def Let_def)
    next
      case True
      have clear: "marks_ok r ((marks ?y)(D_body := None)) p" for r p
        using mk by (auto simp: marks_ok_def mark_of_def)
      have "step_ok data x (proceed (callback_data st data D_body (pos ?y + 1) (pos ?y) (goto s_message_done ?y)) Reexecute)"
      proof (rule ctl_all_proceed [OF callback_data_ok [OF st]])
        fix w assume "after_callback ((goto s_message_done ?y)\<lparr>marks := (marks (goto s_message_done ?y))(D_body := None)\<rparr>) w"
        note w = after_callbackD [OF this]
        show "step_ok data x (Reexecute w)" using w t e clear 2 by (simp add: ok_defs plain_simps rank_def)
      qed (use t e in \<open>simp_all add: plain_simps\<close>)
      then show ?thesis using True c 2 by (simp add: exec_body_def Let_def)
    qed
  qed
qed

lemma step_chunk_data:
  assumes st: "benign st" and x: "exec_ok data True x"
    and s: "cur x \<in> {s_chunk_data, s_chunk_data_almost_done, s_chunk_data_done}"
  shows "step_ok data x (exec_chunk_data st data x)"
proof -
  note e = exec_okD [OF x]
  have f: "flag (hp_flags (parser x)) F_CHUNKED" using e(4) s by (auto simp: state_ok_def chunk_states_def)
  from s consider "cur x = s_chunk_data" | "cur x = s_chunk_data_almost_done" | "cur x = s_chunk_data_done" by auto
  then show ?thesis
  proof cases
    case 1
    then have c: "hp_content_length (parser x) \<noteq> 0" "hp_content_length (parser x) \<noteq> ULLONG_MAX"
      using e(4) by (simp_all add: state_ok_def)
    let ?y = "take_body data x"
    note t = take_body_facts [OF e(2) c]
    have mk: "marks_ok r (marks ?y) (pos ?y)" if "mark_of r = Some D_body" for r
      unfolding t(9) by (rule take_body_marks [OF e(5)]) (use t 1 that in \<open>simp_all add: mark_of_def\<close>)
    have "brk_ok data x ?y" if "hp_content_length (parser ?y) \<noteq> 0"
      using that t e mk [of s_chunk_data] 1 f by (simp add: ok_defs state_ok_def mark_of_def chunk_states_def)
    moreover have "brk_ok data x (goto s_chunk_data_almost_done ?y)" if "hp_content_length (parser ?y) = 0"
      using that t e mk [of s_chunk_data_almost_done] f by (simp add: ok_defs state_ok_def mark_of_def chunk_states_def)
    ultimately show ?thesis using 1 c f by (simp add: exec_chunk_data_def Let_def)
  next
    case 2
    then have c: "hp_content_length (parser x) = 0" using e(4) by (simp add: state_ok_def)
    have "marks_ok r ((marks x)(D_body := None)) p" for r p
      using e(5) 2 by (auto simp: marks_ok_def mark_of_def)
    then have "brk_ok data x ((goto s_chunk_data_done x)\<lparr>marks := (marks (goto s_chunk_data_done x))(D_body := None)\<rparr>)"
      using e f by (simp add: ok_defs state_ok_def chunk_states_def)
    from data_brk [OF st this] show ?thesis using 2 c f e by (simp add: exec_chunk_data_def)
  next
    case 3
    have "marks_ok r (marks x) p" for r p
      using marks_ok_any [of "cur x"] e(5) 3 by (simp add: mark_of_def)
    then have "brk_ok data x (goto s_chunk_size_start (upd (hp_nread_update (\<lambda>_. 0)) x))"
      using e f by (simp add: ok_defs state_ok_def chunk_states_def)
    then have "step_ok data x (CALLBACK_NOTIFY st N_chunk_complete
        (goto s_chunk_size_start (upd (hp_nread_update (\<lambda>_. 0)) x)))"
      by (rule notify_brk [OF st]) simp
    then show ?thesis using 3 f e by (simp add: exec_chunk_data_def)
  qed
qed


text \<open>Chunk sizes: the guard on the accumulated size is exactly what keeps it from wrapping.\<close>

lemma unhex_range: "unhex_at c = -1 \<or> (0 \<le> unhex_at c \<and> unhex_at c \<le> 15)"
proof -
  have "list_all (\<lambda>v. v = -1 \<or> (0 \<le> v \<and> v \<le> 15)) unhex" by (simp add: unhex_def list_all_iff)
  moreover have "unat c < length unhex" using unsigned_less [of c] by (simp add: unhex_def)
  ultimately show ?thesis unfolding unhex_at_def list_all_length by blast
qed

lemma hex_digit_word:
  assumes "unhex_at c \<noteq> -1"
  shows "unat (word_of_int (unhex_at c) :: u64) = nat (unhex_at c)" "nat (unhex_at c) \<le> 15"
proof -
  from unhex_range [of c] assms have r: "0 \<le> unhex_at c" "unhex_at c \<le> 15" by auto
  then show "nat (unhex_at c) \<le> 15" by simp
  from r obtain k where k: "unhex_at c = int k" "k \<le> 15" using nonneg_int_cases by fastforce
  then show "unat (word_of_int (unhex_at c) :: u64) = nat (unhex_at c)"
    by (simp add: unat_of_nat64)
qed

lemma chunk_size_step:
  assumes "\<not> (ULLONG_MAX - 16) div 16 < (v :: u64)" and "unat d \<le> 15"
  shows "unat (v * 16 + d) = 16 * unat v + unat d" "v * 16 + d \<noteq> ULLONG_MAX"
proof -
  have "v \<le> (ULLONG_MAX - 16) div 16" using assms(1) by simp
  then have v: "unat v \<le> 1152921504606846974" by (simp add: word_le_nat_alt)
  show eq: "unat (v * 16 + d) = 16 * unat v + unat d"
    using v assms(2) by (simp add: unat_word_ariths)
  then have "unat (v * 16 + d) \<noteq> unat ULLONG_MAX"
    using v assms(2) by (simp add: unsigned_minus_1_eq_mask mask_eq_exp_minus_1)
  then show "v * 16 + d \<noteq> ULLONG_MAX" by metis
qed

lemma step_chunk_size:
  assumes st: "benign st" and x: "exec_ok data True x"
    and s: "cur x \<in> {s_chunk_size_start, s_chunk_size, s_chunk_parameters, s_chunk_size_almost_done}"
  shows "step_ok data x (exec_chunk_size st x)"
proof -
  note e = exec_okD [OF x]
  have f: "flag (hp_flags (parser x)) F_CHUNKED" using e(4) s by (auto simp: state_ok_def chunk_states_def)
  have m: "marks_ok r (marks x) p" for r p
    using marks_ok_any [of "cur x"] e(5) s by (auto simp: mark_of_def)
  note ev = exec_chunk_size_def Let_def ok_defs state_ok_def chunk_states_def
  from s consider "cur x = s_chunk_size_start" | "cur x = s_chunk_size" | "cur x = s_chunk_parameters"
    | "cur x = s_chunk_size_almost_done" by auto
  then show ?thesis
  proof cases
    case 1
    have "word_of_int (unhex_at (cch x)) \<noteq> ULLONG_MAX" if "unhex_at (cch x) \<noteq> -1"
    proof
      assume "word_of_int (unhex_at (cch x)) = ULLONG_MAX"
      with hex_digit_word [OF that] show False by (simp add: unsigned_minus_1_eq_mask mask_eq_exp_minus_1)
    qed
    with 1 e f m show ?thesis by (auto simp: ev)
  next
    case 2
    then have "hp_content_length (parser x) \<noteq> ULLONG_MAX" using e(4) by (simp add: state_ok_def)
    moreover have "hp_content_length (parser x) * 16 + word_of_int (unhex_at (cch x)) \<noteq> ULLONG_MAX"
      if "unhex_at (cch x) \<noteq> -1" "\<not> (ULLONG_MAX - 16) div 16 < hp_content_length (parser x)"
      by (rule chunk_size_step(2) [OF that(2)]) (use hex_digit_word [OF that(1)] in simp)
    ultimately show ?thesis using 2 e f m by (auto simp: ev)
  next
    case 3
    then have "hp_content_length (parser x) \<noteq> ULLONG_MAX" using e(4) by (simp add: state_ok_def)
    with 3 e f m show ?thesis by (auto simp: ev)
  next
    case 4
    then have c: "hp_content_length (parser x) \<noteq> ULLONG_MAX" using e(4) by (simp add: state_ok_def)
    let ?y = "upd (hp_nread_update (\<lambda>_. 0)) x"
    have b: "brk_ok data x (if hp_content_length (parser ?y) = 0
        then goto s_header_field_start (upd (set_flag F_TRAILING) ?y) else goto s_chunk_data ?y)"
      using 4 c e f m by (simp add: ok_defs state_ok_def chunk_states_def set_flag_def)
    have "step_ok data x (CALLBACK_NOTIFY st N_chunk_header (if hp_content_length (parser ?y) = 0
        then goto s_header_field_start (upd (set_flag F_TRAILING) ?y) else goto s_chunk_data ?y))"
      by (rule notify_brk [OF st b]) simp
    then show ?thesis using 4 f e by (simp add: exec_chunk_size_def Let_def)
  qed
qed

section \<open>The whole switch\<close>

lemma step_switch:
  assumes st: "benign st" and x: "exec_ok data True x" and b: "beyond \<noteq> None"
  shows "step_ok data x (exec_switch st data beyond x)"
proof -
  have vs: "cur x = s_header_value_start \<Longrightarrow> step_ok data x (exec_header_value_start x)"
    by (rule step_value_start [OF x]) (simp add: mark_of_def)
  show ?thesis unfolding exec_switch_def
    by (cases "cur x")
      (simp_all add: step_dead [OF x] step_start_req_or_res [OF st x] step_res_or_resp_H [OF x]
        step_start_res [OF st x] step_start_req [OF st x _ b] step_res_version [OF x] step_res_status [OF st x]
        step_req_method [OF x] step_spaces_before_url [OF x] step_url_start [OF x] step_url [OF st x]
        step_req_version [OF x] step_header_field_start [OF x] step_header_field [OF st x] vs
        step_value_discard_ws [OF x] step_header_value [OF st x] step_header_end [OF st x]
        step_headers_almost_done [OF st x] step_headers_done [OF st x] step_message_done [OF st x]
        step_body [OF st x] step_chunk_data [OF st x] step_chunk_size [OF st x])
qed


section \<open>The main loop\<close>

lemma next_byte_ok:
  assumes x: "exec_ok data False x"
  shows "ctl_all data (\<lambda>y. exec_ok data True y \<and> pos y = pos x \<and> cur y = cur x) R (next_byte data x)"
proof (cases "PARSING_HEADER (cur x)")
  case False
  then have "cur x \<noteq> s_chunk_size_start" by (auto simp: PARSING_HEADER_def)
  with False exec_okD [OF x] show ?thesis by (simp add: next_byte_def Let_def ok_defs state_ok_def)
next
  case True
  have "ctl_all data (\<lambda>y. exec_ok data True y \<and> pos y = pos x \<and> cur y = cur x) R
      (COUNT_HEADER_SIZE 1 (x\<lparr>cch := data ! pos x\<rparr>))"
    by (rule count_ok) (use exec_okD [OF x] in \<open>auto simp: ok_defs state_ok_def\<close>)
  with True exec_okD(2) [OF x] show ?thesis by (simp add: next_byte_def Let_def)
qed

definition loop_ok :: "bytes \<Rightarrow> bool \<Rightarrow> 'd exec \<Rightarrow> bool" where
  "loop_ok data re x \<longleftrightarrow> hp_errno (parser x) = HPE_OK \<and> state_ok re (cur x) (parser x) \<and>
     marks_ok (cur x) (marks x) (pos x) \<and> (if re then pos x < length data else pos x \<le> length data)"

definition loop_measure :: "bytes \<Rightarrow> bool \<Rightarrow> 'd exec \<Rightarrow> nat" where
  "loop_measure data re x = 8 * (length data - pos x) + (if re then rank (cur x) else 7)"

lemma rank_le: "rank s \<le> 4"
  by (cases s) (simp_all add: rank_def)

lemma round_ok:
  assumes st: "benign st" and b: "beyond \<noteq> None" and x: "loop_ok data re x" and n: "re \<or> pos x \<noteq> length data"
  shows "ctl_all data
    (\<lambda>y. loop_ok data False (y\<lparr>pos := pos y + 1\<rparr>) \<and>
       loop_measure data False (y\<lparr>pos := pos y + 1\<rparr>) < loop_measure data re x)
    (\<lambda>y. loop_ok data True y \<and> loop_measure data True y < loop_measure data re x)
    (exec_round st data beyond re x)"
    (is "ctl_all data ?B ?R _")
proof -
  have ok: "exec_ok data re x" using x n by (auto simp: loop_ok_def exec_ok_def split: if_splits)
  have B: "?B y" if "brk_ok data z y" "pos z = pos x" for y z :: "'a exec"
  proof -
    have "marks_ok (cur y) (marks y) (pos y + 1)"
      by (rule marks_ok_stay [of "cur y" _ "pos y"]) (use that in \<open>auto simp: ok_defs\<close>)
    moreover have "8 * (length data - (pos y + 1)) + 7 < 8 * (length data - pos x)"
      using that by (auto simp: ok_defs)
    ultimately show ?thesis using that by (auto simp: loop_ok_def loop_measure_def ok_defs)
  qed
  have R: "?R y" if "re_ok data z y" "pos z = pos x" "cur z = cur x" for y z :: "'a exec"
    using that rank_le [of "cur y"] by (auto simp: loop_ok_def loop_measure_def ok_defs)
  have sw: "ctl_all data ?B ?R (exec_switch st data beyond z)"
    if z: "exec_ok data True z" "pos z = pos x" "cur z = cur x" for z
  proof -
    have "step_ok data z (exec_switch st data beyond z)" by (rule step_switch [OF st z(1) b])
    then show ?thesis
      by (cases "exec_switch st data beyond z") (use B R z in \<open>auto simp: ctl_all_def\<close>)
  qed
  show ?thesis
  proof (cases re)
    case True
    with ok sw show ?thesis by (simp add: exec_round_def proceed_def)
  next
    case False
    with ok have "exec_ok data False x" by simp
    then have "ctl_all data ?B ?R (proceed (next_byte data x) (exec_switch st data beyond))"
      by (rule ctl_all_proceed [OF next_byte_ok]) (use sw in auto)
    with False show ?thesis by (simp add: exec_round_def)
  qed
qed

lemma open_marks_le:
  assumes "marks_ok s (marks x) p"
  shows "length (open_marks x) \<le> 1"
proof (cases "mark_of s")
  case None
  have "marks x d = None" for d by (rule marks_ok_none [OF None assms])
  then show ?thesis by (simp add: open_marks_def)
next
  case (Some a)
  with assms have "d \<noteq> a \<Longrightarrow> marks x d = None" for d by (cases "marks x d") (auto simp: marks_ok_def)
  then show ?thesis by (cases a) (simp_all add: open_marks_def)
qed

text \<open>The callbacks for the marks left over at the end of the buffer.\<close>

definition no_error :: "'d ctl \<Rightarrow> bool" where
  "no_error c = (case c of Goto_error _ \<Rightarrow> False | _ \<Rightarrow> True)"

lemma no_error_proceed: "no_error c \<Longrightarrow> (\<And>x. no_error (k x)) \<Longrightarrow> no_error (proceed c k)"
  by (cases c) (simp_all add: no_error_def proceed_def)

lemma no_error_callback: "no_error (callback_data st data d till er x)" "no_error (callback_notify st n er x)"
  "no_error (ret m x)"
  by (auto simp: no_error_def callback_data_def callback_notify_def ret_def Let_def split: option.split prod.split)

lemma leftover_ok:
  assumes st: "benign st" and x: "loop_ok data False x"
  shows "\<exists>n q. leftover_callbacks st data x = Return n q \<and> return_ok data n q"
proof -
  let ?J = "\<lambda>y :: 'a exec. hp_errno (parser y) = HPE_OK \<and> state_ok False (cur y) (parser y) \<and> pos y \<le> length data"
  have cb: "ctl_all data ?J (\<lambda>_. False) (CALLBACK_DATA_NOADVANCE st data d y)" if y: "?J y" for d y
    unfolding CALLBACK_DATA_NOADVANCE_def
  proof (rule callback_data_ok [OF st])
    fix w assume "after_callback (y\<lparr>marks := (marks y)(d := None)\<rparr>) w"
    from after_callbackD [OF this] y show "?J w" by simp
  qed (use y in auto)
  have fin: "ctl_all data (\<lambda>_. False) (\<lambda>_. False) (ret (length data) y)" if "?J y" for y
    using that by simp
  have "length (open_marks x) \<le> 1" using x by (intro open_marks_le [of "cur x" x "pos x"]) (simp add: loop_ok_def)
  moreover have "?J x" using x by (simp add: loop_ok_def)
  ultimately have "ctl_all data (\<lambda>_. False) (\<lambda>_. False) (leftover_callbacks st data x)"
    unfolding leftover_callbacks_def
    by (auto intro!: ctl_all_proceed [where B' = ?J] cb fin simp del: ctl_all_ret)
  moreover have "no_error (leftover_callbacks st data x)"
    unfolding leftover_callbacks_def CALLBACK_DATA_NOADVANCE_def
    by (auto intro!: no_error_proceed no_error_callback) (simp add: no_error_def)
  ultimately show ?thesis by (cases "leftover_callbacks st data x") (auto simp: ctl_all_def no_error_def)
qed


lemma exec_loop_total:
  assumes st: "benign st" and b: "beyond \<noteq> None" and x: "loop_ok data re x"
  shows "\<exists>n q. exec_loop st data beyond re x = Some (Executed n q) \<and> return_ok data n q"
  using x
proof (induction "loop_measure data re x" arbitrary: re x rule: less_induct)
  case less
  show ?case
  proof (cases "\<not> re \<and> pos x = length data")
    case True
    with less.prems have "loop_ok data False x" by simp
    from leftover_ok [OF st this] True show ?thesis
      by (subst exec_loop.simps) (auto simp: result_of_def)
  next
    case False
    then have "re \<or> pos x \<noteq> length data" by blast
    note r = round_ok [OF st b less.prems this]
    show ?thesis
    proof (cases "exec_round st data beyond re x")
      case (Break y)
      with r have "loop_ok data False (y\<lparr>pos := pos y + 1\<rparr>)"
        "loop_measure data False (y\<lparr>pos := pos y + 1\<rparr>) < loop_measure data re x" by simp_all
      from less.hyps [OF this(2,1)] show ?thesis
        by (subst exec_loop.simps) (simp only: False if_False Break ctl.case)
    next
      case (Reexecute y)
      with r have "loop_ok data True y" "loop_measure data True y < loop_measure data re x" by simp_all
      from less.hyps [OF this(2,1)] show ?thesis
        by (subst exec_loop.simps) (simp only: False if_False Reexecute ctl.case)
    next
      case (Goto_error y)
      with r have "hp_errno (parser y) \<notin> {HPE_OK, HPE_PAUSED}" "pos y \<le> length data"
        by (simp_all add: ctl_all_def)
      then show ?thesis
        by (subst exec_loop.simps) (simp only: False if_False Goto_error ctl.case,
          simp add: error_exit_def ret_def result_of_def return_ok_def parser_ok_def)
    next
      case (Return n q)
      with r show ?thesis
        by (subst exec_loop.simps) (simp only: False if_False Return ctl.case, simp)
    qed (use r in simp_all)
  qed
qed

lemma initial_loop_ok:
  assumes "parser_ok q" "hp_errno q = HPE_OK"
  shows "loop_ok data False (initial_exec q)"
proof -
  have "marks_ok (hp_state q) (initial_marks (hp_state q)) 0"
    unfolding marks_ok_def initial_marks_def
    by (auto simp: url_mark_states_def mark_of_def split: data_cb.splits if_splits)
  with assms show ?thesis by (simp add: loop_ok_def initial_exec_def parser_ok_def)
qed

lemma execute_ok:
  assumes st: "benign st" and q: "parser_ok q" and b: "beyond \<noteq> None"
  shows "\<exists>n q'. http_parser_execute st data beyond q = Some (Executed n q') \<and> parser_ok q' \<and>
    (n \<le> length data \<or> (data = [] \<and> n = 1 \<and> hp_errno q' = HPE_INVALID_EOF_STATE))"
proof (cases "hp_errno q = HPE_OK")
  case False with q show ?thesis by (simp add: http_parser_execute_def)
next
  case e: True
  note l = initial_loop_ok [OF q e]
  show ?thesis
  proof (cases "data = []")
    case False
    from exec_loop_total [OF st b l, of data] False e show ?thesis
      by (auto simp: http_parser_execute_def return_ok_def)
  next
    case True
    show ?thesis
    proof (cases "hp_state q = s_body_identity_eof")
      case False
      with True e q show ?thesis by (simp add: http_parser_execute_def parser_ok_def)
    next
      case eof: True
      let ?c = "CALLBACK_NOTIFY_NOADVANCE st N_message_complete (initial_exec q)"
      have "ctl_all [] (\<lambda>y. parser_ok (parser y)) (\<lambda>_. False) ?c"
        unfolding CALLBACK_NOTIFY_NOADVANCE_def
      proof (rule callback_notify_ok [OF st])
        fix y assume "after_callback (initial_exec q) y"
        then obtain d where "parser y = q\<lparr>hp_state := hp_state q, hp_data := d\<rparr>"
          by (auto simp: after_callback_def initial_exec_def)
        then show "parser_ok (parser y)" using q by (simp add: parser_ok_def)
      next
        fix y t d assume "y = (initial_exec q)\<lparr>parser := (http_parser_init t (parser (initial_exec q)))\<lparr>hp_data := d\<rparr>,
            cur := hp_state (http_parser_init t (parser (initial_exec q)))\<rparr>"
        then show "parser_ok (parser y)" by (simp add: parser_ok_def)
      qed (use l e in \<open>auto simp: loop_ok_def initial_exec_def\<close>)
      moreover have "no_error ?c" unfolding CALLBACK_NOTIFY_NOADVANCE_def by (rule no_error_callback)
      ultimately show ?thesis using True e eof
        by (cases ?c) (auto simp: http_parser_execute_def ctl_all_def no_error_def result_of_def return_ok_def)
    qed
  qed
qed

end
