(* ===== verification/Http_Parser_Props.thy ===== *)
theory Http_Parser_Props
  imports Http_Parser_Inv
begin

text \<open>
  The properties of the message parser that do not need a whole run to be traced: safety
  for every sequence of calls, the error latch, the method table, the numbers of
  \<open>Content-Length\<close> and chunk headers, connection reuse, and traces that
  show where the code differs from its comments.
\<close>

section \<open>Sequences of calls\<close>

text \<open>
  The parser objects a client can get: initialise, execute on any buffer (followed by a
  readable byte), pause and resume, in any order.
\<close>

inductive parser_reachable :: "'d http_parser_settings \<Rightarrow> 'd http_parser \<Rightarrow> bool" for st where
  reach_init: "parser_reachable st (http_parser_init t q)"
| reach_exec: "parser_reachable st q \<Longrightarrow>
    http_parser_execute st data (Some b) q = Some (Executed n q') \<Longrightarrow> parser_reachable st q'"
| reach_pause: "parser_reachable st q \<Longrightarrow> http_parser_pause q paused = Some q' \<Longrightarrow> parser_reachable st q'"

inductive_cases reach_execE: "parser_reachable st q"

lemma parser_ok_init: "parser_ok (http_parser_init t q)"
  by (simp add: parser_ok_def)

lemma parser_ok_pause:
  assumes "parser_ok q" "http_parser_pause q paused = Some q'"
  shows "parser_ok q'"
  using assms by (auto simp: http_parser_pause_def parser_ok_def split: if_splits)

lemma reachable_ok:
  assumes "benign st" "parser_reachable st q"
  shows "parser_ok q"
  using assms(2)
proof induction
  case (reach_init t q) show ?case by (rule parser_ok_init)
next
  case (reach_exec q data b n q')
  from execute_ok [OF assms(1) reach_exec(3), of "Some b" data] reach_exec(2) show ?case by auto
next
  case (reach_pause q paused q')
  then show ?case using parser_ok_pause by blast
qed

text \<open>
  C4. With callbacks that leave the private fields of the parser alone, no sequence of
  calls makes an assertion of the parser fail, makes it loop, or makes it read outside
  the buffer and the byte after it: every call of \<open>http_parser_execute\<close> returns, the
  number of bytes it reports is at most the length of the buffer (except for the 1 that
  reports an unexpected end of input), and at most 80 KiB of header are counted.
\<close>

theorem http_parser_execute_safe:
  assumes "benign st" and "parser_reachable st q"
  shows "\<exists>n q'. http_parser_execute st data (Some b) q = Some (Executed n q') \<and>
    (n \<le> length data \<or> (data = [] \<and> n = 1 \<and> hp_errno q' = HPE_INVALID_EOF_STATE)) \<and>
    parser_reachable st q' \<and>
    (hp_errno q' \<in> {HPE_OK, HPE_PAUSED} \<longrightarrow> unat (hp_nread q') \<le> 81920)"
proof -
  obtain n q' where e: "http_parser_execute st data (Some b) q = Some (Executed n q')" "parser_ok q'"
    "n \<le> length data \<or> (data = [] \<and> n = 1 \<and> hp_errno q' = HPE_INVALID_EOF_STATE)"
    using execute_ok [OF assms(1) reachable_ok [OF assms]] by blast
  have "unat (hp_nread q') \<le> 81920" if "hp_errno q' \<in> {HPE_OK, HPE_PAUSED}"
    using e(2) that by (auto simp: parser_ok_def state_ok_def HTTP_MAX_HEADER_SIZE_def word_le_nat_alt)
  with e reach_exec [OF assms(2) e(1)] show ?thesis by blast
qed

text \<open>
  Once an error other than a pause is recorded, the parser does nothing any more: every later
  call returns 0 and leaves the object as it is, and it cannot be unpaused.
\<close>

theorem http_parser_error_latch:
  assumes "hp_errno q \<notin> {HPE_OK, HPE_PAUSED}"
  shows "http_parser_execute st data beyond q = Some (Executed 0 q) \<and> http_parser_pause q paused = None"
  using assms by (auto simp: http_parser_execute_def http_parser_pause_def)


text \<open>
  C18. The fields of a parser that has not failed always fit its state, whatever it was fed and however its
  input was cut: the index stays inside the name of the method, the header state is one that its state
  knows, the states of a chunked body are reached with the chunked flag only, and a body is read only
  while a known, non-zero number of bytes is missing.
\<close>

theorem parser_fields_well_formed:
  assumes "benign st" and "parser_reachable st q" and "hp_errno q \<in> {HPE_OK, HPE_PAUSED}"
  shows "unat (hp_nread q) \<le> 81920 \<and>
    (hp_state q = s_req_method \<longrightarrow> unat (hp_index q) \<le> length (method_string (hp_method q))) \<and>
    (hp_state q = s_header_field \<longrightarrow> hp_header_state q \<in> field_states) \<and>
    (hp_state q = s_header_value \<longrightarrow> hp_header_state q \<notin> {h_connection, h_transfer_encoding}) \<and>
    (hp_state q \<in> chunk_states \<longrightarrow> flag (hp_flags q) F_CHUNKED) \<and>
    (hp_state q \<in> {s_body_identity, s_chunk_data} \<longrightarrow> hp_content_length q \<noteq> 0 \<and> hp_content_length q \<noteq> ULLONG_MAX) \<and>
    (hp_state q = s_chunk_data_almost_done \<longrightarrow> hp_content_length q = 0)"
proof -
  have "state_ok False (hp_state q) q" using reachable_ok [OF assms(1,2)] assms(3) unfolding parser_ok_def by blast
  then show ?thesis by (simp add: state_ok_def HTTP_MAX_HEADER_SIZE_def word_le_nat_alt)
qed

section \<open>Methods\<close>

text \<open>
  \<open>method_prefix q w\<close>: the bytes \<open>w\<close> read so far are the first \<open>index\<close> letters of the
  method recorded in the parser.
\<close>

definition method_bytes :: "http_method \<Rightarrow> bytes" where
  "method_bytes m = map of_char (method_string m)"

definition method_prefix :: "'d http_parser \<Rightarrow> bytes \<Rightarrow> bool" where
  "method_prefix q w \<longleftrightarrow> length w = unat (hp_index q) \<and> length w \<le> length (method_bytes (hp_method q)) \<and>
     w = take (length w) (method_bytes (hp_method q))"

lemma first_letter_prefix:
  "first_letter ch = Some m \<Longrightarrow> method_bytes m \<noteq> [] \<and> hd (method_bytes m) = ch"
  by (auto simp: first_letter_def method_bytes_def split: if_splits)

lemma method_table_prefix:
  "map_of method_table (m, i, c) = Some m' \<Longrightarrow>
     i < length (method_bytes m') \<and> take i (method_bytes m') = take i (method_bytes m) \<and> method_bytes m' ! i = c"
  by (auto simp: method_table_def method_bytes_def split: if_splits)

lemma cstr_method: "cstr (method_string m) = method_bytes m @ [0]"
  by (simp add: cstr_def method_bytes_def)

lemma method_bytes_length: "length (method_bytes m) \<le> 11"
  using method_string_bound [of m] by (simp add: method_bytes_def)

lemma method_prefix_extend:
  assumes "method_prefix q w" and "length w < length (method_bytes m)" and "take (length w) (method_bytes m) = w"
    and "method_bytes m ! length w = c"
  shows "method_prefix (q\<lparr>hp_method := m, hp_index := hp_index q + 1\<rparr>) (w @ [c])"
proof -
  have "unat (hp_index q) \<le> 11"
    using assms(1,2) method_bytes_length [of m] by (simp add: method_prefix_def)
  then have "unat (hp_index q + 1) = length w + 1" using index_inc assms(1) by (simp add: method_prefix_def)
  moreover have "take (Suc (length w)) (method_bytes m) = w @ [c]"
    using assms(2,3,4) by (simp add: take_Suc_conv_app_nth)
  ultimately show ?thesis using assms(2) by (simp add: method_prefix_def)
qed

text \<open>The byte of the method's C string behind the bytes read so far, which is its end exactly when all were read.\<close>

lemma method_next_byte:
  assumes "method_prefix q w"
  obtains b where "cstr_at (method_string (hp_method q)) (hp_index q) = Some b"
    "b = 0 \<longleftrightarrow> w = method_bytes (hp_method q)"
    "b \<noteq> 0 \<Longrightarrow> length w < length (method_bytes (hp_method q)) \<and> method_bytes (hp_method q) ! length w = b"
proof -
  let ?m = "method_bytes (hp_method q)"
  note mp = assms [unfolded method_prefix_def]
  have i: "unat (hp_index q) = length w" "length w \<le> length ?m" using mp [THEN conjunct1] mp [THEN conjunct2, THEN conjunct1] by simp_all
  have w: "w = take (length w) ?m" by (rule mp [THEN conjunct2, THEN conjunct2])
  let ?b = "(?m @ [0]) ! length w"
  have at: "cstr_at (method_string (hp_method q)) (hp_index q) = Some ?b"
    using i by (auto simp: cstr_at_def cstr_method split: if_splits)
  show ?thesis
  proof (cases "length w = length ?m")
    case True
    with w have "w = ?m" by simp
    with True show ?thesis by (intro that [OF at]) (simp_all add: nth_append)
  next
    case False
    with i(2) have lt: "length w < length ?m" by simp
    moreover have "list_all (\<lambda>c. c \<noteq> 0) ?m" by (cases "hp_method q") (simp_all add: method_bytes_def)
    ultimately have "?m ! length w \<noteq> 0" by (simp add: list_all_length)
    with lt show ?thesis by (intro that [OF at]) (auto simp: nth_append)
  qed
qed

text \<open>
  One byte of the method: the letters read stay a prefix of the recorded name, and a blank is
  let through only when they are the whole name.
\<close>

lemma method_step:
  assumes "method_prefix (parser x) w" and "exec_req_method x = Break x'"
  shows "((cch x = c_SP \<and> cur x' = s_req_spaces_before_url \<and> w = method_bytes (hp_method (parser x'))) \<or>
    (cur x' = cur x \<and> method_prefix (parser x') (w @ [cch x]))) \<and> marks x' = marks x \<and> pos x' = pos x"
proof -
  let ?m = "hp_method (parser x)" and ?i = "hp_index (parser x)"
  let ?adv = "\<lambda>x :: 'a exec. upd (\<lambda>q. q\<lparr>hp_index := hp_index q + 1\<rparr>) x"
  note mp = assms(1) [unfolded method_prefix_def]
  have i: "unat ?i = length w" "take (length w) (method_bytes ?m) = w"
    using mp mp [THEN conjunct2, THEN conjunct2] by simp_all
  obtain b where b: "cstr_at (method_string ?m) ?i = Some b" "b = 0 \<longleftrightarrow> w = method_bytes ?m"
    "b \<noteq> 0 \<Longrightarrow> length w < length (method_bytes ?m) \<and> method_bytes ?m ! length w = b"
    by (rule method_next_byte [OF assms(1)]) blast
  from assms(2) b(1) consider (blank) "cch x = c_SP" "b = 0" "x' = ?adv (goto s_req_spaces_before_url x)"
    | (same) "cch x = b" "b \<noteq> 0" "x' = ?adv x"
    | (table) m' where "map_of method_table (?m, unat ?i, cch x) = Some m'"
        "x' = ?adv (upd (hp_method_update (\<lambda>_. m')) x)"
    by (auto simp: exec_req_method_def Let_def fail_def split: if_splits option.splits)
  then show ?thesis
  proof cases
    case blank
    with b(2) show ?thesis by simp
  next
    case same
    with method_prefix_extend [OF assms(1) _ i(2), of "cch x"] b(3) show ?thesis by simp
  next
    case table
    from method_table_prefix [OF table(1)] i
    have t: "length w < length (method_bytes m')" "take (length w) (method_bytes m') = w"
      "method_bytes m' ! length w = cch x" by simp_all
    from method_prefix_extend [OF assms(1) t] table(2) show ?thesis by (simp add: upd_def)
  qed
qed

text \<open>
  From the start of a request to the blank behind its method: \<open>method_read q s u\<close> says what a
  parser in the state \<open>s\<close> knows of the bytes \<open>u\<close> it was given. Line ends before the request are
  skipped.
\<close>

definition line_end :: "u8 \<Rightarrow> bool" where
  "line_end c \<longleftrightarrow> c = c_CR \<or> c = c_LF"

definition method_read :: "'d http_parser \<Rightarrow> state \<Rightarrow> bytes \<Rightarrow> bool" where
  "method_read q s u \<longleftrightarrow>
     (s = s_start_req \<and> dropWhile line_end u = []) \<or>
     (s = s_req_method \<and> dropWhile line_end u \<noteq> [] \<and> method_prefix q (dropWhile line_end u)) \<or>
     (s = s_req_spaces_before_url \<and> (\<exists>v. u = v @ [c_SP] \<and> dropWhile line_end v = method_bytes (hp_method q)))"

text \<open>What one step may lead to: nothing is asked of an error, and a return reports one.\<close>

definition reads_on :: "bytes \<Rightarrow> nat \<Rightarrow> 'd ctl \<Rightarrow> bool" where
  "reads_on u p c =
    (case c of
       Break x \<Rightarrow> method_read (parser x) (cur x) u \<and> marks x = (\<lambda>d. None) \<and> pos x = p
     | Reexecute x \<Rightarrow> False
     | Return n q \<Rightarrow> hp_errno q \<noteq> HPE_OK
     | _ \<Rightarrow> True)"

lemma dropWhile_snoc:
  "dropWhile P (xs @ [x]) = (if dropWhile P xs = [] then (if P x then [] else [x]) else dropWhile P xs @ [x])"
  by (induction xs) auto

lemma reads_on_notify:
  assumes "benign st" and "method_read (parser x) (cur x) u" and "marks x = (\<lambda>d. None)" and "pos x = p"
  shows "reads_on u p (CALLBACK_NOTIFY st N_message_begin x)"
proof (cases "on_notify st N_message_begin")
  case None
  with assms show ?thesis by (simp add: CALLBACK_NOTIFY_def callback_notify_def reads_on_def)
next
  case (Some f)
  let ?q = "(parser x)\<lparr>hp_state := cur x\<rparr>"
  obtain r q where fq: "f ?q = (r, q)" by (cases "f ?q")
  from assms(1) Some have "keeps_parser ?q (snd (f ?q))" unfolding benign_def by blast
  then obtain d e where q: "q = ?q\<lparr>hp_data := d, hp_errno := e\<rparr>" using fq by (auto simp: keeps_parser_def)
  then show ?thesis using assms(2-4) Some fq
    by (auto simp: CALLBACK_NOTIFY_def callback_notify_def reads_on_def method_read_def method_prefix_def Let_def)
qed

lemma start_reads_on:
  assumes st: "benign st" and u: "dropWhile line_end u = []" and x: "cur x = s_start_req" "marks x = (\<lambda>d. None)"
  shows "reads_on (u @ [cch x]) (pos x) (exec_start_req st data beyond x)"
proof (cases "line_end (cch x)")
  case True
  with u x show ?thesis by (simp add: exec_start_req_def reads_on_def method_read_def line_end_def dropWhile_snoc)
next
  case False
  then have w: "dropWhile line_end (u @ [cch x]) = [cch x]" using u by (simp add: dropWhile_snoc)
  let ?x = "upd (\<lambda>q. q\<lparr>hp_method := HTTP_DELETE, hp_index := 1\<rparr>) (begin_message x)"
  have go: "reads_on (u @ [cch x]) (pos x) (CALLBACK_NOTIFY st N_message_begin
      (goto s_req_method (upd (hp_method_update (\<lambda>_. m)) ?x)))"
    if "method_bytes m \<noteq> []" "hd (method_bytes m) = cch x" for m
  proof (rule reads_on_notify [OF st])
    have "1 \<le> length (method_bytes m)" "take 1 (method_bytes m) = [cch x]"
      using that by (cases "method_bytes m"; simp)+
    then show "method_read (parser (goto s_req_method (upd (hp_method_update (\<lambda>_. m)) ?x)))
        (cur (goto s_req_method (upd (hp_method_update (\<lambda>_. m)) ?x))) (u @ [cch x])"
      by (simp add: method_read_def method_prefix_def w)
  qed (simp_all add: begin_message_def x)
  have P: "method_bytes HTTP_PUT \<noteq> []" "hd (method_bytes HTTP_PUT) = c_P"
    "method_bytes HTTP_POST \<noteq> []" "hd (method_bytes HTTP_POST) = c_P"
    by (simp_all add: method_bytes_def)
  have bm: "cch (begin_message x) = cch x" "pos (begin_message x) = pos x" by (simp_all add: begin_message_def)
  have no: "reads_on v p Read_beyond" "reads_on v p (fail e y)" for v p e and y :: "'a exec"
    by (simp_all add: reads_on_def fail_def)
  show ?thesis
  proof (cases "cch x = c_P")
    case P: True
    have "reads_on (u @ [cch x]) (pos x) (CALLBACK_NOTIFY st N_message_begin
        (goto s_req_method (upd (hp_method_update (\<lambda>_. if b = c_U then HTTP_PUT else HTTP_POST)) ?x)))" for b
      by (rule go) (simp_all add: method_bytes_def P)
    with False P show ?thesis
      by (simp add: exec_start_req_def Let_def line_end_def bm no split: option.split del: if_split)
  next
    case False': False
    have "reads_on (u @ [cch x]) (pos x) (CALLBACK_NOTIFY st N_message_begin
        (goto s_req_method (upd (hp_method_update (\<lambda>_. m)) ?x)))" if "first_letter (cch x) = Some m" for m
      using first_letter_prefix [OF that] by (intro go) simp_all
    with False False' show ?thesis
      by (simp add: exec_start_req_def Let_def line_end_def bm no split: option.split)
  qed
qed

lemma method_reads_on:
  assumes u: "dropWhile line_end u \<noteq> []" "method_prefix (parser x) (dropWhile line_end u)"
    and x: "cur x = s_req_method" "marks x = (\<lambda>d. None)"
  shows "reads_on (u @ [cch x]) (pos x) (exec_req_method x)"
proof (cases "exec_req_method x")
  case (Break x')
  from method_step [OF u(2) this] u(1) x show ?thesis
    unfolding Break by (auto simp: reads_on_def method_read_def dropWhile_snoc)
qed (auto simp: reads_on_def exec_req_method_def Let_def fail_def split: if_splits option.splits)

lemma method_prefix_nread [simp]: "method_prefix (q\<lparr>hp_nread := k\<rparr>) w = method_prefix q w"
  by (simp add: method_prefix_def)

lemma round_reads_on:
  assumes st: "benign st" and u: "method_read (parser x) (cur x) u" "c_SP \<notin> set u"
    and x: "marks x = (\<lambda>d. None)" "pos x < length data"
  shows "reads_on (u @ [data ! pos x]) (pos x) (exec_round st data beyond False x)"
proof -
  have s: "cur x = s_start_req \<and> dropWhile line_end u = [] \<or>
      cur x = s_req_method \<and> dropWhile line_end u \<noteq> [] \<and> method_prefix (parser x) (dropWhile line_end u)"
    using u by (auto simp: method_read_def)
  let ?y = "upd (\<lambda>q. q\<lparr>hp_nread := hp_nread q + 1\<rparr>) (x\<lparr>cch := data ! pos x\<rparr>)"
  have "exec_round st data beyond False x =
      (if HTTP_MAX_HEADER_SIZE < hp_nread (parser ?y) then fail HPE_HEADER_OVERFLOW ?y
       else exec_switch st data beyond ?y)"
    using s x(2) by (auto simp: exec_round_def proceed_def next_byte_def Let_def COUNT_HEADER_SIZE_def
        PARSING_HEADER_def fail_def)
  moreover have "reads_on (u @ [cch ?y]) (pos ?y) (exec_switch st data beyond ?y)"
    using s
  proof
    assume "cur x = s_start_req \<and> dropWhile line_end u = []"
    then show ?thesis using start_reads_on [OF st, of u ?y] x(1) by (simp add: exec_switch_def)
  next
    assume "cur x = s_req_method \<and> dropWhile line_end u \<noteq> [] \<and> method_prefix (parser x) (dropWhile line_end u)"
    then show ?thesis using method_reads_on [of u ?y] x(1) by (simp add: exec_switch_def)
  qed
  ultimately show ?thesis by (simp add: reads_on_def fail_def)
qed

lemma leftover_none:
  assumes "marks x = (\<lambda>d. None)"
  shows "leftover_callbacks st data x =
    (if hp_errno (parser x) \<noteq> HPE_OK then Abort else ret (length data) x)"
  using assms by (simp add: leftover_callbacks_def open_marks_def CALLBACK_DATA_NOADVANCE_def
      callback_data_def proceed_def)

lemma loop_reads_on:
  assumes st: "benign st" and "method_read (parser x) (cur x) (u @ take (pos x) data)"
    and "marks x = (\<lambda>d. None)" "pos x \<le> length data"
    and sp: "c_SP \<notin> set (butlast (u @ data))"
    and "exec_loop st data beyond False x = Some (Executed n q)"
  shows "hp_errno q = HPE_OK \<longrightarrow> method_read q (hp_state q) (u @ data)"
  using assms(2,3,4,6)
proof (induction "length data - pos x" arbitrary: x)
  case 0
  then have "pos x = length data" by simp
  with 0 show ?case
    by (subst (asm) exec_loop.simps)
      (auto simp: leftover_none result_of_def ret_def method_read_def method_prefix_def split: if_splits)
next
  case (Suc k)
  then have lt: "pos x < length data" by simp
  let ?u = "u @ take (pos x) data"
  have u: "u @ data = ?u @ data ! pos x # drop (Suc (pos x)) data"
    using lt by (simp add: Cons_nth_drop_Suc)
  have "set ?u \<subseteq> set (butlast (u @ data))" unfolding u by (auto simp: butlast_append)
  with sp have "c_SP \<notin> set ?u" by blast
  note r = round_reads_on [OF st Suc.prems(1) this Suc.prems(2) lt, of beyond]
  note run = Suc.prems(4) [unfolded exec_loop.simps [of st data beyond False x]]
  show ?case
  proof (cases "exec_round st data beyond False x")
    case (Break y)
    let ?y = "y\<lparr>pos := pos y + 1\<rparr>"
    from r Break have y: "method_read (parser y) (cur y) (?u @ [data ! pos x])" "marks y = (\<lambda>d. None)" "pos y = pos x"
      by (simp_all add: reads_on_def)
    have "exec_loop st data beyond False ?y = Some (Executed n q)" using run Break lt by simp
    moreover have "method_read (parser ?y) (cur ?y) (u @ take (pos ?y) data)"
      using y lt by (simp add: take_Suc_conv_app_nth)
    moreover have "k = length data - pos ?y" using Suc.hyps(2) y(3) by simp
    ultimately show ?thesis using Suc.hyps(1) [of ?y] y lt by simp
  qed (use r run lt in \<open>auto simp: reads_on_def error_exit_def ret_def result_of_def set_errno_def\<close>)
qed

lemma execute_reads_on:
  assumes st: "benign st" and q: "hp_errno q = HPE_OK \<longrightarrow> method_read q (hp_state q) u"
    and sp: "c_SP \<notin> set (butlast (u @ data))"
    and run: "http_parser_execute st data beyond q = Some (Executed n q')"
  shows "hp_errno q' = HPE_OK \<longrightarrow> method_read q' (hp_state q') (u @ data)"
proof (cases "hp_errno q = HPE_OK \<and> data \<noteq> []")
  case True
  with q have r: "method_read q (hp_state q) u" by blast
  then have "initial_marks (hp_state q) = (\<lambda>d. None)"
    by (auto simp: method_read_def initial_marks_def url_mark_states_def fun_eq_iff split: data_cb.split)
  then show ?thesis
    by (intro loop_reads_on [OF st, of "initial_exec q"])
      (use r True run sp in \<open>auto simp: initial_exec_def http_parser_execute_def\<close>)
next
  case False
  with q run show ?thesis
    by (auto simp: http_parser_execute_def method_read_def split: if_splits)
qed

text \<open>A sequence of calls, each with its buffer and what lies behind it.\<close>

fun feed :: "'d http_parser_settings \<Rightarrow> (bytes \<times> u8 option) list \<Rightarrow> 'd http_parser \<Rightarrow> 'd http_parser option" where
  "feed st [] q = Some q"
| "feed st ((data, beyond) # bufs) q =
    (case http_parser_execute st data beyond q of
       Some (Executed n q') \<Rightarrow> feed st bufs q'
     | _ \<Rightarrow> None)"

lemma feed_reads_on:
  assumes st: "benign st" and "hp_errno q = HPE_OK \<longrightarrow> method_read q (hp_state q) u"
    and "c_SP \<notin> set (butlast (u @ concat (map fst bufs)))" and "feed st bufs q = Some q'"
  shows "hp_errno q' = HPE_OK \<longrightarrow> method_read q' (hp_state q') (u @ concat (map fst bufs))"
  using assms(2-)
proof (induction bufs arbitrary: q u)
  case Nil then show ?case by simp
next
  case (Cons buf bufs)
  obtain data beyond where buf: "buf = (data, beyond)" by (cases buf)
  from Cons.prems(3) obtain n p where p: "http_parser_execute st data beyond q = Some (Executed n p)"
      "feed st bufs p = Some q'"
    by (auto simp: buf split: option.splits result.splits)
  have "c_SP \<notin> set (butlast (u @ data))"
    using Cons.prems(2) in_set_butlastD by (fastforce simp: buf butlast_append split: if_splits)
  from execute_reads_on [OF st Cons.prems(1) this p(1)]
  have "hp_errno p = HPE_OK \<longrightarrow> method_read p (hp_state p) (u @ data)" .
  from Cons.IH [OF this _ p(2)] Cons.prems(2) show ?case by (simp add: buf)
qed

text \<open>
  C24. The method the parser records is the one the client sent. A parser that waits for a request is
  given bytes in buffers cut anywhere, up to the first blank; when no call reports an error, the bytes
  before the blank are, line ends in front of them apart, the name of the method that is recorded,
  letter for letter, and the parser waits for the URL.
\<close>

theorem request_method_is_the_bytes_read:
  assumes "benign st" and "hp_state q = s_start_req" and "feed st bufs q = Some q'" and "hp_errno q' = HPE_OK"
    and "concat (map fst bufs) = v @ [c_SP]" and "c_SP \<notin> set v"
  shows "dropWhile line_end v = method_bytes (hp_method q') \<and> hp_state q' = s_req_spaces_before_url"
proof -
  have "method_read q (hp_state q) []" using assms(2) by (simp add: method_read_def)
  with feed_reads_on [OF assms(1) _ _ assms(3), of "[]"] assms(4-)
  have r: "method_read q' (hp_state q') (v @ [c_SP])" by simp
  have w: "dropWhile line_end (v @ [c_SP]) = dropWhile line_end v @ [c_SP]" by (simp add: dropWhile_snoc line_end_def)
  have "c_SP \<notin> set (method_bytes m)" for m by (cases m) (simp_all add: method_bytes_def)
  then have "\<not> method_prefix q' (dropWhile line_end v @ [c_SP])"
    unfolding method_prefix_def by (metis in_set_takeD last_in_set last_snoc snoc_eq_iff_butlast)
  with r show ?thesis unfolding method_read_def w by auto
qed

section \<open>Content-Length\<close>

lemma IS_NUM_header: "IS_NUM c \<Longrightarrow> c \<noteq> c_CR \<and> c \<noteq> c_LF \<and> IS_HEADER_CHAR c \<and> c \<noteq> c_SP"
  using IS_NUM_unat [of c] by (auto simp: IS_HEADER_CHAR_def word_less_nat_alt)

lemma digit64_value:
  assumes "IS_NUM c"
  shows "digit64 c = of_nat (unat c - 48)" "unat (digit64 c) = unat c - 48"
proof -
  show *: "digit64 c = of_nat (unat c - 48)" using digit_value64 [OF assms] by (simp add: digit64_def)
  have "unat c - 48 \<le> 9" using IS_NUM_unat [OF assms] by arith
  then show "unat (digit64 c) = unat c - 48" unfolding * by (simp add: unat_of_nat64)
qed

text \<open>The largest value the guard lets through.\<close>

definition max_content_length :: nat where
  "max_content_length = 18446744073709551609"

lemma content_length_guard:
  "1844674407370955160 < (v :: u64) \<longleftrightarrow> 1844674407370955160 < unat v"
  by (simp add: word_less_nat_alt)

lemma content_length_digit:
  assumes "unat (v :: u64) \<le> 1844674407370955160" and "IS_NUM c"
  shows "unat (v * 10 + digit64 c) = 10 * unat v + (unat c - 48)"
proof -
  have "unat c - 48 \<le> 9" using IS_NUM_unat [OF assms(2)] by arith
  then show ?thesis using assms(1) digit64_value(2) [OF assms(2)] by (simp add: unat_word_ariths mult.commute)
qed

text \<open>
  C23. A \<open>Content-Length\<close> value is read exactly: scanning further digits after \<open>v\<close> leaves
  the decimal value of all of them in \<open>content_length\<close> when it is at most
  18446744073709551609, and is refused as invalid otherwise; it never wraps.
\<close>

theorem content_length_exact:
  assumes "list_all IS_NUM ds" and "unat (hp_content_length q) \<le> max_content_length"
  shows "(if dec_from (unat (hp_content_length q)) ds \<le> max_content_length
     then \<exists>ch'. header_value_loop lax ds n h_content_length ch q =
       (V_end, n + length ds, h_content_length, ch',
        q\<lparr>hp_content_length := of_nat (dec_from (unat (hp_content_length q)) ds)\<rparr>)
     else \<exists>n' ch' q'. header_value_loop lax ds n h_content_length ch q =
       (V_error HPE_INVALID_CONTENT_LENGTH, n', h_content_length, ch', q'))"
  using assms
proof (induction ds arbitrary: n ch q)
  case Nil then show ?case by simp
next
  case (Cons c ds)
  let ?v = "unat (hp_content_length q)" and ?v' = "10 * unat (hp_content_length q) + (unat c - 48)"
  from Cons.prems(1) have c: "IS_NUM c" "list_all IS_NUM ds" by simp_all
  note h = IS_NUM_header [OF c(1)]
  show ?case
  proof (cases "?v \<le> 1844674407370955160")
    case True
    let ?q = "q\<lparr>hp_content_length := hp_content_length q * 10 + digit64 c\<rparr>"
    have v': "unat (hp_content_length ?q) = ?v'" using content_length_digit [OF True c(1)] by simp
    have "unat c - 48 \<le> 9" using IS_NUM_unat [OF c(1)] by arith
    with True have "?v' \<le> 10 * 1844674407370955160 + 9" by linarith
    then have "?v' \<le> max_content_length" by (simp add: max_content_length_def)
    with v' have "unat (hp_content_length ?q) \<le> max_content_length" by simp
    note IH = Cons.IH [OF c(2) this, of "n + 1" c]
    have "header_value_loop lax (c # ds) n h_content_length ch q =
        header_value_loop lax ds (n + 1) h_content_length c ?q"
      using h c True by (simp add: header_value_step_def content_length_guard Let_def)
    then show ?thesis using IH v' by (auto simp: algebra_simps)
  next
    case False
    have "max_content_length < ?v'" using False by (simp add: max_content_length_def)
    with dec_from_ge [of ?v' ds] have "\<not> dec_from ?v (c # ds) \<le> max_content_length" by simp
    moreover have "header_value_loop lax (c # ds) n h_content_length ch q =
        (V_error HPE_INVALID_CONTENT_LENGTH, n, h_content_length, c, q\<lparr>hp_header_state := h_content_length\<rparr>)"
      using h c False by (simp add: header_value_step_def content_length_guard Let_def)
    ultimately show ?thesis by auto
  qed
qed


section \<open>Chunk sizes\<close>

lemma all_bytes:
  assumes "list_all (\<lambda>n. P (of_nat n)) [0..<256]"
  shows "P (c :: u8)"
proof -
  have "unat c < 256" using unsigned_less [of c] by simp
  with assms have "P (of_nat (unat c))" unfolding list_all_iff by (metis atLeastLessThan_iff le0 set_upt)
  then show ?thesis by simp
qed

definition hex_value :: "u8 \<Rightarrow> int" where
  "hex_value c = (if 128 \<le> c then 0 else if IS_NUM c then uint c - 48
     else if IS_HEX c then uint (LOWER c) - 87 else -1)"

lemma unhex_table: "list_all (\<lambda>n. unhex_at (of_nat n) = hex_value (of_nat n)) [0..<256]"
  by code_simp

text \<open>
  The table of hexadecimal digits gives the value of each hexadecimal digit and -1 for
  the other ASCII characters; but it has only 128 initialisers, so every byte from 128 on
  counts as the digit 0.
\<close>

theorem unhex_high_bytes_are_zero:
  "unhex_at c = (if 128 \<le> c then 0 else if IS_NUM c then uint c - 48
     else if IS_HEX c then uint (LOWER c) - 87 else -1)"
  using all_bytes [OF unhex_table, of c] by (simp only: hex_value_def)

section \<open>Connection reuse\<close>

text \<open>
  The connection is kept alive exactly when the message allows it (HTTP/1.1 without
  \<open>close\<close>, or an earlier version with \<open>keep-alive\<close>) and the end of the message does not need the
  end of the connection: a response needs it exactly when it may have a body, has neither
  a length nor chunks, and is not the answer to a HEAD request.
\<close>

theorem keep_alive_spec:
  "http_should_keep_alive q \<longleftrightarrow>
     (if 0 < hp_major q \<and> 0 < hp_minor q then \<not> flag (hp_flags q) F_CONNECTION_CLOSE
      else flag (hp_flags q) F_CONNECTION_KEEP_ALIVE) \<and>
     \<not> (hp_type q \<noteq> HTTP_REQUEST \<and>
        \<not> (100 \<le> unat (hp_status_code q) \<and> unat (hp_status_code q) < 200) \<and>
        hp_status_code q \<noteq> 204 \<and> hp_status_code q \<noteq> 304 \<and>
        \<not> flag (hp_flags q) F_SKIPBODY \<and> \<not> flag (hp_flags q) F_CHUNKED \<and> hp_content_length q = ULLONG_MAX)"
proof -
  have "hp_status_code q div 100 = 1 \<longleftrightarrow> unat (hp_status_code q) div 100 = 1"
    by (simp add: word_unat_eq_iff unat_div_distrib)
  also have "\<dots> \<longleftrightarrow> 100 \<le> unat (hp_status_code q) \<and> unat (hp_status_code q) < 200" by arith
  finally show ?thesis by (auto simp: http_should_keep_alive_def http_message_needs_eof_def)
qed

end
