(* ===== verification/Http_Traces.thy ===== *)
theory Http_Traces
  imports Http_Parser_Props
begin

text \<open>
  Traces of the message parser with callbacks that log what they are given: a request and
  a chunked request as they should go, and the inputs on which the code and its comments
  differ. All traces are computed by evaluating \<open>http_parser_execute\<close>.
\<close>

section \<open>Logging callbacks\<close>

datatype event = Note notify | Data data_cb bytes

definition log_settings :: "event list http_parser_settings" where
  "log_settings = \<lparr>
     on_notify = (\<lambda>n. Some (\<lambda>q. (0, q\<lparr>hp_data := hp_data q @ [Note n]\<rparr>))),
     on_data = (\<lambda>d. Some (\<lambda>q bs. (0, q\<lparr>hp_data := hp_data q @ [Data d bs]\<rparr>))) \<rparr>"

lemma keeps_parser_data: "keeps_parser q (q\<lparr>hp_data := d\<rparr>)"
  unfolding keeps_parser_def by (rule exI [of _ d], rule exI [of _ "hp_errno q"]) simp

lemma log_simps [simp]:
  "on_notify log_settings n = Some (\<lambda>q. (0, q\<lparr>hp_data := hp_data q @ [Note n]\<rparr>))"
  "on_data log_settings d = Some (\<lambda>q bs. (0, q\<lparr>hp_data := hp_data q @ [Data d bs]\<rparr>))"
  by (simp_all add: log_settings_def)

lemma benign_log: "benign log_settings"
  by (auto simp: benign_def log_settings_def keeps_parser_data)

definition fresh :: "http_parser_type \<Rightarrow> event list http_parser" where
  "fresh t = \<lparr> hp_type = t, hp_flags = 0,
      hp_state = (if t = HTTP_REQUEST then s_start_req
                  else if t = HTTP_RESPONSE then s_start_res else s_start_req_or_res),
      hp_header_state = h_general, hp_index = 0, hp_lenient = False, hp_nread = 0,
      hp_content_length = 0, hp_major = 0, hp_minor = 0, hp_status_code = 0,
      hp_method = HTTP_DELETE, hp_errno = HPE_OK, hp_upgrade = False, hp_data = [] \<rparr>"

lemma fresh_reachable: "parser_reachable log_settings (fresh t)"
proof -
  have "fresh t = http_parser_init t ((fresh t) :: event list http_parser)"
    by (simp add: fresh_def http_parser_init_def)
  then show ?thesis by (metis reach_init)
qed

definition ascii :: "string \<Rightarrow> bytes" where
  "ascii s = map of_char s"

definition CRLF :: bytes where "CRLF = [c_CR, c_LF]"

text \<open>What a run leaves: bytes consumed, error, and the log.\<close>

definition exec_outcome :: "event list result option \<Rightarrow> (nat \<times> http_errno \<times> event list) option" where
  "exec_outcome r = (case r of Some (Executed n q) \<Rightarrow> Some (n, hp_errno q, hp_data q) | _ \<Rightarrow> None)"

definition after :: "event list result option \<Rightarrow> event list http_parser" where
  "after r = (case r of Some (Executed n q) \<Rightarrow> q | _ \<Rightarrow> fresh HTTP_BOTH)"

definition run :: "bytes \<Rightarrow> event list http_parser \<Rightarrow> event list result option" where
  "run data q = http_parser_execute log_settings data None q"

section \<open>Traces\<close>

definition get_request :: bytes where
  "get_request = ascii ''GET /x HTTP/1.1'' @ CRLF @ ascii ''Host: ab'' @ CRLF @ CRLF"

lemma get_request_trace:
  "exec_outcome (run get_request (fresh HTTP_REQUEST)) = Some (29, HPE_OK,
     [Note N_message_begin, Data D_url (ascii ''/x''), Data D_header_field (ascii ''Host''),
      Data D_header_value (ascii ''ab''), Note N_headers_complete, Note N_message_complete])"
  by code_simp

definition control_request :: bytes where
  "control_request = ascii ''GET /x HTTP/1.1'' @ CRLF @ ascii ''A: bc'' @ [1] @ CRLF @ CRLF"

text \<open>
  Whether a control character in a header value is refused depends on how the input is
  cut into buffers: the scan of a general header jumps to the next line end after
  checking a single byte, so a request with the byte 1 in a value is accepted as a
  whole, but refused when it is cut just before that byte.
\<close>

theorem header_check_depends_on_buffers:
  "exec_outcome (run control_request (fresh HTTP_REQUEST)) = Some (27, HPE_OK,
      [Note N_message_begin, Data D_url (ascii ''/x''), Data D_header_field (ascii ''A''),
       Data D_header_value (ascii ''bc'' @ [1]), Note N_headers_complete, Note N_message_complete]) \<and>
   exec_outcome (run (drop 22 control_request) (after (run (take 22 control_request) (fresh HTTP_REQUEST)))) =
     Some (0, HPE_INVALID_HEADER_TOKEN,
      [Note N_message_begin, Data D_url (ascii ''/x''), Data D_header_field (ascii ''A''),
       Data D_header_value (ascii ''bc'')])"
  by code_simp

definition spaced_length_request :: bytes where
  "spaced_length_request = ascii ''PUT /x HTTP/1.1'' @ CRLF @ ascii ''Content-Length: 1 2'' @ CRLF @ CRLF @
     ascii ''0123456789ab''"

text \<open>
  Blanks inside a \<open>Content-Length\<close> are skipped: \<open>1 2\<close> is read as 12 and twelve bytes
  of body are taken.
\<close>

theorem content_length_blanks_joined:
  "exec_outcome (run spaced_length_request (fresh HTTP_REQUEST)) = Some (52, HPE_OK,
     [Note N_message_begin, Data D_url (ascii ''/x''), Data D_header_field (ascii ''Content-Length''),
      Data D_header_value (ascii ''1 2''), Note N_headers_complete, Data D_body (ascii ''0123456789ab''),
      Note N_message_complete])"
  by code_simp

definition high_chunk_request :: bytes where
  "high_chunk_request = ascii ''PUT /x HTTP/1.1'' @ CRLF @ ascii ''Transfer-Encoding: chunked'' @ CRLF @ CRLF @
     ascii ''3'' @ CRLF @ ascii ''abc'' @ CRLF @ [200] @ CRLF @ CRLF"

text \<open>A chunk size line made of the byte 200 ends a chunked message, as the digit 0 does.\<close>

theorem high_byte_ends_chunks:
  "exec_outcome (run high_chunk_request (fresh HTTP_REQUEST)) = Some (60, HPE_OK,
     [Note N_message_begin, Data D_url (ascii ''/x''), Data D_header_field (ascii ''Transfer-Encoding''),
      Data D_header_value (ascii ''chunked''), Note N_headers_complete, Note N_chunk_header,
      Data D_body (ascii ''abc''), Note N_chunk_complete, Note N_chunk_header, Note N_chunk_complete,
      Note N_message_complete])"
  by code_simp

definition blank_response :: bytes where
  "blank_response = CRLF @ ascii ''HTTP/1.1 204 x'' @ CRLF @ CRLF"

text \<open>
  A line end before a response announces a message for each of its bytes: three
  calls of \<open>on_message_begin\<close> for one response.
\<close>

theorem response_begins_thrice:
  "exec_outcome (run blank_response (fresh HTTP_RESPONSE)) = Some (20, HPE_OK,
     [Note N_message_begin, Note N_message_begin, Note N_message_begin, Data D_status (ascii ''x''),
      Note N_headers_complete, Note N_message_complete])"
  by code_simp

text \<open>
  When a buffer ends with the \<open>P\<close> of a method, the parser reads the byte behind the
  buffer; with any byte there the outcome is the same up to its guess of the method.
\<close>

theorem method_P_reads_past_buffer:
  "http_parser_execute log_settings (ascii ''P'') None (fresh HTTP_REQUEST) = Some Over_read \<and>
   (\<forall>b. \<exists>q. http_parser_execute log_settings (ascii ''P'') (Some b) (fresh HTTP_REQUEST) = Some (Executed 1 q) \<and>
      hp_errno q = HPE_OK \<and> hp_method q = (if b = c_U then HTTP_PUT else HTTP_POST))"
proof (intro conjI allI)
  show "http_parser_execute log_settings (ascii ''P'') None (fresh HTTP_REQUEST) = Some Over_read"
    by code_simp
  fix b
  have m: "initial_marks s_start_req = (\<lambda>d. None)"
    by (auto simp: fun_eq_iff initial_marks_def url_mark_states_def List.member_iff split: data_cb.splits)
  note defs = exec_round_def next_byte_def proceed_def COUNT_HEADER_SIZE_def HTTP_MAX_HEADER_SIZE_def Let_def
    PARSING_HEADER_def exec_switch_def exec_start_req_def begin_message_def IS_ALPHA_def LOWER_def peek_def
    CALLBACK_NOTIFY_def callback_notify_def log_simps leftover_callbacks_def open_marks_def
    CALLBACK_DATA_NOADVANCE_def callback_data_def ret_def result_of_def
  show "\<exists>q. http_parser_execute log_settings (ascii ''P'') (Some b) (fresh HTTP_REQUEST) = Some (Executed 1 q) \<and>
      hp_errno q = HPE_OK \<and> hp_method q = (if b = c_U then HTTP_PUT else HTTP_POST)"
    by (cases "b = c_U"; simp add: http_parser_execute_def fresh_def ascii_def initial_exec_def m,
        subst exec_loop.simps, simp add: defs, subst exec_loop.simps, simp add: defs)
qed


text \<open>The example used by the witnesses of the safety theorem.\<close>

theorem http_parser_execute_safe_witness:
  "benign log_settings \<and> parser_reachable log_settings (fresh HTTP_REQUEST) \<and>
   (\<exists>n q'. http_parser_execute log_settings get_request (Some 0) (fresh HTTP_REQUEST) = Some (Executed n q') \<and>
      parser_reachable log_settings q')"
  using benign_log fresh_reachable [of HTTP_REQUEST]
    http_parser_execute_safe [OF benign_log fresh_reachable, of get_request 0 HTTP_REQUEST] by blast

theorem parser_fields_well_formed_witness:
  "\<exists>q. parser_reachable log_settings q \<and> unat (hp_nread q) \<le> 81920"
  using parser_fields_well_formed [OF benign_log fresh_reachable, of HTTP_REQUEST] fresh_reachable [of HTTP_REQUEST]
  by (auto simp: fresh_def)

theorem http_parser_error_latch_witness:
  "http_parser_execute log_settings get_request (Some 0) ((fresh HTTP_REQUEST)\<lparr>hp_errno := HPE_STRICT\<rparr>) =
     Some (Executed 0 ((fresh HTTP_REQUEST)\<lparr>hp_errno := HPE_STRICT\<rparr>)) \<and>
   http_parser_pause ((fresh HTTP_REQUEST)\<lparr>hp_errno := HPE_STRICT\<rparr>) False = None"
  by (rule http_parser_error_latch) simp

text \<open>A line end and \<open>PUT\<close>, cut inside the method.\<close>

lemma put_in_two_buffers:
  "map_option (\<lambda>q. (hp_errno q, hp_method q))
     (feed log_settings [(CRLF @ ascii ''PU'', Some 0), (ascii ''T '', Some 0)] (fresh HTTP_REQUEST)) =
   Some (HPE_OK, HTTP_PUT)"
  by code_simp

theorem request_method_is_the_bytes_read_witness:
  "\<exists>q. feed log_settings [(CRLF @ ascii ''PU'', Some 0), (ascii ''T '', Some 0)] (fresh HTTP_REQUEST) = Some q \<and>
    hp_method q = HTTP_PUT \<and> hp_state q = s_req_spaces_before_url \<and>
    dropWhile line_end (CRLF @ ascii ''PUT'') = method_bytes HTTP_PUT"
proof -
  let ?bufs = "[(CRLF @ ascii ''PU'', Some 0), (ascii ''T '', Some 0)]"
  obtain q where q: "feed log_settings ?bufs (fresh HTTP_REQUEST) = Some q" "hp_errno q = HPE_OK"
    "hp_method q = HTTP_PUT" using put_in_two_buffers by auto
  have v: "concat (map fst ?bufs) = (CRLF @ ascii ''PUT'') @ [c_SP]" "c_SP \<notin> set (CRLF @ ascii ''PUT'')"
    by (simp_all add: CRLF_def ascii_def)
  have "hp_state (fresh HTTP_REQUEST) = s_start_req" by (simp add: fresh_def)
  from request_method_is_the_bytes_read [OF benign_log this q(1,2) v] q show ?thesis by auto
qed

theorem content_length_exact_witness:
  "\<exists>ch'. header_value_loop False (ascii ''042'') 0 h_content_length 0
      ((fresh HTTP_REQUEST)\<lparr>hp_content_length := 1\<rparr>) =
    (V_end, 3, h_content_length, ch', (fresh HTTP_REQUEST)\<lparr>hp_content_length := 1042\<rparr>)"
  using content_length_exact [of "ascii ''042''" "(fresh HTTP_REQUEST)\<lparr>hp_content_length := 1\<rparr>" False 0 0]
  by (simp del: header_value_loop.simps add: ascii_def IS_NUM_def max_content_length_def numeral_3_eq_3)

end
