(* ===== verification/Http_Roundtrip.thy ===== *)
theory Http_Roundtrip
  imports Http_Traces
begin

text \<open>
  Printing a request and parsing it back: for every method except CONNECT and every path of URL
  characters, the parser run on the printed request line and an empty header
  delivers exactly the method, the path and the version, and consumes the whole buffer.
  The proof follows the run symbolically, state by state.
\<close>

section \<open>Symbolic local states\<close>

definition rq :: "state \<Rightarrow> 7 word \<Rightarrow> nat \<Rightarrow> u16 \<Rightarrow> u16 \<Rightarrow> http_method \<Rightarrow> bool \<Rightarrow> event list \<Rightarrow> event list http_parser" where
  "rq hst ix n maj mnr m up log = \<lparr> hp_type = HTTP_REQUEST, hp_flags = 0, hp_state = hst,
     hp_header_state = h_general, hp_index = ix, hp_lenient = False, hp_nread = of_nat n,
     hp_content_length = ULLONG_MAX, hp_major = maj, hp_minor = mnr, hp_status_code = 0,
     hp_method = m, hp_errno = HPE_OK, hp_upgrade = up, hp_data = log \<rparr>"

definition ex :: "event list http_parser \<Rightarrow> state \<Rightarrow> nat \<Rightarrow> u8 \<Rightarrow> (data_cb \<Rightarrow> nat option) \<Rightarrow> event list exec" where
  "ex q s p c M = \<lparr> parser = q, cur = s, pos = p, cch = c, lenient = False, marks = M \<rparr>"

lemma ex_simps [simp]:
  "parser (ex q s p c M) = q" "cur (ex q s p c M) = s" "pos (ex q s p c M) = p" "cch (ex q s p c M) = c"
  "lenient (ex q s p c M) = False" "marks (ex q s p c M) = M"
  "goto t (ex q s p c M) = ex q t p c M" "upd f (ex q s p c M) = ex (f q) s p c M"
  "(ex q s p c M)\<lparr>pos := k\<rparr> = ex q s k c M" "(ex q s p c M)\<lparr>cch := d\<rparr> = ex q s p d M"
  "(ex q s p c M)\<lparr>parser := q', cur := t\<rparr> = ex q' t p c M"
  "(ex q s p c M)\<lparr>parser := q', cur := t, marks := N\<rparr> = ex q' t p c N"
  "(ex q s p c M)\<lparr>marks := N\<rparr> = ex q s p c N"
  by (simp_all add: ex_def goto_def upd_def)

lemma rq_simps [simp]:
  "hp_type (rq hst ix n maj mnr m up log) = HTTP_REQUEST" "hp_flags (rq hst ix n maj mnr m up log) = 0"
  "hp_state (rq hst ix n maj mnr m up log) = hst" "hp_index (rq hst ix n maj mnr m up log) = ix"
  "hp_nread (rq hst ix n maj mnr m up log) = of_nat n"
  "hp_content_length (rq hst ix n maj mnr m up log) = ULLONG_MAX"
  "hp_major (rq hst ix n maj mnr m up log) = maj" "hp_minor (rq hst ix n maj mnr m up log) = mnr"
  "hp_method (rq hst ix n maj mnr m up log) = m" "hp_errno (rq hst ix n maj mnr m up log) = HPE_OK"
  "hp_upgrade (rq hst ix n maj mnr m up log) = up" "hp_data (rq hst ix n maj mnr m up log) = log"
  "(rq hst ix n maj mnr m up log)\<lparr>hp_state := t\<rparr> = rq t ix n maj mnr m up log"
  "(rq hst ix n maj mnr m up log)\<lparr>hp_index := j\<rparr> = rq hst j n maj mnr m up log"
  "(rq hst ix n maj mnr m up log)\<lparr>hp_method := m'\<rparr> = rq hst ix n maj mnr m' up log"
  "(rq hst ix n maj mnr m up log)\<lparr>hp_major := v\<rparr> = rq hst ix n v mnr m up log"
  "(rq hst ix n maj mnr m up log)\<lparr>hp_minor := v\<rparr> = rq hst ix n maj v m up log"
  "(rq hst ix n maj mnr m up log)\<lparr>hp_upgrade := b\<rparr> = rq hst ix n maj mnr m b log"
  "(rq hst ix n maj mnr m up log)\<lparr>hp_data := l\<rparr> = rq hst ix n maj mnr m up l"
  "(rq hst ix n maj mnr m up log)\<lparr>hp_nread := of_nat k\<rparr> = rq hst ix k maj mnr m up log"
  by (simp_all add: rq_def)

text \<open>One round of the loop on the next byte.\<close>

lemma next_byte_ex:
  assumes "drop p data = c # bs" and "n < 81920" and "PARSING_HEADER s"
  shows "next_byte data (ex (rq hst ix n maj mnr m up log) s p c0 M) =
    Break (ex (rq hst ix (Suc n) maj mnr m up log) s p c M)"
proof -
  have p: "p < length data" "data ! p = c"
    using assms(1) by (metis Cons_eq_drop(1), metis Cons_eq_drop(2))
  have "unat (of_nat (Suc n) :: u32) = Suc n" using assms(2) by (simp add: unat_of_nat32 del: of_nat_Suc)
  then have "\<not> (of_nat (Suc n) :: u32) > HTTP_MAX_HEADER_SIZE"
    using assms(2) by (simp add: HTTP_MAX_HEADER_SIZE_def word_less_nat_alt not_less del: of_nat_Suc)
  moreover have "(of_nat n :: u32) + of_nat 1 = of_nat (Suc n)" by simp
  ultimately show ?thesis using p assms(3)
    by (simp only: next_byte_def COUNT_HEADER_SIZE_def Let_def ex_simps rq_simps not_le if_True if_False) simp
qed

lemma loop_break:
  assumes "drop p data = c # bs" and "n < 81920" and "PARSING_HEADER s"
    and "exec_switch st data b (ex (rq hst ix (Suc n) maj mnr m up log) s p c M) = Break (ex q' s' p c M')"
  shows "exec_loop st data b False (ex (rq hst ix n maj mnr m up log) s p c0 M) =
      exec_loop st data b False (ex q' s' (Suc p) c M') \<and> drop (Suc p) data = bs"
proof -
  have p: "p \<noteq> length data" "drop (Suc p) data = bs"
    using Cons_eq_drop [OF assms(1) [symmetric]] by simp_all
  have "exec_round st data b False (ex (rq hst ix n maj mnr m up log) s p c0 M) = Break (ex q' s' p c M')"
    using assms(4) by (simp add: exec_round_def next_byte_ex [OF assms(1-3)] proceed_def)
  then show ?thesis using p by (subst exec_loop.simps) simp
qed

section \<open>The method\<close>

fun method_scan :: "http_method \<Rightarrow> nat \<Rightarrow> bytes \<Rightarrow> (http_method \<times> nat) option" where
  "method_scan m i [] = Some (m, i)"
| "method_scan m i (c # cs) =
    (if c = 0 \<or> c = c_SP \<or> length (cstr (method_string m)) \<le> i then None
     else if c = cstr (method_string m) ! i then method_scan m (i + 1) cs
     else if (c_A \<le> c \<and> c \<le> c_Z) \<or> c = c_minus then
       (case map_of method_table (m, i, c) of None \<Rightarrow> None | Some m' \<Rightarrow> method_scan m' (i + 1) cs)
     else None)"

definition first_guess :: "bytes \<Rightarrow> http_method" where
  "first_guess w = (if hd w = c_P then (if w ! 1 = c_U then HTTP_PUT else HTTP_POST) else the (first_letter (hd w)))"

lemma method_scan_all:
  "method_scan (first_guess (method_bytes m)) 1 (tl (method_bytes m)) = Some (m, length (method_bytes m))"
  by (cases m) (simp_all add: method_bytes_def first_guess_def first_letter_def cstr_def method_table_def)

lemma method_run:
  assumes "method_scan m i cs = Some (m', i')" and "drop p data = cs @ bs" and "n + length cs \<le> 81920"
    and "i' \<le> 11"
  shows "\<exists>c. exec_loop log_settings data b False (ex (rq hst (of_nat i) n maj mnr m up log) s_req_method p c0 M) =
      exec_loop log_settings data b False
        (ex (rq hst (of_nat i') (n + length cs) maj mnr m' up log) s_req_method (p + length cs) c M) \<and>
      drop (p + length cs) data = bs"
  using assms
proof (induction cs arbitrary: m i p n c0)
  case Nil
  then show ?case by auto
next
  case (Cons c cs)
  have len: "method_scan m1 k ds = Some (m', i') \<Longrightarrow> i' = k + length ds" for m1 k ds
    by (induction m1 k ds rule: method_scan.induct) (auto split: if_splits option.splits)
  obtain m1 where scan: "method_scan m1 (i + 1) cs = Some (m', i')"
    and m1: "(c = cstr (method_string m) ! i \<and> m1 = m) \<or>
      (c \<noteq> cstr (method_string m) ! i \<and> ((c_A \<le> c \<and> c \<le> c_Z) \<or> c = c_minus) \<and>
       map_of method_table (m, i, c) = Some m1)"
    and c: "c \<noteq> 0" "c \<noteq> c_SP" "i < length (cstr (method_string m))"
    using Cons.prems(1) by (auto split: if_splits option.splits)
  have i: "i \<le> 10" using len [OF Cons.prems(1)] Cons.prems(4) by simp
  then have ui: "unat (of_nat i :: 7 word) = i" by (simp add: unat_of_nat)
  then have at: "cstr_at (method_string m) (of_nat i) = Some (cstr (method_string m) ! i)"
    using c(3) by (simp add: cstr_at_def)
  have sw: "exec_switch log_settings data b (ex (rq hst (of_nat i) (Suc n) maj mnr m up log) s_req_method p c M) =
      Break (ex (rq hst (of_nat (i + 1)) (Suc n) maj mnr m1 up log) s_req_method p c M)"
    using m1 c at ui by (auto simp: exec_switch_def exec_req_method_def Let_def add.commute)
  have d: "drop p data = c # (cs @ bs)" using Cons.prems(2) by simp
  have "n < 81920" using Cons.prems(3) by simp
  note lb = loop_break [OF d this _ sw, of c0]
  from Cons.IH [OF scan, of "Suc p" "Suc n" c] lb Cons.prems(3,4)
  show ?case by (simp add: PARSING_HEADER_def)
qed


lemma method_head:
  fixes m defines "w \<equiv> method_bytes m"
  shows "IS_ALPHA (hd w) \<and> hd w \<noteq> c_CR \<and> hd w \<noteq> c_LF \<and> 3 \<le> length w \<and>
    (hd w \<noteq> c_P \<longrightarrow> first_letter (hd w) = Some (first_guess w))"
  unfolding w_def
  by (cases m) (simp_all add: method_bytes_def IS_ALPHA_def LOWER_def first_guess_def first_letter_def)

lemma start_run:
  assumes "data = method_bytes m @ rest"
  shows "\<exists>c. exec_loop log_settings data b False (initial_exec (fresh HTTP_REQUEST)) =
    exec_loop log_settings data b False
      (ex (rq s_req_method 1 1 0 0 (first_guess (method_bytes m)) False [Note N_message_begin])
        s_req_method 1 c (\<lambda>d. None))"
proof -
  let ?w = "method_bytes m" and ?q = "fresh HTTP_REQUEST"
  have h: "IS_ALPHA (hd ?w)" "hd ?w \<noteq> c_CR" "hd ?w \<noteq> c_LF" "3 \<le> length ?w"
    "hd ?w \<noteq> c_P \<Longrightarrow> first_letter (hd ?w) = Some (first_guess ?w)"
    using method_head [of m] by auto
  from h(4) obtain a d ds where w: "?w = a # d # ds" by (cases ?w; cases "tl ?w") auto
  have m0: "initial_marks s_start_req = (\<lambda>d. None)"
    by (auto simp: fun_eq_iff initial_marks_def url_mark_states_def List.member_iff split: data_cb.splits)
  have i: "initial_exec ?q = ex ?q s_start_req 0 0 (\<lambda>d. None)"
    by (simp add: initial_exec_def ex_def m0 fresh_def)
  have nb: "next_byte data (ex ?q s_start_req 0 0 (\<lambda>d. None)) =
      Break (ex (?q\<lparr>hp_nread := 1\<rparr>) s_start_req 0 a (\<lambda>d. None))"
    using assms w by (simp add: next_byte_def PARSING_HEADER_def COUNT_HEADER_SIZE_def HTTP_MAX_HEADER_SIZE_def
        Let_def fresh_def)
  have sw: "exec_switch log_settings data b (ex (?q\<lparr>hp_nread := 1\<rparr>) s_start_req 0 a (\<lambda>d. None)) =
      Break (ex (rq s_req_method 1 1 0 0 (first_guess ?w) False [Note N_message_begin]) s_req_method 0 a (\<lambda>d. None))"
  proof (cases "a = c_P")
    case True
    have "peek data b 1 = Some d" using assms w by (simp add: peek_def)
    with True h w show ?thesis
      by (simp add: exec_switch_def exec_start_req_def begin_message_def CALLBACK_NOTIFY_def callback_notify_def
          Let_def fresh_def first_guess_def rq_def)
  next
    case False
    with h w show ?thesis
      by (simp add: exec_switch_def exec_start_req_def begin_message_def CALLBACK_NOTIFY_def callback_notify_def
          Let_def fresh_def rq_def)
  qed
  have "0 \<noteq> length data" using assms w by simp
  then show ?thesis unfolding i
    by (subst exec_loop.simps) (simp add: exec_round_def nb proceed_def sw, auto)
qed

section \<open>The path\<close>

abbreviation no_marks :: "data_cb \<Rightarrow> nat option" where "no_marks \<equiv> (\<lambda>d. None)"

abbreviation url_marks :: "nat \<Rightarrow> data_cb \<Rightarrow> nat option" where "url_marks k \<equiv> (\<lambda>d. None)(D_url := Some k)"

lemma url_char_not_space: "IS_URL_CHAR c \<Longrightarrow> c \<noteq> c_SP \<and> c \<noteq> c_CR \<and> c \<noteq> c_LF"
proof -
  have "\<not> IS_URL_CHAR c_SP" "\<not> IS_URL_CHAR c_CR" "\<not> IS_URL_CHAR c_LF"
    by (simp_all add: IS_URL_CHAR_def BIT_AT_def normal_url_char_def)
  then show "IS_URL_CHAR c \<Longrightarrow> c \<noteq> c_SP \<and> c \<noteq> c_CR \<and> c \<noteq> c_LF" by metis
qed

lemma path_run:
  assumes "list_all IS_URL_CHAR xs" and "drop p data = xs @ bs" and "n + length xs \<le> 81920"
  shows "\<exists>c. exec_loop st data b False (ex (rq hst ix n maj mnr m up log) s_req_path p c0 M) =
      exec_loop st data b False (ex (rq hst ix (n + length xs) maj mnr m up log) s_req_path (p + length xs) c M) \<and>
      drop (p + length xs) data = bs"
  using assms
proof (induction xs arbitrary: p n c0)
  case Nil then show ?case by auto
next
  case (Cons x xs)
  from Cons.prems(1) have x: "IS_URL_CHAR x" "list_all IS_URL_CHAR xs" by simp_all
  have d: "drop p data = x # (xs @ bs)" using Cons.prems(2) by simp
  have sw: "exec_switch st data b (ex (rq hst ix (Suc n) maj mnr m up log) s_req_path p x M) =
      Break (ex (rq hst ix (Suc n) maj mnr m up log) s_req_path p x M)"
    using url_char_not_space [OF x(1)] url_char_parse [OF x(1)]
    by (simp add: exec_switch_def exec_url_def url_byte_def Let_def)
  have "n < 81920" using Cons.prems(3) by simp
  note lb = loop_break [OF d this _ sw, of c0]
  from Cons.IH [OF x(2), of "Suc p" "Suc n" x] lb Cons.prems(3)
  show ?case by (simp add: PARSING_HEADER_def)
qed

lemma loop_break1:
  assumes "drop p data = c # bs" and "n < 81920" and "PARSING_HEADER s" and "n' = Suc n" and "p' = Suc p"
    and "exec_switch st data b (ex (rq hst ix n' maj mnr m up log) s p c M) = Break (ex q' s' p c M')"
  shows "exec_loop st data b False (ex (rq hst ix n maj mnr m up log) s p c0 M) =
      exec_loop st data b False (ex q' s' p' c M') \<and> drop p' data = bs"
  using loop_break [OF assms(1-3), of st b] assms(4-6) by simp

section \<open>The version and the empty header\<close>

definition version_tail :: bytes where
  "version_tail = ascii ''HTTP/1.1'' @ CRLF @ CRLF"

lemma version_tail_bytes:
  "version_tail = [c_H, c_T, c_T, c_P, c_slash, 49, c_dot, 49, c_CR, c_LF, c_CR, c_LF]"
  by (simp add: version_tail_def ascii_def CRLF_def)

lemma version_run:
  assumes d: "drop p data = version_tail" and n: "n + 12 \<le> 81920"
  shows "exec_loop st data b False (ex (rq hst ix n 0 0 m up log) s_req_http_start p c0 M) =
      exec_loop st data b False (ex (rq hst ix (n + 11) 1 1 m up log) s_headers_almost_done (p + 11) c_CR M) \<and>
    drop (p + 11) data = [c_LF]"
proof -
  note ev = exec_switch_def exec_req_version_def exec_header_field_start_def IS_NUM_def ch_digit_def strict_check_def
  have s1: "exec_loop st data b False (ex (rq hst ix n 0 0 m up log) s_req_http_start p c0 M) =
      exec_loop st data b False (ex (rq hst ix (n + 1) 0 0 m up log) s_req_http_H (p + 1) c_H M) \<and>
      drop (p + 1) data = [c_T, c_T, c_P, c_slash, 49, c_dot, 49, c_CR, c_LF, c_CR, c_LF]"
    by (rule loop_break1 [OF d [unfolded version_tail_bytes]]) (use n in \<open>simp_all add: ev PARSING_HEADER_def\<close>)
  have s2: "exec_loop st data b False (ex (rq hst ix (n + 1) 0 0 m up log) s_req_http_H (p + 1) c_H M) =
      exec_loop st data b False (ex (rq hst ix (n + 2) 0 0 m up log) s_req_http_HT (p + 2) c_T M) \<and>
      drop (p + 2) data = [c_T, c_P, c_slash, 49, c_dot, 49, c_CR, c_LF, c_CR, c_LF]"
    by (rule loop_break1 [OF s1 [THEN conjunct2]]) (use n in \<open>simp_all add: ev PARSING_HEADER_def\<close>)
  have s3: "exec_loop st data b False (ex (rq hst ix (n + 2) 0 0 m up log) s_req_http_HT (p + 2) c_T M) =
      exec_loop st data b False (ex (rq hst ix (n + 3) 0 0 m up log) s_req_http_HTT (p + 3) c_T M) \<and>
      drop (p + 3) data = [c_P, c_slash, 49, c_dot, 49, c_CR, c_LF, c_CR, c_LF]"
    by (rule loop_break1 [OF s2 [THEN conjunct2]]) (use n in \<open>simp_all add: ev PARSING_HEADER_def\<close>)
  have s4: "exec_loop st data b False (ex (rq hst ix (n + 3) 0 0 m up log) s_req_http_HTT (p + 3) c_T M) =
      exec_loop st data b False (ex (rq hst ix (n + 4) 0 0 m up log) s_req_http_HTTP (p + 4) c_P M) \<and>
      drop (p + 4) data = [c_slash, 49, c_dot, 49, c_CR, c_LF, c_CR, c_LF]"
    by (rule loop_break1 [OF s3 [THEN conjunct2]]) (use n in \<open>simp_all add: ev PARSING_HEADER_def\<close>)
  have s5: "exec_loop st data b False (ex (rq hst ix (n + 4) 0 0 m up log) s_req_http_HTTP (p + 4) c_P M) =
      exec_loop st data b False (ex (rq hst ix (n + 5) 0 0 m up log) s_req_http_major (p + 5) c_slash M) \<and>
      drop (p + 5) data = [49, c_dot, 49, c_CR, c_LF, c_CR, c_LF]"
    by (rule loop_break1 [OF s4 [THEN conjunct2]]) (use n in \<open>simp_all add: ev PARSING_HEADER_def\<close>)
  have s6: "exec_loop st data b False (ex (rq hst ix (n + 5) 0 0 m up log) s_req_http_major (p + 5) c_slash M) =
      exec_loop st data b False (ex (rq hst ix (n + 6) 1 0 m up log) s_req_http_dot (p + 6) 49 M) \<and>
      drop (p + 6) data = [c_dot, 49, c_CR, c_LF, c_CR, c_LF]"
    by (rule loop_break1 [OF s5 [THEN conjunct2]]) (use n in \<open>simp_all add: ev PARSING_HEADER_def\<close>)
  have s7: "exec_loop st data b False (ex (rq hst ix (n + 6) 1 0 m up log) s_req_http_dot (p + 6) 49 M) =
      exec_loop st data b False (ex (rq hst ix (n + 7) 1 0 m up log) s_req_http_minor (p + 7) c_dot M) \<and>
      drop (p + 7) data = [49, c_CR, c_LF, c_CR, c_LF]"
    by (rule loop_break1 [OF s6 [THEN conjunct2]]) (use n in \<open>simp_all add: ev PARSING_HEADER_def\<close>)
  have s8: "exec_loop st data b False (ex (rq hst ix (n + 7) 1 0 m up log) s_req_http_minor (p + 7) c_dot M) =
      exec_loop st data b False (ex (rq hst ix (n + 8) 1 1 m up log) s_req_http_end (p + 8) 49 M) \<and>
      drop (p + 8) data = [c_CR, c_LF, c_CR, c_LF]"
    by (rule loop_break1 [OF s7 [THEN conjunct2]]) (use n in \<open>simp_all add: ev PARSING_HEADER_def\<close>)
  have s9: "exec_loop st data b False (ex (rq hst ix (n + 8) 1 1 m up log) s_req_http_end (p + 8) 49 M) =
      exec_loop st data b False (ex (rq hst ix (n + 9) 1 1 m up log) s_req_line_almost_done (p + 9) c_CR M) \<and>
      drop (p + 9) data = [c_LF, c_CR, c_LF]"
    by (rule loop_break1 [OF s8 [THEN conjunct2]]) (use n in \<open>simp_all add: ev PARSING_HEADER_def\<close>)
  have s10: "exec_loop st data b False (ex (rq hst ix (n + 9) 1 1 m up log) s_req_line_almost_done (p + 9) c_CR M) =
      exec_loop st data b False (ex (rq hst ix (n + 10) 1 1 m up log) s_header_field_start (p + 10) c_LF M) \<and>
      drop (p + 10) data = [c_CR, c_LF]"
    by (rule loop_break1 [OF s9 [THEN conjunct2]]) (use n in \<open>simp_all add: ev PARSING_HEADER_def\<close>)
  have s11: "exec_loop st data b False (ex (rq hst ix (n + 10) 1 1 m up log) s_header_field_start (p + 10) c_LF M) =
      exec_loop st data b False (ex (rq hst ix (n + 11) 1 1 m up log) s_headers_almost_done (p + 11) c_CR M) \<and>
      drop (p + 11) data = [c_LF]"
    by (rule loop_break1 [OF s10 [THEN conjunct2]]) (use n in \<open>simp_all add: ev PARSING_HEADER_def\<close>)
  show ?thesis using s1 s2 s3 s4 s5 s6 s7 s8 s9 s10 s11 by simp
qed


section \<open>The rest of the request line and the end of the header\<close>

lemma method_end:
  assumes "drop p data = c_SP # c_slash # bs" and "n + 2 \<le> 81920" and "m \<noteq> HTTP_CONNECT"
    and "ix = of_nat (length (method_bytes m))"
  shows "exec_loop st data b False (ex (rq hst ix n 0 0 m up log) s_req_method p c0 no_marks) =
      exec_loop st data b False (ex (rq hst (ix + 1) (n + 2) 0 0 m up log) s_req_path (p + 2) c_slash (url_marks (p + 1))) \<and>
    drop (p + 2) data = bs"
proof -
  have "cstr_at (method_string m) ix = Some 0"
    using method_bytes_length [of m]
    by (simp add: assms(4) cstr_at_def cstr_method unat_of_nat nth_append)
  then have s1: "exec_loop st data b False (ex (rq hst ix n 0 0 m up log) s_req_method p c0 no_marks) =
      exec_loop st data b False (ex (rq hst (ix + 1) (n + 1) 0 0 m up log) s_req_spaces_before_url (p + 1) c_SP no_marks) \<and>
      drop (p + 1) data = c_slash # bs"
    by (intro loop_break1 [OF assms(1)])
      (use assms(2) in \<open>simp_all add: exec_switch_def exec_req_method_def PARSING_HEADER_def Let_def\<close>)
  have s2: "exec_loop st data b False (ex (rq hst (ix + 1) (n + 1) 0 0 m up log) s_req_spaces_before_url (p + 1) c_SP no_marks) =
      exec_loop st data b False (ex (rq hst (ix + 1) (n + 2) 0 0 m up log) s_req_path (p + 2) c_slash (url_marks (p + 1))) \<and>
      drop (p + 2) data = bs"
    by (rule loop_break1 [OF s1 [THEN conjunct2]])
      (use assms(2,3) in \<open>simp_all add: exec_switch_def exec_spaces_before_url_def url_byte_def set_mark_def
         parse_url_char_def PARSING_HEADER_def Let_def\<close>)
  show ?thesis using s1 s2 by simp
qed

lemma path_end:
  assumes "drop p data = c_SP # bs" and "n + 1 \<le> 81920" and "k \<le> p"
  shows "exec_loop log_settings data b False (ex (rq hst ix n 0 0 m up log) s_req_path p c0 (url_marks k)) =
      exec_loop log_settings data b False
        (ex (rq s_req_http_start ix (n + 1) 0 0 m up (log @ [Data D_url (take (p - k) (drop k data))]))
          s_req_http_start (p + 1) c_SP no_marks) \<and>
    drop (p + 1) data = bs"
  by (rule loop_break1 [OF assms(1)])
    (use assms(2,3) in \<open>simp_all add: exec_switch_def exec_url_def CALLBACK_DATA_def callback_data_def
       PARSING_HEADER_def Let_def\<close>)


lemma drop_after: "drop k xs = ys \<Longrightarrow> drop (k + j) xs = drop j ys"
  by (auto simp: add.commute)

lemma rq_nread_0 [simp]:
  "(rq hst ix n maj mnr m up log)\<lparr>hp_nread := 0\<rparr> = rq hst ix 0 maj mnr m up log"
  by (simp add: rq_def)

lemma header_end:
  assumes "drop p data = [c_LF]" and "n < 81920" and "m \<noteq> HTTP_CONNECT"
  shows "exec_loop log_settings data b False (ex (rq hst ix n 1 1 m up log) s_headers_almost_done p c0 no_marks) =
      Some (Executed (length data)
        (rq s_start_req ix 0 1 1 m False (log @ [Note N_headers_complete, Note N_message_complete])))"
proof -
  let ?e = "\<lambda>log s. ex (rq hst ix (Suc n) 1 1 m False log) s p c_LF no_marks"
  have p: "p \<noteq> length data" "Suc p = length data"
    using arg_cong [OF assms(1), of length] by simp_all
  have "exec_switch log_settings data b (ex (rq hst ix (Suc n) 1 1 m up log) s_headers_almost_done p c_LF no_marks) =
      Reexecute (?e (log @ [Note N_headers_complete]) s_headers_done)"
    using assms(3) by (simp add: exec_switch_def exec_headers_almost_done_def strict_check_def headers_complete_def
        set_upgrade_def flag_def proceed_def)
  then have r1: "exec_round log_settings data b False (ex (rq hst ix n 1 1 m up log) s_headers_almost_done p c0 no_marks) =
      Reexecute (?e (log @ [Note N_headers_complete]) s_headers_done)"
    by (simp add: exec_round_def next_byte_ex [OF assms(1,2)] PARSING_HEADER_def proceed_def)
  have r2: "exec_round log_settings data b True (?e log' s_headers_done) =
      Break (ex (rq s_start_req ix 0 1 1 m False (log' @ [Note N_message_complete])) s_start_req p c_LF no_marks)" for log'
    using assms(3) by (simp add: exec_round_def exec_switch_def exec_headers_done_def strict_check_def flag_def
        proceed_def Let_def NEW_MESSAGE_def http_should_keep_alive_def http_message_needs_eof_def start_state_def
        CALLBACK_NOTIFY_def callback_notify_def)
  have "leftover_callbacks log_settings data (ex q s (length data) c no_marks) =
      Return (length data) (q\<lparr>hp_state := s\<rparr>)" if "hp_errno q = HPE_OK" for q s c
    using that by (simp add: leftover_callbacks_def open_marks_def CALLBACK_DATA_NOADVANCE_def callback_data_def
        proceed_def ret_def)
  then show ?thesis using p
    by (subst exec_loop.simps, simp add: r1, subst exec_loop.simps, simp add: r2,
        subst exec_loop.simps, simp add: result_of_def)
qed

section \<open>Parsing what was printed\<close>

definition print_request :: "http_method \<Rightarrow> bytes \<Rightarrow> bytes" where
  "print_request m path = method_bytes m @ [c_SP] @ path @ [c_SP] @ version_tail"

lemma parse_print_request:
  assumes "m \<noteq> HTTP_CONNECT" and "list_all IS_URL_CHAR xs" and "length (print_request m (c_slash # xs)) \<le> 81920"
  shows "run (print_request m (c_slash # xs)) (fresh HTTP_REQUEST) =
    Some (Executed (length (print_request m (c_slash # xs)))
      (rq s_start_req (of_nat (length (method_bytes m)) + 1) 0 1 1 m False
        [Note N_message_begin, Data D_url (c_slash # xs), Note N_headers_complete, Note N_message_complete]))"
proof -
  let ?w = "method_bytes m" and ?d = "print_request m (c_slash # xs)"
  let ?L = "exec_loop log_settings ?d None False"
  let ?rest = "c_SP # c_slash # xs @ c_SP # version_tail"
  have d: "?d = ?w @ ?rest" by (simp add: print_request_def)
  have w: "3 \<le> length ?w" "length ?w \<le> 11" using method_head [of m] method_bytes_length [of m] by auto
  have len: "length ?w + length xs + 15 \<le> 81920" using assms(3) by (simp add: print_request_def version_tail_bytes)
  obtain c1 where r1: "?L (initial_exec (fresh HTTP_REQUEST)) =
      ?L (ex (rq s_req_method 1 1 0 0 (first_guess ?w) False [Note N_message_begin]) s_req_method 1 c1 no_marks)"
    using start_run [OF d] by blast
  have "drop 1 ?d = tl ?w @ ?rest" using w(1) by (cases ?w) (simp_all add: d)
  moreover have e: "1 + length (tl ?w) = length ?w" using w(1) by simp
  ultimately have d1: "drop 1 ?d = tl ?w @ ?rest" by simp
  from method_run [OF method_scan_all d1, of 1 None s_req_method 0 0 False "[Note N_message_begin]" c1 no_marks, unfolded e] w(2)
  obtain c2 where
    r2: "?L (ex (rq s_req_method 1 1 0 0 (first_guess ?w) False [Note N_message_begin]) s_req_method 1 c1 no_marks) =
      ?L (ex (rq s_req_method (of_nat (length ?w)) (length ?w) 0 0 m False [Note N_message_begin]) s_req_method (length ?w) c2 no_marks)"
    and d2: "drop (length ?w) ?d = ?rest"
    by auto
  have l: "length ?w + 2 \<le> 81920" "length ?w + 2 + length xs + 1 \<le> 81920" "length ?w + 1 \<le> length ?w + 2 + length xs"
    "length ?w + 2 + length xs + 1 + 12 \<le> 81920" "length ?w + 2 + length xs + 1 + 11 < 81920"
    using len by simp_all
  note r3 = method_end [OF d2 l(1) assms(1) refl, THEN conjunct1]
  have d3: "drop (length ?w + 2) ?d = xs @ (c_SP # version_tail)" by (simp add: d)
  obtain c4 where r4: "?L (ex (rq s_req_method (of_nat (length ?w) + 1) (length ?w + 2) 0 0 m False [Note N_message_begin]) 
        s_req_path (length ?w + 2) c_slash (url_marks (length ?w + 1))) =
      ?L (ex (rq s_req_method (of_nat (length ?w) + 1) (length ?w + 2 + length xs) 0 0 m False [Note N_message_begin]) 
        s_req_path (length ?w + 2 + length xs) c4 (url_marks (length ?w + 1)))"
    and d4: "drop (length ?w + 2 + length xs) ?d = c_SP # version_tail"
    using path_run [OF assms(2) d3, where n = "length ?w + 2" and st = log_settings and b = None and hst = s_req_method and
      ix = "of_nat (length ?w) + 1" and maj = 0 and mnr = 0 and m = m and up = False and log = "[Note N_message_begin]"
      and ?c0.0 = c_slash and M = "url_marks (length ?w + 1)"] len by auto
  note r5 = path_end [OF d4 l(2,3), THEN conjunct1]
  have d5: "drop (length ?w + 2 + length xs + 1) ?d = version_tail"
    using drop_after [OF d4, of 1] by simp
  note r6 = version_run [OF d5 l(4), THEN conjunct1]
  have d6: "drop (length ?w + 2 + length xs + 1 + 11) ?d = [c_LF]"
    using drop_after [OF d5, of 11] by (simp add: version_tail_bytes)
  note r7 = header_end [OF d6 l(5) assms(1)]
  have url: "take (length ?w + 2 + length xs - (length ?w + 1)) (drop (length ?w + 1) ?d) = c_slash # xs"
    by (simp add: d)
  have "?d \<noteq> []" by (simp add: d)
  moreover have "hp_errno (fresh HTTP_REQUEST) = HPE_OK" by (simp add: fresh_def)
  ultimately have "run ?d (fresh HTTP_REQUEST) = ?L (initial_exec (fresh HTTP_REQUEST))"
    by (simp add: run_def http_parser_execute_def)
  then show ?thesis unfolding r1 r2 r3 r4 r5 url r6 r7 by simp
qed

text \<open>
  C10. Parsing what was printed: for every method other than CONNECT and every path of URL
  characters, the parser started on the printed request consumes all of it, reports
  exactly the path as the URL, records exactly the method and the version 1.1, and is
  ready for the next request on the same connection.
\<close>

theorem request_print_parse:
  assumes "m \<noteq> HTTP_CONNECT" and "list_all IS_URL_CHAR path"
    and "length (print_request m (c_slash # path)) \<le> 81920"
  defines "r \<equiv> run (print_request m (c_slash # path)) (fresh HTTP_REQUEST)"
  shows "exec_outcome r = Some (length (print_request m (c_slash # path)), HPE_OK,
      [Note N_message_begin, Data D_url (c_slash # path), Note N_headers_complete, Note N_message_complete]) \<and>
    hp_method (after r) = m \<and> hp_major (after r) = 1 \<and> hp_minor (after r) = 1 \<and>
    hp_state (after r) = s_start_req \<and> http_should_keep_alive (after r)"
  unfolding r_def parse_print_request [OF assms(1-3)]
  by (simp add: exec_outcome_def after_def http_should_keep_alive_def http_message_needs_eof_def flag_def)

theorem request_print_parse_witness:
  "exec_outcome (run (ascii ''M-SEARCH /a-b HTTP/1.1'' @ CRLF @ CRLF) (fresh HTTP_REQUEST)) = Some (26, HPE_OK,
    [Note N_message_begin, Data D_url (ascii ''/a-b''), Note N_headers_complete, Note N_message_complete])"
proof -
  have e: "ascii ''M-SEARCH /a-b HTTP/1.1'' @ CRLF @ CRLF = print_request HTTP_MSEARCH (c_slash # ascii ''a-b'')"
    by (simp add: print_request_def version_tail_def ascii_def CRLF_def method_bytes_def)
  have "list_all IS_URL_CHAR (ascii ''a-b'')" by code_simp
  from request_print_parse [OF _ this, of HTTP_MSEARCH] show ?thesis unfolding e
    by (simp add: print_request_def version_tail_bytes ascii_def method_bytes_def)
qed

end
