(* ===== verification/Http_Chunk_Size.thy ===== *)
theory Http_Chunk_Size
  imports Http_Traces
begin

text \<open>
  The size line of a chunk, read from the first digit to the byte behind the number and
  compared with the value of a hexadecimal numeral that does not use the parser's table.
\<close>

section \<open>Hexadecimal numerals\<close>

definition is_hex :: "u8 \<Rightarrow> bool" where
  "is_hex c \<longleftrightarrow> 48 \<le> unat c \<and> unat c \<le> 57 \<or> 65 \<le> unat c \<and> unat c \<le> 70 \<or> 97 \<le> unat c \<and> unat c \<le> 102"

definition hex_digit :: "u8 \<Rightarrow> nat" where
  "hex_digit c = (if unat c \<le> 57 then unat c - 48 else if unat c \<le> 70 then unat c - 55 else unat c - 87)"

definition hex_number :: "bytes \<Rightarrow> nat" where
  "hex_number ds = foldl (\<lambda>v c. 16 * v + hex_digit c) 0 ds"

lemma hex_number_simps [simp]:
  "hex_number [] = 0" "hex_number (ds @ [c]) = 16 * hex_number ds + hex_digit c"
  by (simp_all add: hex_number_def)

lemma hex_number_mono: "hex_number ds \<le> hex_number (ds @ es)"
proof (induction es rule: rev_induct)
  case (snoc c es)
  then show ?case using hex_number_simps(2) [of "ds @ es" c] by simp
qed simp

lemma unhex_hex: "is_hex c \<longrightarrow> unhex_at c = int (hex_digit c)"
proof (rule all_bytes)
  show "list_all (\<lambda>n. is_hex (of_nat n) \<longrightarrow> unhex_at (of_nat n) = int (hex_digit (of_nat n))) [0..<256]"
    by code_simp
qed

lemma unhex_not_hex: "\<not> is_hex c \<and> c < 128 \<longrightarrow> unhex_at c = -1"
proof (rule all_bytes)
  show "list_all (\<lambda>n. \<not> is_hex (of_nat n) \<and> of_nat n < (128 :: u8) \<longrightarrow> unhex_at (of_nat n) = -1) [0..<256]"
    by code_simp
qed

lemma hex_digit_word64:
  assumes "is_hex c"
  shows "unat (word_of_int (unhex_at c) :: u64) = hex_digit c" "hex_digit c \<le> 15" "unhex_at c \<noteq> -1"
  using unhex_hex [of c] hex_digit_word [of c] assms by simp_all

lemma hex_not_end: "is_hex c \<Longrightarrow> c \<noteq> c_CR"
  by (auto simp: is_hex_def)

section \<open>The line up to the end of the number\<close>

text \<open>The largest size the guard lets through, \<open>2 ^ 64 - 17\<close>.\<close>

definition max_chunk_size :: nat where
  "max_chunk_size = 18446744073709551599"

text \<open>\<open>size_digits q s u\<close>: the parser has read the digits \<open>u\<close> of a size that fits.\<close>

definition size_digits :: "'d http_parser \<Rightarrow> state \<Rightarrow> bytes \<Rightarrow> bool" where
  "size_digits q s u \<longleftrightarrow> hp_errno q = HPE_OK \<and> flag (hp_flags q) F_CHUNKED \<and> unat (hp_nread q) = length u \<and>
     (if u = [] then s = s_chunk_size_start else s = s_chunk_size \<and> unat (hp_content_length q) = hex_number u)"

text \<open>What the line \<open>ds\<close>, ended by the byte \<open>t\<close>, must have done to the parser.\<close>

definition size_ended :: "'d http_parser \<Rightarrow> state \<Rightarrow> bytes \<Rightarrow> u8 \<Rightarrow> bool" where
  "size_ended q s ds t \<longleftrightarrow>
    (if ds = [] then hp_errno q = HPE_INVALID_CHUNK_SIZE
     else if max_chunk_size < hex_number ds then hp_errno q = HPE_INVALID_CONTENT_LENGTH
     else if t = c_CR \<or> t = c_semi \<or> t = c_SP then
       hp_errno q = HPE_OK \<and> unat (hp_content_length q) = hex_number ds \<and>
       s = (if t = c_CR then s_chunk_size_almost_done else s_chunk_parameters)
     else hp_errno q = HPE_INVALID_CHUNK_SIZE)"

definition size_line :: "'d http_parser \<Rightarrow> state \<Rightarrow> bytes \<Rightarrow> bool" where
  "size_line q s u \<longleftrightarrow>
    (if list_all is_hex u then
       (if max_chunk_size < hex_number u then hp_errno q = HPE_INVALID_CONTENT_LENGTH else size_digits q s u)
     else size_ended q s (butlast u) (last u))"

definition line_step :: "bytes \<Rightarrow> nat \<Rightarrow> 'd ctl \<Rightarrow> bool" where
  "line_step u p c =
    (case c of
       Break x \<Rightarrow> size_line (parser x) (cur x) u \<and> hp_errno (parser x) = HPE_OK \<and> marks x = (\<lambda>d. None) \<and> pos x = p
     | Goto_error x \<Rightarrow> size_line (parser x) (cur x) u \<and> hp_errno (parser x) \<noteq> HPE_OK
     | _ \<Rightarrow> False)"

lemma line_step_fail:
  "line_step u p (fail e x) \<longleftrightarrow> size_line ((parser x)\<lparr>hp_errno := e\<rparr>) (cur x) u \<and> e \<noteq> HPE_OK"
  by (simp add: line_step_def fail_def set_errno_def)

lemma size_digit:
  assumes c: "is_hex (cch x)" and u: "list_all is_hex u" "hex_number u \<le> max_chunk_size"
    and q: "hp_errno (parser x) = HPE_OK" "flag (hp_flags (parser x)) F_CHUNKED"
      "unat (hp_nread (parser x)) = length u + 1" "marks x = (\<lambda>d. None)"
      "if u = [] then cur x = s_chunk_size_start
       else cur x = s_chunk_size \<and> unat (hp_content_length (parser x)) = hex_number u"
  shows "line_step (u @ [cch x]) (pos x) (exec_chunk_size st x)"
proof (cases "u = []")
  case True
  have "hp_nread (parser x) = 1" using q(3) True by (simp add: word_unat_eq_iff)
  moreover have "\<not> max_chunk_size < hex_number [cch x]"
    using hex_digit_word64 [OF c] by (simp add: max_chunk_size_def hex_number_def)
  ultimately show ?thesis using True q hex_digit_word64 [OF c] c
    by (simp add: exec_chunk_size_def line_step_def size_line_def size_digits_def hex_number_def)
next
  case False
  let ?v = "hp_content_length (parser x)" and ?d = "word_of_int (unhex_at (cch x)) :: u64"
  note d = hex_digit_word64 [OF c]
  have g: "(ULLONG_MAX - 16) div 16 < ?v \<longleftrightarrow> 1152921504606846974 < unat ?v" by (simp add: word_less_nat_alt)
  have v: "unat ?v = hex_number u" "cur x = s_chunk_size" using q(5) False by simp_all
  show ?thesis
  proof (cases "(ULLONG_MAX - 16) div 16 < ?v")
    case True
    then have "max_chunk_size < hex_number (u @ [cch x])" using g v by (simp add: max_chunk_size_def)
    with True False c u q v d hex_not_end [OF c] show ?thesis
      by (simp add: exec_chunk_size_def Let_def line_step_fail size_line_def)
  next
    case ok: False
    with chunk_size_step(1) [OF ok, of ?d] d have n: "unat (?v * 16 + ?d) = hex_number (u @ [cch x])" using v by simp
    have "\<not> max_chunk_size < hex_number (u @ [cch x])" using ok g v d by (simp add: max_chunk_size_def)
    with n ok False c u q v d hex_not_end [OF c] show ?thesis
      by (simp add: exec_chunk_size_def Let_def line_step_def size_line_def size_digits_def)
  qed
qed

lemma size_end:
  assumes t: "\<not> is_hex (cch x)" "cch x < 128" and u: "list_all is_hex u" "hex_number u \<le> max_chunk_size"
    and q: "hp_errno (parser x) = HPE_OK" "flag (hp_flags (parser x)) F_CHUNKED"
      "unat (hp_nread (parser x)) = length u + 1" "marks x = (\<lambda>d. None)"
      "if u = [] then cur x = s_chunk_size_start
       else cur x = s_chunk_size \<and> unat (hp_content_length (parser x)) = hex_number u"
  shows "line_step (u @ [cch x]) (pos x) (exec_chunk_size st x)"
proof -
  have h: "unhex_at (cch x) = -1" using unhex_not_hex t by blast
  have l: "size_line p s (u @ [cch x]) = size_ended p s u (cch x)" for p :: "'a http_parser" and s
    using t(1) by (simp add: size_line_def)
  show ?thesis
  proof (cases "u = []")
    case True
    have "hp_nread (parser x) = 1" using q(3) True by (simp add: word_unat_eq_iff)
    with True q h l [of _ s_chunk_size_start] show ?thesis
      by (simp add: exec_chunk_size_def line_step_fail size_ended_def)
  next
    case False
    with q have s: "cur x = s_chunk_size" "unat (hp_content_length (parser x)) = hex_number u" by simp_all
    have n: "\<not> max_chunk_size < hex_number u" using u(2) by simp
    consider "cch x = c_CR" | "cch x \<noteq> c_CR" "cch x = c_semi \<or> cch x = c_SP"
      | "cch x \<noteq> c_CR" "cch x \<noteq> c_semi" "cch x \<noteq> c_SP" by blast
    then show ?thesis
    proof cases
      case 1
      with l [of _ s_chunk_size_almost_done] False s n q show ?thesis
        by (simp add: exec_chunk_size_def line_step_def size_ended_def)
    next
      case 2
      with l [of _ s_chunk_parameters] False s n q h show ?thesis
        by (simp add: exec_chunk_size_def line_step_def size_ended_def)
    next
      case 3
      with l [of _ s_chunk_size] False s n q h show ?thesis
        by (simp add: exec_chunk_size_def line_step_fail size_ended_def)
    qed
  qed
qed

text \<open>
  A line is digits and at most one byte more. Once a line is refused, what follows changes nothing.
\<close>

definition size_bytes :: "bytes \<Rightarrow> bool" where
  "size_bytes w \<longleftrightarrow> list_all is_hex (butlast w) \<and> list_all (\<lambda>c. c < 128) w \<and> length w \<le> 81920"

lemma size_bytes_before:
  assumes "size_bytes (w @ c # z)"
  shows "list_all is_hex w" "c < 128" "length w < 81920"
  using assms by (auto simp: size_bytes_def butlast_append split: if_splits)

lemma size_bytes_prefix:
  assumes "size_bytes (w @ z)"
  shows "size_bytes w"
proof (cases z rule: rev_cases)
  case Nil with assms show ?thesis by simp
next
  case (snoc z' c)
  with assms have w: "list_all is_hex w" "list_all (\<lambda>c. c < 128) w" "length w \<le> 81920"
    by (simp_all add: size_bytes_def butlast_append)
  then show ?thesis by (auto simp: size_bytes_def list_all_iff dest: in_set_butlastD)
qed

lemma size_line_refused:
  assumes "size_line q s w" and "hp_errno q \<noteq> HPE_OK" and z: "size_bytes (w @ z)"
  shows "size_line q s' (w @ z)"
proof (cases z)
  case Nil
  with assms(1,2) show ?thesis by (auto simp: size_line_def size_digits_def size_ended_def split: if_splits)
next
  case (Cons c y)
  have w: "list_all is_hex w" using size_bytes_before(1) z Cons by blast
  with assms(1,2) have e: "hp_errno q = HPE_INVALID_CONTENT_LENGTH" "max_chunk_size < hex_number w"
    by (auto simp: size_line_def size_digits_def split: if_splits)
  have "max_chunk_size < hex_number (w @ v)" for v using e(2) hex_number_mono [of w v] by linarith
  moreover have "w \<noteq> []" using e(2) by (auto simp: max_chunk_size_def)
  ultimately show ?thesis
    using e(1) w Cons by (auto simp: size_line_def size_ended_def butlast_append)
qed

lemma size_line_state: "size_line (q\<lparr>hp_state := r\<rparr>) s u = size_line q s u"
  by (simp add: size_line_def size_digits_def size_ended_def)

lemma size_round:
  assumes l: "size_line (parser x) (cur x) u" "hp_errno (parser x) = HPE_OK" "marks x = (\<lambda>d. None)"
    and p: "pos x < length data" and w: "size_bytes (u @ data ! pos x # z)"
  shows "line_step (u @ [data ! pos x]) (pos x) (exec_round st data beyond False x)"
proof -
  note b = size_bytes_before [OF w]
  have q: "size_digits (parser x) (cur x) u" "hex_number u \<le> max_chunk_size"
    using l b(1) by (auto simp: size_line_def split: if_splits)
  let ?y = "upd (\<lambda>q. q\<lparr>hp_nread := hp_nread q + 1\<rparr>) (x\<lparr>cch := data ! pos x\<rparr>)"
  have n: "unat (hp_nread (parser ?y)) = length u + 1"
    using q(1) b(3) by (simp add: size_digits_def unat_word_ariths)
  then have "\<not> HTTP_MAX_HEADER_SIZE < hp_nread (parser ?y)"
    using b(3) by (simp add: HTTP_MAX_HEADER_SIZE_def word_less_nat_alt)
  then have "exec_round st data beyond False x = exec_chunk_size st ?y"
    using q(1) p by (cases "u = []") (simp_all add: exec_round_def proceed_def next_byte_def Let_def
        COUNT_HEADER_SIZE_def PARSING_HEADER_def size_digits_def exec_switch_def)
  moreover have "line_step (u @ [cch ?y]) (pos ?y) (exec_chunk_size st ?y)"
    using size_digit [of ?y u st] size_end [of ?y u st] q l(2,3) b n by (cases "is_hex (cch ?y)") (auto simp: size_digits_def)
  ultimately show ?thesis by simp
qed

lemma size_loop:
  assumes "size_line (parser x) (cur x) (u @ take (pos x) data)" "hp_errno (parser x) = HPE_OK"
    "marks x = (\<lambda>d. None)" "pos x \<le> length data" and w: "size_bytes (u @ data)"
  shows "\<exists>n q. exec_loop st data beyond False x = Some (Executed n q) \<and> size_line q (hp_state q) (u @ data)"
  using assms(1-4)
proof (induction "length data - pos x" arbitrary: x)
  case 0
  then show ?case
    by (subst exec_loop.simps) (simp add: leftover_none result_of_def ret_def size_line_state)
next
  case (Suc k)
  then have lt: "pos x < length data" by simp
  let ?u = "u @ take (pos x) data" and ?r = "drop (Suc (pos x)) data"
  have d: "u @ data = ?u @ data ! pos x # ?r" using lt by (simp add: Cons_nth_drop_Suc)
  note step = size_round [OF Suc.prems(1-3) lt w [unfolded d], of st beyond]
  show ?case
  proof (cases "exec_round st data beyond False x")
    case (Break y)
    let ?y = "y\<lparr>pos := pos y + 1\<rparr>"
    from step Break have y: "size_line (parser y) (cur y) (?u @ [data ! pos x])" "hp_errno (parser y) = HPE_OK"
      "marks y = (\<lambda>d. None)" "pos y = pos x" by (simp_all add: line_step_def)
    have "size_line (parser ?y) (cur ?y) (u @ take (pos ?y) data)" using y lt by (simp add: take_Suc_conv_app_nth)
    moreover have "k = length data - pos ?y" using Suc.hyps(2) y(4) by simp
    ultimately have "\<exists>n q. exec_loop st data beyond False ?y = Some (Executed n q) \<and> size_line q (hp_state q) (u @ data)"
      using Suc.hyps(1) [of ?y] y lt by simp
    with Break lt show ?thesis by (subst exec_loop.simps) simp
  next
    case (Goto_error y)
    from step Goto_error have y: "size_line (parser y) (cur y) (?u @ [data ! pos x])" "hp_errno (parser y) \<noteq> HPE_OK"
      by (simp_all add: line_step_def)
    have "size_line (parser y) (cur y) ((?u @ [data ! pos x]) @ ?r)"
      by (rule size_line_refused [OF y]) (use w d in simp)
    then have "size_line ((parser y)\<lparr>hp_state := cur y\<rparr>) (cur y) (u @ data)" using d by (simp add: size_line_state)
    with Goto_error lt y show ?thesis
      by (subst exec_loop.simps) (simp add: error_exit_def ret_def result_of_def)
  qed (use step in \<open>simp_all add: line_step_def\<close>)
qed

lemma size_execute:
  assumes q: "size_line q (hp_state q) u" and w: "size_bytes (u @ data)" and d: "data \<noteq> []"
  shows "\<exists>n q'. http_parser_execute st data beyond q = Some (Executed n q') \<and> size_line q' (hp_state q') (u @ data)"
proof (cases "hp_errno q = HPE_OK")
  case True
  obtain c z where "data = c # z" using d by (cases data) auto
  then have "list_all is_hex u" using size_bytes_before(1) w by blast
  with q True have "hp_state q \<in> {s_chunk_size_start, s_chunk_size}"
    by (auto simp: size_line_def size_digits_def split: if_splits)
  then have "initial_marks (hp_state q) = (\<lambda>d. None)"
    by (auto simp: initial_marks_def url_mark_states_def fun_eq_iff split: data_cb.split)
  with size_loop [of "initial_exec q" u data st beyond] q w True d show ?thesis
    by (simp add: initial_exec_def http_parser_execute_def)
next
  case False
  with size_line_refused [OF q False w] show ?thesis by (simp add: http_parser_execute_def)
qed

lemma size_feed:
  assumes "size_line q (hp_state q) u" and "size_bytes (u @ concat (map fst bufs))" and "[] \<notin> fst ` set bufs"
  shows "\<exists>q'. feed st bufs q = Some q' \<and> size_line q' (hp_state q') (u @ concat (map fst bufs))"
  using assms
proof (induction bufs arbitrary: q u)
  case Nil then show ?case by simp
next
  case (Cons buf bufs)
  obtain data beyond where buf: "buf = (data, beyond)" by (cases buf)
  let ?z = "concat (map fst bufs)"
  have w: "size_bytes ((u @ data) @ ?z)" using Cons.prems(2) buf by simp
  have "size_bytes (u @ data)"
    by (rule size_bytes_prefix [OF w])
  from size_execute [OF Cons.prems(1) this, of st beyond] Cons.prems(3) buf obtain n p where
    p: "http_parser_execute st data beyond q = Some (Executed n p)" "size_line p (hp_state p) (u @ data)" by auto
  from Cons.IH [OF p(2) w] Cons.prems(3) p(1) show ?case by (simp add: buf)
qed

text \<open>
  C31. The size of a chunk is read exactly. A parser at the start of a chunk is given the size line up to
  the byte behind the number, in buffers cut anywhere, shorter than the header limit and in ASCII: when
  there is no digit the line is an error; when the number is above \<open>2 ^ 64 - 17\<close> the length is
  refused and never wraps; otherwise a carriage return leads to the end of the line and a blank or a
  semicolon to the parameters, with the value of the hexadecimal numeral, in digits of either case,
  stored, and any other byte is an error. (Bytes from 128 on are not covered: the parser's table takes
  them for the digit 0.)
\<close>

theorem chunk_size_exact:
  assumes "hp_state q = s_chunk_size_start" and "hp_errno q = HPE_OK" and "flag (hp_flags q) F_CHUNKED"
    and "hp_nread q = 0" and "concat (map fst bufs) = ds @ [t]" and "[] \<notin> fst ` set bufs"
    and "list_all is_hex ds" and "\<not> is_hex t" and "t < 128" and "length ds < 81920"
  shows "\<exists>q'. feed st bufs q = Some q' \<and>
    (if ds = [] then hp_errno q' = HPE_INVALID_CHUNK_SIZE
     else if 2 ^ 64 - 17 < hex_number ds then hp_errno q' = HPE_INVALID_CONTENT_LENGTH
     else if t = c_CR \<or> t = c_semi \<or> t = c_SP then
       hp_errno q' = HPE_OK \<and> unat (hp_content_length q') = hex_number ds \<and>
       hp_state q' = (if t = c_CR then s_chunk_size_almost_done else s_chunk_parameters)
     else hp_errno q' = HPE_INVALID_CHUNK_SIZE)"
proof -
  have "size_line q (hp_state q) []" using assms(1-4) by (simp add: size_line_def size_digits_def max_chunk_size_def)
  moreover have "is_hex c \<Longrightarrow> c < 128" for c by (auto simp: is_hex_def word_less_nat_alt)
  then have "size_bytes ([] @ concat (map fst bufs))"
    using assms(5,7,9,10) by (auto simp: size_bytes_def list_all_iff)
  ultimately obtain q' where "feed st bufs q = Some q'" "size_line q' (hp_state q') (ds @ [t])"
    using size_feed [of q "[]" bufs st] assms(5,6) by auto
  with assms(8) show ?thesis by (simp add: size_line_def size_ended_def max_chunk_size_def)
qed

definition at_chunk :: "event list http_parser" where
  "at_chunk = (fresh HTTP_REQUEST)\<lparr>hp_state := s_chunk_size_start, hp_flags := F_CHUNKED\<rparr>"

text \<open>The size line \<open>1aF\<close>, cut behind its first digit: 431 bytes follow.\<close>

theorem chunk_size_exact_witness:
  "\<exists>q. feed log_settings [(ascii ''1'', None), (ascii ''aF'' @ [c_CR], None)] at_chunk = Some q \<and>
    hp_errno q = HPE_OK \<and> unat (hp_content_length q) = 431 \<and> hp_state q = s_chunk_size_almost_done"
proof -
  have n: "hex_number (ascii ''1aF'') = 431" by code_simp
  have "list_all is_hex (ascii ''1aF'')" "\<not> is_hex c_CR" by code_simp+
  then show ?thesis
    using chunk_size_exact [of at_chunk "[(ascii ''1'', None), (ascii ''aF'' @ [c_CR], None)]" "ascii ''1aF''"
        c_CR log_settings] n
    by (simp add: at_chunk_def fresh_def flag_def F_CHUNKED_def ascii_def)
qed

end
