(* ===== verification/Dll.thy ===== *)
theory Dll
  imports Prelude
begin

text \<open>
  Circular doubly linked lists, as the block buffer (\<open>httpserver/iobuf.cc\<close>) and the
  resource cache (\<open>resource_cache/resource_cache.h\<close>) build them from \<open>next\<close> and \<open>prev\<close>
  pointers. A ring is described by the list of the nodes met from a first node on; the
  lemmas say what the pointer assignments of the two programs do to that list.
\<close>

type_synonym links = "nat \<Rightarrow> nat option"

text \<open>\<open>path nx pv a xs b\<close>: from \<open>a\<close> the links lead through \<open>xs\<close> to \<open>b\<close>, in both directions.\<close>

fun path :: "links \<Rightarrow> links \<Rightarrow> nat \<Rightarrow> nat list \<Rightarrow> nat \<Rightarrow> bool" where
  "path nx pv a [] b \<longleftrightarrow> nx a = Some b \<and> pv b = Some a"
| "path nx pv a (x # xs) b \<longleftrightarrow> nx a = Some x \<and> pv x = Some a \<and> path nx pv x xs b"

definition ring :: "links \<Rightarrow> links \<Rightarrow> nat \<Rightarrow> nat list \<Rightarrow> bool" where
  "ring nx pv a xs \<longleftrightarrow> distinct (a # xs) \<and> path nx pv a xs a"

section \<open>Paths\<close>

lemma path_append: "path nx pv a (xs @ y # ys) b \<longleftrightarrow> path nx pv a xs y \<and> path nx pv y ys b"
  by (induction xs arbitrary: a) auto

lemma path_snoc: "path nx pv a (xs @ [y]) b \<longleftrightarrow> path nx pv a xs y \<and> nx y = Some b \<and> pv b = Some y"
  by (simp add: path_append)

lemma path_first: "path nx pv a xs b \<Longrightarrow> nx a = Some (hd (xs @ [b]))"
  by (cases xs) auto

lemma path_last: "path nx pv a xs b \<Longrightarrow> pv b = Some (last (a # xs))"
  by (induction xs arbitrary: a) auto

lemma path_cong:
  assumes "\<And>x. x \<in> insert a (set xs) \<Longrightarrow> nx' x = nx x"
    and "\<And>x. x \<in> insert b (set xs) \<Longrightarrow> pv' x = pv x"
  shows "path nx' pv' a xs b \<longleftrightarrow> path nx pv a xs b"
  using assms by (induction xs arbitrary: a) auto

text \<open>Setting the links at one end of a path moves that end.\<close>

lemma path_set_end:
  assumes "path nx pv a xs b" and "distinct (a # xs)" and "c \<notin> set xs" and "l = last (a # xs)"
    and "\<And>x. x \<in> set xs \<Longrightarrow> pv' x = pv x" and "pv' c = Some l"
    and "\<And>x. x \<in> insert a (set xs) \<Longrightarrow> x \<noteq> l \<Longrightarrow> nx' x = nx x" and "nx' l = Some c"
  shows "path nx' pv' a xs c"
proof (cases xs rule: rev_cases)
  case Nil
  with assms show ?thesis by simp
next
  case (snoc ys y)
  with assms have "path nx pv a ys y" by (simp add: path_snoc)
  moreover from snoc assms have "path nx' pv' a ys y \<longleftrightarrow> path nx pv a ys y"
    by (intro path_cong) auto
  ultimately show ?thesis using snoc assms(4,6,8) by (simp add: path_snoc)
qed

section \<open>Rings\<close>

lemma ring_distinct: "ring nx pv a xs \<Longrightarrow> distinct (a # xs)"
  by (simp add: ring_def)

lemma ring_first: "ring nx pv a xs \<Longrightarrow> nx a = Some (hd (xs @ [a]))"
  unfolding ring_def using path_first by blast

lemma ring_last: "ring nx pv a xs \<Longrightarrow> pv a = Some (last (a # xs))"
  unfolding ring_def using path_last by blast

lemma ring_single: "ring nx pv a [] \<longleftrightarrow> nx a = Some a \<and> pv a = Some a"
  by (simp add: ring_def)

lemma ring_inner:
  assumes "ring nx pv a (us @ y # vs)"
  shows "pv y = Some (last (a # us))" "nx y = Some (hd (vs @ [a]))"
  using assms path_last [of nx pv a us y] path_first [of nx pv y vs a]
  by (simp_all add: ring_def path_append)

lemma ring_cong:
  assumes "\<And>x. x \<in> set (a # xs) \<Longrightarrow> nx' x = nx x" and "\<And>x. x \<in> set (a # xs) \<Longrightarrow> pv' x = pv x"
  shows "ring nx' pv' a xs \<longleftrightarrow> ring nx pv a xs"
  using path_cong [of a xs nx' nx a pv' pv] assms by (simp add: ring_def)

lemma ring_rotate: "ring nx pv a (b # ys) \<Longrightarrow> ring nx pv b (ys @ [a])"
  by (auto simp: ring_def path_snoc)

text \<open>Insertion of a new node behind the last one, the steps of \<open>IOBuf::Append\<close>.\<close>

lemma ring_insert_last:
  assumes "ring nx pv a xs" and "y \<notin> set (a # xs)" and "l = last (a # xs)"
  shows "ring (nx(y := Some a, l := Some y)) (pv(a := Some y, y := Some l)) a (xs @ [y])"
proof -
  have d: "distinct (a # xs)" and p: "path nx pv a xs a" using assms(1) by (simp_all add: ring_def)
  have "l \<in> set (a # xs)" using assms(3) last_in_set [of "a # xs"] by simp
  then have "y \<noteq> l" using assms(2) by blast
  have "path (nx(y := Some a, l := Some y)) (pv(a := Some y, y := Some l)) a xs y"
    by (rule path_set_end [OF p d _ assms(3)]) (use assms(2) d in auto)
  then show ?thesis using assms(2) d \<open>y \<noteq> l\<close> by (auto simp: ring_def path_snoc)
qed

text \<open>Insertion of a new node right behind the first one, the steps of \<open>InsertToLRU\<close>.\<close>

lemma ring_insert_first:
  assumes "ring nx pv a xs" and "y \<notin> set (a # xs)" and "f = hd (xs @ [a])"
  shows "ring (nx(y := Some f, a := Some y)) (pv(y := Some a, f := Some y)) a (y # xs)"
proof (cases xs)
  case Nil
  with assms show ?thesis by (auto simp: ring_def)
next
  case (Cons b ys)
  from assms(1) Cons have d: "distinct (a # b # ys)" and p: "path nx pv b ys a" by (simp_all add: ring_def)
  have "path (nx(y := Some b, a := Some y)) (pv(y := Some a, b := Some y)) b ys a \<longleftrightarrow> path nx pv b ys a"
    by (rule path_cong) (use d assms(2) Cons in auto)
  with p show ?thesis using assms(2,3) Cons d by (auto simp: ring_def)
qed

text \<open>Taking a node out, the steps of \<open>TrimEnd\<close>, \<open>RemoveFromLRU\<close> and \<open>MoveToLRUHead\<close>.\<close>

lemma ring_unlink:
  assumes "ring nx pv a (us @ y # vs)" and "l = last (a # us)" and "f = hd (vs @ [a])"
  shows "ring (nx(l := Some f)) (pv(f := Some l)) a (us @ vs)"
proof -
  have d: "distinct (a # us @ y # vs)" and p: "path nx pv a us y" "path nx pv y vs a"
    using assms(1) by (simp_all add: ring_def path_append)
  have l: "l \<in> set (a # us)" using assms(2) last_in_set [of "a # us"] by simp
  show ?thesis
  proof (cases vs)
    case Nil
    have "path (nx(l := Some f)) (pv(f := Some l)) a us f"
      by (rule path_set_end [OF p(1) _ _ assms(2)]) (use d Nil assms(3) in auto)
    with Nil d assms(3) show ?thesis by (simp add: ring_def)
  next
    case (Cons v ws)
    with p(2) have pw: "path nx pv v ws a" by simp
    have "path (nx(l := Some v)) (pv(v := Some l)) v ws a \<longleftrightarrow> path nx pv v ws a"
      by (rule path_cong) (use d l Cons in auto)
    moreover have "path (nx(l := Some v)) (pv(v := Some l)) a us v"
      by (rule path_set_end [OF p(1) _ _ assms(2)]) (use d Cons in auto)
    ultimately show ?thesis using pw Cons d assms(3) by (simp add: ring_def path_append)
  qed
qed

text \<open>Taking the first node out, so that the second one becomes the first, as in \<open>IOBuf::Pop\<close>.\<close>

lemma ring_pop:
  assumes "ring nx pv a (b # ys)" and "l = last (b # ys)"
  shows "ring (nx(l := Some b)) (pv(b := Some l)) b ys"
  using ring_unlink [of nx pv b ys a "[]" l b] ring_rotate [OF assms(1)] assms(2) by simp

end
