(* ===== verification/Iobuf.thy ===== *)
theory Iobuf
  imports Dll
begin

text \<open>
  \<open>httpserver/iobuf.cc\<close>: byte buffers built of a ring of blocks that share reference-counted
  memory. Blocks and memory buffers live in one store; addresses are handed out in
  increasing order, so that an address is never reused, and memory is assumed to be
  available (the code does not check \<open>malloc\<close>). A pointer into a memory buffer is the buffer
  and an offset; bytes that were never written are unknown. The reference count, which the
  code keeps behind the last byte of the buffer, is a field. A \<open>unique_ptr\<close> is a pointer
  whose block is deleted where the code drops it. \<open>None\<close> is a failed assertion, an access
  outside an object, or a loop that does not end.
\<close>

section \<open>Data\<close>

record Block =
  bk_buffer :: nat
  bk_data :: nat
  bk_length :: u64
  bk_capacity :: u64
  bk_next :: nat
  bk_prev :: nat

record Buffer =
  contents :: "nat \<Rightarrow> u8 option"
  refcount :: int

record store =
  blocks :: "nat \<rightharpoonup> Block"
  buffers :: "nat \<rightharpoonup> Buffer"
  next_block :: nat
  next_buffer :: nat

record IOBuf =
  io_length :: u64
  io_head :: ptr

definition kDefaultBufferSize :: u64 where "kDefaultBufferSize = 512 * 1024"

definition sizeof_SharedInfo :: u64 where "sizeof_SharedInfo = 4"

definition new_IOBuf :: IOBuf where
  "new_IOBuf = \<lparr>io_length = 0, io_head = None\<rparr>"

definition upd_block :: "nat \<Rightarrow> (Block \<Rightarrow> Block) \<Rightarrow> store \<Rightarrow> store option" where
  "upd_block a f m = map_option (\<lambda>h. m\<lparr>blocks := h\<rparr>) (heap_upd (blocks m) a f)"

text \<open>\<open>memcpy\<close> into a buffer, up to the reference count behind its bytes.\<close>

definition write_mem :: "nat \<times> nat \<Rightarrow> bytes \<Rightarrow> store \<Rightarrow> store option" where
  "write_mem p xs m =
    (case p of (i, off) \<Rightarrow>
       (case buffers m i of
          None \<Rightarrow> None
        | Some B \<Rightarrow>
            if int (off + length xs) \<le> uint (kDefaultBufferSize - sizeof_SharedInfo)
            then Some (m\<lparr>buffers := (buffers m)(i \<mapsto>
              B\<lparr>contents := (\<lambda>j. if off \<le> j \<and> j < off + length xs then Some (xs ! (j - off)) else contents B j)\<rparr>)\<rparr>)
            else None))"

definition read_byte :: "nat \<times> nat \<Rightarrow> store \<Rightarrow> u8 option" where
  "read_byte p m = (case buffers m (fst p) of None \<Rightarrow> None | Some B \<Rightarrow> contents B (snd p))"

section \<open>Blocks\<close>

definition new_Block :: "store \<Rightarrow> nat \<times> store" where
  "new_Block m =
    (let a = next_block m; i = next_buffer m;
         b = \<lparr>bk_buffer = i, bk_data = 0, bk_length = 0, bk_capacity = kDefaultBufferSize - sizeof_SharedInfo,
              bk_next = a, bk_prev = a\<rparr>
     in (a, m\<lparr>blocks := (blocks m)(a \<mapsto> b),
              buffers := (buffers m)(i \<mapsto> \<lparr>contents = (\<lambda>_. None), refcount = 1\<rparr>),
              next_block := a + 1, next_buffer := i + 1\<rparr>))"

definition new_Block_view :: "nat \<Rightarrow> nat \<Rightarrow> u64 \<Rightarrow> u64 \<Rightarrow> store \<Rightarrow> nat \<times> store" where
  "new_Block_view buf data len cap m =
    (let a = next_block m in
     (a, m\<lparr>blocks := (blocks m)(a \<mapsto>
             \<lparr>bk_buffer = buf, bk_data = data, bk_length = len, bk_capacity = cap, bk_next = a, bk_prev = a\<rparr>),
           next_block := a + 1\<rparr>))"

definition Block_Ref :: "nat \<Rightarrow> store \<Rightarrow> store option" where
  "Block_Ref a m = do {
     b \<leftarrow> blocks m a;
     h \<leftarrow> heap_upd (buffers m) (bk_buffer b) (\<lambda>B. B\<lparr>refcount := refcount B + 1\<rparr>);
     Some (m\<lparr>buffers := h\<rparr>)
   }"

definition Block_Unref :: "nat \<Rightarrow> store \<Rightarrow> store option" where
  "Block_Unref a m = do {
     b \<leftarrow> blocks m a;
     B \<leftarrow> buffers m (bk_buffer b);
     let B' = B\<lparr>refcount := refcount B - 1\<rparr>;
     Some (m\<lparr>buffers := (buffers m)(bk_buffer b := (if refcount B > 1 then Some B' else None))\<rparr>)
   }"

definition delete_Block :: "nat \<Rightarrow> store \<Rightarrow> store option" where
  "delete_Block a m = do { m \<leftarrow> Block_Unref a m; Some (m\<lparr>blocks := (blocks m)(a := None)\<rparr>) }"

definition Block_TrimStart :: "nat \<Rightarrow> u64 \<Rightarrow> store \<Rightarrow> store option" where
  "Block_TrimStart a amount m = do {
     b \<leftarrow> blocks m a;
     if amount \<le> bk_length b
     then upd_block a (\<lambda>b. b\<lparr>bk_data := bk_data b + unat amount, bk_length := bk_length b - amount\<rparr>) m
     else None
   }"

definition Block_TrimEnd :: "nat \<Rightarrow> u64 \<Rightarrow> store \<Rightarrow> store option" where
  "Block_TrimEnd a amount m = do {
     b \<leftarrow> blocks m a;
     if amount \<le> bk_length b then upd_block a (\<lambda>b. b\<lparr>bk_length := bk_length b - amount\<rparr>) m else None
   }"

definition Block_Clone :: "nat \<Rightarrow> store \<Rightarrow> (nat \<times> store) option" where
  "Block_Clone a m = do {
     b \<leftarrow> blocks m a;
     let (c, m) = new_Block_view (bk_buffer b) (bk_data b) (bk_length b) (bk_capacity b) m;
     m \<leftarrow> Block_Ref c m;
     Some (c, m)
   }"

text \<open>
  The copy constructor copies a clone member by member, links included, and leaves the clone
  allocated.
\<close>

definition Block_copy :: "nat \<Rightarrow> store \<Rightarrow> (nat \<times> store) option" where
  "Block_copy a m = do {
     (c, m) \<leftarrow> Block_Clone a m;
     b \<leftarrow> blocks m c;
     Some (next_block m, m\<lparr>blocks := (blocks m)(next_block m \<mapsto> b), next_block := next_block m + 1\<rparr>)
   }"

definition Block_Append :: "nat \<Rightarrow> u64 \<Rightarrow> store \<Rightarrow> store option" where
  "Block_Append a n m = do {
     b \<leftarrow> blocks m a;
     if bk_length b + n \<le> bk_capacity b then upd_block a (\<lambda>b. b\<lparr>bk_length := bk_length b + n\<rparr>) m else None
   }"

definition Block_Space :: "Block \<Rightarrow> u64" where
  "Block_Space b = bk_capacity b - (of_nat (bk_data b) + bk_length b)"

definition Block_tail :: "Block \<Rightarrow> nat \<times> nat" where
  "Block_tail b = (bk_buffer b, bk_data b + unat (bk_length b))"

definition Block_ToString :: "Block \<Rightarrow> store \<Rightarrow> bytes option" where
  "Block_ToString b m =
    those (map (\<lambda>j. read_byte (bk_buffer b, bk_data b + j) m) [0..<unat (bk_length b)])"

section \<open>The ring of an IOBuf\<close>

definition IOBuf_Append_block :: "nat \<Rightarrow> IOBuf \<Rightarrow> store \<Rightarrow> (IOBuf \<times> store) option" where
  "IOBuf_Append_block a io m = do {
     b \<leftarrow> blocks m a;
     let io = io\<lparr>io_length := io_length io + bk_length b\<rparr>;
     (case io_head io of
        None \<Rightarrow> Some (io\<lparr>io_head := Some a\<rparr>, m)
      | Some h \<Rightarrow> do {
          hb \<leftarrow> blocks m h;
          let rear = bk_prev hb;
          rb \<leftarrow> blocks m rear;
          m \<leftarrow> upd_block (bk_next rb) (bk_prev_update (\<lambda>_. a)) m;
          rb \<leftarrow> blocks m rear;
          m \<leftarrow> upd_block a (\<lambda>b. b\<lparr>bk_next := bk_next rb, bk_prev := rear\<rparr>) m;
          m \<leftarrow> upd_block rear (bk_next_update (\<lambda>_. a)) m;
          Some (io, m)
        })
   }"

text \<open>\<open>Pop\<close> takes the first block out of the ring and hands it to the caller.\<close>

definition IOBuf_Pop :: "IOBuf \<Rightarrow> store \<Rightarrow> (ptr \<times> IOBuf \<times> store) option" where
  "IOBuf_Pop io m =
    (case io_head io of
       None \<Rightarrow> Some (None, io, m)
     | Some h \<Rightarrow> do {
         hb \<leftarrow> blocks m h;
         let io = io\<lparr>io_length := io_length io - bk_length hb\<rparr>;
         if bk_prev hb = h then Some (Some h, io\<lparr>io_head := None\<rparr>, m)
         else do {
           let rear = bk_prev hb;
           let new_head = bk_next hb;
           m \<leftarrow> upd_block rear (bk_next_update (\<lambda>_. new_head)) m;
           m \<leftarrow> upd_block new_head (bk_prev_update (\<lambda>_. rear)) m;
           m \<leftarrow> upd_block h (\<lambda>b. b\<lparr>bk_next := h, bk_prev := h\<rparr>) m;
           Some (Some h, io\<lparr>io_head := Some new_head\<rparr>, m)
         }
       })"

definition IOBuf_drop_first :: "IOBuf \<Rightarrow> store \<Rightarrow> (IOBuf \<times> store) option" where
  "IOBuf_drop_first io m = do {
     (p, io, m) \<leftarrow> IOBuf_Pop io m;
     (case p of None \<Rightarrow> Some (io, m) | Some a \<Rightarrow> do { m \<leftarrow> delete_Block a m; Some (io, m) })
   }"

partial_function (option) IOBuf_destroy :: "IOBuf \<Rightarrow> store \<Rightarrow> (IOBuf \<times> store) option" where
  "IOBuf_destroy io m =
    (if io_head io = None then Some (io, m)
     else do { (io, m) \<leftarrow> IOBuf_drop_first io m; IOBuf_destroy io m })"

definition IOBuf_PreAllocate :: "IOBuf \<Rightarrow> store \<Rightarrow> ((nat \<times> nat) \<times> u64 \<times> IOBuf \<times> store) option" where
  "IOBuf_PreAllocate io m =
    (case io_head io of
       None \<Rightarrow> do {
         let (a, m) = new_Block m;
         b \<leftarrow> blocks m a;
         Some ((bk_buffer b, 0), bk_capacity b, io\<lparr>io_head := Some a\<rparr>, m)
       }
     | Some h \<Rightarrow> do {
         hb \<leftarrow> blocks m h;
         rb \<leftarrow> blocks m (bk_prev hb);
         if Block_Space rb > 0 then Some (Block_tail rb, Block_Space rb, io, m)
         else do {
           let (a, m) = new_Block m;
           b \<leftarrow> blocks m a;
           (io, m) \<leftarrow> IOBuf_Append_block a io m;
           Some ((bk_buffer b, 0), bk_capacity b, io, m)
         }
       })"

definition IOBuf_PostAllocate :: "u64 \<Rightarrow> IOBuf \<Rightarrow> store \<Rightarrow> (IOBuf \<times> store) option" where
  "IOBuf_PostAllocate n io m = do {
     h \<leftarrow> io_head io;
     hb \<leftarrow> blocks m h;
     m \<leftarrow> Block_Append (bk_prev hb) n m;
     Some (io\<lparr>io_length := io_length io + n\<rparr>, m)
   }"

section \<open>Operations\<close>

text \<open>The loop of \<open>Append(data, size)\<close>: \<open>data\<close> is not advanced between the rounds.\<close>

partial_function (option) append_loop :: "bytes \<Rightarrow> u64 \<Rightarrow> u64 \<Rightarrow> IOBuf \<Rightarrow> store \<Rightarrow> (IOBuf \<times> store) option" where
  "append_loop data n remain io m =
    (if remain = 0 then Some (io, m)
     else do {
       (p, avail, io, m) \<leftarrow> IOBuf_PreAllocate io m;
       let copy_size = min avail n;
       src \<leftarrow> read_bytes data 0 (unat copy_size);
       m \<leftarrow> write_mem p src m;
       (io, m) \<leftarrow> IOBuf_PostAllocate copy_size io m;
       append_loop data n (remain - copy_size) io m
     })"

definition IOBuf_Append :: "bytes \<Rightarrow> u64 \<Rightarrow> IOBuf \<Rightarrow> store \<Rightarrow> (IOBuf \<times> store) option" where
  "IOBuf_Append data n io m = append_loop data n n io m"

partial_function (option) byte_loop :: "nat \<Rightarrow> nat \<Rightarrow> u64 \<Rightarrow> store \<Rightarrow> u8 option" where
  "byte_loop h a i m =
    (case blocks m a of
       None \<Rightarrow> None
     | Some b \<Rightarrow>
         if i < bk_length b then read_byte (bk_buffer b, bk_data b + unat i) m
         else if bk_next b = h then Some (-1)
         else byte_loop h (bk_next b) (i - bk_length b) m)"

definition IOBuf_ByteAt :: "u64 \<Rightarrow> IOBuf \<Rightarrow> store \<Rightarrow> u8 option" where
  "IOBuf_ByteAt i io m =
    (if i < io_length io
     then (case io_head io of None \<Rightarrow> Some (-1) | Some h \<Rightarrow> byte_loop h h i m)
     else None)"

definition IOBuf_data :: "IOBuf \<Rightarrow> store \<Rightarrow> (nat \<times> nat) option option" where
  "IOBuf_data io m =
    (case io_head io of
       None \<Rightarrow> Some None
     | Some h \<Rightarrow> do { hb \<leftarrow> blocks m h; rb \<leftarrow> blocks m (bk_prev hb); Some (Some (bk_buffer rb, bk_data rb)) })"

definition IOBuf_tail :: "IOBuf \<Rightarrow> store \<Rightarrow> (nat \<times> nat) option option" where
  "IOBuf_tail io m =
    (case io_head io of
       None \<Rightarrow> Some None
     | Some h \<Rightarrow> do { hb \<leftarrow> blocks m h; rb \<leftarrow> blocks m (bk_prev hb); Some (Some (Block_tail rb)) })"

partial_function (option) IOBuf_TrimStart :: "u64 \<Rightarrow> IOBuf \<Rightarrow> store \<Rightarrow> (IOBuf \<times> store) option" where
  "IOBuf_TrimStart amount io m =
    (if amount = 0 then Some (io, m)
     else case io_head io of
       None \<Rightarrow> Some (io, m)
     | Some h \<Rightarrow> do {
         hb \<leftarrow> blocks m h;
         if bk_length hb > amount
         then do { m \<leftarrow> Block_TrimStart h amount m; Some (io\<lparr>io_length := io_length io - amount\<rparr>, m) }
         else do {
           (io, m) \<leftarrow> IOBuf_drop_first io m;
           IOBuf_TrimStart (amount - bk_length hb) io m
         }
       })"

partial_function (option) IOBuf_TrimEnd :: "u64 \<Rightarrow> IOBuf \<Rightarrow> store \<Rightarrow> (IOBuf \<times> store) option" where
  "IOBuf_TrimEnd amount io m =
    (if amount = 0 then Some (io, m)
     else case io_head io of
       None \<Rightarrow> Some (io, m)
     | Some h \<Rightarrow> do {
         hb \<leftarrow> blocks m h;
         let rear = bk_prev hb;
         rb \<leftarrow> blocks m rear;
         if bk_length rb > amount
         then do { m \<leftarrow> Block_TrimEnd rear amount m; Some (io\<lparr>io_length := io_length io - amount\<rparr>, m) }
         else do {
           let io = io\<lparr>io_length := io_length io - bk_length rb\<rparr>;
           (io, m) \<leftarrow>
             (if rear = h then do { m \<leftarrow> delete_Block h m; Some (io\<lparr>io_head := None\<rparr>, m) }
              else do {
                m \<leftarrow> upd_block (bk_prev rb) (bk_next_update (\<lambda>_. bk_next rb)) m;
                rb \<leftarrow> blocks m rear;
                m \<leftarrow> upd_block (bk_next rb) (bk_prev_update (\<lambda>_. bk_prev rb)) m;
                m \<leftarrow> delete_Block rear m;
                Some (io, m)
              });
           IOBuf_TrimEnd (amount - bk_length rb) io m
         }
       })"

partial_function (option) split_loop ::
    "u64 \<Rightarrow> IOBuf \<Rightarrow> IOBuf \<Rightarrow> store \<Rightarrow> (IOBuf \<times> IOBuf \<times> store) option" where
  "split_loop n buf io m =
    (if n = 0 then Some (buf, io, m)
     else case io_head io of
       None \<Rightarrow> Some (buf, io, m)
     | Some h \<Rightarrow> do {
         hb \<leftarrow> blocks m h;
         if bk_length hb \<le> n then do {
           (p, io, m) \<leftarrow> IOBuf_Pop io m;
           a \<leftarrow> p;
           (buf, m) \<leftarrow> IOBuf_Append_block a buf m;
           split_loop (n - bk_length hb) buf io m
         }
         else do {
           (c, m) \<leftarrow> Block_Clone h m;
           cb \<leftarrow> blocks m c;
           m \<leftarrow> Block_TrimEnd c (bk_length cb - n) m;
           (buf, m) \<leftarrow> IOBuf_Append_block c buf m;
           m \<leftarrow> Block_TrimStart h n m;
           Some (buf, io\<lparr>io_length := io_length io - n\<rparr>, m)
         }
       })"

definition IOBuf_Split :: "u64 \<Rightarrow> IOBuf \<Rightarrow> store \<Rightarrow> (IOBuf \<times> IOBuf \<times> store) option" where
  "IOBuf_Split n io m = split_loop n new_IOBuf io m"

partial_function (option) string_loop :: "nat \<Rightarrow> nat \<Rightarrow> bytes \<Rightarrow> store \<Rightarrow> bytes option" where
  "string_loop h a acc m = do {
     b \<leftarrow> blocks m a;
     s \<leftarrow> Block_ToString b m;
     if bk_next b = h then Some (acc @ s) else string_loop h (bk_next b) (acc @ s) m
   }"

definition IOBuf_ToString :: "IOBuf \<Rightarrow> store \<Rightarrow> bytes option" where
  "IOBuf_ToString io m = (case io_head io of None \<Rightarrow> Some [] | Some h \<Rightarrow> string_loop h h [] m)"

partial_function (option) count_loop :: "nat \<Rightarrow> nat \<Rightarrow> nat \<Rightarrow> store \<Rightarrow> nat option" where
  "count_loop h a count m =
    (if a = h then Some count
     else do { b \<leftarrow> blocks m a; count_loop h (bk_next b) (count + 1) m })"

definition IOBuf_BlockCount :: "IOBuf \<Rightarrow> store \<Rightarrow> nat option" where
  "IOBuf_BlockCount io m =
    (case io_head io of
       None \<Rightarrow> Some 0
     | Some h \<Rightarrow> do { hb \<leftarrow> blocks m h; count_loop h (bk_next hb) 1 m })"

declare IOBuf_destroy.simps [code] append_loop.simps [code] byte_loop.simps [code] IOBuf_TrimStart.simps [code]
  IOBuf_TrimEnd.simps [code] split_loop.simps [code] string_loop.simps [code] count_loop.simps [code]

section \<open>Split shares memory\<close>

definition new_store :: store where
  "new_store = \<lparr>blocks = Map.empty, buffers = Map.empty, next_block = 0, next_buffer = 0\<rparr>"

text \<open>
  After \<open>Split\<close> inside a block both parts share the memory of that block, and the first
  part still offers the rest of it as free space: what is appended to the first part
  overwrites the second.
\<close>

theorem split_then_append_overwrites:
  "(do { (io, m) \<leftarrow> IOBuf_Append [97, 98, 99, 100] 4 new_IOBuf new_store;
         (front, io, m) \<leftarrow> IOBuf_Split 2 io m;
         before \<leftarrow> IOBuf_ToString io m;
         (front, m) \<leftarrow> IOBuf_Append [120, 121] 2 front m;
         after \<leftarrow> IOBuf_ToString io m;
         whole \<leftarrow> IOBuf_ToString front m;
         Some (before, after, whole) }) =
    Some ([99, 100], [120, 121], [97, 98, 120, 121])"
  by code_simp

end
