(* ===== verification/Iobuf_Inv.thy ===== *)
theory Iobuf_Inv
  imports Iobuf
begin

text \<open>
  The invariant of the block store and what a ring of blocks stands for: every block lies
  inside a live memory buffer, every memory buffer is counted by the blocks that use it, and
  the text of an IOBuf is the text of its blocks in ring order. One lemma per primitive
  step says what it does to these views.
\<close>

section \<open>Views of the store\<close>

definition bnx :: "store \<Rightarrow> links" where "bnx m a = map_option bk_next (blocks m a)"

definition bpv :: "store \<Rightarrow> links" where "bpv m a = map_option bk_prev (blocks m a)"

definition bdata :: "store \<Rightarrow> nat \<Rightarrow> (nat \<times> nat \<times> u64 \<times> u64) option" where
  "bdata m a = map_option (\<lambda>b. (bk_buffer b, bk_data b, bk_length b, bk_capacity b)) (blocks m a)"

definition capacity :: nat where "capacity = 524284"

lemma capacity_word: "unat (kDefaultBufferSize - sizeof_SharedInfo) = capacity"
  "uint (kDefaultBufferSize - sizeof_SharedInfo) = int capacity"
  by (simp_all add: kDefaultBufferSize_def sizeof_SharedInfo_def capacity_def)

definition users :: "store \<Rightarrow> nat \<Rightarrow> nat set" where
  "users m i = {a. map_option fst (bdata m a) = Some i}"

definition block_ok :: "store \<Rightarrow> nat \<times> nat \<times> u64 \<times> u64 \<Rightarrow> bool" where
  "block_ok m x = (case x of (i, d, l, c) \<Rightarrow>
     buffers m i \<noteq> None \<and> d + unat l \<le> capacity \<and> c = kDefaultBufferSize - sizeof_SharedInfo)"

definition store_ok :: "store \<Rightarrow> bool" where
  "store_ok m \<longleftrightarrow>
     (\<forall>a x. bdata m a = Some x \<longrightarrow> block_ok m x \<and> a < next_block m) \<and>
     (\<forall>i B. buffers m i = Some B \<longrightarrow>
        i < next_buffer m \<and> users m i \<noteq> {} \<and> refcount B = int (card (users m i)))"

definition block_text :: "store \<Rightarrow> nat \<Rightarrow> u8 option list" where
  "block_text m a = (case bdata m a of
     None \<Rightarrow> []
   | Some (i, d, l, c) \<Rightarrow> map (\<lambda>j. read_byte (i, d + j) m) [0..<unat l])"

definition io_text :: "store \<Rightarrow> nat list \<Rightarrow> u8 option list" where
  "io_text m bs = concat (map (block_text m) bs)"

definition io_inv :: "store \<Rightarrow> IOBuf \<Rightarrow> nat list \<Rightarrow> bool" where
  "io_inv m io bs \<longleftrightarrow>
     (case bs of [] \<Rightarrow> io_head io = None
      | b # bs \<Rightarrow> io_head io = Some b \<and> ring (bnx m) (bpv m) b bs) \<and>
     io_length io = of_nat (length (io_text m bs))"

text \<open>What holds of the blocks outside \<open>S\<close> when an operation works on the blocks in \<open>S\<close>.\<close>

definition keeps :: "nat set \<Rightarrow> store \<Rightarrow> store \<Rightarrow> bool" where
  "keeps S m m' \<longleftrightarrow> (\<forall>a. a \<notin> S \<longrightarrow> bdata m a \<noteq> None \<longrightarrow>
     bdata m' a = bdata m a \<and> bnx m' a = bnx m a \<and> bpv m' a = bpv m a \<and> block_text m' a = block_text m a)"

text \<open>The blocks in \<open>D\<close> are gone, and no memory has gained a user.\<close>

definition shrinks :: "nat set \<Rightarrow> store \<Rightarrow> store \<Rightarrow> bool" where
  "shrinks D m m' \<longleftrightarrow> dom (bdata m') = dom (bdata m) - D \<and> (\<forall>i. users m' i \<subseteq> users m i)"

lemma shrinks_refl: "shrinks {} m m"
  by (simp add: shrinks_def)

lemma shrinks_trans: "shrinks D m m1 \<Longrightarrow> shrinks E m1 m2 \<Longrightarrow> shrinks (D \<union> E) m m2"
  unfolding shrinks_def by blast

lemma io_inv_Nil [simp]: "io_inv m io [] \<longleftrightarrow> io_head io = None \<and> io_length io = 0"
  by (simp add: io_inv_def io_text_def)

lemma io_inv_Cons: "io_inv m io (b # bs) \<longleftrightarrow>
    io_head io = Some b \<and> ring (bnx m) (bpv m) b bs \<and> io_length io = of_nat (length (io_text m (b # bs)))"
  by (simp add: io_inv_def)

lemma io_text_simps [simp]: "io_text m [] = []" "io_text m (b # bs) = block_text m b @ io_text m bs"
  "io_text m (bs @ cs) = io_text m bs @ io_text m cs"
  by (simp_all add: io_text_def)

lemma keeps_refl: "keeps S m m"
  by (simp add: keeps_def)

lemma keeps_trans: "keeps S m m' \<Longrightarrow> keeps T m' m'' \<Longrightarrow> keeps (S \<union> T) m m''"
  by (simp add: keeps_def)

lemma keeps_mono: "keeps S m m' \<Longrightarrow> S \<subseteq> T \<Longrightarrow> keeps T m m'"
  by (auto simp: keeps_def)

lemma keeps_text:
  assumes "keeps S m m'" "set bs \<inter> S = {}" "\<And>a. a \<in> set bs \<Longrightarrow> bdata m a \<noteq> None"
  shows "io_text m' bs = io_text m bs"
proof -
  have "map (block_text m') bs = map (block_text m) bs" using assms by (auto simp: keeps_def)
  then show ?thesis unfolding io_text_def by (rule arg_cong)
qed

lemma keeps_ring:
  assumes "keeps S m m'" "set (b # bs) \<inter> S = {}" "\<And>a. a \<in> set (b # bs) \<Longrightarrow> bdata m a \<noteq> None"
  shows "ring (bnx m') (bpv m') b bs \<longleftrightarrow> ring (bnx m) (bpv m) b bs"
  by (rule ring_cong) (use assms in \<open>auto simp: keeps_def\<close>)

lemma bring_live:
  assumes "ring (bnx m) (bpv m) a xs" and "b \<in> set (a # xs)"
  shows "bdata m b \<noteq> None"
proof -
  have "path (bnx m) (bpv m) a xs c \<Longrightarrow> b \<in> set (a # xs) \<Longrightarrow> bdata m b \<noteq> None" for c
    by (induction xs arbitrary: a) (auto simp: bnx_def bdata_def)
  with assms show ?thesis unfolding ring_def by blast
qed

lemma io_inv_live: "io_inv m io bs \<Longrightarrow> b \<in> set bs \<Longrightarrow> bdata m b \<noteq> None"
  by (cases bs) (auto simp: io_inv_Cons dest: bring_live)

lemma bdata_SomeD:
  assumes "bdata m a = Some (i, d, l, c)"
  obtains b where "blocks m a = Some b" "bk_buffer b = i" "bk_data b = d" "bk_length b = l" "bk_capacity b = c"
  using assms by (auto simp: bdata_def)

lemma block_text_length: "bdata m a = Some (i, d, l, c) \<Longrightarrow> length (block_text m a) = unat l"
  by (simp add: block_text_def)

section \<open>Links\<close>

text \<open>An update of links alone.\<close>

definition same_data :: "store \<Rightarrow> store \<Rightarrow> bool" where
  "same_data m m' \<longleftrightarrow> bdata m' = bdata m \<and> buffers m' = buffers m \<and>
     next_block m' = next_block m \<and> next_buffer m' = next_buffer m"

lemma same_data_refl: "same_data m m"
  by (simp add: same_data_def)

lemma same_data_trans: "same_data m m' \<Longrightarrow> same_data m' m'' \<Longrightarrow> same_data m m''"
  by (simp add: same_data_def)

lemma same_data_text: "same_data m m' \<Longrightarrow> block_text m' = block_text m"
  by (rule ext) (simp add: same_data_def block_text_def read_byte_def split: option.splits)

lemma same_data_io_text: "same_data m m' \<Longrightarrow> io_text m' bs = io_text m bs"
  by (simp add: io_text_def same_data_text)

lemma same_data_ok: "same_data m m' \<Longrightarrow> store_ok m' \<longleftrightarrow> store_ok m"
  by (simp add: same_data_def store_ok_def block_ok_def users_def)

lemma upd_next:
  assumes "bdata m a \<noteq> None"
  obtains m' where "upd_block a (bk_next_update (\<lambda>_. v)) m = Some m'" "bnx m' = (bnx m)(a := Some v)"
    "bpv m' = bpv m" "same_data m m'"
proof -
  from assms obtain b where b: "blocks m a = Some b" by (auto simp: bdata_def)
  show thesis
    by (rule that [of "m\<lparr>blocks := (blocks m)(a \<mapsto> b\<lparr>bk_next := v\<rparr>)\<rparr>"])
      (use b in \<open>auto simp: upd_block_def bnx_def bpv_def bdata_def same_data_def fun_eq_iff\<close>)
qed

lemma upd_prev:
  assumes "bdata m a \<noteq> None"
  obtains m' where "upd_block a (bk_prev_update (\<lambda>_. v)) m = Some m'" "bpv m' = (bpv m)(a := Some v)"
    "bnx m' = bnx m" "same_data m m'"
proof -
  from assms obtain b where b: "blocks m a = Some b" by (auto simp: bdata_def)
  show thesis
    by (rule that [of "m\<lparr>blocks := (blocks m)(a \<mapsto> b\<lparr>bk_prev := v\<rparr>)\<rparr>"])
      (use b in \<open>auto simp: upd_block_def bnx_def bpv_def bdata_def same_data_def fun_eq_iff\<close>)
qed

lemma upd_both:
  assumes "bdata m a \<noteq> None"
  obtains m' where "upd_block a (\<lambda>b. b\<lparr>bk_next := v, bk_prev := w\<rparr>) m = Some m'" "bnx m' = (bnx m)(a := Some v)"
    "bpv m' = (bpv m)(a := Some w)" "same_data m m'"
proof -
  from assms obtain b where b: "blocks m a = Some b" by (auto simp: bdata_def)
  show thesis
    by (rule that [of "m\<lparr>blocks := (blocks m)(a \<mapsto> b\<lparr>bk_next := v, bk_prev := w\<rparr>)\<rparr>"])
      (use b in \<open>auto simp: upd_block_def bnx_def bpv_def bdata_def same_data_def fun_eq_iff\<close>)
qed

lemma blocks_bdata: "blocks m a = Some b \<Longrightarrow> bdata m a = Some (bk_buffer b, bk_data b, bk_length b, bk_capacity b)"
  by (simp add: bdata_def)

lemma bnxD: "blocks m a = Some b \<Longrightarrow> bnx m a = Some x \<Longrightarrow> bk_next b = x"
  by (simp add: bnx_def)

lemma bpvD: "blocks m a = Some b \<Longrightarrow> bpv m a = Some x \<Longrightarrow> bk_prev b = x"
  by (simp add: bpv_def)

text \<open>An update of the links of the blocks in \<open>S\<close> keeps everything outside \<open>S\<close>.\<close>

lemma same_data_keeps:
  assumes "same_data m m'" and "\<And>a. a \<notin> S \<Longrightarrow> bnx m' a = bnx m a" and "\<And>a. a \<notin> S \<Longrightarrow> bpv m' a = bpv m a"
  shows "keeps S m m'"
  using assms same_data_text [OF assms(1)] by (simp add: keeps_def same_data_def)

lemma same_data_shrinks: "same_data m m' \<Longrightarrow> shrinks {} m m'"
  by (simp add: same_data_def shrinks_def users_def)

section \<open>Reference counts\<close>

lemma users_finite: "store_ok m \<Longrightarrow> finite (users m i)"
proof -
  assume "store_ok m"
  then have "users m i \<subseteq> {..<next_block m}" by (auto simp: store_ok_def users_def)
  then show ?thesis using finite_subset by blast
qed

lemma in_users: "bdata m a = Some (i, d, l, c) \<Longrightarrow> a \<in> users m j \<longleftrightarrow> j = i"
  by (auto simp: users_def)

lemma store_blockD: "store_ok m \<Longrightarrow> bdata m a = Some x \<Longrightarrow> block_ok m x \<and> a < next_block m"
  unfolding store_ok_def by blast

lemma store_bufferD: "store_ok m \<Longrightarrow> buffers m i = Some B \<Longrightarrow>
    i < next_buffer m \<and> users m i \<noteq> {} \<and> refcount B = int (card (users m i))"
  unfolding store_ok_def by blast

lemma users_live:
  assumes "store_ok m" and "a \<in> users m i"
  shows "buffers m i \<noteq> None"
proof -
  from assms(2) obtain y where "bdata m a = Some (i, y)" by (auto simp: users_def)
  with assms(1) have "block_ok m (i, y)" unfolding store_ok_def by blast
  then show ?thesis by (cases y) (auto simp: block_ok_def)
qed

lemma store_okD:
  assumes "store_ok m" and "bdata m a = Some (i, d, l, c)"
  obtains B where "buffers m i = Some B" "refcount B = int (card (users m i))" "d + unat l \<le> capacity"
    "c = kDefaultBufferSize - sizeof_SharedInfo" "a < next_block m" "i < next_buffer m"
proof -
  from assms have "block_ok m (i, d, l, c)" "a < next_block m" unfolding store_ok_def by blast+
  then obtain B where "buffers m i = Some B" "d + unat l \<le> capacity" "c = kDefaultBufferSize - sizeof_SharedInfo"
    by (auto simp: block_ok_def)
  with assms(1) \<open>a < next_block m\<close> show thesis by (intro that [of B]) (auto simp: store_ok_def)
qed

text \<open>Deleting a block: its memory goes with its last user, the other blocks keep their text.\<close>

lemma delete_block:
  assumes ok: "store_ok m" and a: "bdata m a = Some (i, d, l, c)"
  obtains m' where "delete_Block a m = Some m'" "store_ok m'" "keeps {a} m m'" "shrinks {a} m m'"
proof -
  from a obtain b where b: "blocks m a = Some b" "bk_buffer b = i" by (rule bdata_SomeD)
  from ok a obtain B where B: "buffers m i = Some B" "refcount B = int (card (users m i))" by (rule store_okD)
  define m' where "m' = m\<lparr>buffers := (buffers m)(i := if refcount B > 1 then Some (B\<lparr>refcount := refcount B - 1\<rparr>) else None),
    blocks := (blocks m)(a := None)\<rparr>"
  have del: "delete_Block a m = Some m'"
    using b B(1) by (simp add: delete_Block_def Block_Unref_def m'_def)
  have bd: "bdata m' x = (if x = a then None else bdata m x)" for x by (simp add: bdata_def m'_def)
  have us: "users m' j = users m j - {a}" for j by (auto simp: users_def bd)
  have au: "a \<in> users m i" using in_users [OF a] by simp
  have fin: "finite (users m j)" for j by (rule users_finite [OF ok])
  have live: "refcount B > 1" if "x \<in> users m i" "x \<noteq> a" for x
  proof -
    have "card {a, x} \<le> card (users m i)" using au that fin by (intro card_mono) auto
    then show ?thesis using that B(2) by simp
  qed
  have other: "map_option contents (buffers m' j) = map_option contents (buffers m j)"
    if "bdata m x = Some (j, y)" "x \<noteq> a" for x j y
  proof -
    have "x \<in> users m j" using that(1) by (cases y rule: prod_cases3) (simp add: users_def)
    then show ?thesis using live [of x] that(2) B(1) by (cases "j = i") (simp_all add: m'_def)
  qed
  have kept: "block_text m' x = block_text m x" if "x \<noteq> a" "bdata m x = Some y" for x y
  proof -
    obtain j d' l' c' where y: "y = (j, d', l', c')" by (cases y) auto
    from that y other [of x j "(d', l', c')"] have "map_option contents (buffers m' j) = map_option contents (buffers m j)" by simp
    then have "read_byte (j, k) m' = read_byte (j, k) m" for k
      by (auto simp: read_byte_def split: option.splits)
    with that y bd show ?thesis by (simp add: block_text_def)
  qed
  have "store_ok m'"
    unfolding store_ok_def
  proof (intro conjI allI impI)
    fix x y assume y: "bdata m' x = Some y"
    then have x: "x \<noteq> a" "bdata m x = Some y" by (simp_all add: bd split: if_splits)
    obtain j d' l' c' where [simp]: "y = (j, d', l', c')" by (cases y) auto
    from ok x(2) have "block_ok m y" and lt: "x < next_block m" by (auto simp: store_ok_def)
    moreover from other [of x j "(d', l', c')"] x have "buffers m' j = None \<longleftrightarrow> buffers m j = None"
      by (auto split: option.splits)
    ultimately show "block_ok m' y" by (cases "buffers m' j") (auto simp: block_ok_def)
    show "x < next_block m'" using lt by (simp add: m'_def)
  next
    fix j C assume C: "buffers m' j = Some C"
    have "j < next_buffer m \<and> users m' j \<noteq> {} \<and> refcount C = int (card (users m' j))"
    proof (cases "j = i")
      case True
      from C True have r: "refcount B > 1" "refcount C = refcount B - 1"
        by (auto simp: m'_def split: if_splits)
      have "int (card (users m' i)) = int (card (users m i)) - 1"
        using au fin r(1) B(2) by (simp add: us card_Diff_singleton of_nat_diff)
      moreover have "users m' i \<noteq> {}"
        using calculation r(1) B(2) by (intro notI) simp
      ultimately show ?thesis using True r B ok by (auto simp: store_ok_def)
    next
      case False
      then have "a \<notin> users m j" using in_users [OF a] by simp
      then have "users m' j = users m j" using us by simp
      moreover from False C have "buffers m j = Some C" by (simp add: m'_def)
      moreover have "next_buffer m' = next_buffer m" by (simp add: m'_def)
      ultimately show ?thesis using store_bufferD [OF ok] by simp
    qed
    then show "j < next_buffer m'" "users m' j \<noteq> {}" "refcount C = int (card (users m' j))"
      by (simp_all add: m'_def)
  qed
  moreover have "keeps {a} m m'"
    using kept by (auto simp: keeps_def bd) (auto simp: bnx_def bpv_def m'_def)
  moreover have "shrinks {a} m m'" unfolding shrinks_def us by (auto simp: bd dom_def)
  ultimately show thesis by (rule that [OF del])
qed

text \<open>A new block: the only user of a new buffer, a ring of its own, without text.\<close>

definition only_new :: "store \<Rightarrow> store \<Rightarrow> bool" where
  "only_new m m' \<longleftrightarrow> (\<forall>i. users m' i = users m i \<or> users m' i = {next_block m})"

lemma fresh_ids: "store_ok m \<Longrightarrow> bdata m (next_block m) = None" "store_ok m \<Longrightarrow> buffers m (next_buffer m) = None"
  unfolding store_ok_def by (metis less_irrefl option.exhaust)+

lemma keeps_fresh:
  assumes "store_ok m" and "\<And>x. x \<noteq> next_block m \<Longrightarrow> blocks m' x = blocks m x"
    and "\<And>i. i \<noteq> next_buffer m \<Longrightarrow> map_option contents (buffers m' i) = map_option contents (buffers m i)"
  shows "keeps {} m m'"
  unfolding keeps_def
proof (intro allI impI)
  fix x assume "bdata m x \<noteq> None"
  then obtain i d l c where x: "bdata m x = Some (i, d, l, c)" by (metis option.exhaust prod_cases4)
  from x fresh_ids(1) [OF assms(1)] have b: "blocks m' x = blocks m x" by (intro assms(2)) auto
  from assms(1) x have "i < next_buffer m" by (rule store_okD)
  then have "map_option contents (buffers m' i) = map_option contents (buffers m i)" by (intro assms(3)) simp
  then have "read_byte (i, k) m' = read_byte (i, k) m" for k by (auto simp: read_byte_def split: option.splits)
  moreover from b have "bdata m' x = bdata m x" by (simp add: bdata_def)
  ultimately have "block_text m' x = block_text m x" using x by (simp add: block_text_def)
  with b show "bdata m' x = bdata m x \<and> bnx m' x = bnx m x \<and> bpv m' x = bpv m x \<and> block_text m' x = block_text m x"
    by (simp add: bdata_def bnx_def bpv_def)
qed

lemma new_block:
  assumes ok: "store_ok m"
  obtains m' i where "new_Block m = (next_block m, m')" "store_ok m'" "keeps {} m m'"
    "bdata m' (next_block m) = Some (i, 0, 0, kDefaultBufferSize - sizeof_SharedInfo)"
    "bnx m' (next_block m) = Some (next_block m)" "bpv m' (next_block m) = Some (next_block m)"
    "users m' i = {next_block m}" "only_new m m'" "dom (bdata m') = insert (next_block m) (dom (bdata m))"
proof -
  define a i c where "a = next_block m" and "i = next_buffer m" and "c = kDefaultBufferSize - sizeof_SharedInfo"
  define m' where "m' = snd (new_Block m)"
  note defs = m'_def new_Block_def Let_def
  have bl: "blocks m' x = (if x = a then Some \<lparr>bk_buffer = i, bk_data = 0, bk_length = 0, bk_capacity = c, bk_next = a, bk_prev = a\<rparr> else blocks m x)"
    and bu: "buffers m' j = (if j = i then Some \<lparr>contents = (\<lambda>_. None), refcount = 1\<rparr> else buffers m j)" for x j
    by (simp_all add: defs a_def i_def c_def)
  have nb: "next_block m' = a + 1" "next_buffer m' = i + 1" by (simp_all add: defs a_def i_def)
  have bd: "bdata m' x = (if x = a then Some (i, 0, 0, c) else bdata m x)" for x by (simp add: bdata_def bl)
  have fa: "bdata m a = None" and fi: "buffers m i = None" using fresh_ids [OF ok] by (simp_all add: a_def i_def)
  have us: "users m' j = (if j = i then {a} else users m j)" for j
  proof -
    have "users m i = {}" using users_live [OF ok] fi by blast
    then show ?thesis using fa by (auto simp: users_def bd)
  qed
  have "store_ok m'"
    unfolding store_ok_def
  proof (intro conjI allI impI)
    fix x y assume "bdata m' x = Some y"
    then have "x = a \<and> y = (i, 0, 0, c) \<or> bdata m x = Some y" by (auto simp: bd split: if_splits)
    then have "block_ok m' y \<and> x < next_block m'"
      using store_blockD [OF ok, of x y] fi by (auto simp: block_ok_def bu nb c_def a_def)
    then show "block_ok m' y" "x < next_block m'" by simp_all
  next
    fix j B assume B: "buffers m' j = Some B"
    then have "j = i \<and> refcount B = 1 \<or> j \<noteq> i \<and> buffers m j = Some B" by (auto simp: bu split: if_splits)
    then have "j < next_buffer m' \<and> users m' j \<noteq> {} \<and> refcount B = int (card (users m' j))"
      using store_bufferD [OF ok, of j B] by (auto simp: us nb i_def)
    then show "j < next_buffer m'" "users m' j \<noteq> {}" "refcount B = int (card (users m' j))" by simp_all
  qed
  moreover have "keeps {} m m'" by (rule keeps_fresh [OF ok]) (simp_all add: bl bu a_def i_def)
  moreover have "new_Block m = (next_block m, m')" by (simp add: defs)
  moreover have "bnx m' a = Some a" "bpv m' a = Some a" by (simp_all add: bnx_def bpv_def bl)
  moreover have "only_new m m'" by (simp add: only_new_def us a_def)
  moreover have "dom (bdata m') = insert a (dom (bdata m))" by (auto simp: bd dom_def)
  ultimately show thesis using that [of m' i] bd us by (simp add: a_def c_def)
qed

section \<open>Trimming and cloning a block\<close>

lemma users_same_buffer:
  assumes "\<And>x. map_option fst (bdata m' x) = map_option fst (bdata m x)"
  shows "users m' = users m"
  by (rule ext) (simp add: users_def assms)

lemma upd_extent:
  assumes ok: "store_ok m" and a: "bdata m a = Some (i, d, l, c)" and d': "d' + unat l' \<le> capacity"
    and f: "\<And>b. bk_data b = d \<Longrightarrow> bk_length b = l \<Longrightarrow> f b = b\<lparr>bk_data := d', bk_length := l'\<rparr>"
  obtains m' where "upd_block a f m = Some m'" "store_ok m'" "keeps {a} m m'" "bnx m' = bnx m" "bpv m' = bpv m"
    "bdata m' a = Some (i, d', l', c)" "buffers m' = buffers m" "users m' = users m" "dom (bdata m') = dom (bdata m)"
proof -
  from a obtain b where b: "blocks m a = Some b" "bk_buffer b = i" "bk_data b = d" "bk_length b = l" "bk_capacity b = c"
    by (rule bdata_SomeD)
  define m' where "m' = m\<lparr>blocks := (blocks m)(a \<mapsto> b\<lparr>bk_data := d', bk_length := l'\<rparr>)\<rparr>"
  have u: "upd_block a f m = Some m'" using b f by (simp add: upd_block_def m'_def)
  have bd: "bdata m' x = (if x = a then Some (i, d', l', c) else bdata m x)" for x
    using b by (simp add: bdata_def m'_def)
  have nx: "bnx m' = bnx m" and pv: "bpv m' = bpv m" using b by (auto simp: bnx_def bpv_def m'_def fun_eq_iff)
  have bu: "buffers m' = buffers m" and nb: "next_block m' = next_block m" "next_buffer m' = next_buffer m"
    by (simp_all add: m'_def)
  have us: "users m' = users m" by (rule users_same_buffer) (use a in \<open>simp add: bd\<close>)
  have "store_ok m'"
    unfolding store_ok_def
  proof (intro conjI allI impI)
    fix x y assume "bdata m' x = Some y"
    then have "x = a \<and> y = (i, d', l', c) \<or> bdata m x = Some y" by (auto simp: bd split: if_splits)
    then have "block_ok m' y \<and> x < next_block m'"
      using store_blockD [OF ok, of x y] store_blockD [OF ok a] d' by (auto simp: block_ok_def bu nb)
    then show "block_ok m' y" "x < next_block m'" by simp_all
  next
    fix j B assume "buffers m' j = Some B"
    then show "j < next_buffer m'" "users m' j \<noteq> {}" "refcount B = int (card (users m' j))"
      using store_bufferD [OF ok, of j B] by (simp_all add: bu nb us)
  qed
  moreover have "keeps {a} m m'"
    by (auto simp: keeps_def bd nx pv block_text_def read_byte_def bu split: option.splits)
  moreover have "dom (bdata m') = dom (bdata m)" using a by (auto simp: bd dom_def)
  ultimately show thesis by (intro that [OF u]) (simp_all add: bd nx pv bu us)
qed

lemma block_text_upt: "bdata m a = Some (i, d, l, c) \<Longrightarrow> block_text m a = map (\<lambda>j. read_byte (i, j) m) [d..<d + unat l]"
  by (auto simp: block_text_def intro!: nth_equalityI)

lemma block_trim_start:
  assumes ok: "store_ok m" and a: "bdata m a = Some (i, d, l, c)" and n: "n \<le> l"
  obtains m' where "Block_TrimStart a n m = Some m'" "store_ok m'" "keeps {a} m m'" "bnx m' = bnx m" "bpv m' = bpv m"
    "bdata m' a = Some (i, d + unat n, l - n, c)" "block_text m' a = drop (unat n) (block_text m a)" "users m' = users m"
    "shrinks {} m m'"
proof -
  from ok a obtain "d + unat l \<le> capacity" by (rule store_okD)
  then have "d + unat n + unat (l - n) \<le> capacity" using n by (simp add: unat_sub word_le_nat_alt)
  from ok a this obtain m' where m': "upd_block a (\<lambda>b. b\<lparr>bk_data := bk_data b + unat n, bk_length := bk_length b - n\<rparr>) m = Some m'"
    "store_ok m'" "keeps {a} m m'" "bnx m' = bnx m" "bpv m' = bpv m" "bdata m' a = Some (i, d + unat n, l - n, c)"
    "buffers m' = buffers m" "users m' = users m" "dom (bdata m') = dom (bdata m)"
    by (rule upd_extent [where f = "\<lambda>b. b\<lparr>bk_data := bk_data b + unat n, bk_length := bk_length b - n\<rparr>"]) auto
  from a obtain b where b: "blocks m a = Some b" "bk_length b = l" by (rule bdata_SomeD)
  have "unat n \<le> unat l" using n by (simp add: word_le_nat_alt)
  then have "block_text m' a = drop (unat n) (block_text m a)"
    using block_text_upt [OF a] block_text_upt [OF m'(6)] n
    by (simp add: drop_map unat_sub read_byte_def m'(7))
  with m' b n show thesis by (intro that [of m']) (simp_all add: Block_TrimStart_def shrinks_def)
qed

lemma block_trim_end:
  assumes ok: "store_ok m" and a: "bdata m a = Some (i, d, l, c)" and n: "n \<le> l"
  obtains m' where "Block_TrimEnd a n m = Some m'" "store_ok m'" "keeps {a} m m'" "bnx m' = bnx m" "bpv m' = bpv m"
    "bdata m' a = Some (i, d, l - n, c)" "block_text m' a = take (unat (l - n)) (block_text m a)" "users m' = users m"
    "shrinks {} m m'"
proof -
  from ok a obtain "d + unat l \<le> capacity" by (rule store_okD)
  then have "d + unat (l - n) \<le> capacity" using n by (simp add: unat_sub word_le_nat_alt)
  from ok a this obtain m' where m': "upd_block a (\<lambda>b. b\<lparr>bk_length := bk_length b - n\<rparr>) m = Some m'"
    "store_ok m'" "keeps {a} m m'" "bnx m' = bnx m" "bpv m' = bpv m" "bdata m' a = Some (i, d, l - n, c)"
    "buffers m' = buffers m" "users m' = users m" "dom (bdata m') = dom (bdata m)"
    by (rule upd_extent [where f = "\<lambda>b. b\<lparr>bk_length := bk_length b - n\<rparr>"]) auto
  from a obtain b where b: "blocks m a = Some b" "bk_length b = l" by (rule bdata_SomeD)
  have "unat n \<le> unat l" using n by (simp add: word_le_nat_alt)
  then have "block_text m' a = take (unat (l - n)) (block_text m a)"
    using block_text_upt [OF a] block_text_upt [OF m'(6)] n
    by (simp add: take_map unat_sub read_byte_def m'(7))
  with m' b n show thesis by (intro that [of m']) (simp_all add: Block_TrimEnd_def shrinks_def)
qed

lemma block_clone:
  assumes ok: "store_ok m" and a: "bdata m a = Some (i, d, l, c)"
  obtains k m' where "Block_Clone a m = Some (k, m')" "store_ok m'" "keeps {} m m'" "bdata m k = None"
    "bdata m' k = Some (i, d, l, c)" "block_text m' k = block_text m a" "bnx m' k = Some k" "bpv m' k = Some k"
proof -
  from a obtain b where b: "blocks m a = Some b" "bk_buffer b = i" "bk_data b = d" "bk_length b = l" "bk_capacity b = c"
    by (rule bdata_SomeD)
  from ok a obtain B where B: "buffers m i = Some B" "refcount B = int (card (users m i))" by (rule store_okD)
  define k where "k = next_block m"
  define m' where "m' = m\<lparr>blocks := (blocks m)(k \<mapsto> \<lparr>bk_buffer = i, bk_data = d, bk_length = l, bk_capacity = c, bk_next = k, bk_prev = k\<rparr>),
    next_block := k + 1, buffers := (buffers m)(i \<mapsto> B\<lparr>refcount := refcount B + 1\<rparr>)\<rparr>"
  have cl: "Block_Clone a m = Some (k, m')"
    using b B by (simp add: Block_Clone_def new_Block_view_def Block_Ref_def k_def m'_def Let_def)
  have fk: "bdata m k = None" using fresh_ids [OF ok] by (simp add: k_def)
  have bd: "bdata m' x = (if x = k then Some (i, d, l, c) else bdata m x)" for x by (simp add: bdata_def m'_def)
  have bu: "buffers m' j = (if j = i then Some (B\<lparr>refcount := refcount B + 1\<rparr>) else buffers m j)" for j
    by (simp add: m'_def)
  have nb: "next_block m' = k + 1" "next_buffer m' = next_buffer m" by (simp_all add: m'_def)
  have us: "users m' j = (if j = i then insert k (users m j) else users m j)" for j
    using fk by (auto simp: users_def bd)
  have kn: "k \<notin> users m j" for j using fk by (simp add: users_def)
  have "store_ok m'"
    unfolding store_ok_def
  proof (intro conjI allI impI)
    fix x y assume "bdata m' x = Some y"
    then have "x = k \<and> y = (i, d, l, c) \<or> bdata m x = Some y" by (auto simp: bd split: if_splits)
    then have "block_ok m' y \<and> x < next_block m'"
      using store_blockD [OF ok, of x y] store_blockD [OF ok a] by (auto simp: block_ok_def bu nb k_def)
    then show "block_ok m' y" "x < next_block m'" by simp_all
  next
    fix j C assume C: "buffers m' j = Some C"
    have "j < next_buffer m' \<and> users m' j \<noteq> {} \<and> refcount C = int (card (users m' j))"
      using C store_bufferD [OF ok, of j] B kn users_finite [OF ok] by (auto simp: bu nb us split: if_splits)
    then show "j < next_buffer m'" "users m' j \<noteq> {}" "refcount C = int (card (users m' j))" by simp_all
  qed
  moreover have rb: "read_byte p m' = read_byte p m" for p using B by (simp add: read_byte_def bu)
  then have "keeps {} m m'"
    using fk by (auto simp: keeps_def bd block_text_def split: option.splits) (auto simp: bnx_def bpv_def bdata_def m'_def)
  moreover have "block_text m' k = block_text m a" using a by (simp add: block_text_def bd rb)
  moreover have "bnx m' k = Some k" "bpv m' k = Some k" by (simp_all add: bnx_def bpv_def m'_def)
  ultimately show thesis by (intro that [OF cl]) (simp_all add: bd fk)
qed

section \<open>Taking blocks out of the ring and putting them in\<close>

lemma of_nat_unat_length: "bdata m a = Some (i, d, l, c) \<Longrightarrow> of_nat (length (block_text m a)) = l"
  by (simp add: block_text_length)

lemma pop_block:
  assumes inv: "io_inv m io (b # bs)"
  obtains io' m' where "IOBuf_Pop io m = Some (Some b, io', m')" "same_data m m'" "keeps (set (b # bs)) m m'"
    "io_inv m' io' bs" "bnx m' b = Some b" "bpv m' b = Some b"
proof -
  from inv have h: "io_head io = Some b" and r: "ring (bnx m) (bpv m) b bs"
    and len: "io_length io = of_nat (length (io_text m (b # bs)))" by (simp_all add: io_inv_Cons)
  note live = bring_live [OF r]
  obtain B where B: "blocks m b = Some B" using live [of b] by (auto simp: bdata_def)
  note bd = blocks_bdata [OF B]
  have blen: "of_nat (length (block_text m b)) = bk_length B" using of_nat_unat_length [OF bd] .
  show thesis
  proof (cases bs)
    case Nil
    with r B have "bk_prev B = b" "bnx m b = Some b" "bpv m b = Some b" by (simp_all add: ring_single bpv_def)
    moreover from this have "IOBuf_Pop io m = Some (Some b, io\<lparr>io_length := io_length io - bk_length B, io_head := None\<rparr>, m)"
      using h B by (simp add: IOBuf_Pop_def Let_def)
    ultimately show thesis
      using len blen Nil by (intro that [of "io\<lparr>io_length := io_length io - bk_length B, io_head := None\<rparr>" m, OF _ same_data_refl keeps_refl]) simp_all
  next
    case (Cons c cs)
    define l where "l = last (c # cs)"
    have lr: "l \<in> set (b # bs)" "c \<in> set (b # bs)" "l \<noteq> b"
      using Cons ring_distinct [OF r] last_in_set [of "c # cs"] by (auto simp: l_def)
    have prev: "bk_prev B = l" using ring_last [OF r] B Cons by (simp add: bpv_def l_def)
    have nxt: "bk_next B = c" using ring_first [OF r] B Cons by (simp add: bnx_def)
    obtain m1 where m1: "upd_block l (bk_next_update (\<lambda>_. c)) m = Some m1" "bnx m1 = (bnx m)(l := Some c)"
      "bpv m1 = bpv m" "same_data m m1" by (rule upd_next [OF live [OF lr(1)]])
    have "bdata m1 c \<noteq> None" using m1(4) live [OF lr(2)] by (simp add: same_data_def)
    then obtain m2 where m2: "upd_block c (bk_prev_update (\<lambda>_. l)) m1 = Some m2" "bpv m2 = (bpv m1)(c := Some l)"
      "bnx m2 = bnx m1" "same_data m1 m2" by (rule upd_prev)
    have sd2: "same_data m m2" by (rule same_data_trans [OF m1(4) m2(4)])
    have "bdata m2 b \<noteq> None" using sd2 live [of b] by (simp add: same_data_def)
    then obtain m3 where m3: "upd_block b (\<lambda>x. x\<lparr>bk_next := b, bk_prev := b\<rparr>) m2 = Some m3"
      "bnx m3 = (bnx m2)(b := Some b)" "bpv m3 = (bpv m2)(b := Some b)" "same_data m2 m3" by (rule upd_both)
    have sd: "same_data m m3" by (rule same_data_trans [OF sd2 m3(4)])
    have "ring ((bnx m)(l := Some c)) ((bpv m)(c := Some l)) c cs"
      using ring_pop [of "bnx m" "bpv m" b c cs l] r Cons by (simp add: l_def)
    then have rg: "ring (bnx m3) (bpv m3) c cs"
      using ring_distinct [OF r] Cons by (subst ring_cong) (auto simp: m3 m2 m1)
    have pop: "IOBuf_Pop io m = Some (Some b, io\<lparr>io_length := io_length io - bk_length B, io_head := Some c\<rparr>, m3)"
      using h B prev nxt lr m1(1) m2(1) m3(1) by (simp add: IOBuf_Pop_def Let_def)
    have "io_inv m3 (io\<lparr>io_length := io_length io - bk_length B, io_head := Some c\<rparr>) bs"
      using rg len blen Cons by (simp add: io_inv_Cons same_data_io_text [OF sd] same_data_text [OF sd])
    moreover have "keeps (set (b # bs)) m m3"
      by (rule same_data_keeps [OF sd]) (use lr in \<open>auto simp: m3 m2 m1\<close>)
    ultimately show thesis by (intro that [OF pop sd]) (simp_all add: m3)
  qed
qed

lemma append_block:
  assumes inv: "io_inv m io bs" and a: "a \<notin> set bs" "bnx m a = Some a" "bpv m a = Some a"
  obtains io' m' where "IOBuf_Append_block a io m = Some (io', m')" "same_data m m'" "keeps (set (a # bs)) m m'"
    "io_inv m' io' (bs @ [a])"
proof -
  from a(2) obtain A where A: "blocks m a = Some A" by (auto simp: bnx_def)
  note ad = blocks_bdata [OF A]
  have alen: "of_nat (length (block_text m a)) = bk_length A" using of_nat_unat_length [OF ad] .
  show thesis
  proof (cases bs)
    case Nil
    with inv A a alen show thesis
      by (intro that [of "io\<lparr>io_length := io_length io + bk_length A, io_head := Some a\<rparr>" m, OF _ same_data_refl keeps_refl])
        (simp_all add: IOBuf_Append_block_def Let_def io_inv_Cons ring_single)
  next
    case (Cons h hs)
    with inv have h: "io_head io = Some h" and r: "ring (bnx m) (bpv m) h hs"
      and len: "io_length io = of_nat (length (io_text m bs))" by (simp_all add: io_inv_Cons)
    note live = bring_live [OF r]
    define l where "l = last (h # hs)"
    have ls: "l \<in> set (h # hs)" using last_in_set [of "h # hs"] by (simp add: l_def)
    have na: "a \<noteq> h" "a \<noteq> l" using a(1) ls Cons by auto
    obtain H where H: "blocks m h = Some H" using live [of h] by (auto simp: bdata_def)
    obtain L where L: "blocks m l = Some L" using live [OF ls] by (auto simp: bdata_def)
    have prev: "bk_prev H = l" using ring_last [OF r] H by (simp add: bpv_def l_def)
    have "bnx m l = Some h"
    proof (cases hs rule: rev_cases)
      case Nil
      with r show ?thesis by (simp add: l_def ring_single)
    next
      case (snoc us u)
      with ring_inner(2) [of "bnx m" "bpv m" h us u "[]"] r show ?thesis by (simp add: l_def)
    qed
    with L have nxt: "bk_next L = h" by (simp add: bnx_def)
    obtain m1 where m1: "upd_block h (bk_prev_update (\<lambda>_. a)) m = Some m1" "bpv m1 = (bpv m)(h := Some a)"
      "bnx m1 = bnx m" "same_data m m1" by (rule upd_prev) (use live [of h] in simp)
    obtain L1 where L1: "blocks m1 l = Some L1" "bk_next L1 = h"
      using m1(3) L nxt by (metis bnx_def bnxD map_option_eq_Some option.simps(9))
    have "bdata m1 a \<noteq> None" using m1(4) ad by (simp add: same_data_def)
    then obtain m2 where m2: "upd_block a (\<lambda>b. b\<lparr>bk_next := h, bk_prev := l\<rparr>) m1 = Some m2"
      "bnx m2 = (bnx m1)(a := Some h)" "bpv m2 = (bpv m1)(a := Some l)" "same_data m1 m2" by (rule upd_both)
    have sd2: "same_data m m2" by (rule same_data_trans [OF m1(4) m2(4)])
    have "bdata m2 l \<noteq> None" using sd2 live [OF ls] by (simp add: same_data_def)
    then obtain m3 where m3: "upd_block l (bk_next_update (\<lambda>_. a)) m2 = Some m3" "bnx m3 = (bnx m2)(l := Some a)"
      "bpv m3 = bpv m2" "same_data m2 m3" by (rule upd_next)
    have sd: "same_data m m3" by (rule same_data_trans [OF sd2 m3(4)])
    define io' where "io' = io\<lparr>io_length := io_length io + bk_length A\<rparr>"
    have app: "IOBuf_Append_block a io m = Some (io', m3)"
      using A h H L L1 prev nxt m1(1) m2(1) m3(1) by (simp add: IOBuf_Append_block_def Let_def io'_def)
    have "ring (bnx m3) (bpv m3) h (hs @ [a])"
      using ring_insert_last [OF r, of a l] a(1) Cons by (simp add: m3 m2 m1 l_def)
    then have "io_inv m3 io' (bs @ [a])"
      using h len alen Cons by (simp add: io_inv_Cons io'_def same_data_io_text [OF sd] same_data_text [OF sd])
    moreover have "keeps (set (a # bs)) m m3"
      by (rule same_data_keeps [OF sd]) (use ls Cons in \<open>auto simp: m3 m2 m1\<close>)
    ultimately show thesis by (rule that [OF app sd, rotated])
  qed
qed

text \<open>\<open>Pop\<close> and deletion of the block, the loop step of \<open>TrimStart\<close> and of the destructor.\<close>

lemma drop_first:
  assumes ok: "store_ok m" and inv: "io_inv m io (b # bs)"
  obtains io' m' where "IOBuf_drop_first io m = Some (io', m')" "store_ok m'" "keeps (set (b # bs)) m m'"
    "io_inv m' io' bs" "io_text m' bs = io_text m bs" "shrinks {b} m m'"
proof -
  from inv obtain io1 m1 where p: "IOBuf_Pop io m = Some (Some b, io1, m1)" and sd: "same_data m m1"
    and k1: "keeps (set (b # bs)) m m1" and inv1: "io_inv m1 io1 bs" by (rule pop_block)
  have ok1: "store_ok m1" using same_data_ok [OF sd] ok by simp
  have "bdata m1 b \<noteq> None" using io_inv_live [OF inv, of b] sd by (simp add: same_data_def)
  then obtain i d l c where "bdata m1 b = Some (i, d, l, c)" by (metis option.exhaust prod_cases4)
  with ok1 obtain m2 where m2: "delete_Block b m1 = Some m2" "store_ok m2" "keeps {b} m1 m2" "shrinks {b} m1 m2"
    by (rule delete_block)
  have b: "b \<notin> set bs" using inv ring_distinct by (fastforce simp: io_inv_Cons)
  have live: "\<And>a. a \<in> set bs \<Longrightarrow> bdata m1 a \<noteq> None" using io_inv_live [OF inv1] .
  have tx: "io_text m2 bs = io_text m1 bs" by (rule keeps_text [OF m2(3)]) (use b live in auto)
  have "io_inv m2 io1 bs"
  proof (cases bs)
    case (Cons c cs)
    have "ring (bnx m2) (bpv m2) c cs \<longleftrightarrow> ring (bnx m1) (bpv m1) c cs"
      by (rule keeps_ring [OF m2(3)]) (use b live Cons in auto)
    with inv1 tx Cons show ?thesis by (simp add: io_inv_Cons)
  qed (use inv1 in simp)
  moreover have "keeps (set (b # bs)) m m2" using keeps_trans [OF k1 m2(3)] by (simp add: insert_absorb)
  moreover have "shrinks {b} m m2" using shrinks_trans [OF same_data_shrinks [OF sd] m2(4)] by simp
  ultimately show thesis
    using m2 tx same_data_io_text [OF sd] by (intro that [of io1 m2]) (simp_all add: IOBuf_drop_first_def p)
qed

end
