(* ===== verification/Iobuf_Ops.thy ===== *)
theory Iobuf_Ops
  imports Iobuf_Inv
begin

text \<open>
  What the operations of an IOBuf do to its text: trimming drops bytes at an end, splitting
  divides it, the readers return it, the destructor frees every block, and appending
  extends it as long as the data fits behind the last block.
\<close>

section \<open>Reading\<close>

text \<open>
  Two IOBufs with blocks of their own: \<open>io\<close> holds the text \<open>s\<close> and \<open>other\<close> the text \<open>t\<close>. A byte
  that was never written is unknown (\<open>None\<close>).
\<close>

definition iobufs_at :: "store \<Rightarrow> IOBuf \<Rightarrow> u8 option list \<Rightarrow> IOBuf \<Rightarrow> u8 option list \<Rightarrow> bool" where
  "iobufs_at m io s other t \<longleftrightarrow> store_ok m \<and>
     (\<exists>bs cs. io_inv m io bs \<and> io_inv m other cs \<and> set bs \<inter> set cs = {} \<and>
        s = io_text m bs \<and> t = io_text m cs)"

lemma iobufs_at_sym: "iobufs_at m io s other t \<Longrightarrow> iobufs_at m other t io s"
  unfolding iobufs_at_def by (metis inf_commute)

text \<open>An operation on the blocks of \<open>io\<close> keeps the other IOBuf.\<close>

lemma keeps_inv:
  assumes "keeps S m m'" and "io_inv m io cs" and "set cs \<inter> S = {}"
  shows "io_inv m' io cs \<and> io_text m' cs = io_text m cs"
proof -
  note live = io_inv_live [OF assms(2)]
  have t: "io_text m' cs = io_text m cs" by (rule keeps_text [OF assms(1,3) live])
  show ?thesis
  proof (cases cs)
    case (Cons c ds)
    have "ring (bnx m') (bpv m') c ds \<longleftrightarrow> ring (bnx m) (bpv m) c ds"
      by (rule keeps_ring [OF assms(1)]) (use assms(3) live Cons in auto)
    with assms(2) t Cons show ?thesis by (simp add: io_inv_Cons)
  qed (use assms(2) in simp)
qed

lemma those_append: "those (xs @ ys) = (case those xs of None \<Rightarrow> None | Some a \<Rightarrow> map_option ((@) a) (those ys))"
  by (cases "those ys"; induction xs) (auto split: option.splits)

lemma append_option: "map_option ((@) []) x = x" "map_option ((@) (xs @ ys)) x = map_option ((@) xs) (map_option ((@) ys) x)"
  by (cases x; simp)+

lemma Block_ToString_text: "blocks m a = Some b \<Longrightarrow> Block_ToString b m = those (block_text m a)"
  by (simp add: Block_ToString_def block_text_def bdata_def)

lemma string_loop_text:
  assumes "path (bnx m) (bpv m) a as h" and "h \<notin> set as"
  shows "string_loop h a acc m = map_option ((@) acc) (those (io_text m (a # as)))"
  using assms
proof (induction as arbitrary: a acc)
  case Nil
  then obtain b where b: "blocks m a = Some b" "bk_next b = h" by (auto simp: bnx_def)
  then show ?case
    by (subst string_loop.simps) (simp add: Block_ToString_text [OF b(1)] split: Option.bind_split option.splits)
next
  case (Cons c as)
  from Cons.prems obtain b where b: "blocks m a = Some b" "bk_next b = c" by (auto simp: bnx_def)
  from Cons.prems have IH: "string_loop h c acc' m = map_option ((@) acc') (those (io_text m (c # as)))" for acc'
    by (intro Cons.IH) auto
  have "c \<noteq> h" using Cons.prems by auto
  with b IH show ?case
    by (subst string_loop.simps)
      (cases "those (block_text m a)"; simp add: Block_ToString_text [OF b(1)] those_append append_option(2) del: append_assoc)
qed

lemma IOBuf_ToString_text:
  assumes "io_inv m io bs"
  shows "IOBuf_ToString io m = those (io_text m bs)"
proof (cases bs)
  case Nil
  with assms show ?thesis by (simp add: IOBuf_ToString_def)
next
  case (Cons b cs)
  with assms have "io_head io = Some b" "ring (bnx m) (bpv m) b cs" by (simp_all add: io_inv_Cons)
  then show ?thesis using Cons string_loop_text [of m b cs b "[]"]
    by (simp add: IOBuf_ToString_def ring_def append_option(1))
qed

lemma byte_loop_text:
  assumes "path (bnx m) (bpv m) a as h" and "h \<notin> set as" and "unat i < length (io_text m (a # as))"
  shows "byte_loop h a i m = io_text m (a # as) ! unat i"
  using assms
proof (induction as arbitrary: a i)
  case Nil
  then obtain b where b: "blocks m a = Some b" "bk_next b = h" by (auto simp: bnx_def)
  note bt = block_text_length [OF blocks_bdata [OF b(1)]]
  with Nil have "unat i < unat (bk_length b)" by simp
  then show ?case
    using b bt by (subst byte_loop.simps) (simp add: word_less_nat_alt block_text_def bdata_def)
next
  case (Cons c as)
  from Cons.prems obtain b where b: "blocks m a = Some b" "bk_next b = c" by (auto simp: bnx_def)
  note bt = block_text_length [OF blocks_bdata [OF b(1)]]
  have "c \<noteq> h" using Cons.prems by auto
  show ?case
  proof (cases "i < bk_length b")
    case True
    then show ?thesis
      using b bt by (subst byte_loop.simps) (simp add: word_less_nat_alt nth_append block_text_def bdata_def)
  next
    case False
    then have le: "unat (i - bk_length b) = unat i - unat (bk_length b)"
      by (simp add: unat_sub)
    have "unat (bk_length b) \<le> unat i" using False by (simp add: word_less_nat_alt)
    moreover from this have "byte_loop h c (i - bk_length b) m = io_text m (c # as) ! unat (i - bk_length b)"
      using Cons.prems le bt by (intro Cons.IH) auto
    ultimately show ?thesis
      using b bt \<open>c \<noteq> h\<close> False le by (subst byte_loop.simps) (simp add: nth_append)
  qed
qed

lemma IOBuf_ByteAt_text:
  assumes inv: "io_inv m io bs" and i: "i < io_length io"
  shows "IOBuf_ByteAt i io m = io_text m bs ! unat i"
proof -
  have "unat (io_length io) \<le> length (io_text m bs)"
    using inv by (cases bs) (simp_all only: io_inv_Cons io_inv_Nil unat_of_nat mod_less_eq_dividend unsigned_0 le0)
  then have lt: "unat i < length (io_text m bs)" using i by (simp add: word_less_nat_alt)
  with inv obtain b cs where bs: "bs = b # cs" by (cases bs) auto
  with inv have "io_head io = Some b" "ring (bnx m) (bpv m) b cs" by (simp_all add: io_inv_Cons)
  then show ?thesis using i lt byte_loop_text [of m b cs b i] by (simp add: IOBuf_ByteAt_def ring_def bs)
qed

lemma count_loop_ring:
  assumes "path (bnx m) (bpv m) a as h" and "h \<notin> set as" and "c = hd (as @ [h])"
  shows "count_loop h c k m = Some (k + length as)"
  using assms
proof (induction as arbitrary: a c k)
  case Nil
  then show ?case by (subst count_loop.simps) simp
next
  case (Cons d as)
  then obtain b where b: "blocks m d = Some b" "bk_next b = hd (as @ [h])"
    using path_first [of "bnx m" "bpv m" d as h] unfolding bnx_def by (auto simp: map_option_eq_Some)
  from Cons.prems b Cons.IH [of d "hd (as @ [h])" "k + 1"] show ?case
    by (subst count_loop.simps) auto
qed

lemma IOBuf_BlockCount_ring:
  assumes "io_inv m io bs"
  shows "IOBuf_BlockCount io m = Some (length bs)"
proof (cases bs)
  case Nil
  with assms show ?thesis by (simp add: IOBuf_BlockCount_def)
next
  case (Cons b cs)
  with assms have h: "io_head io = Some b" and r: "ring (bnx m) (bpv m) b cs" by (simp_all add: io_inv_Cons)
  from ring_first [OF r] obtain B where "blocks m b = Some B" "bk_next B = hd (cs @ [b])" by (auto simp: bnx_def)
  with h r Cons count_loop_ring [of m b cs b] show ?thesis by (simp add: IOBuf_BlockCount_def ring_def)
qed

section \<open>Trimming\<close>

lemma unat_trimmed: "\<not> n < l \<Longrightarrow> unat l \<le> unat n \<and> unat (n - l) = unat n - unat l" for n l :: u64
  by (simp add: unat_sub not_less word_le_nat_alt [symmetric])

lemma io_inv_hd: "bs = h # hs \<Longrightarrow> io_inv m io bs \<longleftrightarrow>
    io_head io = Some h \<and> ring (bnx m) (bpv m) h hs \<and> io_length io = of_nat (length (io_text m bs))"
  by (simp add: io_inv_def)

lemma unat_left: "n < l \<Longrightarrow> unat n < unat l \<and> unat (l - n) = unat l - unat n" for n l :: u64
  by (simp add: unat_sub less_imp_le word_less_nat_alt [symmetric])

lemma trim_start_loop:
  assumes "store_ok m" and "io_inv m io bs"
  shows "\<exists>io' m' bs'. IOBuf_TrimStart n io m = Some (io', m') \<and> store_ok m' \<and> io_inv m' io' bs' \<and>
    set bs' \<subseteq> set bs \<and> keeps (set bs) m m' \<and> shrinks (set bs - set bs') m m' \<and> io_text m' bs' = drop (unat n) (io_text m bs)"
  using assms
proof (induction bs arbitrary: n io m)
  case Nil
  then have "IOBuf_TrimStart n io m = Some (io, m)" by (subst IOBuf_TrimStart.simps) simp
  with Nil show ?case by (intro exI [of _ io] exI [of _ m] exI [of _ "[]"]) (simp add: keeps_refl shrinks_refl)
next
  case (Cons b bs)
  from Cons.prems(2) have h: "io_head io = Some b" and r: "ring (bnx m) (bpv m) b bs"
    and len: "io_length io = of_nat (length (io_text m (b # bs)))" by (simp_all add: io_inv_Cons)
  from io_inv_live [OF Cons.prems(2), of b] obtain i d l c where b: "bdata m b = Some (i, d, l, c)"
    by (auto intro: prod_cases4)
  from b obtain B where B: "blocks m b = Some B" "bk_length B = l" by (rule bdata_SomeD)
  note bt = block_text_length [OF b]
  have nb: "b \<notin> set bs" using ring_distinct [OF r] by simp
  consider "n = 0" | "n \<noteq> 0" "n < l" | "n \<noteq> 0" "\<not> n < l" by force
  then show ?case
  proof cases
    case 1
    then have "IOBuf_TrimStart n io m = Some (io, m)" by (subst IOBuf_TrimStart.simps) simp
    with 1 Cons.prems show ?thesis by (intro exI [of _ io] exI [of _ m] exI [of _ "b # bs"]) (simp add: keeps_refl shrinks_refl)
  next
    case 2
    then have "n \<le> l" by simp
    with Cons.prems(1) b obtain m' where m': "Block_TrimStart b n m = Some m'" "store_ok m'" "keeps {b} m m'"
      "bnx m' = bnx m" "bpv m' = bpv m" "block_text m' b = drop (unat n) (block_text m b)"
      "shrinks {} m m'" by (rule block_trim_start)
    have "io_text m' bs = io_text m bs"
      by (rule keeps_text [OF m'(3)]) (use nb io_inv_live [OF Cons.prems(2)] in auto)
    moreover have "unat n < unat l" using 2 by (simp add: word_less_nat_alt)
    moreover from this have "of_nat (unat l - unat n) = l - n" by (simp add: of_nat_diff)
    moreover have "IOBuf_TrimStart n io m = Some (io\<lparr>io_length := io_length io - n\<rparr>, m')"
      using 2 h B m'(1) by (subst IOBuf_TrimStart.simps) simp
    ultimately show ?thesis
      using m' r h bt len
      by (intro exI [of _ "io\<lparr>io_length := io_length io - n\<rparr>"] exI [of _ m'] exI [of _ "b # bs"])
        (auto simp: io_inv_Cons intro: keeps_mono)
  next
    case 3
    from Cons.prems obtain io1 m1 where d: "IOBuf_drop_first io m = Some (io1, m1)" "store_ok m1"
      "keeps (set (b # bs)) m m1" "io_inv m1 io1 bs" "io_text m1 bs = io_text m bs"
      "shrinks {b} m m1" by (rule drop_first)
    from Cons.IH [OF d(2,4), of "n - l"] obtain io' m' bs' where
      r': "IOBuf_TrimStart (n - l) io1 m1 = Some (io', m')" "store_ok m'" "io_inv m' io' bs'" "set bs' \<subseteq> set bs"
        "keeps (set bs) m1 m'" "io_text m' bs' = drop (unat (n - l)) (io_text m1 bs)" "shrinks (set bs - set bs') m1 m'" by blast
    have "{b} \<union> (set bs - set bs') = set (b # bs) - set bs'" using r'(4) nb by auto
    with shrinks_trans [OF d(6) r'(7)] have dm: "shrinks (set (b # bs) - set bs') m m'" by simp
    have "IOBuf_TrimStart n io m = Some (io', m')"
      using 3 h B d(1) r'(1) by (subst IOBuf_TrimStart.simps) simp
    moreover have "keeps (set (b # bs)) m m'"
      using keeps_trans [OF d(3) r'(5)] by (rule keeps_mono) auto
    moreover have "unat l \<le> unat n" "unat (n - l) = unat n - unat l" using unat_trimmed 3 by blast+
    ultimately show ?thesis using r'(2,3,4,6) d(5) bt dm by (intro exI [of _ io'] exI [of _ m'] exI [of _ bs']) auto
  qed
qed

text \<open>The loop step of \<open>TrimEnd\<close>: the last block is unlinked and deleted.\<close>

lemma unlink_last:
  assumes r: "ring (bnx m) (bpv m) h (us @ [y])" and y: "blocks m y = Some Y"
  obtains m1 m2 Y1 where "upd_block (bk_prev Y) (bk_next_update (\<lambda>_. bk_next Y)) m = Some m1"
    "blocks m1 y = Some Y1" "upd_block (bk_next Y1) (bk_prev_update (\<lambda>_. bk_prev Y1)) m1 = Some m2"
    "same_data m m2" "ring (bnx m2) (bpv m2) h us" "keeps (set (h # us @ [y])) m m2"
proof -
  define l where "l = last (h # us)"
  have l: "l \<in> set (h # us)" using last_in_set [of "h # us"] by (simp add: l_def)
  have yl: "y \<noteq> l" "y \<noteq> h" using ring_distinct [OF r] l by auto
  note live = bring_live [OF r]
  have Y: "bk_prev Y = l" "bk_next Y = h"
    using ring_inner [OF r] y by (simp_all add: bnx_def bpv_def l_def)
  have "bdata m l \<noteq> None" by (rule live) (use l in auto)
  then obtain m1 where m1: "upd_block l (bk_next_update (\<lambda>_. h)) m = Some m1" "bnx m1 = (bnx m)(l := Some h)"
    "bpv m1 = bpv m" "same_data m m1" by (rule upd_next)
  have "bnx m1 y = Some h" "bpv m1 y = Some l" using m1 yl y Y by (simp_all add: bnx_def bpv_def)
  then obtain Y1 where Y1: "blocks m1 y = Some Y1" "bk_next Y1 = h" "bk_prev Y1 = l"
    by (auto simp: bnx_def bpv_def)
  have "bdata m1 h \<noteq> None" using m1(4) live [of h] by (simp add: same_data_def)
  then obtain m2 where m2: "upd_block h (bk_prev_update (\<lambda>_. l)) m1 = Some m2" "bpv m2 = (bpv m1)(h := Some l)"
    "bnx m2 = bnx m1" "same_data m1 m2" by (rule upd_prev)
  have sd: "same_data m m2" by (rule same_data_trans [OF m1(4) m2(4)])
  moreover have "ring (bnx m2) (bpv m2) h us"
    using ring_unlink [OF r, of l h] by (simp add: m2 m1 l_def)
  moreover have "keeps (set (h # us @ [y])) m m2"
    by (rule same_data_keeps [OF sd]) (use l in \<open>auto simp: m2 m1\<close>)
  ultimately show thesis using m1(1) m2(1) Y Y1 by (intro that [of m1 Y1 m2]) simp_all
qed

text \<open>Deleting a block that is not in the ring of \<open>bs\<close>.\<close>

lemma delete_outside:
  assumes "store_ok m" and "io_inv m io bs" and "a \<notin> set bs" and "bdata m a \<noteq> None"
  obtains m' where "delete_Block a m = Some m'" "store_ok m'" "keeps {a} m m'" "io_inv m' io bs"
    "io_text m' bs = io_text m bs" "shrinks {a} m m'"
proof -
  from assms(4) obtain i d l c where "bdata m a = Some (i, d, l, c)" by (auto intro: prod_cases4)
  with assms(1) obtain m' where m': "delete_Block a m = Some m'" "store_ok m'" "keeps {a} m m'" "shrinks {a} m m'"
    by (rule delete_block)
  with keeps_inv [OF m'(3) assms(2)] assms(3) show thesis by (intro that [of m']) auto
qed

text \<open>The last block of a buffer, reached from the first one.\<close>

lemma last_block:
  assumes "io_inv m io (bs @ [y])"
  obtains h hs H where "bs @ [y] = h # hs" "io_head io = Some h" "ring (bnx m) (bpv m) h hs"
    "io_length io = of_nat (length (io_text m (bs @ [y])))" "blocks m h = Some H" "bk_prev H = y" "y \<notin> set bs"
proof -
  obtain h hs where hs: "bs @ [y] = h # hs" by (cases bs) auto
  with assms have h: "io_head io = Some h" and r: "ring (bnx m) (bpv m) h hs"
    and len: "io_length io = of_nat (length (io_text m (bs @ [y])))" by (simp_all add: io_inv_def)
  have y: "y = last (h # hs)" using hs by (metis last_snoc)
  have nb: "y \<notin> set bs" using ring_distinct [OF r] hs [symmetric] by simp
  from io_inv_live [OF assms, of h] hs obtain H where H: "blocks m h = Some H" by (auto simp: bdata_def)
  have "bk_prev H = y" using ring_last [OF r] H y by (simp add: bpv_def)
  with hs h r len H nb show thesis by (intro that)
qed

text \<open>A last block that is trimmed away as a whole is unlinked and deleted.\<close>

lemma trim_end_whole:
  assumes ok: "store_ok m" and inv: "io_inv m io (bs @ [y])" and b: "bdata m y = Some (i, d, l, c)"
    and n: "n \<noteq> 0" "\<not> n < l"
  obtains io2 m2 where "IOBuf_TrimEnd n io m = IOBuf_TrimEnd (n - l) io2 m2" "store_ok m2" "io_inv m2 io2 bs"
    "io_text m2 bs = io_text m bs" "keeps (set (bs @ [y])) m m2" "shrinks {y} m m2"
proof -
  obtain h hs H where hs: "bs @ [y] = h # hs" and h: "io_head io = Some h" and r: "ring (bnx m) (bpv m) h hs"
    and len: "io_length io = of_nat (length (io_text m (bs @ [y])))" and H: "blocks m h = Some H"
    and prev: "bk_prev H = y" and nb: "y \<notin> set bs" by (rule last_block [OF inv])
  from b obtain Y where Y: "blocks m y = Some Y" "bk_length Y = l" by (rule bdata_SomeD)
  note bt = block_text_length [OF b]
  define io1 where "io1 = io\<lparr>io_length := io_length io - bk_length Y\<rparr>"
  show thesis
  proof (cases bs)
    case Nil
    with hs have yh: "y = h" by simp
    from ok b obtain m1 where m1: "delete_Block y m = Some m1" "store_ok m1" "keeps {y} m m1" "shrinks {y} m m1"
      by (rule delete_block)
    have "IOBuf_TrimEnd n io m = IOBuf_TrimEnd (n - l) (io1\<lparr>io_head := None\<rparr>) m1"
      using n h H prev Y m1(1) yh by (subst IOBuf_TrimEnd.simps) (simp add: Let_def io1_def)
    with m1 Nil len bt Y show thesis
      by (intro that [of "io1\<lparr>io_head := None\<rparr>" m1]) (simp_all add: io1_def)
  next
    case (Cons h' us)
    with hs have bs: "bs = h # us" "hs = us @ [y]" by simp_all
    then have yh: "y \<noteq> h" using nb by auto
    from r bs have r': "ring (bnx m) (bpv m) h (us @ [y])" by simp
    from r' Y(1) obtain m1 m1' Y1 where u: "upd_block (bk_prev Y) (bk_next_update (\<lambda>_. bk_next Y)) m = Some m1"
      "blocks m1 y = Some Y1" "upd_block (bk_next Y1) (bk_prev_update (\<lambda>_. bk_prev Y1)) m1 = Some m1'"
      "same_data m m1'" "ring (bnx m1') (bpv m1') h us" "keeps (set (h # us @ [y])) m m1'"
      by (rule unlink_last)
    have "io_inv m1' io1 bs"
      using h u(5) len bt Y bs by (simp add: io_inv_Cons io1_def same_data_io_text [OF u(4)] same_data_text [OF u(4)])
    moreover have "store_ok m1'" using ok same_data_ok [OF u(4)] by simp
    moreover have "bdata m1' y \<noteq> None" using u(4) b by (simp add: same_data_def)
    ultimately obtain m2 where m2: "delete_Block y m1' = Some m2" "store_ok m2" "keeps {y} m1' m2" "io_inv m2 io1 bs"
      "io_text m2 bs = io_text m1' bs" "shrinks {y} m1' m2" using delete_outside nb by metis
    have "IOBuf_TrimEnd n io m = IOBuf_TrimEnd (n - l) io1 m2"
      using n h H prev Y m2(1) yh u(1-3) by (subst IOBuf_TrimEnd.simps) (simp add: Let_def io1_def)
    moreover have "keeps (set (bs @ [y])) m m2"
      using keeps_trans [OF u(6) m2(3)] by (rule keeps_mono) (auto simp: bs)
    moreover have "shrinks {y} m m2" using shrinks_trans [OF same_data_shrinks [OF u(4)] m2(6)] by simp
    ultimately show thesis using m2 same_data_io_text [OF u(4)] by (intro that [of io1 m2]) simp_all
  qed
qed

lemma trim_end_loop:
  assumes "store_ok m" and "io_inv m io bs"
  shows "\<exists>io' m' bs'. IOBuf_TrimEnd n io m = Some (io', m') \<and> store_ok m' \<and> io_inv m' io' bs' \<and>
    set bs' \<subseteq> set bs \<and> keeps (set bs) m m' \<and> shrinks (set bs - set bs') m m' \<and>
    io_text m' bs' = take (length (io_text m bs) - unat n) (io_text m bs)"
  using assms
proof (induction bs arbitrary: n io m rule: rev_induct)
  case Nil
  then have "IOBuf_TrimEnd n io m = Some (io, m)" by (subst IOBuf_TrimEnd.simps) simp
  with Nil show ?case by (intro exI [of _ io] exI [of _ m] exI [of _ "[]"]) (simp add: keeps_refl shrinks_refl)
next
  case (snoc y bs)
  obtain h hs H where hs: "bs @ [y] = h # hs" and h: "io_head io = Some h" and r: "ring (bnx m) (bpv m) h hs"
    and len: "io_length io = of_nat (length (io_text m (bs @ [y])))" and H: "blocks m h = Some H"
    and prev: "bk_prev H = y" and nb: "y \<notin> set bs" by (rule last_block [OF snoc.prems(2)])
  note live = io_inv_live [OF snoc.prems(2)]
  from live [of y] obtain i d l c where b: "bdata m y = Some (i, d, l, c)" by (auto intro: prod_cases4)
  from b obtain Y where Y: "blocks m y = Some Y" "bk_length Y = l" by (rule bdata_SomeD)
  note bt = block_text_length [OF b]
  consider "n = 0" | "n \<noteq> 0" "n < l" | "n \<noteq> 0" "\<not> n < l" by force
  then show ?case
  proof cases
    case 1
    then have "IOBuf_TrimEnd n io m = Some (io, m)" by (subst IOBuf_TrimEnd.simps) simp
    with 1 snoc.prems show ?thesis by (intro exI [of _ io] exI [of _ m] exI [of _ "bs @ [y]"]) (simp add: keeps_refl shrinks_refl)
  next
    case 2
    then have "n \<le> l" by simp
    with snoc.prems(1) b obtain m' where m': "Block_TrimEnd y n m = Some m'" "store_ok m'" "keeps {y} m m'"
      "bnx m' = bnx m" "bpv m' = bpv m" "block_text m' y = take (unat (l - n)) (block_text m y)"
      "shrinks {} m m'" by (rule block_trim_end)
    have bs: "io_text m' bs = io_text m bs" by (rule keeps_text [OF m'(3)]) (use nb live in auto)
    have nl: "unat n < unat l" "unat (l - n) = unat l - unat n" using unat_left 2 by blast+
    have "IOBuf_TrimEnd n io m = Some (io\<lparr>io_length := io_length io - n\<rparr>, m')"
      using 2 h H prev Y m'(1) by (subst IOBuf_TrimEnd.simps) (simp add: Let_def)
    moreover have "io_text m' (bs @ [y]) = take (length (io_text m (bs @ [y])) - unat n) (io_text m (bs @ [y]))"
      using bs m'(6) nl bt by simp
    moreover have "io_inv m' (io\<lparr>io_length := io_length io - n\<rparr>) (bs @ [y])"
      using h r m'(4,5,6) nl bt bs len by (simp add: io_inv_hd [OF hs] of_nat_diff)
    ultimately show ?thesis
      using m'(2,7) keeps_mono [OF m'(3), of "set (bs @ [y])"] by (intro exI conjI) auto
  next
    case 3
    have nl: "unat l \<le> unat n" "unat (n - l) = unat n - unat l" using unat_trimmed 3 by blast+
    obtain io2 m2 where step: "IOBuf_TrimEnd n io m = IOBuf_TrimEnd (n - l) io2 m2" and ok2: "store_ok m2"
      and inv2: "io_inv m2 io2 bs" and tx2: "io_text m2 bs = io_text m bs" and k2: "keeps (set (bs @ [y])) m m2"
      and dom2: "shrinks {y} m m2" by (rule trim_end_whole [OF snoc.prems b 3])
    from snoc.IH [OF ok2 inv2, of "n - l"] obtain io' m' bs' where
      r': "IOBuf_TrimEnd (n - l) io2 m2 = Some (io', m')" "store_ok m'" "io_inv m' io' bs'" "set bs' \<subseteq> set bs"
        "keeps (set bs) m2 m'" "io_text m' bs' = take (length (io_text m2 bs) - unat (n - l)) (io_text m2 bs)"
        "shrinks (set bs - set bs') m2 m'" by blast
    have "{y} \<union> (set bs - set bs') = set (bs @ [y]) - set bs'" using r'(4) nb by auto
    with shrinks_trans [OF dom2 r'(7)] have "shrinks (set (bs @ [y]) - set bs') m m'" by simp
    moreover have "keeps (set (bs @ [y])) m m'" using keeps_trans [OF k2 r'(5)] by (rule keeps_mono) auto
    ultimately show ?thesis using r'(1-4,6) step tx2 nl bt by (intro exI [of _ io'] exI [of _ m'] exI [of _ bs']) auto
  qed
qed

section \<open>Splitting\<close>

text \<open>The block in which the split position lies is cloned; the clone ends and the block begins there.\<close>

lemma split_inside:
  assumes ok: "store_ok m" and inv: "io_inv m io (b # bs)" and inv2: "io_inv m buf cs"
    and disj: "set (b # bs) \<inter> set cs = {}" and b: "bdata m b = Some (i, d, l, c)" and n: "n \<noteq> 0" "n < l"
  shows "\<exists>buf' io' m' bs' cs'. split_loop n buf io m = Some (buf', io', m') \<and> store_ok m' \<and>
    io_inv m' io' bs' \<and> io_inv m' buf' cs' \<and> set bs' \<inter> set cs' = {} \<and>
    io_text m' cs' = io_text m cs @ take (unat n) (io_text m (b # bs)) \<and> io_text m' bs' = drop (unat n) (io_text m (b # bs))"
proof -
  from inv have h: "io_head io = Some b" and r: "ring (bnx m) (bpv m) b bs" by (simp_all add: io_inv_Cons)
  from b obtain B where B: "blocks m b = Some B" "bk_length B = l" by (rule bdata_SomeD)
  note bt = block_text_length [OF b]
  have nb: "b \<notin> set bs" using ring_distinct [OF r] by simp
  note nl = unat_left [OF n(2)]
  from ok b obtain k m1 where k: "Block_Clone b m = Some (k, m1)" "store_ok m1" "keeps {} m m1"
    "bdata m k = None" "bdata m1 k = Some (i, d, l, c)" "block_text m1 k = block_text m b"
    "bnx m1 k = Some k" "bpv m1 k = Some k" by (rule block_clone)
  from k(5) obtain K where K: "blocks m1 k = Some K" "bk_length K = l" by (rule bdata_SomeD)
  have kn: "k \<notin> set (b # bs)" "k \<notin> set cs"
    using k(4) io_inv_live [OF inv] io_inv_live [OF inv2] by blast+
  have "l - n \<le> l" using n by (simp add: word_le_nat_alt nl)
  with k(2,5) obtain m2 where m2: "Block_TrimEnd k (l - n) m1 = Some m2" "store_ok m2" "keeps {k} m1 m2"
    "bnx m2 = bnx m1" "bpv m2 = bpv m1" "block_text m2 k = take (unat (l - (l - n))) (block_text m1 k)"
    by (rule block_trim_end)
  have k02: "keeps {k} m m2" using keeps_trans [OF k(3) m2(3)] by simp
  from keeps_inv [OF k02 inv] keeps_inv [OF k02 inv2] kn
  have i2: "io_inv m2 io (b # bs)" "io_text m2 (b # bs) = io_text m (b # bs)" "io_inv m2 buf cs" "io_text m2 cs = io_text m cs"
    by auto
  have "bnx m2 k = Some k" "bpv m2 k = Some k" using m2 k by simp_all
  with i2(3) kn(2) obtain buf' m3 where m3: "IOBuf_Append_block k buf m2 = Some (buf', m3)" "same_data m2 m3"
    "keeps (set (k # cs)) m2 m3" "io_inv m3 buf' (cs @ [k])" by (rule append_block)
  have ok3: "store_ok m3" using m2(2) same_data_ok [OF m3(2)] by simp
  have i3: "io_inv m3 io (b # bs)" "io_text m3 (b # bs) = io_text m (b # bs)"
    using keeps_inv [OF m3(3) i2(1)] kn disj i2(2) by auto
  have "bdata m2 b = bdata m b" using k02 b kn by (auto simp: keeps_def)
  then have b3: "bdata m3 b = Some (i, d, l, c)" using m3(2) b by (simp add: same_data_def)
  have "n \<le> l" using n by simp
  with ok3 b3 obtain m4 where m4: "Block_TrimStart b n m3 = Some m4" "store_ok m4" "keeps {b} m3 m4"
    "bnx m4 = bnx m3" "bpv m4 = bpv m3" "block_text m4 b = drop (unat n) (block_text m3 b)"
    by (rule block_trim_start)
  have f4: "io_inv m4 buf' (cs @ [k])" "io_text m4 (cs @ [k]) = io_text m3 (cs @ [k])"
    using keeps_inv [OF m4(3) m3(4)] disj kn by auto
  have t3: "io_text m3 (b # bs) = io_text m (b # bs)" by (rule i3(2))
  have b3t: "length (block_text m3 b) = unat l" "io_text m4 bs = io_text m3 bs"
    using block_text_length [OF b3] keeps_text [OF m4(3), of bs] nb io_inv_live [OF i3(1)] by auto
  have "io_inv m4 (io\<lparr>io_length := io_length io - n\<rparr>) (b # bs)"
    using i3(1) m4(4,5,6) b3t nl by (simp add: io_inv_Cons of_nat_diff)
  moreover have "io_text m4 (b # bs) = drop (unat n) (io_text m (b # bs))"
    using m4(6) b3t nl t3 [symmetric] by simp
  moreover have "io_text m4 (cs @ [k]) = io_text m cs @ take (unat n) (io_text m (b # bs))"
    using f4(2) i2(4) m2(6) k(6) nl bt by (simp add: same_data_io_text [OF m3(2)] same_data_text [OF m3(2)])
  moreover have "split_loop n buf io m = Some (buf', io\<lparr>io_length := io_length io - n\<rparr>, m4)"
    using n h B k(1) K m2(1) m3(1) m4(1) by (subst split_loop.simps) (simp add: not_le [symmetric])
  moreover have "set (b # bs) \<inter> set (cs @ [k]) = {}" using disj kn by auto
  ultimately show ?thesis using m4(2) f4(1) by blast

qed

lemma split_loop_parts:
  assumes "store_ok m" and "io_inv m io bs" and "io_inv m buf cs" and "set bs \<inter> set cs = {}"
  shows "\<exists>buf' io' m' bs' cs'. split_loop n buf io m = Some (buf', io', m') \<and> store_ok m' \<and>
    io_inv m' io' bs' \<and> io_inv m' buf' cs' \<and> set bs' \<inter> set cs' = {} \<and>
    io_text m' cs' = io_text m cs @ take (unat n) (io_text m bs) \<and> io_text m' bs' = drop (unat n) (io_text m bs)"
  using assms
proof (induction bs arbitrary: n io buf m cs)
  case Nil
  then have "split_loop n buf io m = Some (buf, io, m)" by (subst split_loop.simps) simp
  with Nil show ?case
    by (intro exI [of _ buf] exI [of _ io] exI [of _ m] exI [of _ "[]"] exI [of _ cs]) simp
next
  case (Cons b bs)
  from Cons.prems(2) have h: "io_head io = Some b" and r: "ring (bnx m) (bpv m) b bs"
    and len: "io_length io = of_nat (length (io_text m (b # bs)))" by (simp_all add: io_inv_Cons)
  from io_inv_live [OF Cons.prems(2), of b] obtain i d l c where b: "bdata m b = Some (i, d, l, c)"
    by (auto intro: prod_cases4)
  from b obtain B where B: "blocks m b = Some B" "bk_length B = l" by (rule bdata_SomeD)
  note bt = block_text_length [OF b]
  have nb: "b \<notin> set bs" using ring_distinct [OF r] by simp
  consider "n = 0" | "n \<noteq> 0" "n < l" | "n \<noteq> 0" "\<not> n < l" by force
  then show ?case
  proof cases
    case 1
    then have "split_loop n buf io m = Some (buf, io, m)" by (subst split_loop.simps) simp
    with 1 Cons.prems show ?thesis
      by (intro exI [of _ buf] exI [of _ io] exI [of _ m] exI [of _ "b # bs"] exI [of _ cs]) simp
  next
    case 2
    then show ?thesis using split_inside [OF Cons.prems b] by blast
  next
    case 3
    note nl = unat_trimmed [OF 3(2)]
    from Cons.prems(2) obtain io1 m1 where p: "IOBuf_Pop io m = Some (Some b, io1, m1)" "same_data m m1"
      "keeps (set (b # bs)) m m1" "io_inv m1 io1 bs" "bnx m1 b = Some b" "bpv m1 b = Some b" by (rule pop_block)
    have c1: "io_inv m1 buf cs" using keeps_inv [OF p(3) Cons.prems(3)] Cons.prems(4) by auto
    have "b \<notin> set cs" using Cons.prems(4) by auto
    with c1 obtain buf2 m2 where a: "IOBuf_Append_block b buf m1 = Some (buf2, m2)" "same_data m1 m2"
      "keeps (set (b # cs)) m1 m2" "io_inv m2 buf2 (cs @ [b])" using p(5,6) by (rule append_block)
    have sd: "same_data m m2" by (rule same_data_trans [OF p(2) a(2)])
    have i2: "io_inv m2 io1 bs" using keeps_inv [OF a(3) p(4)] nb Cons.prems(4) by auto
    have ok2: "store_ok m2" using Cons.prems(1) same_data_ok [OF sd] by simp
    have "set bs \<inter> set (cs @ [b]) = {}" using nb Cons.prems(4) by auto
    from Cons.IH [OF ok2 i2 a(4) this, of "n - l"] obtain buf' io' m' bs' cs' where r':
      "split_loop (n - l) buf2 io1 m2 = Some (buf', io', m')" "store_ok m'" "io_inv m' io' bs'" "io_inv m' buf' cs'"
      "set bs' \<inter> set cs' = {}" "io_text m' cs' = io_text m2 (cs @ [b]) @ take (unat (n - l)) (io_text m2 bs)"
      "io_text m' bs' = drop (unat (n - l)) (io_text m2 bs)" by blast
    have "split_loop n buf io m = Some (buf', io', m')"
      using 3 h B p(1) a(1) r'(1) by (subst split_loop.simps) (simp add: not_less [symmetric])
    moreover have "io_text m' cs' = io_text m cs @ take (unat n) (io_text m (b # bs))"
      using r'(6) nl bt by (simp add: same_data_io_text [OF sd] same_data_text [OF sd])
    moreover have "io_text m' bs' = drop (unat n) (io_text m (b # bs))"
      using r'(7) nl bt by (simp add: same_data_io_text [OF sd])
    ultimately show ?thesis using r' by blast
  qed
qed

end
