(* ===== verification/Iobuf_Append.thy ===== *)
theory Iobuf_Append
  imports Iobuf_Ops
begin

text \<open>
  Appending to an IOBuf: what one round of \<open>PreAllocate\<close>, \<open>memcpy\<close> and \<open>PostAllocate\<close> does, and
  what the loop around it makes of data that fits behind the last block and of data that
  does not.
\<close>

section \<open>Writing behind a block\<close>

lemma write_tail:
  assumes ok: "store_ok m" and b: "bdata m y = Some (i, d, l, c)" and us: "users m i = {y}"
    and fit: "d + unat l + length src \<le> capacity"
  obtains m' where "write_mem (i, d + unat l) src m = Some m'" "store_ok m'" "bdata m' = bdata m" "bnx m' = bnx m"
    "bpv m' = bpv m" "\<And>a. a \<noteq> y \<Longrightarrow> block_text m' a = block_text m a"
    "\<And>k. read_byte (i, k) m' = (if d + unat l \<le> k \<and> k < d + unat l + length src
       then Some (src ! (k - (d + unat l))) else read_byte (i, k) m)"
proof -
  from ok b obtain B where B: "buffers m i = Some B" by (rule store_okD)
  define C where "C = B\<lparr>contents := (\<lambda>j. if d + unat l \<le> j \<and> j < d + unat l + length src
    then Some (src ! (j - (d + unat l))) else contents B j)\<rparr>"
  define m' where "m' = m\<lparr>buffers := (buffers m)(i \<mapsto> C)\<rparr>"
  have w: "write_mem (i, d + unat l) src m = Some m'"
    using B of_nat_mono [OF fit, where 'a = int]
    by (simp add: write_mem_def capacity_word m'_def C_def del: of_nat_add)
  have same: "bdata m' = bdata m" "bnx m' = bnx m" "bpv m' = bpv m" "users m' = users m"
    "next_block m' = next_block m" "next_buffer m' = next_buffer m"
    by (simp_all add: m'_def bdata_def [abs_def] bnx_def [abs_def] bpv_def [abs_def] users_def [abs_def])
  have bu: "buffers m' j = (if j = i then Some C else buffers m j)" for j by (simp add: m'_def)
  have "store_ok m'"
    unfolding store_ok_def
  proof (intro conjI allI impI)
    fix a x assume "bdata m' a = Some x"
    then have "block_ok m x \<and> a < next_block m" using store_blockD [OF ok] by (simp add: same)
    then show "block_ok m' x" "a < next_block m'" by (auto simp: block_ok_def bu same)
  next
    fix j D assume "buffers m' j = Some D"
    then obtain D' where "buffers m j = Some D'" "refcount D = refcount D'"
      using B by (auto simp: bu C_def split: if_splits)
    then show "j < next_buffer m'" "users m' j \<noteq> {}" "refcount D = int (card (users m' j))"
      using store_bufferD [OF ok, of j D'] by (simp_all add: same)
  qed
  moreover have "block_text m' a = block_text m a" if "a \<noteq> y" for a
  proof (cases "bdata m a")
    case (Some x)
    obtain j d' l' c' where x: "x = (j, d', l', c')" by (cases x rule: prod_cases4)
    have "j \<noteq> i" using Some x us that by (auto simp: users_def)
    then show ?thesis by (simp add: block_text_def same read_byte_def bu Some x)
  qed (simp add: block_text_def same)
  moreover have "read_byte (i, k) m' = (if d + unat l \<le> k \<and> k < d + unat l + length src
       then Some (src ! (k - (d + unat l))) else read_byte (i, k) m)" for k
    using B by (simp add: read_byte_def bu C_def)
  ultimately show thesis using w same by (intro that [of m']) simp_all
qed

text \<open>\<open>memcpy\<close> to the tail of the last block followed by \<open>Block::Append\<close>.\<close>

lemma unat_add_fit: "unat l + k \<le> capacity \<Longrightarrow> unat (l + of_nat k) = unat l + k" for l :: u64
  by (simp add: unat_word_ariths unat_of_nat capacity_def)

lemma fill_block:
  assumes ok: "store_ok m" and b: "bdata m y = Some (i, d, l, c)" and us: "users m i = {y}"
    and fit: "d + unat l + length src \<le> capacity"
  obtains m1 m2 where "write_mem (i, d + unat l) src m = Some m1" "bpv m1 = bpv m"
    "Block_Append y (of_nat (length src)) m1 = Some m2" "store_ok m2" "bnx m2 = bnx m" "bpv m2 = bpv m"
    "bdata m2 y = Some (i, d, l + of_nat (length src), c)" "keeps {y} m m2" "users m2 = users m"
    "block_text m2 y = block_text m y @ map Some src" "dom (bdata m2) = dom (bdata m)"
proof -
  from assms obtain m1 where m1: "write_mem (i, d + unat l) src m = Some m1" "store_ok m1" "bdata m1 = bdata m"
    "bnx m1 = bnx m" "bpv m1 = bpv m" and t1: "\<And>a. a \<noteq> y \<Longrightarrow> block_text m1 a = block_text m a"
    and rd: "\<And>k. read_byte (i, k) m1 = (if d + unat l \<le> k \<and> k < d + unat l + length src
       then Some (src ! (k - (d + unat l))) else read_byte (i, k) m)" by (rule write_tail) blast
  have b1: "bdata m1 y = Some (i, d, l, c)" using b m1(3) by simp
  have ul: "unat (l + of_nat (length src)) = unat l + length src" using fit by (intro unat_add_fit) simp
  then have "d + unat (l + of_nat (length src)) \<le> capacity" using fit by simp
  from m1(2) b1 this obtain m2 where m2: "upd_block y (\<lambda>b. b\<lparr>bk_length := bk_length b + of_nat (length src)\<rparr>) m1 = Some m2"
    "store_ok m2" "keeps {y} m1 m2" "bnx m2 = bnx m1" "bpv m2 = bpv m1"
    "bdata m2 y = Some (i, d, l + of_nat (length src), c)" "buffers m2 = buffers m1" "users m2 = users m1"
    "dom (bdata m2) = dom (bdata m1)"
    by (rule upd_extent [where f = "\<lambda>b. b\<lparr>bk_length := bk_length b + of_nat (length src)\<rparr>"]) auto
  from b1 obtain Y where Y: "blocks m1 y = Some Y" "bk_length Y = l" "bk_capacity Y = c" by (rule bdata_SomeD)
  from ok b have "c = kDefaultBufferSize - sizeof_SharedInfo" by (rule store_okD)
  then have "l + of_nat (length src) \<le> c" using ul fit by (simp add: word_le_nat_alt capacity_word)
  then have ap: "Block_Append y (of_nat (length src)) m1 = Some m2" using Y m2(1) by (simp add: Block_Append_def)
  have "read_byte (i, k) m2 = read_byte (i, k) m1" for k using m2(7) by (simp add: read_byte_def)
  then have "block_text m2 y = map (\<lambda>j. read_byte (i, j) m1) ([d..<d + unat l] @ [d + unat l..<d + unat l + length src])"
    unfolding block_text_upt [OF m2(6)] ul using upt_add_eq_append [of d "d + unat l" "length src"]
    by (simp add: add.assoc)
  also have "\<dots> = block_text m y @ map Some src"
  proof -
    have "map (\<lambda>j. read_byte (i, j) m1) [d..<d + unat l] = block_text m y"
      unfolding block_text_upt [OF b] by (rule map_cong) (simp_all add: rd)
    moreover have "map (\<lambda>j. read_byte (i, j) m1) [d + unat l..<d + unat l + length src] = map Some src"
      by (rule nth_equalityI) (simp_all add: rd)
    ultimately show ?thesis by (simp only: map_append)
  qed
  finally have "block_text m2 y = block_text m y @ map Some src" .
  moreover have "keeps {y} m m2"
    using m2(3) t1 by (simp add: keeps_def m1)
  moreover have "users m1 = users m" by (rule users_same_buffer) (simp add: m1)
  ultimately show thesis using m1 m2 ap by (intro that [of m1 m2]) simp_all
qed

section \<open>One round of \<open>Append\<close>\<close>

text \<open>The bytes that \<open>PreAllocate\<close> offers, and the condition that no other block shares the
  memory of the last block.\<close>

definition rear_space :: "store \<Rightarrow> nat list \<Rightarrow> nat" where
  "rear_space m bs =
    (if bs = [] then capacity
     else case bdata m (last bs) of
       None \<Rightarrow> capacity
     | Some (i, d, l, c) \<Rightarrow> if d + unat l < capacity then capacity - (d + unat l) else capacity)"

definition rear_alone :: "store \<Rightarrow> nat list \<Rightarrow> bool" where
  "rear_alone m bs \<longleftrightarrow> (bs \<noteq> [] \<longrightarrow> (\<forall>i. last bs \<in> users m i \<longrightarrow> users m i = {last bs}))"

lemma rear_space_pos: "0 < rear_space m bs" and rear_space_le: "rear_space m bs \<le> capacity"
  by (auto simp: rear_space_def capacity_def split: option.splits)

lemma unat_of_nat_small: "k \<le> capacity \<Longrightarrow> unat (of_nat k :: u64) = k"
  by (simp add: unat_of_nat capacity_def)

lemma Block_Space_eq:
  assumes "store_ok m" and "blocks m y = Some Y"
  shows "Block_Space Y = of_nat (capacity - (bk_data Y + unat (bk_length Y)))"
proof -
  from assms(1) blocks_bdata [OF assms(2)] have le: "bk_data Y + unat (bk_length Y) \<le> capacity"
    and c: "bk_capacity Y = kDefaultBufferSize - sizeof_SharedInfo" by (rule store_okD; simp)+
  have "bk_capacity Y = of_nat capacity"
    unfolding c by (rule word_unat_eq_iff [THEN iffD2]) (simp add: capacity_word unat_of_nat_small)
  moreover have "of_nat (bk_data Y) + bk_length Y = of_nat (bk_data Y + unat (bk_length Y))" by simp
  ultimately show ?thesis unfolding Block_Space_def using le by (simp only: of_nat_diff)
qed

lemma keeps_new: "keeps (insert a S) m m' \<Longrightarrow> bdata m a = None \<Longrightarrow> keeps S m m'"
  unfolding keeps_def by (metis insertE)

lemma pre_allocate:
  assumes ok: "store_ok m" and inv: "io_inv m io bs" and alone: "rear_alone m bs"
  obtains io1 m1 us y i d l c where
    "IOBuf_PreAllocate io m = Some ((i, d + unat l), of_nat (rear_space m bs), io1, m1)"
    "store_ok m1" "io_inv m1 io1 (us @ [y])" "bdata m1 y = Some (i, d, l, c)" "users m1 i = {y}"
    "d + unat l + rear_space m bs = capacity" "io_text m1 (us @ [y]) = io_text m bs" "keeps (set bs) m m1"
    "set (us @ [y]) \<subseteq> insert (next_block m) (set bs)" "dom (bdata m1) = dom (bdata m) \<union> set (us @ [y])" "only_new m m1"
    "set bs \<subseteq> set (us @ [y])"
proof -
  define a where "a = next_block m"
  have fa: "bdata m a = None" using fresh_ids [OF ok] by (simp add: a_def)
  have sub: "set bs \<subseteq> dom (bdata m)" using io_inv_live [OF inv] by auto
  from ok obtain m1 i where n: "new_Block m = (a, m1)" "store_ok m1" "keeps {} m m1"
    "bdata m1 a = Some (i, 0, 0, kDefaultBufferSize - sizeof_SharedInfo)" "bnx m1 a = Some a" "bpv m1 a = Some a"
    "users m1 i = {a}" "only_new m m1" "dom (bdata m1) = insert a (dom (bdata m))" unfolding a_def by (rule new_block)
  from n(4) obtain A where A: "blocks m1 a = Some A" "bk_buffer A = i"
    "bk_capacity A = kDefaultBufferSize - sizeof_SharedInfo" "bk_length A = 0" by (rule bdata_SomeD)
  have cap: "bk_capacity A = of_nat capacity"
    unfolding A by (rule word_unat_eq_iff [THEN iffD2]) (simp add: capacity_word unat_of_nat_small)
  have ta: "block_text m1 a = []" using n(4) by (simp add: block_text_def)
  show thesis
  proof (cases "bs = []")
    case True
    with inv have "IOBuf_PreAllocate io m = Some ((i, 0 + unat (0 :: u64)), of_nat (rear_space m bs), io\<lparr>io_head := Some a\<rparr>, m1)"
      using n(1) A cap by (simp add: IOBuf_PreAllocate_def rear_space_def)
    moreover have "io_inv m1 (io\<lparr>io_head := Some a\<rparr>) ([] @ [a])"
      using inv True n(5,6) ta by (simp add: io_inv_Cons ring_single)
    moreover have "0 + unat (0 :: u64) + rear_space m bs = capacity" using True by (simp add: rear_space_def)
    ultimately show thesis
      by (rule that [OF _ n(2) _ n(4) n(7)]) (use True ta n(3,8,9) in \<open>auto simp: a_def\<close>)
  next
    case False
    then obtain h hs where hs: "bs = h # hs" by (cases bs) auto
    with inv have h: "io_head io = Some h" and r: "ring (bnx m) (bpv m) h hs" by (simp_all add: io_inv_Cons)
    define y where "y = last bs"
    obtain us where us: "bs = us @ [y]" using False by (metis append_butlast_last_id y_def)
    obtain H where H: "blocks m h = Some H" using bring_live [OF r, of h] by (auto simp: bdata_def)
    have prev: "bk_prev H = y" using ring_last [OF r] H hs by (simp add: bpv_def y_def)
    obtain Y where Y: "blocks m y = Some Y" using io_inv_live [OF inv, of y] us by (auto simp: bdata_def)
    note ybd = blocks_bdata [OF Y]
    from ok ybd have le: "bk_data Y + unat (bk_length Y) \<le> capacity" by (rule store_okD)
    note space = Block_Space_eq [OF ok Y]
    show thesis
    proof (cases "bk_data Y + unat (bk_length Y) < capacity")
      case True
      then have rs: "rear_space m bs = capacity - (bk_data Y + unat (bk_length Y))"
        using False ybd by (simp add: rear_space_def y_def)
      have "unat (Block_Space Y) = capacity - (bk_data Y + unat (bk_length Y))"
        unfolding space by (rule unat_of_nat_small) simp
      with True have "Block_Space Y > 0" by (simp add: word_less_nat_alt)
      then have pre: "IOBuf_PreAllocate io m = Some ((bk_buffer Y, bk_data Y + unat (bk_length Y)), of_nat (rear_space m bs), io, m)"
        using h H prev Y by (simp add: IOBuf_PreAllocate_def Block_tail_def) (simp add: space rs)
      have "users m (bk_buffer Y) = {y}" using alone in_users [OF ybd] us False by (simp add: rear_alone_def)
      then show thesis
        by (intro that [of "bk_buffer Y" "bk_data Y" "bk_length Y" io m us y "bk_capacity Y", OF pre ok _ ybd]) (use inv us rs le sub in \<open>auto simp: keeps_refl only_new_def\<close>)
    next
      case full: False
      then have rs: "rear_space m bs = capacity" using False ybd by (simp add: rear_space_def y_def)
      have "Block_Space Y = 0" using full space by simp
      have k: "io_inv m1 io bs" "io_text m1 bs = io_text m bs" using keeps_inv [OF n(3) inv] by auto
      have "a \<notin> set bs" using fa sub by auto
      with k(1) obtain io1 m2 where ap: "IOBuf_Append_block a io m1 = Some (io1, m2)" "same_data m1 m2"
        "keeps (set (a # bs)) m1 m2" "io_inv m2 io1 (bs @ [a])" using n(5,6) by (rule append_block)
      have pre: "IOBuf_PreAllocate io m = Some ((i, 0 + unat (0 :: u64)), of_nat (rear_space m bs), io1, m2)"
        using h H prev Y \<open>Block_Space Y = 0\<close> n(1) A cap ap(1) rs by (simp add: IOBuf_PreAllocate_def)
      have ok2: "store_ok m2" using same_data_ok [OF ap(2)] n(2) by simp
      have b2: "bdata m2 a = Some (i, 0, 0, kDefaultBufferSize - sizeof_SharedInfo)" and u2: "users m2 i = {a}"
        and d2: "dom (bdata m2) = insert a (dom (bdata m))"
        using ap(2) n(4,7,9) by (simp_all add: same_data_def users_def)
      have "keeps (set bs) m m2"
        by (rule keeps_new [OF _ fa]) (use keeps_trans [OF n(3) ap(3)] in simp)
      then show thesis
        by (intro that [OF pre ok2 ap(4) b2 u2])
          (use rs k(2) ta sub d2 n(8) ap(2) in \<open>auto simp: a_def same_data_io_text [OF ap(2)] same_data_text [OF ap(2)] only_new_def same_data_def users_def\<close>)
    qed
  qed
qed

lemma append_round:
  assumes ok: "store_ok m" and inv: "io_inv m io bs" and alone: "rear_alone m bs" and k: "length src \<le> rear_space m bs"
  obtains p io1 m1 m2 io3 m3 bs3 where
    "IOBuf_PreAllocate io m = Some (p, of_nat (rear_space m bs), io1, m1)" "write_mem p src m1 = Some m2"
    "IOBuf_PostAllocate (of_nat (length src)) io1 m2 = Some (io3, m3)" "store_ok m3" "io_inv m3 io3 bs3"
    "io_text m3 bs3 = io_text m bs @ map Some src" "keeps (set bs) m m3" "set bs3 \<subseteq> insert (next_block m) (set bs)"
    "dom (bdata m3) = dom (bdata m) \<union> set bs3" "rear_alone m3 bs3" "only_new m m3" "set bs \<subseteq> set bs3"
    "length src = rear_space m bs \<Longrightarrow> rear_space m3 bs3 = capacity"
proof -
  from ok inv alone obtain io1 m1 us y i d l c where
    pre: "IOBuf_PreAllocate io m = Some ((i, d + unat l), of_nat (rear_space m bs), io1, m1)" and
    ok1: "store_ok m1" and inv1: "io_inv m1 io1 (us @ [y])" and y: "bdata m1 y = Some (i, d, l, c)" and u: "users m1 i = {y}"
    and fit: "d + unat l + rear_space m bs = capacity" and t1: "io_text m1 (us @ [y]) = io_text m bs"
    and k1: "keeps (set bs) m m1" and sub: "set (us @ [y]) \<subseteq> insert (next_block m) (set bs)"
    and dm: "dom (bdata m1) = dom (bdata m) \<union> set (us @ [y])" and new: "only_new m m1" and sup: "set bs \<subseteq> set (us @ [y])"
    by (rule pre_allocate)
  have "d + unat l + length src \<le> capacity" using fit k by simp
  with ok1 y u obtain m2 m3 where f: "write_mem (i, d + unat l) src m1 = Some m2" "bpv m2 = bpv m1"
    "Block_Append y (of_nat (length src)) m2 = Some m3" "store_ok m3" "bnx m3 = bnx m1" "bpv m3 = bpv m1"
    "bdata m3 y = Some (i, d, l + of_nat (length src), c)" "keeps {y} m1 m3" "users m3 = users m1"
    "block_text m3 y = block_text m1 y @ map Some src" "dom (bdata m3) = dom (bdata m1)" by (rule fill_block)
  obtain h hs where hs: "us @ [y] = h # hs" by (cases us) auto
  with inv1 have h: "io_head io1 = Some h" and r: "ring (bnx m1) (bpv m1) h hs"
    and len: "io_length io1 = of_nat (length (io_text m1 (us @ [y])))" unfolding io_inv_hd [OF hs] by blast+
  have "y = last (h # hs)" using hs by (metis last_snoc)
  with ring_last [OF r] f(2) have "bpv m2 h = Some y" by simp
  then obtain H where H: "blocks m2 h = Some H" "bk_prev H = y" unfolding bpv_def by blast
  define io3 where "io3 = io1\<lparr>io_length := io_length io1 + of_nat (length src)\<rparr>"
  have post: "IOBuf_PostAllocate (of_nat (length src)) io1 m2 = Some (io3, m3)"
    using h H f(3) by (simp add: IOBuf_PostAllocate_def io3_def)
  have "y \<notin> set us" using ring_distinct [OF r] hs [symmetric] by simp
  then have "io_text m3 us = io_text m1 us"
    by (intro keeps_text [OF f(8)]) (use io_inv_live [OF inv1] in auto)
  then have t3: "io_text m3 (us @ [y]) = io_text m1 (us @ [y]) @ map Some src" using f(10) by simp
  then have "io_inv m3 io3 (us @ [y])"
    using h r len f(5,6) by (simp only: io_inv_hd [OF hs]) (simp add: io3_def)
  moreover have "keeps (set bs) m m3"
  proof (cases "y \<in> set bs")
    case True
    with keeps_trans [OF k1 f(8)] show ?thesis by (simp add: insert_absorb)
  next
    case False
    with sub have "y = next_block m" by auto
    then show ?thesis using keeps_trans [OF k1 f(8)] keeps_new fresh_ids(1) [OF ok] by simp
  qed
  moreover have "rear_alone m3 (us @ [y])"
    using u in_users [OF y] f(9) by (simp add: rear_alone_def)
  moreover have "rear_space m3 (us @ [y]) = capacity" if "length src = rear_space m bs"
  proof -
    have "unat (l + of_nat (length src)) = unat l + length src" using fit that by (intro unat_add_fit) simp
    then show ?thesis using fit that f(7) by (simp add: rear_space_def)
  qed
  moreover have "only_new m m3" using new f(9) by (simp add: only_new_def)
  ultimately show thesis
    using pre f(1,4,11) post t3 t1 sub dm sup by (intro that [of "(i, d + unat l)" io1 m1 m2 io3 m3 "us @ [y]"]) simp_all
qed

section \<open>The loop of \<open>Append\<close>\<close>

lemma read_bytes_take: "k \<le> length xs \<Longrightarrow> read_bytes xs 0 k = Some (take k xs)"
  by (simp add: read_bytes_def)

text \<open>Data that fits is appended in one round.\<close>

lemma append_fits:
  assumes ok: "store_ok m" and inv: "io_inv m io bs" and alone: "rear_alone m bs" and fit: "length data \<le> rear_space m bs"
  shows "\<exists>io' m' bs'. IOBuf_Append data (of_nat (length data)) io m = Some (io', m') \<and> store_ok m' \<and> io_inv m' io' bs' \<and>
    io_text m' bs' = io_text m bs @ map Some data \<and> keeps (set bs) m m' \<and> set bs' \<subseteq> insert (next_block m) (set bs) \<and>
    dom (bdata m') = dom (bdata m) \<union> set bs' \<and> rear_alone m' bs' \<and> only_new m m' \<and> set bs \<subseteq> set bs'"
proof (cases "data = []")
  case True
  then have "IOBuf_Append data (of_nat (length data)) io m = Some (io, m)"
    by (simp add: IOBuf_Append_def append_loop.simps)
  moreover have "set bs \<subseteq> dom (bdata m)" using io_inv_live [OF inv] by auto
  ultimately show ?thesis
    using True assms by (intro exI [of _ io] exI [of _ m] exI [of _ bs]) (auto simp: keeps_refl only_new_def)
next
  case False
  define n :: u64 where "n = of_nat (length data)"
  have le: "length data \<le> capacity" using fit rear_space_le [of m bs] by simp
  have un: "unat n = length data" unfolding n_def by (rule unat_of_nat_small [OF le])
  have nz: "n \<noteq> 0" using un False by auto
  have "min (of_nat (rear_space m bs)) n = n"
    using fit un by (simp add: min_absorb2 word_le_nat_alt unat_of_nat_small [OF rear_space_le])
  moreover from ok inv alone fit obtain p io1 m1 m2 io3 m3 bs3 where r:
    "IOBuf_PreAllocate io m = Some (p, of_nat (rear_space m bs), io1, m1)" "write_mem p data m1 = Some m2"
    "IOBuf_PostAllocate (of_nat (length data)) io1 m2 = Some (io3, m3)" "store_ok m3" "io_inv m3 io3 bs3"
    "io_text m3 bs3 = io_text m bs @ map Some data" "keeps (set bs) m m3" "set bs3 \<subseteq> insert (next_block m) (set bs)"
    "dom (bdata m3) = dom (bdata m) \<union> set bs3" "rear_alone m3 bs3" "only_new m m3" "set bs \<subseteq> set bs3"
    by (rule append_round)
  moreover have "append_loop data n 0 io3 m3 = Some (io3, m3)" by (subst append_loop.simps) simp
  ultimately have "IOBuf_Append data n io m = Some (io3, m3)"
    unfolding IOBuf_Append_def using nz un by (subst append_loop.simps) (simp add: read_bytes_take n_def [symmetric])
  with r show ?thesis unfolding n_def by blast
qed

section \<open>Data that does not fit\<close>

text \<open>
  The state between two rounds when the data is longer than a block: the IOBuf is empty or
  its last block is full, so that \<open>PreAllocate\<close> starts a new block and the same first bytes
  are copied again.
\<close>

definition full_at :: "store \<Rightarrow> IOBuf \<Rightarrow> nat list \<Rightarrow> bool" where
  "full_at m io bs \<longleftrightarrow> store_ok m \<and> io_inv m io bs \<and> rear_alone m bs \<and> rear_space m bs = capacity"

lemma full_round:
  fixes n :: u64
  assumes full: "full_at m io bs" and n: "unat n = length data" "capacity \<le> length data"
  obtains p io1 m1 m2 io3 m3 bs3 where
    "IOBuf_PreAllocate io m = Some (p, of_nat capacity, io1, m1)" "min (of_nat capacity) n = of_nat capacity"
    "read_bytes data 0 (unat (of_nat capacity :: u64)) = Some (take capacity data)"
    "write_mem p (take capacity data) m1 = Some m2" "IOBuf_PostAllocate (of_nat capacity) io1 m2 = Some (io3, m3)"
    "full_at m3 io3 bs3" "io_text m3 bs3 = io_text m bs @ map Some (take capacity data)"
proof -
  define src where "src = take capacity data"
  have ls: "length src = capacity" using n(2) by (simp add: src_def)
  from full have rs: "rear_space m bs = capacity" by (simp add: full_at_def)
  from full have "store_ok m" "io_inv m io bs" "rear_alone m bs" "length src \<le> rear_space m bs"
    by (simp_all add: full_at_def ls)
  then obtain p io1 m1 m2 io3 m3 bs3 where r:
    "IOBuf_PreAllocate io m = Some (p, of_nat (rear_space m bs), io1, m1)" "write_mem p src m1 = Some m2"
    "IOBuf_PostAllocate (of_nat (length src)) io1 m2 = Some (io3, m3)" "store_ok m3" "io_inv m3 io3 bs3"
    "io_text m3 bs3 = io_text m bs @ map Some src" "rear_alone m3 bs3"
    "length src = rear_space m bs \<Longrightarrow> rear_space m3 bs3 = capacity" by (rule append_round) blast
  have "of_nat capacity \<le> n" using n by (simp add: word_le_nat_alt unat_of_nat_small)
  then have "min (of_nat capacity) n = of_nat capacity" by (rule min_absorb1)
  moreover have "read_bytes data 0 (unat (of_nat capacity :: u64)) = Some src"
    using n(2) by (simp add: unat_of_nat_small read_bytes_take src_def)
  moreover have "full_at m3 io3 bs3" using r(4,5,7,8) ls rs by (simp add: full_at_def)
  ultimately show thesis using that r(1-3,6) ls rs by (simp add: src_def)
qed

text \<open>A number of rounds of the loop, without its end test at 0: what is left, and the IOBuf then.\<close>

fun append_rounds :: "nat \<Rightarrow> bytes \<Rightarrow> u64 \<Rightarrow> u64 \<Rightarrow> IOBuf \<Rightarrow> store \<Rightarrow> (u64 \<times> IOBuf \<times> store) option" where
  "append_rounds 0 data n remain io m = Some (remain, io, m)"
| "append_rounds (Suc j) data n remain io m =
    (if remain = 0 then None
     else do {
       (p, space, io, m) \<leftarrow> IOBuf_PreAllocate io m;
       let copy_size = min space n;
       src \<leftarrow> read_bytes data 0 (unat copy_size);
       m \<leftarrow> write_mem p src m;
       (io, m) \<leftarrow> IOBuf_PostAllocate copy_size io m;
       append_rounds j data n (remain - copy_size) io m
     })"

lemma append_loop_rounds:
  "append_rounds j data n remain io m = Some (remain', io', m') \<Longrightarrow>
     append_loop data n remain io m = append_loop data n remain' io' m'"
proof (induction j arbitrary: remain io m)
  case (Suc j)
  then show ?case
    by (subst append_loop.simps) (auto split: if_splits Option.bind_splits simp: Let_def)
qed simp

lemma append_rounds_full:
  assumes "full_at m io bs" and "unat n = length data" and "capacity \<le> length data"
    and "\<forall>i<j. remain \<noteq> of_nat (i * capacity)"
  shows "\<exists>io' m' bs'. append_rounds j data n remain io m = Some (remain - of_nat (j * capacity), io', m') \<and>
    full_at m' io' bs' \<and> io_text m' bs' = io_text m bs @ map Some (concat (replicate j (take capacity data)))"
  using assms(1,4)
proof (induction j arbitrary: remain io m bs)
  case 0
  then show ?case by (intro exI [of _ io] exI [of _ m] exI [of _ bs]) simp
next
  case (Suc j)
  from Suc.prems(2) have nz: "remain \<noteq> 0" by (metis mult_0 of_nat_0 zero_less_Suc)
  have later: "\<forall>i<j. remain - of_nat capacity \<noteq> of_nat (i * capacity)"
  proof (intro allI impI notI)
    fix i assume i: "i < j" "remain - of_nat capacity = of_nat (i * capacity)"
    then have "remain = of_nat (Suc i * capacity)" by (simp add: algebra_simps)
    with Suc.prems(2) i(1) show False by blast
  qed
  from Suc.prems(1) assms(2,3) obtain p io1 m1 m2 io3 m3 bs3 where r:
    "IOBuf_PreAllocate io m = Some (p, of_nat capacity, io1, m1)" "min (of_nat capacity) n = of_nat capacity"
    "read_bytes data 0 (unat (of_nat capacity :: u64)) = Some (take capacity data)"
    "write_mem p (take capacity data) m1 = Some m2" "IOBuf_PostAllocate (of_nat capacity) io1 m2 = Some (io3, m3)"
    "full_at m3 io3 bs3" "io_text m3 bs3 = io_text m bs @ map Some (take capacity data)" by (rule full_round)
  from Suc.IH [OF r(6) later] obtain io' m' bs' where
    i: "append_rounds j data n (remain - of_nat capacity) io3 m3 =
          Some (remain - of_nat capacity - of_nat (j * capacity), io', m')" "full_at m' io' bs'"
      "io_text m' bs' = io_text m3 bs3 @ map Some (concat (replicate j (take capacity data)))" by blast
  have "append_rounds (Suc j) data n remain io m = append_rounds j data n (remain - of_nat capacity) io3 m3"
    using nz r(1-5) by (simp add: Let_def)
  with i r(7) show ?case by (auto simp: algebra_simps)
qed

text \<open>The first round fills the last block; after it the IOBuf is full.\<close>

lemma append_first_round:
  fixes n :: u64
  assumes ok: "store_ok m" and inv: "io_inv m io bs" and alone: "rear_alone m bs"
    and n: "unat n = length data" "capacity \<le> length data"
  obtains io1 m1 bs1 where
    "\<forall>j. append_rounds (Suc j) data n n io m = append_rounds j data n (n - of_nat (rear_space m bs)) io1 m1"
    "append_loop data n n io m = append_loop data n (n - of_nat (rear_space m bs)) io1 m1"
    "full_at m1 io1 bs1" "io_text m1 bs1 = io_text m bs @ map Some (take (rear_space m bs) data)"
proof -
  define r where "r = rear_space m bs"
  have rl: "r \<le> length data" using rear_space_le [of m bs] n(2) by (simp add: r_def)
  then have ls: "length (take r data) = r" by simp
  from ok inv alone have "length (take r data) \<le> rear_space m bs" by (simp add: r_def)
  with ok inv alone obtain p io1 m1 m2 io3 m3 bs3 where x:
    "IOBuf_PreAllocate io m = Some (p, of_nat (rear_space m bs), io1, m1)" "write_mem p (take r data) m1 = Some m2"
    "IOBuf_PostAllocate (of_nat (length (take r data))) io1 m2 = Some (io3, m3)" "store_ok m3" "io_inv m3 io3 bs3"
    "io_text m3 bs3 = io_text m bs @ map Some (take r data)" "rear_alone m3 bs3"
    "length (take r data) = rear_space m bs \<Longrightarrow> rear_space m3 bs3 = capacity" by (rule append_round) blast
  have un: "unat (of_nat r :: u64) = r" using rear_space_le [of m bs] by (simp add: unat_of_nat_small r_def)
  have "min (of_nat r) n = of_nat r" using rl n un by (simp add: min_absorb1 word_le_nat_alt)
  moreover have "read_bytes data 0 (unat (of_nat r :: u64)) = Some (take r data)" using un rl by (simp add: read_bytes_take)
  moreover have nz: "n \<noteq> 0" using n by (auto simp: capacity_def)
  ultimately have one: "append_rounds (Suc i) data n n io m = append_rounds i data n (n - of_nat r) io3 m3" for i
    using x(1-3) ls by (simp add: r_def Let_def)
  have "append_rounds (Suc 0) data n n io m = Some (n - of_nat r, io3, m3)" unfolding one by simp
  then have "append_loop data n n io m = append_loop data n (n - of_nat r) io3 m3" by (rule append_loop_rounds)
  moreover have "full_at m3 io3 bs3" using x(4,5,7,8) ls by (simp add: full_at_def r_def)
  ultimately show thesis using that [of io3 m3 bs3] one x(6) by (simp add: r_def)
qed

text \<open>
  The block size is a multiple of 4: the rest never becomes 0 when the length of the data is
  none.
\<close>

lemma remain_mod4: "unat (remain - of_nat capacity :: u64) mod 4 = unat remain mod 4"
proof -
  have "uint (remain - of_nat capacity) mod 4 = (uint remain - int capacity) mod 2 ^ 64 mod 4"
    by (simp add: uint_word_ariths capacity_def)
  also have "\<dots> = (uint remain - int capacity) mod 4" by (rule mod_mod_cancel) simp
  also have "\<dots> = uint remain mod 4"
    using mod_diff_right_eq [of "uint remain" "int capacity" 4] by (simp add: capacity_def)
  finally have "int (unat (remain - of_nat capacity) mod 4) = int (unat remain mod 4)"
    by (simp add: zmod_int)
  then show ?thesis by (simp only: of_nat_eq_iff)
qed

lemma append_loop_diverges:
  assumes "append_loop data n remain io m = Some r" and "full_at m io bs" and "unat n = length data"
    and "capacity \<le> length data"
  shows "unat remain mod 4 = 0"
proof -
  have "\<forall>bs. full_at m io bs \<longrightarrow> unat n = length data \<longrightarrow> capacity \<le> length data \<longrightarrow> unat remain mod 4 = 0"
  proof (rule append_loop.raw_induct [OF _ assms(1), where P = "\<lambda>data n remain io m r.
      \<forall>bs. full_at m io bs \<longrightarrow> unat n = length data \<longrightarrow> capacity \<le> length data \<longrightarrow> unat remain mod 4 = 0"], goal_cases)
    case (1 f data n remain io m r)
    show ?case
    proof (intro allI impI)
      fix bs assume p: "full_at m io bs" "unat n = length data" "capacity \<le> length data"
      then obtain q io1 m1 m2 io3 m3 bs3 where r:
        "IOBuf_PreAllocate io m = Some (q, of_nat capacity, io1, m1)" "min (of_nat capacity) n = of_nat capacity"
        "read_bytes data 0 (unat (of_nat capacity :: u64)) = Some (take capacity data)"
        "write_mem q (take capacity data) m1 = Some m2" "IOBuf_PostAllocate (of_nat capacity) io1 m2 = Some (io3, m3)"
        "full_at m3 io3 bs3" by (rule full_round)
      show "unat remain mod 4 = 0"
      proof (cases "remain = 0")
        case False
        with 1(2) r(1-5) have "f data n (remain - of_nat capacity) io3 m3 = Some r" by (simp add: Let_def)
        from 1(1) [OF this] r(6) p(2,3) have "unat (remain - of_nat capacity) mod 4 = 0" by blast
        then show ?thesis by (simp only: remain_mod4)
      qed simp
    qed
  qed
  with assms show ?thesis by blast
qed

text \<open>
  A rest that is a multiple of 4 is a multiple of the block size modulo \<open>2 ^ 64\<close>: the block size is 4
  times an odd number, whose inverse modulo \<open>2 ^ 62\<close> is the factor below.
\<close>

lemma capacity_cycle:
  assumes "unat (remain :: u64) mod 4 = 0"
  shows "\<exists>j. remain = of_nat (j * capacity)"
proof -
  obtain q where q: "unat remain = 4 * q" using assms by auto
  let ?j = "q * 4609434201433702399"
  have "(capacity * 4609434201433702399 :: nat) = 4 + 2 ^ 64 * 131007" by (simp add: capacity_def)
  then have "?j * capacity = unat remain + 2 ^ 64 * (131007 * q)" using q by algebra
  then have "(of_nat (?j * capacity) :: u64) = of_nat (unat remain) + of_nat (2 ^ 64) * of_nat (131007 * q)"
    by (simp only: of_nat_add of_nat_mult)
  moreover have "(of_nat (2 ^ 64) :: u64) = 0" by simp
  moreover have "(of_nat (unat remain) :: u64) = remain" by simp
  ultimately have "(of_nat (?j * capacity) :: u64) = remain" by (simp only: mult_zero_left add_0_right)
  then show ?thesis by metis
qed

end
