(* ===== verification/Iobuf_Props.thy ===== *)
theory Iobuf_Props
  imports Iobuf_Append
begin

text \<open>
  The properties of the block buffer: a sequence of appends and trims on one IOBuf is a
  sequence of operations on a byte list, splitting divides the text, the destructor leaves
  nothing allocated, and what happens when appended data does not fit.
\<close>

section \<open>The destructor\<close>

lemma destroy_loop:
  assumes "store_ok m" and "io_inv m io bs"
  shows "\<exists>io' m'. IOBuf_destroy io m = Some (io', m') \<and> store_ok m' \<and> keeps (set bs) m m' \<and> shrinks (set bs) m m' \<and>
    io_head io' = None"
  using assms
proof (induction bs arbitrary: io m)
  case Nil
  then show ?case
    by (subst IOBuf_destroy.simps) (intro exI [of _ io] exI [of _ m], simp add: keeps_refl shrinks_refl)
next
  case (Cons b bs)
  from Cons.prems obtain io1 m1 where d: "IOBuf_drop_first io m = Some (io1, m1)" "store_ok m1"
    "keeps (set (b # bs)) m m1" "io_inv m1 io1 bs" "shrinks {b} m m1" by (rule drop_first)
  from Cons.IH [OF d(2,4)] obtain io' m' where r: "IOBuf_destroy io1 m1 = Some (io', m')" "store_ok m'"
    "keeps (set bs) m1 m'" "shrinks (set bs) m1 m'" "io_head io' = None" by blast
  have "io_head io = Some b" using Cons.prems(2) by (simp add: io_inv_Cons)
  then have "IOBuf_destroy io m = Some (io', m')" using d(1) r(1) by (subst IOBuf_destroy.simps) simp
  moreover have "keeps (set (b # bs)) m m'" using keeps_trans [OF d(3) r(3)] by (rule keeps_mono) auto
  moreover have "shrinks (set (b # bs)) m m'" using shrinks_trans [OF d(5) r(4)] by simp
  ultimately show ?case using r by blast
qed

lemma no_blocks_no_memory:
  assumes "store_ok m" and "dom (bdata m) = {}"
  shows "blocks m = Map.empty \<and> buffers m = Map.empty"
proof -
  have "bdata m a = None" for a using assms(2) by blast
  then have "blocks m a = None" for a by (simp add: bdata_def)
  moreover have "users m i = {}" for i using assms(2) by (auto simp: users_def)
  then have "buffers m i = None" for i using store_bufferD [OF assms(1)] by (metis option.exhaust)
  ultimately show ?thesis by auto
qed

section \<open>Calls on one IOBuf\<close>

text \<open>The bytes that the next \<open>PreAllocate\<close> offers.\<close>

definition free_space :: "IOBuf \<Rightarrow> store \<Rightarrow> int" where
  "free_space io m = (case IOBuf_PreAllocate io m of None \<Rightarrow> 0 | Some (_, avail, _) \<Rightarrow> uint avail)"

datatype io_call = Add bytes | Cut_front u64 | Cut_back u64

fun io_step :: "io_call \<Rightarrow> IOBuf \<times> store \<Rightarrow> (IOBuf \<times> store) option" where
  "io_step (Add xs) (io, m) = IOBuf_Append xs (of_nat (length xs)) io m"
| "io_step (Cut_front n) (io, m) = IOBuf_TrimStart n io m"
| "io_step (Cut_back n) (io, m) = IOBuf_TrimEnd n io m"

fun io_run :: "io_call list \<Rightarrow> IOBuf \<times> store \<Rightarrow> (IOBuf \<times> store) option" where
  "io_run [] x = Some x"
| "io_run (c # cs) x = Option.bind (io_step c x) (io_run cs)"

text \<open>Every append of the run fits into the space that is offered at that moment.\<close>

fun call_fits :: "io_call \<Rightarrow> IOBuf \<times> store \<Rightarrow> bool" where
  "call_fits (Add xs) (io, m) \<longleftrightarrow> int (length xs) \<le> free_space io m"
| "call_fits c x \<longleftrightarrow> True"

fun run_fits :: "io_call list \<Rightarrow> IOBuf \<times> store \<Rightarrow> bool" where
  "run_fits [] x \<longleftrightarrow> True"
| "run_fits (c # cs) x \<longleftrightarrow>
     call_fits c x \<and> (case io_step c x of None \<Rightarrow> True | Some x' \<Rightarrow> run_fits cs x')"

text \<open>The same calls on a list of bytes.\<close>

fun text_step :: "io_call \<Rightarrow> bytes \<Rightarrow> bytes" where
  "text_step (Add xs) s = s @ xs"
| "text_step (Cut_front n) s = drop (unat n) s"
| "text_step (Cut_back n) s = take (length s - unat n) s"

definition unshared :: "store \<Rightarrow> bool" where
  "unshared m \<longleftrightarrow> (\<forall>i. \<forall>a \<in> users m i. users m i = {a})"

lemma unshared_rear: "unshared m \<Longrightarrow> rear_alone m bs"
  by (simp add: unshared_def rear_alone_def)

lemma unshared_new: "unshared m \<Longrightarrow> only_new m m' \<Longrightarrow> unshared m'"
  unfolding unshared_def only_new_def by (metis singletonD)

lemma unshared_shrinks: "unshared m \<Longrightarrow> shrinks D m m' \<Longrightarrow> unshared m'"
  unfolding unshared_def shrinks_def by blast

definition holds :: "IOBuf \<times> store \<Rightarrow> bytes \<Rightarrow> bool" where
  "holds x s \<longleftrightarrow> (case x of (io, m) \<Rightarrow>
     store_ok m \<and> unshared m \<and> (\<exists>bs. io_inv m io bs \<and> dom (bdata m) = set bs \<and> io_text m bs = map Some s))"

lemma holdsI: "store_ok m \<Longrightarrow> unshared m \<Longrightarrow> io_inv m io bs \<Longrightarrow> dom (bdata m) = set bs \<Longrightarrow>
    io_text m bs = map Some s \<Longrightarrow> holds (io, m) s"
  unfolding holds_def by blast

lemma holds_new: "holds (new_IOBuf, new_store) []"
  by (auto simp: holds_def store_ok_def unshared_def new_store_def new_IOBuf_def bdata_def users_def
      intro!: exI [of _ "[]"])

lemma free_space_rear:
  assumes "store_ok m" and "io_inv m io bs" and "rear_alone m bs"
  shows "free_space io m = int (rear_space m bs)"
proof -
  from assms obtain p io1 m1 where "IOBuf_PreAllocate io m = Some (p, of_nat (rear_space m bs), io1, m1)"
    by (rule pre_allocate) blast
  then have "free_space io m = int (unat (of_nat (rear_space m bs) :: u64))" by (simp add: free_space_def)
  then show ?thesis by (simp only: unat_of_nat_small [OF rear_space_le])
qed

lemma holds_step:
  assumes "holds (io, m) s" and "call_fits c (io, m)"
  shows "\<exists>x. io_step c (io, m) = Some x \<and> holds x (text_step c s)"
proof -
  from assms(1) obtain bs where ok: "store_ok m" and un: "unshared m" and inv: "io_inv m io bs"
    and dm: "dom (bdata m) = set bs" and tx: "io_text m bs = map Some s" by (auto simp: holds_def)
  note alone = unshared_rear [OF un]
  show ?thesis
  proof (cases c)
    case (Add xs)
    with assms(2) have "length xs \<le> rear_space m bs" using free_space_rear [OF ok inv alone] by simp
    from append_fits [OF ok inv alone this] obtain io' m' bs' where
      r: "IOBuf_Append xs (of_nat (length xs)) io m = Some (io', m')" "store_ok m'" "io_inv m' io' bs'"
      "io_text m' bs' = io_text m bs @ map Some xs" "dom (bdata m') = dom (bdata m) \<union> set bs'" "only_new m m'"
      "set bs \<subseteq> set bs'" by blast
    have "holds (io', m') (s @ xs)"
      by (rule holdsI [OF r(2) unshared_new [OF un r(6)] r(3)]) (use r(4,5,7) tx dm in auto)
    with Add r(1) show ?thesis by simp
  next
    case (Cut_front n)
    from trim_start_loop [OF ok inv, of n] obtain io' m' bs' where
      r: "IOBuf_TrimStart n io m = Some (io', m')" "store_ok m'" "io_inv m' io' bs'" "set bs' \<subseteq> set bs"
      "shrinks (set bs - set bs') m m'" "io_text m' bs' = drop (unat n) (io_text m bs)" by blast
    have "holds (io', m') (drop (unat n) s)"
      by (rule holdsI [OF r(2) unshared_shrinks [OF un r(5)] r(3)])
        (use r(4,5,6) tx dm in \<open>auto simp: shrinks_def drop_map\<close>)
    with Cut_front r(1) show ?thesis by simp
  next
    case (Cut_back n)
    from trim_end_loop [OF ok inv, of n] obtain io' m' bs' where
      r: "IOBuf_TrimEnd n io m = Some (io', m')" "store_ok m'" "io_inv m' io' bs'" "set bs' \<subseteq> set bs"
      "shrinks (set bs - set bs') m m'" "io_text m' bs' = take (length (io_text m bs) - unat n) (io_text m bs)" by blast
    have "holds (io', m') (take (length s - unat n) s)"
      by (rule holdsI [OF r(2) unshared_shrinks [OF un r(5)] r(3)])
        (use r(4,5,6) tx dm in \<open>auto simp: shrinks_def take_map\<close>)
    with Cut_back r(1) show ?thesis by simp
  qed
qed

lemma holds_run:
  assumes "holds x s" and "run_fits cs x"
  shows "\<exists>x'. io_run cs x = Some x' \<and> holds x' (fold text_step cs s)"
  using assms
proof (induction cs arbitrary: x s)
  case (Cons c cs)
  obtain io m where x: "x = (io, m)" by (cases x)
  with Cons.prems holds_step [of io m s c] obtain x' where "io_step c x = Some x'" "holds x' (text_step c s)" by auto
  with Cons.IH [of x' "text_step c s"] Cons.prems(2) show ?case by simp
qed auto

lemma those_map_Some [simp]: "those (map Some xs) = Some xs"
  by (induction xs) simp_all

lemma holds_read:
  assumes "holds (io, m) s"
  shows "IOBuf_ToString io m = Some s" and "io_length io = of_nat (length s)"
    and "i < io_length io \<Longrightarrow> IOBuf_ByteAt i io m = Some (s ! unat i)"
proof -
  from assms obtain bs where inv: "io_inv m io bs" and tx: "io_text m bs = map Some s" by (auto simp: holds_def)
  show "IOBuf_ToString io m = Some s" using IOBuf_ToString_text [OF inv] tx by simp
  show len: "io_length io = of_nat (length s)"
    using inv tx by (cases bs) (auto simp: io_inv_def simp del: io_text_simps dest: arg_cong [where f = length])
  assume i: "i < io_length io"
  then have "unat i < length s"
    using len unat_of_nat [of "length s", where 'a = 64] by (simp add: word_less_nat_alt)
  then show "IOBuf_ByteAt i io m = Some (s ! unat i)" using IOBuf_ByteAt_text [OF inv i] tx by simp
qed

lemma holds_destroy:
  assumes "holds (io, m) s"
  shows "\<exists>io' m'. IOBuf_destroy io m = Some (io', m') \<and> blocks m' = Map.empty \<and> buffers m' = Map.empty"
proof -
  from assms obtain bs where "store_ok m" "io_inv m io bs" and dm: "dom (bdata m) = set bs" by (auto simp: holds_def)
  from destroy_loop [OF this(1,2)] obtain io' m' where "IOBuf_destroy io m = Some (io', m')" "store_ok m'"
    "shrinks (set bs) m m'" by blast
  with no_blocks_no_memory [of m'] dm show ?thesis by (auto simp: shrinks_def)
qed

section \<open>Properties\<close>

text \<open>
  C7. As long as what is appended fits into the space behind the last block, an IOBuf is a list of
  bytes: \<open>Append\<close> extends it, \<open>TrimStart\<close> and \<open>TrimEnd\<close> drop bytes at an end, \<open>length\<close>,
  \<open>ToString\<close> and \<open>ByteAt\<close> read it, none of them fails or touches memory outside its blocks,
  and the destructor frees every block and every buffer.
\<close>

theorem iobuf_run_is_byte_list:
  assumes "run_fits cs (new_IOBuf, new_store)"
  shows "\<exists>io m. io_run cs (new_IOBuf, new_store) = Some (io, m) \<and>
    io_length io = of_nat (length (fold text_step cs [])) \<and>
    IOBuf_ToString io m = Some (fold text_step cs []) \<and>
    (\<forall>i < io_length io. IOBuf_ByteAt i io m = Some (fold text_step cs [] ! unat i)) \<and>
    (\<exists>io' m'. IOBuf_destroy io m = Some (io', m') \<and> blocks m' = Map.empty \<and> buffers m' = Map.empty)"
proof -
  from holds_run [OF holds_new assms] obtain io m where
    r: "io_run cs (new_IOBuf, new_store) = Some (io, m)" and h: "holds (io, m) (fold text_step cs [])" by auto
  with holds_read [OF h] holds_destroy [OF h] show ?thesis by blast
qed

text \<open>
  C35. \<open>Split\<close> at \<open>n\<close> always returns: the new IOBuf holds the first \<open>n\<close> bytes and the old one
  the rest, in blocks of their own, with exact lengths and reference counts.
\<close>

theorem iobuf_split_divides:
  assumes "iobufs_at m io s other t"
  shows "\<exists>front io' m'. IOBuf_Split n io m = Some (front, io', m') \<and>
    iobufs_at m' front (take (unat n) s) io' (drop (unat n) s)"
proof -
  from assms obtain bs where "store_ok m" "io_inv m io bs" "s = io_text m bs" unfolding iobufs_at_def by blast
  with split_loop_parts [of m io bs new_IOBuf "[]" n] show ?thesis
    unfolding iobufs_at_def IOBuf_Split_def by (fastforce simp: new_IOBuf_def)
qed

text \<open>
  C40. \<open>TrimStart\<close> and \<open>TrimEnd\<close> drop exactly the given number of bytes at their end, or all of
  them, also when blocks share memory; other IOBufs keep their text.
\<close>

theorem iobuf_trim_drops:
  assumes "iobufs_at m io s other t"
  shows "(\<exists>io' m'. IOBuf_TrimStart n io m = Some (io', m') \<and> iobufs_at m' io' (drop (unat n) s) other t) \<and>
    (\<exists>io' m'. IOBuf_TrimEnd n io m = Some (io', m') \<and> iobufs_at m' io' (take (length s - unat n) s) other t)"
proof -
  from assms obtain bs cs where ok: "store_ok m" and io: "io_inv m io bs" and ot: "io_inv m other cs"
    and d: "set bs \<inter> set cs = {}" and s: "s = io_text m bs" "t = io_text m cs" unfolding iobufs_at_def by blast
  have other: "io_inv m' other cs \<and> io_text m' cs = t" if "keeps (set bs) m m'" for m'
    using keeps_inv [OF that ot] d s(2) by auto
  have at: "iobufs_at m' io' u other t"
    if "store_ok m'" "io_inv m' io' bs'" "set bs' \<subseteq> set bs" "keeps (set bs) m m'" "io_text m' bs' = u" for m' io' bs' u
    using that other [OF that(4)] d unfolding iobufs_at_def by blast
  from trim_start_loop [OF ok io, of n] obtain io1 m1 bs1 where
    "IOBuf_TrimStart n io m = Some (io1, m1)" "store_ok m1" "io_inv m1 io1 bs1" "set bs1 \<subseteq> set bs" "keeps (set bs) m m1"
    "io_text m1 bs1 = drop (unat n) s" unfolding s(1) by blast
  moreover from trim_end_loop [OF ok io, of n] obtain io2 m2 bs2 where
    "IOBuf_TrimEnd n io m = Some (io2, m2)" "store_ok m2" "io_inv m2 io2 bs2" "set bs2 \<subseteq> set bs" "keeps (set bs) m m2"
    "io_text m2 bs2 = take (length s - unat n) s" unfolding s(1) by blast
  ultimately show ?thesis using at by blast
qed

text \<open>
  C36. Appending a block or more to any IOBuf whose last block is its own: the source pointer is not
  advanced and each round takes as much as the block has room for, up to the whole length. The first
  round appends the first bytes of the data, as many as the last block has room for; each later round
  appends the first block of the data again, and no round fails as long as the rest is not 0. The
  unsigned rest is 0 after some round exactly if the length less that room is a multiple of 4: then the
  call returns after the first such round, and otherwise it never returns, every round going well.
  (Allocation is taken not to fail.)
\<close>

theorem iobuf_append_too_long:
  assumes "store_ok m" and "io_inv m io bs" and "rear_alone m bs"
    and "unat n = length data" and "capacity \<le> length data"
  shows "(\<forall>j. (\<forall>i<j. n - of_nat (rear_space m bs) \<noteq> of_nat (i * capacity)) \<longrightarrow>
       (\<exists>io' m' bs'. append_rounds (Suc j) data n n io m =
            Some (n - of_nat (rear_space m bs) - of_nat (j * capacity), io', m') \<and> io_inv m' io' bs' \<and>
          io_text m' bs' = io_text m bs @ map Some (take (rear_space m bs) data @ concat (replicate j (take capacity data))))) \<and>
    (IOBuf_Append data n io m = None \<longleftrightarrow> (length data - rear_space m bs) mod 4 \<noteq> 0) \<and>
    (\<forall>io' m'. IOBuf_Append data n io m = Some (io', m') \<longrightarrow>
       (\<exists>j. n - of_nat (rear_space m bs) = of_nat (j * capacity) \<and>
          (\<forall>i<j. n - of_nat (rear_space m bs) \<noteq> of_nat (i * capacity)) \<and>
          append_rounds (Suc j) data n n io m = Some (0, io', m')))"
    (is "?rounds \<and> ?never \<and> ?returns")
proof -
  let ?r = "n - of_nat (rear_space m bs)"
  obtain io1 m1 bs1 where first: "\<forall>j. append_rounds (Suc j) data n n io m = append_rounds j data n ?r io1 m1"
    "append_loop data n n io m = append_loop data n ?r io1 m1" "full_at m1 io1 bs1"
    "io_text m1 bs1 = io_text m bs @ map Some (take (rear_space m bs) data)"
    by (rule append_first_round [OF assms])
  note rounds = append_rounds_full [OF first(3) assms(4,5)]
  have u: "unat ?r = length data - rear_space m bs"
    using rear_space_le [of m bs] assms(4,5) by (simp add: unat_sub word_le_nat_alt unat_of_nat_small)
  have ?rounds
  proof (intro allI impI)
    fix j assume "\<forall>i<j. ?r \<noteq> of_nat (i * capacity)"
    from rounds [OF this] first(1,4) show "\<exists>io' m' bs'. append_rounds (Suc j) data n n io m =
        Some (?r - of_nat (j * capacity), io', m') \<and> io_inv m' io' bs' \<and>
      io_text m' bs' = io_text m bs @ map Some (take (rear_space m bs) data @ concat (replicate j (take capacity data)))"
      by (auto simp: full_at_def)
  qed
  moreover have "?never \<and> ?returns"
  proof (cases "unat ?r mod 4 = 0")
    case False
    then have "IOBuf_Append data n io m = None"
      using append_loop_diverges [OF _ first(3) assms(4,5)] first(2)
      by (cases "IOBuf_Append data n io m") (auto simp: IOBuf_Append_def)
    with False u show ?thesis by simp
  next
    case True
    define j where "j = (LEAST j. ?r = of_nat (j * capacity))"
    have j: "?r = of_nat (j * capacity)" using LeastI_ex [OF capacity_cycle [OF True]] by (simp add: j_def)
    have least: "\<forall>i<j. ?r \<noteq> of_nat (i * capacity)" using not_less_Least unfolding j_def by blast
    from rounds [OF least] j obtain io' m' where x: "append_rounds j data n ?r io1 m1 = Some (0, io', m')" by auto
    have "append_loop data n 0 io' m' = Some (io', m')" by (subst append_loop.simps) simp
    with append_loop_rounds [OF x] first(2) have "IOBuf_Append data n io m = Some (io', m')" by (simp add: IOBuf_Append_def)
    moreover have "append_rounds (Suc j) data n n io m = Some (0, io', m')" using x first(1) by simp
    ultimately show ?thesis using True u j least by (simp del: append_rounds.simps) blast
  qed
  ultimately show ?thesis by blast
qed

section \<open>The properties at concrete inputs\<close>

definition example_calls :: "io_call list" where
  "example_calls = [Add [97, 98, 99], Cut_front 1, Add [100], Cut_back 2]"

theorem iobuf_run_is_byte_list_witness:
  "run_fits example_calls (new_IOBuf, new_store) \<and> fold text_step example_calls [] = [98] \<and>
   (\<exists>io m. io_run example_calls (new_IOBuf, new_store) = Some (io, m) \<and> IOBuf_ToString io m = Some [98])"
proof -
  have f: "run_fits example_calls (new_IOBuf, new_store)" and t: "fold text_step example_calls [] = [98]"
    by code_simp+
  from iobuf_run_is_byte_list [OF f] t show ?thesis using f by auto
qed

lemma store_ok_new: "store_ok new_store"
  using holds_new by (simp add: holds_def)

lemma example_iobuf: "\<exists>m io. iobufs_at m io (map Some [97, 98, 99, 100]) new_IOBuf []"
proof -
  have "io_inv new_store new_IOBuf []" by (simp add: new_IOBuf_def)
  moreover have "rear_alone new_store []" "length [97, 98, 99, 100 :: u8] \<le> rear_space new_store []"
    by (simp_all add: rear_alone_def rear_space_def capacity_def)
  ultimately obtain io m bs where "store_ok m" "io_inv m io bs" "io_text m bs = map Some [97, 98, 99, 100]"
    using append_fits [OF store_ok_new, of new_IOBuf "[]" "[97, 98, 99, 100]"] by auto
  moreover have "io_inv m new_IOBuf []" by (simp add: new_IOBuf_def)
  ultimately have "iobufs_at m io (map Some [97, 98, 99, 100]) new_IOBuf []"
    unfolding iobufs_at_def by (intro conjI exI [of _ bs] exI [of _ "[]"]) simp_all
  then show ?thesis by blast
qed

theorem iobuf_split_divides_witness:
  "\<exists>m io front io' m'. iobufs_at m io (map Some [97, 98, 99, 100]) new_IOBuf [] \<and>
    IOBuf_Split 1 io m = Some (front, io', m') \<and> iobufs_at m' front [Some 97] io' [Some 98, Some 99, Some 100]"
proof -
  obtain m io where x: "iobufs_at m io (map Some [97, 98, 99, 100]) new_IOBuf []" using example_iobuf by blast
  from iobuf_split_divides [OF x, of 1] x show ?thesis by simp blast
qed

theorem iobuf_trim_drops_witness:
  "\<exists>m io io' m'. iobufs_at m io (map Some [97, 98, 99, 100]) new_IOBuf [] \<and>
    IOBuf_TrimEnd 3 io m = Some (io', m') \<and> iobufs_at m' io' [Some 97] new_IOBuf []"
proof -
  obtain m io where x: "iobufs_at m io (map Some [97, 98, 99, 100]) new_IOBuf []" using example_iobuf by blast
  from iobuf_trim_drops [OF x, of 3] x show ?thesis by simp blast
qed

lemma empty_io:
  "io_inv m new_IOBuf []" "rear_alone m []" "rear_space m [] = capacity"
  by (simp_all add: new_IOBuf_def rear_alone_def rear_space_def)

text \<open>One byte more than a block never ends; two blocks store the first one twice.\<close>

theorem iobuf_append_too_long_witness:
  "IOBuf_Append (replicate (capacity + 1) 0) (of_nat (capacity + 1)) new_IOBuf new_store = None \<and>
   (\<exists>io m bs. append_rounds 2 (replicate capacity 1 @ replicate capacity 0) (of_nat (2 * capacity)) (of_nat (2 * capacity))
        new_IOBuf new_store = Some (0, io, m) \<and> io_inv m io bs \<and>
      io_text m bs = map Some (replicate capacity 1 @ replicate capacity 1))"
proof -
  let ?a = "replicate (capacity + 1) (0 :: u8)" and ?b = "replicate capacity 1 @ replicate capacity (0 :: u8)"
  have a: "unat (of_nat (capacity + 1) :: u64) = length ?a" "capacity \<le> length ?a"
    and b: "unat (of_nat (2 * capacity) :: u64) = length ?b" "capacity \<le> length ?b"
    by (simp_all add: length_replicate) (simp_all add: capacity_def)
  note ta = iobuf_append_too_long [OF store_ok_new empty_io(1,2) a, unfolded empty_io(3)]
  note tb = iobuf_append_too_long [OF store_ok_new empty_io(1,2) b, unfolded empty_io(3)]
  have "(length ?a - capacity) mod 4 \<noteq> 0" by (simp add: length_replicate)
  with ta have never: "IOBuf_Append ?a (of_nat (capacity + 1)) new_IOBuf new_store = None" by blast
  have "\<forall>i<1 :: nat. (of_nat (2 * capacity) :: u64) - of_nat capacity \<noteq> of_nat (i * capacity)" by (simp add: capacity_def)
  with tb [THEN conjunct1, THEN spec, of 1] obtain io m bs where
    "append_rounds (Suc 1) ?b (of_nat (2 * capacity)) (of_nat (2 * capacity)) new_IOBuf new_store =
       Some (of_nat (2 * capacity) - of_nat capacity - of_nat (1 * capacity), io, m)" "io_inv m io bs"
    "io_text m bs = io_text new_store [] @ map Some (take capacity ?b @ concat (replicate 1 (take capacity ?b)))" by blast
  then show ?thesis using never by (auto simp: numeral_2_eq_2 simp del: append_rounds.simps)
qed

end
