(* ===== verification/Http_Server.thy ===== *)
theory Http_Server
  imports Http_Parser_Props Iobuf_Props
begin

text \<open>
  \<open>httpserver/http_server.cc\<close>: the HTTP context of a connection. It owns a message parser, whose
  callbacks fill the fields of the context, and an \<open>IOBuf\<close> for the input. The parser object
  carries the context as its user data; a \<open>std::map\<close> is a partial function (its \<open>insert\<close> keeps
  an entry that is already there). The virtual methods are a record of functions, and what
  they send is logged in \<open>written\<close>, as the argument of \<open>AsyncWrite\<close>.
\<close>

section \<open>The context\<close>

record ContextData =
  req_method :: http_method
  request_url :: bytes
  req_path :: bytes
  req_content_length :: u64
  query_params :: "bytes \<rightharpoonup> bytes"
  request_headers :: "bytes \<rightharpoonup> bytes"
  tmp_header_key :: bytes
  written :: "bytes list"

record handlers =
  OnRequest :: "ContextData \<Rightarrow> ContextData"
  OnBody :: "bytes \<Rightarrow> ContextData \<Rightarrow> ContextData"
  OnComplete :: "ContextData \<Rightarrow> ContextData"

definition chars :: "string \<Rightarrow> bytes" where "chars s = map of_char s"

definition crlf :: bytes where "crlf = [13, 10]"

definition AsyncWrite_log :: "bytes \<Rightarrow> ContextData \<Rightarrow> ContextData" where
  "AsyncWrite_log msg ctx = ctx\<lparr>written := written ctx @ [msg]\<rparr>"

definition response_404 :: bytes where
  "response_404 = chars ''HTTP/1.1 404 OK'' @ crlf @ chars ''Content-Length: 0'' @ crlf @ crlf"

definition HttpContext_handlers :: handlers where
  "HttpContext_handlers = \<lparr>OnRequest = (\<lambda>ctx. ctx), OnBody = (\<lambda>_ ctx. ctx), OnComplete = AsyncWrite_log response_404\<rparr>"

text \<open>The context of the demo in \<open>httpserver/main.cc\<close>, without its output on the terminal.\<close>

definition response_200 :: bytes where
  "response_200 = chars ''HTTP/1.1 200 OK'' @ crlf @ chars ''Content-Length: 0'' @ crlf @ crlf"

definition MyHttpContext_handlers :: handlers where
  "MyHttpContext_handlers = \<lparr>OnRequest = (\<lambda>ctx. ctx), OnBody = (\<lambda>_ ctx. ctx), OnComplete = AsyncWrite_log response_200\<rparr>"

section \<open>Strings\<close>

definition to_lower :: "u8 \<Rightarrow> u8" where
  "to_lower c = (if 65 \<le> c \<and> c \<le> 90 then c + 32 else c)"

text \<open>\<open>std::string::find\<close> and \<open>std::map::insert\<close>.\<close>

fun string_find :: "bytes \<Rightarrow> bytes \<Rightarrow> nat option" where
  "string_find [] v = (if v = [] then Some 0 else None)"
| "string_find (c # s) v = (if take (length v) (c # s) = v then Some 0 else map_option Suc (string_find s v))"

definition map_insert :: "'k \<Rightarrow> 'v \<Rightarrow> ('k \<rightharpoonup> 'v) \<Rightarrow> ('k \<rightharpoonup> 'v)" where
  "map_insert k v m = (if m k = None then m(k \<mapsto> v) else m)"

definition c_amp :: u8 where "c_amp = 38"

text \<open>The items that \<open>std::getline\<close> with the delimiter \<open>&\<close> delivers, without the empty ones.\<close>

fun split_amp :: "bytes \<Rightarrow> bytes \<Rightarrow> bytes list" where
  "split_amp item [] = (if item = [] then [] else [item])"
| "split_amp item (c # s) =
     (if c = c_amp then (if item = [] then split_amp [] s else item # split_amp [] s)
      else split_amp (item @ [c]) s)"

definition split_param :: "bytes \<Rightarrow> bytes \<times> bytes" where
  "split_param e =
    (let k = takeWhile (\<lambda>c. c \<noteq> c_eq) e in (k, drop (length k + 1) e))"

section \<open>The callbacks\<close>

definition on_ctx :: "(ContextData \<Rightarrow> ContextData) \<Rightarrow> ContextData http_parser \<Rightarrow> int \<times> ContextData http_parser" where
  "on_ctx f q = (0, q\<lparr>hp_data := f (hp_data q)\<rparr>)"

definition message_begin_cb :: "ContextData http_parser \<Rightarrow> int \<times> ContextData http_parser" where
  "message_begin_cb q = on_ctx (\<lambda>ctx. ctx\<lparr>req_method := hp_method q\<rparr>) q"

definition header_field_cb :: "ContextData http_parser \<Rightarrow> bytes \<Rightarrow> int \<times> ContextData http_parser" where
  "header_field_cb q at = on_ctx (\<lambda>ctx. ctx\<lparr>tmp_header_key := tmp_header_key ctx @ at\<rparr>) q"

definition strip_host :: "bytes \<Rightarrow> bytes \<Rightarrow> bytes" where
  "strip_host p v =
    (if string_find p v \<noteq> None \<and> length p > 7 + length v then drop (7 + length v) p else p)"

definition header_value_cb :: "ContextData http_parser \<Rightarrow> bytes \<Rightarrow> int \<times> ContextData http_parser" where
  "header_value_cb q v = on_ctx (\<lambda>ctx.
     let k = map to_lower (tmp_header_key ctx);
         ctx = (if k = chars ''host'' then ctx\<lparr>req_path := strip_host (req_path ctx) v\<rparr> else ctx)
     in ctx\<lparr>request_headers := map_insert k v (request_headers ctx), tmp_header_key := []\<rparr>) q"

definition request_url_cb :: "ContextData http_parser \<Rightarrow> bytes \<Rightarrow> int \<times> ContextData http_parser" where
  "request_url_cb q at = on_ctx (\<lambda>ctx.
     let upath = takeWhile (\<lambda>c. c \<noteq> c_quest) at;
         ctx = ctx\<lparr>request_url := at, req_path := upath\<rparr>
     in if length upath < length at
        then ctx\<lparr>query_params := fold (\<lambda>e. case split_param e of (k, v) \<Rightarrow> map_insert k v)
                   (split_amp [] (drop (length upath + 1) at)) (query_params ctx)\<rparr>
        else ctx) q"

definition headers_complete_cb :: "handlers \<Rightarrow> ContextData http_parser \<Rightarrow> int \<times> ContextData http_parser" where
  "headers_complete_cb hs q = on_ctx (\<lambda>ctx. OnRequest hs (ctx\<lparr>req_content_length := hp_content_length q\<rparr>)) q"

definition body_cb :: "handlers \<Rightarrow> ContextData http_parser \<Rightarrow> bytes \<Rightarrow> int \<times> ContextData http_parser" where
  "body_cb hs q at = on_ctx (OnBody hs at) q"

definition message_complete_cb :: "handlers \<Rightarrow> ContextData http_parser \<Rightarrow> int \<times> ContextData http_parser" where
  "message_complete_cb hs q = (0, http_parser_init HTTP_REQUEST (snd (on_ctx (OnComplete hs) q)))"

definition response_status_cb :: "ContextData http_parser \<Rightarrow> bytes \<Rightarrow> int \<times> ContextData http_parser" where
  "response_status_cb q at = (0, q)"

definition context_settings :: "handlers \<Rightarrow> ContextData http_parser_settings" where
  "context_settings hs = http_parser_settings_init
     \<lparr>on_notify := (\<lambda>n. case n of
        N_message_begin \<Rightarrow> Some message_begin_cb
      | N_headers_complete \<Rightarrow> Some (headers_complete_cb hs)
      | N_message_complete \<Rightarrow> Some (message_complete_cb hs)
      | N_chunk_header \<Rightarrow> None
      | N_chunk_complete \<Rightarrow> None),
      on_data := (\<lambda>d. case d of
        D_url \<Rightarrow> Some request_url_cb
      | D_status \<Rightarrow> Some response_status_cb
      | D_header_field \<Rightarrow> Some header_field_cb
      | D_header_value \<Rightarrow> Some header_value_cb
      | D_body \<Rightarrow> Some (body_cb hs))\<rparr>"

section \<open>A connection's context\<close>

text \<open>
  The object behind a connection: the parser, which carries the data of the context, and the
  input buffer. The fields that the constructor leaves uninitialised (\<open>http_method_\<close>, \<open>content_length_\<close>) hold
  any value.
\<close>

record HttpContext =
  ctx_parser :: "ContextData http_parser"
  input_buffer :: IOBuf

definition fresh_context :: "http_method \<Rightarrow> u64 \<Rightarrow> ContextData" where
  "fresh_context meth clen = \<lparr>req_method = meth, request_url = [], req_path = [], req_content_length = clen,
     query_params = Map.empty, request_headers = Map.empty, tmp_header_key = [], written = []\<rparr>"

definition new_HttpContext :: "ContextData http_parser \<Rightarrow> http_method \<Rightarrow> u64 \<Rightarrow> HttpContext" where
  "new_HttpContext q meth clen =
     \<lparr>ctx_parser = http_parser_init HTTP_REQUEST q\<lparr>hp_data := fresh_context meth clen\<rparr>, input_buffer = new_IOBuf\<rparr>"

text \<open>
  \<open>Parse\<close> copies the message behind the input buffer and runs the parser on the copy. The
  byte behind the message lies inside the same allocation (at worst it is the reference
  count), so it can be read; it is the parameter \<open>beyond\<close>.
\<close>

definition Parse :: "handlers \<Rightarrow> u8 \<Rightarrow> bytes \<Rightarrow> HttpContext \<times> store \<Rightarrow> (HttpContext \<times> store) option" where
  "Parse hs beyond msg cm = (case cm of (c, m) \<Rightarrow> do {
     (data, avail, io, m) \<leftarrow> IOBuf_PreAllocate (input_buffer c) m;
     if uint avail < int (length msg) then Some (c\<lparr>input_buffer := io\<rparr>, m)
     else do {
       m \<leftarrow> write_mem data msg m;
       (io, m) \<leftarrow> IOBuf_PostAllocate (of_nat (length msg)) io m;
       r \<leftarrow> http_parser_execute (context_settings hs) msg (Some beyond) (ctx_parser c);
       (case r of
          Executed nparsed q \<Rightarrow> do {
            (io, m) \<leftarrow> IOBuf_TrimStart (of_nat nparsed) io m;
            Some (\<lparr>ctx_parser = q, input_buffer = io\<rparr>, m)
          }
        | _ \<Rightarrow> None)
     }
   })"

end
