(* ===== verification/Tcp_Server.thy ===== *)
theory Tcp_Server
  imports Http_Server
begin

text \<open>
  \<open>httpserver/tcp_server.cc\<close>: connections and the accepting server over \<open>boost::asio\<close>. An asynchronous
  operation is a request that the environment answers later by an event; the events of the
  server are the completions of an accept, a read and a write. The handlers of this model run one
  after the other, as they do with one thread. The code starts three threads and no strand: the
  handlers of different connections share nothing but the acceptor, which has one accept pending
  at a time, but two handlers of one connection, say of a failed write and of a message
  that is answered twice, may use its socket at the same time, and that is outside the model. A connection is kept alive by the handlers of its pending operations only,
  so it goes away, and its socket is closed, when a handler leaves none. The virtual methods are
  a record of functions on the context of a connection; what they ask of the connection is a
  list of actions.
\<close>

section \<open>Connections\<close>

definition max_msg :: nat where "max_msg = 4096"

text \<open>\<open>reads\<close> is the number of pending reads, \<open>writes\<close> the sizes of the pending writes in order.\<close>

record 'c TcpConnection =
  sock_open :: bool
  write_buffer :: "u8 option list"
  conn_context :: "'c option"
  reads :: nat
  writes :: "nat list"

definition CreateConnection :: "'c TcpConnection" where
  "CreateConnection = \<lparr>sock_open = False, write_buffer = replicate max_msg None, conn_context = None, reads = 0, writes = []\<rparr>"

definition AsyncRead :: "'c TcpConnection \<Rightarrow> 'c TcpConnection" where
  "AsyncRead c = c\<lparr>reads := reads c + 1\<rparr>"

text \<open>\<open>std::copy\<close> does not check the size of the buffer: a longer message is written past its end.\<close>

definition AsyncWrite :: "bytes \<Rightarrow> 'c TcpConnection \<Rightarrow> 'c TcpConnection option" where
  "AsyncWrite msg c =
    (if length msg \<le> max_msg
     then Some (c\<lparr>write_buffer := map Some msg @ drop (length msg) (write_buffer c), writes := writes c @ [length msg]\<rparr>)
     else None)"

text \<open>
  The \<open>close\<close> of a socket throws when the system call fails; nothing catches it. \<open>throws\<close> is the
  answer of the environment.
\<close>

definition Close :: "bool \<Rightarrow> 'c TcpConnection \<Rightarrow> 'c TcpConnection option" where
  "Close throws c = (if throws then None else Some (c\<lparr>sock_open := False\<rparr>))"

definition SetContext :: "'c \<Rightarrow> 'c TcpConnection \<Rightarrow> 'c TcpConnection" where
  "SetContext x c = c\<lparr>conn_context := Some x\<rparr>"

section \<open>Virtual methods\<close>

datatype action = Do_read | Do_write bytes

record 'c methods =
  OnNewConnection :: "'c option \<times> action list"
  OnMessage :: "bytes \<Rightarrow> 'c option \<Rightarrow> ('c option \<times> action list) option"

fun perform :: "action \<Rightarrow> 'c TcpConnection \<Rightarrow> 'c TcpConnection option" where
  "perform Do_read c = Some (AsyncRead c)"
| "perform (Do_write msg) c = AsyncWrite msg c"

fun perform_all :: "action list \<Rightarrow> 'c TcpConnection \<Rightarrow> 'c TcpConnection option" where
  "perform_all [] c = Some c"
| "perform_all (a # as) c = Option.bind (perform a c) (perform_all as)"

definition OnConnectionError :: "bool \<Rightarrow> 'c TcpConnection \<Rightarrow> 'c TcpConnection option" where
  "OnConnectionError throws c = Close throws c"

definition OnWriteComplete :: "'c TcpConnection \<Rightarrow> 'c TcpConnection" where
  "OnWriteComplete c = c"

text \<open>
  A read or a write has completed, with a result or with an error code; in the second case the
  environment also says whether closing the socket throws.
\<close>

datatype 'a io_result = Done 'a | Error bool

definition OnRead :: "'c methods \<Rightarrow> bytes io_result \<Rightarrow> 'c TcpConnection \<Rightarrow> 'c TcpConnection option" where
  "OnRead ms r c =
    (let c = c\<lparr>reads := reads c - 1\<rparr> in
     case r of
       Error throws \<Rightarrow> OnConnectionError throws c
     | Done msg \<Rightarrow> do {
         (x, acts) \<leftarrow> OnMessage ms msg (conn_context c);
         perform_all acts (c\<lparr>conn_context := x\<rparr>)
       })"

definition OnWrite :: "nat io_result \<Rightarrow> 'c TcpConnection \<Rightarrow> 'c TcpConnection option" where
  "OnWrite r c =
    (let c = c\<lparr>writes := tl (writes c)\<rparr> in
     case r of Error throws \<Rightarrow> OnConnectionError throws c | Done bytes \<Rightarrow> Some (OnWriteComplete c))"

section \<open>The server\<close>

record 'c TcpServer =
  conns :: "nat \<rightharpoonup> 'c TcpConnection"
  accepting :: "nat option"
  next_conn :: nat

definition new_TcpServer :: "'c TcpServer" where
  "new_TcpServer = \<lparr>conns = Map.empty, accepting = None, next_conn = 0\<rparr>"

definition async_accept :: "'c TcpServer \<Rightarrow> 'c TcpServer" where
  "async_accept s = s\<lparr>conns := (conns s)(next_conn s \<mapsto> CreateConnection), accepting := Some (next_conn s),
     next_conn := next_conn s + 1\<rparr>"

definition Start :: "'c TcpServer \<Rightarrow> 'c TcpServer" where
  "Start s = async_accept s"

text \<open>Once no operation of a connection is pending, nothing refers to it any more.\<close>

definition put_conn :: "nat \<Rightarrow> 'c TcpConnection \<Rightarrow> 'c TcpServer \<Rightarrow> 'c TcpServer" where
  "put_conn a c s = s\<lparr>conns := (conns s)(a := (if reads c = 0 \<and> writes c = [] then None else Some c))\<rparr>"

text \<open>\<open>HandleAccept\<close> does not look at the error code: a failed accept leaves the socket closed.\<close>

definition HandleAccept :: "'c methods \<Rightarrow> bool \<Rightarrow> 'c TcpServer \<Rightarrow> 'c TcpServer option" where
  "HandleAccept ms ok s = do {
     a \<leftarrow> accepting s;
     c \<leftarrow> conns s a;
     let s = async_accept s;
     let (x, acts) = OnNewConnection ms;
     let c = c\<lparr>sock_open := ok\<rparr>;
     c \<leftarrow> perform_all acts (case x of None \<Rightarrow> c | Some y \<Rightarrow> SetContext y c);
     Some (put_conn a c s)
   }"

datatype completion = Accepted bool | Read_done nat "bytes io_result" | Write_done nat "nat io_result"

definition handle :: "'c methods \<Rightarrow> completion \<Rightarrow> 'c TcpServer \<Rightarrow> 'c TcpServer option" where
  "handle ms e s =
    (case e of
       Accepted ok \<Rightarrow> HandleAccept ms ok s
     | Read_done a r \<Rightarrow> do { c \<leftarrow> conns s a; c \<leftarrow> OnRead ms r c; Some (put_conn a c s) }
     | Write_done a r \<Rightarrow> do { c \<leftarrow> conns s a; c \<leftarrow> OnWrite r c; Some (put_conn a c s) })"

text \<open>What the environment may do: only pending operations complete, and they succeed only on an open socket.\<close>

definition event_possible :: "completion \<Rightarrow> 'c TcpServer \<Rightarrow> bool" where
  "event_possible e s =
    (case e of
       Accepted ok \<Rightarrow> accepting s \<noteq> None
     | Read_done a r \<Rightarrow>
         (case conns s a of
            None \<Rightarrow> False
          | Some c \<Rightarrow> reads c > 0 \<and>
              (case r of Error t \<Rightarrow> True | Done msg \<Rightarrow> sock_open c \<and> msg \<noteq> [] \<and> length msg \<le> max_msg))
     | Write_done a r \<Rightarrow>
         (case conns s a of
            None \<Rightarrow> False
          | Some c \<Rightarrow> writes c \<noteq> [] \<and> (case r of Error t \<Rightarrow> True | Done n \<Rightarrow> sock_open c \<and> n \<le> hd (writes c))))"

text \<open>The events whose handler closes a socket that cannot be closed.\<close>

definition close_throws :: "completion \<Rightarrow> bool" where
  "close_throws e = (case e of Read_done a (Error t) \<Rightarrow> t | Write_done a (Error t) \<Rightarrow> t | _ \<Rightarrow> False)"

section \<open>The servers of the repository\<close>

text \<open>\<open>TcpServer\<close> itself and the server of the demo that keeps reading.\<close>

definition TcpServer_methods :: "unit methods" where
  "TcpServer_methods = \<lparr>OnNewConnection = (None, [Do_read]), OnMessage = (\<lambda>msg x. Some (x, []))\<rparr>"

definition MyTcpServer_methods :: "unit methods" where
  "MyTcpServer_methods = \<lparr>OnNewConnection = (None, [Do_read]), OnMessage = (\<lambda>msg x. Some (x, [Do_read]))\<rparr>"

text \<open>
  \<open>HttpServer\<close>: the context of a connection is an \<open>HttpContext\<close> with its store, and what its
  handlers write while a message is parsed is written to the connection. Without a context the
  \<open>any_cast\<close> throws.
\<close>

definition new_writes :: "HttpContext \<Rightarrow> HttpContext \<Rightarrow> action list" where
  "new_writes c c' = map Do_write
    (drop (length (written (hp_data (ctx_parser c)))) (written (hp_data (ctx_parser c'))))"

definition HttpServer_methods ::
    "handlers \<Rightarrow> u8 \<Rightarrow> HttpContext \<Rightarrow> (HttpContext \<times> store) methods" where
  "HttpServer_methods hs beyond fresh = \<lparr>
     OnNewConnection = (Some (fresh, new_store), [Do_read]),
     OnMessage = (\<lambda>msg x.
       case x of
         None \<Rightarrow> None
       | Some (c, m) \<Rightarrow> do {
           (c', m') \<leftarrow> Parse hs beyond msg (c, m);
           Some (Some (c', m'), new_writes c c')
         })\<rparr>"

text \<open>
  The server of the demo \<open>main.cc\<close>: its contexts answer every request with 200. \<open>q\<close>, \<open>meth\<close> and \<open>clen\<close> are
  what the constructor of the context leaves uninitialised.
\<close>

definition MyHttpServer_methods :: "u8 \<Rightarrow> ContextData http_parser \<Rightarrow> http_method \<Rightarrow> u64 \<Rightarrow> (HttpContext \<times> store) methods" where
  "MyHttpServer_methods beyond q meth clen =
     HttpServer_methods MyHttpContext_handlers beyond (new_HttpContext q meth clen)"

text \<open>
  The threads of the server run the handlers as long as an operation is pending; \<open>Wait\<close>, which joins them,
  returns once none is. \<open>main\<close> starts the server and waits: the state after the completions
  \<open>es\<close>, and whether \<open>main\<close> returns then.
\<close>

definition Wait :: "'c TcpServer \<Rightarrow> bool" where
  "Wait s \<longleftrightarrow> accepting s = None \<and> (\<forall>a < next_conn s. conns s a = None)"

fun run_events :: "'c methods \<Rightarrow> completion list \<Rightarrow> 'c TcpServer \<Rightarrow> 'c TcpServer option" where
  "run_events ms [] s = Some s"
| "run_events ms (e # es) s = (if event_possible e s then Option.bind (handle ms e s) (run_events ms es) else None)"

definition http_main :: "(HttpContext \<times> store) methods \<Rightarrow> completion list \<Rightarrow> ((HttpContext \<times> store) TcpServer \<times> bool) option" where
  "http_main ms es = map_option (\<lambda>s. (s, Wait s)) (run_events ms es (Start new_TcpServer))"

end
