(* ===== verification/Http_Data.thy ===== *)
theory Http_Data
  imports Http_Parser_Props
begin

text \<open>
  The parser touches the object behind its \<open>data\<close> pointer only through the callbacks: what
  every callback preserves, \<open>http_parser_execute\<close> preserves. \<open>ctl_data P c\<close> says that \<open>P\<close> holds of
  the user data in the outcome \<open>c\<close> of a piece of code.
\<close>

definition callbacks_keep :: "('d \<Rightarrow> bool) \<Rightarrow> 'd http_parser_settings \<Rightarrow> bool" where
  "callbacks_keep P st \<longleftrightarrow>
    (\<forall>n f q. on_notify st n = Some f \<longrightarrow> P (hp_data q) \<longrightarrow> P (hp_data (snd (f q)))) \<and>
    (\<forall>d f q bs. on_data st d = Some f \<longrightarrow> P (hp_data q) \<longrightarrow> P (hp_data (snd (f q bs))))"

definition ctl_data :: "('d \<Rightarrow> bool) \<Rightarrow> 'd ctl \<Rightarrow> bool" where
  "ctl_data P c = (case c of
      Break x \<Rightarrow> P (hp_data (parser x)) | Reexecute x \<Rightarrow> P (hp_data (parser x))
    | Goto_error x \<Rightarrow> P (hp_data (parser x)) | Return n q \<Rightarrow> P (hp_data q) | _ \<Rightarrow> True)"

lemma ctl_data_simps [simp]:
  "ctl_data P (Break x) = P (hp_data (parser x))" "ctl_data P (Reexecute x) = P (hp_data (parser x))"
  "ctl_data P (Goto_error x) = P (hp_data (parser x))" "ctl_data P (Return n q) = P (hp_data q)"
  "ctl_data P Abort" "ctl_data P Read_beyond"
  by (simp_all add: ctl_data_def)

lemma ctl_data_exits [simp]:
  "ctl_data P (fail e x) = P (hp_data (parser x))" "ctl_data P (ret n x) = P (hp_data (parser x))"
  "ctl_data P (strict_check c x k) = (if c then P (hp_data (parser x)) else ctl_data P k)"
  by (simp_all add: fail_def ret_def strict_check_def set_errno_def)

lemma ctl_data_proceed:
  assumes "ctl_data P c" and "\<And>x. P (hp_data (parser x)) \<Longrightarrow> ctl_data P (k x)"
  shows "ctl_data P (proceed c k)"
  using assms by (cases c) (simp_all add: proceed_def)

lemma ctl_data_count [simp]: "ctl_data P (COUNT_HEADER_SIZE n x) = P (hp_data (parser x))"
  by (simp add: COUNT_HEADER_SIZE_def Let_def)

lemma ctl_data_notify:
  assumes "callbacks_keep P st" and "P (hp_data (parser x))"
  shows "ctl_data P (callback_notify st n e x)"
proof (cases "on_notify st n")
  case (Some f)
  have "P (hp_data (snd (f ((parser x)\<lparr>hp_state := cur x\<rparr>))))"
    using assms Some unfolding callbacks_keep_def by simp
  with Some show ?thesis
    by (cases "f ((parser x)\<lparr>hp_state := cur x\<rparr>)") (simp add: callback_notify_def Let_def)
qed (use assms(2) in \<open>simp add: callback_notify_def\<close>)

lemma ctl_data_callback:
  assumes "callbacks_keep P st" and "P (hp_data (parser x))"
  shows "ctl_data P (callback_data st data d till e x)"
proof (cases "on_data st d")
  case (Some f)
  have "P (hp_data (snd (f ((parser x)\<lparr>hp_state := cur x\<rparr>) bs)))" for bs
    using assms Some unfolding callbacks_keep_def by simp
  note keep = this
  show ?thesis
  proof (cases "marks x d")
    case m: (Some m)
    with Some keep [of "take (till - m) (drop m data)"] show ?thesis
      by (cases "f ((parser x)\<lparr>hp_state := cur x\<rparr>) (take (till - m) (drop m data))") (simp add: callback_data_def Let_def)
  qed (use assms(2) in \<open>simp add: callback_data_def\<close>)
qed (use assms(2) in \<open>simp add: callback_data_def split: option.splits\<close>)

lemmas ctl_data_calls = ctl_data_notify ctl_data_callback

lemmas call_defs = CALLBACK_NOTIFY_def CALLBACK_NOTIFY_NOADVANCE_def CALLBACK_DATA_def CALLBACK_DATA_NOADVANCE_def

lemma data_simps [simp]:
  "hp_data (set_flag f q) = hp_data q" "hp_data (finish_header q) = hp_data q" "hp_data (set_upgrade q) = hp_data q"
  by (simp_all add: set_flag_def finish_header_def set_upgrade_def split: header_states.split)

lemma data_begin [simp]: "hp_data (parser (begin_message x)) = hp_data (parser x)"
  by (simp add: begin_message_def)

lemma data_take_body [simp]: "hp_data (parser (take_body data x)) = hp_data (parser x)"
  by (simp add: take_body_def Let_def)

lemma ctl_data_url_byte [simp]: "ctl_data P (url_byte x) = P (hp_data (parser x))"
  by (simp add: url_byte_def Let_def)

lemma header_value_step_data:
  "header_value_step h ch q = V_next h' q' \<Longrightarrow> hp_data q' = hp_data q"
  "header_value_step h ch q = V_bad e q' \<Longrightarrow> hp_data q' = hp_data q"
  by (cases h; force simp: header_value_step_def value_match_def connection_token_end_def Let_def
      split: if_splits prod.splits)+

lemma header_value_loop_data:
  "header_value_loop lax bs n h ch q = (stop, n', h', ch', q') \<Longrightarrow> hp_data q' = hp_data q"
  by (induction lax bs n h ch q rule: header_value_loop.induct)
    (auto simp: Let_def header_value_step_data split: if_splits value_next.splits)

section \<open>Every state of the switch\<close>

lemma ctl_data_simple:
  assumes "P (hp_data (parser x))"
  shows "ctl_data P (exec_dead x)" "ctl_data P (exec_res_or_resp_H x)" "ctl_data P (exec_res_version x)"
    "ctl_data P (exec_req_method x)" "ctl_data P (exec_spaces_before_url x)" "ctl_data P (exec_url_start x)"
    "ctl_data P (exec_req_version x)" "ctl_data P (exec_header_field_start x)" "ctl_data P (exec_header_value_start x)"
    "ctl_data P (exec_value_discard_ws x)"
proof -
  show v: "ctl_data P (exec_header_value_start x)"
    using assms by (cases "hp_header_state (parser x)") (simp_all add: exec_header_value_start_def Let_def)
  show "ctl_data P (exec_value_discard_ws x)" using v assms by (simp add: exec_value_discard_ws_def)
  show "ctl_data P (exec_req_method x)"
    using assms by (simp add: exec_req_method_def Let_def split: option.split)
  show "ctl_data P (exec_res_version x)" "ctl_data P (exec_req_version x)"
    using assms by (cases "cur x"; simp add: exec_res_version_def exec_req_version_def)+
qed (use assms in \<open>simp_all add: exec_dead_def exec_res_or_resp_H_def exec_spaces_before_url_def exec_url_start_def
  exec_header_field_start_def Let_def\<close>)

lemma ctl_data_lines:
  assumes "callbacks_keep P st" and "P (hp_data (parser x))"
  shows "ctl_data P (exec_start_req_or_res st x)" "ctl_data P (exec_start_res st x)" "ctl_data P (exec_start_req st data beyond x)"
    "ctl_data P (exec_res_status st data x)" "ctl_data P (exec_url st data x)"
  using assms
  by (simp_all add: exec_start_req_or_res_def exec_start_res_def exec_start_req_def exec_url_def call_defs ctl_data_calls Let_def
      split: option.split)
    (cases "cur x"; simp add: exec_res_status_def call_defs ctl_data_calls Let_def)

lemma ctl_data_headers:
  assumes "callbacks_keep P st" and "P (hp_data (parser x))"
  shows "ctl_data P (exec_header_field st data x)" "ctl_data P (exec_header_value st data x)"
    "ctl_data P (exec_header_end st data x)"
proof -
  show "ctl_data P (exec_header_field st data x)"
    using assms by (auto simp: exec_header_field_def Let_def call_defs ctl_data_calls intro!: ctl_data_proceed split: option.split)
  show "ctl_data P (exec_header_value st data x)"
  proof -
    obtain stop n h ch q where l: "header_value_loop (lenient x) (drop (pos x) data) 0 (hp_header_state (parser x)) (cch x) (parser x) =
      (stop, n, h, ch, q)" by (cases "header_value_loop (lenient x) (drop (pos x) data) 0 (hp_header_state (parser x)) (cch x) (parser x)")
    from header_value_loop_data [OF l] assms show ?thesis
      by (cases stop) (auto simp: exec_header_value_def l Let_def call_defs ctl_data_calls intro!: ctl_data_proceed)
  qed
  show "ctl_data P (exec_header_end st data x)"
    using assms by (cases "cur x") (auto simp: exec_header_end_def call_defs ctl_data_calls intro!: ctl_data_proceed)
qed

lemma ctl_data_headers_complete:
  assumes "callbacks_keep P st" and "P (hp_data (parser x))"
  shows "ctl_data P (headers_complete st x)"
proof (cases "on_notify st N_headers_complete")
  case (Some f)
  have "P (hp_data (snd (f (parser x))))" using assms Some unfolding callbacks_keep_def by simp
  with Some show ?thesis by (cases "f (parser x)") (simp add: headers_complete_def Let_def set_errno_def)
qed (use assms(2) in \<open>simp add: headers_complete_def\<close>)

lemma ctl_data_bodies:
  assumes "callbacks_keep P st" and "P (hp_data (parser x))"
  shows "ctl_data P (exec_headers_almost_done st x)" "ctl_data P (exec_headers_done st x)" "ctl_data P (exec_message_done st x)"
    "ctl_data P (exec_body st data x)" "ctl_data P (exec_chunk_size st x)" "ctl_data P (exec_chunk_data st data x)"
proof -
  show "ctl_data P (exec_headers_almost_done st x)"
    using assms by (auto simp: exec_headers_almost_done_def call_defs ctl_data_calls ctl_data_headers_complete intro!: ctl_data_proceed)
  show "ctl_data P (exec_headers_done st x)"
    using assms by (auto simp: exec_headers_done_def Let_def call_defs ctl_data_calls intro!: ctl_data_proceed)
  show "ctl_data P (exec_message_done st x)"
    using assms by (auto simp: exec_message_done_def call_defs ctl_data_calls intro!: ctl_data_proceed)
  show "ctl_data P (exec_body st data x)"
    using assms by (cases "cur x") (auto simp: exec_body_def Let_def call_defs ctl_data_calls intro!: ctl_data_proceed)
  show "ctl_data P (exec_chunk_size st x)"
    using assms by (cases "cur x") (auto simp: exec_chunk_size_def Let_def call_defs ctl_data_calls)
  show "ctl_data P (exec_chunk_data st data x)"
    using assms by (cases "cur x") (auto simp: exec_chunk_data_def Let_def call_defs ctl_data_calls)
qed

lemmas ctl_data_states = ctl_data_simple ctl_data_lines ctl_data_headers ctl_data_bodies

lemma ctl_data_switch:
  assumes "callbacks_keep P st" and "P (hp_data (parser x))"
  shows "ctl_data P (exec_switch st data beyond x)"
  using assms by (cases "cur x") (simp_all add: exec_switch_def ctl_data_states)

lemma ctl_data_round:
  assumes "callbacks_keep P st" and "P (hp_data (parser x))"
  shows "ctl_data P (exec_round st data beyond re x)"
  unfolding exec_round_def
  by (rule ctl_data_proceed) (use assms in \<open>auto simp: next_byte_def Let_def ctl_data_switch\<close>)

lemma ctl_data_leftover:
  assumes "callbacks_keep P st" and "P (hp_data (parser x))"
  shows "ctl_data P (leftover_callbacks st data x)"
  using assms by (auto simp: leftover_callbacks_def call_defs ctl_data_calls intro!: ctl_data_proceed)

lemma exec_loop_data:
  assumes "callbacks_keep P st" and "exec_loop st data beyond re x = Some (Executed n q)" and "P (hp_data (parser x))"
  shows "P (hp_data q)"
proof -
  have "\<forall>n q. r = Executed n q \<longrightarrow> callbacks_keep P st \<longrightarrow> P (hp_data (parser x)) \<longrightarrow> P (hp_data q)"
    if "exec_loop st data beyond re x = Some r" for r
  proof (rule exec_loop.raw_induct [where xa = "((((st, data), beyond), re), x)" and P = "\<lambda>st data beyond re x r.
      \<forall>n q. r = Executed n q \<longrightarrow> callbacks_keep P st \<longrightarrow> P (hp_data (parser x)) \<longrightarrow> P (hp_data q)",
      unfolded prod.case, OF _ that], goal_cases)
    case (1 f st data beyond re x r)
    show ?case
    proof (intro allI impI)
      fix n q assume r: "r = Executed n q" and P: "callbacks_keep P st" "P (hp_data (parser x))"
      note left = ctl_data_leftover [OF P, of data] and round = ctl_data_round [OF P, of data beyond re]
      show "P (hp_data q)"
      proof (cases "\<not> re \<and> pos x = length data")
        case True
        with 1(2) r left show ?thesis
          by (cases "leftover_callbacks st data x") (simp_all add: result_of_def)
      next
        case False
        show ?thesis
        proof (cases "exec_round st data beyond re x")
          case (Break x')
          with 1(2) False have "f st data beyond False (x'\<lparr>pos := pos x' + 1\<rparr>) = Some r" by simp
          from 1(1) [OF this] round Break r P(1) show ?thesis by simp
        next
          case (Reexecute x')
          with 1(2) False have "f st data beyond True x' = Some r" by simp
          from 1(1) [OF this] round Reexecute r P(1) show ?thesis by simp
        next
          case (Goto_error x')
          with 1(2) False r round show ?thesis by (auto simp: error_exit_def ret_def result_of_def set_errno_def)
        next
          case (Return k q')
          with 1(2) False r round show ?thesis by simp
        qed (use 1(2) False r in simp_all)
      qed
    qed
  qed
  with assms show ?thesis by blast
qed

text \<open>What the callbacks preserve of the user data, a call of the parser preserves.\<close>

lemma http_parser_execute_data:
  assumes "callbacks_keep P st" and "http_parser_execute st data beyond q = Some (Executed n q')" and "P (hp_data q)"
  shows "P (hp_data q')"
proof -
  note notify = ctl_data_notify [OF assms(1), of "initial_exec q" N_message_complete "pos (initial_exec q)"]
  have i: "hp_data (parser (initial_exec q)) = hp_data q" by (simp add: initial_exec_def)
  from assms(2,3) notify exec_loop_data [OF assms(1), of data beyond False "initial_exec q" n q'] i show ?thesis
    unfolding http_parser_execute_def
    by (cases "CALLBACK_NOTIFY_NOADVANCE st N_message_complete (initial_exec q)")
      (auto simp: call_defs result_of_def split: if_splits)
qed

end
