(* ===== verification/Http_Server_Props.thy ===== *)
theory Http_Server_Props
  imports Http_Server Http_Data
begin

text \<open>
  The context of a connection at work: the parser with the callbacks of the server, together
  with the input buffer, survives every sequence of messages; what the callbacks record of a
  request; and what they get wrong.
\<close>

section \<open>Safety\<close>

lemma context_benign: "benign (context_settings hs)"
proof -
  have "keeps_parser q (q\<lparr>hp_data := d\<rparr>)" for q :: "ContextData http_parser" and d
    unfolding keeps_parser_def by (intro exI [of _ d] exI [of _ "hp_errno q"]) simp
  moreover have "keeps_parser q q" for q :: "ContextData http_parser"
    unfolding keeps_parser_def by (intro exI [of _ "hp_data q"] exI [of _ "hp_errno q"]) simp
  moreover have "reinits_parser q (http_parser_init HTTP_REQUEST (q\<lparr>hp_data := d\<rparr>))" for q :: "ContextData http_parser" and d
    unfolding reinits_parser_def by (intro exI [of _ HTTP_REQUEST] exI [of _ d]) (simp add: http_parser_init_def)
  ultimately show ?thesis
    by (auto simp: benign_def context_settings_def message_begin_cb_def headers_complete_cb_def message_complete_cb_def
        request_url_cb_def response_status_cb_def header_field_cb_def header_value_cb_def body_cb_def on_ctx_def
        split: notify.splits data_cb.splits)
qed

text \<open>A connection in order: a reachable parser and an IOBuf that holds \<open>s\<close>.\<close>

definition context_ok :: "handlers \<Rightarrow> HttpContext \<times> store \<Rightarrow> bytes \<Rightarrow> bool" where
  "context_ok hs cm s \<longleftrightarrow> (case cm of (c, m) \<Rightarrow>
     parser_reachable (context_settings hs) (ctx_parser c) \<and> holds (input_buffer c, m) s)"

lemma new_context_ok: "context_ok hs (new_HttpContext q meth clen, new_store) []"
proof -
  have "http_parser_init HTTP_REQUEST q\<lparr>hp_data := fresh_context meth clen\<rparr> =
    http_parser_init HTTP_REQUEST (http_parser_init HTTP_REQUEST q\<lparr>hp_data := fresh_context meth clen\<rparr>)"
    by (simp add: http_parser_init_def)
  then have "parser_reachable (context_settings hs) (http_parser_init HTTP_REQUEST q\<lparr>hp_data := fresh_context meth clen\<rparr>)"
    by (metis reach_init)
  then show ?thesis using holds_new by (simp add: context_ok_def new_HttpContext_def)
qed

lemma holds_rear:
  assumes "holds (io, m) s"
  obtains bs where "store_ok m" "io_inv m io bs" "rear_alone m bs" "unshared m" "dom (bdata m) = set bs"
    "io_text m bs = map Some s"
  using assms unshared_rear by (auto simp: holds_def)

lemma fold_pre_allocate_small:
  assumes "IOBuf_PreAllocate io m = Some (p, avail, io1, m1)" and "avail \<noteq> kDefaultBufferSize - sizeof_SharedInfo"
  shows "io1 = io \<and> m1 = m"
  using assms
  by (auto simp: IOBuf_PreAllocate_def new_Block_def Let_def split: option.splits Option.bind_splits if_splits)

lemma holds_append_round:
  assumes h: "holds (io, m) s" and fit: "int (length msg) \<le> free_space io m"
  obtains p avail io1 m1 m2 io3 m3 where
    "IOBuf_PreAllocate io m = Some (p, avail, io1, m1)" "int (length msg) \<le> uint avail" "write_mem p msg m1 = Some m2"
    "IOBuf_PostAllocate (of_nat (length msg)) io1 m2 = Some (io3, m3)" "holds (io3, m3) (s @ msg)"
proof -
  from h obtain bs where b: "store_ok m" "io_inv m io bs" "rear_alone m bs" "unshared m" "dom (bdata m) = set bs"
    "io_text m bs = map Some s" by (rule holds_rear)
  have le: "length msg \<le> rear_space m bs" using fit free_space_rear [OF b(1-3)] by simp
  with b(1-3) obtain p io1 m1 m2 io3 m3 bs3 where r:
    "IOBuf_PreAllocate io m = Some (p, of_nat (rear_space m bs), io1, m1)" "write_mem p msg m1 = Some m2"
    "IOBuf_PostAllocate (of_nat (length msg)) io1 m2 = Some (io3, m3)" "store_ok m3" "io_inv m3 io3 bs3"
    "io_text m3 bs3 = io_text m bs @ map Some msg" "dom (bdata m3) = dom (bdata m) \<union> set bs3" "only_new m m3"
    "set bs \<subseteq> set bs3" by (rule append_round)
  have "uint (of_nat (rear_space m bs) :: u64) = int (rear_space m bs)"
    using unat_of_nat_small [OF rear_space_le, of m bs] by (metis uint_nat)
  moreover have "holds (io3, m3) (s @ msg)"
    by (rule holdsI [OF r(4) unshared_new [OF b(4) r(8)] r(5)]) (use r(6,7,9) b(5,6) in auto)
  ultimately show thesis using r le by (intro that [OF r(1) _ r(2,3)]) simp_all
qed

lemma holds_trim:
  assumes "holds (io, m) s"
  obtains io' m' where "IOBuf_TrimStart n io m = Some (io', m')" "holds (io', m') (drop (unat n) s)"
  using holds_step [OF assms, of "Cut_front n"] by auto

lemma holds_no_space:
  assumes h: "holds (io, m) s" and no: "\<not> int (length msg) \<le> free_space io m" and len: "length msg \<le> capacity"
  obtains p avail where "IOBuf_PreAllocate io m = Some (p, avail, io, m)" "uint avail < int (length msg)"
proof -
  from h obtain bs where b: "store_ok m" "io_inv m io bs" "rear_alone m bs" by (rule holds_rear)
  then obtain p io1 m1 where pre: "IOBuf_PreAllocate io m = Some (p, of_nat (rear_space m bs), io1, m1)"
    by (rule pre_allocate) blast
  have u: "uint (of_nat (rear_space m bs) :: u64) = int (rear_space m bs)"
    using unat_of_nat_small [OF rear_space_le, of m bs] by (metis uint_nat)
  have lt: "rear_space m bs < length msg" using no free_space_rear [OF b] by simp
  then have "of_nat (rear_space m bs) \<noteq> kDefaultBufferSize - sizeof_SharedInfo"
    using u len capacity_word(2) by (metis nat_int not_less)
  with pre fold_pre_allocate_small have "io1 = io \<and> m1 = m" by blast
  with pre u lt show thesis by (intro that) auto
qed

text \<open>
  One message: it is dropped when it does not fit behind the last block of the input buffer;
  otherwise the parser runs on it and as many bytes as the parser took leave the front of the
  buffer.
\<close>

lemma Parse_step:
  assumes ok: "context_ok hs (c, m) s" and len: "length msg \<le> capacity"
  obtains c' m' s' where "Parse hs beyond msg (c, m) = Some (c', m')" "context_ok hs (c', m') s'"
    "int (length msg) \<le> free_space (input_buffer c) m \<Longrightarrow> \<exists>n. n \<le> max 1 (length msg) \<and> s' = drop n (s @ msg) \<and>
      http_parser_execute (context_settings hs) msg (Some beyond) (ctx_parser c) = Some (Executed n (ctx_parser c'))"
    "\<not> int (length msg) \<le> free_space (input_buffer c) m \<Longrightarrow> c' = c \<and> m' = m \<and> s' = s"
proof -
  from ok have reach: "parser_reachable (context_settings hs) (ctx_parser c)" and h: "holds (input_buffer c, m) s"
    by (simp_all add: context_ok_def)
  show thesis
  proof (cases "int (length msg) \<le> free_space (input_buffer c) m")
    case True
    from h True obtain p avail io1 m1 m2 io3 m3 where a:
      "IOBuf_PreAllocate (input_buffer c) m = Some (p, avail, io1, m1)" "int (length msg) \<le> uint avail"
      "write_mem p msg m1 = Some m2" "IOBuf_PostAllocate (of_nat (length msg)) io1 m2 = Some (io3, m3)"
      "holds (io3, m3) (s @ msg)" by (rule holds_append_round)
    obtain n q where e: "http_parser_execute (context_settings hs) msg (Some beyond) (ctx_parser c) = Some (Executed n q)"
      "n \<le> length msg \<or> (msg = [] \<and> n = 1 \<and> hp_errno q = HPE_INVALID_EOF_STATE)"
      using execute_ok [OF context_benign reachable_ok [OF context_benign reach]] by blast
    have nm: "n \<le> max 1 (length msg)" using e(2) by auto
    then have un: "unat (of_nat n :: u64) = n" using len by (intro unat_of_nat_small) (auto simp: capacity_def)
    from a(5) obtain io4 m4 where t: "IOBuf_TrimStart (of_nat n) io3 m3 = Some (io4, m4)" "holds (io4, m4) (drop n (s @ msg))"
      using holds_trim [of io3 m3 "s @ msg" "of_nat n"] un by metis
    have "Parse hs beyond msg (c, m) = Some (\<lparr>ctx_parser = q, input_buffer = io4\<rparr>, m4)"
      using a e(1) t(1) by (simp add: Parse_def)
    moreover have "context_ok hs (\<lparr>ctx_parser = q, input_buffer = io4\<rparr>, m4) (drop n (s @ msg))"
      using t(2) reach_exec [OF reach e(1)] by (simp add: context_ok_def)
    ultimately show thesis using True nm e(1) by (intro that) auto
  next
    case False
    from h False len obtain p avail where "IOBuf_PreAllocate (input_buffer c) m = Some (p, avail, input_buffer c, m)"
      "uint avail < int (length msg)" by (rule holds_no_space)
    then have "Parse hs beyond msg (c, m) = Some (c, m)" by (simp add: Parse_def)
    with ok False show thesis by (intro that) auto
  qed
qed

text \<open>A sequence of messages, each with the byte behind its copy.\<close>

fun parse_all :: "handlers \<Rightarrow> (u8 \<times> bytes) list \<Rightarrow> HttpContext \<times> store \<Rightarrow> (HttpContext \<times> store) option" where
  "parse_all hs [] cm = Some cm"
| "parse_all hs ((b, msg) # msgs) cm = Option.bind (Parse hs b msg cm) (parse_all hs msgs)"

lemma parse_all_ok:
  assumes "context_ok hs cm s" and "list_all (\<lambda>(b, msg). length msg \<le> capacity) msgs"
  shows "\<exists>cm' s'. parse_all hs msgs cm = Some cm' \<and> context_ok hs cm' s'"
  using assms
proof (induction msgs arbitrary: cm s)
  case (Cons bm msgs)
  obtain b msg c m where bm: "bm = (b, msg)" "cm = (c, m)" by (cases bm, cases cm) auto
  from Cons.prems bm have "context_ok hs (c, m) s" "length msg \<le> capacity" by simp_all
  then obtain c' m' s' where "Parse hs b msg (c, m) = Some (c', m')" "context_ok hs (c', m') s'" by (rule Parse_step) blast
  with Cons.IH [of "(c', m')" s'] Cons.prems(2) bm show ?case by simp
qed auto

text \<open>
  C16. Whatever the messages of a connection are, as long as none is longer than a block (a read
  delivers at most 4096 bytes), with any handlers of the application: \<open>Parse\<close> always returns, no assertion of
  the parser or the buffer fails, nothing outside the buffers is read or written, and afterwards the
  input buffer still is a list of bytes whose destruction frees everything.
\<close>

theorem http_context_survives_messages:
  assumes "list_all (\<lambda>(b, msg). length msg \<le> capacity) msgs"
  shows "\<exists>c m s. parse_all hs msgs (new_HttpContext q meth clen, new_store) = Some (c, m) \<and>
    parser_reachable (context_settings hs) (ctx_parser c) \<and>
    IOBuf_ToString (input_buffer c) m = Some s \<and>
    (\<exists>io' m'. IOBuf_destroy (input_buffer c) m = Some (io', m') \<and> blocks m' = Map.empty \<and> buffers m' = Map.empty)"
proof -
  from parse_all_ok [where hs = hs and cm = "(new_HttpContext q meth clen, new_store)", OF new_context_ok assms] obtain c m s where
    "parse_all hs msgs (new_HttpContext q meth clen, new_store) = Some (c, m)" and ok: "context_ok hs (c, m) s" by auto
  with holds_read(1) [of "input_buffer c" m s] holds_destroy [of "input_buffer c" m s] show ?thesis
    by (auto simp: context_ok_def)
qed

text \<open>
  After the parser has reported an error the context is dead but keeps growing: every further message
  that fits is appended to the input buffer, nothing is parsed and nothing is removed.
\<close>

theorem dead_context_accumulates:
  assumes "context_ok hs (c, m) s" and "hp_errno (ctx_parser c) \<noteq> HPE_OK"
    and "length msg \<le> capacity" and "int (length msg) \<le> free_space (input_buffer c) m"
  shows "\<exists>c' m'. Parse hs beyond msg (c, m) = Some (c', m') \<and> ctx_parser c' = ctx_parser c \<and>
    IOBuf_ToString (input_buffer c') m' = Some (s @ msg)"
proof -
  from assms(1,3) obtain c' m' s' where p: "Parse hs beyond msg (c, m) = Some (c', m')" "context_ok hs (c', m') s'"
    and n: "int (length msg) \<le> free_space (input_buffer c) m \<Longrightarrow> \<exists>n. n \<le> max 1 (length msg) \<and> s' = drop n (s @ msg) \<and>
      http_parser_execute (context_settings hs) msg (Some beyond) (ctx_parser c) = Some (Executed n (ctx_parser c'))"
    by (rule Parse_step [where beyond = beyond]) blast
  from n [OF assms(4)] assms(2) have "s' = s @ msg" "ctx_parser c' = ctx_parser c"
    by (auto simp: http_parser_execute_def)
  with p holds_read(1) [of "input_buffer c'" m' s'] show ?thesis by (auto simp: context_ok_def)
qed

section \<open>What is recorded of a request\<close>

text \<open>Printed query parameters: names and values joined by \<open>=\<close>, parameters by \<open>&\<close>.\<close>

fun print_params :: "(bytes \<times> bytes) list \<Rightarrow> bytes" where
  "print_params [] = []"
| "print_params [(k, v)] = k @ c_eq # v"
| "print_params ((k, v) # p # ps) = k @ c_eq # v @ c_amp # print_params (p # ps)"

definition plain_param :: "bytes \<times> bytes \<Rightarrow> bool" where
  "plain_param p \<longleftrightarrow> (case p of (k, v) \<Rightarrow> c_eq \<notin> set k \<and> c_amp \<notin> set k \<and> c_amp \<notin> set v)"

lemma split_amp_prefix: "c_amp \<notin> set e \<Longrightarrow> split_amp item (e @ s) = split_amp (item @ e) s"
  by (induction e arbitrary: item) auto

lemma c_eq_amp: "c_eq \<noteq> c_amp"
  by (simp add: c_amp_def)

lemma split_print_params:
  "list_all plain_param ps \<Longrightarrow> split_amp [] (print_params ps) = map (\<lambda>(k, v). k @ c_eq # v) ps"
proof (induction ps rule: print_params.induct)
  case (2 k v)
  then show ?case using split_amp_prefix [of "k @ c_eq # v" "[]" "[]"] c_eq_amp by (auto simp: plain_param_def)
next
  case (3 k v p ps)
  then show ?case
    using split_amp_prefix [of "k @ c_eq # v" "[]" "c_amp # print_params (p # ps)"] c_eq_amp
    by (auto simp: plain_param_def)
qed simp

lemma split_param_print: "plain_param (k, v) \<Longrightarrow> split_param (k @ c_eq # v) = (k, v)"
  by (simp add: split_param_def plain_param_def Let_def takeWhile_append)

lemma map_insert_apply:
  "map_insert a b m k = (case m k of Some v \<Rightarrow> Some v | None \<Rightarrow> if k = a then Some b else None)"
  by (auto simp: map_insert_def split: option.splits)

lemma fold_map_insert:
  "fold (\<lambda>(k, v). map_insert k v) ps m k = (case m k of Some v \<Rightarrow> Some v | None \<Rightarrow> map_of ps k)"
  by (induction ps arbitrary: m) (auto simp: map_insert_apply split: option.splits)

text \<open>
  C37. Round trip of query strings: from a URL that consists of a path, \<open>?\<close> and printed parameters the
  callback recovers the path and the parameters, the first value of a name winning; a parameter that
  an earlier request of the connection has set keeps its old value.
\<close>

theorem query_params_roundtrip:
  assumes "c_quest \<notin> set p" and "list_all plain_param ps" and "ps \<noteq> []"
  shows "req_path (hp_data (snd (request_url_cb q (p @ c_quest # print_params ps)))) = p \<and>
    query_params (hp_data (snd (request_url_cb q (p @ c_quest # print_params ps)))) k =
      (case query_params (hp_data q) k of Some v \<Rightarrow> Some v | None \<Rightarrow> map_of ps k)"
proof -
  have tw: "takeWhile (\<lambda>c. c \<noteq> c_quest) (p @ c_quest # print_params ps) = p"
    using assms(1) by (subst takeWhile_append2) auto
  have "fold (\<lambda>e. case split_param e of (k, v) \<Rightarrow> map_insert k v) (map (\<lambda>(k, v). k @ c_eq # v) ps) m =
      fold (\<lambda>(k, v). map_insert k v) ps m" for m :: "bytes \<Rightarrow> bytes option"
    using assms(2) by (induction ps arbitrary: m) (auto simp: split_param_print)
  then show ?thesis
    by (simp add: request_url_cb_def on_ctx_def Let_def tw split_print_params [OF assms(2)] fold_map_insert)
qed

lemma string_find_occurs: "string_find (u @ v @ w) v \<noteq> None"
proof (induction u)
  case Nil
  show ?case
  proof (cases "v @ w")
    case (Cons c s)
    have "take (length v) (c # s) = v" unfolding Cons [symmetric] by simp
    with Cons show ?thesis by simp
  qed auto
qed auto

text \<open>
  The host callback is meant to strip \<open>http://host\<close> from a URL in absolute form, and does so. But it
  cuts the same number of bytes whenever the host occurs anywhere in a path that is long enough, so
  that \<open>/files/a.com/x\<close> becomes \<open>/x\<close> for the host \<open>a.com\<close>, and an empty host cuts the first seven bytes of
  any path.
\<close>

theorem host_header_cuts_path:
  assumes "7 < length u + length w"
  shows "strip_host (u @ v @ w) v = drop (7 + length v) (u @ v @ w) \<and>
    (u = chars ''http://'' \<longrightarrow> strip_host (u @ v @ w) v = w) \<and>
    strip_host (u @ w) [] = drop 7 (u @ w)"
proof -
  have a: "strip_host (u @ v @ w) v = drop (7 + length v) (u @ v @ w)"
    using assms string_find_occurs [of u v w] by (simp add: strip_host_def)
  moreover have "strip_host (u @ w) [] = drop 7 (u @ w)"
    using assms string_find_occurs [of u "[]" w] by (simp add: strip_host_def)
  moreover have "length (chars ''http://'') = 7" by (simp add: chars_def)
  with a have "u = chars ''http://'' \<longrightarrow> strip_host (u @ v @ w) v = w" by auto
  ultimately show ?thesis by blast
qed

section \<open>Two requests on one connection\<close>

definition request_text :: "string list \<Rightarrow> bytes" where
  "request_text ls = concat (map (\<lambda>l. chars l @ crlf) ls) @ crlf"

definition any_parser :: "ContextData http_parser" where
  "any_parser = \<lparr> hp_type = HTTP_BOTH, hp_flags = 0, hp_state = s_dead, hp_header_state = h_general, hp_index = 0,
     hp_lenient = False, hp_nread = 0, hp_content_length = 0, hp_major = 0, hp_minor = 0, hp_status_code = 0,
     hp_method = HTTP_DELETE, hp_errno = HPE_OK, hp_upgrade = False, hp_data = fresh_context HTTP_DELETE 0 \<rparr>"

definition first_request :: bytes where
  "first_request = request_text [''PATCH /a?k=v HTTP/1.1'', ''Host: ab'', ''A: 1'', ''Connection: close'']"

definition second_request :: bytes where
  "second_request = request_text [''GET /b?k=w HTTP/1.1'', ''Host: ab'', ''A: 2'']"

definition context_view ::
    "(HttpContext \<times> store) option \<Rightarrow> (http_method \<times> bytes \<times> bytes option \<times> bytes option \<times> bytes list) option" where
  "context_view r = map_option (\<lambda>(c, m). let d = hp_data (ctx_parser c) in
     (req_method d, req_path d, request_headers d (chars ''a''), query_params d (chars ''k''), written d)) r"

text \<open>
  The context is never reset between the requests of a connection: the second request is answered
  although the first one asked to close the connection, and the application sees the header and
  the query parameter of the first request instead of its own. The method \<open>PATCH\<close> of the first
  request is recorded as \<open>POST\<close>, because it is copied when only its first letter was read.
\<close>

theorem second_request_keeps_old_fields:
  "context_view (parse_all HttpContext_handlers [(0, first_request)] (new_HttpContext any_parser HTTP_DELETE 0, new_store)) =
     Some (HTTP_POST, chars ''/a'', Some (chars ''1''), Some (chars ''v''), [response_404]) \<and>
   context_view (parse_all HttpContext_handlers [(0, first_request), (0, second_request)]
       (new_HttpContext any_parser HTTP_DELETE 0, new_store)) =
     Some (HTTP_GET, chars ''/b'', Some (chars ''1''), Some (chars ''v''), [response_404, response_404])"
  by code_simp

section \<open>The properties at concrete inputs\<close>

theorem http_context_survives_messages_witness:
  "\<exists>c m s. parse_all HttpContext_handlers [(0, first_request), (7, [0, 255])]
      (new_HttpContext any_parser HTTP_DELETE 0, new_store) = Some (c, m) \<and>
    IOBuf_ToString (input_buffer c) m = Some s"
proof -
  have "length first_request = 60" by code_simp
  then have "list_all (\<lambda>(b :: u8, msg). length msg \<le> capacity) [(0, first_request), (7, [0, 255])]"
    by (simp add: capacity_def)
  from http_context_survives_messages [OF this] show ?thesis by blast
qed

lemma dead_context_example:
  "map_option (\<lambda>(c, m). (hp_errno (ctx_parser c) \<noteq> HPE_OK, 1 \<le> free_space (input_buffer c) m))
     (Parse HttpContext_handlers 0 [1] (new_HttpContext any_parser HTTP_DELETE 0, new_store)) = Some (True, True)"
  by code_simp

theorem dead_context_accumulates_witness:
  "\<exists>c m s c' m'. context_ok HttpContext_handlers (c, m) s \<and> hp_errno (ctx_parser c) \<noteq> HPE_OK \<and>
     Parse HttpContext_handlers 0 [71] (c, m) = Some (c', m') \<and> IOBuf_ToString (input_buffer c') m' = Some (s @ [71])"
proof -
  obtain c m s where "Parse HttpContext_handlers 0 [1] (new_HttpContext any_parser HTTP_DELETE 0, new_store) = Some (c, m)"
    and ok: "context_ok HttpContext_handlers (c, m) s"
    by (rule Parse_step [where beyond = 0 and msg = "[1]", OF new_context_ok [of HttpContext_handlers any_parser HTTP_DELETE 0]])
      (auto simp: capacity_def)
  then have e: "hp_errno (ctx_parser c) \<noteq> HPE_OK" "int (length [71 :: u8]) \<le> free_space (input_buffer c) m"
    using dead_context_example by auto
  have "length [71 :: u8] \<le> capacity" by (simp add: capacity_def)
  from dead_context_accumulates [OF ok e(1) this e(2), of 0] ok e(1) show ?thesis by blast
qed

theorem query_params_roundtrip_witness:
  "query_params (hp_data (snd (request_url_cb any_parser (chars ''/a'' @ c_quest # print_params [(chars ''k'', chars ''v=1''), (chars ''n'', [])]))))
     (chars ''k'') = Some (chars ''v=1'')"
proof -
  have a: "c_quest \<notin> set (chars ''/a'')" "list_all plain_param [(chars ''k'', chars ''v=1''), (chars ''n'', [])]"
    by code_simp+
  have "query_params (hp_data any_parser) (chars ''k'') = None" by code_simp
  moreover have "[(chars ''k'', chars ''v=1''), (chars ''n'', [])] \<noteq> []" by simp
  ultimately show ?thesis using query_params_roundtrip [OF a, of any_parser "chars ''k''"] by simp
qed

theorem host_header_cuts_path_witness:
  "strip_host (chars ''/files/'' @ chars ''a.com'' @ chars ''/x'') (chars ''a.com'') = chars ''/x''"
proof -
  have "7 < length (chars ''/files/'') + length (chars ''/x'')" by code_simp
  from host_header_cuts_path [OF this, of "chars ''a.com''"]
  have "strip_host (chars ''/files/'' @ chars ''a.com'' @ chars ''/x'') (chars ''a.com'') =
    drop (7 + length (chars ''a.com'')) (chars ''/files/'' @ chars ''a.com'' @ chars ''/x'')" by blast
  also have "\<dots> = chars ''/x''" by code_simp
  finally show ?thesis .
qed

section \<open>Across requests\<close>

text \<open>Handlers that leave the recorded headers and parameters alone.\<close>

definition keeps_fields :: "handlers \<Rightarrow> bool" where
  "keeps_fields hs \<longleftrightarrow> (\<forall>ctx.
     request_headers (OnRequest hs ctx) = request_headers ctx \<and> query_params (OnRequest hs ctx) = query_params ctx \<and>
     (\<forall>at. request_headers (OnBody hs at ctx) = request_headers ctx \<and> query_params (OnBody hs at ctx) = query_params ctx) \<and>
     request_headers (OnComplete hs ctx) = request_headers ctx \<and> query_params (OnComplete hs ctx) = query_params ctx)"

lemma keeps_fields_base: "keeps_fields HttpContext_handlers" "keeps_fields MyHttpContext_handlers"
  by (simp_all add: keeps_fields_def HttpContext_handlers_def MyHttpContext_handlers_def AsyncWrite_log_def)

definition fields_from :: "(bytes \<rightharpoonup> bytes) \<Rightarrow> (bytes \<rightharpoonup> bytes) \<Rightarrow> ContextData \<Rightarrow> bool" where
  "fields_from h0 q0 ctx \<longleftrightarrow> h0 \<subseteq>\<^sub>m request_headers ctx \<and> q0 \<subseteq>\<^sub>m query_params ctx"

lemma map_insert_le: "m0 \<subseteq>\<^sub>m m \<Longrightarrow> m0 \<subseteq>\<^sub>m map_insert k v m"
  by (auto simp: map_le_def map_insert_def dom_def)

lemma fold_insert_le: "m0 \<subseteq>\<^sub>m m \<Longrightarrow> m0 \<subseteq>\<^sub>m fold (\<lambda>e. case split_param e of (k, v) \<Rightarrow> map_insert k v) es m"
  by (induction es arbitrary: m) (auto simp: map_insert_le split: prod.split)

lemma context_keeps_fields:
  assumes "keeps_fields hs"
  shows "callbacks_keep (fields_from h0 q0) (context_settings hs)"
  using assms
  by (auto simp: callbacks_keep_def context_settings_def message_begin_cb_def headers_complete_cb_def message_complete_cb_def
      http_parser_init_def request_url_cb_def response_status_cb_def header_field_cb_def header_value_cb_def body_cb_def
      on_ctx_def Let_def fields_from_def keeps_fields_def map_insert_le fold_insert_le split: notify.splits data_cb.splits)

lemma Parse_data:
  assumes "Parse hs beyond msg (c, m) = Some (c', m')" and "callbacks_keep P (context_settings hs)"
    and "P (hp_data (ctx_parser c))"
  shows "P (hp_data (ctx_parser c'))"
  using assms http_parser_execute_data [OF assms(2)]
  by (auto simp: Parse_def split: Option.bind_splits if_splits result.splits)

lemma parse_all_data:
  assumes "parse_all hs msgs (c, m) = Some (c', m')" and "callbacks_keep P (context_settings hs)"
    and "P (hp_data (ctx_parser c))"
  shows "P (hp_data (ctx_parser c'))"
  using assms(1,3)
proof (induction msgs arbitrary: c m)
  case (Cons bm msgs)
  obtain b msg where bm: "bm = (b, msg)" by (cases bm)
  with Cons.prems(1) obtain c1 m1 where p: "Parse hs b msg (c, m) = Some (c1, m1)" "parse_all hs msgs (c1, m1) = Some (c', m')"
    by (auto split: Option.bind_splits)
  from Parse_data [OF p(1) assms(2) Cons.prems(2)] Cons.IH [OF p(2)] show ?case by blast
qed simp

text \<open>
  Nothing that a connection has recorded is ever forgotten or replaced: whatever arrives later, every header
  and every query parameter keeps its first value, so the fields of a later request with the same name
  are lost.
\<close>

theorem recorded_fields_never_change:
  assumes "keeps_fields hs" and "parse_all hs msgs (c, m) = Some (c', m')"
  shows "request_headers (hp_data (ctx_parser c)) \<subseteq>\<^sub>m request_headers (hp_data (ctx_parser c')) \<and>
    query_params (hp_data (ctx_parser c)) \<subseteq>\<^sub>m query_params (hp_data (ctx_parser c'))"
  using parse_all_data [OF assms(2) context_keeps_fields [OF assms(1)],
      of "request_headers (hp_data (ctx_parser c))" "query_params (hp_data (ctx_parser c))"]
  by (simp add: fields_from_def)

theorem recorded_fields_never_change_witness:
  "\<exists>c m c' m'. parse_all HttpContext_handlers [(0, first_request)] (new_HttpContext any_parser HTTP_DELETE 0, new_store) = Some (c, m) \<and>
     parse_all HttpContext_handlers [(0, second_request)] (c, m) = Some (c', m') \<and>
     request_headers (hp_data (ctx_parser c)) (chars ''a'') = Some (chars ''1'') \<and>
     request_headers (hp_data (ctx_parser c')) (chars ''a'') = Some (chars ''1'')"
proof -
  have "map_option (\<lambda>(c, m). request_headers (hp_data (ctx_parser c)) (chars ''a'') = Some (chars ''1''))
     (parse_all HttpContext_handlers [(0, first_request)] (new_HttpContext any_parser HTTP_DELETE 0, new_store)) = Some True"
    by code_simp
  then obtain c m where
    a: "parse_all HttpContext_handlers [(0, first_request)] (new_HttpContext any_parser HTTP_DELETE 0, new_store) = Some (c, m)"
      "request_headers (hp_data (ctx_parser c)) (chars ''a'') = Some (chars ''1'')" by (auto simp: split_def)
  have "map_option (\<lambda>_. True) (parse_all HttpContext_handlers [(0, first_request), (0, second_request)]
      (new_HttpContext any_parser HTTP_DELETE 0, new_store)) = Some True" by code_simp
  with a(1) obtain c' m' where b: "parse_all HttpContext_handlers [(0, second_request)] (c, m) = Some (c', m')"
    by (auto split: Option.bind_splits)
  from recorded_fields_never_change [OF keeps_fields_base(1) b] a(2)
  have "request_headers (hp_data (ctx_parser c')) (chars ''a'') = Some (chars ''1'')" by (metis domI map_le_def)
  with a b show ?thesis by blast
qed

end
