(* ===== verification/Tcp_Server_Props.thy ===== *)
theory Tcp_Server_Props
  imports Tcp_Server Http_Server_Props
begin

text \<open>
  The servers as transition systems: the executions are the sequences of events that the
  environment can produce, and the properties are invariants of the states they reach.
\<close>

section \<open>Executions\<close>

inductive tcp_run :: "'c methods \<Rightarrow> completion list \<Rightarrow> 'c TcpServer \<Rightarrow> bool" for ms where
  run_start: "tcp_run ms [] (Start new_TcpServer)"
| run_event: "tcp_run ms es s \<Longrightarrow> event_possible e s \<Longrightarrow> handle ms e s = Some s' \<Longrightarrow> tcp_run ms (es @ [e]) s'"

inductive_cases run_eventE: "tcp_run ms (es @ [e]) s"

text \<open>What every handler keeps: the connection that waits for its accept is fresh.\<close>

definition server_ok :: "'c TcpServer \<Rightarrow> bool" where
  "server_ok s \<longleftrightarrow> (\<exists>a. accepting s = Some a \<and> conns s a = Some CreateConnection) \<and>
     (\<forall>a c. conns s a = Some c \<longrightarrow> a < next_conn s)"

definition others_ok :: "('c TcpConnection \<Rightarrow> bool) \<Rightarrow> 'c TcpServer \<Rightarrow> bool" where
  "others_ok P s \<longleftrightarrow> (\<forall>a c. conns s a = Some c \<longrightarrow> accepting s \<noteq> Some a \<longrightarrow> P c \<and> (reads c > 0 \<or> writes c \<noteq> []))"

lemma server_ok_start: "server_ok (Start new_TcpServer)" "others_ok P (Start new_TcpServer)"
  by (auto simp: server_ok_def others_ok_def Start_def async_accept_def new_TcpServer_def)

lemma CreateConnection_idle [simp]: "reads CreateConnection = 0" "writes CreateConnection = []"
  by (simp_all add: CreateConnection_def)

lemma put_conn_simps [simp]:
  "accepting (put_conn a c s) = accepting s" "next_conn (put_conn a c s) = next_conn s"
  "conns (put_conn a c s) b = (if b = a then if reads c = 0 \<and> writes c = [] then None else Some c else conns s b)"
  by (simp_all add: put_conn_def)

lemma put_conn_ok:
  assumes "server_ok s" and "others_ok P s" and "accepting s \<noteq> Some a" and "a < next_conn s" and "P c"
  shows "server_ok (put_conn a c s) \<and> others_ok P (put_conn a c s)"
  using assms by (auto simp: server_ok_def others_ok_def split: if_splits)

text \<open>An event changes one connection; an accept makes it out of a fresh one.\<close>

lemma handle_cases:
  assumes "server_ok s" and "event_possible e s" and "handle ms e s = Some s'"
  obtains (accept) ok a c where "e = Accepted ok" "accepting s = Some a" "a < next_conn s"
      "perform_all (snd (OnNewConnection ms)) ((CreateConnection\<lparr>sock_open := ok\<rparr>)
         \<lparr>conn_context := fst (OnNewConnection ms)\<rparr>) = Some c"
      "s' = put_conn a c (async_accept s)"
  | (read) a r c c' where "e = Read_done a r" "conns s a = Some c" "accepting s \<noteq> Some a" "0 < reads c"
      "case r of Error t \<Rightarrow> True | Done msg \<Rightarrow> msg \<noteq> [] \<and> length msg \<le> max_msg" "OnRead ms r c = Some c'"
      "s' = put_conn a c' s"
  | (wrote) a r c c' where "e = Write_done a r" "conns s a = Some c" "accepting s \<noteq> Some a" "writes c \<noteq> []"
      "OnWrite r c = Some c'" "s' = put_conn a c' s"
proof (cases e)
  case (Accepted ok)
  from assms(1) obtain a where a: "accepting s = Some a" "conns s a = Some CreateConnection" "a < next_conn s"
    by (auto simp: server_ok_def)
  obtain x acts where n: "OnNewConnection ms = (x, acts)" by (cases "OnNewConnection ms")
  have "(case x of None \<Rightarrow> CreateConnection\<lparr>sock_open := ok\<rparr> | Some y \<Rightarrow> SetContext y (CreateConnection\<lparr>sock_open := ok\<rparr>)) =
    (CreateConnection\<lparr>sock_open := ok\<rparr>)\<lparr>conn_context := x\<rparr>"
    by (cases x) (simp_all add: SetContext_def CreateConnection_def)
  with Accepted assms(3) a n obtain c where
    "perform_all acts ((CreateConnection\<lparr>sock_open := ok\<rparr>)\<lparr>conn_context := x\<rparr>) = Some c" "s' = put_conn a c (async_accept s)"
    by (auto simp: handle_def HandleAccept_def split: Option.bind_splits)
  with Accepted a n show thesis by (intro accept) simp_all
next
  case (Read_done a r)
  with assms(2,3) obtain c c' where c: "conns s a = Some c" "0 < reads c" "OnRead ms r c = Some c'" "s' = put_conn a c' s"
    "case r of Error t \<Rightarrow> True | Done msg \<Rightarrow> msg \<noteq> [] \<and> length msg \<le> max_msg"
    by (auto simp: handle_def event_possible_def split: Option.bind_splits option.splits io_result.splits)
  with assms(1) have "accepting s \<noteq> Some a" by (auto simp: server_ok_def)
  with Read_done c show thesis by (intro read) simp_all
next
  case (Write_done a r)
  with assms(2,3) obtain c c' where c: "conns s a = Some c" "writes c \<noteq> []" "OnWrite r c = Some c'" "s' = put_conn a c' s"
    by (auto simp: handle_def event_possible_def split: Option.bind_splits option.splits)
  with assms(1) have "accepting s \<noteq> Some a" by (auto simp: server_ok_def)
  with Write_done c show thesis by (intro wrote) simp_all
qed

text \<open>
  An invariant of connections: what a new connection has and reads and writes keep holds of all
  connections in every state.
\<close>

lemma tcp_run_others:
  assumes "tcp_run ms es s"
    and new: "\<And>ok c. perform_all (snd (OnNewConnection ms)) ((CreateConnection\<lparr>sock_open := ok\<rparr>)
         \<lparr>conn_context := fst (OnNewConnection ms)\<rparr>) = Some c \<Longrightarrow> P c"
    and read: "\<And>r c c'. P c \<Longrightarrow> 0 < reads c \<Longrightarrow> (case r of Error t \<Rightarrow> True | Done msg \<Rightarrow> msg \<noteq> [] \<and> length msg \<le> max_msg) \<Longrightarrow>
         OnRead ms r c = Some c' \<Longrightarrow> P c'"
    and wrote: "\<And>r c c'. P c \<Longrightarrow> writes c \<noteq> [] \<Longrightarrow> OnWrite r c = Some c' \<Longrightarrow> P c'"
  shows "server_ok s \<and> others_ok P s"
  using assms(1)
proof induction
  case run_start
  show ?case using server_ok_start by blast
next
  case (run_event es s e s')
  then have ok: "server_ok s" "others_ok P s" by simp_all
  from ok(1) run_event.hyps(2,3) show ?case
  proof (cases rule: handle_cases)
    case (accept b a c)
    have "server_ok (async_accept s)" using ok(1) by (auto simp: server_ok_def async_accept_def less_SucI)
    moreover have "others_ok P (put_conn a c (async_accept s))"
      using ok accept(2,3) new [OF accept(4)] by (auto simp: server_ok_def others_ok_def async_accept_def split: if_splits)
    ultimately show ?thesis using accept(3,5) by (auto simp: server_ok_def async_accept_def)
  next
    case (read a r c c')
    have "P c" using ok(2) read(2,3) by (auto simp: others_ok_def)
    with assms(3) read have "P c'" by blast
    moreover have "a < next_conn s" using ok(1) read(2) by (auto simp: server_ok_def)
    ultimately show ?thesis using put_conn_ok [OF ok read(3)] read(7) by blast
  next
    case (wrote a r c c')
    have "P c" using ok(2) wrote(2,3) by (auto simp: others_ok_def)
    with assms(4) wrote have "P c'" by blast
    moreover have "a < next_conn s" using ok(1) wrote(2) by (auto simp: server_ok_def)
    ultimately show ?thesis using put_conn_ok [OF ok wrote(3)] wrote(6) by blast
  qed
qed

text \<open>
  The contract between the server and the methods of an application: \<open>ok\<close> is an invariant of the connections
  that every new one has and that reads and writes keep, and the methods never fail on such a
  connection. Then the server fails only where a socket cannot be closed.
\<close>

locale connection_server =
  fixes ms :: "'c methods" and ok :: "'c TcpConnection \<Rightarrow> bool"
  assumes new_ok: "\<exists>c. perform_all (snd (OnNewConnection ms)) ((CreateConnection\<lparr>sock_open := b\<rparr>)
         \<lparr>conn_context := fst (OnNewConnection ms)\<rparr>) = Some c \<and> ok c"
    and read_ok: "ok c \<Longrightarrow> (case r of Error t \<Rightarrow> True | Done msg \<Rightarrow> msg \<noteq> [] \<and> length msg \<le> max_msg) \<Longrightarrow>
         (if r = Error True then OnRead ms r c = None else \<exists>c'. OnRead ms r c = Some c' \<and> ok c')"
    and write_ok: "ok c \<Longrightarrow> OnWrite n c = Some c' \<Longrightarrow> ok c'"
begin

lemma conns_ok:
  assumes "tcp_run ms es s"
  shows "server_ok s \<and> others_ok ok s"
proof (rule tcp_run_others [OF assms])
  show "ok c" if "perform_all (snd (OnNewConnection ms)) ((CreateConnection\<lparr>sock_open := b\<rparr>)
         \<lparr>conn_context := fst (OnNewConnection ms)\<rparr>) = Some c" for b c
    using new_ok [of b] that by auto
  show "ok c'" if "ok c" "case r of Error t \<Rightarrow> True | Done msg \<Rightarrow> msg \<noteq> [] \<and> length msg \<le> max_msg" "OnRead ms r c = Some c'"
    for r c c'
    using read_ok [OF that(1,2)] that(3) by (auto split: if_splits)
qed (rule write_ok)

lemma fails_on_close_only:
  assumes "tcp_run ms es s" and "event_possible e s"
  shows "(\<exists>s'. handle ms e s = Some s') \<longleftrightarrow> \<not> close_throws e"
proof (cases e)
  case (Accepted b)
  have "(case x of None \<Rightarrow> CreateConnection\<lparr>sock_open := b\<rparr> | Some y \<Rightarrow> SetContext y (CreateConnection\<lparr>sock_open := b\<rparr>)) =
    (CreateConnection\<lparr>sock_open := b\<rparr>)\<lparr>conn_context := x\<rparr>" for x :: "'c option"
    by (cases x) (simp_all add: SetContext_def CreateConnection_def)
  with Accepted conns_ok [OF assms(1)] new_ok [of b] show ?thesis
    by (auto simp: handle_def HandleAccept_def server_ok_def close_throws_def split: prod.splits)
next
  case (Read_done a r)
  from Read_done assms(2) obtain c where c: "conns s a = Some c" "reads c > 0"
    "case r of Error t \<Rightarrow> True | Done msg \<Rightarrow> msg \<noteq> [] \<and> length msg \<le> max_msg"
    by (auto simp: event_possible_def split: option.splits io_result.splits)
  then have "accepting s \<noteq> Some a" using conns_ok [OF assms(1)] by (auto simp: server_ok_def)
  then have "ok c" using conns_ok [OF assms(1)] c(1) by (auto simp: others_ok_def)
  from read_ok [OF this c(3)] Read_done c(1) show ?thesis
    by (auto simp: handle_def close_throws_def split: io_result.splits if_splits)
next
  case (Write_done a r)
  with assms(2) show ?thesis
    by (auto simp: handle_def event_possible_def OnWrite_def OnConnectionError_def Close_def Let_def close_throws_def
        split: option.splits io_result.splits if_splits)
qed

end

text \<open>The servers without a context.\<close>

interpretation plain_server: connection_server TcpServer_methods "\<lambda>_. True"
  by unfold_locales (auto simp: TcpServer_methods_def OnRead_def OnConnectionError_def Close_def Let_def split: io_result.splits)

interpretation echo_server: connection_server MyTcpServer_methods "\<lambda>_. True"
  by unfold_locales (auto simp: MyTcpServer_methods_def OnRead_def OnConnectionError_def Close_def Let_def split: io_result.splits)

section \<open>Every server\<close>

text \<open>
  C25. Whatever the environment does, a server never stops accepting: in every reachable state an accept is
  pending on a fresh connection, and every other connection waits for an operation of its own.
\<close>

theorem tcp_server_keeps_accepting:
  assumes "tcp_run ms es s"
  shows "(\<exists>a. accepting s = Some a \<and> conns s a = Some CreateConnection \<and> event_possible (Accepted ok) s) \<and>
    (\<forall>a c. conns s a = Some c \<longrightarrow> accepting s \<noteq> Some a \<longrightarrow> reads c > 0 \<or> writes c \<noteq> [])"
  using tcp_run_others [OF assms, of "\<lambda>_. True"]
  by (auto simp: server_ok_def others_ok_def event_possible_def)

section \<open>The HTTP server\<close>

lemma perform_writes:
  "perform_all (map Do_write ws) c = Some c' \<Longrightarrow> reads c' = reads c \<and> conn_context c' = conn_context c \<and>
    length (writes c') = length (writes c) + length ws"
  by (induction ws arbitrary: c) (fastforce simp: AsyncWrite_def split: Option.bind_splits if_splits)+

lemma perform_short:
  "list_all (\<lambda>w. length w \<le> max_msg) ws \<Longrightarrow> \<exists>c'. perform_all (map Do_write ws) c = Some c'"
  by (induction ws arbitrary: c) (auto simp: AsyncWrite_def)

lemma http_new:
  "perform_all (snd (OnNewConnection (HttpServer_methods hs b fresh))) c = Some c' \<Longrightarrow>
     reads c' = reads c + 1 \<and> writes c' = writes c \<and> conn_context c' = conn_context c"
  by (auto simp: HttpServer_methods_def AsyncRead_def)

lemma http_read:
  assumes "OnRead (HttpServer_methods hs b fresh) r c = Some c'"
  shows "reads c' = reads c - 1 \<and>
    (case r of
       Error t \<Rightarrow> conn_context c' = conn_context c \<and> writes c' = writes c
     | Done msg \<Rightarrow> \<exists>x m x' m'. conn_context c = Some (x, m) \<and> Parse hs b msg (x, m) = Some (x', m') \<and>
         conn_context c' = Some (x', m') \<and> length (writes c') = length (writes c) + length (new_writes x x'))"
proof (cases r)
  case (Error t)
  with assms show ?thesis by (auto simp: OnRead_def Let_def OnConnectionError_def Close_def split: if_splits)
next
  case (Done msg)
  with assms obtain x m x' m' where p: "conn_context c = Some (x, m)" "Parse hs b msg (x, m) = Some (x', m')"
    "perform_all (new_writes x x') ((c\<lparr>reads := reads c - 1\<rparr>)\<lparr>conn_context := Some (x', m')\<rparr>) = Some c'"
    by (auto simp: OnRead_def Let_def HttpServer_methods_def split: Option.bind_splits option.splits)
  from perform_writes [OF p(3) [unfolded new_writes_def]] p(1,2) Done show ?thesis by (simp add: new_writes_def)
qed

lemma OnWrite_keeps:
  assumes "OnWrite r c = Some c'"
  shows "reads c' = reads c" "conn_context c' = conn_context c" "writes c' = tl (writes c)"
  using assms by (auto simp: OnWrite_def Let_def OnConnectionError_def Close_def OnWriteComplete_def
      split: io_result.splits if_splits)

text \<open>How often a read of a connection has completed.\<close>

definition reads_done :: "nat \<Rightarrow> completion list \<Rightarrow> nat" where
  "reads_done a es = length (filter (\<lambda>e. \<exists>r. e = Read_done a r) es)"

lemma reads_done_snoc [simp]:
  "reads_done a (es @ [e]) = reads_done a es + (case e of Read_done b r \<Rightarrow> if b = a then 1 else 0 | _ \<Rightarrow> 0)"
  by (auto simp: reads_done_def split: completion.splits)

definition reads_counted :: "completion list \<Rightarrow> 'c TcpServer \<Rightarrow> bool" where
  "reads_counted es s \<longleftrightarrow> (\<forall>a. reads_done a es \<le> 1 \<and>
     (next_conn s \<le> a \<or> accepting s = Some a \<longrightarrow> reads_done a es = 0) \<and>
     (\<forall>c. conns s a = Some c \<longrightarrow> accepting s \<noteq> Some a \<longrightarrow> reads_done a es + reads c = 1))"

lemma http_reads_counted:
  assumes "tcp_run (HttpServer_methods hs b fresh) es s"
  shows "reads_counted es s"
  using assms
proof induction
  case run_start
  show ?case by (simp add: reads_counted_def reads_done_def Start_def async_accept_def new_TcpServer_def)
next
  case (run_event es s e s')
  have ok: "server_ok s" using tcp_run_others [OF run_event.hyps(1), of "\<lambda>_. True"] by simp
  from ok run_event.hyps(2,3) show ?case
  proof (cases rule: handle_cases)
    case (accept g a c)
    have "reads c = 1" using http_new [OF accept(4)] by simp
    with run_event.IH accept show ?thesis by (auto simp: reads_counted_def async_accept_def split: if_splits)
  next
    case (read a r c c')
    have "reads c' = reads c - 1" using http_read [OF read(6)] by simp
    moreover have "reads_done a es + reads c = 1" using run_event.IH read(2,3) by (simp add: reads_counted_def)
    moreover have "a < next_conn s" using ok read(2) by (auto simp: server_ok_def)
    ultimately show ?thesis using run_event.IH read(1,3,4,7) by (auto simp: reads_counted_def split: if_splits)
  next
    case (wrote a r c c')
    with run_event.IH OnWrite_keeps [OF wrote(5)] show ?thesis by (auto simp: reads_counted_def split: if_splits)
  qed
qed

text \<open>
  The HTTP server reads once from every connection: at most one read of a connection completes, and
  after it the connection is gone unless a response has been written. A request that does not arrive in
  the first 4096 bytes read is dropped without an answer, and a second request is never read.
\<close>

theorem http_server_reads_once:
  assumes "tcp_run (HttpServer_methods hs b fresh) es s"
  shows "reads_done a es \<le> 1 \<and>
    (\<forall>msg s'. event_possible (Read_done a (Done msg)) s \<longrightarrow>
       handle (HttpServer_methods hs b fresh) (Read_done a (Done msg)) s = Some s' \<longrightarrow>
       (case conns s' a of None \<Rightarrow> True | Some c \<Rightarrow> reads c = 0 \<and> writes c \<noteq> []))"
proof -
  have ok: "server_ok s" using tcp_run_others [OF assms, of "\<lambda>_. True"] by simp
  note count = http_reads_counted [OF assms]
  have "case conns s' a of None \<Rightarrow> True | Some c \<Rightarrow> reads c = 0 \<and> writes c \<noteq> []"
    if p: "event_possible (Read_done a (Done msg)) s"
      and h: "handle (HttpServer_methods hs b fresh) (Read_done a (Done msg)) s = Some s'" for msg s'
    using ok p h
  proof (cases rule: handle_cases)
    case (read a' r c c')
    have "reads c' = reads c - 1" using http_read [OF read(6)] by simp
    moreover have "reads_done a' es + reads c = 1" using count read(2,3) by (simp add: reads_counted_def)
    ultimately show ?thesis using read(1,4,7) by simp
  qed simp_all
  with count show ?thesis by (simp add: reads_counted_def)
qed

text \<open>Handlers whose responses fit into the write buffer.\<close>

definition short_written :: "ContextData \<Rightarrow> bool" where
  "short_written ctx \<longleftrightarrow> list_all (\<lambda>w. length w \<le> max_msg) (written ctx)"

definition short_responses :: "handlers \<Rightarrow> bool" where
  "short_responses hs \<longleftrightarrow> (\<forall>ctx. short_written ctx \<longrightarrow> short_written (OnRequest hs ctx) \<and>
     (\<forall>at. short_written (OnBody hs at ctx)) \<and> short_written (OnComplete hs ctx))"

lemma short_base: "short_responses HttpContext_handlers" "short_responses MyHttpContext_handlers"
proof -
  have "length response_404 = 38" "length response_200 = 38" by code_simp+
  then show "short_responses HttpContext_handlers" "short_responses MyHttpContext_handlers"
    by (simp_all add: short_responses_def short_written_def HttpContext_handlers_def MyHttpContext_handlers_def
        AsyncWrite_log_def max_msg_def)
qed

lemma context_keeps_short:
  assumes "short_responses hs"
  shows "callbacks_keep short_written (context_settings hs)"
  using assms
  by (auto simp: callbacks_keep_def context_settings_def message_begin_cb_def headers_complete_cb_def message_complete_cb_def
      http_parser_init_def request_url_cb_def response_status_cb_def header_field_cb_def header_value_cb_def body_cb_def
      on_ctx_def Let_def short_responses_def short_written_def split: notify.splits data_cb.splits)

definition http_conn_ok :: "handlers \<Rightarrow> (HttpContext \<times> store) TcpConnection \<Rightarrow> bool" where
  "http_conn_ok hs c \<longleftrightarrow> (\<exists>x m s. conn_context c = Some (x, m) \<and> context_ok hs (x, m) s \<and>
     short_written (hp_data (ctx_parser x)))"

lemma http_conn_read:
  assumes "short_responses hs" and "http_conn_ok hs c" and "length msg \<le> max_msg"
  shows "\<exists>c'. OnRead (HttpServer_methods hs b fresh) (Done msg) c = Some c' \<and> http_conn_ok hs c'"
proof -
  from assms(2) obtain x m s where c: "conn_context c = Some (x, m)" "context_ok hs (x, m) s"
    "short_written (hp_data (ctx_parser x))" by (auto simp: http_conn_ok_def)
  have "length msg \<le> capacity" using assms(3) by (simp add: max_msg_def capacity_def)
  with c(2) obtain x' m' s' where p: "Parse hs b msg (x, m) = Some (x', m')" "context_ok hs (x', m') s'"
    by (rule Parse_step [where beyond = b]) blast
  have sw: "short_written (hp_data (ctx_parser x'))"
    using Parse_data [OF p(1) context_keeps_short [OF assms(1)] c(3)] .
  define c1 where "c1 = (c\<lparr>reads := reads c - 1\<rparr>)\<lparr>conn_context := Some (x', m')\<rparr>"
  have "list_all (\<lambda>w. length w \<le> max_msg) (drop (length (written (hp_data (ctx_parser x)))) (written (hp_data (ctx_parser x'))))"
    using sw unfolding short_written_def list_all_iff by (meson in_set_dropD)
  from perform_short [OF this, of c1] obtain c' where c': "perform_all (new_writes x x') c1 = Some c'"
    by (auto simp: new_writes_def)
  have "conn_context c' = Some (x', m')" using perform_writes [OF c' [unfolded new_writes_def]] by (simp add: c1_def)
  with p(2) sw have "http_conn_ok hs c'" by (auto simp: http_conn_ok_def)
  moreover have "OnRead (HttpServer_methods hs b fresh) (Done msg) c = Some c'"
    using c(1) p(1) c' by (simp add: OnRead_def Let_def HttpServer_methods_def c1_def)
  ultimately show ?thesis by blast
qed

lemma http_conn_step:
  assumes "short_responses hs" and "http_conn_ok hs c"
    and "case r of Error t \<Rightarrow> True | Done msg \<Rightarrow> msg \<noteq> [] \<and> length msg \<le> max_msg"
  shows "if r = Error True then OnRead (HttpServer_methods hs b fresh) r c = None
    else \<exists>c'. OnRead (HttpServer_methods hs b fresh) r c = Some c' \<and> http_conn_ok hs c'"
proof (cases r)
  case (Error t)
  with assms(2) show ?thesis by (simp add: OnRead_def Let_def OnConnectionError_def Close_def http_conn_ok_def)
next
  case (Done msg)
  with http_conn_read [OF assms(1,2), of msg b fresh] assms(3) show ?thesis by simp
qed

lemma http_server_contract:
  assumes "short_responses hs"
  shows "connection_server (HttpServer_methods hs b (new_HttpContext q meth clen)) (http_conn_ok hs)"
proof
  let ?ms = "HttpServer_methods hs b (new_HttpContext q meth clen)"
  have "short_written (hp_data (ctx_parser (new_HttpContext q meth clen)))"
    by (simp add: short_written_def new_HttpContext_def fresh_context_def)
  then show "\<exists>c. perform_all (snd (OnNewConnection ?ms)) ((CreateConnection\<lparr>sock_open := x\<rparr>)
      \<lparr>conn_context := fst (OnNewConnection ?ms)\<rparr>) = Some c \<and> http_conn_ok hs c" for x
    using new_context_ok [of hs q meth clen] by (auto simp: http_conn_ok_def HttpServer_methods_def AsyncRead_def)
  fix c :: "(HttpContext \<times> store) TcpConnection" and c' n
  assume "http_conn_ok hs c" "OnWrite n c = Some c'"
  with OnWrite_keeps(2) [OF this(2)] show "http_conn_ok hs c'" by (simp add: http_conn_ok_def)
qed (rule http_conn_step [OF assms])

text \<open>The HTTP server of the library and the one of the demo.\<close>

interpretation http_server: connection_server
    "HttpServer_methods HttpContext_handlers b (new_HttpContext q meth clen)" "http_conn_ok HttpContext_handlers" for b q meth clen
  by (rule http_server_contract) (rule short_base)

interpretation demo_http_server: connection_server
    "HttpServer_methods MyHttpContext_handlers b (new_HttpContext q meth clen)" "http_conn_ok MyHttpContext_handlers" for b q meth clen
  by (rule http_server_contract) (rule short_base)

text \<open>
  C9. With its handlers run one after the other, and with responses of the application that fit into the
  write buffer, the HTTP server has one way to fail. In every reachable state every event the environment
  can produce, whatever bytes a connection sends, is handled without an exception, a failed assertion or
  an access outside a buffer, unless it reports an error on a socket whose \<open>close\<close> throws; then the
  exception leaves the handler. (The three threads of the code may run two handlers of one connection at
  the same time; their race on its socket is not covered.)
\<close>

theorem http_server_never_fails:
  assumes "short_responses hs" and "tcp_run (HttpServer_methods hs b (new_HttpContext q meth clen)) es s"
    and "event_possible e s"
  shows "(\<exists>s'. handle (HttpServer_methods hs b (new_HttpContext q meth clen)) e s = Some s') \<longleftrightarrow> \<not> close_throws e"
  by (rule connection_server.fails_on_close_only [OF http_server_contract [OF assms(1)] assms(2,3)])

section \<open>Concrete executions\<close>

lemma run_events_run:
  "tcp_run ms es0 s \<Longrightarrow> run_events ms es s = Some s' \<Longrightarrow> tcp_run ms (es0 @ es) s'"
proof (induction es arbitrary: es0 s)
  case (Cons e es)
  then obtain s1 where "event_possible e s" "handle ms e s = Some s1" "run_events ms es s1 = Some s'"
    by (auto split: if_splits Option.bind_splits)
  with run_event [OF Cons.prems(1)] Cons.IH [of "es0 @ [e]" s1] show ?case by simp
qed simp

lemma run_events_reach: "run_events ms es (Start new_TcpServer) = Some s \<Longrightarrow> tcp_run ms es s"
  using run_events_run [OF run_start, of ms es s] by simp

theorem tcp_server_keeps_accepting_witness:
  "\<exists>s a. tcp_run MyTcpServer_methods [Accepted True, Read_done 0 (Done [104, 105])] s \<and> accepting s = Some a"
proof -
  have "map_option (\<lambda>_. True) (run_events MyTcpServer_methods [Accepted True, Read_done 0 (Done [104, 105])]
    (Start new_TcpServer)) = Some True" by code_simp
  then obtain s where r: "tcp_run MyTcpServer_methods [Accepted True, Read_done 0 (Done [104, 105])] s"
    using run_events_reach unfolding map_option_eq_Some by blast
  from tcp_server_keeps_accepting [OF r] r show ?thesis by blast
qed

definition example_methods :: "(HttpContext \<times> store) methods" where
  "example_methods = HttpServer_methods HttpContext_handlers 0 (new_HttpContext any_parser HTTP_DELETE 0)"

text \<open>The first half of a request is read, and the connection is gone.\<close>

theorem http_server_reads_once_witness:
  "\<exists>s s'. tcp_run example_methods [Accepted True] s \<and>
     handle example_methods (Read_done 0 (Done (take 30 second_request))) s = Some s' \<and> conns s' 0 = None"
proof -
  have c: "map_option (\<lambda>s. event_possible (Read_done 0 (Done (take 30 second_request))) s \<and>
      map_option (\<lambda>s'. conns s' 0 = None) (handle example_methods (Read_done 0 (Done (take 30 second_request))) s) = Some True)
    (run_events example_methods [Accepted True] (Start new_TcpServer)) = Some True"
    by code_simp
  then obtain s s' where s: "run_events example_methods [Accepted True] (Start new_TcpServer) = Some s"
    "event_possible (Read_done 0 (Done (take 30 second_request))) s"
    "handle example_methods (Read_done 0 (Done (take 30 second_request))) s = Some s'" "conns s' 0 = None" unfolding map_option_eq_Some by auto
  from run_events_reach [OF s(1)] have r: "tcp_run example_methods [Accepted True] s" .
  from http_server_reads_once [OF r [unfolded example_methods_def], of 0] s(2,3)
  have "case conns s' 0 of None \<Rightarrow> True | Some c \<Rightarrow> reads c = 0 \<and> writes c \<noteq> []"
    unfolding example_methods_def by blast
  with r s show ?thesis by blast
qed

theorem http_server_never_fails_witness:
  "\<exists>s s'. tcp_run example_methods [Accepted True] s \<and> handle example_methods (Read_done 0 (Done [0, 255])) s = Some s'"
proof -
  have "map_option (event_possible (Read_done 0 (Done [0, 255]))) (run_events example_methods [Accepted True] (Start new_TcpServer)) =
    Some True" by code_simp
  then obtain s where s: "run_events example_methods [Accepted True] (Start new_TcpServer) = Some s"
    "event_possible (Read_done 0 (Done [0, 255])) s" unfolding map_option_eq_Some by auto
  from run_events_reach [OF s(1)] have r: "tcp_run example_methods [Accepted True] s" .
  from http_server_never_fails [OF short_base(1) r [unfolded example_methods_def] s(2)] r show ?thesis
    unfolding example_methods_def by (auto simp: close_throws_def)
qed

text \<open>
  Two requests that arrive together are answered by two writes from the same buffer that are both
  pending: the second response overwrites the first one.
\<close>

theorem pipelined_responses_share_buffer:
  "map_option (\<lambda>s. map_option (\<lambda>c. (writes c, take 38 (write_buffer c) = map Some response_404)) (conns s 0))
     (run_events example_methods [Accepted True, Read_done 0 (Done (second_request @ second_request))] (Start new_TcpServer)) =
   Some (Some ([38, 38], True))"
  by code_simp

section \<open>The demo server\<close>

lemma run_events_append:
  "run_events ms (es @ fs) s = Option.bind (run_events ms es s) (run_events ms fs)"
  by (induction es arbitrary: s) (auto split: Option.bind_split)

lemma tcp_run_events: "tcp_run ms es s \<Longrightarrow> run_events ms es (Start new_TcpServer) = Some s"
  by (induction rule: tcp_run.induct) (simp_all add: run_events_append)

text \<open>
  The demo of \<open>main.cc\<close>: whatever operations complete in whatever order, the server handles them all, unless a
  socket cannot be closed, and
  \<open>main\<close> does not return, because an accept is always pending.
\<close>

lemma http_main_keeps_running:
  assumes "tcp_run (MyHttpServer_methods b q meth clen) es s" and "event_possible e s" and "\<not> close_throws e"
  shows "http_main (MyHttpServer_methods b q meth clen) es = Some (s, False)
    \<and> (\<exists>s'. http_main (MyHttpServer_methods b q meth clen) (es @ [e]) = Some (s', False))"
proof -
  let ?ms = "MyHttpServer_methods b q meth clen"
  have waiting: "run_events ?ms fs (Start new_TcpServer) = Some t \<Longrightarrow> \<not> Wait t" for fs t
    using tcp_run_others [OF run_events_reach, of ?ms fs t "\<lambda>_. True"]
    by (auto simp: Wait_def server_ok_def)
  note run = tcp_run_events [OF assms(1)]
  obtain s' where "handle ?ms e s = Some s'"
    using connection_server.fails_on_close_only [OF http_server_contract [OF short_base(2)]] assms
    unfolding MyHttpServer_methods_def by blast
  then have "run_events ?ms (es @ [e]) (Start new_TcpServer) = Some s'"
    using run assms(2) by (simp add: run_events_append)
  with run waiting show ?thesis unfolding http_main_def by auto
qed

definition get_request :: bytes where
  "get_request = chars ''GET / HTTP/1.1'' @ crlf @ crlf"

text \<open>A request that arrives in one piece is answered with 200.\<close>

lemma http_main_answers:
  "map_option (\<lambda>(s, returns). (map_option (\<lambda>c. (take 38 (write_buffer c) = map Some response_200, writes c, reads c)) (conns s 0), returns))
     (http_main (MyHttpServer_methods 0 any_parser HTTP_DELETE 0) [Accepted True, Read_done 0 (Done get_request)]) =
   Some (Some (True, [38], 0), False)"
  by code_simp

end
