(* ===== verification/Lru.thy ===== *)
theory Lru
  imports Prelude
begin

text \<open>
  The contract of a bounded cache, as the interface between the resource cache and its
  clients: the cache holds the entries most recently set, newest first. The abstract state is
  the list of the entries; an entry is a key, a value and the time it was set. The lemmas of
  the locale compose the laws of \<open>Get\<close> and \<open>Set\<close> to sequences of calls, and the last section
  says what such a list contains in terms of the calls alone.
\<close>

type_synonym ('k, 'v) entries = "('k \<times> 'v \<times> int) list"

datatype ('k, 'v) ccall = Get 'k int | Set 'k 'v int

definition put_first :: "'k \<Rightarrow> 'v \<Rightarrow> int \<Rightarrow> ('k, 'v) entries \<Rightarrow> ('k, 'v) entries" where
  "put_first k v t es = (k, v, t) # filter (\<lambda>e. fst e \<noteq> k) es"

definition lru_set :: "nat \<Rightarrow> 'k \<Rightarrow> 'v \<Rightarrow> int \<Rightarrow> ('k, 'v) entries \<Rightarrow> ('k, 'v) entries" where
  "lru_set cap k v t es =
     (if k \<in> fst ` set es then put_first k v t es
      else (k, v, t) # (if length es = cap then butlast es else es))"

text \<open>A lookup that finds nothing valid returns \<open>none\<close>.\<close>

definition lru_get :: "'v \<Rightarrow> (int \<Rightarrow> int \<Rightarrow> bool) \<Rightarrow> 'k \<Rightarrow> int \<Rightarrow> ('k, 'v) entries \<Rightarrow> 'v" where
  "lru_get none valid k now es =
     (case map_of es k of None \<Rightarrow> none | Some (v, t) \<Rightarrow> if valid t now then v else none)"

fun lru_step :: "'v \<Rightarrow> nat \<Rightarrow> (int \<Rightarrow> int \<Rightarrow> bool) \<Rightarrow> ('k, 'v) ccall \<Rightarrow> ('k, 'v) entries \<Rightarrow>
    'v option \<times> ('k, 'v) entries" where
  "lru_step none cap valid (Get k now) es = (Some (lru_get none valid k now es), es)"
| "lru_step none cap valid (Set k v now) es = (None, lru_set cap k v now es)"

fun lru_run :: "'v \<Rightarrow> nat \<Rightarrow> (int \<Rightarrow> int \<Rightarrow> bool) \<Rightarrow> ('k, 'v) ccall list \<Rightarrow> ('k, 'v) entries \<Rightarrow>
    'v option list \<times> ('k, 'v) entries" where
  "lru_run none cap valid [] es = ([], es)"
| "lru_run none cap valid (c # cs) es =
     (let (r, es) = lru_step none cap valid c es; (rs, es) = lru_run none cap valid cs es in (r # rs, es))"

text \<open>The same calls on an implementation, which may fail with \<open>None\<close>.\<close>

fun cache_step ::
  "('k \<Rightarrow> int \<Rightarrow> 's \<Rightarrow> 'v option) \<Rightarrow> ('k \<Rightarrow> 'v \<Rightarrow> int \<Rightarrow> 's \<Rightarrow> (bool \<times> 's) option)
     \<Rightarrow> ('k, 'v) ccall \<Rightarrow> 's \<Rightarrow> ('v option \<times> 's) option" where
  "cache_step get st (Get k now) s = map_option (\<lambda>r. (Some r, s)) (get k now s)"
| "cache_step get st (Set k v now) s = map_option (\<lambda>(b, s). (None, s)) (st k v now s)"

fun cache_run ::
  "('k \<Rightarrow> int \<Rightarrow> 's \<Rightarrow> 'v option) \<Rightarrow> ('k \<Rightarrow> 'v \<Rightarrow> int \<Rightarrow> 's \<Rightarrow> (bool \<times> 's) option)
     \<Rightarrow> ('k, 'v) ccall list \<Rightarrow> 's \<Rightarrow> ('v option list \<times> 's) option" where
  "cache_run get st [] s = Some ([], s)"
| "cache_run get st (c # cs) s = do {
     (r, s) \<leftarrow> cache_step get st c s;
     (rs, s) \<leftarrow> cache_run get st cs s;
     Some (r # rs, s)
   }"

locale bounded_cache =
  fixes none :: 'v
    and get :: "'k \<Rightarrow> int \<Rightarrow> 's \<Rightarrow> 'v option"
    and set' :: "'k \<Rightarrow> 'v \<Rightarrow> int \<Rightarrow> 's \<Rightarrow> (bool \<times> 's) option"
    and rep :: "'s \<Rightarrow> nat \<Rightarrow> (int \<Rightarrow> int \<Rightarrow> bool) \<Rightarrow> ('k, 'v) entries \<Rightarrow> bool"
  assumes get_law: "rep s cap valid es \<Longrightarrow> get k now s = Some (lru_get none valid k now es)"
    and set_law: "rep s cap valid es \<Longrightarrow> \<exists>s'. set' k v now s = Some (True, s') \<and> rep s' cap valid (lru_set cap k v now es)"
begin

lemma step_refines:
  assumes "rep s cap valid es"
  obtains s' where "cache_step get set' c s = Some (fst (lru_step none cap valid c es), s')"
    "rep s' cap valid (snd (lru_step none cap valid c es))"
proof (cases c)
  case (Get k now)
  with get_law [OF assms] that [of s] assms show ?thesis by simp
next
  case (Set k v now)
  with set_law [OF assms, of k v now] that show ?thesis by auto
qed

lemma run_refines_lru:
  "rep s cap valid es \<Longrightarrow>
   \<exists>s'. cache_run get set' cs s = Some (fst (lru_run none cap valid cs es), s') \<and>
     rep s' cap valid (snd (lru_run none cap valid cs es))"
proof (induction cs arbitrary: s es)
  case (Cons c cs)
  from Cons.prems obtain s1 where s1: "cache_step get set' c s = Some (fst (lru_step none cap valid c es), s1)"
    "rep s1 cap valid (snd (lru_step none cap valid c es))" by (rule step_refines)
  with Cons.IH [OF s1(2)] show ?case by (auto simp: split_beta Let_def)
qed simp

end

section \<open>What the cache holds, from the calls alone\<close>

text \<open>All keys ever set, newest first, with the value and time of their last \<open>Set\<close>.\<close>

fun history :: "('k, 'v) ccall list \<Rightarrow> ('k, 'v) entries \<Rightarrow> ('k, 'v) entries" where
  "history [] es = es"
| "history (Get k now # cs) es = history cs es"
| "history (Set k v now # cs) es = history cs (put_first k v now es)"

lemma filter_fst_new: "k \<notin> fst ` set es \<Longrightarrow> filter (\<lambda>e. fst e \<noteq> k) es = es"
  by (force intro: filter_True)

lemma distinct_put_first: "distinct (map fst es) \<Longrightarrow> distinct (map fst (put_first k v t es))"
  by (auto simp: put_first_def distinct_map_filter)

lemma take_filter_one:
  assumes "distinct (map fst es)" and "k \<in> fst ` set (take n es)"
  shows "take (n - 1) (filter (\<lambda>e. fst e \<noteq> k) es) = filter (\<lambda>e. fst e \<noteq> k) (take n es)"
  using assms
proof (induction es arbitrary: n)
  case (Cons e es)
  then obtain m where n: "n = Suc m" by (cases n) auto
  show ?case
  proof (cases "fst e = k")
    case True
    with Cons.prems(1) have "k \<notin> fst ` set es" by auto
    moreover from this have "k \<notin> fst ` set (take m es)" by (meson image_mono set_take_subset subsetD)
    ultimately show ?thesis using True n by (simp add: filter_fst_new)
  next
    case False
    with Cons.prems n have k: "k \<in> fst ` set (take m es)" by auto
    then obtain m' where "m = Suc m'" by (cases m) auto
    with Cons.IH [of m] Cons.prems(1) k False n show ?thesis by simp
  qed
qed simp

lemma take_filter_later:
  assumes "k \<notin> fst ` set (take n es)" and "j \<le> n"
  shows "take j (filter (\<lambda>e. fst e \<noteq> k) es) = take j es"
proof -
  have "filter (\<lambda>e. fst e \<noteq> k) es = take n es @ filter (\<lambda>e. fst e \<noteq> k) (drop n es)"
    using filter_fst_new [OF assms(1)] by (metis append_take_drop_id filter_append)
  moreover have "take j (take n es @ ys) = take j es" if "n \<le> length es \<or> ys = []" for ys
    using that assms(2) by (auto simp: min_def)
  ultimately show ?thesis by (cases "n \<le> length es") auto
qed

lemma lru_set_take:
  assumes "distinct (map fst es)" and "0 < cap"
  shows "lru_set cap k v t (take cap es) = take cap (put_first k v t es)"
proof (cases "k \<in> fst ` set (take cap es)")
  case True
  then show ?thesis using take_filter_one [OF assms(1) True] assms(2)
    by (simp add: lru_set_def put_first_def take_Cons')
next
  case False
  then have "take (cap - 1) (filter (\<lambda>e. fst e \<noteq> k) es) = take (cap - 1) es"
    by (rule take_filter_later) simp
  moreover have "(if length (take cap es) = cap then butlast (take cap es) else take cap es) = take (cap - 1) es"
    by (auto simp: butlast_take butlast_conv_take min_def)
  ultimately show ?thesis using False assms(2) by (simp add: lru_set_def put_first_def take_Cons')
qed

lemma lru_run_history:
  "distinct (map fst es) \<Longrightarrow> 0 < cap \<Longrightarrow>
   snd (lru_run none cap valid cs (take cap es)) = take cap (history cs es)"
  by (induction cs es rule: history.induct)
    (simp_all add: split_beta Let_def lru_set_take distinct_put_first)

end
