(* ===== verification/Resource_Cache.thy ===== *)
theory Resource_Cache
  imports Dll Lru "HOL-Library.AList" "HOL-Library.Signed_Division"
begin

text \<open>
  \<open>resource_cache/resource_cache.h\<close>: a cache of shared objects with a hash map from keys to
  items and a ring of the items in the order of their last \<open>Set\<close>. Items live in a heap; the
  object's member \<open>lru_head_\<close> is an item at a fixed address that is not allocated. The
  \<open>unordered_map\<close> is an association list, \<open>operator new\<close> is a parameter, a time point is
  its count of nanoseconds, and a \<open>shared_ptr\<close> is an optional value. The mutex is taken for
  the whole of every operation, so operations do not interleave. \<open>None\<close> is undefined
  behaviour. The log output of \<open>Get\<close> is left out.
\<close>

section \<open>Data\<close>

record 'r ResourceCacheItem =
  rc_key :: string
  res :: "'r option"
  last_modified :: int
  rc_prev :: ptr
  rc_next :: ptr

type_synonym 'r rheap = "nat \<rightharpoonup> 'r ResourceCacheItem"

type_synonym 'r new_item = "'r rheap \<Rightarrow> ptr"

record ResourceCache =
  rc_capacity :: u32
  cache_map :: "(string \<times> nat) list"
  lru_head :: nat
  expire_secs :: u32

definition kCacheExpireSeconds :: u32 where "kCacheExpireSeconds = 30"

section \<open>The ring\<close>

definition set_next :: "ptr \<Rightarrow> ptr \<Rightarrow> 'r rheap \<Rightarrow> 'r rheap option" where
  "set_next p v h = (case p of None \<Rightarrow> None | Some a \<Rightarrow> heap_upd h a (rc_next_update (\<lambda>_. v)))"

definition set_prev :: "ptr \<Rightarrow> ptr \<Rightarrow> 'r rheap \<Rightarrow> 'r rheap option" where
  "set_prev p v h = (case p of None \<Rightarrow> None | Some a \<Rightarrow> heap_upd h a (rc_prev_update (\<lambda>_. v)))"

definition InsertToLRU :: "ResourceCache \<Rightarrow> nat \<Rightarrow> 'r rheap \<Rightarrow> 'r rheap option" where
  "InsertToLRU c item h = do {
     hd \<leftarrow> h (lru_head c);
     h \<leftarrow> set_next (Some item) (rc_next hd) h;
     h \<leftarrow> set_prev (Some item) (Some (lru_head c)) h;
     hd \<leftarrow> h (lru_head c);
     h \<leftarrow> set_prev (rc_next hd) (Some item) h;
     set_next (Some (lru_head c)) (Some item) h
   }"

text \<open>The assertion and the two assignments that \<open>RemoveFromLRU\<close> and \<open>MoveToLRUHead\<close> share.\<close>

definition unlink :: "nat \<Rightarrow> 'r rheap \<Rightarrow> 'r rheap option" where
  "unlink item h = do {
     x \<leftarrow> h item;
     if rc_next x = None \<or> rc_prev x = None then None
     else do {
       h \<leftarrow> set_next (rc_prev x) (rc_next x) h;
       x \<leftarrow> h item;
       set_prev (rc_next x) (rc_prev x) h
     }
   }"

text \<open>\<open>delete\<close> is undefined for the member \<open>lru_head_\<close>, which \<open>new\<close> did not return.\<close>

definition RemoveFromLRU :: "ResourceCache \<Rightarrow> nat \<Rightarrow> 'r rheap \<Rightarrow> 'r rheap option" where
  "RemoveFromLRU c item h = do {
     h \<leftarrow> unlink item h;
     if item = lru_head c then None else Some (h(item := None))
   }"

definition MoveToLRUHead :: "ResourceCache \<Rightarrow> nat \<Rightarrow> 'r rheap \<Rightarrow> 'r rheap option" where
  "MoveToLRUHead c item h = do {
     h \<leftarrow> unlink item h;
     InsertToLRU c item h
   }"

section \<open>Construction and destruction\<close>

text \<open>The address of the object's member \<open>lru_head_\<close> and the heap around it are arguments.\<close>

definition new_cache :: "nat \<Rightarrow> int \<Rightarrow> u32 \<Rightarrow> u32 \<Rightarrow> 'r rheap \<Rightarrow> 'r rheap \<times> ResourceCache" where
  "new_cache this now capacity expire_seconds h =
    (h(this \<mapsto> \<lparr>rc_key = [], res = None, last_modified = now, rc_prev = Some this, rc_next = Some this\<rparr>),
     \<lparr>rc_capacity = capacity, cache_map = [], lru_head = this, expire_secs = expire_seconds\<rparr>)"

definition new_cache_default :: "nat \<Rightarrow> int \<Rightarrow> u32 \<Rightarrow> 'r rheap \<Rightarrow> 'r rheap \<times> ResourceCache" where
  "new_cache_default this now capacity h = new_cache this now capacity kCacheExpireSeconds h"

fun delete_items :: "(string \<times> nat) list \<Rightarrow> 'r rheap \<Rightarrow> 'r rheap option" where
  "delete_items [] h = Some h"
| "delete_items ((k, a) # m) h = (if h a = None then None else delete_items m (h(a := None)))"

definition destroy_cache :: "'r rheap \<Rightarrow> ResourceCache \<Rightarrow> ('r rheap \<times> ResourceCache) option" where
  "destroy_cache h c = map_option (\<lambda>h. (h, c\<lparr>cache_map := []\<rparr>)) (delete_items (cache_map c) h)"

section \<open>Operations\<close>

text \<open>\<open>duration_cast<seconds>\<close> truncates towards zero.\<close>

definition not_expired :: "u32 \<Rightarrow> int \<Rightarrow> int \<Rightarrow> bool" where
  "not_expired expire modified now \<longleftrightarrow> (now - modified) sdiv 1000000000 < sint expire"

definition cache_Get :: "string \<Rightarrow> int \<Rightarrow> 'r rheap \<Rightarrow> ResourceCache \<Rightarrow> 'r option option" where
  "cache_Get key now h c =
    (case map_of (cache_map c) key of
       None \<Rightarrow> Some None
     | Some a \<Rightarrow> do {
         x \<leftarrow> h a;
         Some (if not_expired (expire_secs c) (last_modified x) now then res x else None)
       })"

text \<open>The comparison of \<open>size_t\<close> and \<open>int\<close> converts the capacity to 64 bits.\<close>

definition cache_full :: "ResourceCache \<Rightarrow> bool" where
  "cache_full c \<longleftrightarrow> (of_nat (length (cache_map c)) :: u64) = scast (rc_capacity c)"

definition evict :: "'r rheap \<Rightarrow> ResourceCache \<Rightarrow> ('r rheap \<times> ResourceCache) option" where
  "evict h c = do {
     hd \<leftarrow> h (lru_head c);
     rear \<leftarrow> rc_prev hd;
     x \<leftarrow> h rear;
     h \<leftarrow> RemoveFromLRU c rear h;
     Some (h, c\<lparr>cache_map := AList.delete (rc_key x) (cache_map c)\<rparr>)
   }"

definition cache_Set :: "'r new_item \<Rightarrow> string \<Rightarrow> 'r option \<Rightarrow> int \<Rightarrow> 'r rheap \<Rightarrow> ResourceCache
    \<Rightarrow> (bool \<times> 'r rheap \<times> ResourceCache) option" where
  "cache_Set new key r now h c =
    (case map_of (cache_map c) key of
       Some a \<Rightarrow> do {
         h \<leftarrow> heap_upd h a (\<lambda>x. x\<lparr>res := r, last_modified := now\<rparr>);
         h \<leftarrow> MoveToLRUHead c a h;
         Some (True, h, c)
       }
     | None \<Rightarrow> do {
         (h, c) \<leftarrow> (if cache_full c then evict h c else Some (h, c));
         (case new h of
            None \<Rightarrow> Some (False, h, c)
          | Some a \<Rightarrow> do {
              let h = h(a \<mapsto> \<lparr>rc_key = key, res = r, last_modified = now, rc_prev = None, rc_next = None\<rparr>);
              let c = c\<lparr>cache_map := AList.update key a (cache_map c)\<rparr>;
              h \<leftarrow> InsertToLRU c a h;
              Some (True, h, c)
            })
       })"

end
