(* ===== verification/Resource_Cache_Lru.thy ===== *)
theory Resource_Cache_Lru
  imports Resource_Cache
begin

text \<open>
  The resource cache implements the bounded cache of \<open>Lru\<close>: a representation relation
  between heap, object and list of entries, the laws of \<open>Get\<close> and \<open>Set\<close>, and the properties
  that follow for sequences of calls.
\<close>

section \<open>Views of the heap\<close>

definition rnx :: "'r rheap \<Rightarrow> links" where
  "rnx h a = Option.bind (h a) rc_next"

definition rpv :: "'r rheap \<Rightarrow> links" where
  "rpv h a = Option.bind (h a) rc_prev"

definition rdata :: "'r rheap \<Rightarrow> nat \<Rightarrow> (string \<times> 'r option \<times> int) option" where
  "rdata h a = map_option (\<lambda>x. (rc_key x, res x, last_modified x)) (h a)"

lemma set_next_Some:
  assumes "a \<in> dom h"
  obtains h' where "set_next (Some a) v h = Some h'" "rnx h' = (rnx h)(a := v)" "rpv h' = rpv h"
    "rdata h' = rdata h" "dom h' = dom h"
proof -
  from assms obtain x where x: "h a = Some x" by auto
  show thesis
    by (rule that [of "h(a \<mapsto> x\<lparr>rc_next := v\<rparr>)"])
      (use x in \<open>auto simp: set_next_def rnx_def rpv_def rdata_def fun_eq_iff\<close>)
qed

lemma set_prev_Some:
  assumes "a \<in> dom h"
  obtains h' where "set_prev (Some a) v h = Some h'" "rpv h' = (rpv h)(a := v)" "rnx h' = rnx h"
    "rdata h' = rdata h" "dom h' = dom h"
proof -
  from assms obtain x where x: "h a = Some x" by auto
  show thesis
    by (rule that [of "h(a \<mapsto> x\<lparr>rc_prev := v\<rparr>)"])
      (use x in \<open>auto simp: set_prev_def rnx_def rpv_def rdata_def fun_eq_iff\<close>)
qed

lemma ring_live:
  assumes "ring (rnx h) (rpv h) a xs"
  shows "set (a # xs) \<subseteq> dom h"
proof -
  have "path (rnx h) (rpv h) a xs b \<Longrightarrow> set (a # xs) \<subseteq> dom h" for b
    by (induction xs arbitrary: a) (auto simp: rnx_def bind_eq_Some_conv)
  from this [of a] assms show ?thesis unfolding ring_def by blast
qed

lemma insert_ring:
  assumes r: "ring (rnx h) (rpv h) (lru_head c) xs" and item: "item \<notin> set (lru_head c # xs)" "item \<in> dom h"
  obtains h' where "InsertToLRU c item h = Some h'" "ring (rnx h') (rpv h') (lru_head c) (item # xs)"
    "rdata h' = rdata h" "dom h' = dom h"
proof -
  let ?a = "lru_head c" and ?f = "hd (xs @ [lru_head c])"
  note live = ring_live [OF r]
  from live obtain hd0 where hd0: "h ?a = Some hd0" by auto
  have n0: "rc_next hd0 = Some ?f" using ring_first [OF r] hd0 by (simp add: rnx_def)
  obtain h1 where h1: "set_next (Some item) (rc_next hd0) h = Some h1" "rnx h1 = (rnx h)(item := rc_next hd0)"
    "rpv h1 = rpv h" "rdata h1 = rdata h" "dom h1 = dom h"
    by (rule set_next_Some [OF item(2)])
  obtain h2 where h2: "set_prev (Some item) (Some ?a) h1 = Some h2" "rpv h2 = (rpv h1)(item := Some ?a)"
    "rnx h2 = rnx h1" "rdata h2 = rdata h1" "dom h2 = dom h1"
    using set_prev_Some [of item h1] item(2) h1(5) by metis
  have "?a \<in> dom h2" using live by (simp add: h2(5) h1(5))
  then obtain hd2 where hd2: "h2 ?a = Some hd2" by auto
  have "rnx h2 ?a = rnx h ?a" using h1(2) h2(3) item(1) by simp
  with hd0 hd2 n0 have n2: "rc_next hd2 = Some ?f" by (simp add: rnx_def)
  have "?f \<in> set (?a # xs)" by (cases xs) auto
  then have f: "?f \<in> dom h2" using live h1(5) h2(5) by auto
  obtain h3 where h3: "set_prev (Some ?f) (Some item) h2 = Some h3" "rpv h3 = (rpv h2)(?f := Some item)"
    "rnx h3 = rnx h2" "rdata h3 = rdata h2" "dom h3 = dom h2"
    by (rule set_prev_Some [OF f])
  have "?a \<in> dom h3" using live h1(5) h2(5) h3(5) by auto
  then obtain h4 where h4: "set_next (Some ?a) (Some item) h3 = Some h4" "rnx h4 = (rnx h3)(?a := Some item)"
    "rpv h4 = rpv h3" "rdata h4 = rdata h3" "dom h4 = dom h3"
    by (rule set_next_Some)
  show thesis
  proof (rule that)
    show "InsertToLRU c item h = Some h4"
      using hd0 hd2 n2 h1(1) h2(1) h3(1) h4(1) by (simp add: InsertToLRU_def)
    show "ring (rnx h4) (rpv h4) ?a (item # xs)"
      using ring_insert_first [OF r item(1) refl]
      by (simp add: h4(2,3) h3(2,3) h2(2,3) h1(2,3) n0)
  qed (simp_all add: h4 h3 h2 h1)
qed

lemma unlink_ring:
  assumes r: "ring (rnx h) (rpv h) a (us @ y # vs)"
  obtains h' where "unlink y h = Some h'" "ring (rnx h') (rpv h') a (us @ vs)"
    "rdata h' = rdata h" "dom h' = dom h"
proof -
  let ?l = "last (a # us)" and ?f = "hd (vs @ [a])"
  note live = ring_live [OF r] and inner = ring_inner [OF r]
  from live obtain x where x: "h y = Some x" by auto
  have xl: "rc_prev x = Some ?l" "rc_next x = Some ?f" using inner x by (simp_all add: rnx_def rpv_def)
  have l: "?l \<in> set (a # us)" by (rule last_in_set) simp
  have ne: "?l \<noteq> y" using l ring_distinct [OF r] by auto
  have "?l \<in> dom h" using l live by auto
  then obtain h1 where h1: "set_next (Some ?l) (Some ?f) h = Some h1" "rnx h1 = (rnx h)(?l := Some ?f)"
    "rpv h1 = rpv h" "rdata h1 = rdata h" "dom h1 = dom h"
    by (rule set_next_Some)
  obtain x1 where x1: "h1 y = Some x1" using x h1(5) by (metis domD domI)
  have "rnx h1 y = rnx h y" using h1(2) ne by simp
  then have x1l: "rc_prev x1 = Some ?l" "rc_next x1 = Some ?f"
    using x x1 xl fun_cong [OF h1(3), of y] by (simp_all add: rnx_def rpv_def)
  have "?f \<in> set (vs @ [a])" by (rule hd_in_set) simp
  then have "?f \<in> dom h1" using live h1(5) by auto
  then obtain h2 where h2: "set_prev (Some ?f) (Some ?l) h1 = Some h2" "rpv h2 = (rpv h1)(?f := Some ?l)"
    "rnx h2 = rnx h1" "rdata h2 = rdata h1" "dom h2 = dom h1"
    by (rule set_prev_Some)
  show thesis
  proof (rule that)
    show "unlink y h = Some h2" using x xl x1 x1l h1(1) h2(1) by (simp add: unlink_def)
    show "ring (rnx h2) (rpv h2) a (us @ vs)"
      using ring_unlink [OF r refl refl] by (simp add: h2(2,3) h1(2,3))
  qed (simp_all add: h2 h1)
qed

section \<open>The representation\<close>

definition entry_of :: "'r rheap \<Rightarrow> nat \<Rightarrow> string \<times> 'r option \<times> int" where
  "entry_of h a = the (rdata h a)"

definition map_matches :: "(string \<times> nat) list \<Rightarrow> string list \<Rightarrow> nat list \<Rightarrow> bool" where
  "map_matches m ks xs \<longleftrightarrow> distinct (map fst m) \<and> set m = set (zip ks xs)"

definition cache_inv :: "'r rheap \<Rightarrow> ResourceCache \<Rightarrow> nat list \<Rightarrow> bool" where
  "cache_inv h c xs \<longleftrightarrow>
     ring (rnx h) (rpv h) (lru_head c) xs \<and> dom h = set (lru_head c # xs) \<and>
     distinct (map (\<lambda>a. fst (entry_of h a)) xs) \<and>
     map_matches (cache_map c) (map (\<lambda>a. fst (entry_of h a)) xs) xs"

fun cache_rep :: "'r rheap \<times> ResourceCache \<Rightarrow> nat \<Rightarrow> (int \<Rightarrow> int \<Rightarrow> bool) \<Rightarrow> (string, 'r option) entries \<Rightarrow> bool" where
  "cache_rep (h, c) cap valid es \<longleftrightarrow>
     (\<exists>xs. cache_inv h c xs \<and> es = map (entry_of h) xs) \<and> length es \<le> cap \<and>
     0 < cap \<and> cap < 2 ^ 31 \<and> rc_capacity c = of_nat cap \<and> valid = not_expired (expire_secs c)"

lemma entry_of_cong: "rdata h' = rdata h \<Longrightarrow> entry_of h' = entry_of h"
  by (simp add: entry_of_def fun_eq_iff)

lemma map_matches_lookup:
  assumes "map_matches m ks xs" and "distinct ks" and "length ks = length xs"
  shows "map_of m k = map_of (zip ks xs) k"
  using assms by (metis map_matches_def map_fst_zip map_of_inject_set)

lemma map_matches_length:
  assumes "map_matches m ks xs" and "distinct ks" and "length ks = length xs"
  shows "length m = length xs"
proof -
  have "distinct m" "distinct (zip ks xs)" using assms by (auto simp: map_matches_def distinct_map distinct_zipI1)
  then have "length m = card (set m)" "length (zip ks xs) = card (set (zip ks xs))"
    by (simp_all add: distinct_card)
  with assms show ?thesis by (simp add: map_matches_def)
qed

lemma map_matches_add:
  assumes "map_matches m ks xs" and "k \<notin> set ks" and "length ks = length xs"
  shows "map_matches (AList.update k a m) (k # ks) (a # xs)"
proof -
  have k: "k \<notin> fst ` set m" using assms by (auto simp: map_matches_def dest: set_zip_leftD)
  then have "AList.update k a m = m @ [(k, a)]" by (induction m) auto
  with k assms show ?thesis by (auto simp: map_matches_def)
qed

lemma map_matches_delete:
  assumes "map_matches m (ks @ k # ks') (xs @ a # xs')" and "k \<notin> set (ks @ ks')" and "length ks = length xs"
    "length ks' = length xs'"
  shows "map_matches (AList.delete k m) (ks @ ks') (xs @ xs')"
proof -
  have "set (AList.delete k m) = set (zip (ks @ ks') (xs @ xs'))"
    using assms by (auto simp: map_matches_def AList.delete_eq dest: set_zip_leftD)
  moreover have "distinct (map fst (AList.delete k m))"
    using assms(1) by (simp add: map_matches_def AList.distinct_delete)
  ultimately show ?thesis by (simp add: map_matches_def)
qed

lemma cache_inv_split:
  assumes "cache_inv h c xs" and "map_of (cache_map c) k = Some a"
  obtains us vs where "xs = us @ a # vs" "fst (entry_of h a) = k"
proof -
  have "map_of (zip (map (\<lambda>a. fst (entry_of h a)) xs) xs) k = Some a"
    using assms map_matches_lookup [of "cache_map c" "map (\<lambda>a. fst (entry_of h a)) xs" xs k]
    by (simp add: cache_inv_def)
  then have "(k, a) \<in> set (zip (map (\<lambda>a. fst (entry_of h a)) xs) xs)" by (rule map_of_SomeD)
  then have "a \<in> set xs" "fst (entry_of h a) = k" by (auto simp: set_zip)
  with that show thesis by (meson split_list)
qed

lemma cache_inv_none:
  assumes "cache_inv h c xs"
  shows "map_of (cache_map c) k = None \<longleftrightarrow> k \<notin> fst ` set (map (entry_of h) xs)"
  using map_matches_lookup [of "cache_map c" "map (\<lambda>a. fst (entry_of h a)) xs" xs k] assms
  by (auto simp: cache_inv_def map_of_zip_is_None image_image)

lemma map_matches_perm:
  assumes "set xs' = set xs" and "\<And>a. a \<in> set xs \<Longrightarrow> f' a = f a"
  shows "map_matches m (map f' xs') xs' \<longleftrightarrow> map_matches m (map f xs) xs"
proof -
  have "set (zip (map g ys) ys) = (\<lambda>a. (g a, a)) ` set ys" for g :: "nat \<Rightarrow> string" and ys
    by (induction ys) auto
  with assms show ?thesis by (simp add: map_matches_def)
qed

section \<open>The law of Get\<close>

lemma cache_Get_law:
  assumes "cache_rep (h, c) cap valid es"
  shows "cache_Get k now h c = Some (lru_get None valid k now es)"
proof -
  obtain xs where inv: "cache_inv h c xs" and es: "es = map (entry_of h) xs"
    and valid: "valid = not_expired (expire_secs c)"
    using assms by auto
  show ?thesis
  proof (cases "map_of (cache_map c) k")
    case None
    with cache_inv_none [OF inv, of k] have "map_of es k = None" by (simp add: es map_of_eq_None_iff)
    with None show ?thesis by (simp add: cache_Get_def lru_get_def)
  next
    case (Some a)
    from cache_inv_split [OF inv Some] obtain us vs where xs: "xs = us @ a # vs" "fst (entry_of h a) = k" .
    then have "(k, snd (entry_of h a)) \<in> set es" by (auto simp: es)
    moreover have "distinct (map fst es)" using inv by (simp add: cache_inv_def es comp_def)
    ultimately have m: "map_of es k = Some (snd (entry_of h a))" by simp
    have "a \<in> dom h" using inv xs(1) by (auto simp: cache_inv_def)
    then obtain x where x: "h a = Some x" by auto
    with m Some valid show ?thesis by (simp add: cache_Get_def lru_get_def entry_of_def rdata_def)
  qed
qed

section \<open>The law of Set\<close>

text \<open>A key that is present: its item gets the new value and moves to the front.\<close>

lemma set_present:
  assumes inv: "cache_inv h c (us @ a # vs)" and k: "fst (entry_of h a) = k"
  obtains h' where "cache_Set new k r now h c = Some (True, h', c)" "cache_inv h' c (a # us @ vs)"
    "map (entry_of h') (a # us @ vs) = put_first k r now (map (entry_of h) (us @ a # vs))"
proof -
  let ?x = "\<lambda>x. x\<lparr>res := r, last_modified := now\<rparr>"
  have rg: "ring (rnx h) (rpv h) (lru_head c) (us @ a # vs)" and dm: "dom h = set (lru_head c # us @ a # vs)"
    and dist: "distinct (map (\<lambda>a. fst (entry_of h a)) (us @ a # vs))"
    and mm: "map_matches (cache_map c) (map (\<lambda>a. fst (entry_of h a)) (us @ a # vs)) (us @ a # vs)"
    using inv by (simp_all add: cache_inv_def)
  have lk: "map_of (cache_map c) k = Some a"
    using mm k by (intro map_of_is_SomeI) (auto simp: map_matches_def)
  obtain x where x: "h a = Some x" using dm by (metis domD in_set_conv_decomp list.set_intros(2))
  define h1 where "h1 = h(a \<mapsto> ?x x)"
  have v1: "rnx h1 = rnx h" "rpv h1 = rpv h" "dom h1 = dom h" "rdata h1 = (rdata h)(a := Some (k, r, now))"
    using x k by (auto simp: h1_def rnx_def rpv_def rdata_def entry_of_def fun_eq_iff)
  obtain h2 where h2: "unlink a h1 = Some h2" "ring (rnx h2) (rpv h2) (lru_head c) (us @ vs)"
    "rdata h2 = rdata h1" "dom h2 = dom h1"
    using unlink_ring [of h1 "lru_head c" us a vs] rg v1 by metis
  have a: "a \<notin> set (lru_head c # us @ vs)" using ring_distinct [OF rg] by auto
  have "a \<in> dom h2" using h2(4) v1(3) dm by simp
  from insert_ring [OF h2(2) a this] obtain h3 where h3: "InsertToLRU c a h2 = Some h3"
    "ring (rnx h3) (rpv h3) (lru_head c) (a # us @ vs)" "rdata h3 = rdata h2" "dom h3 = dom h2" .
  have e: "entry_of h3 b = (if b = a then (k, r, now) else entry_of h b)" for b
    using h3(3) h2(3) v1(4) by (simp add: entry_of_def)
  have f: "fst (entry_of h3 b) = fst (entry_of h b)" for b using e k by simp
  show thesis
  proof (rule that)
    show "cache_Set new k r now h c = Some (True, h3, c)"
      using lk x h2(1) h3(1) by (simp add: cache_Set_def MoveToLRUHead_def h1_def)
    have "map_matches (cache_map c) (map (\<lambda>a. fst (entry_of h3 a)) (a # us @ vs)) (a # us @ vs)"
      using mm by (subst map_matches_perm [where f = "\<lambda>a. fst (entry_of h a)" and xs = "us @ a # vs"]) (auto simp: f)
    moreover have "distinct (map (\<lambda>a. fst (entry_of h3 a)) (a # us @ vs))"
      using dist unfolding f distinct_map by (simp del: inj_on_insert)
    moreover have "dom h3 = set (lru_head c # a # us @ vs)" using dm unfolding h3(4) h2(4) v1(3) by auto
    ultimately show "cache_inv h3 c (a # us @ vs)" using h3(2) by (simp only: cache_inv_def simp_thms)
    have "k \<notin> (\<lambda>b. fst (entry_of h b)) ` set (us @ vs)" using dist k by (simp add: image_Un)
    then have "\<forall>b \<in> set (us @ vs). fst (entry_of h b) \<noteq> k" by blast
    then have "filter (\<lambda>e. fst e \<noteq> k) (map (entry_of h) us) = map (entry_of h) us"
      "filter (\<lambda>e. fst e \<noteq> k) (map (entry_of h) vs) = map (entry_of h) vs"
      by (simp_all add: filter_map comp_def)
    then have "filter (\<lambda>e. fst e \<noteq> k) (map (entry_of h) (us @ a # vs)) = map (entry_of h) (us @ vs)"
      using k by simp
    moreover have "map (entry_of h3) (us @ vs) = map (entry_of h) (us @ vs)" using a e by simp
    ultimately show "map (entry_of h3) (a # us @ vs) = put_first k r now (map (entry_of h) (us @ a # vs))"
      by (simp add: put_first_def e)
  qed
qed

text \<open>A full cache loses its last entry.\<close>

lemma evict_last:
  assumes inv: "cache_inv h c (us @ [a])"
  obtains h' c' where "evict h c = Some (h', c')" "cache_inv h' c' us" "map (entry_of h') us = map (entry_of h) us"
    "c' = c\<lparr>cache_map := cache_map c'\<rparr>"
proof -
  have rg: "ring (rnx h) (rpv h) (lru_head c) (us @ a # [])" and dm: "dom h = set (lru_head c # us @ [a])"
    and dist: "distinct (map (\<lambda>a. fst (entry_of h a)) (us @ [a]))"
    and mm: "map_matches (cache_map c) (map (\<lambda>a. fst (entry_of h a)) (us @ [a])) (us @ [a])"
    using inv by (simp_all add: cache_inv_def)
  have "lru_head c \<in> dom h" "a \<in> dom h" using dm by auto
  then obtain hd0 x where x: "h (lru_head c) = Some hd0" "h a = Some x" by auto
  have "rc_prev hd0 = Some a" using ring_last [OF rg] x(1) by (simp add: rpv_def)
  have key: "rc_key x = fst (entry_of h a)" using x(2) by (simp add: entry_of_def rdata_def)
  from unlink_ring [OF rg] obtain h1 where h1: "unlink a h = Some h1" "ring (rnx h1) (rpv h1) (lru_head c) us"
    "rdata h1 = rdata h" "dom h1 = dom h" by auto
  have a: "a \<noteq> lru_head c" "a \<notin> set us" using ring_distinct [OF rg] by auto
  let ?h = "h1(a := None)" and ?c = "c\<lparr>cache_map := AList.delete (rc_key x) (cache_map c)\<rparr>"
  have e: "entry_of ?h b = entry_of h b" if "b \<in> set us" for b
    using that a h1(3) by (auto simp: entry_of_def rdata_def fun_eq_iff)
  show thesis
  proof (rule that)
    show "evict h c = Some (?h, ?c)"
      using x \<open>rc_prev hd0 = Some a\<close> h1(1) a(1) by (simp add: evict_def RemoveFromLRU_def)
    have "ring (rnx ?h) (rpv ?h) (lru_head c) us"
      using h1(2) a by (subst ring_cong [of "lru_head c" us "rnx ?h" "rnx h1" "rpv ?h" "rpv h1"]) (auto simp: rnx_def rpv_def)
    moreover have eqs: "map (\<lambda>a. fst (entry_of ?h a)) us = map (\<lambda>a. fst (entry_of h a)) us" using e by simp
    moreover have "map_matches (AList.delete (rc_key x) (cache_map c)) (map (\<lambda>a. fst (entry_of h a)) us) us"
      using map_matches_delete [of "cache_map c" "map (\<lambda>a. fst (entry_of h a)) us" "rc_key x" "[]" us a "[]"] mm dist key
      by simp
    moreover have "dom ?h = set (lru_head c # us)" using dm h1(4) a by auto
    moreover have "distinct (map (\<lambda>a. fst (entry_of h a)) us)" using dist by simp
    ultimately show "cache_inv ?h ?c us" unfolding cache_inv_def eqs by simp
    show "map (entry_of ?h) us = map (entry_of h) us" using e by simp
  qed simp
qed

text \<open>A key that is absent: a new item at the front.\<close>

lemma set_new:
  assumes inv: "cache_inv h c xs" and k: "k \<notin> fst ` set (map (entry_of h) xs)" and a: "h a = None"
  obtains h' where
    "InsertToLRU c a (h(a \<mapsto> \<lparr>rc_key = k, res = r, last_modified = now, rc_prev = None, rc_next = None\<rparr>)) = Some h'"
    "cache_inv h' (c\<lparr>cache_map := AList.update k a (cache_map c)\<rparr>) (a # xs)"
    "map (entry_of h') (a # xs) = (k, r, now) # map (entry_of h) xs"
proof -
  let ?h = "h(a \<mapsto> \<lparr>rc_key = k, res = r, last_modified = now, rc_prev = None, rc_next = None\<rparr>)"
  have rg: "ring (rnx h) (rpv h) (lru_head c) xs" and dm: "dom h = set (lru_head c # xs)"
    using inv by (simp_all add: cache_inv_def)
  have ax: "a \<notin> set (lru_head c # xs)" using a dm by auto
  have "ring (rnx ?h) (rpv ?h) (lru_head c) xs"
    using rg by (subst ring_cong [of "lru_head c" xs "rnx ?h" "rnx h" "rpv ?h" "rpv h"]) (use ax in \<open>auto simp: rnx_def rpv_def\<close>)
  from insert_ring [OF this ax] obtain h' where h': "InsertToLRU c a ?h = Some h'"
    "ring (rnx h') (rpv h') (lru_head c) (a # xs)" "rdata h' = rdata ?h" "dom h' = dom ?h" by auto
  have ea: "entry_of h' a = (k, r, now)" using h'(3) by (simp add: entry_of_def rdata_def fun_eq_iff)
  have ex: "entry_of h' b = entry_of h b" if "b \<in> set xs" for b
    using that ax h'(3) by (auto simp: entry_of_def rdata_def fun_eq_iff)
  have fs: "map (\<lambda>b. fst (entry_of h' b)) (a # xs) = k # map (\<lambda>b. fst (entry_of h b)) xs" using ea ex by simp
  have k': "k \<notin> set (map (\<lambda>b. fst (entry_of h b)) xs)" using k by force
  show thesis
  proof (rule that)
    show "InsertToLRU c a ?h = Some h'" by (rule h'(1))
    have "map_matches (AList.update k a (cache_map c)) (k # map (\<lambda>b. fst (entry_of h b)) xs) (a # xs)"
      using inv k' by (intro map_matches_add) (simp_all add: cache_inv_def)
    moreover have "dom h' = set (lru_head c # a # xs)" using dm h'(4) by auto
    moreover have "distinct (k # map (\<lambda>b. fst (entry_of h b)) xs)" using inv k' by (simp add: cache_inv_def)
    ultimately show "cache_inv h' (c\<lparr>cache_map := AList.update k a (cache_map c)\<rparr>) (a # xs)"
      using h'(2) unfolding cache_inv_def fs by simp
    show "map (entry_of h') (a # xs) = (k, r, now) # map (entry_of h) xs" using ea ex by simp
  qed
qed

definition new_ok :: "'r new_item \<Rightarrow> bool" where
  "new_ok new \<longleftrightarrow> (\<forall>h. finite (dom h) \<longrightarrow> (\<exists>a. new h = Some a \<and> h a = None))"

lemma cache_full_iff:
  assumes "length m < 2 ^ 31" and "cap < 2 ^ 31" and "m = cache_map c" and "rc_capacity c = of_nat cap"
  shows "cache_full c \<longleftrightarrow> length m = cap"
proof -
  have "sint (of_nat cap :: u32) = int cap"
    using assms(2) by (simp add: sint_unat32 unat_of_nat32)
  then have "(scast (rc_capacity c) :: u64) = of_nat cap"
    by (simp add: assms(4) scast_eq)
  moreover have "length m < 2 ^ 64" "cap < 2 ^ 64" using assms(1,2) by simp_all
  then have "(of_nat (length m) :: u64) = of_nat cap \<longleftrightarrow> length m = cap"
    by (simp add: word_of_nat_eq_iff take_bit_nat_eq_self)
  ultimately show ?thesis by (simp add: cache_full_def assms(3))
qed

text \<open>Before a new key is stored, a full cache gives up its last entry.\<close>

lemma make_room:
  assumes inv: "cache_inv h c xs" and full: "cache_full c \<longleftrightarrow> length xs = cap" and cap: "0 < cap"
    and es: "es = map (entry_of h) xs"
  shows "\<exists>h1 c1 ys. (if cache_full c then evict h c else Some (h, c)) = Some (h1, c1) \<and>
    cache_inv h1 c1 ys \<and> map (entry_of h1) ys = (if length es = cap then butlast es else es) \<and> c1 = c\<lparr>cache_map := cache_map c1\<rparr>"
    (is "\<exists>h1 c1 ys. _ \<and> _ \<and> _ = ?es \<and> _")
proof (cases "length xs = cap")
  case True
  then obtain us a where xs: "xs = us @ [a]" using cap by (cases xs rule: rev_cases) auto
  obtain h1 c1 where 1: "evict h c = Some (h1, c1)" "cache_inv h1 c1 us" "map (entry_of h1) us = map (entry_of h) us"
    "c1 = c\<lparr>cache_map := cache_map c1\<rparr>"
    by (rule evict_last [OF inv [unfolded xs]])
  have "?es = map (entry_of h1) us" using True es xs 1(3) by (simp add: butlast_append)
  with 1 True full show ?thesis by auto
next
  case False
  then show ?thesis using full inv es by auto
qed

lemma cache_Set_law:
  assumes rep: "cache_rep (h, c) cap valid es" and new: "new_ok new"
  shows "\<exists>h' c'. cache_Set new k r now h c = Some (True, h', c') \<and> cache_rep (h', c') cap valid (lru_set cap k r now es)"
proof -
  obtain xs where inv: "cache_inv h c xs" and es: "es = map (entry_of h) xs" and len: "length xs \<le> cap"
    and cap: "0 < cap" "cap < 2 ^ 31" "rc_capacity c = of_nat cap" and valid: "valid = not_expired (expire_secs c)"
    using rep by auto
  show ?thesis
  proof (cases "map_of (cache_map c) k")
    case (Some a)
    from cache_inv_split [OF inv Some] obtain us vs where xs: "xs = us @ a # vs" "fst (entry_of h a) = k" .
    from set_present [OF inv [unfolded xs(1)] xs(2)] obtain h' where
      h': "cache_Set new k r now h c = Some (True, h', c)" "cache_inv h' c (a # us @ vs)"
        "map (entry_of h') (a # us @ vs) = put_first k r now es" unfolding es xs(1) .
    have "k \<in> fst ` set es" using xs by (auto simp: es)
    then have l: "lru_set cap k r now es = map (entry_of h') (a # us @ vs)" using h'(3) by (simp add: lru_set_def)
    have "cache_rep (h', c) cap valid (lru_set cap k r now es)"
      unfolding l using h'(2) len cap valid xs(1) by auto
    with h'(1) show ?thesis by blast
  next
    case None
    then have k: "k \<notin> fst ` set es" using cache_inv_none [OF inv, of k] by (simp add: es)
    have ml: "length (cache_map c) = length xs"
      using inv by (intro map_matches_length [of _ "map (\<lambda>a. fst (entry_of h a)) xs"]) (simp_all add: cache_inv_def)
    have full: "cache_full c \<longleftrightarrow> length xs = cap"
      using cache_full_iff [OF _ cap(2) refl cap(3)] ml len cap(2) by simp
    from make_room [OF inv full cap(1) es] obtain h1 c1 ys where 1: "(if cache_full c then evict h c else Some (h, c)) = Some (h1, c1)"
      "cache_inv h1 c1 ys" "map (entry_of h1) ys = (if length es = cap then butlast es else es)" "c1 = c\<lparr>cache_map := cache_map c1\<rparr>"
      by blast
    have "finite (dom h1)" using 1(2) by (simp add: cache_inv_def)
    then obtain a where a: "new h1 = Some a" "h1 a = None" using new by (auto simp: new_ok_def)
    have "k \<notin> fst ` set (map (entry_of h1) ys)" unfolding 1(3) using k by (auto dest: in_set_butlastD)
    from set_new [OF 1(2) this a(2)] obtain h2 where h2:
      "InsertToLRU c1 a (h1(a \<mapsto> \<lparr>rc_key = k, res = r, last_modified = now, rc_prev = None, rc_next = None\<rparr>)) = Some h2"
      "cache_inv h2 (c1\<lparr>cache_map := AList.update k a (cache_map c1)\<rparr>) (a # ys)"
      "map (entry_of h2) (a # ys) = (k, r, now) # map (entry_of h1) ys" .
    let ?c = "c1\<lparr>cache_map := AList.update k a (cache_map c1)\<rparr>"
    have l: "lru_set cap k r now es = map (entry_of h2) (a # ys)" using k h2(3) 1(3) by (simp add: lru_set_def)
    have "rc_capacity c1 = rc_capacity c" "expire_secs c1 = expire_secs c"
      using 1(4) by (metis ResourceCache.select_convs(1,4) ResourceCache.surjective ResourceCache.update_convs(2))+
    moreover have "length (a # ys) \<le> cap" using 1(3) len cap(1) es by (auto dest: arg_cong [where f = length] split: if_splits)
    ultimately have "cache_rep (h2, ?c) cap valid (lru_set cap k r now es)"
      unfolding l using h2(2) cap valid by auto
    moreover have "cache_Set new k r now h c = Some (True, h2, ?c)"
    proof -
      have "InsertToLRU ?c a g = InsertToLRU c1 a g" for g :: "'a rheap" by (simp add: InsertToLRU_def)
      with None 1(1) a(1) h2(1) show ?thesis by (simp add: cache_Set_def)
    qed
    ultimately show ?thesis by blast
  qed
qed

section \<open>The interface\<close>

definition rc_get :: "string \<Rightarrow> int \<Rightarrow> 'r rheap \<times> ResourceCache \<Rightarrow> 'r option option" where
  "rc_get k now s = cache_Get k now (fst s) (snd s)"

definition rc_set :: "'r new_item \<Rightarrow> string \<Rightarrow> 'r option \<Rightarrow> int \<Rightarrow> 'r rheap \<times> ResourceCache
    \<Rightarrow> (bool \<times> 'r rheap \<times> ResourceCache) option" where
  "rc_set new k r now s = cache_Set new k r now (fst s) (snd s)"

interpretation rc: bounded_cache None rc_get "rc_set new"
  "\<lambda>s cap valid es. new_ok new \<and> cache_rep s cap valid es" for new :: "'r new_item"
proof (unfold_locales, goal_cases)
  case (1 s cap valid es k now)
  then have "cache_rep (fst s, snd s) cap valid es" by simp
  from cache_Get_law [OF this] show ?case by (simp add: rc_get_def)
next
  case (2 s cap valid es k v now)
  then have "cache_rep (fst s, snd s) cap valid es" "new_ok new" by simp_all
  from cache_Set_law [OF this, of k v now] 2 show ?case by (auto simp: rc_set_def)
qed

lemma new_cache_rep:
  assumes "0 <s capacity"
  shows "cache_rep (new_cache this now capacity expire (Map.empty :: 'a rheap)) (unat capacity) (not_expired expire) []"
proof -
  obtain h c where hc: "new_cache this now capacity expire Map.empty = (h :: 'a rheap, c)"
    by (cases "new_cache this now capacity expire (Map.empty :: 'a rheap)")
  have "cache_inv h c []"
    using hc [symmetric] by (simp add: cache_inv_def new_cache_def ring_single rnx_def rpv_def map_matches_def)
  moreover have "0 < unat capacity" "unat capacity < 2 ^ 31" using assms by (simp_all add: pos_u32)
  ultimately show ?thesis using hc by (auto simp: new_cache_def)
qed

section \<open>Properties\<close>

text \<open>
  C8. For a capacity above zero, any sequence of \<open>Get\<close> and \<open>Set\<close> calls on a new cache runs
  to its end without an invalid access, and every call returns what the bounded list of the
  entries, most recently set first, returns; a \<open>Get\<close> does not change the order.
\<close>

theorem resource_cache_refines_lru:
  assumes "new_ok new" and "0 <s capacity"
  shows "\<exists>s. cache_run rc_get (rc_set new) cs (new_cache this now0 capacity expire Map.empty) =
    Some (fst (lru_run None (unat capacity) (not_expired expire) cs []), s)"
  using rc.run_refines_lru [OF conjI [OF assms(1) new_cache_rep [OF assms(2)]]] by blast

text \<open>
  After any calls, a \<open>Get\<close> returns the value last set for the key if fewer than
  \<open>capacity\<close> other keys were set since and the value has not expired, and null otherwise:
  the cache holds exactly the \<open>capacity\<close> keys set last.
\<close>

theorem resource_cache_holds_last_set:
  assumes "new_ok new" and "0 <s capacity"
  shows "\<exists>rs h c. cache_run rc_get (rc_set new) cs (new_cache this now0 capacity expire Map.empty) = Some (rs, h, c) \<and>
    length (cache_map c) \<le> unat capacity \<and>
    cache_Get k now h c =
      Some (lru_get None (not_expired expire) k now (take (unat capacity) (history cs [])))"
proof -
  obtain s where s: "cache_run rc_get (rc_set new) cs (new_cache this now0 capacity expire Map.empty) =
      Some (fst (lru_run None (unat capacity) (not_expired expire) cs []), s)"
    "cache_rep s (unat capacity) (not_expired expire) (snd (lru_run None (unat capacity) (not_expired expire) cs []))"
    using rc.run_refines_lru [OF conjI [OF assms(1) new_cache_rep [OF assms(2)]]] by blast
  obtain h c where hc: "s = (h, c)" by (cases s)
  have "snd (lru_run None (unat capacity) (not_expired expire) cs []) =
      take (unat capacity) (history cs ([] :: (string, 'a option) entries))"
    using lru_run_history [of "[] :: (string, 'a option) entries" "unat capacity" None] assms(2) by (simp add: pos_u32)
  note rep = s(2) [unfolded hc this]
  have "length (cache_map c) \<le> unat capacity"
  proof -
    from rep obtain xs where xs: "cache_inv h c xs"
        "take (unat capacity) (history cs []) = map (entry_of h) xs" by auto
    from arg_cong [OF xs(2), of length] have "length xs \<le> unat capacity" by simp
    then show ?thesis using map_matches_length [of "cache_map c" "map (\<lambda>a. fst (entry_of h a)) xs" xs] xs(1)
      by (simp add: cache_inv_def)
  qed
  with s(1) cache_Get_law [OF rep] hc show ?thesis by blast
qed

text \<open>
  A cache of capacity zero cannot be used: the first \<open>Set\<close> takes the list head for the
  last item and deletes it, although it is a member of the cache.
\<close>

theorem resource_cache_capacity_zero:
  "case new_cache this now0 0 expire Map.empty of (h, c) \<Rightarrow> cache_Set new k r now h c = None"
  by (simp add: new_cache_def cache_Set_def cache_full_def evict_def RemoveFromLRU_def unlink_def set_next_def
      set_prev_def)

lemma delete_items_all:
  "distinct (map snd m) \<Longrightarrow> snd ` set m \<subseteq> dom h \<Longrightarrow>
   delete_items m h = Some (\<lambda>a. if a \<in> snd ` set m then None else h a)"
proof (induction m arbitrary: h)
  case (Cons e m)
  obtain k a where e: "e = (k, a)" by (cases e)
  have "snd ` set m \<subseteq> dom (h(a := None))" using Cons.prems e by auto
  moreover have "distinct (map snd m)" using Cons.prems(1) by simp
  ultimately have "delete_items m (h(a := None)) = Some (\<lambda>b. if b \<in> snd ` set m then None else (h(a := None)) b)"
    using Cons.IH by blast
  moreover have "h a \<noteq> None" using Cons.prems(2) e by auto
  moreover have "(\<lambda>b. if b \<in> snd ` set m then None else (h(a := None)) b) =
      (\<lambda>b. if b \<in> snd ` set (e # m) then None else h b)" using e by (auto simp: fun_eq_iff)
  ultimately show ?case using e by simp
qed simp

text \<open>The destructor on any representation.\<close>

lemma destroy_rep:
  assumes "cache_rep (h, c) cap valid es"
  shows "\<exists>h' c'. destroy_cache h c = Some (h', c') \<and> dom h' = {lru_head c} \<and> cache_map c' = []"
proof -
  from assms obtain xs where inv: "cache_inv h c xs" by auto
  let ?zs = "zip (map (\<lambda>a. fst (entry_of h a)) xs) xs"
  have m: "set (cache_map c) = set ?zs" "distinct (map fst (cache_map c))"
    and dm: "dom h = set (lru_head c # xs)" and d: "distinct (lru_head c # xs)"
    using inv ring_distinct by (auto simp: cache_inv_def map_matches_def)
  have sx: "snd ` set (cache_map c) = set xs" unfolding m(1) by (force simp: set_zip in_set_conv_nth)
  have "length (cache_map c) = length xs" using inv
    by (intro map_matches_length [of _ "map (\<lambda>a. fst (entry_of h a)) xs"]) (simp_all add: cache_inv_def)
  then have "distinct (map snd (cache_map c))"
    using sx d by (intro card_distinct) (simp add: distinct_card)
  from delete_items_all [OF this, of h] sx dm have
    "delete_items (cache_map c) h = Some (\<lambda>a. if a \<in> set xs then None else h a)" by auto
  moreover have "dom (\<lambda>a. if a \<in> set xs then None else h a) = {lru_head c}" using dm d by (force split: if_splits)
  ultimately show ?thesis by (auto simp: destroy_cache_def)
qed

text \<open>
  Whatever calls were made before, the destructor deletes every item exactly once: the
  heap keeps nothing but the list head that is part of the cache object itself.
\<close>

theorem resource_cache_destroy_frees_all:
  assumes "new_ok new" and "0 <s capacity"
  shows "\<exists>rs h c h' c'. cache_run rc_get (rc_set new) cs (new_cache this now0 capacity expire Map.empty) = Some (rs, h, c) \<and>
    destroy_cache h c = Some (h', c') \<and> dom h' = {lru_head c} \<and> cache_map c' = []"
proof -
  obtain h c where "cache_run rc_get (rc_set new) cs (new_cache this now0 capacity expire Map.empty) =
      Some (fst (lru_run None (unat capacity) (not_expired expire) cs []), h, c)"
    "cache_rep (h, c) (unat capacity) (not_expired expire) (snd (lru_run None (unat capacity) (not_expired expire) cs []))"
    using rc.run_refines_lru [OF conjI [OF assms(1) new_cache_rep [OF assms(2)]]] by (metis surj_pair)
  with destroy_rep show ?thesis by blast
qed

section \<open>Examples\<close>

definition first_free :: "'r new_item" where
  "first_free h = Some (LEAST a. h a = None)"

lemma first_free_ok: "new_ok first_free"
proof -
  have "h (LEAST a. h a = None) = None" if "finite (dom h)" for h :: "'a rheap"
  proof -
    from that obtain a where "a \<notin> dom h" using ex_new_if_finite infinite_UNIV_nat by blast
    then show ?thesis by (intro LeastI [of "\<lambda>a. h a = None" a]) auto
  qed
  then show ?thesis by (simp add: new_ok_def first_free_def)
qed

text \<open>Three keys in a cache of two: the first one is evicted, and later the last one expires.\<close>

definition example_calls :: "(string, nat option) ccall list" where
  "example_calls = [Set ''a'' (Some 1) 0, Set ''b'' (Some 2) 0, Set ''c'' (Some 3) 0,
     Get ''a'' 5, Get ''c'' 5, Get ''c'' 30000000000]"

lemma example_lru:
  "fst (lru_run None (unat (2 :: u32)) (not_expired 30) example_calls []) =
    [None, None, None, Some None, Some (Some 3), Some None]"
  by code_simp

lemma two_positive: "0 <s (2 :: u32)"
  by (simp add: pos_u32)

theorem resource_cache_refines_lru_witness:
  "\<exists>s. cache_run rc_get (rc_set first_free) example_calls (new_cache 7 0 2 30 Map.empty) =
    Some ([None, None, None, Some None, Some (Some 3), Some None], s)"
  using resource_cache_refines_lru [OF first_free_ok two_positive, of example_calls 7 0 30]
  unfolding example_lru .

theorem resource_cache_holds_last_set_witness:
  "\<exists>rs h c. cache_run rc_get (rc_set first_free) example_calls (new_cache 7 0 2 30 Map.empty) = Some (rs, h, c) \<and>
    cache_Get ''b'' 9 h c = Some (Some 2)"
proof -
  have "lru_get None (not_expired 30) ''b'' 9 (take (unat (2 :: u32)) (history example_calls [])) = Some 2"
    by code_simp
  with resource_cache_holds_last_set [OF first_free_ok two_positive, of example_calls 7 0 30 "''b''" 9]
  show ?thesis by auto
qed

theorem resource_cache_destroy_frees_all_witness:
  "\<exists>rs h c h' c'. cache_run rc_get (rc_set first_free) example_calls (new_cache 7 0 2 30 Map.empty) = Some (rs, h, c) \<and>
    destroy_cache h c = Some (h', c') \<and> card (dom h') = 1"
  using resource_cache_destroy_frees_all [OF first_free_ok two_positive, of example_calls 7 0 30] by fastforce

end
