(* ===== verification/Strip_Tags.thy ===== *)
theory Strip_Tags
  imports Prelude "HOL-Library.Sublist"
begin

text \<open>
  \<open>php_strip_tags/php_strip_tags.c\<close>: removing HTML, XML and PHP tags from a text in place,
  optionally keeping tags from a list. The text is scanned in a copy made by \<open>strndup\<close>;
  the output overwrites the caller's buffer; a growing buffer holds the tag being read when
  there is a list of allowed tags. Bytes are unsigned, \<open>isspace\<close> and \<open>tolower\<close> are those of
  the C locale, \<open>len\<close> is a non-negative \<open>int\<close> (so the counters bounded by it cannot
  overflow), and memory for the buffers is assumed to be available. \<open>None\<close> is an access
  outside a buffer.
\<close>

section \<open>Characters\<close>

abbreviation ch_excl :: u8 where "ch_excl \<equiv> 33"
abbreviation ch_dquote :: u8 where "ch_dquote \<equiv> 34"
abbreviation ch_quote :: u8 where "ch_quote \<equiv> 39"
abbreviation ch_lpar :: u8 where "ch_lpar \<equiv> 40"
abbreviation ch_rpar :: u8 where "ch_rpar \<equiv> 41"
abbreviation ch_minus :: u8 where "ch_minus \<equiv> 45"
abbreviation ch_slash :: u8 where "ch_slash \<equiv> 47"
abbreviation ch_lt :: u8 where "ch_lt \<equiv> 60"
abbreviation ch_gt :: u8 where "ch_gt \<equiv> 62"
abbreviation ch_quest :: u8 where "ch_quest \<equiv> 63"
abbreviation ch_backslash :: u8 where "ch_backslash \<equiv> 92"

definition isspace :: "u8 \<Rightarrow> bool" where
  "isspace c \<longleftrightarrow> (9 \<le> c \<and> c \<le> 13) \<or> c = 32"

definition tolower :: "u8 \<Rightarrow> u8" where
  "tolower c = (if 65 \<le> c \<and> c \<le> 90 then c + 32 else c)"

text \<open>Reading a buffer forwards and backwards from a position.\<close>

definition byte_at :: "bytes \<Rightarrow> nat \<Rightarrow> u8 option" where
  "byte_at buf j = (if j < length buf then Some (buf ! j) else None)"

definition byte_back :: "bytes \<Rightarrow> nat \<Rightarrow> nat \<Rightarrow> u8 option" where
  "byte_back buf p k = (if k \<le> p then byte_at buf (p - k) else None)"

definition PHP_TAG_BUF_SIZE :: nat where "PHP_TAG_BUF_SIZE = 1023"

section \<open>Helpers\<close>

definition php_strtolower :: "bytes \<Rightarrow> nat \<Rightarrow> bytes option" where
  "php_strtolower s n = (if n \<le> length s then Some (map tolower (take n s) @ drop n s) else None)"

text \<open>The C string at the start of a buffer, and the search for one C string in another.\<close>

definition zstring :: "bytes \<Rightarrow> bytes option" where
  "zstring s = (if 0 \<in> set s then Some (takeWhile (\<lambda>c. c \<noteq> 0) s) else None)"

definition strstr :: "bytes \<Rightarrow> bytes \<Rightarrow> bool option" where
  "strstr hay needle = do { h \<leftarrow> zstring hay; n \<leftarrow> zstring needle; Some (sublist n h) }"

text \<open>
  The loop that normalises a tag, from the position \<open>t\<close> on, with the letters written so far;
  the function's \<open>norm\<close> has \<open>len + 1\<close> bytes.
\<close>

function norm_loop :: "bytes \<Rightarrow> nat \<Rightarrow> nat \<Rightarrow> bool \<Rightarrow> bytes \<Rightarrow> bytes option" where
  "norm_loop tag sz t state n =
    (case byte_at tag t of
       None \<Rightarrow> None
     | Some c0 \<Rightarrow>
         let c = tolower c0;
             write = (\<lambda>n. if length n < sz then Some (n @ [c]) else None);
             stop = (\<lambda>n. if byte_at tag (t + 1) = None then None else Some n)
         in
         if c = ch_lt then (case write n of None \<Rightarrow> None | Some n \<Rightarrow> norm_loop tag sz (t + 1) state n)
         else if c = ch_gt then stop n
         else if \<not> isspace c then
           (if c \<noteq> ch_slash
            then (case write n of None \<Rightarrow> None | Some n \<Rightarrow> norm_loop tag sz (t + 1) True n)
            else norm_loop tag sz (t + 1) True n)
         else if state then stop n
         else norm_loop tag sz (t + 1) state n)"
  by pat_completeness auto
termination
  by (relation "measure (\<lambda>(tag, sz, t, _, _). length tag - t)") (auto simp: byte_at_def split: if_splits)

declare norm_loop.simps [simp del]

definition php_tag_find :: "bytes \<Rightarrow> nat \<Rightarrow> bytes \<Rightarrow> bool option" where
  "php_tag_find tag len allowed =
    (if len = 0 then Some False
     else do {
       n \<leftarrow> norm_loop tag (len + 1) 0 False [];
       if length n + 2 \<le> len + 1 then strstr allowed (n @ [ch_gt, 0]) else None
     })"

section \<open>The scanner\<close>

record scan =
  rbuf :: bytes
  rp :: nat
  tbuf :: bytes
  tcap :: nat
  lc :: u8
  br :: int
  depth :: int
  in_q :: u8
  sstate :: int

definition out :: "u8 \<Rightarrow> scan \<Rightarrow> scan option" where
  "out c s = (if rp s < length (rbuf s) then Some (s\<lparr>rbuf := (rbuf s)[rp s := c], rp := rp s + 1\<rparr>) else None)"

text \<open>Appending to the tag buffer, which is reallocated when 1023 bytes are in use.\<close>

definition push_tag :: "u8 \<Rightarrow> scan \<Rightarrow> scan option" where
  "push_tag c s =
    (let cap = (if PHP_TAG_BUF_SIZE \<le> length (tbuf s) then length (tbuf s) + PHP_TAG_BUF_SIZE + 1 else tcap s) in
     if length (tbuf s) < cap then Some (s\<lparr>tbuf := tbuf s @ [c], tcap := cap\<rparr>) else None)"

definition reg_char :: "bytes option \<Rightarrow> u8 \<Rightarrow> scan \<Rightarrow> scan option" where
  "reg_char allow c s =
    (if sstate s = 0 then out c s
     else if allow \<noteq> None \<and> sstate s = 1 then push_tag c s
     else Some s)"

definition leave_tag :: "scan \<Rightarrow> scan" where
  "leave_tag s = s\<lparr>in_q := 0, sstate := 0, tbuf := []\<rparr>"

definition scan_lt :: "bytes \<Rightarrow> bytes option \<Rightarrow> bool \<Rightarrow> nat \<Rightarrow> scan \<Rightarrow> scan option" where
  "scan_lt buf allow allow_tag_spaces p s =
    (if in_q s \<noteq> 0 then Some s
     else do {
       c1 \<leftarrow> byte_at buf (p + 1);
       if isspace c1 \<and> \<not> allow_tag_spaces then reg_char allow ch_lt s
       else if sstate s = 0 then
         (let s = s\<lparr>lc := ch_lt, sstate := 1\<rparr> in if allow \<noteq> None then push_tag ch_lt s else Some s)
       else if sstate s = 1 then Some (s\<lparr>depth := depth s + 1\<rparr>)
       else Some s
     })"

text \<open>Parentheses, which are counted inside PHP code; \<open>d\<close> is 1 or -1.\<close>

definition scan_par :: "bytes option \<Rightarrow> u8 \<Rightarrow> int \<Rightarrow> scan \<Rightarrow> scan option" where
  "scan_par allow c d s =
    (if sstate s = 2 then
       Some (if lc s \<noteq> ch_dquote \<and> lc s \<noteq> ch_quote then s\<lparr>lc := c, br := br s + d\<rparr> else s)
     else if allow \<noteq> None \<and> sstate s = 1 then push_tag c s
     else if sstate s = 0 then out c s
     else Some s)"

text \<open>The end of a tag: with a list of allowed tags the tag is copied out if it is in the list.\<close>

definition end_tag :: "bytes option \<Rightarrow> scan \<Rightarrow> scan option" where
  "end_tag allow s =
    (let s = s\<lparr>lc := ch_gt, in_q := 0, sstate := 0\<rparr> in
     case allow of
       None \<Rightarrow> Some s
     | Some allowed \<Rightarrow> do {
         s \<leftarrow> push_tag ch_gt s;
         if length (tbuf s) < tcap s then do {
           found \<leftarrow> php_tag_find (tbuf s @ [0]) (length (tbuf s)) allowed;
           s \<leftarrow> (if found then do {
                   r \<leftarrow> write_bytes (rbuf s) (rp s) (tbuf s);
                   Some (s\<lparr>rbuf := r, rp := rp s + length (tbuf s)\<rparr>)
                 } else Some s);
           Some (s\<lparr>tbuf := []\<rparr>)
         } else None
       })"

definition scan_gt :: "bytes \<Rightarrow> bytes option \<Rightarrow> nat \<Rightarrow> scan \<Rightarrow> scan option" where
  "scan_gt buf allow p s =
    (if depth s \<noteq> 0 then Some (s\<lparr>depth := depth s - 1\<rparr>)
     else if in_q s \<noteq> 0 then Some s
     else if sstate s = 1 then end_tag allow s
     else if sstate s = 2 then
       (if br s = 0 \<and> lc s \<noteq> ch_dquote
        then do { b \<leftarrow> byte_back buf p 1; Some (if b = ch_quest then leave_tag s else s) }
        else Some s)
     else if sstate s = 3 then Some (leave_tag s)
     else if sstate s = 4 then
       (if 2 \<le> p then do {
          b \<leftarrow> byte_back buf p 1;
          b2 \<leftarrow> byte_back buf p 2;
          Some (if b = ch_minus \<and> b2 = ch_minus then leave_tag s else s)
        } else Some s)
     else out ch_gt s)"

definition toggle_quote :: "bytes \<Rightarrow> nat \<Rightarrow> u8 \<Rightarrow> scan \<Rightarrow> scan option" where
  "toggle_quote buf p c s =
    (if sstate s \<noteq> 0 \<and> p \<noteq> 0 then do {
       b \<leftarrow> byte_back buf p 1;
       Some (if (sstate s = 1 \<or> b \<noteq> ch_backslash) \<and> (in_q s = 0 \<or> c = in_q s)
             then s\<lparr>in_q := (if in_q s \<noteq> 0 then 0 else c)\<rparr> else s)
     } else Some s)"

definition scan_quote :: "bytes \<Rightarrow> bytes option \<Rightarrow> nat \<Rightarrow> u8 \<Rightarrow> scan \<Rightarrow> scan option" where
  "scan_quote buf allow p c s =
    (if sstate s = 4 then Some s
     else do {
       s \<leftarrow> (if sstate s = 2 then do {
               b \<leftarrow> byte_back buf p 1;
               Some (if b \<noteq> ch_backslash
                     then (if lc s = c then s\<lparr>lc := 0\<rparr> else if lc s \<noteq> ch_backslash then s\<lparr>lc := c\<rparr> else s)
                     else s)
             }
             else if sstate s = 0 then out c s
             else if allow \<noteq> None \<and> sstate s = 1 then push_tag c s
             else Some s);
       toggle_quote buf p c s
     })"

definition scan_excl :: "bytes \<Rightarrow> bytes option \<Rightarrow> nat \<Rightarrow> scan \<Rightarrow> scan option" where
  "scan_excl buf allow p s =
    (if sstate s = 1 then do {
       b \<leftarrow> byte_back buf p 1;
       if b = ch_lt then Some (s\<lparr>sstate := 3, lc := ch_excl\<rparr>)
       else if allow \<noteq> None then push_tag ch_excl s else Some s
     }
     else if sstate s = 0 then out ch_excl s
     else Some s)"

definition scan_minus :: "bytes \<Rightarrow> bytes option \<Rightarrow> nat \<Rightarrow> scan \<Rightarrow> scan option" where
  "scan_minus buf allow p s =
    (if sstate s = 3 \<and> 2 \<le> p \<and> byte_back buf p 1 = Some ch_minus \<and> byte_back buf p 2 = Some ch_excl
     then Some (s\<lparr>sstate := 4\<rparr>) else reg_char allow ch_minus s)"

text \<open>The letter \<open>l\<close>, after \<open><?xm\<close>: not PHP but XML.\<close>

definition scan_l :: "bytes \<Rightarrow> bytes option \<Rightarrow> nat \<Rightarrow> u8 \<Rightarrow> scan \<Rightarrow> scan option" where
  "scan_l buf allow p c s =
    (if sstate s = 2 \<and> 2 < p \<and> map_option tolower (byte_back buf p 2) = Some 120 \<and>
        map_option tolower (byte_back buf p 1) = Some 109
     then Some (s\<lparr>sstate := 1\<rparr>) else reg_char allow c s)"

text \<open>The letter \<open>e\<close>, after \<open>doctyp\<close>.\<close>

definition scan_e :: "bytes \<Rightarrow> bytes option \<Rightarrow> nat \<Rightarrow> u8 \<Rightarrow> scan \<Rightarrow> scan option" where
  "scan_e buf allow p c s =
    (if sstate s = 3 \<and> 6 < p \<and>
        map (\<lambda>k. map_option tolower (byte_back buf p k)) [1, 2, 3, 4, 5, 6] =
          map Some [112, 121, 116, 99, 111, 100]
     then Some (s\<lparr>sstate := 1\<rparr>) else scan_l buf allow p c s)"

definition scan_quest :: "bytes \<Rightarrow> bytes option \<Rightarrow> nat \<Rightarrow> scan \<Rightarrow> scan option" where
  "scan_quest buf allow p s =
    (if sstate s = 1 then do {
       b \<leftarrow> byte_back buf p 1;
       if b = ch_lt then Some (s\<lparr>br := 0, sstate := 2\<rparr>) else scan_e buf allow p ch_quest s
     }
     else scan_e buf allow p ch_quest s)"

definition scan_char :: "bytes \<Rightarrow> bytes option \<Rightarrow> bool \<Rightarrow> nat \<Rightarrow> u8 \<Rightarrow> scan \<Rightarrow> scan option" where
  "scan_char buf allow allow_tag_spaces p c s =
    (if c = 0 then Some s
     else if c = ch_lt then scan_lt buf allow allow_tag_spaces p s
     else if c = ch_lpar then scan_par allow c 1 s
     else if c = ch_rpar then scan_par allow c (-1) s
     else if c = ch_gt then scan_gt buf allow p s
     else if c = ch_dquote \<or> c = ch_quote then scan_quote buf allow p c s
     else if c = ch_excl then scan_excl buf allow p s
     else if c = ch_minus then scan_minus buf allow p s
     else if c = ch_quest then scan_quest buf allow p s
     else if c = 69 \<or> c = 101 then scan_e buf allow p c s
     else if c = 108 \<or> c = 76 then scan_l buf allow p c s
     else reg_char allow c s)"

text \<open>The loop; the byte for the next round is fetched at the end of a round, also of the last.\<close>

fun scan_loop :: "bytes \<Rightarrow> bytes option \<Rightarrow> bool \<Rightarrow> nat \<Rightarrow> nat \<Rightarrow> u8 \<Rightarrow> scan \<Rightarrow> scan option" where
  "scan_loop buf allow allow_tag_spaces 0 p c s = Some s"
| "scan_loop buf allow allow_tag_spaces (Suc n) p c s = do {
     s \<leftarrow> scan_char buf allow allow_tag_spaces p c s;
     c \<leftarrow> byte_at buf (p + 1);
     scan_loop buf allow allow_tag_spaces n (p + 1) c s
   }"

section \<open>The function\<close>

text \<open>\<open>strndup\<close>: the bytes up to the first zero, at most \<open>n\<close>, and a terminator.\<close>

definition strndup :: "bytes \<Rightarrow> nat \<Rightarrow> bytes option" where
  "strndup s n =
    (if n \<le> length s \<or> 0 \<in> set s then Some (takeWhile (\<lambda>c. c \<noteq> 0) (take n s) @ [0]) else None)"

definition lower_allow :: "(bytes \<times> nat) option \<Rightarrow> bytes option option" where
  "lower_allow allow = (case allow of None \<Rightarrow> Some None | Some (a, n) \<Rightarrow> map_option Some (php_strtolower a n))"

text \<open>
  The result is the returned length, the buffer, the state stored through \<open>stateptr\<close> (0 stands
  for a null pointer on entry) and the list of allowed tags, which is lowered in place.
\<close>

definition php_strip_tags_ex ::
    "bytes \<Rightarrow> nat \<Rightarrow> int \<Rightarrow> (bytes \<times> nat) option \<Rightarrow> bool \<Rightarrow> (nat \<times> bytes \<times> int \<times> bytes option) option" where
  "php_strip_tags_ex r len state allow allow_tag_spaces = do {
     buf \<leftarrow> strndup r len;
     c \<leftarrow> byte_at buf 0;
     allow \<leftarrow> lower_allow allow;
     s \<leftarrow> scan_loop buf allow allow_tag_spaces len 0 c
       \<lparr>rbuf = r, rp = 0, tbuf = [], tcap = (if allow = None then 0 else PHP_TAG_BUF_SIZE + 1),
        lc = 0, br = 0, depth = 0, in_q = 0, sstate = state\<rparr>;
     let s = (if rp s < len then s\<lparr>rbuf := (rbuf s)[rp s := 0]\<rparr> else s);
     Some (rp s, rbuf s, sstate s, allow)
   }"

end
