(* ===== verification/Strip_Tags_Props.thy ===== *)
theory Strip_Tags_Props
  imports Strip_Tags
begin

text \<open>
  Properties of the tag stripper: it stays inside its buffers and never writes more than it
  read, it removes every tag, it leaves texts without tags alone, it recognises allowed tags
  by name, and it reads outside its copy of the text when that contains a zero byte or when
  it is resumed inside a tag.
\<close>

section \<open>The buffer of the current tag\<close>

lemma byte_at_app [simp]: "p < length xs \<Longrightarrow> byte_at (xs @ ys) p = Some (xs ! p)"
  by (simp add: byte_at_def nth_append)

lemma norm_loop_bounds:
  assumes "t \<le> length w" and "length n \<le> t" and "length w < sz"
  shows "\<exists>n'. norm_loop (w @ [ch_gt, 0]) sz t st n = Some n' \<and> length n' \<le> length w"
  using assms
proof (induction "length w - t" arbitrary: t st n rule: less_induct)
  case less
  show ?case
  proof (cases "t = length w")
    case True
    then have "byte_at (w @ [ch_gt, 0]) t = Some ch_gt" "byte_at (w @ [ch_gt, 0]) (t + 1) = Some 0"
      by (simp_all add: byte_at_def nth_append)
    then show ?thesis using less.prems(2) True
      by (subst norm_loop.simps) (simp add: Let_def tolower_def)
  next
    case False
    with less.prems(1) have t: "t < length w" by simp
    let ?c = "tolower (w ! t)"
    have b: "byte_at (w @ [ch_gt, 0]) t = Some (w ! t)" "byte_at (w @ [ch_gt, 0]) (t + 1) \<noteq> None"
      using t by (auto simp: byte_at_def nth_append)
    have n: "length n < sz" "length n \<le> length w" using less.prems t by simp_all
    have IH: "\<exists>n'. norm_loop (w @ [ch_gt, 0]) sz (t + 1) st' m = Some n' \<and> length n' \<le> length w"
      if "length m \<le> t + 1" for st' m
      using less.hyps [of "t + 1" m st'] t that less.prems(3) by simp
    from b(2) obtain c1 where b2: "byte_at (w @ [ch_gt, 0]) (t + 1) = Some c1" by auto
    from IH [of n st] IH [of n True] IH [of "n @ [ch_lt]" st] IH [of "n @ [?c]" True] b(1) b2 n less.prems(2)
    show ?thesis by (subst norm_loop.simps) (auto simp: Let_def)
  qed
qed

lemma php_tag_find_total:
  assumes "0 \<in> set allowed"
  shows "\<exists>f. php_tag_find (w @ [ch_gt, 0]) (length w + 1) allowed = Some f"
proof -
  obtain n where n: "norm_loop (w @ [ch_gt, 0]) (length w + 2) 0 False [] = Some n" "length n \<le> length w"
    using norm_loop_bounds [of 0 w "[]" "length w + 2" False] by auto
  then show ?thesis using assms by (simp add: php_tag_find_def strstr_def zstring_def)
qed

section \<open>The invariant of the scan\<close>

definition scan_inv :: "bytes \<Rightarrow> nat \<Rightarrow> bytes option \<Rightarrow> nat \<Rightarrow> scan \<Rightarrow> bool" where
  "scan_inv r len allow p s \<longleftrightarrow>
     sstate s \<in> {0, 1, 2, 3, 4} \<and>
     rp s + length (tbuf s) \<le> p \<and> length (rbuf s) = length r \<and> drop len (rbuf s) = drop len r \<and>
     (allow \<noteq> None \<longrightarrow> PHP_TAG_BUF_SIZE + 1 \<le> tcap s)"

lemma out_ok:
  assumes "scan_inv r len allow p s" "p < len" "len \<le> length r"
  shows "\<exists>s'. out c s = Some s' \<and> scan_inv r len allow (p + 1) s'"
  using assms by (auto simp: out_def scan_inv_def)

lemma push_ok:
  assumes "scan_inv r len allow p s" "allow \<noteq> None"
  shows "\<exists>s'. push_tag c s = Some s' \<and> scan_inv r len allow (p + 1) s' \<and> length (tbuf s') < tcap s' \<and>
    tbuf s' = tbuf s @ [c] \<and> rp s' = rp s \<and> rbuf s' = rbuf s"
  using assms by (auto simp: push_tag_def scan_inv_def Let_def PHP_TAG_BUF_SIZE_def)

lemma scan_inv_next: "scan_inv r len allow p s \<Longrightarrow> scan_inv r len allow (p + 1) s"
  by (auto simp: scan_inv_def)

lemma reg_char_ok:
  assumes "scan_inv r len allow p s" "p < len" "len \<le> length r"
  shows "\<exists>s'. reg_char allow c s = Some s' \<and> scan_inv r len allow (p + 1) s'"
  using out_ok [OF assms, of c] push_ok [OF assms(1), of c] scan_inv_next [OF assms(1)]
  by (auto simp: reg_char_def)

lemma leave_tag_ok: "scan_inv r len allow p s \<Longrightarrow> scan_inv r len allow (p + 1) (leave_tag s)"
  by (auto simp: scan_inv_def leave_tag_def)

lemma end_tag_ok:
  assumes "scan_inv r len allow p s" "p < len" "len \<le> length r" "\<And>a. allow = Some a \<Longrightarrow> 0 \<in> set a"
  shows "\<exists>s'. end_tag allow s = Some s' \<and> scan_inv r len allow (p + 1) s'"
proof (cases allow)
  case None
  with assms(1) show ?thesis by (auto simp: end_tag_def scan_inv_def)
next
  case (Some a)
  let ?s = "s\<lparr>lc := ch_gt, in_q := 0, sstate := 0\<rparr>"
  have "scan_inv r len allow p ?s" using assms(1) by (simp add: scan_inv_def)
  from push_ok [OF this, of ch_gt] Some obtain s1 where
    s1: "push_tag ch_gt ?s = Some s1" "scan_inv r len allow (p + 1) s1" "length (tbuf s1) < tcap s1"
      "tbuf s1 = tbuf s @ [ch_gt]" by auto
  obtain f where f: "php_tag_find (tbuf s1 @ [0]) (length (tbuf s1)) a = Some f"
    using php_tag_find_total [of a "tbuf s"] assms(4) Some s1(4) by auto
  have rp: "rp s1 + length (tbuf s1) \<le> p + 1" "length (rbuf s1) = length r"
    "drop len (rbuf s1) = drop len r" "sstate s1 \<in> {0, 1, 2, 3, 4}" "PHP_TAG_BUF_SIZE + 1 \<le> tcap s1"
    using s1(2) Some by (auto simp: scan_inv_def)
  show ?thesis
  proof (cases f)
    case False
    with s1 f Some rp show ?thesis by (auto simp: end_tag_def scan_inv_def)
  next
    case True
    have "rp s1 + length (tbuf s1) \<le> len" using rp(1) assms(2) by simp
    then have w: "write_bytes (rbuf s1) (rp s1) (tbuf s1) =
        Some (take (rp s1) (rbuf s1) @ tbuf s1 @ drop (rp s1 + length (tbuf s1)) (rbuf s1))" (is "_ = Some ?r")
      using rp(2) assms(3) by (intro write_bytes_Some) simp
    have "length ?r = length r" by (rule length_write_bytes [OF w, unfolded rp(2)])
    moreover have "drop len ?r = drop len r"
      using \<open>rp s1 + length (tbuf s1) \<le> len\<close> rp(2,3) assms(3) by simp
    ultimately show ?thesis using True s1 f w Some rp by (auto simp: end_tag_def scan_inv_def)
  qed
qed

lemma byte_back_Some:
  "0 < k \<Longrightarrow> k \<le> p \<Longrightarrow> p \<le> length xs \<Longrightarrow> byte_back (xs @ ys) p k = Some (xs ! (p - k))"
  by (simp add: byte_back_def)

lemma scan_char_ok:
  assumes inv: "scan_inv r len allow p s" and p: "p < len" and len: "len \<le> length r"
    and p0: "sstate s \<noteq> 0 \<Longrightarrow> 0 < p"
    and allow: "\<And>a. allow = Some a \<Longrightarrow> 0 \<in> set a" and buf: "buf = xs @ [0]" "length xs = len"
  shows "\<exists>s'. scan_char buf allow sp p c s = Some s' \<and> scan_inv r len allow (p + 1) s'"
proof -
  note reg = reg_char_ok [OF inv p len] and o = out_ok [OF inv p len] and nxt = scan_inv_next [OF inv]
    and push = push_ok [OF inv] and et = end_tag_ok [OF inv p len allow]
  have st: "sstate s \<in> {0, 1, 2, 3, 4}" using inv by (simp add: scan_inv_def)
  have b1: "byte_back buf p 1 = Some (xs ! (p - 1))" if "sstate s \<noteq> 0"
    using p0 [OF that] p buf by (simp add: byte_back_Some)
  have "byte_at buf (p + 1) \<noteq> None" using p buf by (simp add: byte_at_def)
  then obtain c1 where c1: "byte_at buf (p + 1) = Some c1" by auto
  have upd: "scan_inv r len allow (p + 1) (f s)"
    if "sstate (f s) \<in> {0, 1, 2, 3, 4}" "rp (f s) = rp s" "tbuf (f s) = tbuf s" "rbuf (f s) = rbuf s" "tcap (f s) = tcap s"
    for f using inv that by (simp add: scan_inv_def)
  have lt: "\<exists>s'. scan_lt buf allow sp p s = Some s' \<and> scan_inv r len allow (p + 1) s'"
  proof -
    have "scan_inv r len allow p (s\<lparr>lc := ch_lt, sstate := 1\<rparr>)" using inv by (simp add: scan_inv_def)
    from push_ok [OF this] reg [of ch_lt] nxt c1 upd [of "\<lambda>s. s\<lparr>lc := ch_lt, sstate := 1\<rparr>"]
      upd [of "\<lambda>s. s\<lparr>depth := depth s + 1\<rparr>"] st
    show ?thesis by (auto simp: scan_lt_def Let_def)
  qed
  have par: "\<exists>s'. scan_par allow c d s = Some s' \<and> scan_inv r len allow (p + 1) s'" for d
    using o [of c] push [of c] nxt upd [of "\<lambda>s. s\<lparr>lc := c, br := br s + d\<rparr>"] st by (auto simp: scan_par_def)
  have gt: "\<exists>s'. scan_gt buf allow p s = Some s' \<and> scan_inv r len allow (p + 1) s'"
  proof -
    have "byte_back buf p 2 = Some (xs ! (p - 2))" if "2 \<le> p" using that p buf by (simp add: byte_back_Some)
    with o [of ch_gt] et nxt b1 upd [of "\<lambda>s. s\<lparr>depth := depth s - 1\<rparr>"] leave_tag_ok [OF inv] st
    show ?thesis by (auto simp: scan_gt_def)
  qed
  have tq: "\<exists>s'. toggle_quote buf p c t = Some s' \<and> scan_inv r len allow (p + 1) s'"
    if "scan_inv r len allow (p + 1) t" for t
  proof -
    have "byte_back buf p 1 = Some (xs ! (p - 1))" if "p \<noteq> 0" using that p buf by (simp add: byte_back_Some)
    moreover have "scan_inv r len allow (p + 1) (t\<lparr>in_q := v\<rparr>)" for v using that by (simp add: scan_inv_def)
    ultimately show ?thesis using that by (simp add: toggle_quote_def)
  qed
  have quote: "\<exists>s'. scan_quote buf allow p c s = Some s' \<and> scan_inv r len allow (p + 1) s'"
    using o [of c] push [of c] nxt b1 st tq upd [of "\<lambda>s. s\<lparr>lc := 0\<rparr>"] upd [of "\<lambda>s. s\<lparr>lc := c\<rparr>"]
    by (auto simp: scan_quote_def) 
  have excl: "\<exists>s'. scan_excl buf allow p s = Some s' \<and> scan_inv r len allow (p + 1) s'"
    using o [of ch_excl] push [of ch_excl] nxt b1 upd [of "\<lambda>s. s\<lparr>sstate := 3, lc := ch_excl\<rparr>"] st
    by (auto simp: scan_excl_def)
  have minus: "\<exists>s'. scan_minus buf allow p s = Some s' \<and> scan_inv r len allow (p + 1) s'"
    using reg [of ch_minus] upd [of "\<lambda>s. s\<lparr>sstate := 4\<rparr>"] by (auto simp: scan_minus_def)
  have l: "\<exists>s'. scan_l buf allow p d s = Some s' \<and> scan_inv r len allow (p + 1) s'" for d
    using reg [of d] upd [of "\<lambda>s. s\<lparr>sstate := 1\<rparr>"] by (auto simp: scan_l_def)
  have e: "\<exists>s'. scan_e buf allow p d s = Some s' \<and> scan_inv r len allow (p + 1) s'" for d
    using l [of d] upd [of "\<lambda>s. s\<lparr>sstate := 1\<rparr>"] by (auto simp: scan_e_def)
  have quest: "\<exists>s'. scan_quest buf allow p s = Some s' \<and> scan_inv r len allow (p + 1) s'"
    using e [of ch_quest] b1 upd [of "\<lambda>s. s\<lparr>br := 0, sstate := 2\<rparr>"] st by (auto simp: scan_quest_def)
  show ?thesis
    unfolding scan_char_def using nxt lt par [of 1] par [of "-1"] gt quote excl minus quest e [of c] l [of c]
      reg [of c] by (cases "c = ch_lpar"; cases "c = ch_rpar"; simp)
qed

section \<open>Safety\<close>

lemma scan_loop_ok:
  assumes "scan_inv r len allow p s" "p + n = len" "len \<le> length r" "sstate s \<noteq> 0 \<Longrightarrow> 0 < p"
    and "\<And>a. allow = Some a \<Longrightarrow> 0 \<in> set a" and "length xs = len"
  shows "\<exists>s'. scan_loop (xs @ [0]) allow sp n p c s = Some s' \<and> scan_inv r len allow len s'"
  using assms
proof (induction n arbitrary: p s c)
  case 0
  then show ?case by simp
next
  case (Suc n)
  have p: "p < len" using Suc.prems(2) by simp
  from scan_char_ok [OF Suc.prems(1) p Suc.prems(3,4,5) refl Suc.prems(6)] obtain s1 where
    s1: "scan_char (xs @ [0]) allow sp p c s = Some s1" "scan_inv r len allow (p + 1) s1" by blast
  have "byte_at (xs @ [0]) (p + 1) \<noteq> None" using p Suc.prems(6) by (simp add: byte_at_def)
  then obtain c1 where c1: "byte_at (xs @ [0]) (p + 1) = Some c1" by auto
  from Suc.IH [OF s1(2) _ Suc.prems(3) _ Suc.prems(5,6), of c1] Suc.prems(2) s1(1) c1 show ?case by simp
qed

definition start_scan :: "bytes \<Rightarrow> bytes option \<Rightarrow> int \<Rightarrow> scan" where
  "start_scan r allow state = \<lparr>rbuf = r, rp = 0, tbuf = [], tcap = (if allow = None then 0 else PHP_TAG_BUF_SIZE + 1),
     lc = 0, br = 0, depth = 0, in_q = 0, sstate = state\<rparr>"

lemma strndup_text:
  assumes "len \<le> length r" "0 \<notin> set (take len r)"
  shows "strndup r len = Some (take len r @ [0])"
proof -
  have "takeWhile (\<lambda>c. c \<noteq> 0) (take len r) = take len r" using assms(2) by (auto simp: takeWhile_eq_all_conv)
  with assms(1) show ?thesis by (simp add: strndup_def)
qed

lemma php_strip_tags_run:
  assumes "len \<le> length r" "0 \<notin> set (take len r)" "lower_allow allow = Some al"
    and "\<exists>c. byte_at (take len r @ [0]) 0 = Some c \<and> scan_loop (take len r @ [0]) al sp len 0 c (start_scan r al state) = Some s"
  shows "php_strip_tags_ex r len state allow sp =
    Some (rp s, if rp s < len then (rbuf s)[rp s := 0] else rbuf s, sstate s, al)"
  using assms strndup_text [OF assms(1,2)] by (auto simp: php_strip_tags_ex_def start_scan_def Let_def)

definition allow_arg :: "(bytes \<times> nat) option \<Rightarrow> bool" where
  "allow_arg allow \<longleftrightarrow> (case allow of None \<Rightarrow> True | Some (a, n) \<Rightarrow> n \<le> length a \<and> 0 \<in> set a)"

lemma lower_allow_ok:
  assumes "allow_arg allow"
  obtains al where "lower_allow allow = Some al" "\<And>a. al = Some a \<Longrightarrow> 0 \<in> set a" "al = None \<longleftrightarrow> allow = None"
proof (cases allow)
  case None
  then show thesis by (intro that [of None]) (simp_all add: lower_allow_def)
next
  case (Some an)
  obtain a n where an: "an = (a, n)" by (cases an)
  have n: "n \<le> length a" "0 \<in> set a" using assms Some an by (simp_all add: allow_arg_def)
  have "0 \<in> set (take n a) \<or> 0 \<in> set (drop n a)" using n(2) by (metis Un_iff append_take_drop_id set_append)
  then have "0 \<in> set (map tolower (take n a) @ drop n a)" by (auto simp: tolower_def image_iff intro: bexI [of _ 0])
  then show thesis using Some an n(1) by (intro that [of "Some (map tolower (take n a) @ drop n a)"])
    (auto simp: lower_allow_def php_strtolower_def)
qed

lemma strip_tags_total:
  assumes "len \<le> length r" "0 \<notin> set (take len r)" "allow_arg allow"
  obtains s al c where "lower_allow allow = Some al" "byte_at (take len r @ [0]) 0 = Some c"
    "scan_loop (take len r @ [0]) al sp len 0 c (start_scan r al 0) = Some s" "scan_inv r len al len s"
    "al = None \<longleftrightarrow> allow = None"
proof -
  obtain al where al: "lower_allow allow = Some al" "\<And>a. al = Some a \<Longrightarrow> 0 \<in> set a" "al = None \<longleftrightarrow> allow = None"
    by (rule lower_allow_ok [OF assms(3)]) blast
  have "byte_at (take len r @ [0]) 0 \<noteq> None" by (simp add: byte_at_def)
  then obtain c where c: "byte_at (take len r @ [0]) 0 = Some c" by auto
  have "scan_inv r len al 0 (start_scan r al 0)" by (simp add: scan_inv_def start_scan_def)
  from scan_loop_ok [OF this _ assms(1) _ al(2), of len "take len r" sp c] assms(1)
  obtain s where "scan_loop (take len r @ [0]) al sp len 0 c (start_scan r al 0) = Some s" "scan_inv r len al len s"
    by (auto simp: start_scan_def)
  with that al c show thesis by blast
qed

text \<open>
  C22. For a text without zero bytes, from the initial state and with any list of allowed
  tags, the stripper stays inside all its buffers and returns; the result is no longer than
  the text, and nothing behind the text is written.
\<close>

theorem strip_tags_safe:
  assumes "len \<le> length r" and "0 \<notin> set (take len r)" and "allow_arg allow"
  shows "\<exists>n r' st al. php_strip_tags_ex r len 0 allow sp = Some (n, r', st, al) \<and> n \<le> len \<and>
    length r' = length r \<and> drop len r' = drop len r \<and> (n < len \<longrightarrow> r' ! n = 0) \<and> st \<in> {0, 1, 2, 3, 4}"
proof -
  obtain s al c where s: "lower_allow allow = Some al" "byte_at (take len r @ [0]) 0 = Some c"
    "scan_loop (take len r @ [0]) al sp len 0 c (start_scan r al 0) = Some s" "scan_inv r len al len s"
    by (rule strip_tags_total [OF assms])
  from s(4) have i: "rp s \<le> len" "length (rbuf s) = length r" "drop len (rbuf s) = drop len r" "sstate s \<in> {0, 1, 2, 3, 4}"
    by (auto simp: scan_inv_def)
  with php_strip_tags_run [OF assms(1,2) s(1), of sp 0 s] s(2,3) assms(1) show ?thesis by auto
qed

section \<open>No tags remain\<close>

text \<open>Every \<open><\<close> is followed by white space, so none of them starts a tag.\<close>

definition tag_free :: "bytes \<Rightarrow> bool" where
  "tag_free xs \<longleftrightarrow> (\<forall>j < length xs. xs ! j = ch_lt \<longrightarrow> Suc j < length xs \<and> isspace (xs ! Suc j))"

lemmas scan_defs = scan_lt_def scan_par_def scan_gt_def scan_quote_def scan_excl_def scan_minus_def
  scan_quest_def scan_e_def scan_l_def reg_char_def toggle_quote_def end_tag_def leave_tag_def Let_def

text \<open>Without a list of allowed tags, a byte is copied out in state 0 only.\<close>

lemma scan_char_state0:
  assumes "sstate s = 0" and "byte_at buf (p + 1) = Some c1"
  shows "scan_char buf None False p c s =
    (if c = 0 then Some s
     else if c = ch_lt then
       (if in_q s \<noteq> 0 then Some s else if isspace c1 then out c s else Some (s\<lparr>lc := ch_lt, sstate := 1\<rparr>))
     else if c = ch_gt \<and> depth s \<noteq> 0 then Some (s\<lparr>depth := depth s - 1\<rparr>)
     else if c = ch_gt \<and> in_q s \<noteq> 0 then Some s
     else out c s)"
  using assms by (auto simp: scan_char_def scan_defs out_def)

lemma push_output: "push_tag c s = Some s' \<Longrightarrow> rbuf s' = rbuf s \<and> rp s' = rp s"
  by (auto simp: push_tag_def Let_def split: if_splits)

lemma scan_char_inside:
  assumes "sstate s \<noteq> 0" and "scan_char buf None False p c s = Some s'" and "sstate s \<in> {0, 1, 2, 3, 4}"
  shows "rbuf s' = rbuf s \<and> rp s' = rp s"
proof -
  have reg: "reg_char None d s = Some s' \<Longrightarrow> rbuf s' = rbuf s \<and> rp s' = rp s" for d
    using assms(1) by (simp add: reg_char_def)
  have lt: "scan_lt buf None False p s = Some s' \<Longrightarrow> rbuf s' = rbuf s \<and> rp s' = rp s"
    using assms(1) reg by (auto simp: scan_lt_def bind_eq_Some_conv split: if_splits)
  have par: "scan_par None k d s = Some s' \<Longrightarrow> rbuf s' = rbuf s \<and> rp s' = rp s" for k d
    using assms(1) by (auto simp: scan_par_def split: if_splits)
  have gt: "scan_gt buf None p s = Some s' \<Longrightarrow> rbuf s' = rbuf s \<and> rp s' = rp s"
    using assms(1,3) by (auto simp: scan_gt_def end_tag_def leave_tag_def bind_eq_Some_conv split: if_splits)
  have tq: "toggle_quote buf p d t = Some s' \<Longrightarrow> rbuf s' = rbuf t \<and> rp s' = rp t" for d t
    by (auto simp: toggle_quote_def bind_eq_Some_conv split: if_splits)
  have quote: "scan_quote buf None p d s = Some s' \<Longrightarrow> rbuf s' = rbuf s \<and> rp s' = rp s" for d
    using assms(1) by (auto simp: scan_quote_def bind_eq_Some_conv split: if_splits dest: tq)
  have excl: "scan_excl buf None p s = Some s' \<Longrightarrow> rbuf s' = rbuf s \<and> rp s' = rp s"
    using assms(1) by (auto simp: scan_excl_def bind_eq_Some_conv split: if_splits)
  have minus: "scan_minus buf None p s = Some s' \<Longrightarrow> rbuf s' = rbuf s \<and> rp s' = rp s"
    using reg by (auto simp: scan_minus_def split: if_splits)
  have l: "scan_l buf None p d s = Some s' \<Longrightarrow> rbuf s' = rbuf s \<and> rp s' = rp s" for d
    using reg by (auto simp: scan_l_def split: if_splits)
  have e: "scan_e buf None p d s = Some s' \<Longrightarrow> rbuf s' = rbuf s \<and> rp s' = rp s" for d
    using l by (auto simp: scan_e_def split: if_splits)
  have quest: "scan_quest buf None p s = Some s' \<Longrightarrow> rbuf s' = rbuf s \<and> rp s' = rp s"
    using e by (auto simp: scan_quest_def bind_eq_Some_conv split: if_splits)
  show ?thesis using assms(2) unfolding scan_char_def
    by (auto split: if_splits dest: reg lt par gt quote excl minus l e quest)
qed

text \<open>What has been written so far when the next byte is \<open>c\<close>.\<close>

definition free_inv :: "u8 \<Rightarrow> scan \<Rightarrow> bool" where
  "free_inv c s \<longleftrightarrow> rp s \<le> length (rbuf s) \<and> (\<forall>j < rp s. rbuf s ! j \<noteq> 0) \<and>
     (\<forall>j < rp s. rbuf s ! j = ch_lt \<longrightarrow>
        (if Suc j < rp s then isspace (rbuf s ! Suc j) else sstate s = 0 \<and> isspace c))"

lemma free_inv_out:
  assumes "free_inv c s" and "out c s = Some s'" and "sstate s = 0" and "c = ch_lt \<Longrightarrow> isspace c1" and "c \<noteq> 0"
  shows "free_inv c1 s'"
proof -
  from assms(2) have s': "rp s < length (rbuf s)" "s' = s\<lparr>rbuf := (rbuf s)[rp s := c], rp := rp s + 1\<rparr>"
    by (auto simp: out_def split: if_splits)
  show ?thesis
    unfolding free_inv_def
  proof (intro conjI allI impI)
    show "rp s' \<le> length (rbuf s')" using s' by simp
  next
    fix j assume "j < rp s'"
    then show "rbuf s' ! j \<noteq> 0" using s' assms(1,5) by (cases "j = rp s") (simp_all add: free_inv_def)
  next
    fix j assume j: "j < rp s'" "rbuf s' ! j = ch_lt"
    show "if Suc j < rp s' then isspace (rbuf s' ! Suc j) else sstate s' = 0 \<and> isspace c1"
    proof (cases "j = rp s")
      case True
      with s' j assms(3,4) show ?thesis by simp
    next
      case False
      with s' j have "j < rp s" "rbuf s ! j = ch_lt" by auto
      with assms(1) have "if Suc j < rp s then isspace (rbuf s ! Suc j) else isspace c"
        by (auto simp: free_inv_def split: if_splits)
      moreover have "Suc j = rp s \<or> Suc j < rp s" using \<open>j < rp s\<close> by linarith
      ultimately show ?thesis using s' by auto
    qed
  qed
qed

lemma isspace_plain: "isspace c \<Longrightarrow> c \<noteq> 0 \<and> c \<noteq> ch_lt \<and> c \<noteq> ch_gt"
  by (auto simp: isspace_def)

lemma free_inv_step:
  assumes inv: "free_inv c s" and step: "scan_char buf None False p c s = Some s'"
    and c1: "byte_at buf (p + 1) = Some c1" and st: "sstate s \<in> {0, 1, 2, 3, 4}"
  shows "free_inv c1 s'"
proof (cases "sstate s = 0")
  case True
  show ?thesis
  proof (cases "out c s = Some s' \<and> (c = ch_lt \<longrightarrow> isspace c1) \<and> c \<noteq> 0")
    case out: True
    then show ?thesis using free_inv_out [OF inv _ True] by auto
  next
    case False
    with step [unfolded scan_char_state0 [OF True c1]] have "rbuf s' = rbuf s" "rp s' = rp s" "\<not> isspace c"
      using isspace_plain [of c] by (auto split: if_splits)
    with inv show ?thesis by (auto simp: free_inv_def)
  qed
next
  case False
  with scan_char_inside [OF False step st] inv show ?thesis by (auto simp: free_inv_def)
qed

lemma scan_loop_free:
  assumes "scan_loop (xs @ [0]) None False n p c s = Some s'" and "free_inv c s" and "scan_inv r (length xs) None p s"
    and "p + n = length xs" and "length xs \<le> length r" and "sstate s \<noteq> 0 \<Longrightarrow> 0 < p" and "byte_at (xs @ [0]) p = Some c"
  shows "free_inv 0 s'"
  using assms
proof (induction n arbitrary: p s c)
  case 0
  then show ?case by (simp add: byte_at_def nth_append)
next
  case (Suc n)
  have p: "p < length xs" using Suc.prems(4) by simp
  from scan_char_ok [OF Suc.prems(3) p Suc.prems(5,6) _ refl refl, of False c] obtain s1 where
    s1: "scan_char (xs @ [0]) None False p c s = Some s1" "scan_inv r (length xs) None (p + 1) s1" by auto
  have "byte_at (xs @ [0]) (p + 1) \<noteq> None" using p by (simp add: byte_at_def)
  then obtain c1 where c1: "byte_at (xs @ [0]) (p + 1) = Some c1" by auto
  have lp: "scan_loop (xs @ [0]) None False n (p + 1) c1 s1 = Some s'"
    using Suc.prems(1) s1(1) c1 by (simp only: scan_loop.simps bind.bind_lunit)
  have "sstate s \<in> {0, 1, 2, 3, 4}" using Suc.prems(3) by (simp add: scan_inv_def)
  note free = free_inv_step [OF Suc.prems(2) s1(1) c1 this]
  have "p + 1 + n = length xs" using Suc.prems(4) by simp
  from Suc.IH [OF lp free s1(2) this Suc.prems(5) _ c1] show ?case by simp
qed

lemma free_inv_tag_free: "free_inv 0 s \<Longrightarrow> tag_free (take (rp s) (rbuf s))"
  unfolding tag_free_def
proof (intro allI impI)
  fix j
  assume f: "free_inv 0 s" and j: "j < length (take (rp s) (rbuf s))" "take (rp s) (rbuf s) ! j = ch_lt"
  then have r: "rp s \<le> length (rbuf s)" "j < rp s" "rbuf s ! j = ch_lt" by (simp_all add: free_inv_def)
  have "\<not> isspace 0" by (simp add: isspace_def)
  with f r have "Suc j < rp s \<and> isspace (rbuf s ! Suc j)" unfolding free_inv_def by metis
  with r show "Suc j < length (take (rp s) (rbuf s)) \<and> isspace (take (rp s) (rbuf s) ! Suc j)" by simp
qed

text \<open>A text without tags is copied unchanged.\<close>

lemma scan_loop_copy:
  assumes "tag_free xs" and "0 \<notin> set xs" and "p + n = length xs" and "xs = take (length xs) r"
    and "sstate s = 0" "in_q s = 0" "depth s = 0" "rp s = p" "rbuf s = r" and "byte_at (xs @ [0]) p = Some c"
  shows "\<exists>s'. scan_loop (xs @ [0]) None False n p c s = Some s' \<and> rp s' = length xs \<and> rbuf s' = r \<and> sstate s' = 0"
  using assms
proof (induction n arbitrary: p s c)
  case 0
  then show ?case by simp
next
  case (Suc n)
  have p: "p < length xs" using Suc.prems(3) by simp
  then have c: "c = xs ! p" using Suc.prems(10) by (simp add: byte_at_def nth_append)
  have c0: "c \<noteq> 0" using Suc.prems(2) nth_mem [OF p] c by auto
  have r: "p < length r" "r ! p = c" using Suc.prems(4) p c
    by (metis length_take min_less_iff_conj, metis nth_take)
  have "byte_at (xs @ [0]) (p + 1) \<noteq> None" using p by (simp add: byte_at_def)
  then obtain c1 where c1: "byte_at (xs @ [0]) (p + 1) = Some c1" by auto
  have lt: "isspace c1" if "c = ch_lt"
    using that Suc.prems(1) p c c1 by (auto simp: tag_free_def byte_at_def nth_append)
  have o: "out c s = Some (s\<lparr>rbuf := r, rp := p + 1\<rparr>)"
    using r Suc.prems(8,9) by (simp add: out_def list_update_same_conv)
  have "scan_char (xs @ [0]) None False p c s = Some (s\<lparr>rbuf := r, rp := p + 1\<rparr>)"
    using scan_char_state0 [OF Suc.prems(5) c1, of c] Suc.prems(6,7) c0 lt o by auto
  with Suc.IH [of "p + 1" "s\<lparr>rbuf := r, rp := p + 1\<rparr>" c1] Suc.prems c1 show ?case by simp
qed

text \<open>The result of a run without a list of allowed tags and without spaces in tags.\<close>

lemma strip_plain:
  assumes "len \<le> length r" and "0 \<notin> set (take len r)"
  obtains n r' st where "php_strip_tags_ex r len 0 None False = Some (n, r', st, None)" "n \<le> len"
    "length r' = length r" "tag_free (take n r')" "0 \<notin> set (take n r')"
proof -
  obtain s al c where s: "lower_allow None = Some al" "byte_at (take len r @ [0]) 0 = Some c"
    "scan_loop (take len r @ [0]) al False len 0 c (start_scan r al 0) = Some s" "scan_inv r len al len s"
    "al = None \<longleftrightarrow> None = (None :: (bytes \<times> nat) option)"
    by (rule strip_tags_total [OF assms, of None False]) (simp add: allow_arg_def)
  have al: "al = None" using s(5) by simp
  have len: "length (take len r) = len" using assms(1) by simp
  have "free_inv 0 s"
    by (rule scan_loop_free [OF s(3) [unfolded al], where r = r])
      (use len assms(1) s(2) al in \<open>simp_all add: start_scan_def free_inv_def scan_inv_def\<close>)
  note f = free_inv_tag_free [OF this] this
  have i: "rp s \<le> len" "length (rbuf s) = length r" using s(4) by (auto simp: scan_inv_def)
  let ?r = "if rp s < len then (rbuf s)[rp s := 0] else rbuf s"
  have "take (rp s) ?r = take (rp s) (rbuf s)" by simp
  moreover have "0 \<notin> set (take (rp s) (rbuf s))"
    using f(2) by (auto simp: free_inv_def in_set_conv_nth)
  ultimately show thesis
    using that [of "rp s" ?r "sstate s"] php_strip_tags_run [OF assms(1,2) s(1), of False 0 s] s(2,3) al f(1) i by simp
qed

text \<open>
  C32. Without a list of allowed tags no tag survives: in the result every \<open><\<close> is followed by
  white space.
\<close>

theorem strip_tags_removes_tags:
  assumes "len \<le> length r" and "0 \<notin> set (take len r)"
  shows "\<exists>n r' st. php_strip_tags_ex r len 0 None False = Some (n, r', st, None) \<and> n \<le> len \<and> tag_free (take n r')"
  using strip_plain [OF assms] by metis

lemma strip_tag_free:
  assumes "len \<le> length r" and "0 \<notin> set (take len r)" and "tag_free (take len r)"
  shows "php_strip_tags_ex r len 0 None False = Some (len, r, 0, None)"
proof -
  let ?xs = "take len r"
  have len: "length ?xs = len" using assms(1) by simp
  have "byte_at (?xs @ [0]) 0 \<noteq> None" by (simp add: byte_at_def)
  then obtain c where c: "byte_at (?xs @ [0]) 0 = Some c" by auto
  have "\<exists>s'. scan_loop (?xs @ [0]) None False (length ?xs) 0 c (start_scan r None 0) = Some s' \<and>
      rp s' = length ?xs \<and> rbuf s' = r \<and> sstate s' = 0"
    by (rule scan_loop_copy [OF assms(3,2) _ _ _ _ _ _ _ c]) (use assms(1) in \<open>simp_all add: start_scan_def min_absorb2\<close>)
  with php_strip_tags_run [OF assms(1,2), of None None False 0] c len show ?thesis
    by (auto simp: lower_allow_def)
qed

text \<open>
  C33. Without a list of allowed tags and with \<open>allow_tag_spaces\<close> off, stripping a text without zero bytes is
  idempotent: in the result no \<open><\<close> starts a tag, and such a text is returned unchanged, byte for
  byte and with the scan back in its start state. (With a list of allowed tags it is not:
  \<open>strip_tags_twice_allowed\<close> below.)
\<close>

theorem strip_tags_idempotent:
  assumes "len \<le> length r" and "0 \<notin> set (take len r)"
    and "php_strip_tags_ex r len 0 None False = Some (n, r', st, None)"
  shows "php_strip_tags_ex r' n 0 None False = Some (n, r', 0, None)"
  by (rule strip_plain [OF assms(1,2)], rule strip_tag_free) (use assms in auto)

section \<open>Allowed tags\<close>

definition name_char :: "u8 \<Rightarrow> bool" where
  "name_char c \<longleftrightarrow> c \<noteq> 0 \<and> c \<noteq> ch_lt \<and> c \<noteq> ch_gt \<and> c \<noteq> ch_slash \<and> \<not> isspace c"

lemma name_char_lower: "name_char c \<Longrightarrow> name_char (tolower c)"
proof -
  have "list_all (\<lambda>n. name_char (of_nat n) \<longrightarrow> name_char (tolower (of_nat n))) [0..<256]" by code_simp
  then have "name_char (of_nat n :: u8) \<longrightarrow> name_char (tolower (of_nat n))" if "n < 256" for n
    using that by (simp add: list_all_iff)
  from this [of "unat c"] show "name_char c \<Longrightarrow> name_char (tolower c)" using unsigned_less [of c] by simp
qed

lemma norm_loop_name:
  assumes "drop t tag = name @ d # e # rest" and "list_all name_char name" and "length n + length name \<le> sz"
    and "isspace d \<or> d = ch_gt" and "st \<or> name \<noteq> []"
  shows "norm_loop tag sz t st n = Some (n @ map tolower name)"
  using assms
proof (induction name arbitrary: t st n)
  case Nil
  from Nil(1) have "t + 1 < length tag" "tag ! t = d"
    by (auto dest: arg_cong [where f = length] simp: nth_via_drop)
  then have "byte_at tag t = Some d" "byte_at tag (t + 1) \<noteq> None" by (simp_all add: byte_at_def)
  moreover have "tolower d = d \<and> d \<noteq> ch_lt" using Nil(4) by (auto simp: tolower_def isspace_def word_le_nat_alt)
  moreover have "\<not> (isspace d \<and> d = ch_gt)" by (auto simp: isspace_def)
  ultimately show ?case using Nil(4,5) by (subst norm_loop.simps) (auto simp: Let_def)
next
  case (Cons c name)
  have t: "tag ! t = c" "drop (Suc t) tag = name @ d # e # rest" "t < length tag"
    using Cons_eq_drop [of c "name @ d # e # rest" t tag] Cons.prems(1) by simp_all
  have "name_char (tolower c)" using Cons.prems(2) name_char_lower by simp
  moreover from this have "norm_loop tag sz (Suc t) True (n @ [tolower c]) = Some ((n @ [tolower c]) @ map tolower name)"
    using Cons.IH [OF t(2), of "n @ [tolower c]" True] Cons.prems by simp
  ultimately show ?case using t(1,3) Cons.prems(3)
    by (subst norm_loop.simps) (simp add: Let_def byte_at_def name_char_def)
qed

text \<open>
  C34. A tag is allowed exactly if its lower-case name in angle brackets occurs in the list of
  allowed tags, for opening and closing tags alike and whatever its attributes are.
\<close>

theorem allowed_tag_by_name:
  assumes "list_all name_char name" and "name \<noteq> []" and "close = [] \<or> close = [ch_slash]"
    and "attrs = [] \<or> isspace (hd attrs)" and "0 \<in> set allowed"
  shows "php_tag_find ([ch_lt] @ close @ name @ attrs @ [ch_gt, 0]) (length close + length name + length attrs + 2) allowed =
    Some (sublist ([ch_lt] @ map tolower name @ [ch_gt]) (takeWhile (\<lambda>c. c \<noteq> 0) allowed))"
proof -
  let ?tag = "[ch_lt] @ close @ name @ attrs @ [ch_gt, 0]"
  let ?sz = "length close + length name + length attrs + 3"
  obtain d e rest where de: "attrs @ [ch_gt, 0] = d # e # rest" "isspace d \<or> d = ch_gt"
    using assms(4) by (cases attrs; cases "tl attrs") auto
  have "norm_loop ?tag ?sz (1 + length close) (close \<noteq> []) [ch_lt] = Some ([ch_lt] @ map tolower name)"
    by (rule norm_loop_name [OF _ assms(1) _ de(2)]) (use assms(2) de(1) in simp_all)
  moreover have "norm_loop ?tag ?sz 0 False [] = norm_loop ?tag ?sz (1 + length close) (close \<noteq> []) [ch_lt]"
  proof -
    have 0: "norm_loop ?tag ?sz 0 False [] = norm_loop ?tag ?sz 1 False [ch_lt]"
      by (subst norm_loop.simps) (simp add: byte_at_def tolower_def Let_def)
    show ?thesis
    proof (cases "close = []")
      case True
      with 0 show ?thesis by simp
    next
      case False
      then have c: "close = [ch_slash]" using assms(3) by simp
      have "norm_loop ?tag ?sz 1 False [ch_lt] = norm_loop ?tag ?sz (Suc (Suc 0)) True [ch_lt]"
        unfolding c by (subst norm_loop.simps) (simp add: byte_at_def tolower_def isspace_def Let_def)
      with 0 c show ?thesis by simp
    qed
  qed
  ultimately have n: "norm_loop ?tag ?sz 0 False [] = Some ([ch_lt] @ map tolower name)" by simp
  have "list_all (\<lambda>c. c \<noteq> 0) (map tolower name)"
    using assms(1) name_char_lower by (auto simp: list_all_iff name_char_def)
  then have "takeWhile (\<lambda>c. c \<noteq> 0) (map tolower name @ [ch_gt, 0]) = map tolower name @ [ch_gt]"
    by (subst takeWhile_append2) (auto simp: list_all_iff)
  moreover have "length close + length name + length attrs + 2 + 1 = ?sz" by simp
  ultimately show ?thesis unfolding php_tag_find_def
    using n assms(2,5) by (simp only: n bind.bind_lunit) (simp add: strstr_def zstring_def)
qed

section \<open>Reads outside the text\<close>

lemma scan_loop_past_end:
  "0 < n \<Longrightarrow> length buf \<le> p + n \<Longrightarrow> scan_loop buf allow sp n p c s = None"
proof (induction n arbitrary: p c s)
  case (Suc n)
  show ?case
  proof (cases "scan_char buf allow sp p c s")
    case (Some s1)
    show ?thesis
    proof (cases "p + 1 < length buf")
      case True
      then have "byte_at buf (p + 1) = Some (buf ! (p + 1))" by (simp add: byte_at_def)
      with Some Suc.IH [of "p + 1"] Suc.prems True show ?thesis by simp
    next
      case False
      then have "byte_at buf (p + 1) = None" by (simp add: byte_at_def)
      with Some show ?thesis by simp
    qed
  qed simp
qed simp

text \<open>
  A zero byte inside the given length makes the stripper read behind its copy of the text:
  \<open>strndup\<close> copies only up to the zero, but the loop goes on for \<open>len\<close> bytes.
\<close>

theorem strip_tags_zero_byte:
  assumes "0 \<in> set (take len r)"
  shows "php_strip_tags_ex r len state allow sp = None"
proof -
  let ?xs = "takeWhile (\<lambda>c. c \<noteq> 0) (take len r)"
  have "length ?xs < length (take len r)"
  proof -
    have "dropWhile (\<lambda>c. c \<noteq> 0) (take len r) \<noteq> []" using assms by (auto simp: dropWhile_eq_Nil_conv)
    moreover have "length (take len r) = length ?xs + length (dropWhile (\<lambda>c. c \<noteq> 0) (take len r))"
      by (metis length_append takeWhile_dropWhile_id)
    ultimately show ?thesis by simp
  qed
  then have "length (?xs @ [0]) \<le> 0 + len" "0 < len" by auto
  from scan_loop_past_end [OF this(2,1)] show ?thesis
    by (auto simp: php_strip_tags_ex_def strndup_def Option.bind_eq_None_conv)
qed

text \<open>
  Resuming inside a tag reads the byte in front of the text when that starts with one of
  the bytes that are judged by their predecessor.
\<close>

theorem strip_tags_resumed_underread:
  assumes "(state, c) \<in> {(1, ch_excl), (1, ch_quest), (2, ch_dquote), (2, ch_quote), (2, ch_gt)}" and "0 < len"
  shows "php_strip_tags_ex (c # rest) len state allow sp = None"
proof -
  have b: "byte_back buf 0 1 = None" for buf by (simp add: byte_back_def)
  have c: "c \<noteq> 0" using assms(1) by auto
  obtain n where n: "len = Suc n" using assms(2) by (cases len) auto
  have "scan_char buf al sp 0 c (start_scan r al state) = None" for buf al r
    using assms(1) b by (auto simp: scan_char_def scan_excl_def scan_quest_def scan_quote_def scan_gt_def start_scan_def)
  then have "scan_loop buf al sp len 0 c (start_scan r al state) = None" for buf al r by (simp add: n)
  moreover have "strndup (c # rest) len = None \<or> (\<exists>ys. strndup (c # rest) len = Some (c # ys))"
    using c n by (auto simp: strndup_def)
  ultimately show ?thesis
    unfolding php_strip_tags_ex_def start_scan_def [symmetric] by (auto simp: byte_at_def split: bind_split)
qed

section \<open>Examples\<close>

definition of_text :: "string \<Rightarrow> bytes" where "of_text s = map of_char s"

theorem strip_tags_safe_witness:
  "\<exists>n r' st al. php_strip_tags_ex (of_text ''x<B k=1>y<i>z'' @ [0]) 13 0 (Some (of_text ''<b>'' @ [0], 3)) False = Some (n, r', st, al) \<and>
    n \<le> 13 \<and> length r' = 14"
proof -
  have h: "13 \<le> length (of_text ''x<B k=1>y<i>z'' @ [0])" "0 \<notin> set (take 13 (of_text ''x<B k=1>y<i>z'' @ [0]))"
    "allow_arg (Some (of_text ''<b>'' @ [0], 3))"
    by (simp_all add: of_text_def allow_arg_def)
  from strip_tags_safe [OF h, of False] show ?thesis by (auto simp: of_text_def)
qed

lemma strip_example:
  "php_strip_tags_ex (of_text ''x<b>y< z'') 8 0 None False = Some (5, of_text ''xy< z'' @ [0] @ of_text '' z'', 0, None)"
  by code_simp

theorem strip_tags_removes_tags_witness:
  "\<exists>n r' st. php_strip_tags_ex (of_text ''x<b>y< z'') 8 0 None False = Some (n, r', st, None) \<and> tag_free (take n r')"
proof -
  have h: "8 \<le> length (of_text ''x<b>y< z'')" "0 \<notin> set (take 8 (of_text ''x<b>y< z''))" by (simp_all add: of_text_def)
  from strip_tags_removes_tags [OF h] show ?thesis by blast
qed

text \<open>
  A tag removed from inside another one can leave an allowed tag behind that the next scan reads
  differently: \<open><!b>\<close> is allowed, \<open><<>!b>\<close> is stripped to \<open><!b>\<close>, and that to nothing.
\<close>

theorem strip_tags_twice_allowed:
  "let allow = Some (of_text ''<!b>'' @ [0], 4)
   in map_option (\<lambda>(n, r, st, al). (n, take n r)) (php_strip_tags_ex (of_text ''<<>!b>'' @ [0]) 6 0 allow False) =
        Some (4, of_text ''<!b>'') \<and>
      map_option (\<lambda>(n, r, st, al). (n, take n r)) (php_strip_tags_ex (of_text ''<!b>'' @ [0]) 4 0 allow False) =
        Some (0, [])"
  by code_simp

theorem strip_tags_idempotent_witness:
  "php_strip_tags_ex (of_text ''xy< z'' @ [0] @ of_text '' z'') 5 0 None False = Some (5, of_text ''xy< z'' @ [0] @ of_text '' z'', 0, None)"
proof -
  have h: "8 \<le> length (of_text ''x<b>y< z'')" "0 \<notin> set (take 8 (of_text ''x<b>y< z''))" by (simp_all add: of_text_def)
  show ?thesis by (rule strip_tags_idempotent [OF h strip_example])
qed

theorem allowed_tag_by_name_witness:
  "php_tag_find (of_text ''</Em x>'' @ [0]) (length (of_text ''</Em x>'')) (of_text ''<b><em>'' @ [0]) = Some True"
proof -
  have s: "sublist [ch_lt, 101, 109, ch_gt] [60, 98, 62, ch_lt, 101, 109, ch_gt]"
    unfolding sublist_def by (intro exI [of _ "[60, 98, 62]"] exI [of _ "[]"]) simp
  have n: "list_all name_char (of_text ''Em'')" by (simp add: of_text_def name_char_def isspace_def)
  from allowed_tag_by_name [OF n, of "[ch_slash]" "of_text '' x''" "of_text ''<b><em>'' @ [0]"] s show ?thesis
    by (simp add: of_text_def isspace_def tolower_def)
qed

theorem strip_tags_zero_byte_witness:
  "php_strip_tags_ex [97, 0, 98] 3 0 None False = None"
  by (rule strip_tags_zero_byte) simp

theorem strip_tags_resumed_underread_witness:
  "php_strip_tags_ex [ch_excl, 97] 2 1 None False = None"
  by (rule strip_tags_resumed_underread) simp_all

end
