(* ===== verification/Demos.thy ===== *)
theory Demos
  imports Resource_Cache_Lru Strip_Tags_Props
begin

text \<open>
  The demo programs of the cache (\<open>resource_cache/rc.cc\<close>, \<open>main.cc\<close>) and of the tag stripper
  (\<open>php_strip_tags/main.c\<close>) on the models of their libraries, and what they print. The lines that destructors print and the clock values printed by the last
  program are left out.
\<close>

section \<open>\<open>rc.cc\<close>: the cache\<close>

datatype rc_line = Show_res int | Set_1_failed

definition show_object :: "int option \<Rightarrow> rc_line list" where
  "show_object obj = (case obj of None \<Rightarrow> [] | Some r \<Rightarrow> [Show_res r])"

text \<open>
  An object is its number. \<open>now i\<close> is the clock at the \<open>i\<close>-th call, \<open>this\<close> the address of the
  cache's list head. Both warnings test the result of the first \<open>Set\<close>.
\<close>

definition rc_Test :: "int new_item \<Rightarrow> nat \<Rightarrow> (nat \<Rightarrow> int) \<Rightarrow> (rc_line list \<times> int rheap) option" where
  "rc_Test new this now = do {
     let (h, c) = new_cache_default this (now 0) 10 Map.empty;
     unused \<leftarrow> cache_Get ''abc'' (now 1) h c;
     (ret, h, c) \<leftarrow> cache_Set new ''1'' (Some 1) (now 2) h c;
     let w1 = (if \<not> ret then [Set_1_failed] else []);
     obj2 \<leftarrow> cache_Get ''1'' (now 3) h c;
     let s1 = show_object obj2;
     (ignored, h, c) \<leftarrow> cache_Set new ''1'' (Some 2) (now 4) h c;
     let w2 = (if \<not> ret then [Set_1_failed] else []);
     obj2 \<leftarrow> cache_Get ''1'' (now 5) h c;
     let s2 = show_object obj2;
     (h, c) \<leftarrow> destroy_cache h c;
     Some (w1 @ s1 @ w2 @ s2, h)
   }"

text \<open>\<open>main\<close> also creates a cache of integers, which is destroyed at once.\<close>

definition rc_main :: "int new_item \<Rightarrow> nat \<Rightarrow> (nat \<Rightarrow> int) \<Rightarrow> rc_line list option" where
  "rc_main new this now = do {
     (ls, h) \<leftarrow> rc_Test new this now;
     let (h, c) = new_cache_default this (now 6) 100 (Map.empty :: int rheap);
     (h, c) \<leftarrow> destroy_cache h c;
     Some ls
   }"

lemma default_rep:
  "0 <s cap \<Longrightarrow> cache_rep (new_cache_default this t cap (Map.empty :: 'a rheap)) (unat cap) (not_expired kCacheExpireSeconds) []"
  unfolding new_cache_default_def by (rule new_cache_rep)

lemma cache_Set_head: "cache_Set new k r now h c = Some (b, h', c') \<Longrightarrow> lru_head c' = lru_head c"
  by (auto simp: cache_Set_def evict_def bind_eq_Some_conv Let_def split: option.splits if_splits)

text \<open>
  The demo of the cache: when its two lookups come less than 30 seconds after the entry was set, it shows the
  object it has stored last each time and prints no warning, all calls return, and the
  destructor leaves nothing of the cache on the heap.
\<close>
theorem rc_Test_shows:
  assumes "new_ok new" "not_expired 30 (now 2) (now 3)" "not_expired 30 (now 4) (now 5)"
  shows "\<exists>h. rc_Test new this now = Some ([Show_res 1, Show_res 2], h) \<and> dom h = {this}"
proof -
  let ?v = "not_expired 30"
  have k: "kCacheExpireSeconds = 30" by (simp add: kCacheExpireSeconds_def)
  have "0 <s (10 :: u32)" by (simp add: pos_u32)
  note rep = default_rep [OF this, of this "now 0", where 'a = int, unfolded k]
  obtain h c where new: "new_cache_default this (now 0) 10 (Map.empty :: int rheap) = (h, c)"
    by (metis surj_pair)
  note r0 = rep [unfolded new]
  have c: "lru_head c = this" using new by (auto simp: new_cache_default_def new_cache_def)
  from cache_Set_law [OF r0 assms(1)] obtain h1 c1 where 1:
    "cache_Set new ''1'' (Some 1) (now 2) h c = Some (True, h1, c1)"
    "cache_rep (h1, c1) (unat (10 :: u32)) ?v [(''1'', Some 1, now 2)]"
    by (fastforce simp: lru_set_def)
  from cache_Set_law [OF 1(2) assms(1)] obtain h2 c2 where 2:
    "cache_Set new ''1'' (Some 2) (now 4) h1 c1 = Some (True, h2, c2)"
    "cache_rep (h2, c2) (unat (10 :: u32)) ?v [(''1'', Some 2, now 4)]"
    by (fastforce simp: lru_set_def put_first_def)
  obtain h3 c3 where 3: "destroy_cache h2 c2 = Some (h3, c3)" "dom h3 = {lru_head c2}"
    using destroy_rep [OF 2(2)] by blast
  have "lru_head c2 = this" using cache_Set_head [OF 1(1)] cache_Set_head [OF 2(1)] c by simp
  with 3 1 2 show ?thesis
    using assms(2,3) cache_Get_law [OF r0, of "''abc''" "now 1"] cache_Get_law [OF 1(2), of "''1''" "now 3"]
      cache_Get_law [OF 2(2), of "''1''" "now 5"]
    by (simp add: rc_Test_def new lru_get_def show_object_def)
qed


section \<open>\<open>main.c\<close> of the tag stripper\<close>

text \<open>The buffer with its terminator, the returned size and the text that \<open>printf\<close> shows.\<close>

definition strip_demo_buf :: bytes where
  "strip_demo_buf = map of_char ''adfa<p>eee</p>ccc'' @ [0]"

definition strip_main :: "(nat \<times> bytes) option" where
  "strip_main = do {
     (sz, buf, st, al) \<leftarrow> php_strip_tags_ex strip_demo_buf (length (takeWhile (\<lambda>c. c \<noteq> 0) strip_demo_buf)) 0 None False;
     shown \<leftarrow> zstring buf;
     Some (sz, shown)
   }"

lemma strip_main_output: "strip_main = Some (10, map of_char ''adfaeeeccc'')"
  by code_simp

end
