(* ===== verification/S3_Xml.thy ===== *)
theory S3_Xml
  imports Prelude
begin

text \<open>
  \<open>s3xml/s3_xml.cc\<close>: XML documents of the S3 protocol on the library rapidxml, which is not part of the
  repository. Its operations are a record of functions on the memory \<open>'m\<close> that holds its nodes \<open>'n\<close> and
  attributes \<open>'a\<close>; \<open>None\<close> is a failed assertion of rapidxml. The wrapper's own objects are stored by their
  addresses, and a null dereference or a failed assertion makes an operation \<open>None\<close>. A rapidxml node
  refers to the strings it was made from; they belong to wrapper objects that live as long as the
  document, so a node is given their values.
\<close>

section \<open>The interface of rapidxml\<close>

datatype node_type = node_element | node_pi

record ('m, 'n, 'a) rapidxml =
  x_document :: "'m \<Rightarrow> 'n \<times> 'm"
  x_allocate_node :: "'n \<Rightarrow> node_type \<Rightarrow> bytes \<Rightarrow> bytes \<Rightarrow> 'm \<Rightarrow> 'n \<times> 'm"
  x_allocate_attribute :: "'n \<Rightarrow> bytes \<Rightarrow> bytes \<Rightarrow> 'm \<Rightarrow> 'a \<times> 'm"
  x_append_attribute :: "'n \<Rightarrow> 'a \<Rightarrow> 'm \<Rightarrow> 'm"
  x_append_node :: "'n \<Rightarrow> 'n \<Rightarrow> 'm \<Rightarrow> 'm option"
  x_first_node :: "'n \<Rightarrow> bytes \<Rightarrow> bool \<Rightarrow> 'm \<Rightarrow> 'n option"
  x_next_sibling :: "'n \<Rightarrow> bytes \<Rightarrow> bool \<Rightarrow> 'm \<Rightarrow> 'n option"
  x_value :: "'n \<Rightarrow> 'm \<Rightarrow> bytes"
  x_parse :: "'n \<Rightarrow> bytes \<Rightarrow> 'm \<Rightarrow> bool \<times> 'm"
  x_print :: "'n \<Rightarrow> 'm \<Rightarrow> bytes"
  x_free :: "'n \<Rightarrow> 'm \<Rightarrow> 'm"

text \<open>
  The wrapper passes names and values of nodes as C strings, without their lengths, and reads values back as C
  strings: \<open>c_str b\<close> is what rapidxml, or the assignment to a \<open>std::string\<close>, sees of the bytes \<open>b\<close>, those before the
  first zero. The searches are given the length of the name.
\<close>

definition c_str :: "bytes \<Rightarrow> bytes" where
  "c_str b = takeWhile (\<lambda>x. x \<noteq> 0) b"

lemma c_str_zero_free [simp]: "0 \<notin> set (c_str b)" "c_str (c_str b) = c_str b" "c_str [] = []"
  by (auto simp: c_str_def dest: set_takeWhileD)

section \<open>State\<close>

record 'n S3XmlNode =
  node_name :: bytes
  node_value :: bytes
  node_doc :: ptr
  rep_node :: "'n option"

record 'n S3XmlDoc =
  rnode_str :: bytes
  rnode_value :: bytes
  rnode :: 'n
  doc_node :: 'n
  sub_nodes :: "nat list"

text \<open>\<open>fresh\<close> is an address that no object has had.\<close>

record ('m, 'n) xml_world =
  xnodes :: "nat \<rightharpoonup> 'n S3XmlNode"
  xdocs :: "nat \<rightharpoonup> 'n S3XmlDoc"
  fresh :: nat
  mem :: 'm

section \<open>Nodes\<close>

text \<open>The constructors store an object at a fresh address.\<close>

definition new_node :: "'n S3XmlNode \<Rightarrow> ('m, 'n) xml_world \<Rightarrow> nat \<times> ('m, 'n) xml_world" where
  "new_node N w = (fresh w, w\<lparr>xnodes := (xnodes w)(fresh w \<mapsto> N), fresh := fresh w + 1\<rparr>)"

definition S3XmlNode_default :: "('m, 'n) xml_world \<Rightarrow> nat \<times> ('m, 'n) xml_world" where
  "S3XmlNode_default = new_node \<lparr>node_name = [], node_value = [], node_doc = None, rep_node = None\<rparr>"

definition S3XmlNode_new :: "bytes \<Rightarrow> bytes \<Rightarrow> nat \<Rightarrow> ('m, 'n) xml_world \<Rightarrow> nat \<times> ('m, 'n) xml_world" where
  "S3XmlNode_new name value d = new_node \<lparr>node_name = name, node_value = value, node_doc = Some d, rep_node = None\<rparr>"

definition delete_node :: "nat \<Rightarrow> ('m, 'n) xml_world \<Rightarrow> ('m, 'n) xml_world option" where
  "delete_node a w = (if xnodes w a = None then None else Some (w\<lparr>xnodes := (xnodes w)(a := None)\<rparr>))"

definition AllocateNode ::
    "('m, 'n, 'a) rapidxml \<Rightarrow> nat \<Rightarrow> bytes \<Rightarrow> bytes \<Rightarrow> ('m, 'n) xml_world \<Rightarrow> (nat \<times> ('m, 'n) xml_world) option" where
  "AllocateNode X d name value w = do {
     D \<leftarrow> xdocs w d;
     let (a, w) = S3XmlNode_new name value d w;
     N \<leftarrow> xnodes w a;
     let (n, m) = x_allocate_node X (doc_node D) node_element (c_str (node_name N)) (c_str (node_value N)) (mem w);
     Some (a, w\<lparr>mem := m, xnodes := (xnodes w)(a \<mapsto> N\<lparr>rep_node := Some n\<rparr>),
       xdocs := (xdocs w)(d \<mapsto> D\<lparr>sub_nodes := sub_nodes D @ [a]\<rparr>)\<rparr>)
   }"

text \<open>\<open>rep_node_->append_node(child)\<close>; rapidxml asserts that the child is not null.\<close>

definition append_child ::
    "('m, 'n, 'a) rapidxml \<Rightarrow> 'n \<Rightarrow> nat \<Rightarrow> ('m, 'n) xml_world \<Rightarrow> ('m, 'n) xml_world option" where
  "append_child X p child w = do {
     C \<leftarrow> xnodes w child;
     c \<leftarrow> rep_node C;
     m \<leftarrow> x_append_node X p c (mem w);
     Some (w\<lparr>mem := m\<rparr>)
   }"

definition AppendNode :: "('m, 'n, 'a) rapidxml \<Rightarrow> nat \<Rightarrow> nat \<Rightarrow> ('m, 'n) xml_world \<Rightarrow> ('m, 'n) xml_world option" where
  "AppendNode X a child w = do {
     N \<leftarrow> xnodes w a;
     p \<leftarrow> rep_node N;
     append_child X p child w
   }"

definition AppendNode_value ::
    "('m, 'n, 'a) rapidxml \<Rightarrow> nat \<Rightarrow> bytes \<Rightarrow> bytes \<Rightarrow> ('m, 'n) xml_world \<Rightarrow> ('m, 'n) xml_world option" where
  "AppendNode_value X a name value w = do {
     N \<leftarrow> xnodes w a;
     p \<leftarrow> rep_node N;
     d \<leftarrow> node_doc N;
     (child, w) \<leftarrow> AllocateNode X d name value w;
     append_child X p child w
   }"

text \<open>What both \<open>FindFirstNode\<close> methods do with the node found; the document of the result is left as it is.\<close>

definition set_found ::
    "('m, 'n, 'a) rapidxml \<Rightarrow> bytes \<Rightarrow> 'n option \<Rightarrow> nat \<Rightarrow> ('m, 'n) xml_world \<Rightarrow> (bool \<times> ('m, 'n) xml_world) option" where
  "set_found X name found a w = (case found of
     None \<Rightarrow> Some (False, w)
   | Some n \<Rightarrow> do {
       F \<leftarrow> xnodes w a;
       Some (True, w\<lparr>xnodes := (xnodes w)(a \<mapsto>
         F\<lparr>node_name := name, node_value := c_str (x_value X n (mem w)), rep_node := Some n\<rparr>)\<rparr>)
     })"

definition FindFirstNode ::
    "('m, 'n, 'a) rapidxml \<Rightarrow> nat \<Rightarrow> bytes \<Rightarrow> nat \<Rightarrow> ('m, 'n) xml_world \<Rightarrow> (bool \<times> ('m, 'n) xml_world) option" where
  "FindFirstNode X a name first w = do {
     N \<leftarrow> xnodes w a;
     p \<leftarrow> rep_node N;
     set_found X name (x_first_node X p name False (mem w)) first w
   }"

definition NextSibling :: "('m, 'n, 'a) rapidxml \<Rightarrow> nat \<Rightarrow> ('m, 'n) xml_world \<Rightarrow> (bool \<times> ('m, 'n) xml_world) option" where
  "NextSibling X a w = do {
     N \<leftarrow> xnodes w a;
     p \<leftarrow> rep_node N;
     if node_name N = [] then None
     else (case x_next_sibling X p (node_name N) False (mem w) of
         None \<Rightarrow> Some (False, w)
       | Some n \<Rightarrow> Some (True, w\<lparr>xnodes := (xnodes w)(a \<mapsto>
           N\<lparr>node_value := c_str (x_value X n (mem w)), rep_node := Some n\<rparr>)\<rparr>))
   }"

definition name_of :: "nat \<Rightarrow> ('m, 'n) xml_world \<Rightarrow> bytes option" where
  "name_of a w = map_option node_name (xnodes w a)"

definition value_of :: "nat \<Rightarrow> ('m, 'n) xml_world \<Rightarrow> bytes option" where
  "value_of a w = map_option node_value (xnodes w a)"

section \<open>Documents\<close>

definition xml_chars :: "string \<Rightarrow> bytes" where "xml_chars s = map of_char s"

definition xml_header :: bytes where
  "xml_header = xml_chars ''xml version='' @ [39] @ xml_chars ''1.0'' @ [39] @ xml_chars '' encoding='' @ [39] @ xml_chars ''utf-8'' @ [39]"

definition xml_ns :: bytes where "xml_ns = xml_chars ''http://s3.amazonaws.com/doc/2006-03-01/''"

definition S3XmlDoc_new ::
    "('m, 'n, 'a) rapidxml \<Rightarrow> bytes \<Rightarrow> bytes \<Rightarrow> ('m, 'n) xml_world \<Rightarrow> (nat \<times> ('m, 'n) xml_world) option" where
  "S3XmlDoc_new X root_node value w = do {
     let (doc, m) = x_document X (mem w);
     let (rot, m) = x_allocate_node X doc node_pi (c_str xml_header) [] m;
     m \<leftarrow> x_append_node X doc rot m;
     let (root, m) = x_allocate_node X doc node_element (c_str root_node) (c_str value) m;
     let (attr, m) = x_allocate_attribute X doc (xml_chars ''xmlns'') (c_str xml_ns) m;
     let m = x_append_attribute X root attr m;
     m \<leftarrow> x_append_node X doc root m;
     Some (fresh w, w\<lparr>mem := m, fresh := fresh w + 1, xdocs := (xdocs w)(fresh w \<mapsto>
       \<lparr>rnode_str = root_node, rnode_value = value, rnode = root, doc_node = doc, sub_nodes = []\<rparr>)\<rparr>)
   }"

definition S3XmlDoc_default ::
    "('m, 'n, 'a) rapidxml \<Rightarrow> ('m, 'n) xml_world \<Rightarrow> (nat \<times> ('m, 'n) xml_world) option" where
  "S3XmlDoc_default X = S3XmlDoc_new X [] []"

text \<open>The destructor deletes the wrapper objects it owns and the document with its pool.\<close>

fun delete_nodes :: "nat list \<Rightarrow> ('m, 'n) xml_world \<Rightarrow> ('m, 'n) xml_world option" where
  "delete_nodes [] w = Some w"
| "delete_nodes (a # as) w = Option.bind (delete_node a w) (delete_nodes as)"

definition delete_doc :: "('m, 'n, 'a) rapidxml \<Rightarrow> nat \<Rightarrow> ('m, 'n) xml_world \<Rightarrow> ('m, 'n) xml_world option" where
  "delete_doc X d w = do {
     D \<leftarrow> xdocs w d;
     w \<leftarrow> delete_nodes (sub_nodes D) w;
     Some (w\<lparr>mem := x_free X (doc_node D) (mem w), xdocs := (xdocs w)(d := None)\<rparr>)
   }"

definition AppendToRoot :: "('m, 'n, 'a) rapidxml \<Rightarrow> nat \<Rightarrow> nat \<Rightarrow> ('m, 'n) xml_world \<Rightarrow> ('m, 'n) xml_world option" where
  "AppendToRoot X d child w = do {
     D \<leftarrow> xdocs w d;
     append_child X (rnode D) child w
   }"

definition AppendToRoot_value ::
    "('m, 'n, 'a) rapidxml \<Rightarrow> nat \<Rightarrow> bytes \<Rightarrow> bytes \<Rightarrow> ('m, 'n) xml_world \<Rightarrow> ('m, 'n) xml_world option" where
  "AppendToRoot_value X d name value w = do {
     (child, w) \<leftarrow> AllocateNode X d name value w;
     D \<leftarrow> xdocs w d;
     append_child X (rnode D) child w
   }"

text \<open>An exception of the parser becomes the result false; the memory is what the parser leaves.\<close>

definition ParseFromString ::
    "('m, 'n, 'a) rapidxml \<Rightarrow> nat \<Rightarrow> bytes \<Rightarrow> ('m, 'n) xml_world \<Rightarrow> (bool \<times> ('m, 'n) xml_world) option" where
  "ParseFromString X d xml_str w = do {
     D \<leftarrow> xdocs w d;
     let (ok, m) = x_parse X (doc_node D) (c_str xml_str) (mem w);
     Some (ok, w\<lparr>mem := m\<rparr>)
   }"

definition FindFirstNode_doc ::
    "('m, 'n, 'a) rapidxml \<Rightarrow> nat \<Rightarrow> bytes \<Rightarrow> nat \<Rightarrow> ('m, 'n) xml_world \<Rightarrow> (bool \<times> ('m, 'n) xml_world) option" where
  "FindFirstNode_doc X d name first w = do {
     D \<leftarrow> xdocs w d;
     set_found X name (x_first_node X (doc_node D) name False (mem w)) first w
   }"

definition ToString :: "('m, 'n, 'a) rapidxml \<Rightarrow> nat \<Rightarrow> ('m, 'n) xml_world \<Rightarrow> bytes option" where
  "ToString X d w = map_option (\<lambda>D. x_print X (doc_node D) (mem w)) (xdocs w d)"

end
