(* ===== verification/S3_Xml_Props.thy ===== *)
theory S3_Xml_Props
  imports S3_Xml
begin

text \<open>
  The XML wrapper does what it is for: what is appended to a document is found again, in order, by
  \<open>FindFirstNode\<close> and \<open>NextSibling\<close>. A node that was found cannot be extended by name and value.
\<close>

section \<open>What is relied on\<close>

definition same_name :: "bytes \<Rightarrow> bytes \<Rightarrow> bool" where
  "same_name a b \<longleftrightarrow> map (\<lambda>c. if 65 \<le> c \<and> c \<le> 90 then c + 32 else c) a = map (\<lambda>c. if 65 \<le> c \<and> c \<le> 90 then c + 32 else c) b"

text \<open>
  The documented behaviour of rapidxml: \<open>kids p m\<close> are the children of a node in order, \<open>nm\<close> the names and \<open>live\<close> the
  nodes there are. A new node, made from C strings, is fresh and has no children; a node without a parent is appended
  behind the children; the searches find the first child, and the next sibling, with the name,
  regardless of case.
\<close>

definition forest :: "('n \<Rightarrow> 'm \<Rightarrow> 'n list) \<Rightarrow> 'm \<Rightarrow> bool" where
  "forest kids m \<longleftrightarrow> (\<forall>p. distinct (kids p m)) \<and> (\<forall>p q n. n \<in> set (kids p m) \<longrightarrow> n \<in> set (kids q m) \<longrightarrow> p = q)"

definition unchanged ::
    "('m, 'n, 'a) rapidxml \<Rightarrow> ('n \<Rightarrow> 'm \<Rightarrow> 'n list) \<Rightarrow> ('n \<Rightarrow> 'm \<Rightarrow> bytes) \<Rightarrow> 'n set \<Rightarrow> 'm \<Rightarrow> 'm \<Rightarrow> bool" where
  "unchanged X kids nm A m m' \<longleftrightarrow> (\<forall>p \<in> A. nm p m' = nm p m \<and> x_value X p m' = x_value X p m)"

definition xml_ok ::
    "('m, 'n, 'a) rapidxml \<Rightarrow> ('n \<Rightarrow> 'm \<Rightarrow> 'n list) \<Rightarrow> ('n \<Rightarrow> 'm \<Rightarrow> bytes) \<Rightarrow> ('m \<Rightarrow> 'n set) \<Rightarrow> bool" where
  "xml_ok X kids nm live \<longleftrightarrow>
     (\<forall>p m. set (kids p m) \<subseteq> live m)
     \<and> (\<forall>p name m. x_first_node X p name False m = find (\<lambda>n. same_name (nm n m) name) (kids p m))
     \<and> (\<forall>p m xs n ys name. forest kids m \<longrightarrow> kids p m = xs @ n # ys \<longrightarrow>
          x_next_sibling X n name False m = find (\<lambda>k. same_name (nm k m) name) ys)
     \<and> (\<forall>d t name v m n m'. 0 \<notin> set name \<longrightarrow> 0 \<notin> set v \<longrightarrow> x_allocate_node X d t name v m = (n, m') \<longrightarrow>
          n \<notin> live m \<and> live m' = insert n (live m) \<and> nm n m' = name \<and> x_value X n m' = v
          \<and> (\<forall>p. kids p m' = kids p m) \<and> unchanged X kids nm (live m) m m')
     \<and> (\<forall>p c m. p \<in> live m \<longrightarrow> c \<in> live m \<longrightarrow> c \<noteq> p \<longrightarrow> (\<forall>q. c \<notin> set (kids q m)) \<longrightarrow>
          (\<exists>m'. x_append_node X p c m = Some m' \<and> live m' = live m
            \<and> (\<forall>q. kids q m' = (if q = p then kids p m @ [c] else kids q m)) \<and> unchanged X kids nm (live m) m m'))"

lemma xml_okD:
  assumes "xml_ok X kids nm live"
  shows "set (kids p m) \<subseteq> live m"
    "x_first_node X p name False m = find (\<lambda>n. same_name (nm n m) name) (kids p m)"
    "forest kids m \<Longrightarrow> kids p m = xs @ n # ys \<Longrightarrow> x_next_sibling X n name False m = find (\<lambda>k. same_name (nm k m) name) ys"
    "x_allocate_node X d t name v m = (n, m') \<Longrightarrow> 0 \<notin> set name \<Longrightarrow> 0 \<notin> set v \<Longrightarrow>
          n \<notin> live m \<and> live m' = insert n (live m) \<and> nm n m' = name \<and> x_value X n m' = v
          \<and> (\<forall>p. kids p m' = kids p m) \<and> unchanged X kids nm (live m) m m'"
    "p \<in> live m \<Longrightarrow> c \<in> live m \<Longrightarrow> c \<noteq> p \<Longrightarrow> \<forall>q. c \<notin> set (kids q m) \<Longrightarrow>
          \<exists>m'. x_append_node X p c m = Some m' \<and> live m' = live m
            \<and> (\<forall>q. kids q m' = (if q = p then kids p m @ [c] else kids q m)) \<and> unchanged X kids nm (live m) m m'"
proof -
  note ok = assms [unfolded xml_ok_def]
  show "set (kids p m) \<subseteq> live m" using ok [THEN conjunct1] by blast
  show "x_first_node X p name False m = find (\<lambda>n. same_name (nm n m) name) (kids p m)"
    using ok [THEN conjunct2, THEN conjunct1] by blast
  show "x_next_sibling X n name False m = find (\<lambda>k. same_name (nm k m) name) ys"
    if "forest kids m" "kids p m = xs @ n # ys"
    using ok [THEN conjunct2, THEN conjunct2, THEN conjunct1] that by blast
  show "n \<notin> live m \<and> live m' = insert n (live m) \<and> nm n m' = name \<and> x_value X n m' = v
      \<and> (\<forall>p. kids p m' = kids p m) \<and> unchanged X kids nm (live m) m m'"
    if "x_allocate_node X d t name v m = (n, m')" "0 \<notin> set name" "0 \<notin> set v"
    using ok [THEN conjunct2, THEN conjunct2, THEN conjunct2, THEN conjunct1] that by blast
  show "\<exists>m'. x_append_node X p c m = Some m' \<and> live m' = live m
      \<and> (\<forall>q. kids q m' = (if q = p then kids p m @ [c] else kids q m)) \<and> unchanged X kids nm (live m) m m'"
    if "p \<in> live m" "c \<in> live m" "c \<noteq> p" "\<forall>q. c \<notin> set (kids q m)"
    using ok [THEN conjunct2, THEN conjunct2, THEN conjunct2, THEN conjunct2] that by blast
qed

section \<open>Appending\<close>

fun append_all ::
    "('m, 'n, 'a) rapidxml \<Rightarrow> nat \<Rightarrow> (bytes \<times> bytes) list \<Rightarrow> ('m, 'n) xml_world \<Rightarrow> ('m, 'n) xml_world option" where
  "append_all X d [] w = Some w"
| "append_all X d ((name, v) # ps) w = Option.bind (AppendToRoot_value X d name v w) (append_all X d ps)"

lemma append_to_root:
  assumes ok: "xml_ok X kids nm live" and D: "xdocs w d = Some D" "rnode D \<in> live (mem w)" and fo: "forest kids (mem w)"
  obtains w' n D' where "AppendToRoot_value X d name v w = Some w'" "xdocs w' d = Some D'" "rnode D' = rnode D"
    "n \<notin> live (mem w)" "live (mem w') = insert n (live (mem w))" "nm n (mem w') = c_str name" "x_value X n (mem w') = c_str v"
    "\<forall>q. kids q (mem w') = (if q = rnode D then kids (rnode D) (mem w) @ [n] else kids q (mem w))"
    "unchanged X kids nm (live (mem w)) (mem w) (mem w')" "fresh w \<le> fresh w'" "\<forall>a < fresh w. xnodes w' a = xnodes w a"
    "forest kids (mem w')"
proof -
  obtain n m1 where alloc: "x_allocate_node X (doc_node D) node_element (c_str name) (c_str v) (mem w) = (n, m1)" by (metis surj_pair)
  note a = xml_okD(4) [OF ok alloc c_str_zero_free(1,1)]
  have new: "n \<notin> set (kids q (mem w))" for q using a xml_okD(1) [OF ok, of q "mem w"] by blast
  have "rnode D \<in> live m1" "n \<in> live m1" "n \<noteq> rnode D" "\<forall>q. n \<notin> set (kids q m1)" using a D(2) new by auto
  from xml_okD(5) [OF ok this] obtain m2 where m2: "x_append_node X (rnode D) n m1 = Some m2" "live m2 = live m1"
    "\<forall>q. kids q m2 = (if q = rnode D then kids (rnode D) m1 @ [n] else kids q m1)" "unchanged X kids nm (live m1) m1 m2" by blast
  have kids2: "\<forall>q. kids q m2 = (if q = rnode D then kids (rnode D) (mem w) @ [n] else kids q (mem w))"
    using m2(3) a by simp
  have un: "unchanged X kids nm (live (mem w)) (mem w) m2"
    using m2(4) a by (auto simp: unchanged_def)
  have n2: "nm n m2 = c_str name" "x_value X n m2 = c_str v" using m2(4) a by (auto simp: unchanged_def)
  have fo2: "forest kids m2"
    using fo new unfolding forest_def by (auto simp: kids2)
  let ?N = "\<lparr>node_name = name, node_value = v, node_doc = Some d, rep_node = Some n\<rparr>"
  let ?D = "D\<lparr>sub_nodes := sub_nodes D @ [fresh w]\<rparr>"
  let ?w = "w\<lparr>xnodes := (xnodes w)(fresh w \<mapsto> ?N), fresh := fresh w + 1, mem := m2, xdocs := (xdocs w)(d \<mapsto> ?D)\<rparr>"
  have run: "AppendToRoot_value X d name v w = Some ?w"
    by (simp add: AppendToRoot_value_def AllocateNode_def S3XmlNode_new_def new_node_def append_child_def D(1) alloc m2(1) Let_def)
  show ?thesis
    by (rule that [OF run, of ?D n]) (use a n2 kids2 un fo2 m2(2) in simp_all)
qed

lemma append_all_kids:
  assumes ok: "xml_ok X kids nm live"
  shows "xdocs w d = Some D \<Longrightarrow> rnode D = r \<Longrightarrow> r \<in> live (mem w) \<Longrightarrow> forest kids (mem w) \<Longrightarrow>
    \<exists>w' ns. append_all X d ps w = Some w' \<and> kids r (mem w') = kids r (mem w) @ ns
      \<and> map (\<lambda>n. (nm n (mem w'), x_value X n (mem w'))) ns = map (map_prod c_str c_str) ps
      \<and> live (mem w) \<subseteq> live (mem w') \<and> unchanged X kids nm (live (mem w)) (mem w) (mem w')
      \<and> (\<forall>a < fresh w. xnodes w' a = xnodes w a) \<and> fresh w \<le> fresh w' \<and> forest kids (mem w')"
proof (induction ps arbitrary: w D)
  case Nil
  then show ?case by (simp add: unchanged_def)
next
  case (Cons pv ps)
  obtain name v where pv: "pv = (name, v)" by (cases pv)
  obtain w1 n D1 where w1: "AppendToRoot_value X d name v w = Some w1" "xdocs w1 d = Some D1" "rnode D1 = rnode D"
    "n \<notin> live (mem w)" "live (mem w1) = insert n (live (mem w))" "nm n (mem w1) = c_str name" "x_value X n (mem w1) = c_str v"
    "\<forall>q. kids q (mem w1) = (if q = rnode D then kids (rnode D) (mem w) @ [n] else kids q (mem w))"
    "unchanged X kids nm (live (mem w)) (mem w) (mem w1)" "fresh w \<le> fresh w1" "\<forall>a < fresh w. xnodes w1 a = xnodes w a"
    "forest kids (mem w1)"
    using Cons.prems by (auto intro: append_to_root [OF ok Cons.prems(1), of name v])
  have "r \<in> live (mem w1)" using w1(5) Cons.prems(3) by simp
  with Cons.IH [OF w1(2)] w1(3,12) Cons.prems(2) obtain w2 ns where w2: "append_all X d ps w1 = Some w2"
    "kids r (mem w2) = kids r (mem w1) @ ns" "map (\<lambda>n. (nm n (mem w2), x_value X n (mem w2))) ns = map (map_prod c_str c_str) ps"
    "live (mem w1) \<subseteq> live (mem w2)" "unchanged X kids nm (live (mem w1)) (mem w1) (mem w2)"
    "\<forall>a < fresh w1. xnodes w2 a = xnodes w1 a" "fresh w1 \<le> fresh w2" "forest kids (mem w2)" by auto
  have n2: "nm n (mem w2) = c_str name" "x_value X n (mem w2) = c_str v"
    using w2(5) w1(5-7) by (auto simp: unchanged_def)
  have un: "unchanged X kids nm (live (mem w)) (mem w) (mem w2)"
    using w2(5) w1(5,9) by (auto simp: unchanged_def)
  show ?case
    using w1(1,5,8,10,11) w2 n2 un Cons.prems(2)
    by (intro exI [of _ w2] exI [of _ "n # ns"]) (auto simp: pv)
qed

section \<open>Searching\<close>

text \<open>The loop of a client over the children with a name, for at most \<open>k\<close> of them: the values it sees.\<close>

fun collect :: "('m, 'n, 'a) rapidxml \<Rightarrow> nat \<Rightarrow> nat \<Rightarrow> ('m, 'n) xml_world \<Rightarrow> bytes list option" where
  "collect X f 0 w = Some []"
| "collect X f (Suc k) w = do {
     v \<leftarrow> value_of f w;
     (more, w) \<leftarrow> NextSibling X f w;
     if more then map_option (\<lambda>vs. v # vs) (collect X f k w) else Some [v]
   }"

definition find_all ::
    "('m, 'n, 'a) rapidxml \<Rightarrow> nat \<Rightarrow> bytes \<Rightarrow> nat \<Rightarrow> nat \<Rightarrow> ('m, 'n) xml_world \<Rightarrow> bytes list option" where
  "find_all X a name f k w = do {
     (found, w) \<leftarrow> FindFirstNode X a name f w;
     if found then collect X f k w else Some []
   }"

lemma find_None_filter: "find P xs = None \<longleftrightarrow> filter P xs = []"
  by (induction xs) auto

lemma find_Some_split:
  "find P xs = Some x \<Longrightarrow> \<exists>ys zs. xs = ys @ x # zs \<and> P x \<and> filter P xs = x # filter P zs"
proof (induction xs)
  case (Cons a xs)
  then show ?case
  proof (cases "P a")
    case False
    with Cons obtain ys zs where "xs = ys @ x # zs" "P x" "filter P xs = x # filter P zs" by auto
    with False show ?thesis by (intro exI [of _ "a # ys"] exI [of _ zs]) simp
  qed fastforce
qed simp

lemma collect_siblings:
  assumes ok: "xml_ok X kids nm live" and name: "name \<noteq> []"
  shows "forest kids (mem w) \<Longrightarrow> xnodes w f = Some F \<Longrightarrow> node_name F = name \<Longrightarrow> rep_node F = Some n \<Longrightarrow>
    node_value F = c_str (x_value X n (mem w)) \<Longrightarrow> kids p (mem w) = xs @ n # ys \<Longrightarrow> length (n # ys) \<le> k \<Longrightarrow>
    collect X f k w = Some (map (\<lambda>k. c_str (x_value X k (mem w))) (n # filter (\<lambda>k. same_name (nm k (mem w)) name) ys))"
proof (induction k arbitrary: w F n xs ys)
  case (Suc k)
  note next_law = xml_okD(3) [OF ok Suc.prems(1,6), of name]
  show ?case
  proof (cases "find (\<lambda>k. same_name (nm k (mem w)) name) ys")
    case None
    then show ?thesis
      using Suc.prems name next_law find_None_filter [THEN iffD1, OF None] by (simp add: value_of_def NextSibling_def)
  next
    case (Some n')
    from find_Some_split [OF this] obtain us vs where
      sp: "ys = us @ n' # vs" "filter (\<lambda>k. same_name (nm k (mem w)) name) ys = n' # filter (\<lambda>k. same_name (nm k (mem w)) name) vs" by blast
    let ?F = "F\<lparr>node_value := c_str (x_value X n' (mem w)), rep_node := Some n'\<rparr>"
    let ?w = "w\<lparr>xnodes := (xnodes w)(f \<mapsto> ?F)\<rparr>"
    have step: "NextSibling X f w = Some (True, ?w)"
      using Suc.prems name next_law Some by (simp add: NextSibling_def)
    have "collect X f k ?w = Some (map (\<lambda>k. c_str (x_value X k (mem ?w))) (n' # filter (\<lambda>k. same_name (nm k (mem ?w)) name) vs))"
      by (rule Suc.IH [where F = ?F and xs = "xs @ n # us"]) (use Suc.prems sp in simp_all)
    then show ?thesis using step Suc.prems sp by (simp add: value_of_def)
  qed
qed simp

lemma find_all_kids:
  assumes ok: "xml_ok X kids nm live" and name: "name \<noteq> []" and fo: "forest kids (mem w)"
    and a: "xnodes w a = Some N" "rep_node N = Some p" and f: "xnodes w f = Some F" and k: "length (kids p (mem w)) \<le> k"
  shows "find_all X a name f k w =
    Some (map (\<lambda>n. c_str (x_value X n (mem w))) (filter (\<lambda>n. same_name (nm n (mem w)) name) (kids p (mem w))))"
proof (cases "find (\<lambda>n. same_name (nm n (mem w)) name) (kids p (mem w))")
  case None
  then show ?thesis
    using a xml_okD(2) [OF ok] find_None_filter [THEN iffD1, OF None] by (simp add: find_all_def FindFirstNode_def set_found_def)
next
  case (Some n)
  from find_Some_split [OF this] obtain us vs where
    sp: "kids p (mem w) = us @ n # vs" "filter (\<lambda>n. same_name (nm n (mem w)) name) (kids p (mem w)) = n # filter (\<lambda>n. same_name (nm n (mem w)) name) vs" by blast
  let ?F = "F\<lparr>node_name := name, node_value := c_str (x_value X n (mem w)), rep_node := Some n\<rparr>"
  let ?w = "w\<lparr>xnodes := (xnodes w)(f \<mapsto> ?F)\<rparr>"
  have "FindFirstNode X a name f w = Some (True, ?w)"
    using a f Some xml_okD(2) [OF ok] by (simp add: FindFirstNode_def set_found_def)
  moreover have "collect X f k ?w = Some (map (\<lambda>k. c_str (x_value X k (mem ?w))) (n # filter (\<lambda>k. same_name (nm k (mem ?w)) name) vs))"
    by (rule collect_siblings [OF ok name, where F = ?F and p = p and xs = us]) (use fo sp k in simp_all)
  ultimately show ?thesis unfolding sp(2) by (simp add: find_all_def)
qed

text \<open>
  C21. Round trip: after any list of elements has been appended to the root of a document, which never fails, the
  loop over \<open>FindFirstNode\<close> and \<open>NextSibling\<close> sees exactly the values of those with the name, in the
  order in which they were appended and regardless of case. Names and values are cut at their first zero byte, so
  that those without one come back as they were.
\<close>

theorem s3_append_find_roundtrip:
  assumes "xml_ok X kids nm live" and "xdocs w d = Some D" "rnode D \<in> live (mem w)" "forest kids (mem w)"
    and "kids (rnode D) (mem w) = []" and "xnodes w a = Some N" "rep_node N = Some (rnode D)" "a < fresh w"
    and "xnodes w f = Some F" "f < fresh w" "name \<noteq> []"
  shows "\<exists>w'. append_all X d ps w = Some w' \<and>
    find_all X a name f (length ps) w' = Some (map (\<lambda>(k, v). c_str v) (filter (\<lambda>(k, v). same_name (c_str k) name) ps))"
proof -
  obtain w' ns where w': "append_all X d ps w = Some w'" "kids (rnode D) (mem w') = ns"
    "map (\<lambda>n. (nm n (mem w'), x_value X n (mem w'))) ns = map (map_prod c_str c_str) ps" "\<forall>a < fresh w. xnodes w' a = xnodes w a" "forest kids (mem w')"
    using append_all_kids [OF assms(1,2) refl assms(3,4), of ps] assms(5) by auto
  have nodes: "xnodes w' a = Some N" "xnodes w' f = Some F" using w'(4) assms(6,8-10) by simp_all
  have len: "length (kids (rnode D) (mem w')) \<le> length ps" using arg_cong [OF w'(3), of length] by (simp add: w'(2))
  have "find_all X a name f (length ps) w' =
      Some (map (\<lambda>n. c_str (x_value X n (mem w'))) (filter (\<lambda>n. same_name (nm n (mem w')) name) ns))"
    using find_all_kids [OF assms(1,11) w'(5) nodes(1) assms(7) nodes(2) len] by (simp add: w'(2))
  also have "map (\<lambda>n. c_str (x_value X n (mem w'))) (filter (\<lambda>n. same_name (nm n (mem w')) name) ns) = map (\<lambda>(k, v). c_str v) (filter (\<lambda>(k, v). same_name (c_str k) name) ps)"
  proof -
    have "map (\<lambda>n. c_str (x_value X n (mem w'))) (filter (\<lambda>n. same_name (nm n (mem w')) name) ns)
        = map (c_str \<circ> snd) (filter (\<lambda>(k, v). same_name k name) (map (\<lambda>n. (nm n (mem w'), x_value X n (mem w'))) ns))"
      by (simp add: filter_map comp_def)
    also have "\<dots> = map (\<lambda>(k, v). c_str v) (filter (\<lambda>(k, v). same_name (c_str k) name) ps)"
      unfolding w'(3) by (simp add: filter_map comp_def split_def)
    finally show ?thesis .
  qed
  finally show ?thesis using w'(1) by blast
qed

text \<open>
  A node that \<open>FindFirstNode\<close> has put into a node of the client has no document: appending an element by
  name and value to it dereferences null.
\<close>

theorem found_node_has_no_document:
  assumes "xnodes w f = Some F" "node_doc F = None" and "FindFirstNode X a name f w = Some (True, w')"
  shows "rep_node (the (xnodes w' f)) \<noteq> None \<and> AppendNode_value X f k v w' = None"
proof -
  from assms(3) obtain N p where "xnodes w a = Some N" "rep_node N = Some p" "set_found X name (x_first_node X p name False (mem w)) f w = Some (True, w')"
    by (auto simp: FindFirstNode_def split: Option.bind_splits)
  then obtain n where "w' = w\<lparr>xnodes := (xnodes w)(f \<mapsto> F\<lparr>node_name := name, node_value := c_str (x_value X n (mem w)), rep_node := Some n\<rparr>)\<rparr>"
    using assms(1) by (auto simp: set_found_def split: option.splits)
  then show ?thesis using assms(2) by (simp add: AppendNode_value_def)
qed

section \<open>The properties at concrete inputs\<close>

text \<open>
  A small XML memory: the number of nodes, the parent of a node and the children, names and values.
\<close>

record toy_xml =
  t_next :: nat
  t_kids :: "nat \<Rightarrow> nat list"
  t_name :: "nat \<Rightarrow> bytes"
  t_value :: "nat \<Rightarrow> bytes"

definition toy_kids :: "nat \<Rightarrow> toy_xml \<Rightarrow> nat list" where
  "toy_kids p m = (if p < t_next m then filter (\<lambda>n. n < t_next m) (t_kids m p) else [])"

definition toy_live :: "toy_xml \<Rightarrow> nat set" where
  "toy_live m = {n. n < t_next m}"

definition toy_new :: "bytes \<Rightarrow> bytes \<Rightarrow> toy_xml \<Rightarrow> nat \<times> toy_xml" where
  "toy_new name v m = (t_next m, m\<lparr>t_next := t_next m + 1, t_kids := (\<lambda>p. toy_kids p m),
     t_name := (t_name m)(t_next m := name), t_value := (t_value m)(t_next m := v)\<rparr>)"

definition toy_parent :: "nat \<Rightarrow> toy_xml \<Rightarrow> nat option" where
  "toy_parent n m = find (\<lambda>p. n \<in> set (toy_kids p m)) [0..<t_next m]"

definition toy_xml :: "(toy_xml, nat, unit) rapidxml" where
  "toy_xml = \<lparr>x_document = toy_new [] [], x_allocate_node = (\<lambda>d t name v m. toy_new name v m),
     x_allocate_attribute = (\<lambda>d name v m. ((), m)), x_append_attribute = (\<lambda>n a m. m),
     x_append_node = (\<lambda>p c m. Some (m\<lparr>t_kids := (t_kids m)(p := t_kids m p @ [c])\<rparr>)),
     x_first_node = (\<lambda>p name cs m. find (\<lambda>n. same_name (t_name m n) name) (toy_kids p m)),
     x_next_sibling = (\<lambda>n name cs m. Option.bind (toy_parent n m)
        (\<lambda>p. find (\<lambda>k. same_name (t_name m k) name) (tl (dropWhile (\<lambda>k. k \<noteq> n) (toy_kids p m))))),
     x_value = (\<lambda>n m. t_value m n), x_parse = (\<lambda>d s m. (False, m)), x_print = (\<lambda>d m. []), x_free = (\<lambda>d m. m)\<rparr>"

lemma toy_siblings:
  assumes "forest toy_kids m" "toy_kids p m = xs @ n # ys"
  shows "toy_parent n m = Some p" "tl (dropWhile (\<lambda>k. k \<noteq> n) (toy_kids p m)) = ys"
proof -
  have p: "n \<in> set (toy_kids p m)" using assms(2) by simp
  then have lt: "p < t_next m" by (auto simp: toy_kids_def split: if_splits)
  have uniq: "q = p" if "n \<in> set (toy_kids q m)" for q using assms(1) p that unfolding forest_def by blast
  from p lt obtain q where "toy_parent n m = Some q" unfolding toy_parent_def
    by (cases "find (\<lambda>p. n \<in> set (toy_kids p m)) [0..<t_next m]") (auto simp: find_None_iff)
  moreover from this have "n \<in> set (toy_kids q m)" unfolding toy_parent_def by (auto simp: find_Some_iff)
  ultimately show "toy_parent n m = Some p" using uniq by simp
  have "distinct (xs @ n # ys)" using assms unfolding forest_def by metis
  then have "\<forall>x \<in> set xs. x \<noteq> n" by auto
  then show "tl (dropWhile (\<lambda>k. k \<noteq> n) (toy_kids p m)) = ys" unfolding assms(2) by simp
qed

lemma toy_xml_ok: "xml_ok toy_xml toy_kids (\<lambda>n m. t_name m n) toy_live"
  unfolding xml_ok_def
proof (intro conjI allI impI)
  show "set (toy_kids p m) \<subseteq> toy_live m" for p m by (auto simp: toy_kids_def toy_live_def)
  show "x_first_node toy_xml p name False m = find (\<lambda>n. same_name (t_name m n) name) (toy_kids p m)" for p name m
    by (simp add: toy_xml_def)
  show "x_next_sibling toy_xml n name False m = find (\<lambda>k. same_name (t_name m k) name) ys"
    if "forest toy_kids m" "toy_kids p m = xs @ n # ys" for p m xs n ys name
    using toy_siblings [OF that] by (simp add: toy_xml_def)
next
  fix d t name v m n m' assume "x_allocate_node toy_xml d t name v m = (n, m')"
  then have "(n, m') = toy_new name v m" by (simp add: toy_xml_def)
  then show "n \<notin> toy_live m" "toy_live m' = insert n (toy_live m)" "t_name m' n = name" "x_value toy_xml n m' = v"
    "\<And>p. toy_kids p m' = toy_kids p m" "unchanged toy_xml toy_kids (\<lambda>n m. t_name m n) (toy_live m) m m'"
    by (auto simp: toy_new_def toy_live_def toy_xml_def toy_kids_def unchanged_def intro!: filter_cong)
next
  fix p c m assume "p \<in> toy_live m" "c \<in> toy_live m"
  then show "\<exists>m'. x_append_node toy_xml p c m = Some m' \<and> toy_live m' = toy_live m
      \<and> (\<forall>q. toy_kids q m' = (if q = p then toy_kids p m @ [c] else toy_kids q m))
      \<and> unchanged toy_xml toy_kids (\<lambda>n m. t_name m n) (toy_live m) m m'"
    by (auto simp: toy_xml_def toy_live_def toy_kids_def unchanged_def)
qed

text \<open>A document whose root is the node 0, and two nodes of the client.\<close>

definition toy_world :: "(toy_xml, nat) xml_world" where
  "toy_world = \<lparr>xnodes = [1 \<mapsto> \<lparr>node_name = [], node_value = [], node_doc = None, rep_node = Some 0\<rparr>,
       2 \<mapsto> \<lparr>node_name = [], node_value = [], node_doc = None, rep_node = None\<rparr>],
     xdocs = [0 \<mapsto> \<lparr>rnode_str = [], rnode_value = [], rnode = 0, doc_node = 1, sub_nodes = []\<rparr>], fresh = 3,
     mem = \<lparr>t_next = 2, t_kids = (\<lambda>_. []), t_name = (\<lambda>_. []), t_value = (\<lambda>_. [])\<rparr>\<rparr>"

theorem s3_append_find_roundtrip_witness:
  "\<exists>w'. append_all toy_xml 0 [([75], [1]), ([90], [2]), ([107], [3, 0, 4])] toy_world = Some w' \<and>
    find_all toy_xml 1 [75] 2 3 w' = Some [[1], [3]]"
proof -
  have "forest toy_kids (mem toy_world)" by (simp add: forest_def toy_kids_def toy_world_def)
  from s3_append_find_roundtrip [where d = 0 and a = 1 and f = 2 and name = "[75]" and ps = "[([75], [1]), ([90], [2]), ([107], [3, 0, 4])]"
      and w = toy_world, OF toy_xml_ok _ _ this]
  show ?thesis by (simp add: toy_world_def toy_live_def toy_kids_def same_name_def c_str_def numeral_3_eq_3)
qed

theorem found_node_has_no_document_witness:
  "\<exists>w w'. FindFirstNode toy_xml 1 [75] 2 w = Some (True, w') \<and> AppendNode_value toy_xml 2 [75] [] w' = None"
proof -
  have "\<exists>w w'. append_all toy_xml 0 [([75], [1])] toy_world = Some w \<and> FindFirstNode toy_xml 1 [75] 2 w = Some (True, w')
      \<and> xnodes w 2 = Some \<lparr>node_name = [], node_value = [], node_doc = None, rep_node = None\<rparr>"
    by (simp add: toy_world_def AppendToRoot_value_def AllocateNode_def S3XmlNode_new_def new_node_def append_child_def toy_xml_def
        toy_new_def toy_kids_def FindFirstNode_def set_found_def same_name_def c_str_def)
  then obtain w w' where w: "FindFirstNode toy_xml 1 [75] 2 w = Some (True, w')"
    "xnodes w 2 = Some \<lparr>node_name = [], node_value = [], node_doc = None, rep_node = None\<rparr>" by blast
  from found_node_has_no_document [OF w(2) _ w(1), of "[75]" "[]"] w(1) show ?thesis by auto
qed

end
