(* ===== verification/S3_Demo.thy ===== *)
theory S3_Demo
  imports S3_Xml_Props
begin

text \<open>
  The demo of \<open>s3xml/main.cc\<close>: the answer to a listing of a bucket, built node by node. The clock values
  that it prints are left out. The document that it builds is described here down to the children of the
  listed objects.
\<close>

section \<open>The program\<close>

text \<open>\<open>doc.AppendToRoot (doc.AllocateNode (name, value))\<close> and \<open>node->AppendNode (doc.AllocateNode (name, value))\<close>.\<close>

definition add_to_root ::
    "('m, 'n, 'a) rapidxml \<Rightarrow> nat \<Rightarrow> bytes \<times> bytes \<Rightarrow> ('m, 'n) xml_world \<Rightarrow> ('m, 'n) xml_world option" where
  "add_to_root X d f w = do {
     (c, w) \<leftarrow> AllocateNode X d (fst f) (snd f) w;
     AppendToRoot X d c w
   }"

definition add_to_node ::
    "('m, 'n, 'a) rapidxml \<Rightarrow> nat \<Rightarrow> nat \<Rightarrow> bytes \<times> bytes \<Rightarrow> ('m, 'n) xml_world \<Rightarrow> ('m, 'n) xml_world option" where
  "add_to_node X d a f w = do {
     (c, w) \<leftarrow> AllocateNode X d (fst f) (snd f) w;
     AppendNode X a c w
   }"

fun in_order :: "('b \<Rightarrow> 'w \<Rightarrow> 'w option) \<Rightarrow> 'b list \<Rightarrow> 'w \<Rightarrow> 'w option" where
  "in_order f [] w = Some w"
| "in_order f (x # xs) w = Option.bind (f x w) (in_order f xs)"

definition field :: "string \<Rightarrow> string \<Rightarrow> bytes \<times> bytes" where
  "field name value = (xml_chars name, xml_chars value)"

definition listing_fields :: "(bytes \<times> bytes) list" where
  "listing_fields =
     [field ''Name'' ''test_bucket'', field ''Prefix'' ''/abc'', field ''MaxKeys'' ''1000'', field ''Delimiter'' ''/'',
      field ''ContinuationToken'' ''/abc/ccc'', field ''NextContinuationToken'' ''/abc/zzz'',
      field ''StartAfter'' ''/abc/aaa'', field ''KeyCount'' ''998'', field ''IsTruncated'' ''true'']"

definition object_fields :: "(bytes \<times> bytes) list" where
  "object_fields =
     [field ''Key'' ''test_object'', field ''LastModified'' ''1223415445657574'',
      (xml_chars ''ETag'', [34] @ xml_chars ''abcdefghijklmnopqrstuvwxyz'' @ [34]),
      field ''Size'' ''1234567'', field ''StorageClass'' ''STANDARD'']"

definition owner_fields :: "(bytes \<times> bytes) list" where
  "owner_fields = [field ''ID'' ''xxxxxxxxxxxxx'', field ''DisplayName'' ''test_user'']"

text \<open>One round of the loop.\<close>

definition add_contents ::
    "('m, 'n, 'a) rapidxml \<Rightarrow> nat \<Rightarrow> ('m, 'n) xml_world \<Rightarrow> ('m, 'n) xml_world option" where
  "add_contents X d w = do {
     (contents, w) \<leftarrow> AllocateNode X d (xml_chars ''Contents'') [] w;
     w \<leftarrow> in_order (add_to_node X d contents) object_fields w;
     (owner, w) \<leftarrow> AllocateNode X d (xml_chars ''Owner'') [] w;
     w \<leftarrow> in_order (add_to_node X d owner) owner_fields w;
     w \<leftarrow> AppendNode X contents owner w;
     AppendToRoot X d contents w
   }"

fun contents_loop ::
    "nat \<Rightarrow> ('m, 'n, 'a) rapidxml \<Rightarrow> nat \<Rightarrow> ('m, 'n) xml_world \<Rightarrow> ('m, 'n) xml_world option" where
  "contents_loop 0 X d w = Some w"
| "contents_loop (Suc k) X d w = Option.bind (add_contents X d w) (contents_loop k X d)"

text \<open>The document before it is printed, its address, and the whole function \<open>test\<close>, which prints and destroys it.\<close>

definition build_listing ::
    "nat \<Rightarrow> ('m, 'n, 'a) rapidxml \<Rightarrow> ('m, 'n) xml_world \<Rightarrow> (nat \<times> ('m, 'n) xml_world) option" where
  "build_listing k X w = do {
     (d, w) \<leftarrow> S3XmlDoc_new X (xml_chars ''ListBucketResult'') [] w;
     w \<leftarrow> in_order (add_to_root X d) listing_fields w;
     w \<leftarrow> contents_loop k X d w;
     Some (d, w)
   }"

definition s3_test :: "('m, 'n, 'a) rapidxml \<Rightarrow> ('m, 'n) xml_world \<Rightarrow> (bytes \<times> ('m, 'n) xml_world) option" where
  "s3_test X w = do {
     (d, w) \<leftarrow> build_listing 2000 X w;
     info \<leftarrow> ToString X d w;
     w \<leftarrow> delete_doc X d w;
     Some (info, w)
   }"

section \<open>What is relied on\<close>

text \<open>
  A new document is a new node; attributes change no node's children, name or value; only nodes that there
  are have children.
\<close>

definition document_ok ::
    "('m, 'n, 'a) rapidxml \<Rightarrow> ('n \<Rightarrow> 'm \<Rightarrow> 'n list) \<Rightarrow> ('n \<Rightarrow> 'm \<Rightarrow> bytes) \<Rightarrow> ('m \<Rightarrow> 'n set) \<Rightarrow> bool" where
  "document_ok X kids nm live \<longleftrightarrow>
     (\<forall>m n m'. x_document X m = (n, m') \<longrightarrow>
        n \<notin> live m \<and> live m' = insert n (live m) \<and> (\<forall>p. kids p m' = kids p m) \<and> unchanged X kids nm (live m) m m')
   \<and> (\<forall>d name v m a m'. x_allocate_attribute X d name v m = (a, m') \<longrightarrow>
        live m' = live m \<and> (\<forall>p. kids p m' = kids p m) \<and> unchanged X kids nm (live m) m m')
   \<and> (\<forall>n a m. let m' = x_append_attribute X n a m in
        live m' = live m \<and> (\<forall>p. kids p m' = kids p m) \<and> unchanged X kids nm (live m) m m')
   \<and> (\<forall>p m. p \<notin> live m \<longrightarrow> kids p m = [])"

section \<open>Memory that only grows\<close>

definition root_of :: "('m, 'n) xml_world \<Rightarrow> nat \<Rightarrow> 'n option" where
  "root_of w d = map_option rnode (xdocs w d)"

text \<open>
  \<open>grown A w w'\<close>: from \<open>w\<close> to \<open>w'\<close> nodes were added, and of the old ones only those in \<open>A\<close> got further children.
\<close>

definition grown ::
    "('m, 'n, 'a) rapidxml \<Rightarrow> ('n \<Rightarrow> 'm \<Rightarrow> 'n list) \<Rightarrow> ('n \<Rightarrow> 'm \<Rightarrow> bytes) \<Rightarrow> ('m \<Rightarrow> 'n set) \<Rightarrow> nat \<Rightarrow> 'n set
      \<Rightarrow> ('m, 'n) xml_world \<Rightarrow> ('m, 'n) xml_world \<Rightarrow> bool" where
  "grown X kids nm live d A w w' \<longleftrightarrow>
     live (mem w) \<subseteq> live (mem w') \<and> unchanged X kids nm (live (mem w)) (mem w) (mem w')
   \<and> (\<forall>q \<in> live (mem w). q \<notin> A \<longrightarrow> kids q (mem w') = kids q (mem w))
   \<and> (\<forall>a < fresh w. xnodes w' a = xnodes w a) \<and> fresh w \<le> fresh w' \<and> root_of w' d = root_of w d"

lemma grown_refl: "grown X kids nm live d A w w"
  by (simp add: grown_def unchanged_def)

lemma grown_trans:
  assumes "grown X kids nm live d A w w'" "grown X kids nm live d B w' w''" "B \<inter> live (mem w) \<subseteq> A"
  shows "grown X kids nm live d A w w''"
proof -
  have "kids q (mem w'') = kids q (mem w)" if "q \<in> live (mem w)" "q \<notin> A" for q
  proof -
    have "q \<in> live (mem w')" "q \<notin> B" using that assms by (auto simp: grown_def)
    then show ?thesis using that assms(1,2) by (simp add: grown_def)
  qed
  moreover have "unchanged X kids nm (live (mem w)) (mem w) (mem w'')"
    using assms(1,2) by (auto simp: grown_def unchanged_def subset_eq)
  ultimately show ?thesis using assms(1,2) by (auto simp: grown_def)
qed

lemma grown_mono: "grown X kids nm live d A w w' \<Longrightarrow> A \<subseteq> B \<Longrightarrow> grown X kids nm live d B w w'"
  by (auto simp: grown_def)

text \<open>Nodes that no one has as a child yet.\<close>

definition loose :: "('n \<Rightarrow> 'm \<Rightarrow> 'n list) \<Rightarrow> 'n \<Rightarrow> 'm \<Rightarrow> bool" where
  "loose kids n m \<longleftrightarrow> (\<forall>q. n \<notin> set (kids q m))"

lemma allocated:
  assumes ok: "xml_ok X kids nm live" "document_ok X kids nm live" and D: "root_of w d = Some r"
    and fo: "forest kids (mem w)"
  obtains w' n where "AllocateNode X d name v w = Some (fresh w, w')"
    "xnodes w' (fresh w) = Some \<lparr>node_name = name, node_value = v, node_doc = Some d, rep_node = Some n\<rparr>"
    "fresh w < fresh w'" "n \<notin> live (mem w)" "n \<in> live (mem w')" "nm n (mem w') = c_str name"
    "x_value X n (mem w') = c_str v" "grown X kids nm live d {} w w'" "loose kids n (mem w')" "kids n (mem w') = []"
    "forest kids (mem w')" "\<forall>q. kids q (mem w') = kids q (mem w)"
proof -
  obtain D where D': "xdocs w d = Some D" "rnode D = r" using D by (auto simp: root_of_def)
  obtain n m1 where alloc: "x_allocate_node X (doc_node D) node_element (c_str name) (c_str v) (mem w) = (n, m1)" by (metis surj_pair)
  note a = xml_okD(4) [OF ok(1) alloc c_str_zero_free(1,1)]
  have new: "n \<notin> set (kids q (mem w))" for q using a xml_okD(1) [OF ok(1), of q "mem w"] by blast
  have none: "kids n (mem w) = []" using ok(2) a unfolding document_ok_def by blast
  let ?N = "\<lparr>node_name = name, node_value = v, node_doc = Some d, rep_node = Some n\<rparr>"
  let ?D = "D\<lparr>sub_nodes := sub_nodes D @ [fresh w]\<rparr>"
  let ?w = "w\<lparr>xnodes := (xnodes w)(fresh w \<mapsto> ?N), fresh := fresh w + 1, mem := m1, xdocs := (xdocs w)(d \<mapsto> ?D)\<rparr>"
  have "AllocateNode X d name v w = Some (fresh w, ?w)"
    by (simp add: AllocateNode_def S3XmlNode_new_def new_node_def D' alloc Let_def)
  moreover have "grown X kids nm live d {} w ?w"
    using a D' by (auto simp: grown_def root_of_def)
  moreover have "forest kids m1" using fo a unfolding forest_def by simp
  ultimately show ?thesis using a new none by (intro that [of ?w n]) (simp_all add: loose_def)
qed

lemma attached:
  assumes ok: "xml_ok X kids nm live" and c: "xnodes w c = Some C" "rep_node C = Some n"
    and p: "p \<in> live (mem w)" "n \<in> live (mem w)" "n \<noteq> p" "loose kids n (mem w)" and fo: "forest kids (mem w)"
  obtains w' where "append_child X p c w = Some w'" "live (mem w') = live (mem w)"
    "\<forall>q. kids q (mem w') = (if q = p then kids p (mem w) @ [n] else kids q (mem w))"
    "grown X kids nm live d {p} w w'" "xnodes w' = xnodes w" "fresh w' = fresh w" "forest kids (mem w')"
proof -
  from xml_okD(5) [OF ok p(1-3)] p(4) obtain m where m: "x_append_node X p n (mem w) = Some m" "live m = live (mem w)"
    "\<forall>q. kids q m = (if q = p then kids p (mem w) @ [n] else kids q (mem w))" "unchanged X kids nm (live (mem w)) (mem w) m"
    unfolding loose_def by blast
  let ?w = "w\<lparr>mem := m\<rparr>"
  have "append_child X p c w = Some ?w" using c m(1) by (simp add: append_child_def)
  moreover have "grown X kids nm live d {p} w ?w" using m by (simp add: grown_def root_of_def)
  moreover have "forest kids m" using fo p(4) unfolding forest_def loose_def by (auto simp: m(3))
  ultimately show ?thesis using m(2,3) by (intro that [of ?w]) simp_all
qed

lemma loose_grown:
  assumes "loose kids n (mem w)" "\<forall>q. set (kids q (mem w')) \<subseteq> set (kids q (mem w)) \<union> M" "n \<notin> M"
  shows "loose kids n (mem w')"
  using assms unfolding loose_def by blast

text \<open>A sequence of new nodes below \<open>p\<close>, by way of the operation \<open>add\<close>.\<close>

definition pairs ::
    "('m, 'n, 'a) rapidxml \<Rightarrow> ('n \<Rightarrow> 'm \<Rightarrow> bytes) \<Rightarrow> 'n list \<Rightarrow> 'm \<Rightarrow> (bytes \<times> bytes) list" where
  "pairs X nm ns m = map (\<lambda>n. (nm n m, x_value X n m)) ns"

lemma pairs_unchanged:
  "unchanged X kids nm (live m) m m' \<Longrightarrow> set ns \<subseteq> live m \<Longrightarrow> pairs X nm ns m' = pairs X nm ns m"
  by (auto simp: pairs_def unchanged_def)

lemma add_child:
  assumes ok: "xml_ok X kids nm live" "document_ok X kids nm live" and D: "root_of w d = Some r"
    and fo: "forest kids (mem w)" and p: "p \<in> live (mem w)"
  obtains c w1 w' n where "AllocateNode X d (fst f) (snd f) w = Some (c, w1)" "append_child X p c w1 = Some w'"
    "\<forall>a < fresh w. xnodes w1 a = xnodes w a" "root_of w1 d = Some r"
    "n \<notin> live (mem w)" "n \<in> live (mem w')" "(nm n (mem w'), x_value X n (mem w')) = map_prod c_str c_str f"
    "\<forall>q. kids q (mem w') = (if q = p then kids p (mem w) @ [n] else kids q (mem w))"
    "grown X kids nm live d {p} w w'" "forest kids (mem w')"
proof -
  obtain w1 n where a: "AllocateNode X d (fst f) (snd f) w = Some (fresh w, w1)"
    "xnodes w1 (fresh w) = Some \<lparr>node_name = fst f, node_value = snd f, node_doc = Some d, rep_node = Some n\<rparr>"
    "n \<notin> live (mem w)" "n \<in> live (mem w1)" "nm n (mem w1) = c_str (fst f)" "x_value X n (mem w1) = c_str (snd f)"
    "grown X kids nm live d {} w w1" "loose kids n (mem w1)" "forest kids (mem w1)"
    "\<forall>q. kids q (mem w1) = kids q (mem w)"
    by (rule allocated [OF ok D fo, of "fst f" "snd f"])
  have p1: "p \<in> live (mem w1)" "n \<noteq> p" using a(3,7) p by (auto simp: grown_def)
  obtain w2 where b: "append_child X p (fresh w) w1 = Some w2" "live (mem w2) = live (mem w1)"
    "\<forall>q. kids q (mem w2) = (if q = p then kids p (mem w1) @ [n] else kids q (mem w1))"
    "grown X kids nm live d {p} w1 w2" "xnodes w2 = xnodes w1" "forest kids (mem w2)"
    by (rule attached [OF ok(1) a(2) _ p1(1) a(4) p1(2) a(8,9), where d = d]) simp_all
  show ?thesis
  proof (rule that [OF a(1) b(1) _ _ a(3)])
    show "\<forall>a < fresh w. xnodes w1 a = xnodes w a" "root_of w1 d = Some r" using a(7) D by (auto simp: grown_def)
    show "n \<in> live (mem w2)" using a(4) b(2) by simp
    show "(nm n (mem w2), x_value X n (mem w2)) = map_prod c_str c_str f"
      using a(4-6) b(4) by (cases f) (simp add: grown_def unchanged_def)
    show "\<forall>q. kids q (mem w2) = (if q = p then kids p (mem w) @ [n] else kids q (mem w))" using b(3) a(10) by simp
    show "grown X kids nm live d {p} w w2"
      using grown_trans [OF grown_mono [OF a(7), of "{p}"] b(4)] by simp
    show "forest kids (mem w2)" by (rule b(6))
  qed
qed

lemma allocation_keeps:
  assumes "AllocateNode X d name v w = Some (c, w1)"
  shows "a < fresh w \<Longrightarrow> xnodes w1 a = xnodes w a" "root_of w1 d' = root_of w d'"
  using assms
  by (auto simp: AllocateNode_def S3XmlNode_new_def new_node_def root_of_def Let_def
      split: Option.bind_splits prod.splits)

lemma add_all:
  assumes ok: "xml_ok X kids nm live" "document_ok X kids nm live"
    and add: "\<And>f w. S w \<Longrightarrow> add f w = Option.bind (AllocateNode X d (fst f) (snd f) w) (\<lambda>(c, w). append_child X p c w)"
    and S: "\<And>w w'. S w \<Longrightarrow> grown X kids nm live d {p} w w' \<Longrightarrow> S w'"
  shows "S w \<Longrightarrow> root_of w d = Some r \<Longrightarrow> forest kids (mem w) \<Longrightarrow> p \<in> live (mem w) \<Longrightarrow>
    \<exists>w' ns. in_order add fs w = Some w' \<and> kids p (mem w') = kids p (mem w) @ ns \<and> pairs X nm ns (mem w') = map (map_prod c_str c_str) fs
      \<and> set ns \<inter> live (mem w) = {} \<and> set ns \<subseteq> live (mem w') \<and> grown X kids nm live d {p} w w'
      \<and> forest kids (mem w') \<and> (\<forall>q. q \<noteq> p \<longrightarrow> kids q (mem w') = kids q (mem w))"
proof (induction fs arbitrary: w)
  case Nil
  then show ?case by (simp add: pairs_def grown_refl)
next
  case (Cons f fs)
  obtain c w1 w2 n where 1: "AllocateNode X d (fst f) (snd f) w = Some (c, w1)" "append_child X p c w1 = Some w2"
    "n \<notin> live (mem w)" "n \<in> live (mem w2)" "(nm n (mem w2), x_value X n (mem w2)) = map_prod c_str c_str f"
    "\<forall>q. kids q (mem w2) = (if q = p then kids p (mem w) @ [n] else kids q (mem w))"
    "grown X kids nm live d {p} w w2" "forest kids (mem w2)"
    by (rule add_child [OF ok Cons.prems(2,3,4), of f])
  have step: "add f w = Some w2" using add [OF Cons.prems(1)] 1(1,2) by simp
  have "S w2" "root_of w2 d = Some r" "p \<in> live (mem w2)"
    using S [OF Cons.prems(1) 1(7)] 1(7) Cons.prems(2,4) by (auto simp: grown_def)
  from Cons.IH [OF this(1,2) 1(8) this(3)] obtain w' ns where 2: "in_order add fs w2 = Some w'"
    "kids p (mem w') = kids p (mem w2) @ ns" "pairs X nm ns (mem w') = map (map_prod c_str c_str) fs"
    "set ns \<inter> live (mem w2) = {}" "set ns \<subseteq> live (mem w')" "grown X kids nm live d {p} w2 w'"
    "forest kids (mem w')" "\<forall>q. q \<noteq> p \<longrightarrow> kids q (mem w') = kids q (mem w2)" by blast
  have "(nm n (mem w'), x_value X n (mem w')) = map_prod c_str c_str f" using 1(4,5) 2(6) by (simp add: grown_def unchanged_def)
  moreover have "grown X kids nm live d {p} w w'" using grown_trans [OF 1(7) 2(6)] by simp
  moreover have "live (mem w) \<subseteq> live (mem w2)" "n \<in> live (mem w')" using 1(4,7) 2(6) by (auto simp: grown_def)
  ultimately show ?case
    using step 1(3,6) 2 by (intro exI [of _ w'] exI [of _ "n # ns"]) (auto simp: pairs_def)
qed

lemma add_all_to_root:
  assumes ok: "xml_ok X kids nm live" "document_ok X kids nm live"
    and w: "root_of w d = Some r" "forest kids (mem w)" "r \<in> live (mem w)"
  shows "\<exists>w' ns. in_order (add_to_root X d) fs w = Some w' \<and> kids r (mem w') = kids r (mem w) @ ns
    \<and> pairs X nm ns (mem w') = map (map_prod c_str c_str) fs \<and> set ns \<inter> live (mem w) = {} \<and> set ns \<subseteq> live (mem w')
    \<and> grown X kids nm live d {r} w w' \<and> forest kids (mem w') \<and> (\<forall>q. q \<noteq> r \<longrightarrow> kids q (mem w') = kids q (mem w))"
proof (rule add_all [OF ok, where S = "\<lambda>w. root_of w d = Some r"], goal_cases)
  case (1 f w)
  then show ?case
  proof (cases "AllocateNode X d (fst f) (snd f) w")
    case (Some cw)
    obtain c w1 where cw: "cw = (c, w1)" by (cases cw)
    with Some 1 allocation_keeps(2) [of X d "fst f" "snd f" w c w1 d] have "root_of w1 d = Some r" by simp
    with Some cw show ?thesis by (auto simp: add_to_root_def AppendToRoot_def root_of_def)
  qed (simp add: add_to_root_def)
qed (use w in \<open>auto simp: grown_def\<close>)

lemma add_all_to_node:
  assumes ok: "xml_ok X kids nm live" "document_ok X kids nm live"
    and w: "root_of w d = Some r" "forest kids (mem w)" "p \<in> live (mem w)"
    and a: "xnodes w a = Some N" "rep_node N = Some p" "a < fresh w"
  shows "\<exists>w' ns. in_order (add_to_node X d a) fs w = Some w' \<and> kids p (mem w') = kids p (mem w) @ ns
    \<and> pairs X nm ns (mem w') = map (map_prod c_str c_str) fs \<and> set ns \<inter> live (mem w) = {} \<and> set ns \<subseteq> live (mem w')
    \<and> grown X kids nm live d {p} w w' \<and> forest kids (mem w') \<and> (\<forall>q. q \<noteq> p \<longrightarrow> kids q (mem w') = kids q (mem w))"
proof (rule add_all [OF ok, where S = "\<lambda>w. xnodes w a = Some N \<and> a < fresh w"], goal_cases)
  case (1 f w)
  then show ?case
  proof (cases "AllocateNode X d (fst f) (snd f) w")
    case (Some cw)
    obtain c w1 where cw: "cw = (c, w1)" by (cases cw)
    with Some 1 allocation_keeps(1) [of X d "fst f" "snd f" w c w1 a] have "xnodes w1 a = Some N" by simp
    with Some cw a(2) show ?thesis by (simp add: add_to_node_def AppendNode_def)
  qed (simp add: add_to_node_def)
qed (use w a in \<open>auto simp: grown_def\<close>)

section \<open>One listed object\<close>

text \<open>What one round of the loop has built below the root.\<close>

definition listed ::
    "('m, 'n, 'a) rapidxml \<Rightarrow> ('n \<Rightarrow> 'm \<Rightarrow> 'n list) \<Rightarrow> ('n \<Rightarrow> 'm \<Rightarrow> bytes) \<Rightarrow> 'm \<Rightarrow> 'n \<Rightarrow> bool" where
  "listed X kids nm m c \<longleftrightarrow>
     nm c m = xml_chars ''Contents'' \<and> x_value X c m = []
     \<and> (\<exists>ns owner. kids c m = ns @ [owner] \<and> pairs X nm ns m = object_fields
       \<and> nm owner m = xml_chars ''Owner'' \<and> x_value X owner m = [] \<and> pairs X nm (kids owner m) m = owner_fields)"

text \<open>A new node that is filled with fields; both parts of an entry are made in this way.\<close>

text \<open>The strings of the demo have no zero bytes.\<close>

lemma demo_strings:
  "c_str (xml_chars ''Contents'') = xml_chars ''Contents''" "c_str (xml_chars ''Owner'') = xml_chars ''Owner''"
  "c_str (xml_chars ''ListBucketResult'') = xml_chars ''ListBucketResult''"
  "map (map_prod c_str c_str) object_fields = object_fields" "map (map_prod c_str c_str) owner_fields = owner_fields"
  "map (map_prod c_str c_str) listing_fields = listing_fields"
  by code_simp+

lemma filled_node:
  assumes ok: "xml_ok X kids nm live" "document_ok X kids nm live" and r: "root_of w d = Some r" and fo: "forest kids (mem w)"
    and strings: "c_str name = name" "map (map_prod c_str c_str) fs = fs"
  obtains w1 w2 n ns where "AllocateNode X d name [] w = Some (fresh w, w1)"
    "in_order (add_to_node X d (fresh w)) fs w1 = Some w2"
    "xnodes w2 (fresh w) = Some \<lparr>node_name = name, node_value = [], node_doc = Some d, rep_node = Some n\<rparr>"
    "fresh w < fresh w2" "n \<notin> live (mem w)" "n \<in> live (mem w2)" "nm n (mem w2) = name" "x_value X n (mem w2) = []"
    "kids n (mem w2) = ns" "pairs X nm ns (mem w2) = fs" "set ns \<inter> live (mem w) = {}" "set ns \<subseteq> live (mem w2)"
    "grown X kids nm live d {} w w2" "loose kids n (mem w2)" "forest kids (mem w2)"
    "\<forall>q. q \<noteq> n \<longrightarrow> kids q (mem w2) = kids q (mem w)"
proof -
  obtain w1 n where 1: "AllocateNode X d name [] w = Some (fresh w, w1)"
    "xnodes w1 (fresh w) = Some \<lparr>node_name = name, node_value = [], node_doc = Some d, rep_node = Some n\<rparr>"
    "fresh w < fresh w1" "n \<notin> live (mem w)" "n \<in> live (mem w1)" "nm n (mem w1) = name"
    "x_value X n (mem w1) = []" "grown X kids nm live d {} w w1" "loose kids n (mem w1)" "kids n (mem w1) = []"
    "forest kids (mem w1)" "\<forall>q. kids q (mem w1) = kids q (mem w)"
    using strings(1) by (auto intro: allocated [OF ok r fo, of name "[]"])
  have r1: "root_of w1 d = Some r" using 1(8) r by (simp add: grown_def)
  from add_all_to_node [OF ok r1 1(11,5,2) _ 1(3), of fs]
  obtain w2 ns where 2: "in_order (add_to_node X d (fresh w)) fs w1 = Some w2" "kids n (mem w2) = ns"
    "pairs X nm ns (mem w2) = fs" "set ns \<inter> live (mem w1) = {}" "set ns \<subseteq> live (mem w2)"
    "grown X kids nm live d {n} w1 w2" "forest kids (mem w2)" "\<forall>q. q \<noteq> n \<longrightarrow> kids q (mem w2) = kids q (mem w1)"
    using strings(2) by (auto simp: 1(10))
  have "loose kids n (mem w2)" using 1(5,9) 2(2,4,8) unfolding loose_def by (metis disjoint_iff)
  moreover have "{n} \<inter> live (mem w) \<subseteq> {}" using 1(4) by simp
  then have "grown X kids nm live d {} w w2" by (rule grown_trans [OF 1(8) 2(6)])
  moreover have "n \<in> live (mem w2)" "nm n (mem w2) = name" "x_value X n (mem w2) = []"
    using 1(5-7) 2(6) by (auto simp: grown_def unchanged_def)
  moreover have "xnodes w2 (fresh w) = xnodes w1 (fresh w)" "fresh w < fresh w2" using 1(3) 2(6) by (simp_all add: grown_def)
  moreover have "set ns \<inter> live (mem w) = {}" using 2(4) 1(8) by (auto simp: grown_def)
  ultimately show ?thesis using that [of w1 w2 n ns] 1 2 by simp
qed

lemma add_contents_listed:
  assumes ok: "xml_ok X kids nm live" "document_ok X kids nm live"
    and w: "root_of w d = Some r" "forest kids (mem w)" "r \<in> live (mem w)"
  obtains w' c where "add_contents X d w = Some w'" "kids r (mem w') = kids r (mem w) @ [c]"
    "listed X kids nm (mem w') c" "c \<notin> live (mem w)" "set (kids c (mem w')) \<inter> live (mem w) = {}" "grown X kids nm live d {r} w w'" "forest kids (mem w')"
proof -
  obtain w1 w2 c ns where 1: "AllocateNode X d (xml_chars ''Contents'') [] w = Some (fresh w, w1)"
    "in_order (add_to_node X d (fresh w)) object_fields w1 = Some w2"
    "xnodes w2 (fresh w) = Some \<lparr>node_name = xml_chars ''Contents'', node_value = [], node_doc = Some d, rep_node = Some c\<rparr>"
    "fresh w < fresh w2" "c \<notin> live (mem w)" "c \<in> live (mem w2)" "nm c (mem w2) = xml_chars ''Contents''"
    "x_value X c (mem w2) = []" "kids c (mem w2) = ns" "pairs X nm ns (mem w2) = object_fields"
    "set ns \<inter> live (mem w) = {}" "set ns \<subseteq> live (mem w2)" "grown X kids nm live d {} w w2" "loose kids c (mem w2)"
    "forest kids (mem w2)" "\<forall>q. q \<noteq> c \<longrightarrow> kids q (mem w2) = kids q (mem w)"
    by (rule filled_node [OF ok w(1,2) demo_strings(1,4)])
  have r2: "root_of w2 d = Some r" "c \<noteq> r" using 1(5,13) w by (auto simp: grown_def)
  obtain w3 w4 n ms where 3: "AllocateNode X d (xml_chars ''Owner'') [] w2 = Some (fresh w2, w3)"
    "in_order (add_to_node X d (fresh w2)) owner_fields w3 = Some w4"
    "xnodes w4 (fresh w2) = Some \<lparr>node_name = xml_chars ''Owner'', node_value = [], node_doc = Some d, rep_node = Some n\<rparr>"
    "fresh w2 < fresh w4" "n \<notin> live (mem w2)" "n \<in> live (mem w4)" "nm n (mem w4) = xml_chars ''Owner''"
    "x_value X n (mem w4) = []" "kids n (mem w4) = ms" "pairs X nm ms (mem w4) = owner_fields"
    "set ms \<inter> live (mem w2) = {}" "set ms \<subseteq> live (mem w4)" "grown X kids nm live d {} w2 w4" "loose kids n (mem w4)"
    "forest kids (mem w4)" "\<forall>q. q \<noteq> n \<longrightarrow> kids q (mem w4) = kids q (mem w2)"
    by (rule filled_node [OF ok r2(1) 1(15) demo_strings(2,5)])
  have cn: "n \<noteq> c" "c \<in> live (mem w4)" "n \<notin> live (mem w)" "n \<noteq> r"
    using 1(6,13) 3(5,13) w(3) by (auto simp: grown_def)
  have l4: "loose kids c (mem w4)" using 1(6,14) 3(9,11,16) unfolding loose_def by (metis disjoint_iff)
  have kc4: "kids c (mem w4) = ns" using 1(9) 3(16) cn(1) by simp
  have x4: "xnodes w4 (fresh w) = xnodes w2 (fresh w)" using 1(4) 3(13) by (simp add: grown_def)
  obtain w5 where 5: "append_child X c (fresh w2) w4 = Some w5" "live (mem w5) = live (mem w4)"
    "\<forall>q. kids q (mem w5) = (if q = c then kids c (mem w4) @ [n] else kids q (mem w4))"
    "grown X kids nm live d {c} w4 w5" "xnodes w5 = xnodes w4" "forest kids (mem w5)"
    by (rule attached [OF ok(1) _ _ cn(2) 3(6) cn(1) 3(14,15), where d = d]) (use 3(3) in auto)
  have l5: "loose kids c (mem w5)" using l4 cn(1) 5(3) unfolding loose_def by auto
  have g04: "grown X kids nm live d {} w w4" using grown_trans [OF 1(13) 3(13)] by simp
  have "{c} \<inter> live (mem w) \<subseteq> {}" using 1(5) by simp
  from grown_trans [OF g04 5(4) this] have g05: "grown X kids nm live d {} w w5" .
  have r5: "r \<in> live (mem w5)" "root_of w5 d = Some r" using g05 w by (auto simp: grown_def)
  obtain w6 where 6: "append_child X r (fresh w) w5 = Some w6" "live (mem w6) = live (mem w5)"
    "\<forall>q. kids q (mem w6) = (if q = r then kids r (mem w5) @ [c] else kids q (mem w5))"
    "grown X kids nm live d {r} w5 w6" "forest kids (mem w6)"
    by (rule attached [OF ok(1) _ _ r5(1) _ r2(2) l5 5(6), where d = d and c = "fresh w"])
      (use x4 1(3) 5(2,5) cn(2) in auto)
  have run: "add_contents X d w = Some w6"
    using 1(1,2,3) 3(1,2,3) 5(1) 6(1) x4 r5(2)
    by (auto simp: add_contents_def AppendNode_def AppendToRoot_def root_of_def)
  have g06: "grown X kids nm live d {r} w w6"
    using grown_trans [OF grown_mono [OF g05, of "{r}"] 6(4)] by simp
  have kr: "kids r (mem w6) = kids r (mem w) @ [c]" using g05 w(3) 6(3) by (simp add: grown_def)
  have u4: "unchanged X kids nm (live (mem w4)) (mem w4) (mem w6)"
    using 5(2,4) 6(4) by (auto simp: grown_def unchanged_def)
  have u2: "unchanged X kids nm (live (mem w2)) (mem w2) (mem w6)"
    using u4 3(13) by (auto simp: grown_def unchanged_def)
  have kc: "kids c (mem w6) = ns @ [n]" "kids n (mem w6) = ms"
    using 3(9) 5(3) 6(3) kc4 r2(2) cn(1,4) by auto
  moreover have "pairs X nm ns (mem w6) = object_fields" using pairs_unchanged [where live = live and m = "mem w2", OF u2 1(12)] 1(10) by simp
  moreover have "pairs X nm ms (mem w6) = owner_fields" using pairs_unchanged [where live = live and m = "mem w4", OF u4 3(12)] 3(10) by simp
  moreover have "nm c (mem w6) = xml_chars ''Contents''" "x_value X c (mem w6) = []"
    using u2 1(6-8) by (auto simp: unchanged_def)
  moreover have "nm n (mem w6) = xml_chars ''Owner''" "x_value X n (mem w6) = []"
    using u4 3(6-8) by (auto simp: unchanged_def)
  ultimately have "listed X kids nm (mem w6) c" unfolding listed_def by blast
  moreover have "set (kids c (mem w6)) \<inter> live (mem w) = {}" using 1(11) cn(3) kc(1) by auto
  ultimately show ?thesis using that [OF run kr _ 1(5) _ g06 6(5)] by blast
qed

lemma listed_grown:
  assumes ok: "xml_ok X kids nm live" and g: "grown X kids nm live d {r} w w'"
    and l: "listed X kids nm (mem w) c" "c \<in> live (mem w)" "c \<noteq> r" "r \<notin> set (kids c (mem w))"
  shows "listed X kids nm (mem w') c"
proof -
  obtain ns n where k: "kids c (mem w) = ns @ [n]" "pairs X nm ns (mem w) = object_fields"
    "nm n (mem w) = xml_chars ''Owner''" "x_value X n (mem w) = []" "pairs X nm (kids n (mem w)) (mem w) = owner_fields"
    using l(1) unfolding listed_def by blast
  have u: "unchanged X kids nm (live (mem w)) (mem w) (mem w')" using g by (simp add: grown_def)
  note same = pairs_unchanged [where live = live and m = "mem w", OF u]
  have sub: "set (kids c (mem w)) \<subseteq> live (mem w)" "set (kids n (mem w)) \<subseteq> live (mem w)" by (rule xml_okD(1) [OF ok])+
  then have n: "n \<in> live (mem w)" "n \<noteq> r" "set ns \<subseteq> live (mem w)" using k(1) l(4) by auto
  have kids: "kids c (mem w') = ns @ [n]" "kids n (mem w') = kids n (mem w)"
    using g k(1) l(2,3) n by (simp_all add: grown_def)
  have "nm c (mem w') = xml_chars ''Contents''" "x_value X c (mem w') = []"
    "nm n (mem w') = xml_chars ''Owner''" "x_value X n (mem w') = []"
    using u l(1,2) k(3,4) n(1) by (auto simp: unchanged_def listed_def)
  with kids k(2,5) same [OF n(3)] same [OF sub(2)] show ?thesis unfolding listed_def by metis
qed

lemma contents_loop_listed:
  assumes ok: "xml_ok X kids nm live" "document_ok X kids nm live"
  shows "root_of w d = Some r \<Longrightarrow> forest kids (mem w) \<Longrightarrow> r \<in> live (mem w) \<Longrightarrow>
    \<exists>w' cs. contents_loop k X d w = Some w' \<and> kids r (mem w') = kids r (mem w) @ cs \<and> length cs = k
      \<and> (\<forall>c \<in> set cs. listed X kids nm (mem w') c) \<and> grown X kids nm live d {r} w w' \<and> forest kids (mem w')"
proof (induction k arbitrary: w)
  case 0
  then show ?case by (simp add: grown_refl)
next
  case (Suc k)
  obtain w1 c where 1: "add_contents X d w = Some w1" "kids r (mem w1) = kids r (mem w) @ [c]"
    "listed X kids nm (mem w1) c" "c \<notin> live (mem w)" "set (kids c (mem w1)) \<inter> live (mem w) = {}"
    "grown X kids nm live d {r} w w1" "forest kids (mem w1)"
    by (rule add_contents_listed [OF ok Suc.prems])
  have "root_of w1 d = Some r" "r \<in> live (mem w1)" using 1(6) Suc.prems by (auto simp: grown_def)
  from Suc.IH [OF this(1) 1(7) this(2)] obtain w' cs where 2: "contents_loop k X d w1 = Some w'"
    "kids r (mem w') = kids r (mem w1) @ cs" "length cs = k" "\<forall>c \<in> set cs. listed X kids nm (mem w') c"
    "grown X kids nm live d {r} w1 w'" "forest kids (mem w')" by blast
  have "c \<in> live (mem w1)" using xml_okD(1) [OF ok(1), of r "mem w1"] 1(2) by simp
  moreover have "c \<noteq> r" "r \<notin> set (kids c (mem w1))" using 1(4,5) Suc.prems(3) by auto
  ultimately have "listed X kids nm (mem w') c" using listed_grown [OF ok(1) 2(5) 1(3)] by blast
  moreover have "grown X kids nm live d {r} w w'" using grown_trans [OF 1(6) 2(5)] by simp
  ultimately show ?case using 1(1,2) 2 by (intro exI [of _ w'] exI [of _ "c # cs"]) simp
qed

section \<open>The document\<close>

lemma new_document:
  assumes ok: "xml_ok X kids nm live" "document_ok X kids nm live" and fo: "forest kids (mem w)"
  obtains d w' r where "S3XmlDoc_new X name value w = Some (d, w')" "root_of w' d = Some r" "r \<in> live (mem w')"
    "nm r (mem w') = c_str name" "x_value X r (mem w') = c_str value" "kids r (mem w') = []" "forest kids (mem w')"
proof -
  note law = ok(2) [unfolded document_ok_def, THEN conjunct1] ok(2) [unfolded document_ok_def, THEN conjunct2, THEN conjunct1]
    ok(2) [unfolded document_ok_def, THEN conjunct2, THEN conjunct2, THEN conjunct1]
    ok(2) [unfolded document_ok_def, THEN conjunct2, THEN conjunct2, THEN conjunct2]
  have live: "set (kids p m) \<subseteq> live m" for p m by (rule xml_okD(1) [OF ok(1)])
  obtain dn m1 where m1: "x_document X (mem w) = (dn, m1)" by (metis surj_pair)
  have a1: "dn \<notin> live (mem w)" "live m1 = insert dn (live (mem w))" "\<forall>p. kids p m1 = kids p (mem w)"
    using law(1) m1 by blast+
  obtain rot m2 where m2: "x_allocate_node X dn node_pi (c_str xml_header) [] m1 = (rot, m2)" by (metis surj_pair)
  note a2 = xml_okD(4) [OF ok(1) m2 c_str_zero_free(1), simplified]
  have l2: "dn \<in> live m2" "rot \<in> live m2" "rot \<noteq> dn" "\<forall>q. rot \<notin> set (kids q m2)"
    using a1 a2 live [of _ "mem w"] by auto
  obtain m3 where m3: "x_append_node X dn rot m2 = Some m3" "live m3 = live m2"
    "\<forall>q. kids q m3 = (if q = dn then kids dn m2 @ [rot] else kids q m2)"
    using xml_okD(5) [OF ok(1) l2] by blast
  obtain r m4 where m4: "x_allocate_node X dn node_element (c_str name) (c_str value) m3 = (r, m4)" by (metis surj_pair)
  note a4 = xml_okD(4) [OF ok(1) m4 c_str_zero_free(1,1)]
  obtain at m5 where m5: "x_allocate_attribute X dn (xml_chars ''xmlns'') (c_str xml_ns) m4 = (at, m5)" by (metis surj_pair)
  have a5: "live m5 = live m4" "\<forall>p. kids p m5 = kids p m4" "unchanged X kids nm (live m4) m4 m5" using law(2) m5 by blast+
  let ?m6 = "x_append_attribute X r at m5"
  have a6: "live ?m6 = live m5" "\<forall>p. kids p ?m6 = kids p m5" "unchanged X kids nm (live m5) m5 ?m6"
    using law(3) by (simp_all add: Let_def)
  have k6: "\<forall>q. kids q ?m6 = kids q m3" and live6: "live ?m6 = insert r (live m3)" and r: "r \<notin> live m3"
    using a4 a5 a6 by simp_all
  have "kids r m3 = []" using law(4) r by blast
  moreover have "r \<notin> set (kids q m3)" for q using live [of q m3] r by blast
  moreover have "dn \<in> live m3" using l2(1) m3(2) by simp
  ultimately have l6: "dn \<in> live ?m6" "r \<in> live ?m6" "r \<noteq> dn" "\<forall>q. r \<notin> set (kids q ?m6)" "kids r ?m6 = []"
    using r by (auto simp: k6 live6)
  obtain m7 where m7: "x_append_node X dn r ?m6 = Some m7" "live m7 = live ?m6"
    "\<forall>q. kids q m7 = (if q = dn then kids dn ?m6 @ [r] else kids q ?m6)" "unchanged X kids nm (live ?m6) ?m6 m7"
    using xml_okD(5) [OF ok(1) l6(1-4)] by blast
  have f3: "forest kids m3" using fo a1 a2 l2 unfolding forest_def by (auto simp: m3(3))
  have "forest kids ?m6" using f3 unfolding forest_def by (simp add: k6)
  then have f7: "forest kids m7" using l6(4) unfolding forest_def by (auto simp: m7(3))
  have "nm r m7 = c_str name" "x_value X r m7 = c_str value"
    using a4 a5 a6 m7(2,4) by (auto simp: unchanged_def)
  moreover have "r \<in> live m7" "kids r m7 = []" using l6 m7(2,3) by auto
  ultimately show ?thesis
    using f7 m1 m2 m3(1) m4 m5 m7(1)
    by (intro that [of "fresh w" "w\<lparr>mem := m7, fresh := fresh w + 1, xdocs := (xdocs w)(fresh w \<mapsto>
       \<lparr>rnode_str = name, rnode_value = value, rnode = r, doc_node = dn, sub_nodes = []\<rparr>)\<rparr>" r])
      (simp_all add: S3XmlDoc_new_def root_of_def Let_def)
qed

text \<open>
  The demo builds the document it describes, for any number \<open>k\<close> of listed objects: no assertion of the library fails,
  the root has the nine fields of the listing as its first children, in order and with their values,
  and then \<open>k\<close> entries, each with its five fields and an owner with two.
\<close>
theorem s3_listing_built:
  assumes "xml_ok X kids nm live" "document_ok X kids nm live" "forest kids (mem w)"
  shows "\<exists>d w' r ns cs. build_listing k X w = Some (d, w') \<and> root_of w' d = Some r
    \<and> nm r (mem w') = xml_chars ''ListBucketResult'' \<and> kids r (mem w') = ns @ cs
    \<and> pairs X nm ns (mem w') = listing_fields \<and> length cs = k \<and> (\<forall>c \<in> set cs. listed X kids nm (mem w') c)"
proof -
  obtain d w1 r where 1: "S3XmlDoc_new X (xml_chars ''ListBucketResult'') [] w = Some (d, w1)" "root_of w1 d = Some r"
    "r \<in> live (mem w1)" "nm r (mem w1) = xml_chars ''ListBucketResult''" "kids r (mem w1) = []" "forest kids (mem w1)"
    by (rule new_document [OF assms, of "xml_chars ''ListBucketResult''" "[]"]) (auto simp: demo_strings)
  obtain w2 ns where 2: "in_order (add_to_root X d) listing_fields w1 = Some w2" "kids r (mem w2) = ns"
    "pairs X nm ns (mem w2) = listing_fields" "set ns \<subseteq> live (mem w2)" "grown X kids nm live d {r} w1 w2" "forest kids (mem w2)"
    using add_all_to_root [OF assms(1,2) 1(2,6,3), of listing_fields] 1(5) by (auto simp: demo_strings)
  have "root_of w2 d = Some r" "r \<in> live (mem w2)" using 1(2,3) 2(5) by (auto simp: grown_def)
  from contents_loop_listed [OF assms(1,2) this(1) 2(6) this(2), of k] obtain w3 cs where
    3: "contents_loop k X d w2 = Some w3" "kids r (mem w3) = ns @ cs" "length cs = k"
    "\<forall>c \<in> set cs. listed X kids nm (mem w3) c" "grown X kids nm live d {r} w2 w3" using 2(2) by auto
  have "pairs X nm ns (mem w3) = listing_fields"
    using pairs_unchanged [of X kids nm live "mem w2" "mem w3", OF _ 2(4)] 3(5) 2(3) by (simp add: grown_def)
  moreover have "root_of w3 d = Some r" "nm r (mem w3) = xml_chars ''ListBucketResult''"
    using 1(2-4) 2(5) 3(5) by (auto simp: grown_def unchanged_def)
  moreover have "build_listing k X w = Some (d, w3)" using 1(1) 2(1) 3(1) by (simp add: build_listing_def)
  ultimately show ?thesis using 3(2-4) by blast
qed

lemma toy_document_ok: "document_ok toy_xml toy_kids (\<lambda>n m. t_name m n) toy_live"
  unfolding document_ok_def Let_def
proof (intro conjI allI impI)
  fix m n m' assume "x_document toy_xml m = (n, m')"
  then have "(n, m') = toy_new [] [] m" by (simp add: toy_xml_def)
  then show "n \<notin> toy_live m" "toy_live m' = insert n (toy_live m)" "\<And>p. toy_kids p m' = toy_kids p m"
    "unchanged toy_xml toy_kids (\<lambda>n m. t_name m n) (toy_live m) m m'"
    by (auto simp: toy_new_def toy_live_def toy_xml_def toy_kids_def unchanged_def intro!: filter_cong)
qed (auto simp: toy_xml_def toy_live_def toy_kids_def unchanged_def)

theorem s3_listing_built_witness:
  "\<exists>d w r. build_listing 2 toy_xml toy_world = Some (d, w) \<and> root_of w d = Some r \<and> length (toy_kids r (mem w)) = 11"
proof -
  have "forest toy_kids (mem toy_world)" by (simp add: forest_def toy_kids_def toy_world_def)
  from s3_listing_built [OF toy_xml_ok toy_document_ok this, of 2] obtain d w r ns cs where
    b: "build_listing 2 toy_xml toy_world = Some (d, w)" "root_of w d = Some r" "toy_kids r (mem w) = ns @ cs"
    "pairs toy_xml (\<lambda>n m. t_name m n) ns (mem w) = listing_fields" "length cs = 2"
    by (elim exE conjE) (rule that)
  have "length (pairs toy_xml (\<lambda>n m. t_name m n) ns (mem w)) = 9" unfolding b(4) by (simp add: listing_fields_def)
  then have "length (toy_kids r (mem w)) = 11" using b(3,5) by (simp add: pairs_def)
  with b(1,2) show ?thesis by blast
qed

end
