(* ===== verification/Spec2Isabelle.thy ===== *)
theory Spec2Isabelle
  imports Hash Hashtable_Dict Shmmq_Pipe Shmmq_Tests Zmalloc_Threads Ae_Server_Props Http_Roundtrip Http_Chunk_Size
    Tcp_Server_Props Demos S3_Xml_Props S3_Demo
begin

text \<open>
  Verification development for the \<open>cclab\<close> repository, a collection of small C and C++ libraries and
  demo servers. The libraries are independent of each other except where said below.

  Parts of the program and the theories that model them. One definition models one function, state
  of a state machine or loop of the source, under the name it has there; a theory without
  definitions of code holds an invariant, a contract or properties.

  \<^bold>\<open>Hash table\<close> (\<open>hashtable/\<close>). \<open>Hash\<close> models \<open>hash.c\<close>, both byte orders with all aligned and unaligned read
  paths, over a byte memory. \<open>Hashtable\<close> models \<open>hashtable.c\<close> and \<open>hashtable.h\<close>: a heap of items that are linked in the list
  of all items and in the chain of their bucket. \<open>Hashtable_Inv\<close> has the representation invariant and what each
  loop and pointer assignment does to it, \<open>Hashtable_Ops\<close> the operations against an association list,
  \<open>Hashtable_Iter\<close> the two iterations, \<open>Dict\<close> the contract of a dictionary (a locale) and \<open>Hashtable_Dict\<close> its
  interpretation by the table, from which sequences of calls follow.

  \<^bold>\<open>Shared-memory queue\<close> (\<open>shmmq/\<close>). \<open>Shmmq\<close> models \<open>shmmq.c\<close> and \<open>semutil.c\<close>: two free-running 32-bit positions, the bytes of
  the segment and the process's globals. The kernel's answers are an argument of every operation, the
  system calls made a part of its result. \<open>Fifo\<close> is the contract of a bounded queue (a locale), \<open>Shmmq_Queue\<close> the
  invariant, the interpretation and the properties, among them what goes wrong when the number
  of slots does not divide \<open>2 ^ 32\<close>. \<open>Shmmq_Procs\<close> models the same operations as the statements of several processes that any
  scheduler may interleave and that may die at every statement, also in the middle of a copy into the segment; the
  kernel's semaphore is a parameter there, which undoes the operations of a dead process that asked for it, and the
  specification is a list on which every call has one moment of effect. \<open>Shmmq_Procs_Inv\<close> has the invariant of the lock and
  the simulation (an interpretation of the locale of \<open>Simulation\<close>), \<open>Shmmq_Procs_Props\<close> what follows for every scheduler and that the
  statements of a call, executed alone, are the operation of \<open>Shmmq\<close>; \<open>Shmmq_Pipe\<close> follows the messages from a sender to a
  receiver. \<open>Shmmq_Tests\<close> models the programs of \<open>shmmq/test/\<close>.

  \<^bold>\<open>Event loop\<close> (\<open>ae/\<close>). \<open>Zmalloc\<close> models \<open>zmalloc.c\<close>, the allocator that counts what it has handed out; \<open>Zmalloc_Threads\<close>
  lets threads interleave inside its accounting macros, with the mutex and without it. \<open>Ae\<close> models \<open>ae.c\<close> on
  \<open>ae_epoll.c\<close>: the event array, the list of time events and the descriptor behind them; \<open>Ae_Events\<close> and \<open>Ae_Time\<close> have the
  consistency of the array with the kernel's interest list, the time events and the dispatch. \<open>Ae_Lifetime\<close>
  composes the loop with the allocator: what creating and deleting loops and time events
  allocates, frees and leaks. \<open>Ae_Server\<close> models \<open>main.c\<close>, a server on the loop, and \<open>Ae_Server_Props\<close> shows
  that its iterations keep the registered clients open and watched, which clients are lost, and when an iteration does
  not return.

  \<^bold>\<open>HTTP server\<close> (\<open>httpserver/\<close>). \<open>Http_Defs\<close>, \<open>Http_Url\<close> and \<open>Http_Parser\<close> model \<open>http_parser.h\<close> and \<open>http_parser.cc\<close>: the tables and
  enumerations, the URL parser, and \<open>http_parser_execute\<close> with one definition for each group of states of its
  switch, in its order. \<open>Http_Parser_Inv\<close> is the safety proof (an invariant for the parser object and one for
  the local variables, kept by every state), \<open>Http_Parser_Props\<close> the properties for all inputs, \<open>Http_Traces\<close>
  concrete runs and witnesses, \<open>Http_Chunk_Size\<close> the size line of a chunk from its first digit to its end, \<open>Http_Roundtrip\<close> the parsing of printed requests and \<open>Http_Data\<close> that the
  parser touches its user data through the callbacks only. \<open>Iobuf\<close> models \<open>iobuf.cc\<close> and \<open>iobuf.h\<close>, with the invariant in
  \<open>Iobuf_Inv\<close>, the operations in \<open>Iobuf_Ops\<close> and \<open>Iobuf_Append\<close> and the properties in \<open>Iobuf_Props\<close>. \<open>Http_Server\<close> models
  \<open>http_server.cc\<close>: the context of a connection, which owns a parser, whose callbacks fill the context, and a
  buffer; \<open>Http_Server_Props\<close> composes the safety of both. \<open>Tcp_Server\<close> models \<open>tcp_server.cc\<close> and the servers on it (also those
  of \<open>main.cc\<close>) as handlers of completion events, and \<open>main\<close>; \<open>Tcp_Server_Props\<close> has their executions, the contract
  between the server and an application (a locale) and its interpretations.

  \<^bold>\<open>Resource cache\<close> (\<open>resource_cache/\<close>). \<open>Resource_Cache\<close> models \<open>resource_cache.h\<close>; \<open>Lru\<close> is the contract of a bounded cache (a locale),
  \<open>Resource_Cache_Lru\<close> its interpretation and the properties. The circular lists of the cache and of the block buffer
  share the lemmas of \<open>Dll\<close>.

  \<^bold>\<open>Tag stripper\<close> (\<open>php_strip_tags/\<close>). \<open>Strip_Tags\<close> models \<open>php_strip_tags.c\<close>, \<open>Strip_Tags_Props\<close> has its safety and what it removes and keeps.
  \<open>Demos\<close> models the demo programs of the cache and of the stripper.

  \<^bold>\<open>S3 documents\<close> (\<open>s3xml/\<close>). \<open>S3_Xml\<close> models \<open>s3_xml.cc\<close> on the library rapidxml, \<open>S3_Xml_Props\<close> the round trip from building a
  document to searching it, \<open>S3_Demo\<close> the program \<open>s3xml/main.cc\<close> and the document that it builds.

  \<open>Prelude\<close> holds the machine types, byte memories and lemmas that the parts share.

  What the groups of lemmas show. Refinement: any sequence of calls of the table, the queue, the cache and
  the block buffer returns what an association list, a bounded FIFO list, a bounded list ordered by the
  last \<open>Set\<close> and a list of bytes return. Concurrency: under every scheduler the queue is linearizable, its
  processes exclude each other, none waits for good while nobody holds the lock, each call ends after at most seven statements of its own, and the death of
  one of them frees the lock; the allocator's counters lose no update when its mutex is enabled. Safety: the parsers and the tag stripper neither fail an
  assertion nor touch memory outside their objects, on any input (for the tag stripper on texts without zero bytes
  and a fresh state), and the handlers of the servers, run one after the other, fail only where the \<open>close\<close> of a
  socket throws. Round trips: requests, query strings and documents that were printed or built are read back. Exactness:
  the method of a request is recorded letter for letter, numbers are computed without wrap-around or refused, and the allocator's count is the sum of the live blocks. Beside
  these, theorems that show where the code does not do what it means to, each at the definition it concerns.

  Conventions. \<open>None\<close> as the outcome of an operation is undefined behaviour (an access outside an object, a null
  dereference, a failed assertion) or a loop that does not end; a theorem that an operation yields \<open>Some\<close>
  therefore includes its safety and termination. Machine integers that can wrap are words of their
  width. Loops over pointers and the loops of the event loop, of \<open>send\<close>, of the parser and of \<open>IOBuf::Append\<close> are partial
  functions, so that not returning is \<open>None\<close>; the loops over lists and bytes are structurally recursive. There is
  no fuel in a definition of code; the bound of \<open>collect\<close> in \<open>S3_Xml_Props\<close> belongs to the client's loop and is the
  number of children, and the 7 of \<open>alone\<close> in \<open>Shmmq_Procs_Props\<close> is the largest number of statements of a call. Where processes
  or threads interleave, a label is one step of one of them; a label that cannot be taken yields \<open>None\<close>, and a statement of
  a process is \<open>Undefined\<close>, \<open>Blocked\<close> or goes on.

  Scope of the stronger statements. A pass over the time events is proved to return and to run each due event once when
  its clock readings lie in a window that is shorter than the intervals the callbacks ask for; \<open>send\<close> may take any part of
  what it is offered and refuse it any number of times, and the only way not to return is a socket that refuses for ever;
  names and values of XML elements are C strings and end at their first zero byte; stripping twice is stripping once
  without a list of allowed tags; the size line of a chunk is in ASCII. Where more would be false, a theorem next to
  the property shows a case.

  Parameters. Code that is not in the repository is an argument of the definitions: the kernel's calls (\<open>epoll\<close>, \<open>select\<close>,
  the clock, the socket calls, the semaphore and shared-memory calls), \<open>malloc\<close> and \<open>realloc\<close>, the callbacks of an application, rapidxml, and
  the order of the completions of \<open>boost::asio\<close>. What a theorem relies on is a named predicate (\<open>epoll_ok\<close>, \<open>sys_ok\<close>,
  \<open>send_ok\<close>, \<open>clock_window\<close>, \<open>kernel_ok\<close>, \<open>fresh_alloc\<close>, \<open>benign\<close>, \<open>xml_ok\<close>, \<open>document_ok\<close>, \<open>event_possible\<close>), which states their documented behaviour; the witnesses instantiate them.

  Not modelled. Threads are interleaved for the queue and for the allocator's accounting only: the mutex of the cache
  is held from the beginning to the end of \<open>Get\<close> and \<open>Set\<close>, so that these are atomic, and the server's handlers run one after the other
  although the server starts three threads; two handlers of one connection that use its socket at the same time are outside the model. In the processes of the queue, \<open>shmmq_open\<close> is its semaphore calls and its
  critical section, with the shared memory granted by the kernel, and the memory is sequentially consistent. Output
  on terminals and logs, except for the lines that the test programs and demos print about their calls. The big-endian hash is modelled, the variants of \<open>zmalloc.c\<close> with \<open>malloc_size\<close> and of
  \<open>zmalloc_get_rss\<close> without procfs are not, nor is the fragmentation ratio (a floating-point quotient). \<open>slabs.c\<close> holds only commented-out code and
  \<open>hashtable/main.c\<close> does nothing. In \<open>s3xml\<close> the strings that XML nodes refer to
  are copied, so that a change of them by \<open>FindFirstNode\<close> does not show.
\<close>

end
